(* ===== verification/Nox_Prelude.thy ===== *)
theory Nox_Prelude
  imports Main "HOL-Library.While_Combinator"
begin

text \<open>
  What every component of the development shares: results of fallible code as sums
  (\<open>Inl\<close> the error), the sequencing combinator \<open>onOk\<close> that stops at the first error the
  way a Go function returns \<open>err\<close>, and the list lemmas the table-shaped components use
  (rows found by a key, rows updated in place, rows filtered out).
\<close>

section \<open>Fallible steps\<close>

text \<open>
  \<open>onOk m f\<close> is the Go idiom \<open>x, err := m; if err != nil { return err }; f(x)\<close>.
\<close>

definition onOk :: "'e + 'a \<Rightarrow> ('a \<Rightarrow> 'e + 'b) \<Rightarrow> 'e + 'b" where
  "onOk m f = (case m of Inl e \<Rightarrow> Inl e | Inr x \<Rightarrow> f x)"

named_theorems tx_simps \<open>equations that open a fallible step\<close>

lemma onOk_Inl [simp]: "onOk (Inl e) f = Inl e"
  by (simp add: onOk_def)

lemma onOk_Inr [simp]: "onOk (Inr x) f = f x"
  by (simp add: onOk_def)

lemma onOk_eq_Inr [simp, tx_simps]: "onOk m f = Inr y \<longleftrightarrow> (\<exists>x. m = Inr x \<and> f x = Inr y)"
  by (cases m) auto

lemma onOk_eq_Inl [tx_simps]:
  "onOk m f = Inl e \<longleftrightarrow> m = Inl e \<or> (\<exists>x. m = Inr x \<and> f x = Inl e)"
  by (cases m) auto

lemma onOk_cong [fundef_cong]:
  "m = m' \<Longrightarrow> (\<And>x. m' = Inr x \<Longrightarrow> f x = f' x) \<Longrightarrow> onOk m f = onOk m' f'"
  by (cases m') auto

text \<open>A call whose error the caller turns into another one.\<close>

definition map_err :: "('e \<Rightarrow> 'f) \<Rightarrow> 'e + 'a \<Rightarrow> 'f + 'a" where
  "map_err f m = (case m of Inl e \<Rightarrow> Inl (f e) | Inr x \<Rightarrow> Inr x)"

lemma map_err_simps [simp]:
  "map_err f (Inl e) = Inl (f e)" "map_err f (Inr x) = Inr x" "map_err f m = Inr x \<longleftrightarrow> m = Inr x"
  by (auto simp: map_err_def split: sum.splits)

section \<open>Rows of a table\<close>

text \<open>
  A table is the list of its rows in insertion order. A lookup by a unique column is
  \<open>List.find\<close>, an \<open>UPDATE ... WHERE\<close> is \<open>update_where\<close>, a \<open>DELETE ... WHERE\<close> is \<open>filter\<close>.
\<close>

definition update_where :: "('r \<Rightarrow> bool) \<Rightarrow> ('r \<Rightarrow> 'r) \<Rightarrow> 'r list \<Rightarrow> 'r list" where
  "update_where P g rs = map (\<lambda>r. if P r then g r else r) rs"

text \<open>How many rows the update touches: \<open>RowsAffected\<close>.\<close>

definition affected :: "('r \<Rightarrow> bool) \<Rightarrow> 'r list \<Rightarrow> nat" where
  "affected P rs = length (filter P rs)"

lemma length_update_where [simp]: "length (update_where P g rs) = length rs"
  by (simp add: update_where_def)

lemma update_where_Nil [simp]: "update_where P g [] = []"
  by (simp add: update_where_def)

lemma update_where_Cons [simp]:
  "update_where P g (r # rs) = (if P r then g r else r) # update_where P g rs"
  by (simp add: update_where_def)

lemma update_where_append [simp]:
  "update_where P g (rs @ rs') = update_where P g rs @ update_where P g rs'"
  by (simp add: update_where_def)

lemma set_update_where:
  "set (update_where P g rs) = (\<lambda>r. if P r then g r else r) ` set rs"
  by (simp add: update_where_def)

lemma in_update_where: "x \<in> set (update_where P g xs) \<longleftrightarrow> (\<exists>y \<in> set xs. x = (if P y then g y else y))"
  unfolding set_update_where image_iff by (rule refl)

lemma update_where_none: "\<forall>r \<in> set rs. \<not> P r \<Longrightarrow> update_where P g rs = rs"
  by (induction rs) auto

lemma map_update_where_key:
  "(\<And>r. P r \<Longrightarrow> key (g r) = key r) \<Longrightarrow> map key (update_where P g rs) = map key rs"
  by (induction rs) auto

lemma affected_0_iff: "affected P rs = 0 \<longleftrightarrow> (\<forall>r \<in> set rs. \<not> P r)"
  by (simp add: affected_def filter_empty_conv)

lemma find_SomeD: "List.find P xs = Some x \<Longrightarrow> x \<in> set xs \<and> P x"
  by (auto simp: find_Some_iff)

lemma find_None_conv: "List.find P xs = None \<longleftrightarrow> (\<forall>x \<in> set xs. \<not> P x)"
  by (auto simp: find_None_iff)

lemma find_key_eq:
  assumes "distinct (map key xs)" and "x \<in> set xs"
  shows "List.find (\<lambda>y. key y = key x) xs = Some x"
  using assms by (induction xs) force+

lemma find_key_Some_iff:
  assumes "distinct (map key xs)"
  shows "List.find (\<lambda>y. key y = k) xs = Some x \<longleftrightarrow> x \<in> set xs \<and> key x = k"
  using assms find_key_eq find_SomeD by fastforce

lemma distinct_key_eq: "distinct (map key xs) \<Longrightarrow> x \<in> set xs \<Longrightarrow> y \<in> set xs \<Longrightarrow> key x = key y \<Longrightarrow> x = y"
  by (meson distinct_map inj_onD)

lemma find_append: "List.find P (xs @ ys) = (case List.find P xs of None \<Rightarrow> List.find P ys | Some x \<Rightarrow> Some x)"
  by (induction xs) auto

lemma find_update_where:
  assumes "\<And>r. Q r \<Longrightarrow> P (g r) = P r"
  shows "List.find P (update_where Q g rs) =
    map_option (\<lambda>r. if Q r then g r else r) (List.find P rs)"
  using assms by (induction rs) auto

lemma find_cong_key: "(\<And>x. x \<in> set xs \<Longrightarrow> P x = Q x) \<Longrightarrow> List.find P xs = List.find Q xs"
  by (induction xs) auto

lemma length_filter_le_1_unique:
  "length (filter P xs) \<le> 1 \<Longrightarrow> x \<in> set xs \<Longrightarrow> y \<in> set xs \<Longrightarrow> P x \<Longrightarrow> P y \<Longrightarrow> x = y"
  by (induction xs) (auto simp: filter_empty_conv split: if_splits)

lemma sorted_wrt_append_last:
  "sorted_wrt R (xs @ [x]) \<longleftrightarrow> sorted_wrt R xs \<and> (\<forall>y \<in> set xs. R y x)"
  by (simp add: sorted_wrt_append)

end
