(* ===== verification/Go_Text.thy ===== *)
theory Go_Text
  imports Nox_Prelude
begin

text \<open>
  Go strings are byte strings, as HOL's \<open>string\<close> is. This theory models what the server
  uses of Go's text handling: UTF-8 decoding into runes with Go's treatment of invalid
  bytes (\<open>utf8.DecodeRuneInString\<close>, \<open>utf8.RuneCountInString\<close>), \<open>strings.TrimSpace\<close> and
  \<open>strings.Fields\<close>, and the two helpers \<open>internal/store/store.go\<close> builds on them:
  \<open>foldCase\<close>, which makes chat names comparable, and \<open>foldLine\<close>, which makes a message
  preview. The Unicode table behind \<open>unicode.SimpleFold\<close> is a parameter \<open>sf\<close>; what the code
  relies on is its documented law, that iterating it from a rune walks the rune's folding
  orbit and comes back.
\<close>

section \<open>Runes\<close>

type_synonym rune = nat

definition RuneError :: rune where
  "RuneError = 65533"

definition byte :: "char \<Rightarrow> nat" where
  "byte c = of_char c"

definition cont :: "nat \<Rightarrow> bool" where
  "cont b \<longleftrightarrow> 128 \<le> b \<and> b \<le> 191"

text \<open>
  The range the second byte of a sequence must be in, by its first byte: the accept
  ranges of \<open>unicode/utf8\<close>, which rule out overlong forms, surrogates and runes past
  U+10FFFF.
\<close>

definition second_ok :: "nat \<Rightarrow> nat \<Rightarrow> bool" where
  "second_ok a b \<longleftrightarrow>
     (if a = 224 then 160 \<le> b \<and> b \<le> 191
      else if a = 237 then 128 \<le> b \<and> b \<le> 159
      else if a = 240 then 144 \<le> b \<and> b \<le> 191
      else if a = 244 then 128 \<le> b \<and> b \<le> 143
      else 128 \<le> b \<and> b \<le> 191)"

text \<open>The first rune of a string and how many bytes it takes; an invalid byte is \<open>RuneError\<close>, width 1.\<close>

fun decode_rune :: "nat list \<Rightarrow> rune \<times> nat" where
  "decode_rune [] = (RuneError, 0)"
| "decode_rune (a # bs) =
     (if a < 128 then (a, 1)
      else if 194 \<le> a \<and> a \<le> 223 then
        (case bs of b # _ \<Rightarrow> if cont b then ((a - 192) * 64 + (b - 128), 2) else (RuneError, 1)
                  | [] \<Rightarrow> (RuneError, 1))
      else if 224 \<le> a \<and> a \<le> 239 then
        (case bs of b # c # _ \<Rightarrow>
           if second_ok a b \<and> cont c
           then ((a - 224) * 4096 + (b - 128) * 64 + (c - 128), 3) else (RuneError, 1)
         | _ \<Rightarrow> (RuneError, 1))
      else if 240 \<le> a \<and> a \<le> 244 then
        (case bs of b # c # d # _ \<Rightarrow>
           if second_ok a b \<and> cont c \<and> cont d
           then ((a - 240) * 262144 + (b - 128) * 4096 + (c - 128) * 64 + (d - 128), 4)
           else (RuneError, 1)
         | _ \<Rightarrow> (RuneError, 1))
      else (RuneError, 1))"

lemma decode_rune_width_pos: "snd (decode_rune (a # bs)) > 0"
  by (auto split: list.splits)

lemma decode_rune_width_le: "snd (decode_rune bs) \<le> length bs"
  by (cases bs) (auto split: list.splits)

declare decode_rune.simps [simp del]

text \<open>A string cut into its runes, each with the bytes it was read from.\<close>

function runes :: "string \<Rightarrow> (rune \<times> string) list" where
  "runes [] = []"
| "runes (c # cs) =
     (let (r, w) = decode_rune (map byte (c # cs))
      in (r, take w (c # cs)) # runes (drop w (c # cs)))"
  by pat_completeness auto
termination
proof (relation "measure length", goal_cases)
  case 1
  then show ?case by simp
next
  case (2 c cs p r w)
  then have "w = snd (decode_rune (byte c # map byte cs))"
    by (metis list.simps(9) snd_conv)
  then have "0 < w" using decode_rune_width_pos by metis
  then show ?case by simp
qed

definition RuneCountInString :: "string \<Rightarrow> nat" where
  "RuneCountInString s = length (runes s)"

text \<open>\<open>utf8.AppendRune\<close>: surrogates and anything past U+10FFFF become \<open>RuneError\<close>.\<close>

definition valid_rune :: "rune \<Rightarrow> bool" where
  "valid_rune r \<longleftrightarrow> r < 55296 \<or> (57344 \<le> r \<and> r \<le> 1114111)"

definition encode_bytes :: "rune \<Rightarrow> nat list" where
  "encode_bytes r0 =
     (let r = (if valid_rune r0 then r0 else RuneError)
      in if r < 128 then [r]
         else if r < 2048 then [192 + r div 64, 128 + r mod 64]
         else if r < 65536 then [224 + r div 4096, 128 + r div 64 mod 64, 128 + r mod 64]
         else [240 + r div 262144, 128 + r div 4096 mod 64, 128 + r div 64 mod 64, 128 + r mod 64])"

definition encode_rune :: "rune \<Rightarrow> string" where
  "encode_rune r = map char_of (encode_bytes r)"

section \<open>Spaces\<close>

text \<open>\<open>unicode.IsSpace\<close>: the White\_Space property.\<close>

definition IsSpace :: "rune \<Rightarrow> bool" where
  "IsSpace r \<longleftrightarrow> (9 \<le> r \<and> r \<le> 13) \<or> r = 32 \<or> r = 133 \<or> r = 160 \<or> r = 5760
     \<or> (8192 \<le> r \<and> r \<le> 8202) \<or> r = 8232 \<or> r = 8233 \<or> r = 8239 \<or> r = 8287 \<or> r = 12288"

definition bytes_of :: "(rune \<times> string) list \<Rightarrow> string" where
  "bytes_of rs = concat (map snd rs)"

definition TrimSpace :: "string \<Rightarrow> string" where
  "TrimSpace s =
     (let sp = (\<lambda>p. IsSpace (fst p))
      in bytes_of (rev (dropWhile sp (rev (dropWhile sp (runes s))))))"

text \<open>\<open>strings.Fields\<close>: the maximal runs of non-space runes.\<close>

function fields_of :: "(rune \<times> string) list \<Rightarrow> string list" where
  "fields_of rs =
     (let sp = (\<lambda>p. IsSpace (fst p)); r1 = dropWhile sp rs
      in if r1 = [] then []
         else bytes_of (takeWhile (\<lambda>p. \<not> sp p) r1) # fields_of (dropWhile (\<lambda>p. \<not> sp p) r1))"
  by pat_completeness auto
termination
proof (relation "measure length", goal_cases)
  case 1
  then show ?case by simp
next
  case (2 rs sp r1)
  have le: "length r1 \<le> length rs"
    using 2 by (simp add: length_dropWhile_le)
  have "r1 \<noteq> []" using 2 by simp
  then obtain x xs where r1: "r1 = x # xs" by (meson neq_Nil_conv)
  have "\<not> sp (hd r1)" using 2(2) \<open>r1 \<noteq> []\<close> hd_dropWhile by metis
  then have "\<not> sp x" by (simp add: r1)
  then have "length (dropWhile (\<lambda>p. \<not> sp p) r1) \<le> length xs"
    using r1 by (simp add: length_dropWhile_le)
  then show ?case using le r1 by simp
qed

declare fields_of.simps [simp del]

definition Fields :: "string \<Rightarrow> string list" where
  "Fields s = fields_of (runes s)"

fun Join :: "string list \<Rightarrow> string \<Rightarrow> string" where
  "Join [] sep = []"
| "Join [x] sep = x"
| "Join (x # y # ys) sep = x @ sep @ Join (y # ys) sep"

section \<open>foldLine: the 120-rune preview line\<close>

definition previewRunes :: nat where
  "previewRunes = 120"

definition foldLine :: "string \<Rightarrow> string" where
  "foldLine s =
     (let folded = Join (Fields s) '' ''
      in if RuneCountInString folded \<le> previewRunes then folded
         else concat (map (\<lambda>p. encode_rune (fst p)) (take previewRunes (runes folded))))"

section \<open>foldCase: case-insensitive names\<close>

text \<open>
  The loop of \<open>foldCase\<close>: \<open>for f := SimpleFold(r); f != r; f = SimpleFold(f)\<close>, keeping the
  least rune seen. \<open>fold_rune_opt\<close> is \<open>None\<close> when the loop never comes back to \<open>r\<close>.
\<close>

definition fold_rune_opt :: "(rune \<Rightarrow> rune) \<Rightarrow> rune \<Rightarrow> rune option" where
  "fold_rune_opt sf r =
     map_option snd (while_option (\<lambda>(f, least). f \<noteq> r)
       (\<lambda>(f, least). (sf f, if f < least then f else least)) (sf r, r))"

definition fold_rune :: "(rune \<Rightarrow> rune) \<Rightarrow> rune \<Rightarrow> rune" where
  "fold_rune sf r =
     snd (while (\<lambda>(f, least). f \<noteq> r)
       (\<lambda>(f, least). (sf f, if f < least then f else least)) (sf r, r))"

text \<open>\<open>strings.Map\<close> with that loop: every rune is re-encoded, an invalid byte as \<open>RuneError\<close>.\<close>

definition foldCase :: "(rune \<Rightarrow> rune) \<Rightarrow> string \<Rightarrow> string" where
  "foldCase sf s = concat (map (\<lambda>p. encode_rune (fold_rune sf (fst p))) (runes s))"

section \<open>Decoding what was encoded\<close>

lemma length_encode_bytes_pos: "encode_bytes r \<noteq> []"
  by (simp add: encode_bytes_def Let_def)

lemma encode_bytes_lt: "valid_rune r \<Longrightarrow> b \<in> set (encode_bytes r) \<Longrightarrow> b < 256"
  by (auto simp: encode_bytes_def valid_rune_def Let_def less_mult_imp_div_less split: if_splits)

lemma decode_encode_1: "r < 128 \<Longrightarrow> decode_rune (encode_bytes r @ bs) = (r, 1)"
  by (simp add: encode_bytes_def valid_rune_def decode_rune.simps)

lemma decode_encode_2:
  assumes "128 \<le> r" "r < 2048"
  shows "decode_rune (encode_bytes r @ bs) = (r, 2)"
proof -
  have "2 \<le> r div 64" "r div 64 \<le> 31" using assms by simp_all
  then show ?thesis
    using assms by (simp add: encode_bytes_def valid_rune_def decode_rune.simps cont_def)
qed

lemma rune_parts: "r div 64 = r div 4096 * 64 + r div 64 mod 64" for r :: nat
proof -
  have "r div 4096 = r div 64 div 64" by (simp add: div_mult2_eq [symmetric])
  then show ?thesis by simp
qed

lemma decode_encode_3:
  assumes "2048 \<le> r" "r < 65536" "valid_rune r"
  shows "decode_rune (encode_bytes r @ bs) = (r, 3)"
proof -
  define q m l where "q = r div 4096" and "m = r div 64 mod 64" and "l = r mod 64"
  have r: "r = q * 4096 + m * 64 + l"
    using rune_parts [of r] div_mult_mod_eq [of r 64] unfolding q_def m_def l_def by linarith
  have b: "q \<le> 15" "m < 64" "l < 64" using assms unfolding q_def m_def l_def by simp_all
  have e: "encode_bytes r = [224 + q, 128 + m, 128 + l]"
    using assms by (simp add: encode_bytes_def q_def m_def l_def)
  have s: "second_ok (224 + q) (128 + m)"
    using assms b by (auto simp: second_ok_def r valid_rune_def)
  show ?thesis unfolding e using s b r by (simp add: decode_rune.simps cont_def)
qed

lemma decode_encode_4:
  assumes "65536 \<le> r" "valid_rune r"
  shows "decode_rune (encode_bytes r @ bs) = (r, 4)"
proof -
  define q n m l where "q = r div 262144" and "n = r div 4096 mod 64"
    and "m = r div 64 mod 64" and "l = r mod 64"
  have "r div 4096 = q * 64 + n"
    using rune_parts [of "r div 64"] unfolding q_def n_def by (simp add: div_mult2_eq [symmetric])
  moreover have "r = r div 64 * 64 + l" unfolding l_def by simp
  ultimately have r: "r = q * 262144 + n * 4096 + m * 64 + l"
    using rune_parts [of r] unfolding m_def by linarith
  have b: "q \<le> 4" "n < 64" "m < 64" "l < 64"
    using assms unfolding q_def n_def m_def l_def by (simp_all add: valid_rune_def)
  have e: "encode_bytes r = [240 + q, 128 + n, 128 + m, 128 + l]"
    using assms by (simp add: encode_bytes_def q_def n_def m_def l_def)
  have s: "second_ok (240 + q) (128 + n)"
    using assms b by (auto simp: second_ok_def r valid_rune_def)
  show ?thesis unfolding e using s b r by (simp add: decode_rune.simps cont_def)
qed

lemma decode_encode:
  assumes "valid_rune r"
  shows "decode_rune (encode_bytes r @ bs) = (r, length (encode_bytes r))"
proof -
  have l: "length (encode_bytes r) = (if r < 128 then 1 else if r < 2048 then 2 else if r < 65536 then 3 else 4)"
    using assms by (simp add: encode_bytes_def)
  show ?thesis
    using decode_encode_1 [of r bs] decode_encode_2 [of r bs] decode_encode_3 [of r bs]
      decode_encode_4 [of r bs] assms by (auto simp: l)
qed

lemma valid_rune_3:
  assumes "224 \<le> a" "a \<le> 239" "second_ok a b" "cont c"
  shows "valid_rune ((a - 224) * 4096 + (b - 128) * 64 + (c - 128))"
proof (cases "a = 237")
  case True
  then show ?thesis using assms by (auto simp: valid_rune_def second_ok_def cont_def)
next
  case False
  have b: "b \<le> 191" "128 \<le> b" "c \<le> 191" "128 \<le> c"
    using assms by (auto simp: second_ok_def cont_def split: if_splits)
  consider "a \<le> 236" | "238 \<le> a" using False by linarith
  then show ?thesis
  proof cases
    case 1
    then show ?thesis unfolding valid_rune_def using b by (intro disjI1) linarith
  next
    case 2
    then have "14 * 4096 \<le> (a - 224) * 4096" "(a - 224) * 4096 \<le> 15 * 4096" using assms by simp_all
    then show ?thesis unfolding valid_rune_def using b by (intro disjI2 conjI) linarith+
  qed
qed

lemma valid_rune_4:
  assumes "240 \<le> a" "a \<le> 244" "second_ok a b" "cont c" "cont d"
  shows "valid_rune ((a - 240) * 262144 + (b - 128) * 4096 + (c - 128) * 64 + (d - 128))"
proof -
  have b: "b \<le> 191" "c \<le> 191" "d \<le> 191" and b244: "a = 244 \<Longrightarrow> b \<le> 143" and b240: "a = 240 \<Longrightarrow> 144 \<le> b"
    using assms by (auto simp: second_ok_def cont_def split: if_splits)
  define q m n l where "q = a - 240" and "m = b - 128" and "n = c - 128" and "l = d - 128"
  have bounds: "q \<le> 4" "m \<le> 63" "n \<le> 63" "l \<le> 63" "q = 4 \<longrightarrow> m \<le> 15" "q = 0 \<longrightarrow> 16 \<le> m"
  proof -
    have "q = 4 \<longrightarrow> a = 244" "q = 0 \<longrightarrow> a = 240" using assms(1,2) by (auto simp: q_def)
    then show "q = 4 \<longrightarrow> m \<le> 15" "q = 0 \<longrightarrow> 16 \<le> m" using b244 b240 unfolding m_def by linarith+
  qed (use b assms(1,2) in \<open>simp_all add: q_def m_def n_def l_def\<close>)
  have "q * 262144 + m * 4096 + n * 64 + l \<le> 1114111"
    using bounds by (cases "q = 4") auto
  moreover have "57344 \<le> q * 262144 + m * 4096 + n * 64 + l"
    using bounds by (cases "q = 0") auto
  ultimately have "a \<le> 244 \<and> (a - 240) * 262144 + (b - 128) * 4096 + (c - 128) * 64 + (d - 128) \<le> 1114111
      \<and> 57344 \<le> (a - 240) * 262144 + (b - 128) * 4096 + (c - 128) * 64 + (d - 128)"
    using assms(2) by (simp only: q_def m_def n_def l_def simp_thms)
  then show ?thesis by (simp add: valid_rune_def)
qed

lemma decode_rune_valid: "valid_rune (fst (decode_rune bs))"
proof (cases bs)
  case (Cons a cs)
  have 1: "valid_rune RuneError" "a < 128 \<Longrightarrow> valid_rune a"
    by (simp_all add: valid_rune_def RuneError_def)
  have 2: "a \<le> 223 \<Longrightarrow> cont b \<Longrightarrow> valid_rune ((a - 192) * 64 + (b - 128))" for b
    unfolding valid_rune_def cont_def by (intro disjI1) linarith
  show ?thesis
    unfolding Cons decode_rune.simps using 1 2 valid_rune_3 valid_rune_4 by (simp split: list.splits)
qed (simp add: decode_rune.simps valid_rune_def RuneError_def)

lemma map_byte_encode_rune: "valid_rune r \<Longrightarrow> map byte (encode_rune r) = encode_bytes r"
  using encode_bytes_lt [of r] unfolding encode_rune_def byte_def
  by (auto intro!: map_idI)

lemma runes_encode:
  assumes "valid_rune r"
  shows "runes (encode_rune r @ s) = (r, encode_rune r) # runes s"
proof -
  obtain c cs where e: "encode_rune r = c # cs"
    using length_encode_bytes_pos [of r] by (auto simp: encode_rune_def neq_Nil_conv)
  have "decode_rune (map byte (encode_rune r @ s)) = (r, length (encode_rune r))"
    using decode_encode [OF assms] map_byte_encode_rune [OF assms] by (simp add: encode_rune_def)
  then show ?thesis unfolding e by (simp del: list.map)
qed

lemma runes_concat_encode:
  assumes "\<forall>r \<in> set rs. valid_rune r"
  shows "map fst (runes (concat (map encode_rune rs))) = rs"
  using assms by (induction rs) (auto simp: runes_encode)

lemma runes_valid: "p \<in> set (runes s) \<Longrightarrow> valid_rune (fst p)"
proof (induction s rule: runes.induct)
  case (2 c cs)
  obtain r w where d: "decode_rune (map byte (c # cs)) = (r, w)" by fastforce
  have "valid_rune r" using decode_rune_valid [of "map byte (c # cs)"] d by simp
  then show ?case using 2 d by (auto simp del: list.map)
qed simp

lemma bytes_of_runes: "bytes_of (runes s) = s"
proof (induction s rule: runes.induct)
  case (2 c cs)
  obtain r w where d: "decode_rune (map byte (c # cs)) = (r, w)" by fastforce
  have "bytes_of (runes (drop w (c # cs))) = drop w (c # cs)" using 2 d by simp
  then have "take w (c # cs) @ bytes_of (runes (drop w (c # cs))) = c # cs" by simp
  moreover have "runes (c # cs) = (r, take w (c # cs)) # runes (drop w (c # cs))"
    using d by simp
  ultimately show ?case by (simp add: bytes_of_def)
qed (simp add: bytes_of_def)

lemma length_foldLine: "RuneCountInString (foldLine s) \<le> previewRunes"
proof -
  define folded where "folded = Join (Fields s) '' ''"
  define cut where "cut = map fst (take previewRunes (runes folded))"
  have "\<forall>r \<in> set cut. valid_rune r"
    using runes_valid by (fastforce simp: cut_def dest: in_set_takeD)
  then have "map fst (runes (concat (map encode_rune cut))) = cut"
    by (rule runes_concat_encode)
  then have "length (runes (concat (map encode_rune cut))) = length cut"
    by (metis length_map)
  moreover have "concat (map (\<lambda>p. encode_rune (fst p)) (take previewRunes (runes folded)))
      = concat (map encode_rune cut)"
    by (simp add: cut_def comp_def)
  ultimately show ?thesis
    unfolding foldLine_def Let_def folded_def [symmetric]
    by (simp add: RuneCountInString_def cut_def)
qed

section \<open>Folding orbits\<close>

definition orbit_of :: "(rune \<Rightarrow> rune) \<Rightarrow> rune \<Rightarrow> rune set" where
  "orbit_of sf r = {(sf ^^ n) r | n. True}"

text \<open>
  The documented law of \<open>unicode.SimpleFold\<close>: it permutes the runes in cycles, and stays
  inside Unicode.
\<close>

locale simple_fold =
  fixes sf :: "rune \<Rightarrow> rune"
  assumes returns: "\<exists>n > 0. (sf ^^ n) r = r"
    and stays_valid: "valid_rune r \<Longrightarrow> valid_rune (sf r)"
begin

definition period :: "rune \<Rightarrow> nat" where
  "period r = (LEAST n. n > 0 \<and> (sf ^^ n) r = r)"

lemma period_props: "period r > 0" "(sf ^^ period r) r = r"
  using LeastI_ex [OF returns [of r]] unfolding period_def by simp_all

lemma before_period: "0 < n \<Longrightarrow> n < period r \<Longrightarrow> (sf ^^ n) r \<noteq> r"
  using not_less_Least unfolding period_def by blast

lemma fold_loop:
  assumes "k < period r"
  shows "while_option (\<lambda>(f, least). f \<noteq> r) (\<lambda>(f, least). (sf f, if f < least then f else least))
      ((sf ^^ Suc k) r, Min ((\<lambda>i. (sf ^^ i) r) ` {..k}))
    = Some (r, Min ((\<lambda>i. (sf ^^ i) r) ` {..<period r}))"
  using assms
proof (induction "period r - Suc k" arbitrary: k)
  case 0
  then have k: "Suc k = period r" by simp
  then have "{..k} = {..<period r}" by auto
  then show ?case
    using k period_props(2) [of r] by (subst while_option_unfold) simp
next
  case (Suc d)
  then have k: "Suc k < period r" by simp
  have "{..Suc k} = insert (Suc k) {..k}" by auto
  then have "Min ((\<lambda>i. (sf ^^ i) r) ` {..Suc k})
      = min ((sf ^^ Suc k) r) (Min ((\<lambda>i. (sf ^^ i) r) ` {..k}))"
    by (simp del: funpow.simps)
  then have m: "Min ((\<lambda>i. (sf ^^ i) r) ` {..Suc k})
      = (if (sf ^^ Suc k) r < Min ((\<lambda>i. (sf ^^ i) r) ` {..k}) then (sf ^^ Suc k) r
         else Min ((\<lambda>i. (sf ^^ i) r) ` {..k}))"
    by (auto simp: min_def le_less simp del: funpow.simps Min_gr_iff Min_le_iff Min_less_iff)
  have "(sf ^^ Suc k) r \<noteq> r" using before_period [of "Suc k" r] k by blast
  moreover have "(sf ^^ Suc (Suc k)) r = sf ((sf ^^ Suc k) r)" by simp
  moreover have "while_option (\<lambda>(f, least). f \<noteq> r) (\<lambda>(f, least). (sf f, if f < least then f else least))
      ((sf ^^ Suc (Suc k)) r, Min ((\<lambda>i. (sf ^^ i) r) ` {..Suc k}))
    = Some (r, Min ((\<lambda>i. (sf ^^ i) r) ` {..<period r}))"
    using Suc(1) [of "Suc k"] Suc(2) k by linarith
  ultimately show ?case
    unfolding m by (subst while_option_unfold) (simp del: funpow.simps Min_gr_iff Min_le_iff)
qed

lemma fold_rune_opt_Some: "fold_rune_opt sf r = Some (Min ((\<lambda>i. (sf ^^ i) r) ` {..<period r}))"
  using fold_loop [of 0 r] period_props(1) [of r] by (simp add: fold_rune_opt_def)

lemma orbit_of_eq: "orbit_of sf r = (\<lambda>i. (sf ^^ i) r) ` {..<period r}"
proof
  show "orbit_of sf r \<subseteq> (\<lambda>i. (sf ^^ i) r) ` {..<period r}"
  proof
    fix x assume "x \<in> orbit_of sf r"
    then obtain n where "x = (sf ^^ n) r" by (auto simp: orbit_of_def)
    then have "x = (sf ^^ (n mod period r)) r"
      using funpow_mod_eq [OF period_props(2)] by metis
    then show "x \<in> (\<lambda>i. (sf ^^ i) r) ` {..<period r}"
      using period_props(1) [of r] by (intro image_eqI [where x = "n mod period r"]) simp_all
  qed
qed (auto simp: orbit_of_def)

lemma finite_orbit: "finite (orbit_of sf r)"
  by (simp add: orbit_of_eq)

lemma self_in_orbit: "r \<in> orbit_of sf r"
  unfolding orbit_of_def by (metis (mono_tags, lifting) funpow_0 mem_Collect_eq)

lemma fold_rune_eq: "fold_rune sf r = Min (orbit_of sf r)"
proof -
  have "fold_rune_opt sf r = Some (Min (orbit_of sf r))"
    by (simp add: fold_rune_opt_Some orbit_of_eq)
  then show ?thesis
    by (auto simp: fold_rune_opt_def fold_rune_def while_def)
qed

lemma orbit_member: "x \<in> orbit_of sf r \<Longrightarrow> orbit_of sf x = orbit_of sf r"
proof -
  assume "x \<in> orbit_of sf r"
  then obtain n where n: "x = (sf ^^ n) r" by (auto simp: orbit_of_def)
  let ?p = "period r"
  have "(sf ^^ (?p * n)) r = r"
    using funpow_mod_eq [OF period_props(2), of "?p * n" r] by simp
  moreover have "n \<le> ?p * n" using period_props(1) [of r] by simp
  ultimately have r: "r = (sf ^^ (?p * n - n)) x"
    unfolding n by (metis comp_apply funpow_add le_add_diff_inverse2)
  show "orbit_of sf x = orbit_of sf r"
  proof
    show "orbit_of sf x \<subseteq> orbit_of sf r"
      unfolding orbit_of_def n by (auto simp: funpow_add [symmetric, THEN fun_cong, simplified comp_apply])
    show "orbit_of sf r \<subseteq> orbit_of sf x"
      unfolding orbit_of_def
      by (subst r) (auto simp: funpow_add [symmetric, THEN fun_cong, simplified comp_apply])
  qed
qed

lemma fold_rune_in_orbit: "fold_rune sf r \<in> orbit_of sf r"
  using Min_in finite_orbit self_in_orbit by (metis empty_iff fold_rune_eq)

lemma fold_rune_eq_iff: "fold_rune sf a = fold_rune sf b \<longleftrightarrow> b \<in> orbit_of sf a"
  by (metis fold_rune_eq fold_rune_in_orbit orbit_member self_in_orbit)

lemma fold_rune_idem: "fold_rune sf (fold_rune sf r) = fold_rune sf r"
  by (metis fold_rune_eq_iff fold_rune_in_orbit)

lemma orbit_valid: "valid_rune r \<Longrightarrow> x \<in> orbit_of sf r \<Longrightarrow> valid_rune x"
proof -
  assume v: "valid_rune r" and "x \<in> orbit_of sf r"
  then obtain n where "x = (sf ^^ n) r" by (auto simp: orbit_of_def)
  moreover have "valid_rune ((sf ^^ n) r)" using v stays_valid by (induction n) auto
  ultimately show ?thesis by simp
qed

lemma runes_foldCase: "map fst (runes (foldCase sf s)) = map (\<lambda>p. fold_rune sf (fst p)) (runes s)"
proof -
  let ?rs = "map (\<lambda>p. fold_rune sf (fst p)) (runes s)"
  have "\<forall>r \<in> set ?rs. valid_rune r"
    using runes_valid [of _ s] orbit_valid [OF _ fold_rune_in_orbit] by fastforce
  then have "map fst (runes (concat (map encode_rune ?rs))) = ?rs"
    by (rule runes_concat_encode)
  then show ?thesis by (simp add: foldCase_def comp_def)
qed

lemma foldCase_eq_iff:
  "foldCase sf s = foldCase sf t \<longleftrightarrow>
     list_all2 (\<lambda>a b. b \<in> orbit_of sf a) (map fst (runes s)) (map fst (runes t))"
proof -
  have "foldCase sf s = foldCase sf t \<longleftrightarrow>
      map (fold_rune sf) (map fst (runes s)) = map (fold_rune sf) (map fst (runes t))"
  proof
    assume "foldCase sf s = foldCase sf t"
    then show "map (fold_rune sf) (map fst (runes s)) = map (fold_rune sf) (map fst (runes t))"
      using runes_foldCase [of s] runes_foldCase [of t] by (simp add: comp_def)
  next
    assume "map (fold_rune sf) (map fst (runes s)) = map (fold_rune sf) (map fst (runes t))"
    then have "concat (map encode_rune (map (fold_rune sf) (map fst (runes s))))
        = concat (map encode_rune (map (fold_rune sf) (map fst (runes t))))" by simp
    then show "foldCase sf s = foldCase sf t" by (simp add: foldCase_def comp_def)
  qed
  also have "\<dots> \<longleftrightarrow> list_all2 (\<lambda>a b. fold_rune sf a = fold_rune sf b) (map fst (runes s)) (map fst (runes t))"
    by (auto simp: list_eq_iff_nth_eq list_all2_conv_all_nth)
  finally show ?thesis by (simp add: fold_rune_eq_iff)
qed

lemma foldCase_idem: "foldCase sf (foldCase sf s) = foldCase sf s"
proof -
  have "foldCase sf (foldCase sf s)
      = concat (map encode_rune (map (fold_rune sf) (map fst (runes (foldCase sf s)))))"
    by (simp add: foldCase_def comp_def)
  then show ?thesis unfolding runes_foldCase by (simp add: foldCase_def fold_rune_idem comp_def)
qed

end

text \<open>
  \<open>unicode.SimpleFold\<close> on the blocks the development evaluates: Basic Latin with the
  Kelvin sign and the long s in their orbits, the Greek capitals with the final sigma in
  sigma's orbit, and the Cyrillic alphabet. A rune of another block is its own orbit here;
  the law holds of the whole.
\<close>

definition SimpleFold_table :: "rune \<Rightarrow> rune" where
  "SimpleFold_table r =
     (if r = 107 then 8490 else if r = 8490 then 75
      else if r = 115 then 383 else if r = 383 then 83
      else if 65 \<le> r \<and> r \<le> 90 then r + 32
      else if 97 \<le> r \<and> r \<le> 122 then r - 32
      else if r = 931 then 962 else if r = 962 then 963 else if r = 963 then 931
      else if 1040 \<le> r \<and> r \<le> 1071 then r + 32
      else if 1072 \<le> r \<and> r \<le> 1103 then r - 32
      else if 1024 \<le> r \<and> r \<le> 1039 then r + 80
      else if 1104 \<le> r \<and> r \<le> 1119 then r - 80
      else r)"

lemma SimpleFold_table_triples:
  "SimpleFold_table 75 = 107" "SimpleFold_table 107 = 8490" "SimpleFold_table 8490 = 75"
  "SimpleFold_table 83 = 115" "SimpleFold_table 115 = 383" "SimpleFold_table 383 = 83"
  "SimpleFold_table 931 = 962" "SimpleFold_table 962 = 963" "SimpleFold_table 963 = 931"
  by (simp_all add: SimpleFold_table_def)

lemma SimpleFold_table_latin:
  "65 \<le> r \<Longrightarrow> r \<le> 90 \<Longrightarrow> SimpleFold_table r = r + 32"
  "97 \<le> r \<Longrightarrow> r \<le> 122 \<Longrightarrow> r \<noteq> 107 \<Longrightarrow> r \<noteq> 115 \<Longrightarrow> SimpleFold_table r = r - 32"
  by (simp_all add: SimpleFold_table_def)

lemma SimpleFold_table_cyrillic:
  "1040 \<le> r \<Longrightarrow> r \<le> 1071 \<Longrightarrow> SimpleFold_table r = r + 32"
  "1072 \<le> r \<Longrightarrow> r \<le> 1103 \<Longrightarrow> SimpleFold_table r = r - 32"
  "1024 \<le> r \<Longrightarrow> r \<le> 1039 \<Longrightarrow> SimpleFold_table r = r + 80"
  "1104 \<le> r \<Longrightarrow> r \<le> 1119 \<Longrightarrow> SimpleFold_table r = r - 80"
  by (simp_all add: SimpleFold_table_def)

lemma SimpleFold_table_triple:
  "r \<in> {75, 107, 8490, 83, 115, 383, 931, 962, 963} \<Longrightarrow>
     SimpleFold_table (SimpleFold_table (SimpleFold_table r)) = r"
  by (elim insertE emptyE) (simp_all only: SimpleFold_table_triples)

lemma SimpleFold_table_other:
  assumes "r \<notin> {75, 107, 8490, 83, 115, 383, 931, 962, 963}"
    and "\<not> (65 \<le> r \<and> r \<le> 90)" "\<not> (97 \<le> r \<and> r \<le> 122)" "\<not> (1024 \<le> r \<and> r \<le> 1039)"
      "\<not> (1040 \<le> r \<and> r \<le> 1071)" "\<not> (1072 \<le> r \<and> r \<le> 1103)" "\<not> (1104 \<le> r \<and> r \<le> 1119)"
  shows "SimpleFold_table r = r"
  using assms unfolding SimpleFold_table_def by (simp only: insert_iff empty_iff de_Morgan_disj if_False simp_thms)

lemma SimpleFold_table_pair:
  assumes "r \<notin> {75, 107, 8490, 83, 115, 383, 931, 962, 963}"
  shows "SimpleFold_table (SimpleFold_table r) = r"
proof -
  consider "65 \<le> r \<and> r \<le> 90" | "97 \<le> r \<and> r \<le> 122" | "1024 \<le> r \<and> r \<le> 1039"
    | "1040 \<le> r \<and> r \<le> 1071" | "1072 \<le> r \<and> r \<le> 1103" | "1104 \<le> r \<and> r \<le> 1119"
    | "SimpleFold_table r = r"
    using SimpleFold_table_other [OF assms] by blast
  then show ?thesis
    using assms by cases (auto simp: SimpleFold_table_latin SimpleFold_table_cyrillic)
qed

lemma SimpleFold_table_range: "SimpleFold_table r = r \<or> SimpleFold_table r < 55296"
proof (cases "r \<in> {75, 107, 8490, 83, 115, 383, 931, 962, 963}")
  case True
  then show ?thesis by (elim insertE emptyE) (simp_all add: SimpleFold_table_triples)
next
  case False
  consider "65 \<le> r \<and> r \<le> 90" | "97 \<le> r \<and> r \<le> 122" | "1024 \<le> r \<and> r \<le> 1039"
    | "1040 \<le> r \<and> r \<le> 1071" | "1072 \<le> r \<and> r \<le> 1103" | "1104 \<le> r \<and> r \<le> 1119"
    | "SimpleFold_table r = r"
    using SimpleFold_table_other [OF False] by blast
  then show ?thesis
    using False by cases (auto simp: SimpleFold_table_latin SimpleFold_table_cyrillic)
qed

interpretation go_fold: simple_fold SimpleFold_table
proof
  show "\<exists>n > 0. (SimpleFold_table ^^ n) r = r" for r
  proof (cases "r \<in> {75, 107, 8490, 83, 115, 383, 931, 962, 963}")
    case True
    then have "(SimpleFold_table ^^ 3) r = r"
      using SimpleFold_table_triple by (simp add: numeral_3_eq_3)
    then show ?thesis by (intro exI [of _ 3]) simp
  next
    case False
    then have "(SimpleFold_table ^^ 2) r = r"
      using SimpleFold_table_pair by (simp add: numeral_2_eq_2)
    then show ?thesis by (intro exI [of _ 2]) simp
  qed
  show "valid_rune r \<Longrightarrow> valid_rune (SimpleFold_table r)" for r
    using SimpleFold_table_range [of r] by (auto simp: valid_rune_def)
qed

end
