(* ===== verification/Wire.thy ===== *)
theory Wire
  imports Go_Text
begin

text \<open>
  The wire model of \<open>internal/protocol\<close> (\<open>frames.go\<close>, \<open>errors.go\<close>) and what the server uses
  of \<open>encoding/json\<close>: JSON values as a tree (an object keeps its members in the order of the
  text, repeats included), and the decoding of a value into a Go struct, where a member
  belongs to a field when its name folds to the field's, the last member wins, \<open>null\<close> leaves
  the field alone and a value of the wrong type fails the whole decoding. Only the lexical
  step from the bytes of a frame to its tree, \<open>pj\<close>, is a parameter.
\<close>

section \<open>JSON values and struct decoding\<close>

text \<open>
  \<open>JInt\<close> is a number literal without fraction and exponent, \<open>JFrac\<close> any other: only the
  first decodes into a Go integer.
\<close>

datatype json =
    JNull
  | JBool bool
  | JInt int
  | JFrac string
  | JStr string
  | JArr "json list"
  | JObj "(string \<times> json) list"

definition int64_min :: int where
  "int64_min = - (2 ^ 63)"

definition int64_max :: int where
  "int64_max = 2 ^ 63 - 1"

definition in_int64 :: "int \<Rightarrow> bool" where
  "in_int64 n \<longleftrightarrow> int64_min \<le> n \<and> n \<le> int64_max"

definition field_vals :: "(rune \<Rightarrow> rune) \<Rightarrow> string \<Rightarrow> (string \<times> json) list \<Rightarrow> json list" where
  "field_vals sf name kvs = map snd (filter (\<lambda>kv. foldCase sf (fst kv) = foldCase sf name) kvs)"

fun dec_string :: "string \<Rightarrow> json list \<Rightarrow> string option" where
  "dec_string s [] = Some s"
| "dec_string s (JStr t # vs) = dec_string t vs"
| "dec_string s (JNull # vs) = dec_string s vs"
| "dec_string s (_ # vs) = None"

fun dec_int64 :: "int \<Rightarrow> json list \<Rightarrow> int option" where
  "dec_int64 n [] = Some n"
| "dec_int64 n (JInt m # vs) = (if in_int64 m then dec_int64 m vs else None)"
| "dec_int64 n (JNull # vs) = dec_int64 n vs"
| "dec_int64 n (_ # vs) = None"

fun dec_bool :: "bool \<Rightarrow> json list \<Rightarrow> bool option" where
  "dec_bool b [] = Some b"
| "dec_bool b (JBool c # vs) = dec_bool c vs"
| "dec_bool b (JNull # vs) = dec_bool b vs"
| "dec_bool b (_ # vs) = None"

text \<open>A \<open>json.RawMessage\<close> field keeps the last member as it is, \<open>null\<close> included; absent is empty.\<close>

definition dec_raw :: "json list \<Rightarrow> json option" where
  "dec_raw vs = (if vs = [] then None else Some (last vs))"

text \<open>A \<open>*T\<close> field: \<open>null\<close> makes it nil, a value allocates it.\<close>

fun dec_ptr :: "('a option \<Rightarrow> json \<Rightarrow> 'a option option) \<Rightarrow> 'a option \<Rightarrow> json list \<Rightarrow> 'a option option" where
  "dec_ptr d a [] = Some a"
| "dec_ptr d a (JNull # vs) = dec_ptr d None vs"
| "dec_ptr d a (v # vs) = (case d a v of None \<Rightarrow> None | Some a' \<Rightarrow> dec_ptr d a' vs)"

text \<open>The members a struct is decoded from: \<open>null\<close> has none, anything but an object fails.\<close>

definition members :: "json \<Rightarrow> (string \<times> json) list option" where
  "members v = (case v of JObj kvs \<Rightarrow> Some kvs | JNull \<Rightarrow> Some [] | _ \<Rightarrow> None)"

section \<open>Wire models\<close>

record Chat =
  ChatID :: string
  Name :: string
  CreatedAt :: int
  CreatedByLabel :: string
  LastMessagePreview :: string
  LastActivityAt :: int

record Attachment =
  att_FileID :: string
  att_Name :: string
  att_Size :: int
  att_Mime :: string
  att_ExpiresAt :: int

record Message =
  msg_MessageID :: string
  msg_Seq :: int
  msg_ChatID :: string
  msg_AuthorID :: string
  msg_AuthorLabel :: string
  msg_ClientMessageID :: string
  msg_SentAt :: int
  msg_Body :: "json option"
  msg_Attachment :: "Attachment option"

definition EventChatCreated :: string where "EventChatCreated = ''chat.created''"
definition EventChatUpdated :: string where "EventChatUpdated = ''chat.updated''"
definition EventMessageNew :: string where "EventMessageNew = ''message.new''"

section \<open>Frames\<close>

definition SchemaVersion :: int where
  "SchemaVersion = 1"

record Command =
  cmd_ID :: int
  cmd_Cmd :: string
  cmd_Data :: "json option"

record WireError =
  we_Code :: string
  we_Message :: string

record 'd Reply =
  rp_ID :: int
  rp_OK :: bool
  rp_Data :: "'d option"
  rp_Err :: "WireError option"

datatype parse_error = ParseFailed | ErrMissingCmd

text \<open>
  \<open>ParseCommand\<close>: a frame that is not an object, or whose fields have other types, fails
  outright with the zero command; an object without a command name keeps its id.
\<close>

definition zero_command :: Command where
  "zero_command = \<lparr>cmd_ID = 0, cmd_Cmd = '''', cmd_Data = None\<rparr>"

definition decode_command :: "(rune \<Rightarrow> rune) \<Rightarrow> json \<Rightarrow> Command option" where
  "decode_command sf v =
     (case members v of
        None \<Rightarrow> None
      | Some kvs \<Rightarrow>
          (case (dec_int64 0 (field_vals sf ''id'' kvs), dec_string '''' (field_vals sf ''cmd'' kvs)) of
             (Some i, Some c) \<Rightarrow>
               Some \<lparr>cmd_ID = i, cmd_Cmd = c, cmd_Data = dec_raw (field_vals sf ''data'' kvs)\<rparr>
           | _ \<Rightarrow> None))"

definition ParseCommand :: "(rune \<Rightarrow> rune) \<Rightarrow> (string \<Rightarrow> json option) \<Rightarrow> string
    \<Rightarrow> Command \<times> parse_error option" where
  "ParseCommand sf pj raw =
     (case Option.bind (pj raw) (decode_command sf) of
        None \<Rightarrow> (zero_command, Some ParseFailed)
      | Some cmd \<Rightarrow> (cmd, if cmd_Cmd cmd = '''' then Some ErrMissingCmd else None))"

definition OKReply :: "int \<Rightarrow> 'd \<Rightarrow> 'd Reply" where
  "OKReply i d = \<lparr>rp_ID = i, rp_OK = True, rp_Data = Some d, rp_Err = None\<rparr>"

definition ErrReply :: "int \<Rightarrow> string \<Rightarrow> string \<Rightarrow> 'd Reply" where
  "ErrReply i code m = \<lparr>rp_ID = i, rp_OK = False, rp_Data = None,
     rp_Err = Some \<lparr>we_Code = code, we_Message = m\<rparr>\<rparr>"

text \<open>The error codes of \<open>errors.go\<close>.\<close>

definition codeInvalidRequest :: string where "codeInvalidRequest = ''invalid_request''"
definition codeNotFound :: string where "codeNotFound = ''not_found''"
definition codeNameTaken :: string where "codeNameTaken = ''name_taken''"
definition codePayloadTooLarge :: string where "codePayloadTooLarge = ''payload_too_large''"
definition codeAttachmentGone :: string where "codeAttachmentGone = ''attachment_gone''"
definition codeInternal :: string where "codeInternal = ''internal''"
definition codeUnsupportedSchema :: string where "codeUnsupportedSchema = ''unsupported_schema''"
definition codeInvalidToken :: string where "codeInvalidToken = ''invalid_token''"
definition codeTokenExpired :: string where "codeTokenExpired = ''token_expired''"
definition codeUnauthenticated :: string where "codeUnauthenticated = ''unauthenticated''"

end
