(* ===== verification/Tables.thy ===== *)
theory Tables
  imports Wire "HOL-Library.List_Lexorder" "HOL-Library.Char_ord"
begin

text \<open>
  The database of the server: one row record per table of \<open>migrations/001_init.sql\<close>, the
  \<open>db\<close> record that holds the tables, and the statements the store runs on them. A table is
  the list of its rows in insertion order, an SQL \<open>NULL\<close> is \<open>None\<close>. A statement that may
  fail is \<open>query\<close> or \<open>exec\<close>: it fails when the fault oracle \<open>flt\<close> says so for the label the
  Go code wraps its error in, and an \<open>exec\<close> also when it would break a constraint of the
  schema. A transaction is \<open>transact\<close>: an error, or a return before the commit, leaves the
  database as it was.
\<close>

section \<open>Rows\<close>

record user_row =
  u_user_id :: string
  u_label :: string
  u_created_at :: int

record device_row =
  d_device_key :: string
  d_user_id :: string
  d_platform :: string
  d_created_at :: int
  d_last_seen_at :: int

record token_row =
  t_token :: string
  t_kind :: string
  t_user_id :: "string option"
  t_issuer_key :: "string option"
  t_created_at :: int
  t_expires_at :: int
  t_used_at :: "int option"
  t_used_by :: "string option"
  t_paired_user_id :: "string option"
  t_created_person :: bool

record request_row =
  r_request_id :: string
  r_token :: string
  r_device_key :: string
  r_platform :: string
  r_issuer_key :: string
  r_expires_at :: int
  r_outcome :: "string option"
  r_decided_at :: "int option"

record chat_row =
  c_chat_id :: string
  c_name :: string
  c_name_ci :: string
  c_created_at :: int
  c_created_by_label :: string
  c_last_activity_at :: int
  c_last_message_preview :: string

record file_row =
  f_file_id :: string
  f_name :: string
  f_size :: int
  f_mime :: string
  f_created_at :: int
  f_expires_at :: int
  f_uploaded :: bool
  f_message_id :: "string option"

record message_row =
  m_message_id :: string
  m_seq :: int
  m_chat_id :: string
  m_author_id :: string
  m_author_label :: string
  m_client_message_id :: string
  m_sent_at :: int
  m_body :: "json option"
  m_file_id :: "string option"

text \<open>What an event row carries: the value \<open>json.Marshal\<close> was given, \<open>PEmpty\<close> the empty text.\<close>

datatype payload = PEmpty | PChat Chat | PMessage Message

record event_row =
  e_seq :: int
  e_type :: string
  e_payload :: payload

record server_identity_row =
  s_public_key :: string
  s_private_key :: string
  s_public_address :: "string option"
  s_onion_address :: "string option"
  s_public_address_param :: "string option"
  s_onion_address_param :: "string option"

text \<open>
  \<open>event_seq\<close> is the AUTOINCREMENT counter of the events table; the one-row tables
  \<open>journal\<close> and \<open>server_identity\<close> are options.
\<close>

record db =
  users :: "user_row list"
  devices :: "device_row list"
  pair_tokens :: "token_row list"
  pair_requests :: "request_row list"
  chats :: "chat_row list"
  files :: "file_row list"
  messages :: "message_row list"
  events :: "event_row list"
  event_seq :: int
  journal :: "string option"
  server_identity :: "server_identity_row option"

definition empty_db :: db where
  "empty_db = \<lparr>users = [], devices = [], pair_tokens = [], pair_requests = [], chats = [],
     files = [], messages = [], events = [], event_seq = 0, journal = None,
     server_identity = None\<rparr>"

section \<open>Errors, statements, transactions\<close>

text \<open>The sentinel errors of \<open>internal/store\<close>; \<open>ErrSQL\<close> is a wrapped driver error under its label.\<close>

datatype err =
    ErrNameTaken
  | ErrChatNotFound
  | ErrFileNotFound
  | ErrFileNotReady
  | ErrFileTaken
  | ErrTokenInvalid
  | ErrTokenExpired
  | ErrRequestNotFound
  | ErrDeviceUnknown
  | ErrNoServerIdentity
  | ErrUnknownAddressKind
  | ErrSQL string
  | ErrOther string

type_synonym faults = "string \<Rightarrow> bool"

definition no_faults :: faults where
  "no_faults l = False"

definition query :: "faults \<Rightarrow> string \<Rightarrow> 'a \<Rightarrow> err + 'a" where
  "query flt l x = (if flt l then Inl (ErrSQL l) else Inr x)"

text \<open>A row that has to be there: \<open>sql.ErrNoRows\<close> is one more driver error.\<close>

definition query_row :: "faults \<Rightarrow> string \<Rightarrow> 'a option \<Rightarrow> err + 'a" where
  "query_row flt l r = (case r of None \<Rightarrow> Inl (ErrSQL l) | Some x \<Rightarrow> query flt l x)"

definition exec :: "faults \<Rightarrow> string \<Rightarrow> bool \<Rightarrow> 'a \<Rightarrow> err + 'a" where
  "exec flt l ok x = (if flt l \<or> \<not> ok then Inl (ErrSQL l) else Inr x)"

text \<open>
  Inside a transaction a function returns its value with \<open>Some\<close> the database to commit, or
  with \<open>None\<close> when it returns without committing, which the deferred rollback undoes.
\<close>

type_synonym 'a tx = "err + ('a \<times> db option)"

definition commit :: "faults \<Rightarrow> string \<Rightarrow> 'a \<Rightarrow> db \<Rightarrow> 'a tx" where
  "commit flt l x s = (if flt l then Inl (ErrSQL l) else Inr (x, Some s))"

definition rollback :: "'a \<Rightarrow> 'a tx" where
  "rollback x = Inr (x, None)"

definition transact :: "faults \<Rightarrow> string \<Rightarrow> (db \<Rightarrow> 'a tx) \<Rightarrow> db \<Rightarrow> (err + 'a) \<times> db" where
  "transact flt l body s =
     (if flt l then (Inl (ErrSQL l), s)
      else case body s of
             Inl e \<Rightarrow> (Inl e, s)
           | Inr (x, s') \<Rightarrow> (Inr x, case s' of None \<Rightarrow> s | Some t \<Rightarrow> t))"

text \<open>A single statement on the write pool: it commits when it succeeds.\<close>

definition autocommit :: "db \<Rightarrow> err + ('a \<times> db) \<Rightarrow> (err + 'a) \<times> db" where
  "autocommit s r = (case r of Inl e \<Rightarrow> (Inl e, s) | Inr (x, s') \<Rightarrow> (Inr x, s'))"

lemma query_simps [simp]:
  "query flt l x = Inr y \<longleftrightarrow> \<not> flt l \<and> x = y"
  "query no_faults l x = Inr x"
  by (auto simp: query_def no_faults_def)

lemma query_row_Inr [simp]: "query_row flt l r = Inr y \<longleftrightarrow> \<not> flt l \<and> r = Some y"
  by (auto simp: query_row_def query_def split: option.splits)

lemma exec_simps [simp]:
  "exec flt l ok x = Inr y \<longleftrightarrow> \<not> flt l \<and> ok \<and> x = y"
  "exec no_faults l True x = Inr x"
  by (auto simp: exec_def no_faults_def)

lemma query_ok: "\<not> flt l \<Longrightarrow> query flt l x = Inr x"
  by simp

lemma exec_ok: "\<not> flt l \<Longrightarrow> ok \<Longrightarrow> exec flt l ok x = Inr x"
  by simp

lemma query_Inl [simp]: "query flt l x = Inl e \<longleftrightarrow> flt l \<and> e = ErrSQL l"
  by (auto simp: query_def)

lemma exec_Inl [simp]: "exec flt l ok x = Inl e \<longleftrightarrow> (flt l \<or> \<not> ok) \<and> e = ErrSQL l"
  by (auto simp: exec_def)

lemma commit_simps [simp]:
  "commit flt l x s = Inr y \<longleftrightarrow> \<not> flt l \<and> y = (x, Some s)"
  "commit flt l x s = Inl e \<longleftrightarrow> flt l \<and> e = ErrSQL l"
  by (auto simp: commit_def)

lemma rollback_simps [simp]:
  "rollback x = Inr y \<longleftrightarrow> y = (x, None)"
  "rollback x \<noteq> Inl e"
  by (auto simp: rollback_def)

text \<open>What a transaction can do to the database: nothing, or what its body committed.\<close>

lemma transact_cases:
  assumes "transact flt l body s = (r, s')"
  obtains (unchanged) "s' = s" "\<forall>x t. r = Inr x \<longrightarrow> body s \<noteq> Inr (x, Some t)"
    | (committed) x where "body s = Inr (x, Some s')" "r = Inr x" "\<not> flt l"
  using assms by (auto simp: transact_def split: if_splits sum.splits prod.splits option.splits)

lemma transact_error: "transact flt l body s = (Inl e, s') \<Longrightarrow> s' = s"
  by (auto simp: transact_def split: if_splits sum.splits prod.splits)

lemma transact_invariant:
  assumes "P s" and "\<And>x t. \<not> flt l \<Longrightarrow> body s = Inr (x, Some t) \<Longrightarrow> P t"
  shows "P (snd (transact flt l body s))"
  using assms by (auto simp: transact_def split: sum.splits prod.splits option.splits)

lemma transact_Inr:
  "transact flt l body s = (Inr x, s') \<longleftrightarrow>
     \<not> flt l \<and> (\<exists>t. body s = Inr (x, t) \<and> s' = (case t of None \<Rightarrow> s | Some t \<Rightarrow> t))"
  by (auto simp: transact_def split: sum.splits prod.splits option.splits)

lemma autocommit_error: "autocommit s r = (Inl e, s') \<Longrightarrow> s' = s"
  by (auto simp: autocommit_def split: sum.splits prod.splits)

lemma autocommit_Inr: "autocommit s r = (Inr x, s') \<longleftrightarrow> r = Inr (x, s')"
  by (auto simp: autocommit_def split: sum.splits prod.splits)

lemma autocommit_invariant:
  assumes "P s" and "\<And>x t. r = Inr (x, t) \<Longrightarrow> P t"
  shows "P (snd (autocommit s r))"
  using assms by (auto simp: autocommit_def split: sum.splits prod.splits)

end
