(* ===== verification/Store_Journal.thy ===== *)
theory Store_Journal
  imports Tables "HOL-Library.Product_Lexorder"
begin

text \<open>
  \<open>internal/store/store.go\<close>: chats, messages, files and the event log. Every mutation that is
  visible on the wire inserts its event row in the transaction of the mutation. The ids
  \<open>randomID\<close> draws are the arguments \<open>rid\<close>; \<open>sf\<close> is \<open>unicode.SimpleFold\<close>. A Go \<open>int\<close> has 64
  bits: its arithmetic wraps (\<open>wrap64\<close>), and a slice expression out of range panics, which is
  the value \<open>None\<close> of \<open>slice\<close>.
\<close>

section \<open>Reading\<close>

definition wrap64 :: "int \<Rightarrow> int" where
  "wrap64 n = (n + 2 ^ 63) mod 2 ^ 64 - 2 ^ 63"

definition slice :: "'a list \<Rightarrow> int \<Rightarrow> int \<Rightarrow> 'a list option" where
  "slice xs lo hi =
     (if 0 \<le> lo \<and> lo \<le> hi \<and> hi \<le> int (length xs)
      then Some (take (nat (hi - lo)) (drop (nat lo) xs)) else None)"

fun Contains :: "string \<Rightarrow> string \<Rightarrow> bool" where
  "Contains [] t = (t = [])"
| "Contains (c # cs) t = (take (length t) (c # cs) = t \<or> Contains cs t)"

definition scanChat :: "chat_row \<Rightarrow> Chat" where
  "scanChat c = \<lparr>ChatID = c_chat_id c, Name = c_name c, CreatedAt = c_created_at c,
     CreatedByLabel = c_created_by_label c, LastMessagePreview = c_last_message_preview c,
     LastActivityAt = c_last_activity_at c\<rparr>"

record StoredEvent =
  ev_Seq :: int
  ev_Type :: string
  ev_Payload :: payload

definition no_event :: StoredEvent where
  "no_event = \<lparr>ev_Seq = 0, ev_Type = '''', ev_Payload = PEmpty\<rparr>"

definition Cursor :: "faults \<Rightarrow> db \<Rightarrow> err + int" where
  "Cursor flt s =
     query flt ''read cursor'' (if events s = [] then 0 else Max (set (map e_seq (events s))))"

definition EventsSince :: "faults \<Rightarrow> int \<Rightarrow> db \<Rightarrow> err + StoredEvent list" where
  "EventsSince flt since s =
     query flt ''query events''
       (map (\<lambda>e. \<lparr>ev_Seq = e_seq e, ev_Type = e_type e, ev_Payload = e_payload e\<rparr>)
         (sort_key e_seq (filter (\<lambda>e. since < e_seq e) (events s))))"

text \<open>One page of the chat list; \<open>None\<close> is a panic of the slice expression.\<close>

definition ListChats :: "faults \<Rightarrow> (rune \<Rightarrow> rune) \<Rightarrow> int \<Rightarrow> int \<Rightarrow> string \<Rightarrow> db
    \<Rightarrow> (err + (Chat list \<times> bool)) option" where
  "ListChats flt sf page pageSize q s =
     (if flt ''query chats'' then Some (Inl (ErrSQL ''query chats''))
      else
        let rows = sort_key (\<lambda>c. (- c_last_activity_at c, c_chat_id c)) (chats s);
            needle = foldCase sf (TrimSpace q);
            matched = filter (\<lambda>c. \<not> (needle \<noteq> '''' \<and> \<not> Contains (foldCase sf (Name c)) needle))
              (map scanChat rows)
        in if wrap64 (page - 1) \<ge> int (length matched) then Some (Inr ([], False))
           else
             let start = wrap64 (wrap64 (page - 1) * pageSize)
             in if start \<ge> int (length matched) then Some (Inr ([], False))
                else
                  let stop = min (wrap64 (start + pageSize)) (int (length matched))
                  in map_option (\<lambda>cs. Inr (cs, stop < int (length matched))) (slice matched start stop))"

definition GetChat :: "faults \<Rightarrow> string \<Rightarrow> db \<Rightarrow> err + Chat" where
  "GetChat flt chatID s =
     onOk (query flt ''get chat'' (List.find (\<lambda>c. c_chat_id c = chatID) (chats s)))
       (\<lambda>row. case row of None \<Rightarrow> Inl ErrChatNotFound | Some c \<Rightarrow> Inr (scanChat c))"

definition attachment_of :: "file_row \<Rightarrow> Attachment" where
  "attachment_of f = \<lparr>att_FileID = f_file_id f, att_Name = f_name f, att_Size = f_size f,
     att_Mime = f_mime f, att_ExpiresAt = f_expires_at f\<rparr>"

definition file_by :: "string \<Rightarrow> file_row list \<Rightarrow> file_row option" where
  "file_by i fs = List.find (\<lambda>f. f_file_id f = i) fs"

text \<open>A message row joined with its file: \<open>messageColumns\<close> and \<open>scanMessage\<close>.\<close>

definition scanMessage :: "file_row list \<Rightarrow> message_row \<Rightarrow> Message" where
  "scanMessage fs m = \<lparr>msg_MessageID = m_message_id m, msg_Seq = m_seq m, msg_ChatID = m_chat_id m,
     msg_AuthorID = m_author_id m, msg_AuthorLabel = m_author_label m,
     msg_ClientMessageID = m_client_message_id m, msg_SentAt = m_sent_at m, msg_Body = m_body m,
     msg_Attachment = Option.bind (m_file_id m) (\<lambda>i. map_option attachment_of (file_by i fs))\<rparr>"

text \<open>
  The tail of a page query: rows newest first up to \<open>limit + 1\<close>, the extra row turned into
  \<open>hasMore\<close>, the rest reversed. Both page readers are written with it.
\<close>

definition newest_first :: "int \<Rightarrow> message_row list \<Rightarrow> message_row list" where
  "newest_first limit rows =
     (let sorted = rev (sort_key m_seq rows)
      in if limit < 0 then sorted else take (nat limit) sorted)"

definition page_of :: "int \<Rightarrow> 'a list \<Rightarrow> ('a list \<times> bool) option" where
  "page_of limit newest =
     (if int (length newest) > limit
      then map_option (\<lambda>xs. (rev xs, True)) (slice newest 0 limit)
      else Some (rev newest, False))"

definition ListMessages :: "faults \<Rightarrow> string \<Rightarrow> int \<Rightarrow> int \<Rightarrow> db \<Rightarrow> (err + (Message list \<times> bool)) option" where
  "ListMessages flt chatID beforeSeq limit s =
     (if flt ''query messages'' then Some (Inl (ErrSQL ''query messages''))
      else
        let rows = newest_first (wrap64 (limit + 1))
              (filter (\<lambda>m. m_chat_id m = chatID \<and> (beforeSeq > 0 \<longrightarrow> m_seq m < beforeSeq)) (messages s))
        in map_option Inr (page_of limit (map (scanMessage (files s)) rows)))"

section \<open>Files\<close>

definition attachmentLifetimeSeconds :: int where
  "attachmentLifetimeSeconds = 10 * 365 * 24 * 3600"

record FileInfo =
  fi_Attachment :: Attachment
  fi_Uploaded :: bool
  fi_MessageID :: string

definition CreateUpload :: "faults \<Rightarrow> string \<Rightarrow> string \<Rightarrow> int \<Rightarrow> string \<Rightarrow> int \<Rightarrow> db
    \<Rightarrow> (err + Attachment) \<times> db" where
  "CreateUpload flt rid name size0 mime now s =
     (let att = \<lparr>att_FileID = ''f_'' @ rid, att_Name = name, att_Size = size0, att_Mime = mime,
            att_ExpiresAt = now + attachmentLifetimeSeconds\<rparr>;
          row = \<lparr>f_file_id = att_FileID att, f_name = name, f_size = size0, f_mime = mime,
            f_created_at = now, f_expires_at = att_ExpiresAt att, f_uploaded = False,
            f_message_id = None\<rparr>
      in autocommit s
           (exec flt ''insert file''
             (file_by (att_FileID att) (files s) = None \<and> name \<noteq> '''' \<and> size0 > 0 \<and> mime \<noteq> '''')
             (att, s\<lparr>files := files s @ [row]\<rparr>)))"

definition MarkUploaded :: "faults \<Rightarrow> string \<Rightarrow> db \<Rightarrow> (err + unit) \<times> db" where
  "MarkUploaded flt fileID s =
     (let hit = (\<lambda>f. f_file_id f = fileID \<and> \<not> f_uploaded f)
      in if flt ''mark uploaded'' then (Inl (ErrSQL ''mark uploaded''), s)
         else
           let s' = s\<lparr>files := update_where hit (\<lambda>f. f\<lparr>f_uploaded := True\<rparr>) (files s)\<rparr>
           in if flt ''mark uploaded rows'' \<or> affected hit (files s) = 0 then (Inl ErrFileNotFound, s')
              else (Inr (), s'))"

definition FileByID :: "faults \<Rightarrow> string \<Rightarrow> db \<Rightarrow> err + FileInfo" where
  "FileByID flt fileID s =
     onOk (query flt ''get file'' (file_by fileID (files s)))
       (\<lambda>row. case row of
           None \<Rightarrow> Inl ErrFileNotFound
         | Some f \<Rightarrow> Inr \<lparr>fi_Attachment = attachment_of f, fi_Uploaded = f_uploaded f,
             fi_MessageID = (case f_message_id f of None \<Rightarrow> '''' | Some m \<Rightarrow> m)\<rparr>)"

definition OrphanFiles :: "faults \<Rightarrow> int \<Rightarrow> db \<Rightarrow> err + string list" where
  "OrphanFiles flt cutoff s =
     query flt ''query orphans''
       (map f_file_id (filter (\<lambda>f. f_message_id f = None \<and> f_created_at f < cutoff) (files s)))"

definition FileIDs :: "faults \<Rightarrow> db \<Rightarrow> err + string list" where
  "FileIDs flt s = query flt ''query files'' (sort (map f_file_id (files s)))"

text \<open>
  \<open>DeleteFiles\<close> removes the rows one statement at a time: an error stops it with the earlier
  deletions done. A row a message refers to is held by the foreign key.
\<close>

fun DeleteFiles :: "faults \<Rightarrow> string list \<Rightarrow> db \<Rightarrow> (err + unit) \<times> db" where
  "DeleteFiles flt [] s = (Inr (), s)"
| "DeleteFiles flt (i # ids) s =
     (if flt ''delete file'' \<or> (\<exists>m \<in> set (messages s). m_file_id m = Some i \<and> file_by i (files s) \<noteq> None)
      then (Inl (ErrSQL ''delete file''), s)
      else DeleteFiles flt ids (s\<lparr>files := filter (\<lambda>f. f_file_id f \<noteq> i) (files s)\<rparr>))"

record ChatFileEntry =
  cf_Attachment :: Attachment
  cf_MessageID :: string
  cf_Seq :: int

definition chat_file_entry :: "file_row list \<Rightarrow> message_row \<Rightarrow> ChatFileEntry option" where
  "chat_file_entry fs m =
     Option.bind (m_file_id m) (\<lambda>i. map_option
       (\<lambda>f. \<lparr>cf_Attachment = attachment_of f, cf_MessageID = m_message_id m, cf_Seq = m_seq m\<rparr>)
       (file_by i fs))"

definition ListChatFiles :: "faults \<Rightarrow> string \<Rightarrow> int \<Rightarrow> int \<Rightarrow> db
    \<Rightarrow> (err + (ChatFileEntry list \<times> bool)) option" where
  "ListChatFiles flt chatID beforeSeq limit s =
     (if flt ''query chat files'' then Some (Inl (ErrSQL ''query chat files''))
      else
        let rows = newest_first (wrap64 (limit + 1))
              (filter (\<lambda>m. chat_file_entry (files s) m \<noteq> None \<and> m_chat_id m = chatID
                 \<and> (beforeSeq > 0 \<longrightarrow> m_seq m < beforeSeq)) (messages s))
        in map_option Inr (page_of limit (List.map_filter (chat_file_entry (files s)) rows)))"

section \<open>Chats\<close>

definition NameAvailable :: "faults \<Rightarrow> (rune \<Rightarrow> rune) \<Rightarrow> string \<Rightarrow> string \<Rightarrow> db \<Rightarrow> err + bool" where
  "NameAvailable flt sf name excludeChatID s =
     query flt ''check name availability''
       (affected (\<lambda>c. c_name_ci c = foldCase sf name \<and> (excludeChatID \<noteq> '''' \<longrightarrow> c_chat_id c \<noteq> excludeChatID))
          (chats s) = 0)"

text \<open>\<open>INSERT INTO events\<close>: the next AUTOINCREMENT value, which runs out at the last 64-bit one.\<close>

definition insert_event :: "faults \<Rightarrow> string \<Rightarrow> string \<Rightarrow> payload \<Rightarrow> db \<Rightarrow> err + (int \<times> db)" where
  "insert_event flt l ty p s =
     exec flt l (event_seq s < int64_max)
       (event_seq s + 1,
        s\<lparr>event_seq := event_seq s + 1,
          events := events s @ [\<lparr>e_seq = event_seq s + 1, e_type = ty, e_payload = p\<rparr>]\<rparr>)"

definition RenameChat :: "faults \<Rightarrow> (rune \<Rightarrow> rune) \<Rightarrow> string \<Rightarrow> string \<Rightarrow> db
    \<Rightarrow> (err + (Chat \<times> StoredEvent \<times> bool)) \<times> db" where
  "RenameChat flt sf chatID name = transact flt ''begin rename chat'' (\<lambda>s.
     onOk (query flt ''read chat'' (List.find (\<lambda>c. c_chat_id c = chatID) (chats s))) (\<lambda>row.
     case row of
       None \<Rightarrow> Inl ErrChatNotFound
     | Some c \<Rightarrow>
         let chat = scanChat c
         in if Name chat = name then rollback (chat, no_event, False)
            else
              let nameCI = foldCase sf name
              in onOk (query flt ''check chat name''
                   (affected (\<lambda>c. c_name_ci c = nameCI \<and> c_chat_id c \<noteq> chatID) (chats s))) (\<lambda>taken.
                 if taken > 0 then Inl ErrNameTaken
                 else
                   onOk (exec flt ''update chat name'' (name \<noteq> '''' \<and> nameCI \<noteq> '''')
                     (s\<lparr>chats := update_where (\<lambda>c. c_chat_id c = chatID)
                        (\<lambda>c. c\<lparr>c_name := name, c_name_ci := nameCI\<rparr>) (chats s)\<rparr>)) (\<lambda>s1.
                   let chat' = chat\<lparr>Name := name\<rparr>
                   in onOk (query flt ''marshal chat payload'' (PChat chat')) (\<lambda>payload.
                      onOk (insert_event flt ''insert chat.updated event'' EventChatUpdated payload s1) (\<lambda>(seq, s2).
                      commit flt ''commit rename chat''
                        (chat', \<lparr>ev_Seq = seq, ev_Type = EventChatUpdated, ev_Payload = payload\<rparr>, True) s2))))))"

definition CreateChat :: "faults \<Rightarrow> (rune \<Rightarrow> rune) \<Rightarrow> string \<Rightarrow> string \<Rightarrow> string \<Rightarrow> string \<Rightarrow> int \<Rightarrow> db
    \<Rightarrow> (err + (Chat \<times> StoredEvent \<times> bool)) \<times> db" where
  "CreateChat flt sf rid chatID0 name creatorLabel now = transact flt ''begin create chat'' (\<lambda>s.
     onOk (if chatID0 \<noteq> ''''
           then query flt ''look up chat id'' (List.find (\<lambda>c. c_chat_id c = chatID0) (chats s))
           else Inr None) (\<lambda>existing.
     case existing of
       Some c \<Rightarrow> rollback (scanChat c, no_event, False)
     | None \<Rightarrow>
         let nameCI = foldCase sf name
         in onOk (query flt ''check chat name'' (affected (\<lambda>c. c_name_ci c = nameCI) (chats s))) (\<lambda>taken.
            if taken > 0 then Inl ErrNameTaken
            else
              let chatID = (if chatID0 = '''' then ''c_'' @ rid else chatID0);
                  chat = \<lparr>ChatID = chatID, Name = name, CreatedAt = now, CreatedByLabel = creatorLabel,
                    LastMessagePreview = '''', LastActivityAt = now\<rparr>;
                  row = \<lparr>c_chat_id = chatID, c_name = name, c_name_ci = nameCI, c_created_at = now,
                    c_created_by_label = creatorLabel, c_last_activity_at = now, c_last_message_preview = ''''\<rparr>
              in onOk (exec flt ''insert chat''
                   (name \<noteq> '''' \<and> nameCI \<noteq> '''' \<and> List.find (\<lambda>c. c_chat_id c = chatID) (chats s) = None)
                   (s\<lparr>chats := chats s @ [row]\<rparr>)) (\<lambda>s1.
                 onOk (query flt ''marshal chat payload'' (PChat chat)) (\<lambda>payload.
                 onOk (insert_event flt ''insert chat.created event'' EventChatCreated payload s1) (\<lambda>(seq, s2).
                 commit flt ''commit create chat''
                   (chat, \<lparr>ev_Seq = seq, ev_Type = EventChatCreated, ev_Payload = payload\<rparr>, True) s2))))))"

section \<open>Messages\<close>

record Identity =
  id_UserID :: string
  id_Label :: string
  id_Created :: bool

definition messageByClientID :: "db \<Rightarrow> string \<Rightarrow> string \<Rightarrow> Message option" where
  "messageByClientID s authorID clientMessageID =
     map_option (scanMessage (files s))
       (List.find (\<lambda>m. m_author_id m = authorID \<and> m_client_message_id m = clientMessageID) (messages s))"

definition previewFor :: "(rune \<Rightarrow> rune) \<Rightarrow> json option \<Rightarrow> string \<Rightarrow> string" where
  "previewFor sf body fileName =
     (let parsed = Option.bind (Option.bind body members) (\<lambda>kvs.
            case (dec_string '''' (field_vals sf ''type'' kvs), dec_string '''' (field_vals sf ''text'' kvs)) of
              (Some ty, Some tx) \<Rightarrow> Some (ty, tx)
            | _ \<Rightarrow> None)
      in case parsed of
           Some (ty, tx) \<Rightarrow>
             if ty = ''text'' \<and> foldLine tx \<noteq> '''' then foldLine tx else foldLine fileName
         | None \<Rightarrow> foldLine fileName)"

text \<open>The attachment check of \<open>SendMessage\<close>: the file must exist, be uploaded and be unbound.\<close>

definition check_attachment :: "faults \<Rightarrow> string \<Rightarrow> db \<Rightarrow> err + Attachment option" where
  "check_attachment flt fileID s =
     (if fileID = '''' then Inr None
      else onOk (query flt ''check file'' (file_by fileID (files s))) (\<lambda>row.
             case row of
               None \<Rightarrow> Inl ErrFileNotFound
             | Some f \<Rightarrow>
                 if \<not> f_uploaded f then Inl ErrFileNotReady
                 else if f_message_id f \<noteq> None then Inl ErrFileTaken
                 else Inr (Some (attachment_of f))))"

text \<open>The schema's constraints on a new messages row.\<close>

definition message_row_ok :: "db \<Rightarrow> message_row \<Rightarrow> bool" where
  "message_row_ok s m \<longleftrightarrow>
     (\<forall>m' \<in> set (messages s). m_message_id m' \<noteq> m_message_id m \<and> m_seq m' \<noteq> m_seq m
        \<and> \<not> (m_author_id m' = m_author_id m \<and> m_client_message_id m' = m_client_message_id m)
        \<and> (m_file_id m \<noteq> None \<longrightarrow> m_file_id m' \<noteq> m_file_id m))
     \<and> (\<exists>c \<in> set (chats s). c_chat_id c = m_chat_id m)
     \<and> (\<exists>u \<in> set (users s). u_user_id u = m_author_id m)
     \<and> (case m_file_id m of None \<Rightarrow> True | Some i \<Rightarrow> file_by i (files s) \<noteq> None)"

lemma message_row_ok_iff:
  "message_row_ok s m \<longleftrightarrow>
     (\<forall>m' \<in> set (messages s). m_message_id m' \<noteq> m_message_id m \<and> m_seq m' \<noteq> m_seq m
        \<and> \<not> (m_author_id m' = m_author_id m \<and> m_client_message_id m' = m_client_message_id m)
        \<and> (m_file_id m \<noteq> None \<longrightarrow> m_file_id m' \<noteq> m_file_id m))
     \<and> (\<exists>c \<in> set (chats s). c_chat_id c = m_chat_id m)
     \<and> (\<exists>u \<in> set (users s). u_user_id u = m_author_id m)
     \<and> (\<forall>i. m_file_id m = Some i \<longrightarrow> file_by i (files s) \<noteq> None)"
  by (simp add: message_row_ok_def split: option.splits)

text \<open>The message \<open>SendMessage\<close> returns and its row.\<close>

definition new_message :: "string \<Rightarrow> int \<Rightarrow> string \<Rightarrow> string \<Rightarrow> Identity \<Rightarrow> json option \<Rightarrow> Attachment option \<Rightarrow> int \<Rightarrow> Message" where
  "new_message rid seq chatID clientMessageID author body att now =
     \<lparr>msg_MessageID = ''m_'' @ rid, msg_Seq = seq, msg_ChatID = chatID,
      msg_AuthorID = id_UserID author, msg_AuthorLabel = id_Label author,
      msg_ClientMessageID = clientMessageID, msg_SentAt = now, msg_Body = body,
      msg_Attachment = att\<rparr>"

definition new_row :: "Message \<Rightarrow> string \<Rightarrow> message_row" where
  "new_row msg fileID =
     \<lparr>m_message_id = msg_MessageID msg, m_seq = msg_Seq msg, m_chat_id = msg_ChatID msg,
      m_author_id = msg_AuthorID msg, m_author_label = msg_AuthorLabel msg,
      m_client_message_id = msg_ClientMessageID msg, m_sent_at = msg_SentAt msg,
      m_body = msg_Body msg, m_file_id = (if fileID \<noteq> '''' then Some fileID else None)\<rparr>"

definition bind_file :: "string \<Rightarrow> string \<Rightarrow> file_row list \<Rightarrow> file_row list" where
  "bind_file fileID mid fs =
     update_where (\<lambda>f. f_file_id f = fileID) (\<lambda>f. f\<lparr>f_message_id := Some mid\<rparr>) fs"

definition touch_chat :: "string \<Rightarrow> int \<Rightarrow> string \<Rightarrow> chat_row list \<Rightarrow> chat_row list" where
  "touch_chat chatID now preview cs =
     update_where (\<lambda>c. c_chat_id c = chatID)
       (\<lambda>c. c\<lparr>c_last_activity_at := now, c_last_message_preview := preview\<rparr>) cs"

text \<open>The writes of \<open>SendMessage\<close>, in the order of the transaction, once its checks have passed.\<close>

definition send_rows :: "faults \<Rightarrow> (rune \<Rightarrow> rune) \<Rightarrow> string \<Rightarrow> string \<Rightarrow> string \<Rightarrow> Identity
    \<Rightarrow> json option \<Rightarrow> string \<Rightarrow> int \<Rightarrow> Attachment option \<Rightarrow> db \<Rightarrow> (Message \<times> StoredEvent \<times> bool) tx" where
  "send_rows flt sf rid chatID clientMessageID author body fileID now att s =
     onOk (insert_event flt ''insert message.new event'' EventMessageNew PEmpty s) (\<lambda>(seq, s1).
     let msg = new_message rid seq chatID clientMessageID author body att now
     in onOk (query flt ''marshal message payload'' (PMessage msg)) (\<lambda>payload.
        onOk (exec flt ''fill event payload'' True
          (s1\<lparr>events := update_where (\<lambda>e. e_seq e = seq) (\<lambda>e. e\<lparr>e_payload := payload\<rparr>) (events s1)\<rparr>)) (\<lambda>s2.
        onOk (exec flt ''insert message'' (message_row_ok s2 (new_row msg fileID))
             (s2\<lparr>messages := messages s2 @ [new_row msg fileID]\<rparr>)) (\<lambda>s3.
        onOk (if att \<noteq> None
              then exec flt ''bind file'' True (s3\<lparr>files := bind_file fileID (msg_MessageID msg) (files s3)\<rparr>)
              else Inr s3) (\<lambda>s4.
        let attName = (case att of None \<Rightarrow> '''' | Some a \<Rightarrow> att_Name a)
        in onOk (exec flt ''touch chat'' True
             (s4\<lparr>chats := touch_chat chatID now (previewFor sf body attName) (chats s4)\<rparr>)) (\<lambda>s5.
           commit flt ''commit send message''
             (msg, \<lparr>ev_Seq = seq, ev_Type = EventMessageNew, ev_Payload = payload\<rparr>, True) s5))))))"

definition SendMessage :: "faults \<Rightarrow> (rune \<Rightarrow> rune) \<Rightarrow> string \<Rightarrow> string \<Rightarrow> string \<Rightarrow> Identity
    \<Rightarrow> json option \<Rightarrow> string \<Rightarrow> int \<Rightarrow> db \<Rightarrow> (err + (Message \<times> StoredEvent \<times> bool)) \<times> db" where
  "SendMessage flt sf rid chatID clientMessageID author body fileID now =
     transact flt ''begin send message'' (\<lambda>s.
     onOk (query flt ''check idempotency'' (messageByClientID s (id_UserID author) clientMessageID)) (\<lambda>existing.
     case existing of
       Some msg \<Rightarrow> rollback (msg, no_event, False)
     | None \<Rightarrow>
         onOk (query flt ''check chat'' (affected (\<lambda>c. c_chat_id c = chatID) (chats s))) (\<lambda>chatExists.
         if chatExists = 0 then Inl ErrChatNotFound
         else
           onOk (check_attachment flt fileID s) (\<lambda>att.
           send_rows flt sf rid chatID clientMessageID author body fileID now att s))))"

section \<open>What each operation commits\<close>

definition appended :: "db \<Rightarrow> string \<Rightarrow> payload \<Rightarrow> db" where
  "appended s ty p = s\<lparr>event_seq := event_seq s + 1,
     events := events s @ [\<lparr>e_seq = event_seq s + 1, e_type = ty, e_payload = p\<rparr>]\<rparr>"

lemma insert_event_Inr [simp]:
  "insert_event flt l ty p s = Inr (seq, s') \<longleftrightarrow>
     \<not> flt l \<and> event_seq s < int64_max \<and> seq = event_seq s + 1 \<and> s' = appended s ty p"
  by (auto simp: insert_event_def appended_def)

lemma RenameChat_cases:
  assumes "RenameChat flt sf chatID name s = (r, s')"
  obtains (same) "s' = s" "\<forall>c ev. r \<noteq> Inr (c, ev, True)"
    | (renamed) c where "List.find (\<lambda>c. c_chat_id c = chatID) (chats s) = Some c"
        "c_name c \<noteq> name" "\<forall>d \<in> set (chats s). c_name_ci d = foldCase sf name \<longrightarrow> c_chat_id d = chatID"
        "name \<noteq> ''''"
        "s' = appended (s\<lparr>chats := update_where (\<lambda>c. c_chat_id c = chatID)
                (\<lambda>c. c\<lparr>c_name := name, c_name_ci := foldCase sf name\<rparr>) (chats s)\<rparr>)
              EventChatUpdated (PChat ((scanChat c)\<lparr>Name := name\<rparr>))"
        "r = Inr ((scanChat c)\<lparr>Name := name\<rparr>,
           \<lparr>ev_Seq = event_seq s + 1, ev_Type = EventChatUpdated,
            ev_Payload = PChat ((scanChat c)\<lparr>Name := name\<rparr>)\<rparr>, True)"
  using assms unfolding RenameChat_def
proof (cases rule: transact_cases)
  case unchanged
  then show ?thesis
    using assms unfolding RenameChat_def
    by (intro that(1)) (auto simp: transact_Inr Let_def split: option.splits if_splits prod.splits)
next
  case (committed x)
  then obtain c where c: "List.find (\<lambda>c. c_chat_id c = chatID) (chats s) = Some c"
    by (auto split: option.splits)
  then show ?thesis using committed
    by (intro that(2) [of c]) (auto simp: Let_def affected_0_iff scanChat_def split: option.splits if_splits prod.splits)
qed

lemma CreateChat_cases:
  assumes "CreateChat flt sf rid chatID0 name lbl now s = (r, s')"
  obtains (same) "s' = s" "\<forall>c ev. r \<noteq> Inr (c, ev, True)"
    | (created) chatID chat where
        "chatID = (if chatID0 = '''' then ''c_'' @ rid else chatID0)"
        "chat = \<lparr>ChatID = chatID, Name = name, CreatedAt = now, CreatedByLabel = lbl,
                    LastMessagePreview = '''', LastActivityAt = now\<rparr>"
        "\<forall>d \<in> set (chats s). c_chat_id d \<noteq> chatID \<and> c_name_ci d \<noteq> foldCase sf name"
        "name \<noteq> ''''"
        "s' = appended (s\<lparr>chats := chats s @
               [\<lparr>c_chat_id = chatID, c_name = name, c_name_ci = foldCase sf name, c_created_at = now,
                    c_created_by_label = lbl, c_last_activity_at = now, c_last_message_preview = ''''\<rparr>]\<rparr>)
              EventChatCreated (PChat chat)"
        "r = Inr (chat, \<lparr>ev_Seq = event_seq s + 1, ev_Type = EventChatCreated, ev_Payload = PChat chat\<rparr>, True)"
  using assms unfolding CreateChat_def
proof (cases rule: transact_cases)
  case unchanged
  then show ?thesis
    using assms unfolding CreateChat_def
    by (intro that(1)) (auto simp: transact_Inr Let_def split: option.splits if_splits prod.splits)
next
  case (committed x)
  then show ?thesis
    by (intro that(2) [OF refl refl])
      (auto simp: Let_def affected_0_iff find_None_conv split: option.splits if_splits prod.splits)
qed

lemma check_attachment_Inr:
  "check_attachment flt fileID s = Inr att \<longleftrightarrow>
     (if fileID = '''' then att = None
      else \<not> flt ''check file'' \<and> (\<exists>f. file_by fileID (files s) = Some f \<and> f_uploaded f \<and> f_message_id f = None
             \<and> att = Some (attachment_of f)))"
  by (auto simp: check_attachment_def split: option.splits if_splits)

text \<open>The database \<open>SendMessage\<close> commits.\<close>

definition sent_state :: "db \<Rightarrow> (rune \<Rightarrow> rune) \<Rightarrow> string \<Rightarrow> Message \<Rightarrow> db" where
  "sent_state s sf fileID msg =
     (appended s EventMessageNew (PMessage msg))
       \<lparr>messages := messages s @ [new_row msg fileID],
        files := (if fileID = '''' then files s else bind_file fileID (msg_MessageID msg) (files s)),
        chats := touch_chat (msg_ChatID msg) (msg_SentAt msg)
          (previewFor sf (msg_Body msg) (case msg_Attachment msg of None \<Rightarrow> '''' | Some a \<Rightarrow> att_Name a))
          (chats s)\<rparr>"

definition log_ok :: "db \<Rightarrow> bool" where
  "log_ok s \<longleftrightarrow> sorted_wrt (<) (map e_seq (events s))
     \<and> (\<forall>e \<in> set (events s). 0 < e_seq e \<and> e_seq e \<le> event_seq s) \<and> 0 \<le> event_seq s"

lemma message_row_ok_events:
  "message_row_ok (s\<lparr>event_seq := e, events := es\<rparr>) m = message_row_ok s m"
  by (simp add: message_row_ok_iff)

lemma send_rows_Inr:
  assumes "log_ok s" and "att = None \<longleftrightarrow> fileID = ''''"
    and "send_rows flt sf rid chatID cmid author body fileID now att s = Inr (x, so)"
    and "msg = new_message rid (event_seq s + 1) chatID cmid author body att now"
  shows "message_row_ok s (new_row msg fileID)" and "so = Some (sent_state s sf fileID msg)"
    and "x = (msg, \<lparr>ev_Seq = event_seq s + 1, ev_Type = EventMessageNew, ev_Payload = PMessage msg\<rparr>, True)"
proof -
  have f: "msg_ChatID msg = chatID" "msg_SentAt msg = now" "msg_Body msg = body" "msg_Attachment msg = att"
    by (simp_all add: assms(4) new_message_def)
  have old: "update_where (\<lambda>e. e_seq e = event_seq s + 1) g (events s) = events s" for g
    using assms(1) by (intro update_where_none) (fastforce simp: log_ok_def)
  have "message_row_ok s (new_row msg fileID) \<and> so = Some (sent_state s sf fileID msg) \<and>
    x = (msg, \<lparr>ev_Seq = event_seq s + 1, ev_Type = EventMessageNew, ev_Payload = PMessage msg\<rparr>, True)"
    using assms(2,3) f unfolding assms(4)
    by (cases att) (simp_all add: send_rows_def Let_def old message_row_ok_events sent_state_def appended_def)
  then show "message_row_ok s (new_row msg fileID)" "so = Some (sent_state s sf fileID msg)"
    "x = (msg, \<lparr>ev_Seq = event_seq s + 1, ev_Type = EventMessageNew, ev_Payload = PMessage msg\<rparr>, True)"
    by blast+
qed

lemma SendMessage_cases:
  assumes "SendMessage flt sf rid chatID cmid author body fileID now s = (r, s')" and "log_ok s"
  obtains (same) "s' = s" "\<forall>m ev. r \<noteq> Inr (m, ev, True)"
    | (sent) att msg where
        "messageByClientID s (id_UserID author) cmid = None"
        "check_attachment flt fileID s = Inr att"
        "msg = new_message rid (event_seq s + 1) chatID cmid author body att now"
        "message_row_ok s (new_row msg fileID)"
        "s' = sent_state s sf fileID msg"
        "r = Inr (msg, \<lparr>ev_Seq = event_seq s + 1, ev_Type = EventMessageNew, ev_Payload = PMessage msg\<rparr>, True)"
proof -
  have att: "att = None \<longleftrightarrow> fileID = ''''" if "check_attachment flt fileID s = Inr att" for att
    using that by (auto simp: check_attachment_Inr split: if_splits)
  note rows = send_rows_Inr [OF assms(2) att _ refl]
  show ?thesis
    using assms(1) unfolding SendMessage_def
  proof (cases rule: transact_cases)
    case unchanged
    then show ?thesis
      using assms(1) rows(2) unfolding SendMessage_def
      by (intro that(1)) (fastforce simp: transact_Inr split: option.splits if_splits)+
  next
    case (committed x)
    then obtain att where a: "check_attachment flt fileID s = Inr att"
        "messageByClientID s (id_UserID author) cmid = None"
      and w: "send_rows flt sf rid chatID cmid author body fileID now att s = Inr (x, Some s')"
      by (auto split: option.splits if_splits)
    note r = rows [OF a(1) w]
    show ?thesis using committed(2) r(2,3) that(2) [OF a(2,1) refl r(1)] by simp
  qed
qed

section \<open>The invariant of the journal\<close>

text \<open>
  Chat ids and folded names are unique, the folded name follows the name and the preview
  keeps its bound; the log is in
  strictly ascending order of \<open>seq\<close>; a message names an existing chat, an existing person and
  its own file, and a file that names a message is uploaded and is the message's file; and
  the messages the log carries are, in order, the rows of the messages table.
\<close>

definition chats_ok :: "(rune \<Rightarrow> rune) \<Rightarrow> db \<Rightarrow> bool" where
  "chats_ok sf s \<longleftrightarrow> distinct (map c_chat_id (chats s)) \<and> distinct (map c_name_ci (chats s))
     \<and> (\<forall>c \<in> set (chats s). c_name_ci c = foldCase sf (c_name c)
          \<and> RuneCountInString (c_last_message_preview c) \<le> previewRunes)"

definition files_ok :: "db \<Rightarrow> bool" where
  "files_ok s \<longleftrightarrow> distinct (map f_file_id (files s))
     \<and> (\<forall>f \<in> set (files s). \<forall>mid. f_message_id f = Some mid \<longrightarrow> f_uploaded f
          \<and> (\<exists>m \<in> set (messages s). m_message_id m = mid \<and> m_file_id m = Some (f_file_id f)))"

definition messages_ok :: "db \<Rightarrow> bool" where
  "messages_ok s \<longleftrightarrow> distinct (map m_message_id (messages s))
     \<and> distinct (map (\<lambda>m. (m_author_id m, m_client_message_id m)) (messages s))
     \<and> (\<forall>m \<in> set (messages s). m_chat_id m \<in> c_chat_id ` set (chats s)
          \<and> m_author_id m \<in> u_user_id ` set (users s)
          \<and> (\<forall>i. m_file_id m = Some i \<longrightarrow>
               (\<exists>f \<in> set (files s). f_file_id f = i \<and> f_message_id f = Some (m_message_id m))))"

definition event_ok :: "event_row \<Rightarrow> bool" where
  "event_ok e \<longleftrightarrow> (case e_payload e of
       PEmpty \<Rightarrow> False
     | PChat c \<Rightarrow> e_type e = EventChatCreated \<or> e_type e = EventChatUpdated
     | PMessage m \<Rightarrow> e_type e = EventMessageNew \<and> msg_Seq m = e_seq e)"

definition event_message :: "event_row \<Rightarrow> Message option" where
  "event_message e = (case e_payload e of PMessage m \<Rightarrow> Some m | _ \<Rightarrow> None)"

definition replay_ok :: "db \<Rightarrow> bool" where
  "replay_ok s \<longleftrightarrow> (\<forall>e \<in> set (events s). event_ok e)
     \<and> List.map_filter event_message (events s) = map (scanMessage (files s)) (messages s)"

definition journal_ok :: "(rune \<Rightarrow> rune) \<Rightarrow> db \<Rightarrow> bool" where
  "journal_ok sf s \<longleftrightarrow> log_ok s \<and> chats_ok sf s \<and> files_ok s \<and> messages_ok s \<and> replay_ok s"

lemmas journal_defs = journal_ok_def log_ok_def chats_ok_def files_ok_def messages_ok_def replay_ok_def

lemma map_filter_append [simp]: "List.map_filter f (xs @ ys) = List.map_filter f xs @ List.map_filter f ys"
  by (simp add: List.map_filter_def)

lemma map_filter_single [simp]: "List.map_filter f [x] = (case f x of None \<Rightarrow> [] | Some y \<Rightarrow> [y])"
  by (simp add: List.map_filter_def split: option.splits)

lemma map_filter_Nil [simp]: "List.map_filter f [] = []"
  by (simp add: List.map_filter_def)

lemma journal_ok_empty: "journal_ok sf empty_db"
  by (simp add: journal_defs empty_db_def)

lemma log_ok_appended: "log_ok s \<Longrightarrow> log_ok (appended s ty p)"
  by (fastforce simp: log_ok_def appended_def sorted_wrt_append)

lemma appended_simps [simp]:
  "chats (appended s ty p) = chats s" "files (appended s ty p) = files s"
  "messages (appended s ty p) = messages s" "users (appended s ty p) = users s"
  "devices (appended s ty p) = devices s" "pair_tokens (appended s ty p) = pair_tokens s"
  "pair_requests (appended s ty p) = pair_requests s"
  "event_seq (appended s ty p) = event_seq s + 1"
  "events (appended s ty p) = events s @ [\<lparr>e_seq = event_seq s + 1, e_type = ty, e_payload = p\<rparr>]"
  by (simp_all add: appended_def)

text \<open>Two databases with the same journal tables, the second with at least the people of the first.\<close>

definition same_journal :: "db \<Rightarrow> db \<Rightarrow> bool" where
  "same_journal s t \<longleftrightarrow> chats t = chats s \<and> files t = files s \<and> messages t = messages s
     \<and> events t = events s \<and> event_seq t = event_seq s
     \<and> u_user_id ` set (users s) \<subseteq> u_user_id ` set (users t)"

lemma journal_ok_frame: "journal_ok sf s \<Longrightarrow> same_journal s t \<Longrightarrow> journal_ok sf t"
  by (fastforce simp: journal_defs same_journal_def)

lemma same_journal_refl [simp]: "same_journal s s"
  by (simp add: same_journal_def)

lemma same_journal_trans: "same_journal s t \<Longrightarrow> same_journal t u \<Longrightarrow> same_journal s u"
  by (auto simp: same_journal_def)

subsection \<open>Files\<close>

lemma file_by_Some_iff:
  "distinct (map f_file_id fs) \<Longrightarrow> file_by i fs = Some f \<longleftrightarrow> f \<in> set fs \<and> f_file_id f = i"
  unfolding file_by_def by (rule find_key_Some_iff)

lemma attachment_of_upd [simp]:
  "attachment_of (f\<lparr>f_uploaded := b\<rparr>) = attachment_of f"
  "attachment_of (f\<lparr>f_message_id := mo\<rparr>) = attachment_of f"
  by (simp_all add: attachment_of_def)

lemma file_by_update:
  assumes "\<And>f. f_file_id (g f) = f_file_id f"
  shows "file_by i (update_where P g fs) = map_option (\<lambda>f. if P f then g f else f) (file_by i fs)"
  unfolding file_by_def by (rule find_update_where) (simp add: assms)

lemma scanMessage_update:
  assumes "\<And>f. f_file_id (g f) = f_file_id f" "\<And>f. attachment_of (g f) = attachment_of f"
  shows "scanMessage (update_where P g fs) m = scanMessage fs m"
  by (cases "m_file_id m"; cases "file_by (the (m_file_id m)) fs")
    (simp_all add: scanMessage_def file_by_update [OF assms(1)] assms(2))

lemma scanMessage_same_file:
  assumes "\<And>i. m_file_id m = Some i \<Longrightarrow> file_by i fs = file_by i fs'"
  shows "scanMessage fs m = scanMessage fs' m"
  using assms by (cases "m_file_id m") (simp_all add: scanMessage_def)

lemma file_by_append: "file_by i fs \<noteq> None \<Longrightarrow> file_by i (fs @ gs) = file_by i fs"
  by (auto simp: file_by_def find_append)

lemma file_by_filter: "j \<noteq> i \<Longrightarrow> file_by i (filter (\<lambda>f. f_file_id f \<noteq> j) fs) = file_by i fs"
  unfolding file_by_def by (induction fs) auto

lemma messages_have_files:
  assumes "messages_ok s" "files_ok s" "m \<in> set (messages s)" "m_file_id m = Some i"
  obtains f where "file_by i (files s) = Some f" "f_message_id f = Some (m_message_id m)"
  using assms by (fastforce simp: messages_ok_def files_ok_def file_by_Some_iff)

lemma CreateUpload_journal:
  assumes "journal_ok sf s"
  shows "journal_ok sf (snd (CreateUpload flt rid name size0 mime now s))"
  unfolding CreateUpload_def Let_def
proof (rule autocommit_invariant [where P = "journal_ok sf", OF assms], goal_cases)
  case (1 x t)
  let ?row = "\<lparr>f_file_id = ''f_'' @ rid, f_name = name, f_size = size0, f_mime = mime, f_created_at = now,
     f_expires_at = now + attachmentLifetimeSeconds, f_uploaded = False, f_message_id = None\<rparr>"
  have t: "t = s\<lparr>files := files s @ [?row]\<rparr>" and fresh: "file_by (''f_'' @ rid) (files s) = None"
    using 1 by simp_all
  have j: "messages_ok s" "files_ok s" "log_ok s" "chats_ok sf s" "replay_ok s"
    using assms by (simp_all add: journal_ok_def)
  have scan: "scanMessage (files s @ [?row]) m = scanMessage (files s) m" if "m \<in> set (messages s)" for m
    by (rule scanMessage_same_file) (metis messages_have_files [OF j(1,2) that] file_by_append option.distinct(1))
  then have "map (scanMessage (files s @ [?row])) (messages s) = map (scanMessage (files s)) (messages s)"
    by simp
  moreover have "files_ok t"
    using j(2) fresh by (auto simp: files_ok_def t file_by_def find_None_conv)
  moreover have "messages_ok t" using j(1) by (fastforce simp: messages_ok_def t)
  ultimately show ?case using j(3-5) by (simp add: journal_defs t)
qed

lemma MarkUploaded_journal:
  assumes "journal_ok sf s"
  shows "journal_ok sf (snd (MarkUploaded flt fileID s))"
proof -
  let ?P = "\<lambda>f. f_file_id f = fileID \<and> \<not> f_uploaded f"
  let ?t = "s\<lparr>files := update_where ?P (\<lambda>f. f\<lparr>f_uploaded := True\<rparr>) (files s)\<rparr>"
  have scan: "scanMessage (files ?t) = scanMessage (files s)"
    by (rule ext) (simp add: scanMessage_update)
  have "distinct (map f_file_id (files ?t))"
    using assms by (simp add: map_update_where_key journal_defs)
  then have "files_ok ?t"
    using assms by (auto simp: journal_defs set_update_where)
  moreover have "messages_ok ?t"
    using assms by (fastforce simp: journal_defs set_update_where)
  ultimately have "journal_ok sf ?t" using assms scan by (simp add: journal_defs)
  then show ?thesis using assms by (simp add: MarkUploaded_def Let_def)
qed

lemma delete_file_journal:
  assumes j: "journal_ok sf s"
    and nm: "\<forall>m \<in> set (messages s). m_file_id m = Some i \<longrightarrow> file_by i (files s) = None"
  shows "journal_ok sf (s\<lparr>files := filter (\<lambda>f. f_file_id f \<noteq> i) (files s)\<rparr>)" (is "journal_ok sf ?t")
proof -
  have p: "messages_ok s" "files_ok s" "log_ok s" "chats_ok sf s" "replay_ok s"
    using j by (simp_all add: journal_ok_def)
  have other: "m_file_id m \<noteq> Some i" if "m \<in> set (messages s)" for m
    using messages_have_files [OF p(1,2) that] nm that by force
  have "scanMessage (files ?t) m = scanMessage (files s) m" if "m \<in> set (messages s)" for m
    using other [OF that] by (intro scanMessage_same_file) (auto simp: file_by_filter)
  then have "map (scanMessage (files ?t)) (messages s) = map (scanMessage (files s)) (messages s)"
    by simp
  moreover have "files_ok ?t" using p(2) by (auto simp: files_ok_def distinct_map inj_on_def)
  moreover have "messages_ok ?t" using p(1) other by (fastforce simp: messages_ok_def)
  ultimately show ?thesis using p(3-5) by (simp add: journal_defs)
qed

lemma DeleteFiles_journal:
  "journal_ok sf s \<Longrightarrow> journal_ok sf (snd (DeleteFiles flt ids s))"
proof (induction flt ids s rule: DeleteFiles.induct)
  case (2 flt i ids s)
  then show ?case using delete_file_journal [of sf s i] by auto
qed simp

subsection \<open>Chats\<close>

lemma journal_chat_event:
  assumes "journal_ok sf s" and "chats_ok sf (s\<lparr>chats := cs\<rparr>)"
    and "c_chat_id ` set (chats s) \<subseteq> c_chat_id ` set cs"
    and "ty = EventChatCreated \<or> ty = EventChatUpdated"
  shows "journal_ok sf (appended (s\<lparr>chats := cs\<rparr>) ty (PChat c))"
proof -
  have l: "log_ok (appended (s\<lparr>chats := cs\<rparr>) ty (PChat c))"
    using assms(1) by (intro log_ok_appended) (simp add: journal_ok_def log_ok_def)
  have "messages_ok (appended (s\<lparr>chats := cs\<rparr>) ty (PChat c))"
    using assms(1,3) by (fastforce simp: journal_ok_def messages_ok_def)
  then show ?thesis
    using l assms by (auto simp: journal_ok_def chats_ok_def files_ok_def replay_ok_def event_ok_def event_message_def)
qed

lemma CreateChat_journal:
  assumes "journal_ok sf s"
  shows "journal_ok sf (snd (CreateChat flt sf rid chatID0 name lbl now s))"
proof -
  obtain r s' where op: "CreateChat flt sf rid chatID0 name lbl now s = (r, s')" by fastforce
  then show ?thesis
  proof (cases rule: CreateChat_cases)
    case same
    then show ?thesis using assms op by simp
  next
    case (created chatID chat)
    let ?cs = "chats s @ [\<lparr>c_chat_id = chatID, c_name = name, c_name_ci = foldCase sf name,
      c_created_at = now, c_created_by_label = lbl, c_last_activity_at = now, c_last_message_preview = ''''\<rparr>]"
    have "chats_ok sf (s\<lparr>chats := ?cs\<rparr>)"
      using assms created(3) by (auto simp: journal_ok_def chats_ok_def RuneCountInString_def)
    then show ?thesis unfolding op created(5) snd_conv
      using assms by (intro journal_chat_event) auto
  qed
qed

lemma RenameChat_journal:
  assumes "journal_ok sf s"
  shows "journal_ok sf (snd (RenameChat flt sf chatID name s))"
proof -
  obtain r s' where op: "RenameChat flt sf chatID name s = (r, s')" by fastforce
  then show ?thesis
  proof (cases rule: RenameChat_cases)
    case same
    then show ?thesis using assms op by simp
  next
    case (renamed c)
    let ?cs = "update_where (\<lambda>c. c_chat_id c = chatID)
      (\<lambda>c. c\<lparr>c_name := name, c_name_ci := foldCase sf name\<rparr>) (chats s)"
    have ids: "map c_chat_id ?cs = map c_chat_id (chats s)" by (rule map_update_where_key) simp
    have j: "chats_ok sf s" using assms by (simp add: journal_ok_def)
    have "inj_on c_name_ci (set ?cs)"
    proof (rule inj_onI)
      fix x y assume "x \<in> set ?cs" "y \<in> set ?cs" "c_name_ci x = c_name_ci y"
      then show "x = y"
        using renamed(3) j distinct_key_eq [of c_chat_id "chats s"] distinct_key_eq [of c_name_ci "chats s"]
        by (auto simp: set_update_where chats_ok_def split: if_splits)
    qed
    moreover have "distinct ?cs" using ids j by (metis chats_ok_def distinct_map)
    ultimately have "chats_ok sf (s\<lparr>chats := ?cs\<rparr>)"
      using j ids by (auto simp: chats_ok_def distinct_map set_update_where)
    then show ?thesis
      unfolding op renamed(5) snd_conv using assms ids
      by (intro journal_chat_event) (simp_all flip: set_map)
  qed
qed

subsection \<open>Messages\<close>

lemma touch_chat_ids [simp]: "map c_chat_id (touch_chat cid now p cs) = map c_chat_id cs"
  "map c_name_ci (touch_chat cid now p cs) = map c_name_ci cs"
  by (auto simp: touch_chat_def intro: map_update_where_key)

lemma length_previewFor: "RuneCountInString (previewFor sf body name) \<le> previewRunes"
  by (simp add: previewFor_def Let_def length_foldLine split: option.splits prod.splits)

lemma chats_ok_touch:
  "chats_ok sf s \<Longrightarrow> RuneCountInString p \<le> previewRunes \<Longrightarrow>
     chats_ok sf (s\<lparr>chats := touch_chat cid now p (chats s)\<rparr>)"
  by (auto simp: chats_ok_def) (auto simp: touch_chat_def set_update_where)

lemma bind_file_ids [simp]: "map f_file_id (bind_file i mid fs) = map f_file_id fs"
  by (auto simp: bind_file_def intro: map_update_where_key)

lemma scanMessage_bind [simp]: "scanMessage (bind_file i mid fs) = scanMessage fs"
  by (rule ext) (simp add: bind_file_def scanMessage_update)

lemma in_bind_file: "f \<in> set (bind_file i mid fs) \<longleftrightarrow>
   (\<exists>g \<in> set fs. f = (if f_file_id g = i then g\<lparr>f_message_id := Some mid\<rparr> else g))"
  unfolding bind_file_def set_update_where image_iff by (rule refl)

lemma scanMessage_new_row:
  assumes "check_attachment flt fileID s = Inr att"
    and "msg = new_message rid seq chatID cmid author body att now"
  shows "scanMessage (files s) (new_row msg fileID) = msg"
  using assms by (auto simp: check_attachment_Inr scanMessage_def new_row_def new_message_def split: if_splits)

lemma sent_state_journal:
  assumes j: "journal_ok sf s" and ok: "message_row_ok s (new_row msg fileID)"
    and att: "check_attachment flt fileID s = Inr att"
    and msg: "msg = new_message rid (event_seq s + 1) chatID cmid author body att now"
  shows "journal_ok sf (sent_state s sf fileID msg)"
proof -
  define t where "t = sent_state s sf fileID msg"
  have p: "messages_ok s" "files_ok s" "log_ok s" "chats_ok sf s" "replay_ok s"
    using j by (simp_all add: journal_ok_def)
  have msgs: "messages t = messages s @ [new_row msg fileID]" and us: "users t = users s"
    and cids: "map c_chat_id (chats t) = map c_chat_id (chats s)"
    and fids: "map f_file_id (files t) = map f_file_id (files s)"
    and scan: "scanMessage (files t) = scanMessage (files s)"
    and evs: "events t = events s @ [\<lparr>e_seq = event_seq s + 1, e_type = EventMessageNew, e_payload = PMessage msg\<rparr>]"
    by (simp_all add: t_def sent_state_def)
  have 1: "log_ok t"
    using log_ok_appended [OF p(3)] by (simp add: t_def sent_state_def log_ok_def)
  have 2: "chats_ok sf t"
    using chats_ok_touch [OF p(4) length_previewFor] by (simp add: t_def sent_state_def chats_ok_def)
  have seq: "msg_Seq msg = event_seq s + 1" by (simp add: msg new_message_def)
  have 3: "replay_ok t"
    using p(5) scanMessage_new_row [OF att msg] seq
    by (simp add: replay_ok_def evs msgs scan event_ok_def event_message_def)
  have fs: "files t = (if fileID = '''' then files s else bind_file fileID (msg_MessageID msg) (files s))"
    by (simp add: t_def sent_state_def)
  have free: "f_message_id f = None \<and> f_uploaded f" if "f \<in> set (files s)" "f_file_id f = fileID" "fileID \<noteq> ''''" for f
    using att that p(2) by (auto simp: check_attachment_Inr file_by_Some_iff files_ok_def dest: distinct_key_eq)
  have 4: "files_ok t"
    unfolding files_ok_def fids msgs
  proof (intro conjI ballI allI impI)
    show "distinct (map f_file_id (files s))" using p(2) by (simp add: files_ok_def)
    fix f mid assume f: "f \<in> set (files t)" "f_message_id f = Some mid"
    consider "f \<in> set (files s)"
      | g where "g \<in> set (files s)" "f = g\<lparr>f_message_id := Some (msg_MessageID msg)\<rparr>" "f_file_id g = fileID"
        "fileID \<noteq> ''''"
      using f(1) by (auto simp: fs in_bind_file split: if_splits)
    then show "f_uploaded f"
      "\<exists>m \<in> set (messages s @ [new_row msg fileID]). m_message_id m = mid \<and> m_file_id m = Some (f_file_id f)"
      by (cases; use f(2) p(2) free in \<open>force simp: files_ok_def new_row_def\<close>)+
  qed
  have keep: "\<exists>g \<in> set (files t). f_file_id g = f_file_id f \<and> f_message_id g = Some mid"
    if "f \<in> set (files s)" "f_message_id f = Some mid" for f mid
    using that free [OF that(1)] by (intro bexI [of _ f]) (auto simp: fs in_bind_file)
  have new: "\<exists>g \<in> set (files t). f_file_id g = i \<and> f_message_id g = Some (msg_MessageID msg)"
    if "m_file_id (new_row msg fileID) = Some i" for i
  proof -
    have i: "i = fileID" "fileID \<noteq> ''''" using that by (auto simp: new_row_def split: if_splits)
    have "file_by i (files s) \<noteq> None" using ok that unfolding message_row_ok_iff by blast
    then obtain f where f: "f \<in> set (files s)" "f_file_id f = fileID"
      using p(2) i by (auto simp: files_ok_def file_by_Some_iff)
    then have "f\<lparr>f_message_id := Some (msg_MessageID msg)\<rparr> \<in> set (files t)"
      using i by (auto simp: fs in_bind_file intro!: bexI [of _ f])
    then show ?thesis using f(2) i by (intro bexI) simp_all
  qed
  have 5: "messages_ok t"
    unfolding messages_ok_def msgs us
  proof (intro conjI ballI)
    show "distinct (map m_message_id (messages s @ [new_row msg fileID]))"
      "distinct (map (\<lambda>m. (m_author_id m, m_client_message_id m)) (messages s @ [new_row msg fileID]))"
      using p(1) ok by (auto simp: messages_ok_def message_row_ok_iff)
  next
    fix m assume m: "m \<in> set (messages s @ [new_row msg fileID])"
    show "m_chat_id m \<in> c_chat_id ` set (chats t)"
      using m p(1) ok unfolding set_map [symmetric] cids
      by (auto simp: messages_ok_def message_row_ok_iff intro: rev_image_eqI)
    show "m_author_id m \<in> u_user_id ` set (users s)"
      using m p(1) ok by (auto simp: messages_ok_def message_row_ok_iff intro: rev_image_eqI)
    show "\<forall>i. m_file_id m = Some i \<longrightarrow> (\<exists>f\<in>set (files t). f_file_id f = i \<and> f_message_id f = Some (m_message_id m))"
      using m p(1) keep new by (fastforce simp: messages_ok_def new_row_def)
  qed
  show ?thesis using 1 2 3 4 5 by (simp add: journal_ok_def t_def)
qed

lemma SendMessage_journal:
  assumes "journal_ok sf s"
  shows "journal_ok sf (snd (SendMessage flt sf rid chatID cmid author body fileID now s))"
proof -
  have l: "log_ok s" using assms by (simp add: journal_ok_def)
  obtain r s' where op: "SendMessage flt sf rid chatID cmid author body fileID now s = (r, s')" by fastforce
  from op l show ?thesis
  proof (cases rule: SendMessage_cases)
    case same
    then show ?thesis using assms op by simp
  next
    case (sent att msg)
    then show ?thesis using sent_state_journal [OF assms sent(4,2,3)] op by simp
  qed
qed

section \<open>Growth\<close>

text \<open>
  What no operation undoes: events stay where they are, and a message stays what it was when
  it was sent.
\<close>

definition history :: "db \<Rightarrow> Message list" where
  "history s = map (scanMessage (files s)) (messages s)"

definition grows :: "db \<Rightarrow> db \<Rightarrow> bool" where
  "grows s t \<longleftrightarrow> (\<exists>es. events t = events s @ es) \<and> (\<exists>ms. history t = history s @ ms)"

lemma grows_refl [simp]: "grows s s"
  by (simp add: grows_def)

lemma grows_trans: "grows s t \<Longrightarrow> grows t u \<Longrightarrow> grows s u"
  by (auto simp: grows_def)

lemma same_journal_grows: "same_journal s t \<Longrightarrow> grows s t"
  by (simp add: same_journal_def grows_def history_def)

lemma history_events: "journal_ok sf s \<Longrightarrow> history s = List.map_filter event_message (events s)"
  by (simp add: journal_ok_def replay_ok_def history_def)

text \<open>Under the invariant the log determines the history, so a log that grows is enough.\<close>

lemma grows_by_events:
  "journal_ok sf s \<Longrightarrow> journal_ok sf t \<Longrightarrow> events t = events s @ es \<Longrightarrow> grows s t"
  by (simp add: grows_def history_events)

lemma CreateUpload_grows: "journal_ok sf s \<Longrightarrow> grows s (snd (CreateUpload flt rid name size0 mime now s))"
  by (rule grows_by_events [where es = "[]", OF _ CreateUpload_journal])
    (auto simp: CreateUpload_def Let_def autocommit_def exec_def)

lemma MarkUploaded_grows: "journal_ok sf s \<Longrightarrow> grows s (snd (MarkUploaded flt fileID s))"
  by (rule grows_by_events [where es = "[]", OF _ MarkUploaded_journal])
    (auto simp: MarkUploaded_def Let_def)

lemma DeleteFiles_events: "events (snd (DeleteFiles flt ids s)) = events s"
  by (induction flt ids s rule: DeleteFiles.induct) auto

lemma DeleteFiles_grows: "journal_ok sf s \<Longrightarrow> grows s (snd (DeleteFiles flt ids s))"
  by (rule grows_by_events [where es = "[]", OF _ DeleteFiles_journal])
    (auto simp: DeleteFiles_events)

lemma CreateChat_grows: "journal_ok sf s \<Longrightarrow> grows s (snd (CreateChat flt sf rid i name lbl now s))"
proof -
  assume j: "journal_ok sf s"
  obtain r s' where op: "CreateChat flt sf rid i name lbl now s = (r, s')" by fastforce
  then have "\<exists>es. events s' = events s @ es" by (cases rule: CreateChat_cases) auto
  then show ?thesis
    using CreateChat_journal [OF j, of flt rid i name lbl now] grows_by_events [OF j] op by auto
qed

lemma RenameChat_grows: "journal_ok sf s \<Longrightarrow> grows s (snd (RenameChat flt sf i name s))"
proof -
  assume j: "journal_ok sf s"
  obtain r s' where op: "RenameChat flt sf i name s = (r, s')" by fastforce
  then have "\<exists>es. events s' = events s @ es" by (cases rule: RenameChat_cases) auto
  then show ?thesis
    using RenameChat_journal [OF j, of flt i name] grows_by_events [OF j] op by auto
qed

lemma SendMessage_grows:
  "journal_ok sf s \<Longrightarrow> grows s (snd (SendMessage flt sf rid chatID cmid author body fileID now s))"
proof -
  assume j: "journal_ok sf s"
  then have l: "log_ok s" by (simp add: journal_ok_def)
  obtain r s' where op: "SendMessage flt sf rid chatID cmid author body fileID now s = (r, s')" by fastforce
  from op l have "\<exists>es. events s' = events s @ es"
    by (cases rule: SendMessage_cases) (auto simp: sent_state_def)
  then show ?thesis
    using SendMessage_journal [OF j, of flt rid chatID cmid author body fileID now] grows_by_events [OF j] op by auto
qed

section \<open>Sending exactly once\<close>

lemma scanMessage_fields [simp]:
  "msg_AuthorID (scanMessage fs m) = m_author_id m"
  "msg_ClientMessageID (scanMessage fs m) = m_client_message_id m"
  "msg_Seq (scanMessage fs m) = m_seq m"
  "msg_ChatID (scanMessage fs m) = m_chat_id m"
  "msg_MessageID (scanMessage fs m) = m_message_id m"
  by (simp_all add: scanMessage_def)

lemma messageByClientID_history:
  assumes "journal_ok sf s"
  shows "messageByClientID s a c = Some msg \<longleftrightarrow>
    msg \<in> set (history s) \<and> msg_AuthorID msg = a \<and> msg_ClientMessageID msg = c"
proof -
  have d: "distinct (map (\<lambda>m. (m_author_id m, m_client_message_id m)) (messages s))"
    using assms by (simp add: journal_ok_def messages_ok_def)
  have "List.find (\<lambda>m. m_author_id m = a \<and> m_client_message_id m = c) (messages s) = Some m \<longleftrightarrow>
      m \<in> set (messages s) \<and> m_author_id m = a \<and> m_client_message_id m = c" for m
    using find_key_Some_iff [OF d, of "(a, c)" m] by simp
  then show ?thesis
    by (auto simp: messageByClientID_def history_def)
qed

lemma SendMessage_in_history:
  assumes j: "journal_ok sf s"
    and op: "SendMessage flt sf rid chatID cmid author body fileID now s = (Inr (msg, ev, created), s')"
  shows "msg \<in> set (history s')" "msg_AuthorID msg = id_UserID author" "msg_ClientMessageID msg = cmid"
proof -
  have l: "log_ok s" using j by (simp add: journal_ok_def)
  have "messageByClientID s' (id_UserID author) cmid = Some msg"
    using op l
  proof (cases rule: SendMessage_cases)
    case same
    have "created = False" using same(2) by (cases created) auto
    then show ?thesis using op same(1) send_rows_Inr(3)
      by (auto simp: SendMessage_def transact_Inr send_rows_def Let_def split: option.splits if_splits)
  next
    case (sent att m)
    then have "msg = m" "s' = sent_state s sf fileID m" by simp_all
    then have "msg \<in> set (history s')"
      using scanMessage_new_row [OF sent(2,3)] by (auto simp: history_def sent_state_def)
    moreover have "journal_ok sf s'" using SendMessage_journal [OF j] op by (metis snd_conv)
    ultimately show ?thesis
      using sent(3) \<open>msg = m\<close> by (simp add: messageByClientID_history new_message_def)
  qed
  moreover have "journal_ok sf s'" using SendMessage_journal [OF j] op by (metis snd_conv)
  ultimately show "msg \<in> set (history s')" "msg_AuthorID msg = id_UserID author" "msg_ClientMessageID msg = cmid"
    by (simp_all add: messageByClientID_history)
qed

lemma SendMessage_replay:
  assumes "journal_ok sf t" "msg \<in> set (history t)"
    and "msg_AuthorID msg = id_UserID author" "msg_ClientMessageID msg = cmid"
    and "\<not> flt ''begin send message''" "\<not> flt ''check idempotency''"
  shows "SendMessage flt sf rid chatID cmid author body fileID now t = (Inr (msg, no_event, False), t)"
  using assms by (simp add: SendMessage_def transact_def query_def rollback_def
      messageByClientID_history [THEN iffD2])

section \<open>The event log read back\<close>

definition stored :: "event_row \<Rightarrow> StoredEvent" where
  "stored e = \<lparr>ev_Seq = e_seq e, ev_Type = e_type e, ev_Payload = e_payload e\<rparr>"

lemma sort_key_sorted_wrt: "sorted_wrt (<) (map f xs) \<Longrightarrow> sort_key f xs = xs" for f :: "'a \<Rightarrow> 'k :: linorder"
proof (induction xs)
  case (Cons x xs)
  then have "\<forall>y \<in> set xs. f x \<le> f y" by auto
  then have "insort_key f x xs = x # xs" by (cases xs) auto
  with Cons show ?case by simp
qed simp

lemma sorted_wrt_filter_map: "sorted_wrt R (map f xs) \<Longrightarrow> sorted_wrt R (map f (filter P xs))"
  by (induction xs) auto

lemma EventsSince_eq:
  "log_ok s \<Longrightarrow> \<not> flt ''query events'' \<Longrightarrow>
     EventsSince flt since s = Inr (map stored (filter (\<lambda>e. since < e_seq e) (events s)))"
  by (simp add: EventsSince_def stored_def [abs_def] log_ok_def sort_key_sorted_wrt sorted_wrt_filter_map query_def)

lemma Cursor_bound:
  assumes "log_ok s" "Cursor flt s = Inr c"
  shows "\<forall>e \<in> set (events s). e_seq e \<le> c"
    and "c = 0 \<or> (\<exists>e \<in> set (events s). e_seq e = c)"
proof -
  have c: "c = (if events s = [] then 0 else Max (set (map e_seq (events s))))"
    using assms(2) by (simp add: Cursor_def)
  then show "\<forall>e \<in> set (events s). e_seq e \<le> c" by auto
  show "c = 0 \<or> (\<exists>e \<in> set (events s). e_seq e = c)"
  proof (cases "events s = []")
    case False
    then have "c \<in> set (map e_seq (events s))" using c Max_in [of "set (map e_seq (events s))"] by auto
    then show ?thesis by auto
  qed (simp add: c)
qed

lemma EventsSince_cursor:
  assumes s: "log_ok s" "Cursor flt s = Inr c"
    and t: "log_ok t" "events t = events s @ new" "\<not> flt' ''query events''"
  shows "EventsSince flt' c t = Inr (map stored new)"
proof -
  have new: "c < e_seq e" if "e \<in> set new" for e
  proof (cases "c = 0")
    case True
    then show ?thesis using t that by (auto simp: log_ok_def)
  next
    case False
    then obtain d where "d \<in> set (events s)" "e_seq d = c" using Cursor_bound(2) [OF s] by blast
    then show ?thesis using t(1) that by (auto simp: log_ok_def t(2) sorted_wrt_append)
  qed
  have "filter (\<lambda>e. c < e_seq e) (events s) = []"
    using Cursor_bound(1) [OF s] by (force simp: filter_empty_conv)
  moreover have "filter (\<lambda>e. c < e_seq e) new = new" using new by simp
  ultimately show ?thesis using EventsSince_eq [of t flt' c] t by simp
qed

section \<open>Paging through a history\<close>

lemma sorted_messages:
  assumes "journal_ok sf s"
  shows "sorted_wrt (<) (map m_seq (messages s))"
proof -
  have "sorted_wrt (<) (map msg_Seq (List.map_filter event_message es))"
    if "\<forall>e \<in> set es. event_ok e" "sorted_wrt (<) (map e_seq es)" for es
    using that
  proof (induction es)
    case (Cons e es)
    have "\<forall>m \<in> set (List.map_filter event_message es). e_seq e < msg_Seq m"
      using Cons.prems
      by (auto simp: List.map_filter_def event_message_def event_ok_def split: payload.splits)
    then show ?case
      using Cons by (auto simp: List.map_filter_def event_message_def event_ok_def split: payload.splits)
  qed simp
  then have "sorted_wrt (<) (map msg_Seq (history s))"
    unfolding history_events [OF assms] using assms unfolding journal_ok_def replay_ok_def log_ok_def by blast
  then show ?thesis by (simp add: history_def comp_def)
qed

definition chat_history :: "db \<Rightarrow> string \<Rightarrow> Message list" where
  "chat_history s chatID = filter (\<lambda>m. msg_ChatID m = chatID) (history s)"

definition older :: "db \<Rightarrow> string \<Rightarrow> int \<Rightarrow> Message list" where
  "older s chatID beforeSeq = filter (\<lambda>m. beforeSeq > 0 \<longrightarrow> msg_Seq m < beforeSeq) (chat_history s chatID)"

lemma sorted_chat_history: "journal_ok sf s \<Longrightarrow> sorted_wrt (<) (map msg_Seq (chat_history s chatID))"
  using sorted_messages by (auto simp: chat_history_def history_def comp_def intro!: sorted_wrt_filter_map)

lemma wrap64_id: "int64_min \<le> n \<Longrightarrow> n \<le> int64_max \<Longrightarrow> wrap64 n = n"
  by (simp add: wrap64_def int64_min_def int64_max_def)

lemma page_of_newest:
  assumes "0 \<le> limit"
  shows "page_of limit (take (nat (limit + 1)) (rev xs)) =
    Some (drop (length xs - nat limit) xs, int (length xs) > limit)"
proof (cases "int (length xs) > limit")
  case True
  then have n: "nat limit < length xs" "nat (limit + 1) = Suc (nat limit)" using assms by linarith+
  have "rev (take (nat limit) (rev xs)) = drop (length xs - nat limit) xs"
    by (simp add: rev_take)
  moreover have "take (nat limit) (take (Suc (nat limit)) (rev xs)) = take (nat limit) (rev xs)"
    by (simp add: min_def)
  moreover have "int (length (take (Suc (nat limit)) (rev xs))) = limit + 1"
    using n(1) assms by simp
  ultimately show ?thesis
    using True assms unfolding page_of_def slice_def n(2) by (simp del: take_take)
next
  case False
  then have "length xs \<le> nat limit" by linarith
  then show ?thesis
    using False assms by (simp add: page_of_def nat_add_distrib)
qed

lemma ListMessages_eq:
  assumes "journal_ok sf s" "0 \<le> limit" "limit < int64_max" "\<not> flt ''query messages''"
  shows "ListMessages flt chatID beforeSeq limit s =
    Some (Inr (drop (length (older s chatID beforeSeq) - nat limit) (older s chatID beforeSeq),
               int (length (older s chatID beforeSeq)) > limit))"
proof -
  let ?rows = "filter (\<lambda>m. m_chat_id m = chatID \<and> (beforeSeq > 0 \<longrightarrow> m_seq m < beforeSeq)) (messages s)"
  have w: "wrap64 (limit + 1) = limit + 1"
    using assms by (intro wrap64_id) (auto simp: int64_min_def)
  have "map (scanMessage (files s)) ?rows = older s chatID beforeSeq"
    by (simp add: older_def chat_history_def history_def filter_map comp_def conj_commute)
  moreover have "sort_key m_seq ?rows = ?rows"
    by (rule sort_key_sorted_wrt [OF sorted_wrt_filter_map [OF sorted_messages [OF assms(1)]]])
  ultimately have "map (scanMessage (files s)) (newest_first (wrap64 (limit + 1)) ?rows)
      = take (nat (limit + 1)) (rev (older s chatID beforeSeq))"
    using assms(2) w by (simp add: newest_first_def take_map [symmetric]) (simp add: rev_map [symmetric])
  then show ?thesis
    using assms(4) page_of_newest [OF assms(2)] by (simp add: ListMessages_def)
qed

text \<open>A client reading a chat backwards, page by page, with the first \<open>seq\<close> of a page as the next cursor.\<close>

fun read_back :: "nat \<Rightarrow> faults \<Rightarrow> string \<Rightarrow> int \<Rightarrow> int \<Rightarrow> db \<Rightarrow> Message list option" where
  "read_back 0 flt chatID beforeSeq limit s = None"
| "read_back (Suc n) flt chatID beforeSeq limit s =
     (case ListMessages flt chatID beforeSeq limit s of
        Some (Inr (page, hasMore)) \<Rightarrow>
          if hasMore
          then map_option (\<lambda>rest. rest @ page) (read_back n flt chatID (msg_Seq (hd page)) limit s)
          else Some page
      | _ \<Rightarrow> None)"

lemma older_nth:
  assumes j: "journal_ok sf s" and k: "k < length (older s chatID b)"
  shows "older s chatID (msg_Seq (older s chatID b ! k)) = take k (older s chatID b)"
proof -
  define xs where "xs = older s chatID b"
  have pos: "0 < msg_Seq m" if "m \<in> set (history s)" for m
    using that j unfolding history_events [OF j]
    by (auto simp: List.map_filter_def event_message_def journal_ok_def replay_ok_def log_ok_def event_ok_def
        split: payload.splits)
  have sorted: "sorted_wrt (<) (map msg_Seq xs)"
    unfolding xs_def older_def by (rule sorted_wrt_filter_map [OF sorted_chat_history [OF j]])
  have "xs ! k \<in> set xs" using k by (simp add: xs_def)
  then have m: "0 < msg_Seq (xs ! k)" "b > 0 \<longrightarrow> msg_Seq (xs ! k) < b"
    using pos by (auto simp: xs_def older_def chat_history_def)
  have "older s chatID (msg_Seq (xs ! k)) = filter (\<lambda>m. msg_Seq m < msg_Seq (xs ! k)) xs"
    using m by (auto simp: xs_def older_def intro!: filter_cong)
  also have "\<dots> = take k xs"
  proof -
    have lo: "\<forall>m \<in> set (take k xs). msg_Seq m < msg_Seq (xs ! k)"
      using sorted k by (auto simp: in_set_conv_nth xs_def sorted_wrt_iff_nth_less)
    have hi: "\<forall>m \<in> set (drop k xs). \<not> msg_Seq m < msg_Seq (xs ! k)"
    proof
      fix m assume "m \<in> set (drop k xs)"
      then obtain i where i: "m = xs ! (k + i)" "k + i < length xs"
        by (auto simp: in_set_conv_nth)
      have "msg_Seq (xs ! k) \<le> msg_Seq (xs ! (k + i))"
        using sorted_wrt_nth_less [OF sorted, of k "k + i"] i(2) by (cases "i = 0") simp_all
      then show "\<not> msg_Seq m < msg_Seq (xs ! k)" using i(1) by simp
    qed
    have "filter (\<lambda>m. msg_Seq m < msg_Seq (xs ! k)) (take k xs @ drop k xs) = take k xs"
      using lo hi by (simp only: filter_append) (simp add: filter_empty_conv)
    then show ?thesis by simp
  qed
  finally show ?thesis by (simp add: xs_def)
qed

lemma read_back_older:
  assumes j: "journal_ok sf s" and limit: "0 < limit" "limit < int64_max" and flt: "\<not> flt ''query messages''"
  shows "length (older s chatID b) < n \<Longrightarrow> read_back n flt chatID b limit s = Some (older s chatID b)"
proof (induction n arbitrary: b)
  case (Suc n)
  let ?xs = "older s chatID b" and ?k = "length (older s chatID b) - nat limit"
  have page: "ListMessages flt chatID b limit s = Some (Inr (drop ?k ?xs, int (length ?xs) > limit))"
    by (rule ListMessages_eq [OF j]) (use limit flt in auto)
  show ?case
  proof (cases "int (length ?xs) > limit")
    case True
    then have k: "?k < length ?xs" using limit by linarith
    then have "hd (drop ?k ?xs) = ?xs ! ?k" by (simp add: hd_drop_conv_nth)
    moreover have "older s chatID (msg_Seq (?xs ! ?k)) = take ?k ?xs" by (rule older_nth [OF j k])
    moreover have "length (take ?k ?xs) < n" using Suc.prems k limit True by simp
    ultimately have "read_back n flt chatID (msg_Seq (hd (drop ?k ?xs))) limit s = Some (take ?k ?xs)"
      using Suc.IH by metis
    then show ?thesis using True by (simp add: page)
  next
    case False
    then have "?k = 0" using limit by linarith
    then show ?thesis using False by (simp add: page)
  qed
qed simp

section \<open>Total behaviour of the commands\<close>

lemma message_row_fresh:
  assumes j: "journal_ok sf s"
    and new: "messageByClientID s (id_UserID author) cmid = None"
    and chat: "\<exists>c \<in> set (chats s). c_chat_id c = chatID"
    and att: "check_attachment flt fileID s = Inr att"
    and author: "id_UserID author \<in> u_user_id ` set (users s)"
    and rid: "''m_'' @ rid \<notin> m_message_id ` set (messages s)"
    and msg: "msg = new_message rid (event_seq s + 1) chatID cmid author body att now"
  shows "message_row_ok s (new_row msg fileID)"
proof -
  have p: "messages_ok s" "files_ok s" using j by (simp_all add: journal_ok_def)
  have seq: "m_seq m < event_seq s + 1" if "m \<in> set (messages s)" for m
  proof -
    have "scanMessage (files s) m \<in> set (List.map_filter event_message (events s))"
      using history_events [OF j] that by (metis history_def image_eqI list.set_map)
    then show ?thesis
      using j by (auto simp: List.map_filter_def event_message_def journal_ok_def replay_ok_def event_ok_def log_ok_def
          split: payload.splits) (metis scanMessage_fields(3) add1_zle_eq less_le_trans not_le order.strict_iff_not)
  qed
  have key: "\<not> (m_author_id m = id_UserID author \<and> m_client_message_id m = cmid)" if "m \<in> set (messages s)" for m
    using new that by (auto simp: messageByClientID_def find_None_conv)
  have unbound: "m_file_id m \<noteq> Some fileID" if "m \<in> set (messages s)" "fileID \<noteq> ''''" for m
  proof
    assume b: "m_file_id m = Some fileID"
    obtain f where "file_by fileID (files s) = Some f" "f_message_id f = Some (m_message_id m)"
      by (rule messages_have_files [OF p \<open>m \<in> set (messages s)\<close> b])
    then show False using att that(2) by (auto simp: check_attachment_Inr)
  qed
  show ?thesis
    unfolding message_row_ok_iff
  proof (intro conjI ballI)
    fix m assume m: "m \<in> set (messages s)"
    then have "m_message_id m \<noteq> ''m_'' @ rid" using rid by (metis imageI)
    then show "m_message_id m \<noteq> m_message_id (new_row msg fileID)" "m_seq m \<noteq> m_seq (new_row msg fileID)"
      "\<not> (m_author_id m = m_author_id (new_row msg fileID) \<and> m_client_message_id m = m_client_message_id (new_row msg fileID))"
      "m_file_id (new_row msg fileID) \<noteq> None \<longrightarrow> m_file_id m \<noteq> m_file_id (new_row msg fileID)"
      using seq [OF m] key [OF m] unbound [OF m] by (auto simp: new_row_def new_message_def msg)
  next
    show "\<exists>c \<in> set (chats s). c_chat_id c = m_chat_id (new_row msg fileID)"
      "\<exists>u \<in> set (users s). u_user_id u = m_author_id (new_row msg fileID)"
      using chat author by (auto simp: new_row_def new_message_def msg)
    show "\<forall>i. m_file_id (new_row msg fileID) = Some i \<longrightarrow> file_by i (files s) \<noteq> None"
      using att by (auto simp: new_row_def check_attachment_Inr split: if_splits)
  qed
qed

lemma send_rows_total:
  assumes "log_ok s" "att = None \<longleftrightarrow> fileID = ''''" "event_seq s < int64_max"
    and "message_row_ok s (new_row msg fileID)"
    and "msg = new_message rid (event_seq s + 1) chatID cmid author body att now"
  shows "send_rows no_faults sf rid chatID cmid author body fileID now att s =
    Inr ((msg, \<lparr>ev_Seq = event_seq s + 1, ev_Type = EventMessageNew, ev_Payload = PMessage msg\<rparr>, True),
         Some (sent_state s sf fileID msg))"
proof -
  have old: "update_where (\<lambda>e. e_seq e = event_seq s + 1) g (events s) = events s" for g
    using assms(1) by (intro update_where_none) (fastforce simp: log_ok_def)
  have "\<exists>x so. send_rows no_faults sf rid chatID cmid author body fileID now att s = Inr (x, so)"
    using assms(3,4)
    by (cases att) (simp_all add: send_rows_def Let_def appended_def old message_row_ok_events assms(5) no_faults_def)
  then show ?thesis using send_rows_Inr [OF assms(1,2) _ assms(5)] by metis
qed

text \<open>What \<open>message.send\<close> answers about an attachment, from the state of its file.\<close>

definition attachment_verdict :: "string \<Rightarrow> db \<Rightarrow> err + Attachment option" where
  "attachment_verdict fileID s =
     (if fileID = '''' then Inr None
      else if fileID \<notin> f_file_id ` set (files s) then Inl ErrFileNotFound
      else if \<exists>f \<in> set (files s). f_file_id f = fileID \<and> \<not> f_uploaded f then Inl ErrFileNotReady
      else if \<exists>m \<in> set (messages s). m_file_id m = Some fileID then Inl ErrFileTaken
      else Inr (map_option attachment_of (file_by fileID (files s))))"

lemma check_attachment_verdict:
  assumes "journal_ok sf s"
  shows "check_attachment no_faults fileID s = attachment_verdict fileID s"
proof (cases "file_by fileID (files s)")
  case None
  then have "fileID \<notin> f_file_id ` set (files s)" by (auto simp: file_by_def find_None_conv)
  then show ?thesis using None by (simp add: check_attachment_def attachment_verdict_def)
next
  case (Some f)
  have p: "messages_ok s" "files_ok s" using assms by (simp_all add: journal_ok_def)
  have f: "f \<in> set (files s)" "f_file_id f = fileID"
    using Some p(2) by (simp_all add: files_ok_def file_by_Some_iff)
  have u: "(\<exists>g \<in> set (files s). f_file_id g = fileID \<and> \<not> f_uploaded g) \<longleftrightarrow> \<not> f_uploaded f"
    using f p(2) distinct_key_eq [of f_file_id "files s"] by (auto simp: files_ok_def)
  have b: "(\<exists>m \<in> set (messages s). m_file_id m = Some fileID) \<longleftrightarrow> f_message_id f \<noteq> None"
  proof
    assume "\<exists>m \<in> set (messages s). m_file_id m = Some fileID"
    then obtain m where m: "m \<in> set (messages s)" "m_file_id m = Some fileID" by blast
    show "f_message_id f \<noteq> None" by (rule messages_have_files [OF p m]) (simp add: Some)
  next
    assume "f_message_id f \<noteq> None"
    then show "\<exists>m \<in> set (messages s). m_file_id m = Some fileID"
      using p(2) f unfolding files_ok_def by blast
  qed
  have "fileID \<in> f_file_id ` set (files s)" using f by auto
  then show ?thesis
    unfolding check_attachment_def attachment_verdict_def u b using Some by simp
qed

lemma SendMessage_total:
  assumes j: "journal_ok sf s" and seq: "event_seq s < int64_max"
    and author: "id_UserID author \<in> u_user_id ` set (users s)"
    and rid: "''m_'' @ rid \<notin> m_message_id ` set (messages s)"
  shows "SendMessage no_faults sf rid chatID cmid author body fileID now s =
    (case messageByClientID s (id_UserID author) cmid of
       Some msg \<Rightarrow> (Inr (msg, no_event, False), s)
     | None \<Rightarrow>
         if chatID \<notin> c_chat_id ` set (chats s) then (Inl ErrChatNotFound, s)
         else case attachment_verdict fileID s of
                Inl e \<Rightarrow> (Inl e, s)
              | Inr att \<Rightarrow>
                  let msg = new_message rid (event_seq s + 1) chatID cmid author body att now
                  in (Inr (msg, \<lparr>ev_Seq = event_seq s + 1, ev_Type = EventMessageNew, ev_Payload = PMessage msg\<rparr>, True),
                      sent_state s sf fileID msg))"
proof -
  have l: "log_ok s" using j by (simp add: journal_ok_def)
  have c: "affected (\<lambda>c. c_chat_id c = chatID) (chats s) = 0 \<longleftrightarrow> chatID \<notin> c_chat_id ` set (chats s)"
    by (auto simp: affected_0_iff)
  show ?thesis
  proof (cases "messageByClientID s (id_UserID author) cmid")
    case (Some msg)
    then show ?thesis by (simp add: SendMessage_def transact_def no_faults_def query_def rollback_def)
  next
    case None
    show ?thesis
    proof (cases "chatID \<in> c_chat_id ` set (chats s)")
      case False
      then show ?thesis using None c by (simp add: SendMessage_def transact_def no_faults_def query_def)
    next
      case True
      show ?thesis
      proof (cases "attachment_verdict fileID s")
        case (Inl e)
        then show ?thesis using None c True check_attachment_verdict [OF j, of fileID]
          by (simp add: SendMessage_def transact_def query_def) (simp add: no_faults_def)
      next
        case (Inr att)
        have a: "check_attachment no_faults fileID s = Inr att"
          using Inr check_attachment_verdict [OF j] by simp
        have "att = None \<longleftrightarrow> fileID = ''''" using a by (auto simp: check_attachment_Inr split: if_splits)
        moreover have "\<exists>c \<in> set (chats s). c_chat_id c = chatID" using True by auto
        ultimately show ?thesis
          using send_rows_total [OF l _ seq message_row_fresh [OF j None _ a author rid refl] refl] None c True a Inr
          by (simp add: SendMessage_def transact_def Let_def query_ok no_faults_def [of "''begin send message''"])
      qed
    qed
  qed
qed

lemma CreateChat_total:
  assumes j: "journal_ok sf s" and seq: "event_seq s < int64_max"
    and ne: "name \<noteq> ''''" "foldCase sf name \<noteq> ''''"
    and rid: "''c_'' @ rid \<notin> c_chat_id ` set (chats s)"
  shows "CreateChat no_faults sf rid i name lbl now s =
    (case List.find (\<lambda>c. i \<noteq> '''' \<and> c_chat_id c = i) (chats s) of
       Some c \<Rightarrow> (Inr (scanChat c, no_event, False), s)
     | None \<Rightarrow>
         if \<exists>c \<in> set (chats s). foldCase sf (c_name c) = foldCase sf name then (Inl ErrNameTaken, s)
         else
           let cid = (if i = '''' then ''c_'' @ rid else i);
               chat = \<lparr>ChatID = cid, Name = name, CreatedAt = now, CreatedByLabel = lbl,
                 LastMessagePreview = '''', LastActivityAt = now\<rparr>
           in (Inr (chat, \<lparr>ev_Seq = event_seq s + 1, ev_Type = EventChatCreated, ev_Payload = PChat chat\<rparr>, True),
               appended (s\<lparr>chats := chats s @
                 [\<lparr>c_chat_id = cid, c_name = name, c_name_ci = foldCase sf name, c_created_at = now,
                   c_created_by_label = lbl, c_last_activity_at = now, c_last_message_preview = ''''\<rparr>]\<rparr>)
                 EventChatCreated (PChat chat)))"
proof -
  have ci: "c_name_ci c = foldCase sf (c_name c)" if "c \<in> set (chats s)" for c
    using j that by (simp add: journal_ok_def chats_ok_def)
  have taken: "affected (\<lambda>c. c_name_ci c = foldCase sf name) (chats s) > 0 \<longleftrightarrow>
      (\<exists>c \<in> set (chats s). foldCase sf (c_name c) = foldCase sf name)"
    using ci affected_0_iff [of _ "chats s"] by (metis (mono_tags, lifting) gr0I less_numeral_extra(3))
  have find: "List.find (\<lambda>c. i \<noteq> '''' \<and> c_chat_id c = i) (chats s) =
      (if i \<noteq> '''' then List.find (\<lambda>c. c_chat_id c = i) (chats s) else None)"
    by (simp add: find_None_conv)
  have fresh: "List.find (\<lambda>c. c_chat_id c = ''c_'' @ rid) (chats s) = None"
    using rid by (force simp: find_None_conv)
  have nf: "\<not> no_faults l" for l by (simp add: no_faults_def)
  show ?thesis
    unfolding find
    by (cases "i = ''''"; cases "List.find (\<lambda>c. c_chat_id c = i) (chats s)")
      (use seq ne fresh taken in \<open>auto simp: CreateChat_def transact_def nf query_def exec_def rollback_def commit_def
        Let_def insert_event_def appended_def\<close>)
qed

definition matching_chats :: "(rune \<Rightarrow> rune) \<Rightarrow> string \<Rightarrow> db \<Rightarrow> Chat list" where
  "matching_chats sf q s =
     filter (\<lambda>c. TrimSpace q = '''' \<or> Contains (foldCase sf (Name c)) (foldCase sf (TrimSpace q)))
       (map scanChat (sort_key (\<lambda>c. (- c_last_activity_at c, c_chat_id c)) (chats s)))"

lemma foldCase_eq_Nil: "foldCase sf s = '''' \<longleftrightarrow> s = ''''"
proof
  assume e: "foldCase sf s = ''''"
  have "encode_rune r \<noteq> []" for r
    using length_encode_bytes_pos [of r] by (simp add: encode_rune_def)
  then have "runes s = []" using e by (cases "runes s") (auto simp: foldCase_def)
  then show "s = ''''" using bytes_of_runes [of s] by (simp add: bytes_of_def)
qed (simp add: foldCase_def)

lemma matching_chats_eq:
  "matching_chats sf q s =
     filter (\<lambda>c. \<not> (foldCase sf (TrimSpace q) \<noteq> '''' \<and> \<not> Contains (foldCase sf (Name c)) (foldCase sf (TrimSpace q))))
       (map scanChat (sort_key (\<lambda>c. (- c_last_activity_at c, c_chat_id c)) (chats s)))"
  by (auto simp: matching_chats_def foldCase_eq_Nil intro!: filter_cong)

lemma length_matching: "length (matching_chats sf q s) \<le> length (chats s)"
proof -
  have "length (matching_chats sf q s) \<le> length (map scanChat (sort_key (\<lambda>c. (- c_last_activity_at c, c_chat_id c)) (chats s)))"
    unfolding matching_chats_def by (rule length_filter_le)
  then show ?thesis by simp
qed

lemma int64_min_neg: "int64_min < 0"
  by (simp add: int64_min_def)

lemma slice_Some: "0 \<le> lo \<Longrightarrow> lo \<le> hi \<Longrightarrow> hi \<le> int (length xs) \<Longrightarrow>
   slice xs lo hi = Some (take (nat (hi - lo)) (drop (nat lo) xs))"
  by (simp add: slice_def)

lemma ListChats_eq:
  assumes page: "1 \<le> page" "page \<le> int64_max" and size: "1 \<le> pageSize"
    and small: "int (length (chats s)) * pageSize \<le> int64_max" and flt: "\<not> flt ''query chats''"
  shows "ListChats flt sf page pageSize q s =
    Some (Inr (take (nat pageSize) (drop (nat ((page - 1) * pageSize)) (matching_chats sf q s)),
               page * pageSize < int (length (matching_chats sf q s))))"
proof -
  define xs where "xs = matching_chats sf q s"
  have n: "int (length xs) * pageSize \<le> int64_max"
    using small length_matching [of sf q s] size unfolding xs_def
    by (meson mult_right_mono of_nat_mono order_trans zero_le_one)
  have p1: "wrap64 (page - 1) = page - 1"
    using page by (intro wrap64_id) (auto simp: int64_min_def)
  have lc: "ListChats flt sf page pageSize q s =
    (if page - 1 \<ge> int (length xs) then Some (Inr ([], False))
     else let start = wrap64 ((page - 1) * pageSize)
          in if start \<ge> int (length xs) then Some (Inr ([], False))
             else let stop = min (wrap64 (start + pageSize)) (int (length xs))
                  in map_option (\<lambda>cs. Inr (cs, stop < int (length xs))) (slice xs start stop))"
    using flt unfolding ListChats_def Let_def matching_chats_eq [symmetric] xs_def [symmetric] p1 by simp
  show ?thesis
  proof (cases "page - 1 \<ge> int (length xs)")
    case True
    then have le: "int (length xs) \<le> (page - 1) * pageSize"
      using size mult_left_mono [of 1 pageSize "page - 1"] page by simp
    then have "length xs \<le> nat ((page - 1) * pageSize)" by linarith
    moreover have "\<not> page * pageSize < int (length xs)"
      using le size by (simp add: algebra_simps)
    ultimately show ?thesis using True unfolding lc xs_def [symmetric] by simp
  next
    case False
    have up: "(page - 1) * pageSize + pageSize \<le> int (length xs) * pageSize"
      using False size mult_right_mono [of page "int (length xs)" pageSize] by (simp add: algebra_simps)
    have lo: "0 \<le> (page - 1) * pageSize" using page size by simp
    have st: "wrap64 ((page - 1) * pageSize) = (page - 1) * pageSize"
      using lo up n size by (intro wrap64_id) (auto simp: int64_min_def)
    have "wrap64 ((page - 1) * pageSize + pageSize) = (page - 1) * pageSize + pageSize"
      using lo up n size int64_min_neg by (intro wrap64_id) linarith+
    then have en: "wrap64 ((page - 1) * pageSize + pageSize) = page * pageSize"
      by (simp add: algebra_simps)
    show ?thesis
    proof (cases "(page - 1) * pageSize \<ge> int (length xs)")
      case True
      then have "length xs \<le> nat ((page - 1) * pageSize)" by linarith
      moreover have "\<not> page * pageSize < int (length xs)"
        using True size by (simp add: algebra_simps)
      ultimately show ?thesis using True False st unfolding lc xs_def [symmetric] by (simp add: Let_def)
    next
      case in_range: False
      let ?a = "(page - 1) * pageSize" and ?b = "page * pageSize"
      have ab: "?b = ?a + pageSize" by (simp add: algebra_simps)
      have sl: "slice xs ?a (min ?b (int (length xs))) = Some (take (nat pageSize) (drop (nat ?a) xs))"
      proof (cases "?b \<le> int (length xs)")
        case True
        then show ?thesis using lo size ab by (subst slice_Some) (simp_all add: min_def)
      next
        case big: False
        then have "length xs - nat ?a \<le> nat pageSize" using ab lo by linarith
        then show ?thesis using lo in_range big by (subst slice_Some) (simp_all add: min_def nat_diff_distrib)
      qed
      have more: "min ?b (int (length xs)) < int (length xs) \<longleftrightarrow> ?b < int (length xs)" by linarith
      show ?thesis
        using False in_range sl more unfolding lc xs_def [symmetric] Let_def st en by simp
    qed
  qed
qed

section \<open>Sweeping orphans\<close>

lemma DeleteFiles_orphans:
  assumes "journal_ok sf s" "\<forall>i \<in> set ids. \<forall>f \<in> set (files s). f_file_id f = i \<longrightarrow> f_message_id f = None"
    and "\<not> flt ''delete file''"
  shows "DeleteFiles flt ids s = (Inr (), s\<lparr>files := filter (\<lambda>f. f_file_id f \<notin> set ids) (files s)\<rparr>)"
  using assms(1,2)
proof (induction ids arbitrary: s)
  case (Cons i ids)
  have p: "messages_ok s" "files_ok s" using Cons.prems by (simp_all add: journal_ok_def)
  have free: "\<forall>m \<in> set (messages s). m_file_id m = Some i \<longrightarrow> file_by i (files s) = None"
  proof (intro ballI impI)
    fix m assume m: "m \<in> set (messages s)" "m_file_id m = Some i"
    obtain f where "file_by i (files s) = Some f" "f_message_id f = Some (m_message_id m)"
      by (rule messages_have_files [OF p m])
    then show "file_by i (files s) = None"
      using Cons.prems(2) p(2) by (auto simp: files_ok_def file_by_Some_iff)
  qed
  let ?t = "s\<lparr>files := filter (\<lambda>f. f_file_id f \<noteq> i) (files s)\<rparr>"
  have "DeleteFiles flt ids ?t = (Inr (), ?t\<lparr>files := filter (\<lambda>f. f_file_id f \<notin> set ids) (files ?t)\<rparr>)"
    using Cons.prems(2) by (intro Cons.IH [OF delete_file_journal [OF Cons.prems(1) free]]) auto
  moreover have "DeleteFiles flt (i # ids) s = DeleteFiles flt ids ?t"
    using free assms(3) by auto
  moreover have "filter (\<lambda>f. f_file_id f \<notin> set ids) (filter (\<lambda>f. f_file_id f \<noteq> i) (files s))
      = filter (\<lambda>f. f_file_id f \<notin> set (i # ids)) (files s)"
    by (simp add: conj_commute)
  ultimately show ?case by simp
qed simp

lemma orphan_sweep:
  assumes j: "journal_ok sf s" and o: "OrphanFiles flt cutoff s = Inr ids" and d: "\<not> flt' ''delete file''"
  shows "DeleteFiles flt' ids s = (Inr (), s\<lparr>files := filter (\<lambda>f. \<not> (f_message_id f = None \<and> f_created_at f < cutoff)) (files s)\<rparr>)"
    and "history (snd (DeleteFiles flt' ids s)) = history s"
proof -
  have ids: "ids = map f_file_id (filter (\<lambda>f. f_message_id f = None \<and> f_created_at f < cutoff) (files s))"
    using o by (simp add: OrphanFiles_def)
  have dk: "distinct (map f_file_id (files s))" using j by (simp add: journal_ok_def files_ok_def)
  have mem: "f_file_id f \<in> set ids \<longleftrightarrow> f_message_id f = None \<and> f_created_at f < cutoff" if "f \<in> set (files s)" for f
    using that distinct_key_eq [OF dk] unfolding ids by auto
  have "DeleteFiles flt' ids s = (Inr (), s\<lparr>files := filter (\<lambda>f. f_file_id f \<notin> set ids) (files s)\<rparr>)"
    using mem by (intro DeleteFiles_orphans [of sf s ids flt', OF j _ d]) auto
  moreover have "filter (\<lambda>f. f_file_id f \<notin> set ids) (files s)
      = filter (\<lambda>f. \<not> (f_message_id f = None \<and> f_created_at f < cutoff)) (files s)"
    by (rule filter_cong) (use mem in auto)
  ultimately show e: "DeleteFiles flt' ids s = (Inr (), s\<lparr>files := filter (\<lambda>f. \<not> (f_message_id f = None \<and> f_created_at f < cutoff)) (files s)\<rparr>)"
    by simp
  have "journal_ok sf (snd (DeleteFiles flt' ids s))" by (rule DeleteFiles_journal [OF j])
  then show "history (snd (DeleteFiles flt' ids s)) = history s"
    using history_events [OF j] history_events by (metis DeleteFiles_events)
qed

lemma RenameChat_total:
  assumes j: "journal_ok sf s" and seq: "event_seq s < int64_max" and ne: "name \<noteq> ''''"
  shows "RenameChat no_faults sf chatID name s =
    (case List.find (\<lambda>c. c_chat_id c = chatID) (chats s) of
       None \<Rightarrow> (Inl ErrChatNotFound, s)
     | Some c \<Rightarrow>
         if c_name c = name then (Inr (scanChat c, no_event, False), s)
         else if \<exists>d \<in> set (chats s). foldCase sf (c_name d) = foldCase sf name \<and> c_chat_id d \<noteq> chatID
         then (Inl ErrNameTaken, s)
         else
           let chat = (scanChat c)\<lparr>Name := name\<rparr>
           in (Inr (chat, \<lparr>ev_Seq = event_seq s + 1, ev_Type = EventChatUpdated, ev_Payload = PChat chat\<rparr>, True),
               appended (s\<lparr>chats := update_where (\<lambda>c. c_chat_id c = chatID)
                 (\<lambda>c. c\<lparr>c_name := name, c_name_ci := foldCase sf name\<rparr>) (chats s)\<rparr>) EventChatUpdated (PChat chat)))"
proof -
  have ci: "c_name_ci c = foldCase sf (c_name c)" if "c \<in> set (chats s)" for c
    using j that by (simp add: journal_ok_def chats_ok_def)
  have taken: "affected (\<lambda>c. c_name_ci c = foldCase sf name \<and> c_chat_id c \<noteq> chatID) (chats s) > 0 \<longleftrightarrow>
      (\<exists>d \<in> set (chats s). foldCase sf (c_name d) = foldCase sf name \<and> c_chat_id d \<noteq> chatID)"
    unfolding neq0_conv [symmetric] affected_0_iff using ci by auto
  have nf: "\<not> no_faults l" for l by (simp add: no_faults_def)
  show ?thesis
    by (cases "List.find (\<lambda>c. c_chat_id c = chatID) (chats s)")
      (use seq ne taken foldCase_eq_Nil [of sf name] in \<open>auto simp: RenameChat_def transact_def nf query_def exec_def
        rollback_def commit_def Let_def insert_event_def appended_def scanChat_def\<close>)
qed

end
