(* ===== verification/Store_Pairing.thy ===== *)
theory Store_Pairing
  imports Store_Journal
begin

text \<open>
  Who may reach the machine: \<open>internal/store\<close> \<open>identity.go\<close>, \<open>pairing.go\<close>, \<open>requests.go\<close> and
  \<open>devices.go\<close>. People, devices, one-shot pairing tokens and the requests an invite opens.
  The functions that run inside a caller's transaction take the database and return it with
  their result. Random values (a token \<open>tok\<close>, an id \<open>rid\<close>, the draws of a generated name) are
  arguments. Where the code reads on the read pool before it takes the writer, the model
  takes the two databases apart: \<open>snap\<close> is what the read saw, and anything may have been
  committed before the write.
\<close>

section \<open>Identity\<close>

definition no_identity :: Identity where
  "no_identity = \<lparr>id_UserID = '''', id_Label = '''', id_Created = False\<rparr>"

definition device_by :: "string \<Rightarrow> device_row list \<Rightarrow> device_row option" where
  "device_by k ds = List.find (\<lambda>d. d_device_key d = k) ds"

definition user_by :: "string \<Rightarrow> user_row list \<Rightarrow> user_row option" where
  "user_by i us = List.find (\<lambda>u. u_user_id u = i) us"

definition identity_of :: "user_row \<Rightarrow> Identity" where
  "identity_of u = \<lparr>id_UserID = u_user_id u, id_Label = u_label u, id_Created = False\<rparr>"

definition lookupByDevice :: "faults \<Rightarrow> string \<Rightarrow> db \<Rightarrow> err + Identity option" where
  "lookupByDevice flt deviceKey s =
     query flt ''lookup user by device''
       (Option.bind (device_by deviceKey (devices s)) (\<lambda>d.
        map_option identity_of (user_by (d_user_id d) (users s))))"

definition touchDevice :: "faults \<Rightarrow> string \<Rightarrow> int \<Rightarrow> db \<Rightarrow> err + db" where
  "touchDevice flt deviceKey now s =
     exec flt ''touch device'' True
       (s\<lparr>devices := update_where (\<lambda>d. d_device_key d = deviceKey) (\<lambda>d. d\<lparr>d_last_seen_at := now\<rparr>) (devices s)\<rparr>)"

definition ResolveIdentity :: "faults \<Rightarrow> string \<Rightarrow> int \<Rightarrow> db \<Rightarrow> (err + Identity) \<times> db" where
  "ResolveIdentity flt deviceKey now = transact flt ''begin resolve identity'' (\<lambda>s.
     if deviceKey = '''' then Inl ErrDeviceUnknown
     else
       onOk (lookupByDevice flt deviceKey s) (\<lambda>found.
       case found of
         None \<Rightarrow> Inl ErrDeviceUnknown
       | Some i \<Rightarrow>
           onOk (touchDevice flt deviceKey now s) (\<lambda>s1.
           commit flt ''commit resolve identity'' i s1)))"

fun decimal :: "nat \<Rightarrow> string" where
  "decimal n = (if n < 10 then [char_of (48 + n)] else decimal (n div 10) @ [char_of (48 + n mod 10)])"

declare decimal.simps [simp del]

definition assignedLabelAttempts :: nat where
  "assignedLabelAttempts = 8"

fun try_labels :: "faults \<Rightarrow> user_row list \<Rightarrow> nat list \<Rightarrow> string \<Rightarrow> err + string" where
  "try_labels flt us [] candidate = Inr candidate"
| "try_labels flt us (d # ds) candidate =
     (let c = ''User'' @ decimal (1000 + d)
      in onOk (query flt ''check assigned label'' (affected (\<lambda>u. u_label u = c) us)) (\<lambda>taken.
         if taken = 0 then Inr c else try_labels flt us ds c))"

definition assignedLabelTx :: "faults \<Rightarrow> (nat \<Rightarrow> nat) \<Rightarrow> db \<Rightarrow> err + string" where
  "assignedLabelTx flt draws s = try_labels flt (users s) (map draws [0..<assignedLabelAttempts]) ''''"

text \<open>The singleton index on users: a second person is a constraint violation.\<close>

definition insertUser :: "faults \<Rightarrow> string \<Rightarrow> (nat \<Rightarrow> nat) \<Rightarrow> int \<Rightarrow> db \<Rightarrow> err + (Identity \<times> db)" where
  "insertUser flt rid draws now s =
     onOk (assignedLabelTx flt draws s) (\<lambda>assigned.
     let i = \<lparr>id_UserID = ''u_'' @ rid, id_Label = assigned, id_Created = False\<rparr>
     in exec flt ''insert user'' (users s = [] \<and> assigned \<noteq> '''')
          (i, s\<lparr>users := users s @ [\<lparr>u_user_id = id_UserID i, u_label = assigned, u_created_at = now\<rparr>]\<rparr>))"

text \<open>The upsert of \<open>insertDevice\<close>: a known key is refreshed and keeps its person.\<close>

definition insertDevice :: "faults \<Rightarrow> string \<Rightarrow> string \<Rightarrow> string \<Rightarrow> int \<Rightarrow> db \<Rightarrow> err + db" where
  "insertDevice flt deviceKey userID platform now s =
     (case device_by deviceKey (devices s) of
        Some _ \<Rightarrow>
          exec flt ''insert device'' (platform \<noteq> '''')
            (s\<lparr>devices := update_where (\<lambda>d. d_device_key d = deviceKey)
               (\<lambda>d. d\<lparr>d_platform := platform, d_last_seen_at := now\<rparr>) (devices s)\<rparr>)
      | None \<Rightarrow>
          exec flt ''insert device'' (platform \<noteq> '''' \<and> user_by userID (users s) \<noteq> None)
            (s\<lparr>devices := devices s @ [\<lparr>d_device_key = deviceKey, d_user_id = userID, d_platform = platform,
               d_created_at = now, d_last_seen_at = now\<rparr>]\<rparr>))"

definition deviceOwnerOf :: "faults \<Rightarrow> string \<Rightarrow> db \<Rightarrow> err + string" where
  "deviceOwnerOf flt deviceKey s =
     query flt ''read device owner''
       (case device_by deviceKey (devices s) of None \<Rightarrow> '''' | Some d \<Rightarrow> d_user_id d)"

section \<open>Tokens\<close>

definition TokenMachine :: string where "TokenMachine = ''machine''"
definition TokenInviteDevice :: string where "TokenInviteDevice = ''invite_device''"

definition TokenTTLSeconds :: int where
  "TokenTTLSeconds = 600"

record MachineLink =
  ml_Token :: string
  ml_ExpiresAt :: int

definition Live :: "MachineLink \<Rightarrow> int \<Rightarrow> bool" where
  "Live l now \<longleftrightarrow> now < ml_ExpiresAt l"

definition token_by :: "string \<Rightarrow> token_row list \<Rightarrow> token_row option" where
  "token_by k ts = List.find (\<lambda>t. t_token t = k) ts"

definition newTokenValue :: "faults \<Rightarrow> string \<Rightarrow> err + string" where
  "newTokenValue flt tok = query flt ''generate pairing token'' tok"

definition void_tokens :: "(token_row \<Rightarrow> bool) \<Rightarrow> int \<Rightarrow> db \<Rightarrow> db" where
  "void_tokens P now s =
     s\<lparr>pair_tokens := update_where (\<lambda>t. P t \<and> t_used_at t = None) (\<lambda>t. t\<lparr>t_used_at := Some now\<rparr>) (pair_tokens s)\<rparr>"

definition insertMachineLink :: "faults \<Rightarrow> string \<Rightarrow> int \<Rightarrow> db \<Rightarrow> err + (MachineLink \<times> db)" where
  "insertMachineLink flt tok now s =
     onOk (newTokenValue flt tok) (\<lambda>token.
     onOk (exec flt ''void earlier machine links'' True (void_tokens (\<lambda>t. t_kind t = TokenMachine) now s)) (\<lambda>s1.
     let link = \<lparr>ml_Token = token, ml_ExpiresAt = now + TokenTTLSeconds\<rparr>
     in exec flt ''insert machine link'' (token_by token (pair_tokens s1) = None)
          (link, s1\<lparr>pair_tokens := pair_tokens s1 @
             [\<lparr>t_token = token, t_kind = TokenMachine, t_user_id = None, t_issuer_key = None,
               t_created_at = now, t_expires_at = ml_ExpiresAt link, t_used_at = None, t_used_by = None,
               t_paired_user_id = None, t_created_person = False\<rparr>]\<rparr>)))"

definition IssueMachineLink :: "faults \<Rightarrow> string \<Rightarrow> int \<Rightarrow> db \<Rightarrow> (err + MachineLink) \<times> db" where
  "IssueMachineLink flt tok now = transact flt ''begin issue machine link'' (\<lambda>s.
     onOk (insertMachineLink flt tok now s) (\<lambda>(link, s1).
     commit flt ''commit issue machine link'' link s1))"

record PageLink =
  pl_Devices :: int
  pl_Link :: MachineLink
  pl_Found :: bool

definition countDevices :: "faults \<Rightarrow> db \<Rightarrow> err + int" where
  "countDevices flt s = query flt ''count devices'' (int (length (devices s)))"

text \<open>\<open>ORDER BY created\_at DESC, rowid DESC LIMIT 1\<close>: the newest row, of equals the last one.\<close>

definition newest_token :: "token_row list \<Rightarrow> token_row option" where
  "newest_token ts = (case rev (sort_key t_created_at ts) of [] \<Rightarrow> None | t # _ \<Rightarrow> Some t)"

definition unspent_machine :: "token_row \<Rightarrow> bool" where
  "unspent_machine t \<longleftrightarrow> t_kind t = TokenMachine \<and> t_used_at t = None"

definition pageLinkState :: "faults \<Rightarrow> db \<Rightarrow> err + PageLink" where
  "pageLinkState flt s =
     onOk (countDevices flt s) (\<lambda>n.
     onOk (query flt ''read machine link'' (newest_token (filter unspent_machine (pair_tokens s)))) (\<lambda>row.
     case row of
       None \<Rightarrow> Inr \<lparr>pl_Devices = n, pl_Link = \<lparr>ml_Token = '''', ml_ExpiresAt = 0\<rparr>, pl_Found = False\<rparr>
     | Some t \<Rightarrow> Inr \<lparr>pl_Devices = n, pl_Link = \<lparr>ml_Token = t_token t, ml_ExpiresAt = t_expires_at t\<rparr>,
         pl_Found = True\<rparr>))"

definition PageMachineLink :: "faults \<Rightarrow> string \<Rightarrow> int \<Rightarrow> db \<Rightarrow> db \<Rightarrow> (err + PageLink) \<times> db" where
  "PageMachineLink flt tok now snap s =
     (if flt ''begin read machine link'' then (Inl (ErrSQL ''begin read machine link''), s)
      else case pageLinkState flt snap of
             Inl e \<Rightarrow> (Inl e, s)
           | Inr page \<Rightarrow>
               if pl_Found page \<or> pl_Devices page > 0 then (Inr page, s)
               else transact flt ''begin mint machine link'' (\<lambda>s.
                 onOk (pageLinkState flt s) (\<lambda>page.
                 onOk (if \<not> pl_Found page \<and> pl_Devices page = 0
                       then onOk (insertMachineLink flt tok now s) (\<lambda>(link, s1).
                              Inr (page\<lparr>pl_Link := link, pl_Found := True\<rparr>, s1))
                       else Inr (page, s)) (\<lambda>(page, s1).
                 commit flt ''commit mint machine link'' page s1))) s)"

text \<open>The token is written by a statement that reads the issuer's row, so a revoked issuer writes none.\<close>

definition IssueDeviceInvite :: "faults \<Rightarrow> string \<Rightarrow> string \<Rightarrow> int \<Rightarrow> db \<Rightarrow> (err + string) \<times> db" where
  "IssueDeviceInvite flt tok issuer now s =
     (case newTokenValue flt tok of
        Inl e \<Rightarrow> (Inl e, s)
      | Inr token \<Rightarrow>
          if flt ''insert invite'' then (Inl (ErrSQL ''insert invite''), s)
          else case device_by issuer (devices s) of
                 None \<Rightarrow> (if flt ''insert invite rows'' then (Inl (ErrSQL ''insert invite''), s) else (Inl ErrDeviceUnknown, s))
               | Some d \<Rightarrow>
                   if token_by token (pair_tokens s) \<noteq> None \<or> d_device_key d = ''''
                     \<or> user_by (d_user_id d) (users s) = None
                   then (Inl (ErrSQL ''insert invite''), s)
                   else
                     let s' = s\<lparr>pair_tokens := pair_tokens s @
                       [\<lparr>t_token = token, t_kind = TokenInviteDevice, t_user_id = Some (d_user_id d),
                         t_issuer_key = Some (d_device_key d), t_created_at = now,
                         t_expires_at = now + TokenTTLSeconds, t_used_at = None, t_used_by = None,
                         t_paired_user_id = None, t_created_person = False\<rparr>]\<rparr>
                     in if flt ''insert invite rows'' then (Inl (ErrSQL ''insert invite''), s') else (Inr token, s'))"

record pairToken =
  pt_token :: string
  pt_kind :: string
  pt_userID :: string
  pt_issuerKey :: string
  pt_expiresAt :: int
  pt_used :: bool

definition null_string :: "string option \<Rightarrow> string" where
  "null_string v = (case v of None \<Rightarrow> '''' | Some x \<Rightarrow> x)"

definition readToken :: "faults \<Rightarrow> string \<Rightarrow> db \<Rightarrow> err + pairToken" where
  "readToken flt token s =
     onOk (query flt ''read pairing token'' (token_by token (pair_tokens s))) (\<lambda>row.
     case row of
       None \<Rightarrow> Inl ErrTokenInvalid
     | Some t \<Rightarrow> Inr \<lparr>pt_token = token, pt_kind = t_kind t, pt_userID = null_string (t_user_id t),
         pt_issuerKey = null_string (t_issuer_key t), pt_expiresAt = t_expires_at t,
         pt_used = (t_used_at t \<noteq> None)\<rparr>)"

definition spendToken :: "faults \<Rightarrow> string \<Rightarrow> string \<Rightarrow> int \<Rightarrow> db \<Rightarrow> err + db" where
  "spendToken flt token deviceKey now s =
     (let hit = (\<lambda>t. t_token t = token \<and> t_used_at t = None)
      in onOk (exec flt ''spend pairing token'' True
           (s\<lparr>pair_tokens := update_where hit (\<lambda>t. t\<lparr>t_used_at := Some now, t_used_by := Some deviceKey\<rparr>) (pair_tokens s)\<rparr>)) (\<lambda>s1.
         onOk (query flt ''spend pairing token rows'' (affected hit (pair_tokens s))) (\<lambda>n.
         if n = 0 then Inl ErrTokenInvalid else Inr s1)))"

definition bindDevice :: "faults \<Rightarrow> string \<Rightarrow> string \<Rightarrow> string \<Rightarrow> int \<Rightarrow> db \<Rightarrow> err + db" where
  "bindDevice flt deviceKey userID platform now s =
     onOk (deviceOwnerOf flt deviceKey s) (\<lambda>bound.
     if bound \<noteq> '''' \<and> bound \<noteq> userID then Inl ErrTokenInvalid
     else insertDevice flt deviceKey userID platform now s)"

definition recordOutcome :: "faults \<Rightarrow> string \<Rightarrow> Identity \<Rightarrow> db \<Rightarrow> err + db" where
  "recordOutcome flt token i s =
     exec flt ''record pairing outcome'' (user_by (id_UserID i) (users s) \<noteq> None)
       (s\<lparr>pair_tokens := update_where (\<lambda>t. t_token t = token)
          (\<lambda>t. t\<lparr>t_paired_user_id := Some (id_UserID i), t_created_person := id_Created i\<rparr>) (pair_tokens s)\<rparr>)"

definition pairedBy :: "faults \<Rightarrow> string \<Rightarrow> string \<Rightarrow> db \<Rightarrow> err + Identity option" where
  "pairedBy flt token deviceKey s =
     query flt ''read pairing replay''
       (case token_by token (pair_tokens s) of
          None \<Rightarrow> None
        | Some t \<Rightarrow>
            if t_used_at t \<noteq> None \<and> t_used_by t = Some deviceKey
            then case t_paired_user_id t of
                   None \<Rightarrow> None
                 | Some u \<Rightarrow>
                     (case (user_by u (users s), device_by deviceKey (devices s)) of
                        (Some ur, Some d) \<Rightarrow>
                          if d_user_id d = u
                          then Some \<lparr>id_UserID = u_user_id ur, id_Label = u_label ur, id_Created = t_created_person t\<rparr>
                          else None
                      | _ \<Rightarrow> None)
            else None)"

definition countPeople :: "faults \<Rightarrow> db \<Rightarrow> err + nat" where
  "countPeople flt s = query flt ''count people'' (length (users s))"

definition soleUser :: "faults \<Rightarrow> db \<Rightarrow> err + Identity" where
  "soleUser flt s =
     query_row flt ''read sole person'' (case users s of [] \<Rightarrow> None | u # _ \<Rightarrow> Some (identity_of u))"

definition resolveSolePerson :: "faults \<Rightarrow> string \<Rightarrow> (nat \<Rightarrow> nat) \<Rightarrow> int \<Rightarrow> db \<Rightarrow> err + (Identity \<times> db)" where
  "resolveSolePerson flt rid draws now s =
     onOk (countPeople flt s) (\<lambda>people.
     if people = 1 then onOk (soleUser flt s) (\<lambda>i. Inr (i, s))
     else if people = 0 then onOk (insertUser flt rid draws now s) (\<lambda>(i, s1). Inr (i\<lparr>id_Created := True\<rparr>, s1))
     else Inl ErrTokenInvalid)"

definition pairByMachineLink :: "faults \<Rightarrow> string \<Rightarrow> (nat \<Rightarrow> nat) \<Rightarrow> pairToken \<Rightarrow> string \<Rightarrow> string \<Rightarrow> int \<Rightarrow> db
    \<Rightarrow> err + ((Identity \<times> bool) \<times> db)" where
  "pairByMachineLink flt rid draws pt deviceKey platform now s =
     onOk (pairedBy flt (pt_token pt) deviceKey s) (\<lambda>same.
     case same of
       Some i \<Rightarrow> Inr ((i, False), s)
     | None \<Rightarrow>
         if pt_used pt then Inl ErrTokenInvalid
         else if pt_expiresAt pt \<le> now then Inl ErrTokenExpired
         else
           onOk (spendToken flt (pt_token pt) deviceKey now s) (\<lambda>s1.
           onOk (resolveSolePerson flt rid draws now s1) (\<lambda>(i, s2).
           onOk (bindDevice flt deviceKey (id_UserID i) platform now s2) (\<lambda>s3.
           onOk (recordOutcome flt (pt_token pt) i s3) (\<lambda>s4.
           Inr ((i, True), s4))))))"

section \<open>Requests\<close>

definition OutcomeAllowed :: string where "OutcomeAllowed = ''allowed''"
definition OutcomeDenied :: string where "OutcomeDenied = ''denied''"
definition OutcomeExpired :: string where "OutcomeExpired = ''expired''"
definition OutcomeCancelled :: string where "OutcomeCancelled = ''cancelled''"

record PairRequest =
  pr_RequestID :: string
  pr_DeviceKey :: string
  pr_Platform :: string
  pr_IssuerKey :: string
  pr_ExpiresAt :: int
  pr_Outcome :: string
  pr_token :: string

definition scanRequest :: "request_row \<Rightarrow> PairRequest" where
  "scanRequest r = \<lparr>pr_RequestID = r_request_id r, pr_DeviceKey = r_device_key r, pr_Platform = r_platform r,
     pr_IssuerKey = r_issuer_key r, pr_ExpiresAt = r_expires_at r, pr_Outcome = null_string (r_outcome r),
     pr_token = r_token r\<rparr>"

definition requestByToken :: "faults \<Rightarrow> string \<Rightarrow> db \<Rightarrow> err + PairRequest option" where
  "requestByToken flt token s =
     query flt ''read pairing request'' (map_option scanRequest (List.find (\<lambda>r. r_token r = token) (pair_requests s)))"

definition requestByID :: "faults \<Rightarrow> string \<Rightarrow> db \<Rightarrow> err + PairRequest option" where
  "requestByID flt requestID s =
     query flt ''read pairing request'' (map_option scanRequest (List.find (\<lambda>r. r_request_id r = requestID) (pair_requests s)))"

definition close_tables :: "string \<Rightarrow> string \<Rightarrow> string \<Rightarrow> string \<Rightarrow> int \<Rightarrow> db \<Rightarrow> db" where
  "close_tables requestID token deviceKey outcome now s =
     s\<lparr>pair_requests := update_where (\<lambda>r. r_request_id r = requestID \<and> r_outcome r = None)
          (\<lambda>r. r\<lparr>r_outcome := Some outcome, r_decided_at := Some now\<rparr>) (pair_requests s),
       pair_tokens := update_where (\<lambda>t. t_token t = token \<and> t_used_at t = None)
          (\<lambda>t. t\<lparr>t_used_at := Some now, t_used_by := Some deviceKey\<rparr>) (pair_tokens s)\<rparr>"

text \<open>\<open>closeRequest\<close>: conditional on the request waiting; the token is spent whatever the outcome.\<close>

definition closeRequest :: "faults \<Rightarrow> PairRequest \<Rightarrow> string \<Rightarrow> int \<Rightarrow> db \<Rightarrow> err + (PairRequest \<times> db)" where
  "closeRequest flt r outcome now s =
     onOk (exec flt ''close pairing request'' True
       (affected (\<lambda>q. r_request_id q = pr_RequestID r \<and> r_outcome q = None) (pair_requests s))) (\<lambda>n.
     onOk (query flt ''close pairing request rows'' n) (\<lambda>n.
     if n = 0 then Inl ErrRequestNotFound
     else
       onOk (exec flt ''spend the request's invite'' True
         (close_tables (pr_RequestID r) (pr_token r) (pr_DeviceKey r) outcome now s)) (\<lambda>s1.
       Inr (r\<lparr>pr_Outcome := outcome\<rparr>, s1))))"

record PairResult =
  res_Paired :: bool
  res_Identity :: Identity
  res_Request :: "PairRequest option"
  res_Opened :: bool
  res_Closed :: bool
  res_Joined :: bool

definition no_result :: PairResult where
  "no_result = \<lparr>res_Paired = False, res_Identity = no_identity, res_Request = None, res_Opened = False,
     res_Closed = False, res_Joined = False\<rparr>"

definition repeatRequest :: "faults \<Rightarrow> PairRequest \<Rightarrow> pairToken \<Rightarrow> string \<Rightarrow> int \<Rightarrow> db \<Rightarrow> err + (PairResult \<times> db)" where
  "repeatRequest flt r pt deviceKey now s =
     (if pr_DeviceKey r \<noteq> deviceKey then Inl ErrTokenInvalid
      else if pr_Outcome r = '''' then
        (if pr_ExpiresAt r > now then Inr (no_result\<lparr>res_Request := Some r\<rparr>, s)
         else onOk (closeRequest flt r OutcomeExpired now s) (\<lambda>(r', s1).
                Inr (no_result\<lparr>res_Request := Some r', res_Closed := True\<rparr>, s1)))
      else if pr_Outcome r = OutcomeAllowed then
        onOk (pairedBy flt (pt_token pt) deviceKey s) (\<lambda>who.
        case who of
          None \<Rightarrow> Inl ErrTokenInvalid
        | Some i \<Rightarrow> Inr (no_result\<lparr>res_Paired := True, res_Identity := i, res_Request := Some r\<rparr>, s))
      else Inr (no_result\<lparr>res_Request := Some r\<rparr>, s))"

definition requestByInvite :: "faults \<Rightarrow> string \<Rightarrow> pairToken \<Rightarrow> string \<Rightarrow> string \<Rightarrow> int \<Rightarrow> db \<Rightarrow> err + (PairResult \<times> db)" where
  "requestByInvite flt rid pt deviceKey platform now s =
     onOk (requestByToken flt (pt_token pt) s) (\<lambda>found.
     case found of
       Some r \<Rightarrow> repeatRequest flt r pt deviceKey now s
     | None \<Rightarrow>
         if pt_used pt then Inl ErrTokenInvalid
         else if pt_expiresAt pt \<le> now then Inl ErrTokenExpired
         else
           onOk (deviceOwnerOf flt (pt_issuerKey pt) s) (\<lambda>issuerOwner.
           if issuerOwner = '''' then Inl ErrTokenInvalid
           else
             onOk (deviceOwnerOf flt deviceKey s) (\<lambda>bound.
             if bound \<noteq> '''' \<and> bound \<noteq> pt_userID pt then Inl ErrTokenInvalid
             else
               let r = \<lparr>pr_RequestID = ''r_'' @ rid, pr_DeviceKey = deviceKey, pr_Platform = platform,
                     pr_IssuerKey = pt_issuerKey pt, pr_ExpiresAt = pt_expiresAt pt, pr_Outcome = '''',
                     pr_token = pt_token pt\<rparr>;
                   row = \<lparr>r_request_id = pr_RequestID r, r_token = pr_token r, r_device_key = deviceKey,
                     r_platform = platform, r_issuer_key = pr_IssuerKey r, r_expires_at = pr_ExpiresAt r,
                     r_outcome = None, r_decided_at = None\<rparr>
               in onOk (exec flt ''open pairing request''
                    (deviceKey \<noteq> '''' \<and> platform \<noteq> '''' \<and> pt_issuerKey pt \<noteq> ''''
                     \<and> (\<forall>q \<in> set (pair_requests s). r_request_id q \<noteq> r_request_id row \<and> r_token q \<noteq> r_token row)
                     \<and> token_by (pt_token pt) (pair_tokens s) \<noteq> None)
                    (s\<lparr>pair_requests := pair_requests s @ [row]\<rparr>)) (\<lambda>s1.
                  Inr (no_result\<lparr>res_Request := Some r, res_Opened := True\<rparr>, s1)))))"

definition Pair :: "faults \<Rightarrow> string \<Rightarrow> (nat \<Rightarrow> nat) \<Rightarrow> string \<Rightarrow> string \<Rightarrow> string \<Rightarrow> int \<Rightarrow> db
    \<Rightarrow> (err + PairResult) \<times> db" where
  "Pair flt rid draws token deviceKey platform now = transact flt ''begin pair'' (\<lambda>s.
     onOk (readToken flt token s) (\<lambda>pt.
     onOk (if pt_kind pt = TokenMachine then
             onOk (pairByMachineLink flt rid draws pt deviceKey platform now s) (\<lambda>((i, joined), s1).
             Inr (no_result\<lparr>res_Identity := i, res_Joined := joined, res_Paired := True\<rparr>, s1))
           else if pt_kind pt = TokenInviteDevice then requestByInvite flt rid pt deviceKey platform now s
           else Inl ErrTokenInvalid) (\<lambda>(res, s1).
     commit flt ''commit pair'' res s1)))"

record Decision =
  dec_Request :: PairRequest
  dec_Identity :: Identity

definition decide_tx :: "faults \<Rightarrow> string \<Rightarrow> string \<Rightarrow> bool \<Rightarrow> int \<Rightarrow> db \<Rightarrow> Decision tx" where
  "decide_tx flt requestID issuerKey allow now s =
     onOk (deviceOwnerOf flt issuerKey s) (\<lambda>person.
     if person = '''' then Inl ErrDeviceUnknown
     else
       onOk (requestByID flt requestID s) (\<lambda>found.
       case found of
         None \<Rightarrow> Inl ErrRequestNotFound
       | Some r \<Rightarrow>
           if pr_IssuerKey r \<noteq> issuerKey \<or> pr_Outcome r \<noteq> '''' \<or> pr_ExpiresAt r \<le> now then Inl ErrRequestNotFound
           else if \<not> allow then
             onOk (closeRequest flt r OutcomeDenied now s) (\<lambda>(r', s1).
             commit flt ''commit deny pairing request'' \<lparr>dec_Request = r', dec_Identity = no_identity\<rparr> s1)
           else
             onOk (map_err (\<lambda>e. if e = ErrTokenInvalid then ErrRequestNotFound else e)
                     (spendToken flt (pr_token r) (pr_DeviceKey r) now s)) (\<lambda>s1.
             onOk (closeRequest flt r OutcomeAllowed now s1) (\<lambda>(r', s2).
             onOk (query_row flt ''read the person allowing a device''
                     (map_option identity_of (user_by person (users s2)))) (\<lambda>i.
             onOk (map_err (\<lambda>e. if e = ErrTokenInvalid
                               then ErrOther ''the requesting device key is paired to another person'' else e)
                     (bindDevice flt (pr_DeviceKey r) (id_UserID i) (pr_Platform r) now s2)) (\<lambda>s3.
             onOk (recordOutcome flt (pr_token r) i s3) (\<lambda>s4.
             commit flt ''commit allow pairing request'' \<lparr>dec_Request = r', dec_Identity = i\<rparr> s4))))))) "

definition DecidePairRequest :: "faults \<Rightarrow> string \<Rightarrow> string \<Rightarrow> bool \<Rightarrow> int \<Rightarrow> db \<Rightarrow> (err + Decision) \<times> db" where
  "DecidePairRequest flt requestID issuerKey allow now =
     transact flt ''begin decide pairing request'' (decide_tx flt requestID issuerKey allow now)"

definition CancelPairRequest :: "faults \<Rightarrow> string \<Rightarrow> string \<Rightarrow> int \<Rightarrow> db \<Rightarrow> (err + PairRequest option) \<times> db" where
  "CancelPairRequest flt token deviceKey now = transact flt ''begin cancel pairing request'' (\<lambda>s.
     onOk (requestByToken flt token s) (\<lambda>found.
     case found of
       None \<Rightarrow> rollback None
     | Some r \<Rightarrow>
         if pr_DeviceKey r \<noteq> deviceKey \<or> pr_Outcome r \<noteq> '''' then rollback None
         else
           onOk (closeRequest flt r (if pr_ExpiresAt r \<le> now then OutcomeExpired else OutcomeCancelled) now s) (\<lambda>(r', s1).
           commit flt ''commit cancel pairing request'' (Some r') s1)))"

definition PairRequestOutcome :: "faults \<Rightarrow> string \<Rightarrow> db \<Rightarrow> err + string" where
  "PairRequestOutcome flt requestID s =
     onOk (query flt ''read pairing request outcome'' (List.find (\<lambda>r. r_request_id r = requestID) (pair_requests s))) (\<lambda>row.
     case row of None \<Rightarrow> Inl ErrRequestNotFound | Some r \<Rightarrow> Inr (null_string (r_outcome r)))"

definition collectRequests :: "request_row list \<Rightarrow> PairRequest list" where
  "collectRequests rows = map scanRequest (sort_key (\<lambda>r. (r_expires_at r, r_request_id r)) rows)"

definition WaitingPairRequests :: "faults \<Rightarrow> string \<Rightarrow> int \<Rightarrow> db \<Rightarrow> err + PairRequest list" where
  "WaitingPairRequests flt issuerKey now s =
     query flt ''list waiting pairing requests''
       (collectRequests (filter (\<lambda>r. r_issuer_key r = issuerKey \<and> r_outcome r = None \<and> now < r_expires_at r) (pair_requests s)))"

fun closeAll :: "faults \<Rightarrow> (PairRequest \<Rightarrow> string) \<Rightarrow> int \<Rightarrow> PairRequest list \<Rightarrow> db \<Rightarrow> err + (PairRequest list \<times> db)" where
  "closeAll flt outcome now [] s = Inr ([], s)"
| "closeAll flt outcome now (r # rs) s =
     onOk (closeRequest flt r (outcome r) now s) (\<lambda>(r', s1).
     onOk (closeAll flt outcome now rs s1) (\<lambda>(rs', s2). Inr (r' # rs', s2)))"

definition ExpirePairRequests :: "faults \<Rightarrow> int \<Rightarrow> db \<Rightarrow> db \<Rightarrow> (err + PairRequest list) \<times> db" where
  "ExpirePairRequests flt now snap s =
     (let due = (\<lambda>r. r_outcome r = None \<and> r_expires_at r \<le> now)
      in if flt ''count expired pairing requests'' then (Inl (ErrSQL ''count expired pairing requests''), s)
         else if affected due (pair_requests snap) = 0 then (Inr [], s)
         else transact flt ''begin expire pairing requests'' (\<lambda>s.
           onOk (query flt ''list expired pairing requests'' (collectRequests (filter due (pair_requests s)))) (\<lambda>expired.
           onOk (closeAll flt (\<lambda>_. OutcomeExpired) now expired s) (\<lambda>(closed, s1).
           commit flt ''commit expire pairing requests'' closed s1))) s)"

section \<open>Devices\<close>

definition closeRequestsOf :: "faults \<Rightarrow> string \<Rightarrow> int \<Rightarrow> db \<Rightarrow> err + (PairRequest list \<times> db)" where
  "closeRequestsOf flt deviceKey now s =
     onOk (query flt ''list the revoked device's requests''
       (collectRequests (filter (\<lambda>r. (r_issuer_key r = deviceKey \<or> r_device_key r = deviceKey) \<and> r_outcome r = None)
          (pair_requests s)))) (\<lambda>waiting.
     closeAll flt (\<lambda>r. if pr_ExpiresAt r \<le> now then OutcomeExpired else OutcomeDenied) now waiting s)"

record Device =
  dv_DeviceKey :: string
  dv_Platform :: string
  dv_CreatedAt :: int
  dv_LastSeenAt :: int

definition queryDevices :: "faults \<Rightarrow> device_row list \<Rightarrow> err + Device list" where
  "queryDevices flt rows =
     query flt ''list devices''
       (map (\<lambda>d. \<lparr>dv_DeviceKey = d_device_key d, dv_Platform = d_platform d, dv_CreatedAt = d_created_at d,
          dv_LastSeenAt = d_last_seen_at d\<rparr>) (sort_key d_created_at rows))"

definition ListDevices :: "faults \<Rightarrow> string \<Rightarrow> db \<Rightarrow> err + Device list" where
  "ListDevices flt userID s = queryDevices flt (filter (\<lambda>d. d_user_id d = userID) (devices s))"

definition AllDevices :: "faults \<Rightarrow> db \<Rightarrow> err + Device list" where
  "AllDevices flt s = queryDevices flt (devices s)"

definition revokeDevice :: "faults \<Rightarrow> string \<Rightarrow> string \<Rightarrow> int \<Rightarrow> db \<Rightarrow> (err + PairRequest list) \<times> db" where
  "revokeDevice flt caller deviceKey now = transact flt ''begin revoke device'' (\<lambda>s.
     onOk (if caller \<noteq> ''''
           then onOk (query flt ''read the revoking device'' (affected (\<lambda>d. d_device_key d = caller) (devices s))) (\<lambda>paired.
                  if paired = 0 then Inl ErrDeviceUnknown else Inr ())
           else Inr ()) (\<lambda>_.
     onOk (query flt ''read device before revoke'' (device_by deviceKey (devices s))) (\<lambda>row.
     case row of
       None \<Rightarrow> commit flt ''commit revoke device'' [] s
     | Some _ \<Rightarrow>
         onOk (exec flt ''revoke device'' True
           (s\<lparr>devices := filter (\<lambda>d. d_device_key d \<noteq> deviceKey) (devices s)\<rparr>)) (\<lambda>s1.
         onOk (closeRequestsOf flt deviceKey now s1) (\<lambda>(closed, s2).
         onOk (exec flt ''void the device's invites'' True (void_tokens (\<lambda>t. t_issuer_key t = Some deviceKey) now s2)) (\<lambda>s3.
         onOk (countDevices flt s3) (\<lambda>n.
         onOk (if n = 0
               then exec flt ''void a machine link that ran out'' True
                      (void_tokens (\<lambda>t. t_kind t = TokenMachine \<and> t_expires_at t \<le> now) now s3)
               else Inr s3) (\<lambda>s4.
         commit flt ''commit revoke device'' closed s4)))))) ))"

definition RevokeDevice :: "faults \<Rightarrow> string \<Rightarrow> int \<Rightarrow> db \<Rightarrow> (err + PairRequest list) \<times> db" where
  "RevokeDevice flt deviceKey now = revokeDevice flt '''' deviceKey now"

definition RevokeDeviceAs :: "faults \<Rightarrow> string \<Rightarrow> string \<Rightarrow> int \<Rightarrow> db \<Rightarrow> (err + PairRequest list) \<times> db" where
  "RevokeDeviceAs flt caller deviceKey now = revokeDevice flt caller deviceKey now"

definition DeviceOwner :: "faults \<Rightarrow> string \<Rightarrow> db \<Rightarrow> err + (string \<times> bool)" where
  "DeviceOwner flt deviceKey s = onOk (deviceOwnerOf flt deviceKey s) (\<lambda>owner. Inr (owner, owner \<noteq> ''''))"

definition SetLabel :: "faults \<Rightarrow> string \<Rightarrow> string \<Rightarrow> db \<Rightarrow> (err + unit) \<times> db" where
  "SetLabel flt userID label s =
     autocommit s (exec flt ''set label'' (label \<noteq> '''' \<or> user_by userID (users s) = None)
       ((), s\<lparr>users := update_where (\<lambda>u. u_user_id u = userID) (\<lambda>u. u\<lparr>u_label := label\<rparr>) (users s)\<rparr>))"

section \<open>The invariant of pairing\<close>

definition uids :: "db \<Rightarrow> string set" where
  "uids s = u_user_id ` set (users s)"

definition outcomes :: "string option set" where
  "outcomes = {None, Some OutcomeAllowed, Some OutcomeDenied, Some OutcomeExpired, Some OutcomeCancelled}"

definition paired_as :: "db \<Rightarrow> string \<Rightarrow> string \<Rightarrow> bool" where
  "paired_as s k u \<longleftrightarrow> (\<exists>d \<in> set (devices s). d_device_key d = k \<and> d_user_id d = u)"

text \<open>
  A token is a machine link or an invite. An unspent invite's issuer is a paired device of
  the person it invites to (unless the issuer is in \<open>X\<close>, the devices being revoked), and a
  token that produced a person is spent and says by whom.
\<close>

definition token_ok :: "string set \<Rightarrow> db \<Rightarrow> token_row \<Rightarrow> bool" where
  "token_ok X s t \<longleftrightarrow>
     (t_kind t = TokenMachine \<and> t_issuer_key t = None \<and> t_user_id t = None \<or>
      t_kind t = TokenInviteDevice \<and> (\<exists>k u. t_issuer_key t = Some k \<and> k \<noteq> '''' \<and> t_user_id t = Some u
        \<and> (t_used_at t = None \<longrightarrow> k \<in> X \<or> paired_as s k u)))
     \<and> (\<forall>u. t_paired_user_id t = Some u \<longrightarrow> u \<in> uids s \<and> t_used_at t \<noteq> None \<and> t_used_by t \<noteq> None)
     \<and> (t_used_by t \<noteq> None \<longrightarrow> t_used_at t \<noteq> None)"

definition request_ok :: "request_row \<Rightarrow> bool" where
  "request_ok r \<longleftrightarrow> r_request_id r \<noteq> '''' \<and> r_device_key r \<noteq> '''' \<and> r_platform r \<noteq> ''''
     \<and> (r_outcome r = None \<longleftrightarrow> r_decided_at r = None) \<and> r_outcome r \<in> outcomes"

text \<open>A request and its invite agree: waiting is unspent, closed is spent by the asking device, allowed paired somebody.\<close>

definition agree :: "token_row \<Rightarrow> request_row \<Rightarrow> bool" where
  "agree t r \<longleftrightarrow> t_kind t = TokenInviteDevice \<and> t_issuer_key t = Some (r_issuer_key r)
     \<and> t_expires_at t = r_expires_at r \<and> (t_used_at t = None \<longleftrightarrow> r_outcome r = None)
     \<and> (r_outcome r \<noteq> None \<longrightarrow> t_used_by t = Some (r_device_key r))
     \<and> (r_outcome r = Some OutcomeAllowed \<longleftrightarrow> t_paired_user_id t \<noteq> None)"

definition people_ok :: "db \<Rightarrow> bool" where
  "people_ok s \<longleftrightarrow> length (users s) \<le> 1 \<and> (\<forall>u \<in> set (users s). u_user_id u \<noteq> '''' \<and> u_label u \<noteq> '''')
     \<and> distinct (map d_device_key (devices s))
     \<and> (\<forall>d \<in> set (devices s). d_user_id d \<in> uids s \<and> d_platform d \<noteq> '''')"

definition tokens_ok :: "string set \<Rightarrow> db \<Rightarrow> bool" where
  "tokens_ok X s \<longleftrightarrow> distinct (map t_token (pair_tokens s)) \<and> (\<forall>t \<in> set (pair_tokens s). token_ok X s t)
     \<and> length (filter unspent_machine (pair_tokens s)) \<le> 1"

definition requests_ok :: "db \<Rightarrow> bool" where
  "requests_ok s \<longleftrightarrow> distinct (map r_request_id (pair_requests s)) \<and> distinct (map r_token (pair_requests s))
     \<and> (\<forall>r \<in> set (pair_requests s). request_ok r \<and> r_token r \<in> t_token ` set (pair_tokens s)
          \<and> (\<forall>t \<in> set (pair_tokens s). t_token t = r_token r \<longrightarrow> agree t r))
     \<and> (\<forall>t \<in> set (pair_tokens s). t_kind t = TokenInviteDevice \<and> t_used_by t \<noteq> None \<longrightarrow>
          t_token t \<in> r_token ` set (pair_requests s))"

definition pairing_inv :: "string set \<Rightarrow> db \<Rightarrow> bool" where
  "pairing_inv X s \<longleftrightarrow> people_ok s \<and> tokens_ok X s \<and> requests_ok s"

definition pairing_ok :: "db \<Rightarrow> bool" where
  "pairing_ok s \<longleftrightarrow> pairing_inv {} s"

lemmas pairing_defs = pairing_inv_def people_ok_def tokens_ok_def requests_ok_def

lemma kinds_neq [simp]: "TokenMachine \<noteq> TokenInviteDevice" "TokenInviteDevice \<noteq> TokenMachine"
  by (simp_all add: TokenMachine_def TokenInviteDevice_def)

lemma outcomes_neq [simp]:
  "OutcomeAllowed \<noteq> ''''" "OutcomeDenied \<noteq> ''''" "OutcomeExpired \<noteq> ''''" "OutcomeCancelled \<noteq> ''''"
  "OutcomeDenied \<noteq> OutcomeAllowed" "OutcomeExpired \<noteq> OutcomeAllowed" "OutcomeCancelled \<noteq> OutcomeAllowed"
  by (simp_all add: OutcomeAllowed_def OutcomeDenied_def OutcomeExpired_def OutcomeCancelled_def)

lemma pairing_ok_empty: "pairing_ok empty_db"
  by (simp add: pairing_ok_def pairing_defs empty_db_def)

text \<open>The invariant reads only these tables.\<close>

definition same_pairing :: "db \<Rightarrow> db \<Rightarrow> bool" where
  "same_pairing s t \<longleftrightarrow> users t = users s \<and> devices t = devices s \<and> pair_tokens t = pair_tokens s
     \<and> pair_requests t = pair_requests s"

lemma pairing_inv_frame: "pairing_inv X s \<Longrightarrow> same_pairing s t \<Longrightarrow> pairing_inv X t"
  by (simp add: pairing_defs same_pairing_def token_ok_def uids_def paired_as_def)

lemma same_pairing_refl [simp]: "same_pairing s s"
  by (simp add: same_pairing_def)

lemma pairing_inv_mono: "pairing_inv X s \<Longrightarrow> X \<subseteq> Y \<Longrightarrow> pairing_inv Y s"
  by (fastforce simp: pairing_defs token_ok_def)

subsection \<open>Voiding and inserting tokens\<close>

lemma token_by_None: "token_by k ts = None \<longleftrightarrow> k \<notin> t_token ` set ts"
  by (auto simp: token_by_def find_None_conv)

lemma token_by_Some:
  "distinct (map t_token ts) \<Longrightarrow> token_by k ts = Some t \<longleftrightarrow> t \<in> set ts \<and> t_token t = k"
  unfolding token_by_def by (rule find_key_Some_iff)

lemma device_by_None: "device_by k ds = None \<longleftrightarrow> k \<notin> d_device_key ` set ds"
  by (auto simp: device_by_def find_None_conv)

lemma device_by_Some:
  "distinct (map d_device_key ds) \<Longrightarrow> device_by k ds = Some d \<longleftrightarrow> d \<in> set ds \<and> d_device_key d = k"
  unfolding device_by_def by (rule find_key_Some_iff)

lemma user_by_None: "user_by k us = None \<longleftrightarrow> k \<notin> u_user_id ` set us"
  by (auto simp: user_by_def find_None_conv)

lemma filter_update_where_le:
  assumes "\<And>t. P t \<Longrightarrow> Q (g t) \<Longrightarrow> Q t"
  shows "length (filter Q (update_where P g ts)) \<le> length (filter Q ts)"
  using assms by (induction ts) (auto simp: le_SucI)

lemma distinct_token_update:
  "(\<And>t. t_token (g t) = t_token t) \<Longrightarrow> map t_token (update_where P g ts) = map t_token ts"
  by (rule map_update_where_key) simp

lemma token_ok_cong: "devices t = devices s \<Longrightarrow> users t = users s \<Longrightarrow> token_ok X t = token_ok X s"
  by (rule ext) (simp add: token_ok_def uids_def paired_as_def)

lemma token_ok_spend:
  "token_ok X s t \<Longrightarrow> token_ok X s (t\<lparr>t_used_at := Some now, t_used_by := Some k\<rparr>)"
  by (auto simp: token_ok_def)

lemma token_ok_mono:
  assumes "token_ok X s t" "uids s \<subseteq> uids s'" "\<And>k u. paired_as s k u \<Longrightarrow> paired_as s' k u"
  shows "token_ok X s' t"
  using assms by (auto simp: token_ok_def)

text \<open>Voiding tokens nobody has presented.\<close>

lemma void_tokens_ok:
  assumes inv: "pairing_inv X s"
    and lone: "\<forall>t \<in> set (pair_tokens s). P t \<and> t_used_at t = None \<longrightarrow> t_token t \<notin> r_token ` set (pair_requests s)"
    and Y: "\<forall>t \<in> set (pair_tokens s). \<forall>k. t_issuer_key t = Some k \<longrightarrow> k \<in> X \<longrightarrow> k \<in> Y \<or> P t"
  shows "pairing_inv Y (void_tokens P now s)"
proof -
  let ?g = "\<lambda>t. t\<lparr>t_used_at := Some now\<rparr>" and ?Q = "\<lambda>t. P t \<and> t_used_at t = None"
  let ?ts = "update_where ?Q ?g (pair_tokens s)"
  have keys: "map t_token ?ts = map t_token (pair_tokens s)" by (rule distinct_token_update) simp
  have len: "length (filter unspent_machine ?ts) \<le> length (filter unspent_machine (pair_tokens s))"
    by (rule filter_update_where_le) (simp add: unspent_machine_def)
  have tok: "\<forall>t \<in> set ?ts. token_ok Y (void_tokens P now s) t"
  proof
    fix t assume "t \<in> set ?ts"
    then obtain t0 where t0: "t0 \<in> set (pair_tokens s)" "t = (if ?Q t0 then ?g t0 else t0)"
      unfolding in_update_where by blast
    have "token_ok X s t0" using inv t0(1) by (simp add: pairing_inv_def tokens_ok_def)
    moreover have "t_used_at t0 = None \<Longrightarrow> \<not> P t0 \<Longrightarrow> t_issuer_key t0 = Some k \<Longrightarrow> k \<in> X \<Longrightarrow> k \<in> Y" for k
      using Y t0(1) by blast
    ultimately have "token_ok Y s t"
      using t0(2) by (cases "?Q t0") (auto simp: token_ok_def)
    then show "token_ok Y (void_tokens P now s) t"
      using token_ok_cong [of "void_tokens P now s" s Y] by (simp add: void_tokens_def)
  qed
  have "tokens_ok Y (void_tokens P now s)"
    using inv tok len keys by (simp add: void_tokens_def pairing_inv_def tokens_ok_def)
  moreover have "requests_ok (void_tokens P now s)"
  proof -
    have 1: "r_token r \<in> t_token ` set ?ts" if "r \<in> set (pair_requests s)" for r
      using inv that keys by (simp add: pairing_inv_def requests_ok_def flip: set_map)
    have 2: "agree t r" if "r \<in> set (pair_requests s)" "t \<in> set ?ts" "t_token t = r_token r" for t r
      using inv lone that by (auto simp: set_update_where pairing_inv_def requests_ok_def split: if_splits)
    have 3: "t_token t \<in> r_token ` set (pair_requests s)"
      if "t \<in> set ?ts" "t_kind t = TokenInviteDevice" "t_used_by t \<noteq> None" for t
      using inv that by (auto simp: set_update_where pairing_inv_def requests_ok_def tokens_ok_def token_ok_def split: if_splits)
    show ?thesis
      using inv 1 2 3 unfolding requests_ok_def pairing_inv_def void_tokens_def by simp
  qed
  moreover have "people_ok (void_tokens P now s)"
    using inv by (simp add: pairing_inv_def people_ok_def void_tokens_def uids_def)
  ultimately show ?thesis by (simp add: pairing_inv_def)
qed

text \<open>A new unspent token.\<close>

lemma insert_token_ok:
  assumes inv: "pairing_inv X s" and new: "t_token t \<notin> t_token ` set (pair_tokens s)"
    and ok: "token_ok X s t" "t_used_at t = None" "t_used_by t = None"
    and one: "unspent_machine t \<Longrightarrow> filter unspent_machine (pair_tokens s) = []"
  shows "pairing_inv X (s\<lparr>pair_tokens := pair_tokens s @ [t]\<rparr>)"
proof -
  have eq: "token_ok X (s\<lparr>pair_tokens := ts\<rparr>) = token_ok X s" for ts
    by (rule token_ok_cong) simp_all
  have fresh: "r_token r \<noteq> t_token t" if "r \<in> set (pair_requests s)" for r
    using inv new that unfolding pairing_inv_def requests_ok_def by metis
  have "tokens_ok X (s\<lparr>pair_tokens := pair_tokens s @ [t]\<rparr>)"
    using inv new ok one by (auto simp: pairing_inv_def tokens_ok_def eq)
  moreover have "requests_ok (s\<lparr>pair_tokens := pair_tokens s @ [t]\<rparr>)"
    using inv fresh ok by (auto simp: pairing_inv_def requests_ok_def)
  ultimately show ?thesis using inv by (simp add: pairing_inv_def people_ok_def uids_def)
qed

subsection \<open>Machine links\<close>

lemma machine_token_lone:
  assumes "pairing_inv X s" "t \<in> set (pair_tokens s)" "t_kind t = TokenMachine"
  shows "t_token t \<notin> r_token ` set (pair_requests s)"
  using assms by (auto simp: pairing_inv_def requests_ok_def agree_def)

lemma void_machine_ok:
  "pairing_inv X s \<Longrightarrow> pairing_inv X (void_tokens (\<lambda>t. t_kind t = TokenMachine \<and> Q t) now s)"
  by (rule void_tokens_ok) (auto dest: machine_token_lone)

lemma insertMachineLink_Inr:
  assumes "insertMachineLink flt tok now s = Inr (link, s')"
  shows "link = \<lparr>ml_Token = tok, ml_ExpiresAt = now + TokenTTLSeconds\<rparr>"
    and "tok \<notin> t_token ` set (pair_tokens s)"
    and "s' = (void_tokens (\<lambda>t. t_kind t = TokenMachine) now s)\<lparr>pair_tokens :=
       pair_tokens (void_tokens (\<lambda>t. t_kind t = TokenMachine) now s) @
             [\<lparr>t_token = tok, t_kind = TokenMachine, t_user_id = None, t_issuer_key = None,
               t_created_at = now, t_expires_at = now + TokenTTLSeconds, t_used_at = None, t_used_by = None,
               t_paired_user_id = None, t_created_person = False\<rparr>]\<rparr>"
proof -
  let ?v = "void_tokens (\<lambda>t. t_kind t = TokenMachine) now s"
  have "tok \<notin> t_token ` set (pair_tokens ?v)"
    using assms by (auto simp: insertMachineLink_def newTokenValue_def Let_def token_by_None)
  moreover have "map t_token (pair_tokens ?v) = map t_token (pair_tokens s)"
    unfolding void_tokens_def by (simp add: distinct_token_update)
  ultimately show "tok \<notin> t_token ` set (pair_tokens s)" by (metis set_map)
qed (use assms in \<open>auto simp: insertMachineLink_def newTokenValue_def Let_def\<close>)

lemma void_all_machine: "filter unspent_machine (pair_tokens (void_tokens (\<lambda>t. t_kind t = TokenMachine) now s)) = []"
  by (auto simp: void_tokens_def filter_empty_conv set_update_where unspent_machine_def)

lemma insertMachineLink_ok:
  assumes "pairing_inv X s" "insertMachineLink flt tok now s = Inr (link, s')"
  shows "pairing_inv X s'"
proof -
  let ?v = "void_tokens (\<lambda>t. t_kind t = TokenMachine) now s"
  have v: "pairing_inv X ?v" using void_machine_ok [OF assms(1), of "\<lambda>_. True"] by simp
  have "map t_token (pair_tokens ?v) = map t_token (pair_tokens s)"
    unfolding void_tokens_def by (simp add: distinct_token_update)
  then have "tok \<notin> t_token ` set (pair_tokens ?v)"
    using insertMachineLink_Inr(2) [OF assms(2)] by (metis set_map)
  then show ?thesis
    unfolding insertMachineLink_Inr(3) [OF assms(2)]
    by (intro insert_token_ok [OF v]) (simp_all add: token_ok_def void_all_machine)
qed

lemma IssueMachineLink_ok: "pairing_ok s \<Longrightarrow> pairing_ok (snd (IssueMachineLink flt tok now s))"
  unfolding IssueMachineLink_def pairing_ok_def
  by (rule transact_invariant [where P = "pairing_inv {}"]) (auto dest: insertMachineLink_ok)

lemma PageMachineLink_ok: "pairing_ok s \<Longrightarrow> pairing_ok (snd (PageMachineLink flt tok now snap s))"
proof -
  assume "pairing_ok s"
  then have "pairing_inv {} s" by (simp add: pairing_ok_def)
  moreover from this have "pairing_inv {} t" if "onOk (pageLinkState flt s) (\<lambda>page.
                 onOk (if \<not> pl_Found page \<and> pl_Devices page = 0
                       then onOk (insertMachineLink flt tok now s) (\<lambda>(link, s1).
                              Inr (page\<lparr>pl_Link := link, pl_Found := True\<rparr>, s1))
                       else Inr (page, s)) (\<lambda>(page, s1).
                 commit flt ''commit mint machine link'' page s1)) = Inr (x, Some t)" for x t
    using that by (auto split: if_splits dest: insertMachineLink_ok)
  ultimately show ?thesis
    unfolding PageMachineLink_def pairing_ok_def
    by (auto split: sum.splits intro!: transact_invariant [where P = "pairing_inv {}"])
qed

lemma IssueDeviceInvite_ok:
  assumes "pairing_ok s"
  shows "pairing_ok (snd (IssueDeviceInvite flt tok issuer now s))"
proof -
  have inv: "pairing_inv {} s" using assms by (simp add: pairing_ok_def)
  have "pairing_inv {} (s\<lparr>pair_tokens := pair_tokens s @
     [\<lparr>t_token = tok, t_kind = TokenInviteDevice, t_user_id = Some (d_user_id d),
       t_issuer_key = Some (d_device_key d), t_created_at = now,
       t_expires_at = now + TokenTTLSeconds, t_used_at = None, t_used_by = None,
       t_paired_user_id = None, t_created_person = False\<rparr>]\<rparr>)"
    if "device_by issuer (devices s) = Some d" "token_by tok (pair_tokens s) = None" "d_device_key d \<noteq> ''''" for d
    using that inv
    by (intro insert_token_ok)
      (auto simp: token_ok_def paired_as_def token_by_None unspent_machine_def device_by_def dest!: find_SomeD)
  then show ?thesis
    using assms unfolding IssueDeviceInvite_def newTokenValue_def pairing_ok_def Let_def
    by (auto simp: query_def split: option.splits)
qed

subsection \<open>Closing requests\<close>

lemma scanRequest_simps [simp]:
  "pr_RequestID (scanRequest r) = r_request_id r" "pr_DeviceKey (scanRequest r) = r_device_key r"
  "pr_Platform (scanRequest r) = r_platform r" "pr_IssuerKey (scanRequest r) = r_issuer_key r"
  "pr_ExpiresAt (scanRequest r) = r_expires_at r" "pr_token (scanRequest r) = r_token r"
  "pr_Outcome (scanRequest r) = null_string (r_outcome r)"
  by (simp_all add: scanRequest_def)

lemma waiting_scan: "request_ok r \<Longrightarrow> null_string (r_outcome r) = '''' \<longleftrightarrow> r_outcome r = None"
  by (auto simp: request_ok_def outcomes_def null_string_def split: option.splits)

lemma closeRequest_Inr:
  "closeRequest flt r outcome now s = Inr (r', s') \<longleftrightarrow>
     \<not> flt ''close pairing request'' \<and> \<not> flt ''close pairing request rows'' \<and> \<not> flt ''spend the request's invite''
     \<and> (\<exists>q \<in> set (pair_requests s). r_request_id q = pr_RequestID r \<and> r_outcome q = None)
     \<and> r' = r\<lparr>pr_Outcome := outcome\<rparr>
     \<and> s' = close_tables (pr_RequestID r) (pr_token r) (pr_DeviceKey r) outcome now s"
  by (auto simp: closeRequest_def affected_0_iff)

lemma close_tables_simps [simp]:
  "users (close_tables i tok k out now s) = users s" "devices (close_tables i tok k out now s) = devices s"
  "same_journal s (close_tables i tok k out now s)"
  by (simp_all add: close_tables_def same_journal_def)

lemma close_tables_tables:
  "pair_requests (close_tables i tok k out now s) = update_where (\<lambda>r. r_request_id r = i \<and> r_outcome r = None)
     (\<lambda>r. r\<lparr>r_outcome := Some out, r_decided_at := Some now\<rparr>) (pair_requests s)"
  "pair_tokens (close_tables i tok k out now s) = update_where (\<lambda>t. t_token t = tok \<and> t_used_at t = None)
     (\<lambda>t. t\<lparr>t_used_at := Some now, t_used_by := Some k\<rparr>) (pair_tokens s)"
  by (simp_all add: close_tables_def)

lemma close_tables_agree:
  assumes inv: "pairing_inv X s" and r: "r \<in> set (pair_requests s)" "r_outcome r = None"
    and q: "q \<in> set (pair_requests s)" and t: "t \<in> set (pair_tokens s)" "t_token t = r_token q"
    and out: "out \<noteq> OutcomeAllowed"
    and q': "q' = (if r_request_id q = r_request_id r \<and> r_outcome q = None
      then q\<lparr>r_outcome := Some out, r_decided_at := Some now\<rparr> else q)"
    and t': "t' = (if t_token t = r_token r \<and> t_used_at t = None
      then t\<lparr>t_used_at := Some now, t_used_by := Some (r_device_key r)\<rparr> else t)"
  shows "agree t' q'"
proof -
  have d: "distinct (map r_request_id (pair_requests s))" "distinct (map r_token (pair_requests s))"
    using inv by (simp_all add: pairing_inv_def requests_ok_def)
  have a: "agree t q" using inv q t by (simp add: pairing_inv_def requests_ok_def)
  have tk: "token_ok X s t" using inv t by (simp add: pairing_inv_def tokens_ok_def)
  show ?thesis
  proof (cases "q = r")
    case True
    then have "t_used_at t = None" "t_paired_user_id t = None" using a r by (auto simp: agree_def)
    then show ?thesis using a r t True out by (auto simp: q' t' agree_def)
  next
    case False
    then have "r_request_id q \<noteq> r_request_id r" "r_token q \<noteq> r_token r"
      using distinct_key_eq [OF d(1) q r(1)] distinct_key_eq [OF d(2) q r(1)] by auto
    then show ?thesis using a t by (simp add: q' t')
  qed
qed

lemma close_tables_ok:
  assumes inv: "pairing_inv X s" and r: "r \<in> set (pair_requests s)" "r_outcome r = None"
    and out: "Some out \<in> outcomes" "out \<noteq> OutcomeAllowed"
  shows "pairing_inv X (close_tables (r_request_id r) (r_token r) (r_device_key r) out now s)"
proof -
  define t where "t = close_tables (r_request_id r) (r_token r) (r_device_key r) out now s"
  have toks: "map t_token (pair_tokens t) = map t_token (pair_tokens s)"
    unfolding t_def close_tables_def by (simp add: distinct_token_update)
  have rids: "map r_request_id (pair_requests t) = map r_request_id (pair_requests s)"
    "map r_token (pair_requests t) = map r_token (pair_requests s)"
    unfolding t_def close_tables_def by (simp_all add: map_update_where_key)
  have len: "length (filter unspent_machine (pair_tokens t)) \<le> length (filter unspent_machine (pair_tokens s))"
    unfolding t_def close_tables_def by simp (rule filter_update_where_le, simp add: unspent_machine_def)
  have tk: "\<forall>x \<in> set (pair_tokens t). token_ok X t x"
  proof
    fix x assume "x \<in> set (pair_tokens t)"
    then obtain x0 where x0: "x0 \<in> set (pair_tokens s)" "x = (if t_token x0 = r_token r \<and> t_used_at x0 = None
        then x0\<lparr>t_used_at := Some now, t_used_by := Some (r_device_key r)\<rparr> else x0)"
      unfolding t_def close_tables_tables in_update_where by blast
    have "token_ok X s x0" using inv x0(1) by (simp add: pairing_inv_def tokens_ok_def)
    then have "token_ok X s x" using x0(2) token_ok_spend by simp
    then show "token_ok X t x" using token_ok_cong [of t s X] by (simp add: t_def)
  qed
  have ag: "agree x q" if mem: "q \<in> set (pair_requests t)" "x \<in> set (pair_tokens t)" "t_token x = r_token q" for q x
  proof -
    obtain q0 where q0: "q0 \<in> set (pair_requests s)"
      "q = (if r_request_id q0 = r_request_id r \<and> r_outcome q0 = None
        then q0\<lparr>r_outcome := Some out, r_decided_at := Some now\<rparr> else q0)"
      using mem(1) unfolding t_def close_tables_tables in_update_where by blast
    obtain x0 where x0: "x0 \<in> set (pair_tokens s)"
      "x = (if t_token x0 = r_token r \<and> t_used_at x0 = None
        then x0\<lparr>t_used_at := Some now, t_used_by := Some (r_device_key r)\<rparr> else x0)"
      using mem(2) unfolding t_def close_tables_tables in_update_where by blast
    have "t_token x0 = r_token q0" using mem(3) q0(2) x0(2) by (simp split: if_splits)
    then show ?thesis using close_tables_agree [OF inv r q0(1) x0(1) _ out(2) q0(2) x0(2)] by blast
  qed
  have rq: "request_ok q" if "q \<in> set (pair_requests t)" for q
    using inv that out(1)
    by (auto simp: t_def close_tables_def set_update_where pairing_inv_def requests_ok_def request_ok_def split: if_splits)
  have by_req: "t_token x \<in> r_token ` set (pair_requests t)"
    if "x \<in> set (pair_tokens t)" "t_kind x = TokenInviteDevice" "t_used_by x \<noteq> None" for x
  proof -
    have "t_token x \<in> r_token ` set (pair_requests s)"
      using that inv r(1) by (auto simp: t_def close_tables_def set_update_where pairing_inv_def requests_ok_def split: if_splits)
    then show ?thesis using rids(2) by (metis set_map)
  qed
  have "tokens_ok X t" using inv toks len tk by (simp add: pairing_inv_def tokens_ok_def)
  moreover have "requests_ok t"
    unfolding requests_ok_def rids
  proof (intro conjI ballI impI)
    show "distinct (map r_request_id (pair_requests s))" "distinct (map r_token (pair_requests s))"
      using inv by (simp_all add: pairing_inv_def requests_ok_def)
    show "r_token q \<in> t_token ` set (pair_tokens t)" if "q \<in> set (pair_requests t)" for q
    proof -
      have "r_token q \<in> set (map r_token (pair_requests t))" using that by simp
      then have "r_token q \<in> set (map t_token (pair_tokens s))"
        unfolding rids(2) using inv by (auto simp: pairing_inv_def requests_ok_def)
      then show ?thesis unfolding toks [symmetric] by simp
    qed
  qed (use ag rq by_req in auto)
  moreover have "people_ok t" using inv by (simp add: pairing_inv_def people_ok_def t_def uids_def)
  ultimately show ?thesis by (simp add: pairing_inv_def t_def)
qed

lemma closeRequest_ok:
  assumes inv: "pairing_inv X s" and c: "closeRequest flt (scanRequest r) out now s = Inr (r', s')"
    and r: "r \<in> set (pair_requests s)" and out: "Some out \<in> outcomes" "out \<noteq> OutcomeAllowed"
  shows "pairing_inv X s'"
proof -
  have d: "distinct (map r_request_id (pair_requests s))"
    using inv by (simp add: pairing_inv_def requests_ok_def)
  have "r_outcome r = None"
    using c r distinct_key_eq [OF d] by (auto simp: closeRequest_Inr)
  then show ?thesis
    using c close_tables_ok [OF inv r _ out] by (simp add: closeRequest_Inr)
qed

text \<open>Closing a list of waiting requests: what happens to the requests table, and the invariant.\<close>

definition waiting_rows :: "db \<Rightarrow> PairRequest list \<Rightarrow> bool" where
  "waiting_rows s rs \<longleftrightarrow> distinct (map pr_RequestID rs)
     \<and> (\<forall>r \<in> set rs. \<exists>q \<in> set (pair_requests s). r_outcome q = None \<and> r = scanRequest q)"

definition close_rows :: "(PairRequest \<Rightarrow> string) \<Rightarrow> int \<Rightarrow> PairRequest list \<Rightarrow> request_row list \<Rightarrow> request_row list" where
  "close_rows out now rs qs = update_where (\<lambda>q. r_outcome q = None \<and> r_request_id q \<in> pr_RequestID ` set rs)
     (\<lambda>q. q\<lparr>r_outcome := Some (out (scanRequest q)), r_decided_at := Some now\<rparr>) qs"

lemma waiting_rows_step:
  assumes "waiting_rows s (scanRequest q # rs)"
  shows "waiting_rows (close_tables (r_request_id q) tok k o' now s) rs"
  unfolding waiting_rows_def
proof (intro conjI ballI)
  show "distinct (map pr_RequestID rs)" using assms by (simp add: waiting_rows_def)
  fix r assume r: "r \<in> set rs"
  then obtain p where p: "p \<in> set (pair_requests s)" "r_outcome p = None" "r = scanRequest p"
    using assms by (auto simp: waiting_rows_def)
  have "r_request_id q \<noteq> r_request_id p"
    using assms r p(3) by (auto simp: waiting_rows_def image_iff)
  then show "\<exists>p \<in> set (pair_requests (close_tables (r_request_id q) tok k o' now s)). r_outcome p = None \<and> r = scanRequest p"
    using p by (intro bexI [of _ p]) (auto simp: close_tables_def set_update_where)
qed

lemma closeAll_ok:
  assumes "pairing_inv X s" "waiting_rows s rs" "closeAll flt out now rs s = Inr (rs', s')"
    and "\<forall>r. Some (out r) \<in> outcomes \<and> out r \<noteq> OutcomeAllowed"
  shows "pairing_inv X s' \<and> pair_requests s' = close_rows out now rs (pair_requests s)
    \<and> users s' = users s \<and> devices s' = devices s \<and> same_journal s s'
    \<and> rs' = map (\<lambda>r. r\<lparr>pr_Outcome := out r\<rparr>) rs
    \<and> (\<forall>t' \<in> set (pair_tokens s'). \<exists>t \<in> set (pair_tokens s). t' = t \<or>
         (\<exists>r \<in> set rs. t_token t = pr_token r \<and> t' = t\<lparr>t_used_at := Some now, t_used_by := Some (pr_DeviceKey r)\<rparr>))"
  using assms(1-3)
proof (induction rs arbitrary: s rs')
  case Nil
  then show ?case by (auto simp: close_rows_def update_where_none)
next
  case (Cons r rs)
  obtain q where q: "q \<in> set (pair_requests s)" "r_outcome q = None" "r = scanRequest q"
    using Cons.prems(2) by (auto simp: waiting_rows_def)
  let ?s1 = "close_tables (r_request_id q) (r_token q) (r_device_key q) (out r) now s"
  obtain rs1 where c: "closeRequest flt r (out r) now s = Inr (r\<lparr>pr_Outcome := out r\<rparr>, ?s1)"
    "closeAll flt out now rs ?s1 = Inr (rs1, s')" "rs' = r\<lparr>pr_Outcome := out r\<rparr> # rs1"
    using Cons.prems(3) q(3) by (auto simp: closeRequest_Inr)
  have w: "waiting_rows ?s1 rs" using Cons.prems(2) q(3) waiting_rows_step by blast
  have i: "pairing_inv X ?s1" using close_tables_ok [OF Cons.prems(1) q(1,2)] assms(4) by blast
  note IH = Cons.IH [OF i w c(2)]
  have d: "distinct (map r_request_id (pair_requests s))"
    using Cons.prems(1) by (simp add: pairing_inv_def requests_ok_def)
  have uq: "x = q" if "x \<in> set (pair_requests s)" "r_request_id x = r_request_id q" for x
    using distinct_key_eq [OF d that(1) q(1) that(2)] .
  have "close_rows out now rs (pair_requests ?s1) = close_rows out now (r # rs) (pair_requests s)"
    unfolding close_rows_def close_tables_tables
  proof (simp only: update_where_def map_map, rule map_cong [OF refl], goal_cases)
    case (1 x)
    show ?case
    proof (cases "r_request_id x = r_request_id q")
      case True
      then have "x = q" using uq 1 by blast
      then show ?thesis using q(2,3) by simp
    next
      case False
      then show ?thesis using q(3) by simp
    qed
  qed
  moreover have "\<exists>t \<in> set (pair_tokens s). t' = t \<or>
         (\<exists>r \<in> set (r # rs). t_token t = pr_token r \<and> t' = t\<lparr>t_used_at := Some now, t_used_by := Some (pr_DeviceKey r)\<rparr>)"
    if t': "t' \<in> set (pair_tokens s')" for t'
  proof -
    obtain t1 where t1: "t1 \<in> set (pair_tokens ?s1)" "t' = t1 \<or>
         (\<exists>r \<in> set rs. t_token t1 = pr_token r \<and> t' = t1\<lparr>t_used_at := Some now, t_used_by := Some (pr_DeviceKey r)\<rparr>)"
      using IH t' by blast
    obtain t where t: "t \<in> set (pair_tokens s)" "t1 = t \<or> t_token t = r_token q \<and>
        t1 = t\<lparr>t_used_at := Some now, t_used_by := Some (r_device_key q)\<rparr>"
      using t1(1) by (auto simp: close_tables_def set_update_where split: if_splits)
    show ?thesis using t t1(2) q(3) by (intro bexI [of _ t]) auto
  qed
  ultimately show ?case
    using IH c(3) by (auto intro: same_journal_trans [of s ?s1 s'])
qed

lemma collect_waiting:
  assumes "pairing_inv X s" "\<forall>q. P q \<longrightarrow> r_outcome q = None"
  shows "waiting_rows s (collectRequests (filter P (pair_requests s)))"
proof -
  have "distinct (map r_request_id (filter P (pair_requests s)))"
    using assms(1) by (simp add: pairing_inv_def requests_ok_def distinct_map_filter)
  then have "distinct (map r_request_id (sort_key (\<lambda>r. (r_expires_at r, r_request_id r)) (filter P (pair_requests s))))"
    by (simp add: distinct_map)
  then show ?thesis
    using assms(2) by (auto simp: waiting_rows_def collectRequests_def comp_def)
qed

lemma collect_ids: "pr_RequestID ` set (collectRequests qs) = r_request_id ` set qs"
  by (auto simp: collectRequests_def image_image)

lemma ExpirePairRequests_ok: "pairing_ok s \<Longrightarrow> pairing_ok (snd (ExpirePairRequests flt now snap s))"
proof -
  assume "pairing_ok s"
  then have inv: "pairing_inv {} s" by (simp add: pairing_ok_def)
  let ?P = "\<lambda>r. r_outcome r = None \<and> r_expires_at r \<le> now"
  have w: "waiting_rows s (collectRequests (filter ?P (pair_requests s)))"
    by (rule collect_waiting [OF inv]) simp
  have "pairing_inv {} t" if "closeAll flt (\<lambda>_. OutcomeExpired) now (collectRequests (filter ?P (pair_requests s))) s = Inr (x, t)" for x t
    using closeAll_ok [OF inv w that] by (simp add: outcomes_def)
  then show ?thesis
    using inv unfolding ExpirePairRequests_def pairing_ok_def Let_def
    by (auto intro!: transact_invariant [where P = "pairing_inv {}"])
qed

lemma CancelPairRequest_ok: "pairing_ok s \<Longrightarrow> pairing_ok (snd (CancelPairRequest flt token deviceKey now s))"
  unfolding CancelPairRequest_def pairing_ok_def
  by (rule transact_invariant [where P = "pairing_inv {}"])
    (auto simp: requestByToken_def outcomes_def split: option.splits if_splits dest!: find_SomeD
      intro: closeRequest_ok)

subsection \<open>People and devices\<close>

lemma pairing_inv_devices:
  assumes inv: "pairing_inv X s" and "people_ok t"
    and "pair_tokens t = pair_tokens s" "pair_requests t = pair_requests s" "uids s \<subseteq> uids t"
    and dev: "\<forall>d \<in> set (devices s). \<exists>e \<in> set (devices t). d_device_key e = d_device_key d \<and> d_user_id e = d_user_id d"
  shows "pairing_inv X t"
proof -
  have "paired_as s k u \<Longrightarrow> paired_as t k u" for k u
    using dev unfolding paired_as_def by metis
  then have "token_ok X t x" if "token_ok X s x" for x
    using token_ok_mono [OF that assms(5)] by blast
  then show ?thesis
    using assms(1-4) by (simp add: pairing_inv_def tokens_ok_def requests_ok_def)
qed

lemma update_devices_ok:
  assumes inv: "pairing_inv X s"
    and g: "\<And>d. d_device_key (g d) = d_device_key d \<and> d_user_id (g d) = d_user_id d \<and> (d_platform d \<noteq> '''' \<longrightarrow> d_platform (g d) \<noteq> '''')"
  shows "pairing_inv X (s\<lparr>devices := update_where P g (devices s)\<rparr>)"
proof (rule pairing_inv_devices [OF inv])
  have "map d_device_key (update_where P g (devices s)) = map d_device_key (devices s)"
    by (rule map_update_where_key) (simp add: g)
  then show "people_ok (s\<lparr>devices := update_where P g (devices s)\<rparr>)"
    using inv g by (auto simp: pairing_inv_def people_ok_def uids_def in_update_where split: if_splits)
  show "\<forall>d \<in> set (devices s). \<exists>e \<in> set (devices (s\<lparr>devices := update_where P g (devices s)\<rparr>)).
      d_device_key e = d_device_key d \<and> d_user_id e = d_user_id d"
  proof
    fix d assume "d \<in> set (devices s)"
    then have "(if P d then g d else d) \<in> set (update_where P g (devices s))"
      unfolding in_update_where by blast
    then show "\<exists>e \<in> set (devices (s\<lparr>devices := update_where P g (devices s)\<rparr>)).
        d_device_key e = d_device_key d \<and> d_user_id e = d_user_id d"
      using g by (intro bexI [of _ "if P d then g d else d"]) simp_all
  qed
qed (simp_all add: uids_def)

lemma ResolveIdentity_ok: "pairing_ok s \<Longrightarrow> pairing_ok (snd (ResolveIdentity flt k now s))"
  unfolding ResolveIdentity_def pairing_ok_def
proof (rule transact_invariant [where P = "pairing_inv {}"], assumption, goal_cases)
  case (1 x t)
  then have "t = s\<lparr>devices := update_where (\<lambda>d. d_device_key d = k) (\<lambda>d. d\<lparr>d_last_seen_at := now\<rparr>) (devices s)\<rparr>"
    by (auto simp: touchDevice_def split: if_splits option.splits)
  then show ?case using 1(1) by (simp add: update_devices_ok)
qed

lemma SetLabel_ok: "pairing_ok s \<Longrightarrow> pairing_ok (snd (SetLabel flt u label s))"
proof -
  assume "pairing_ok s"
  then have inv: "pairing_inv {} s" by (simp add: pairing_ok_def)
  let ?t = "s\<lparr>users := update_where (\<lambda>r. u_user_id r = u) (\<lambda>r. r\<lparr>u_label := label\<rparr>) (users s)\<rparr>"
  have ids: "uids ?t = uids s"
    unfolding uids_def set_map [symmetric] by (simp add: map_update_where_key)
  have "pairing_inv {} ?t" if "label \<noteq> '''' \<or> user_by u (users s) = None"
  proof (rule pairing_inv_devices [OF inv])
    show "people_ok ?t"
      using inv that ids by (auto simp: pairing_inv_def people_ok_def in_update_where user_by_None split: if_splits)
  qed (use ids in auto)
  then show ?thesis
    using inv unfolding SetLabel_def pairing_ok_def by (auto simp: autocommit_def exec_def)
qed

lemma insertDevice_Inr:
  assumes "insertDevice flt k u p now s = Inr s'"
  shows "s' = s\<lparr>devices := devices s'\<rparr>"
    and "\<And>t. users t = users s \<Longrightarrow> devices t = devices s \<Longrightarrow> insertDevice flt k u p now t = Inr (t\<lparr>devices := devices s'\<rparr>)"
    and "d_device_key ` set (devices s') = insert k (d_device_key ` set (devices s))"
proof -
  show "d_device_key ` set (devices s') = insert k (d_device_key ` set (devices s))"
  proof (cases "device_by k (devices s)")
    case (Some d)
    then have "map d_device_key (devices s') = map d_device_key (devices s)"
      using assms by (auto simp: insertDevice_def map_update_where_key)
    moreover have "k \<in> d_device_key ` set (devices s)"
      using Some device_by_None [of k "devices s"] by auto
    ultimately show ?thesis unfolding set_map [symmetric] by auto
  next
    case None
    then show ?thesis using assms by (auto simp: insertDevice_def)
  qed
qed (use assms in \<open>auto simp: insertDevice_def split: option.splits\<close>)

lemma insertDevice_ok:
  assumes inv: "pairing_inv X s" and i: "insertDevice flt k u p now s = Inr s'"
  shows "pairing_inv X s'"
proof (cases "device_by k (devices s)")
  case (Some d)
  then show ?thesis
    using i inv by (auto simp: insertDevice_def intro!: update_devices_ok)
next
  case None
  then have s': "s' = s\<lparr>devices := devices s @ [\<lparr>d_device_key = k, d_user_id = u, d_platform = p,
     d_created_at = now, d_last_seen_at = now\<rparr>]\<rparr>" "p \<noteq> ''''" "u \<in> uids s"
    using i by (auto simp: insertDevice_def user_by_def uids_def dest!: find_SomeD)
  have "k \<notin> d_device_key ` set (devices s)" using None by (simp add: device_by_None)
  then have "people_ok s'" using inv s' by (auto simp: pairing_inv_def people_ok_def uids_def)
  then show ?thesis
    by (rule pairing_inv_devices [OF inv]) (auto simp: s'(1) uids_def)
qed

lemma bindDevice_Inr:
  assumes "bindDevice flt k u p now s = Inr s'"
  shows "insertDevice flt k u p now s = Inr s'"
  using assms by (auto simp: bindDevice_def split: if_splits)

lemma decimal_not_Nil: "decimal n \<noteq> ''''"
  by (subst decimal.simps) simp

lemma resolveSolePerson_Inr:
  assumes inv: "pairing_inv X s" and r: "resolveSolePerson flt rid draws now s = Inr (i, s')"
  shows "pairing_inv X s'" and "id_UserID i \<in> uids s'" and "uids s \<subseteq> uids s'" and "s' = s\<lparr>users := users s'\<rparr>"
    and "id_Created i \<longleftrightarrow> users s = []" and "users s \<noteq> [] \<Longrightarrow> s' = s"
proof -
  consider (one) u where "users s = [u]" "s' = s" "i = identity_of u"
    | (none) lbl where "users s = []" "lbl \<noteq> ''''" "i = \<lparr>id_UserID = ''u_'' @ rid, id_Label = lbl, id_Created = True\<rparr>"
        "s' = s\<lparr>users := [\<lparr>u_user_id = ''u_'' @ rid, u_label = lbl, u_created_at = now\<rparr>]\<rparr>"
    using r by (auto simp: resolveSolePerson_def countPeople_def soleUser_def insertUser_def Let_def length_Suc_conv
        split: if_splits list.splits)
  then have "pairing_inv X s' \<and> id_UserID i \<in> uids s' \<and> uids s \<subseteq> uids s' \<and> s' = s\<lparr>users := users s'\<rparr>
     \<and> (id_Created i \<longleftrightarrow> users s = []) \<and> (users s \<noteq> [] \<longrightarrow> s' = s)"
  proof cases
    case one
    then show ?thesis using inv by (simp add: uids_def identity_of_def)
  next
    case none
    then have "people_ok s'" using inv by (auto simp: pairing_inv_def people_ok_def uids_def)
    then have "pairing_inv X s'" by (rule pairing_inv_devices [OF inv]) (auto simp: none uids_def)
    then show ?thesis using none by (simp add: uids_def)
  qed
  then show "pairing_inv X s'" "id_UserID i \<in> uids s'" "uids s \<subseteq> uids s'" "s' = s\<lparr>users := users s'\<rparr>"
    "id_Created i \<longleftrightarrow> users s = []" "users s \<noteq> [] \<Longrightarrow> s' = s"
    by blast+
qed

subsection \<open>Pairing by a machine link\<close>

lemma update_machine_token_ok:
  assumes inv: "pairing_inv X s"
    and mach: "\<forall>t \<in> set (pair_tokens s). P t \<longrightarrow> t_kind t = TokenMachine"
    and g: "\<And>t. t_token (g t) = t_token t" "\<And>t. t_kind (g t) = t_kind t"
      "\<And>t. unspent_machine (g t) \<Longrightarrow> unspent_machine t"
    and ok: "\<And>t. t \<in> set (pair_tokens s) \<Longrightarrow> P t \<Longrightarrow> token_ok X s (g t)"
  shows "pairing_inv X (s\<lparr>pair_tokens := update_where P g (pair_tokens s)\<rparr>)" (is "pairing_inv X ?s")
proof -
  let ?ts = "update_where P g (pair_tokens s)"
  have keys: "map t_token ?ts = map t_token (pair_tokens s)" by (rule distinct_token_update) (simp add: g)
  have old: "t \<in> set (pair_tokens s)" if "t \<in> set ?ts" "t_kind t = TokenInviteDevice" for t
    using that mach g(2) unfolding in_update_where by (auto split: if_splits)
  have tok: "token_ok X s t" if "t \<in> set ?ts" for t
    using that inv ok unfolding in_update_where by (auto simp: pairing_inv_def tokens_ok_def split: if_splits)
  have len: "length (filter unspent_machine ?ts) \<le> length (filter unspent_machine (pair_tokens s))"
    by (rule filter_update_where_le) (rule g(3))
  have "tokens_ok X ?s"
    using inv keys len tok token_ok_cong [of ?s s X] by (simp add: pairing_inv_def tokens_ok_def)
  moreover have "agree t r" if m: "r \<in> set (pair_requests s)" "t \<in> set ?ts" "t_token t = r_token r" for t r
  proof -
    obtain t0 where t0: "t0 \<in> set (pair_tokens s)" "t = (if P t0 then g t0 else t0)"
      using m(2) unfolding in_update_where by blast
    have "t_token t0 = r_token r" using m(3) t0(2) g(1) by (simp split: if_splits)
    then have "\<not> P t0" using machine_token_lone [OF inv t0(1)] mach t0(1) m(1) by auto
    then show ?thesis using t0 inv m by (simp add: pairing_inv_def requests_ok_def)
  qed
  then have "requests_ok ?s"
    using inv old keys unfolding requests_ok_def pairing_inv_def by (simp flip: set_map)
  ultimately show ?thesis using inv by (simp add: pairing_inv_def people_ok_def uids_def)
qed

lemma spendToken_Inr:
  "spendToken flt tok k now s = Inr s' \<longleftrightarrow>
     \<not> flt ''spend pairing token'' \<and> \<not> flt ''spend pairing token rows''
     \<and> (\<exists>t \<in> set (pair_tokens s). t_token t = tok \<and> t_used_at t = None)
     \<and> s' = s\<lparr>pair_tokens := update_where (\<lambda>t. t_token t = tok \<and> t_used_at t = None)
          (\<lambda>t. t\<lparr>t_used_at := Some now, t_used_by := Some k\<rparr>) (pair_tokens s)\<rparr>"
  by (auto simp: spendToken_def Let_def affected_0_iff)

lemma machine_token_row:
  assumes "pairing_inv X s" "t \<in> set (pair_tokens s)" "t_token t = tok" "t_kind t = TokenMachine"
  shows "\<forall>x \<in> set (pair_tokens s). t_token x = tok \<longrightarrow> x = t"
  using assms distinct_key_eq [of t_token "pair_tokens s"] by (auto simp: pairing_inv_def tokens_ok_def)

lemma pairByMachineLink_ok:
  assumes inv: "pairing_inv X s"
    and t: "t \<in> set (pair_tokens s)" "t_token t = pt_token pt" "t_kind t = TokenMachine"
    and p: "pairByMachineLink flt rid draws pt k platform now s = Inr ((i, joined), s')"
  shows "pairing_inv X s'"
proof (cases joined)
  case False
  then show ?thesis using p inv by (auto simp: pairByMachineLink_def split: option.splits if_splits prod.splits)
next
  case True
  let ?tok = "pt_token pt"
  obtain s1 s2 s3 where s1: "spendToken flt ?tok k now s = Inr s1"
    and s2: "resolveSolePerson flt rid draws now s1 = Inr (i, s2)"
    and s3: "bindDevice flt k (id_UserID i) platform now s2 = Inr s3"
    and s4: "recordOutcome flt ?tok i s3 = Inr s'"
    using p True by (auto simp: pairByMachineLink_def split: option.splits if_splits prod.splits)
  have only: "\<forall>x \<in> set (pair_tokens s). t_token x = ?tok \<longrightarrow> x = t"
    by (rule machine_token_row [OF inv t])
  have s1': "s1 = s\<lparr>pair_tokens := update_where (\<lambda>t. t_token t = ?tok \<and> t_used_at t = None)
          (\<lambda>t. t\<lparr>t_used_at := Some now, t_used_by := Some k\<rparr>) (pair_tokens s)\<rparr>"
    using s1 by (simp only: spendToken_Inr)
  have toks1: "pair_tokens s1 = update_where (\<lambda>t. t_token t = ?tok \<and> t_used_at t = None)
          (\<lambda>t. t\<lparr>t_used_at := Some now, t_used_by := Some k\<rparr>) (pair_tokens s)"
    by (simp add: s1')
  have i1: "pairing_inv X s1"
    unfolding s1'
  proof (rule update_machine_token_ok [OF inv])
    fix x assume "x \<in> set (pair_tokens s)"
    then have "token_ok X s x" using inv by (simp add: pairing_inv_def tokens_ok_def)
    then show "token_ok X s (x\<lparr>t_used_at := Some now, t_used_by := Some k\<rparr>)" by (rule token_ok_spend)
  next
    show "\<forall>t \<in> set (pair_tokens s). t_token t = ?tok \<and> t_used_at t = None \<longrightarrow> t_kind t = TokenMachine"
      using only t(3) by blast
  qed (simp_all add: unspent_machine_def)
  have i2: "pairing_inv X s2" and u: "id_UserID i \<in> uids s2" and us2: "s2 = s1\<lparr>users := users s2\<rparr>"
    using resolveSolePerson_Inr [OF i1 s2] by blast+
  have ins: "insertDevice flt k (id_UserID i) platform now s2 = Inr s3" by (rule bindDevice_Inr [OF s3])
  have i3: "pairing_inv X s3" by (rule insertDevice_ok [OF i2 ins])
  have toks: "pair_tokens s3 = pair_tokens s1"
    using insertDevice_Inr(1) [OF ins] us2 by (metis db.select_convs(3) db.surjective db.update_convs(1,2))
  have u3: "uids s3 = uids s2"
    unfolding uids_def using insertDevice_Inr(1) [OF ins] by (metis db.select_convs(1) db.surjective db.update_convs(2))
  have new: "\<forall>x \<in> set (pair_tokens s3). t_token x = ?tok \<longrightarrow> t_kind x = TokenMachine \<and> t_used_at x \<noteq> None \<and> t_used_by x \<noteq> None"
  proof (intro ballI impI)
    fix x assume x: "x \<in> set (pair_tokens s3)" "t_token x = ?tok"
    then obtain y where y: "y \<in> set (pair_tokens s)" "x = (if t_token y = ?tok \<and> t_used_at y = None
        then y\<lparr>t_used_at := Some now, t_used_by := Some k\<rparr> else y)"
      unfolding toks toks1 in_update_where by blast
    obtain z where "z \<in> set (pair_tokens s)" "t_token z = ?tok" "t_used_at z = None"
      using s1 by (auto simp: spendToken_Inr)
    moreover from this have "z = t" "t_token y = ?tok \<Longrightarrow> y = t" using only y(1) by blast+
    ultimately show "t_kind x = TokenMachine \<and> t_used_at x \<noteq> None \<and> t_used_by x \<noteq> None"
      using y(2) x(2) t(3) by (auto split: if_splits)
  qed
  have "pairing_inv X (s3\<lparr>pair_tokens := update_where (\<lambda>t. t_token t = ?tok)
     (\<lambda>t. t\<lparr>t_paired_user_id := Some (id_UserID i), t_created_person := id_Created i\<rparr>) (pair_tokens s3)\<rparr>)"
  proof (rule update_machine_token_ok [OF i3])
    fix x assume x: "x \<in> set (pair_tokens s3)" "t_token x = ?tok"
    have "token_ok X s3 x" using i3 x by (simp add: pairing_inv_def tokens_ok_def)
    then show "token_ok X s3 (x\<lparr>t_paired_user_id := Some (id_UserID i), t_created_person := id_Created i\<rparr>)"
      using new x u u3 by (auto simp: token_ok_def)
  qed (use new in \<open>auto simp: unspent_machine_def\<close>)
  then show ?thesis using s4 by (simp add: recordOutcome_def)
qed

subsection \<open>Presenting a token\<close>

lemma open_request_ok:
  assumes inv: "pairing_inv X s"
    and t: "t \<in> set (pair_tokens s)" "t_kind t = TokenInviteDevice" "t_used_at t = None"
    and row: "r_token row = t_token t" "t_issuer_key t = Some (r_issuer_key row)" "r_expires_at row = t_expires_at t"
      "r_outcome row = None" "request_ok row"
    and new: "\<forall>q \<in> set (pair_requests s). r_request_id q \<noteq> r_request_id row \<and> r_token q \<noteq> r_token row"
  shows "pairing_inv X (s\<lparr>pair_requests := pair_requests s @ [row]\<rparr>)"
proof -
  have d: "distinct (map t_token (pair_tokens s))" and ok: "token_ok X s t"
    using inv t(1) by (simp_all add: pairing_inv_def tokens_ok_def)
  have "agree t row" using t ok row by (auto simp: agree_def token_ok_def)
  then have "\<forall>x \<in> set (pair_tokens s). t_token x = r_token row \<longrightarrow> agree x row"
    using distinct_key_eq [OF d _ t(1)] row(1) by metis
  then have "requests_ok (s\<lparr>pair_requests := pair_requests s @ [row]\<rparr>)"
    using inv new row t(1) by (auto simp: pairing_inv_def requests_ok_def)
  moreover have "tokens_ok X (s\<lparr>pair_requests := pair_requests s @ [row]\<rparr>)"
    using inv token_ok_cong [of "s\<lparr>pair_requests := pair_requests s @ [row]\<rparr>" s X]
    by (simp add: pairing_inv_def tokens_ok_def)
  ultimately show ?thesis using inv by (simp add: pairing_inv_def people_ok_def uids_def)
qed

lemma readToken_Inr:
  assumes "readToken flt token s = Inr pt"
  obtains t where "t \<in> set (pair_tokens s)" "t_token t = token" "pt_token pt = token" "pt_kind pt = t_kind t"
    "pt_userID pt = null_string (t_user_id t)" "pt_issuerKey pt = null_string (t_issuer_key t)"
    "pt_expiresAt pt = t_expires_at t" "pt_used pt \<longleftrightarrow> t_used_at t \<noteq> None"
  using assms by (auto simp: readToken_def token_by_def split: option.splits dest!: find_SomeD)

lemma repeatRequest_ok:
  assumes inv: "pairing_inv X s" and r: "r \<in> set (pair_requests s)"
    and p: "repeatRequest flt (scanRequest r) pt k now s = Inr (res, s')"
  shows "pairing_inv X s'"
proof -
  have "s' = s \<or> (\<exists>r'. closeRequest flt (scanRequest r) OutcomeExpired now s = Inr (r', s'))"
    using p by (auto simp: repeatRequest_def split: if_splits option.splits)
  then show ?thesis
    using inv closeRequest_ok [OF inv _ r] by (auto simp: outcomes_def)
qed

lemma requestByInvite_ok:
  assumes inv: "pairing_inv X s"
    and t: "t \<in> set (pair_tokens s)" "t_token t = pt_token pt" "t_kind t = TokenInviteDevice"
      "pt_issuerKey pt = null_string (t_issuer_key t)" "pt_expiresAt pt = t_expires_at t" "pt_used pt \<longleftrightarrow> t_used_at t \<noteq> None"
    and p: "requestByInvite flt rid pt k platform now s = Inr (res, s')"
  shows "pairing_inv X s'"
proof (cases "List.find (\<lambda>r. r_token r = pt_token pt) (pair_requests s)")
  case (Some r)
  then have "r \<in> set (pair_requests s)" by (auto dest!: find_SomeD)
  then show ?thesis
    using repeatRequest_ok [OF inv] p Some by (auto simp: requestByInvite_def requestByToken_def)
next
  case None
  let ?row = "\<lparr>r_request_id = ''r_'' @ rid, r_token = pt_token pt, r_device_key = k,
                     r_platform = platform, r_issuer_key = pt_issuerKey pt, r_expires_at = pt_expiresAt pt,
                     r_outcome = None, r_decided_at = None\<rparr>"
  have p': "\<not> pt_used pt" "k \<noteq> ''''" "platform \<noteq> ''''" "pt_issuerKey pt \<noteq> ''''"
    "\<forall>q \<in> set (pair_requests s). r_request_id q \<noteq> r_request_id ?row \<and> r_token q \<noteq> r_token ?row"
    "s' = s\<lparr>pair_requests := pair_requests s @ [?row]\<rparr>"
    using p None by (auto simp: requestByInvite_def requestByToken_def Let_def split: if_splits)
  have "t_issuer_key t = Some (pt_issuerKey pt)"
    using p'(4) t(4) by (auto simp: null_string_def split: option.splits)
  then show ?thesis
    unfolding p'(6) using p' t by (intro open_request_ok [OF inv t(1)]) (simp_all add: request_ok_def outcomes_def)
qed

lemma Pair_ok: "pairing_ok s \<Longrightarrow> pairing_ok (snd (Pair flt rid draws token k platform now s))"
  unfolding Pair_def pairing_ok_def
proof (rule transact_invariant [where P = "pairing_inv {}"], assumption, goal_cases)
  case (1 x s')
  note inv = 1(1)
  obtain pt where pt: "readToken flt token s = Inr pt" using 1(3) by auto
  obtain t where t: "t \<in> set (pair_tokens s)" "t_token t = token" "pt_token pt = token" "pt_kind pt = t_kind t"
    "pt_userID pt = null_string (t_user_id t)" "pt_issuerKey pt = null_string (t_issuer_key t)"
    "pt_expiresAt pt = t_expires_at t" "pt_used pt \<longleftrightarrow> t_used_at t \<noteq> None"
    by (rule readToken_Inr [OF pt])
  show ?case
  proof (cases "t_kind t = TokenMachine")
    case True
    then obtain i j where p: "pairByMachineLink flt rid draws pt k platform now s = Inr ((i, j), s')"
      using 1(3) pt t(4) by auto
    show ?thesis by (rule pairByMachineLink_ok [OF inv t(1) _ True p]) (simp add: t(2,3))
  next
    case False
    then have kind: "t_kind t = TokenInviteDevice" and r: "requestByInvite flt rid pt k platform now s = Inr (x, s')"
      using 1(3) pt t(4) by (auto split: if_splits)
    show ?thesis by (rule requestByInvite_ok [OF inv t(1) _ kind t(6,7,8) r]) (simp add: t)
  qed
qed

subsection \<open>Answering a request\<close>

definition allow_tables :: "request_row \<Rightarrow> string \<Rightarrow> int \<Rightarrow> db \<Rightarrow> db" where
  "allow_tables r u now s =
     s\<lparr>pair_requests := update_where (\<lambda>q. r_request_id q = r_request_id r \<and> r_outcome q = None)
          (\<lambda>q. q\<lparr>r_outcome := Some OutcomeAllowed, r_decided_at := Some now\<rparr>) (pair_requests s),
       pair_tokens := update_where (\<lambda>t. t_token t = r_token r)
          (\<lambda>t. t\<lparr>t_used_at := Some now, t_used_by := Some (r_device_key r), t_paired_user_id := Some u,
                 t_created_person := False\<rparr>) (pair_tokens s)\<rparr>"

lemma allow_tables_ok:
  assumes inv: "pairing_inv X s" and r: "r \<in> set (pair_requests s)" "r_outcome r = None" and u: "u \<in> uids s"
  shows "pairing_inv X (allow_tables r u now s)"
proof -
  define t where "t = allow_tables r u now s"
  let ?f = "\<lambda>x. x\<lparr>t_used_at := Some now, t_used_by := Some (r_device_key r), t_paired_user_id := Some u,
                 t_created_person := False\<rparr>"
  let ?h = "\<lambda>q. q\<lparr>r_outcome := Some OutcomeAllowed, r_decided_at := Some now\<rparr>"
  have pt: "pair_tokens t = update_where (\<lambda>t. t_token t = r_token r) ?f (pair_tokens s)"
    and pr: "pair_requests t = update_where (\<lambda>q. r_request_id q = r_request_id r \<and> r_outcome q = None) ?h (pair_requests s)"
    and rest: "users t = users s" "devices t = devices s"
    by (simp_all add: t_def allow_tables_def)
  have toks: "map t_token (pair_tokens t) = map t_token (pair_tokens s)"
    unfolding pt by (rule distinct_token_update) simp
  have rids: "map r_request_id (pair_requests t) = map r_request_id (pair_requests s)"
    "map r_token (pair_requests t) = map r_token (pair_requests s)"
    unfolding pr by (simp_all add: map_update_where_key)
  have d: "distinct (map r_request_id (pair_requests s))" "distinct (map r_token (pair_requests s))"
    using inv by (simp_all add: pairing_inv_def requests_ok_def)
  have len: "length (filter unspent_machine (pair_tokens t)) \<le> length (filter unspent_machine (pair_tokens s))"
    unfolding pt by (rule filter_update_where_le) (simp add: unspent_machine_def)
  have tk: "token_ok X t x" if "x \<in> set (pair_tokens t)" for x
  proof -
    obtain y where y: "y \<in> set (pair_tokens s)" "x = (if t_token y = r_token r then ?f y else y)"
      using \<open>x \<in> set (pair_tokens t)\<close> unfolding pt in_update_where by blast
    have "token_ok X s y" using inv y(1) by (simp add: pairing_inv_def tokens_ok_def)
    then have "token_ok X s x" using y(2) u by (auto simp: token_ok_def)
    then show ?thesis using token_ok_cong [OF rest(2,1), of X] by simp
  qed
  have ag: "agree x q" if m: "q \<in> set (pair_requests t)" "x \<in> set (pair_tokens t)" "t_token x = r_token q" for q x
  proof -
    obtain q0 where q0: "q0 \<in> set (pair_requests s)"
      "q = (if r_request_id q0 = r_request_id r \<and> r_outcome q0 = None then ?h q0 else q0)"
      using m(1) unfolding pr in_update_where by blast
    obtain y where y: "y \<in> set (pair_tokens s)" "x = (if t_token y = r_token r then ?f y else y)"
      using m(2) unfolding pt in_update_where by blast
    have k: "t_token y = r_token q0" using m(3) q0(2) y(2) by (simp split: if_splits)
    have a: "agree y q0" using inv q0(1) y(1) k by (simp add: pairing_inv_def requests_ok_def)
    show ?thesis
    proof (cases "q0 = r")
      case True
      then show ?thesis using a q0(2) y(2) k r(2) by (simp add: agree_def)
    next
      case False
      then have "r_request_id q0 \<noteq> r_request_id r" "r_token q0 \<noteq> r_token r"
        using distinct_key_eq [OF d(1) q0(1) r(1)] distinct_key_eq [OF d(2) q0(1) r(1)] by auto
      then show ?thesis using a q0(2) y(2) k by simp
    qed
  qed
  have rq: "request_ok q" if "q \<in> set (pair_requests t)" for q
    using inv that unfolding pr in_update_where
    by (auto simp: pairing_inv_def requests_ok_def request_ok_def outcomes_def split: if_splits)
  have "r_token r \<in> r_token ` set (pair_requests s)" using r(1) by simp
  then have br: "t_token x \<in> r_token ` set (pair_requests s)"
    if "x \<in> set (pair_tokens t)" "t_kind x = TokenInviteDevice" "t_used_by x \<noteq> None" for x
    using that inv unfolding pt in_update_where
    by (auto simp: pairing_inv_def requests_ok_def split: if_splits)
  have "r_token q \<in> t_token ` set (pair_tokens t)" if "q \<in> set (pair_requests t)" for q
  proof -
    have "r_token q \<in> set (map r_token (pair_requests t))" using that by simp
    then have "r_token q \<in> set (map t_token (pair_tokens s))"
      unfolding rids(2) using inv by (auto simp: pairing_inv_def requests_ok_def)
    then show ?thesis unfolding toks [symmetric] by simp
  qed
  then have "requests_ok t"
    using d ag rq br rids unfolding requests_ok_def by (simp flip: set_map)
  moreover have "tokens_ok X t" using inv toks len tk by (simp add: pairing_inv_def tokens_ok_def)
  moreover have "people_ok t" using inv rest by (simp add: pairing_inv_def people_ok_def uids_def)
  ultimately show ?thesis by (simp add: pairing_inv_def t_def)
qed

lemma update_where_gone:
  "(\<And>x. P x \<Longrightarrow> \<not> P (g x)) \<Longrightarrow> update_where P h (update_where P g xs) = update_where P g xs"
  by (induction xs) auto

lemma update_where_once:
  assumes "distinct (map key xs)" "x \<in> set xs" "P x" "\<And>y. P y \<Longrightarrow> key y = key x"
    and g: "\<And>y. key (g y) = key y"
  shows "update_where (\<lambda>y. key y = key x) f (update_where P g xs) = update_where (\<lambda>y. key y = key x) (\<lambda>y. f (g y)) xs"
proof -
  have "P y \<longleftrightarrow> key y = key x" if "y \<in> set xs" for y
    using that assms(3,4) distinct_key_eq [OF assms(1) that assms(2)] by blast
  then show ?thesis using g unfolding update_where_def map_map by (intro map_cong) auto
qed

text \<open>What a committed Allow and a committed Deny leave behind.\<close>

lemma Decide_cases:
  assumes inv: "pairing_inv {} s" and op: "DecidePairRequest flt requestID issuerKey allow now s = (res, s')"
  obtains (same) "s' = s" "\<forall>d. res \<noteq> Inr d"
    | (denied) r where "r \<in> set (pair_requests s)" "r_request_id r = requestID" "r_outcome r = None"
        "r_issuer_key r = issuerKey" "now < r_expires_at r" "\<not> allow" "issuerKey \<in> d_device_key ` set (devices s)"
        "s' = close_tables requestID (r_token r) (r_device_key r) OutcomeDenied now s"
        "res = Inr \<lparr>dec_Request = (scanRequest r)\<lparr>pr_Outcome := OutcomeDenied\<rparr>, dec_Identity = no_identity\<rparr>"
    | (allowed) r u ds where "r \<in> set (pair_requests s)" "r_request_id r = requestID" "r_outcome r = None"
        "r_issuer_key r = issuerKey" "now < r_expires_at r" "allow" "issuerKey \<in> d_device_key ` set (devices s)"
        "paired_as s issuerKey (u_user_id u)" "u \<in> set (users s)"
        "insertDevice flt (r_device_key r) (u_user_id u) (r_platform r) now s = Inr (s\<lparr>devices := ds\<rparr>)"
        "s' = allow_tables r (u_user_id u) now (s\<lparr>devices := ds\<rparr>)"
        "res = Inr \<lparr>dec_Request = (scanRequest r)\<lparr>pr_Outcome := OutcomeAllowed\<rparr>,
           dec_Identity = identity_of u\<rparr>"
  using op unfolding DecidePairRequest_def
proof (cases rule: transact_cases)
  case unchanged
  have no: "decide_tx flt requestID issuerKey allow now s \<noteq> Inr (d, None)" for d
    by (auto simp: decide_tx_def split: option.splits if_splits prod.splits)
  have "res \<noteq> Inr d" for d
  proof
    assume res: "res = Inr d"
    then obtain t where "decide_tx flt requestID issuerKey allow now s = Inr (d, t)"
      using op by (auto simp: DecidePairRequest_def transact_Inr)
    then show False using no [of d] unchanged(2) res by (cases t) auto
  qed
  then show ?thesis using unchanged(1) that(1) by blast
next
  case (committed x)
  have ok: "request_ok q" if "q \<in> set (pair_requests s)" for q
    using inv that by (simp add: pairing_inv_def requests_ok_def)
  obtain d r where d: "device_by issuerKey (devices s) = Some d" "d_user_id d \<noteq> ''''"
    and f: "List.find (\<lambda>r. r_request_id r = requestID) (pair_requests s) = Some r"
    using committed(1) [unfolded decide_tx_def] by (auto simp: deviceOwnerOf_def requestByID_def split: option.splits if_splits)
  then have r: "r \<in> set (pair_requests s)" "r_request_id r = requestID" by (auto dest!: find_SomeD)
  have g: "r_issuer_key r = issuerKey" "r_outcome r = None" "now < r_expires_at r"
    using committed(1) [unfolded decide_tx_def] d f waiting_scan [OF ok [OF r(1)]]
    by (auto simp: deviceOwnerOf_def requestByID_def split: if_splits)
  have di: "d \<in> set (devices s)" "d_device_key d = issuerKey"
    using d(1) by (auto simp: device_by_def dest!: find_SomeD)
  show ?thesis
  proof (cases allow)
    case False
    have "x = \<lparr>dec_Request = (scanRequest r)\<lparr>pr_Outcome := OutcomeDenied\<rparr>, dec_Identity = no_identity\<rparr>"
      "s' = close_tables requestID (r_token r) (r_device_key r) OutcomeDenied now s"
      using committed(1) [unfolded decide_tx_def] False d f r g
      by (auto simp: deviceOwnerOf_def requestByID_def closeRequest_Inr null_string_def split: if_splits)
    then show ?thesis using that(2) [OF r g(2,1,3) False] di committed(2) by blast
  next
    case True
    obtain s1 r' s2 u s3 where
      s1: "spendToken flt (r_token r) (r_device_key r) now s = Inr s1"
      and s2: "closeRequest flt (scanRequest r) OutcomeAllowed now s1 = Inr (r', s2)"
      and u: "user_by (d_user_id d) (users s2) = Some u"
      and s3: "bindDevice flt (r_device_key r) (u_user_id u) (r_platform r) now s2 = Inr s3"
      and s4: "recordOutcome flt (r_token r) (identity_of u) s3 = Inr s'"
      and x: "x = \<lparr>dec_Request = r', dec_Identity = identity_of u\<rparr>"
      using committed(1) [unfolded decide_tx_def] True d f g
      by (auto simp: deviceOwnerOf_def requestByID_def null_string_def identity_of_def)
    let ?hit = "\<lambda>t. t_token t = r_token r \<and> t_used_at t = None"
    let ?g = "\<lambda>t. t\<lparr>t_used_at := Some now, t_used_by := Some (r_device_key r)\<rparr>"
    have s1': "s1 = s\<lparr>pair_tokens := update_where ?hit ?g (pair_tokens s)\<rparr>"
      using s1 by (simp only: spendToken_Inr)
    have s2': "s2 = close_tables (r_request_id r) (r_token r) (r_device_key r) OutcomeAllowed now s1"
      "r' = (scanRequest r)\<lparr>pr_Outcome := OutcomeAllowed\<rparr>"
      using s2 by (simp_all add: closeRequest_Inr)
    have none: "update_where ?hit ?g (pair_tokens s1) = pair_tokens s1"
      unfolding s1' by (simp add: update_where_gone)
    have t2: "pair_tokens s2 = update_where ?hit ?g (pair_tokens s)"
      using none by (simp add: s2' close_tables_tables s1')
    have p2: "pair_requests s2 = update_where (\<lambda>q. r_request_id q = r_request_id r \<and> r_outcome q = None)
          (\<lambda>q. q\<lparr>r_outcome := Some OutcomeAllowed, r_decided_at := Some now\<rparr>) (pair_requests s)"
      by (simp add: s2' close_tables_tables s1')
    have e2: "users s2 = users s" "devices s2 = devices s" by (simp_all add: s2' s1')
    note ins = bindDevice_Inr [OF s3]
    have ins': "insertDevice flt (r_device_key r) (u_user_id u) (r_platform r) now s = Inr (s\<lparr>devices := devices s3\<rparr>)"
      using insertDevice_Inr(2) [OF ins] e2 by simp
    obtain t where t: "t \<in> set (pair_tokens s)" "t_token t = r_token r" "t_used_at t = None"
      using s1 by (auto simp: spendToken_Inr)
    have dt: "distinct (map t_token (pair_tokens s))" using inv by (simp add: pairing_inv_def tokens_ok_def)
    have upd: "update_where (\<lambda>t. t_token t = r_token r) f (update_where ?hit ?g (pair_tokens s))
        = update_where (\<lambda>t. t_token t = r_token r) (\<lambda>t. f (?g t)) (pair_tokens s)" for f
      using update_where_once [OF dt t(1), of ?hit ?g f] t(2,3) by simp
    have "s' = allow_tables r (u_user_id u) now (s\<lparr>devices := devices s3\<rparr>)"
    proof -
      have "s3 = s2\<lparr>devices := devices s3\<rparr>" by (rule insertDevice_Inr(1) [OF ins])
      moreover have "s' = s3\<lparr>pair_tokens := update_where (\<lambda>t. t_token t = r_token r)
          (\<lambda>t. t\<lparr>t_paired_user_id := Some (u_user_id u), t_created_person := False\<rparr>) (pair_tokens s3)\<rparr>"
        using s4 by (simp add: recordOutcome_def identity_of_def)
      ultimately have "s' = (s2\<lparr>devices := devices s3\<rparr>)\<lparr>pair_tokens := update_where (\<lambda>t. t_token t = r_token r)
          (\<lambda>t. t\<lparr>t_paired_user_id := Some (u_user_id u), t_created_person := False\<rparr>) (pair_tokens s2)\<rparr>"
        by (metis db.select_convs(3) db.surjective db.update_convs(2))
      then have "s' = (s2\<lparr>devices := devices s3\<rparr>)\<lparr>pair_tokens := update_where (\<lambda>t. t_token t = r_token r)
          (\<lambda>t. (?g t)\<lparr>t_paired_user_id := Some (u_user_id u), t_created_person := False\<rparr>) (pair_tokens s)\<rparr>"
        unfolding t2 upd .
      then show ?thesis by (simp add: allow_tables_def s2'(1) close_tables_def s1')
    qed
    moreover have uu: "u \<in> set (users s)" "u_user_id u = d_user_id d"
      using u e2 by (auto simp: user_by_def dest!: find_SomeD)
    ultimately show ?thesis
      using that(3) [OF r g(2,1,3) True _ _ uu(1) ins'] di x s2'(2) committed(2)
      by (auto simp: paired_as_def)
  qed
qed

lemma DecidePairRequest_ok: "pairing_ok s \<Longrightarrow> pairing_ok (snd (DecidePairRequest flt requestID issuerKey allow now s))"
proof -
  assume "pairing_ok s"
  then have inv: "pairing_inv {} s" by (simp add: pairing_ok_def)
  obtain res s' where op: "DecidePairRequest flt requestID issuerKey allow now s = (res, s')" by fastforce
  from inv op have "pairing_inv {} s'"
  proof (cases rule: Decide_cases)
    case same
    then show ?thesis using inv by simp
  next
    case (denied r)
    then show ?thesis using close_tables_ok [OF inv denied(1,3)] by (simp add: outcomes_def)
  next
    case (allowed r u ds)
    have i: "pairing_inv {} (s\<lparr>devices := ds\<rparr>)" by (rule insertDevice_ok [OF inv allowed(10)])
    have "u_user_id u \<in> uids (s\<lparr>devices := ds\<rparr>)" using allowed(9) by (simp add: uids_def)
    then show ?thesis
      unfolding allowed(11) using allow_tables_ok [OF i] allowed(1,3) by simp
  qed
  then show ?thesis by (simp add: op pairing_ok_def)
qed


subsection \<open>Revoking a device\<close>

lemma remove_device_ok:
  assumes "pairing_inv {} s"
  shows "pairing_inv {k} (s\<lparr>devices := filter (\<lambda>d. d_device_key d \<noteq> k) (devices s)\<rparr>)" (is "pairing_inv {k} ?s")
proof -
  have "token_ok {k} ?s t" if "token_ok {} s t" for t
  proof -
    have "j = k \<or> paired_as ?s j u" if "paired_as s j u" for j u
      using that by (auto simp: paired_as_def)
    then show ?thesis using that by (auto simp: token_ok_def uids_def)
  qed
  then show ?thesis
    using assms by (auto simp: pairing_inv_def people_ok_def tokens_ok_def requests_ok_def uids_def distinct_map_filter)
qed

lemma closeRequestsOf_Inr:
  assumes inv: "pairing_inv X s" and c: "closeRequestsOf flt k now s = Inr (closed, s')"
  shows "pairing_inv X s'" and "same_journal s s'" and "devices s' = devices s" and "users s' = users s"
    and "\<forall>q \<in> set (pair_requests s'). r_issuer_key q = k \<or> r_device_key q = k \<longrightarrow> r_outcome q \<noteq> None"
proof -
  let ?P = "\<lambda>r. (r_issuer_key r = k \<or> r_device_key r = k) \<and> r_outcome r = None"
  let ?rs = "collectRequests (filter ?P (pair_requests s))"
  let ?out = "\<lambda>r. if pr_ExpiresAt r \<le> now then OutcomeExpired else OutcomeDenied"
  have w: "waiting_rows s ?rs" by (rule collect_waiting [OF inv]) simp
  have o: "\<forall>r. Some (?out r) \<in> outcomes \<and> ?out r \<noteq> OutcomeAllowed" by (simp add: outcomes_def)
  have ca: "closeAll flt ?out now ?rs s = Inr (closed, s')" using c by (simp add: closeRequestsOf_def)
  note ok = closeAll_ok [OF inv w ca o]
  show "pairing_inv X s'" "same_journal s s'" "devices s' = devices s" "users s' = users s" using ok by blast+
  show "\<forall>q \<in> set (pair_requests s'). r_issuer_key q = k \<or> r_device_key q = k \<longrightarrow> r_outcome q \<noteq> None"
  proof (intro ballI impI)
    fix q assume q: "q \<in> set (pair_requests s')" "r_issuer_key q = k \<or> r_device_key q = k"
    have pr: "pair_requests s' = close_rows ?out now ?rs (pair_requests s)" using ok by blast
    obtain p where p: "p \<in> set (pair_requests s)" "q = (if r_outcome p = None \<and> r_request_id p \<in> pr_RequestID ` set ?rs
        then p\<lparr>r_outcome := Some (?out (scanRequest p)), r_decided_at := Some now\<rparr> else p)"
      using q(1) unfolding pr close_rows_def in_update_where by blast
    show "r_outcome q \<noteq> None"
    proof (cases "r_outcome p = None")
      case True
      then have "p \<in> set (filter ?P (pair_requests s))" using p q(2) by (auto split: if_splits)
      then have "r_request_id p \<in> pr_RequestID ` set ?rs" unfolding collect_ids by blast
      then show ?thesis using p(2) True by simp
    next
      case False
      then show ?thesis using p(2) by simp
    qed
  qed
qed

lemma void_simps [simp]:
  "users (void_tokens P now s) = users s" "devices (void_tokens P now s) = devices s"
  "pair_requests (void_tokens P now s) = pair_requests s" "same_journal s (void_tokens P now s)"
  by (simp_all add: void_tokens_def same_journal_def)

lemma in_void: "t \<in> set (pair_tokens (void_tokens P now s)) \<longleftrightarrow>
   (\<exists>x \<in> set (pair_tokens s). t = (if P x \<and> t_used_at x = None then x\<lparr>t_used_at := Some now\<rparr> else x))"
  by (simp add: void_tokens_def in_update_where)

text \<open>A committed revocation of a paired device.\<close>

lemma revoke_cases:
  assumes inv: "pairing_inv {} s" and op: "revokeDevice flt caller k now s = (res, s')"
  obtains (same) "s' = s" "\<forall>c. res = Inr c \<longrightarrow> k \<notin> d_device_key ` set (devices s) \<and> (caller = '''' \<or> caller \<in> d_device_key ` set (devices s))"
    | (revoked) closed s2 where
        "k \<in> d_device_key ` set (devices s)" "res = Inr closed" "caller = '''' \<or> caller \<in> d_device_key ` set (devices s)"
        "closeRequestsOf flt k now (s\<lparr>devices := filter (\<lambda>d. d_device_key d \<noteq> k) (devices s)\<rparr>) = Inr (closed, s2)"
        "s' = (let s3 = void_tokens (\<lambda>t. t_issuer_key t = Some k) now s2
               in if devices s3 = [] then void_tokens (\<lambda>t. t_kind t = TokenMachine \<and> t_expires_at t \<le> now) now s3 else s3)"
proof -
  have caller: "caller = '''' \<or> caller \<in> d_device_key ` set (devices s)"
    if "(if caller \<noteq> ''''
           then onOk (query flt ''read the revoking device'' (affected (\<lambda>d. d_device_key d = caller) (devices s))) (\<lambda>paired.
                  if paired = 0 then Inl ErrDeviceUnknown else Inr ())
           else Inr ()) = Inr ()"
    using that by (auto simp: affected_0_iff split: if_splits)
  show ?thesis
    using op unfolding revokeDevice_def
  proof (cases rule: transact_cases)
    case unchanged
    then show ?thesis
      using op caller that(1) unfolding revokeDevice_def
      by (cases res) (auto simp: transact_Inr split: option.splits if_splits)
  next
    case (committed x)
    show ?thesis
    proof (cases "device_by k (devices s)")
      case None
      then have "k \<notin> d_device_key ` set (devices s)" by (simp add: device_by_None)
      then show ?thesis using committed caller that(1) None by auto
    next
      case (Some d)
      then have "k \<in> d_device_key ` set (devices s)" by (auto simp: device_by_def dest!: find_SomeD)
      then show ?thesis
        using committed Some caller that(2)
        by (auto simp: countDevices_def Let_def split: if_splits)
    qed
  qed
qed

lemma revokeDevice_ok:
  assumes "pairing_ok s"
  shows "pairing_ok (snd (revokeDevice flt caller k now s))"
proof -
  have inv: "pairing_inv {} s" using assms by (simp add: pairing_ok_def)
  obtain res s' where op: "revokeDevice flt caller k now s = (res, s')" by fastforce
  from inv op have "pairing_inv {} s'"
  proof (cases rule: revoke_cases)
    case same
    then show ?thesis using inv by simp
  next
    case (revoked closed s2)
    have i1: "pairing_inv {k} (s\<lparr>devices := filter (\<lambda>d. d_device_key d \<noteq> k) (devices s)\<rparr>)"
      by (rule remove_device_ok [OF inv])
    note c = closeRequestsOf_Inr [OF i1 revoked(4)]
    have i3: "pairing_inv {} (void_tokens (\<lambda>t. t_issuer_key t = Some k) now s2)"
    proof (rule void_tokens_ok [OF c(1)])
      show "\<forall>t \<in> set (pair_tokens s2). t_issuer_key t = Some k \<and> t_used_at t = None \<longrightarrow>
          t_token t \<notin> r_token ` set (pair_requests s2)"
        using c(1,5) by (fastforce simp: pairing_inv_def requests_ok_def agree_def)
    qed auto
    then show ?thesis
      using void_machine_ok [OF i3, of "\<lambda>t. t_expires_at t \<le> now"] by (simp add: revoked(5) Let_def)
  qed
  then show ?thesis by (simp add: op pairing_ok_def)
qed

section \<open>What pairing leaves alone\<close>

text \<open>Each step of a transaction on the pairing tables leaves chats, files, messages and events as they were.\<close>

lemma same_journal_upd [simp]:
  "same_journal s (s\<lparr>devices := ds\<rparr>)" "same_journal s (s\<lparr>pair_tokens := ts\<rparr>)"
  "same_journal s (s\<lparr>pair_requests := rs\<rparr>)" "same_journal s (s\<lparr>server_identity := i\<rparr>)"
  "same_journal s (s\<lparr>journal := j\<rparr>)" "same_journal s (s\<lparr>users := users s @ us\<rparr>)"
  by (auto simp: same_journal_def)

lemma transact_keeps:
  assumes "\<And>x t. body s = Inr (x, Some t) \<Longrightarrow> same_journal s t"
  shows "same_journal s (snd (transact flt l body s))"
  using transact_invariant [of "same_journal s" s flt l body] assms by simp

lemma insertDevice_keeps: "insertDevice flt k u p now s = Inr s' \<Longrightarrow> same_journal s s'"
  by (auto simp: insertDevice_def split: option.splits)

lemma insertUser_keeps: "insertUser flt rid draws now s = Inr (i, s') \<Longrightarrow> same_journal s s'"
  by (auto simp: insertUser_def Let_def same_journal_def)

lemma insertMachineLink_keeps: "insertMachineLink flt tok now s = Inr (l, s') \<Longrightarrow> same_journal s s'"
  by (auto simp: insertMachineLink_def Let_def void_tokens_def same_journal_def)

lemma resolveSolePerson_keeps: "resolveSolePerson flt rid draws now s = Inr (i, s') \<Longrightarrow> same_journal s s'"
  by (auto simp: resolveSolePerson_def split: if_splits prod.splits dest: insertUser_keeps)

lemma pairByMachineLink_keeps: "pairByMachineLink flt rid draws pt k p now s = Inr (r, s') \<Longrightarrow> same_journal s s'"
  by (auto simp: pairByMachineLink_def spendToken_Inr recordOutcome_def split: option.splits if_splits prod.splits
      dest!: resolveSolePerson_keeps bindDevice_Inr insertDevice_keeps)
    (auto simp: same_journal_def)

lemma closeRequest_keeps: "closeRequest flt r out now s = Inr (r', s') \<Longrightarrow> same_journal s s'"
  by (simp add: closeRequest_Inr)

lemma closeAll_keeps: "closeAll flt out now rs s = Inr (rs', s') \<Longrightarrow> same_journal s s'"
  by (induction rs arbitrary: s rs') (auto split: prod.splits dest!: closeRequest_keeps intro: same_journal_trans)

lemma requestByInvite_keeps: "requestByInvite flt rid pt k p now s = Inr (r, s') \<Longrightarrow> same_journal s s'"
  by (auto simp: requestByInvite_def repeatRequest_def Let_def split: option.splits if_splits prod.splits
      dest!: closeRequest_keeps)

lemma IssueMachineLink_keeps: "same_journal s (snd (IssueMachineLink flt tok now s))"
  unfolding IssueMachineLink_def
  by (rule transact_keeps) (auto split: prod.splits dest: insertMachineLink_keeps)

lemma PageMachineLink_keeps: "same_journal s (snd (PageMachineLink flt tok now snap s))"
proof -
  have "same_journal s (snd (transact flt ''begin mint machine link'' (\<lambda>s.
                 onOk (pageLinkState flt s) (\<lambda>page.
                 onOk (if \<not> pl_Found page \<and> pl_Devices page = 0
                       then onOk (insertMachineLink flt tok now s) (\<lambda>(link, s1).
                              Inr (page\<lparr>pl_Link := link, pl_Found := True\<rparr>, s1))
                       else Inr (page, s)) (\<lambda>(page, s1).
                 commit flt ''commit mint machine link'' page s1))) s))"
    by (rule transact_keeps) (auto split: prod.splits if_splits dest: insertMachineLink_keeps)
  then show ?thesis by (simp add: PageMachineLink_def split: sum.splits)
qed

lemma IssueDeviceInvite_keeps: "same_journal s (snd (IssueDeviceInvite flt tok issuer now s))"
  by (auto simp: IssueDeviceInvite_def Let_def split: sum.splits option.splits)

lemma ResolveIdentity_keeps: "same_journal s (snd (ResolveIdentity flt k now s))"
  unfolding ResolveIdentity_def
  by (rule transact_keeps) (auto simp: touchDevice_def split: option.splits if_splits)

lemma Pair_keeps: "same_journal s (snd (Pair flt rid draws token k p now s))"
  unfolding Pair_def
  by (rule transact_keeps) (auto split: prod.splits if_splits dest: pairByMachineLink_keeps requestByInvite_keeps)

lemma DecidePairRequest_keeps:
  assumes "pairing_ok s"
  shows "same_journal s (snd (DecidePairRequest flt i k allow now s))"
proof (cases "DecidePairRequest flt i k allow now s")
  case (Pair r t)
  have "same_journal s t"
    using assms Pair unfolding pairing_ok_def
    by (cases rule: Decide_cases) (simp_all add: allow_tables_def close_tables_def same_journal_def)
  with Pair show ?thesis by simp
qed

lemma CancelPairRequest_keeps: "same_journal s (snd (CancelPairRequest flt token k now s))"
  unfolding CancelPairRequest_def
  by (rule transact_keeps) (auto split: option.splits if_splits prod.splits dest: closeRequest_keeps)

lemma ExpirePairRequests_keeps: "same_journal s (snd (ExpirePairRequests flt now snap s))"
proof -
  have "same_journal s (snd (transact flt ''begin expire pairing requests'' (\<lambda>s.
           onOk (query flt ''list expired pairing requests'' (collectRequests (filter P (pair_requests s)))) (\<lambda>expired.
           onOk (closeAll flt (\<lambda>_. OutcomeExpired) now expired s) (\<lambda>(closed, s1).
           commit flt ''commit expire pairing requests'' closed s1))) s))" for P
    by (rule transact_keeps) (auto split: prod.splits dest: closeAll_keeps)
  then show ?thesis by (simp add: ExpirePairRequests_def Let_def)
qed

lemma void_keeps: "same_journal s t \<Longrightarrow> same_journal s (void_tokens P now t)"
  by (simp add: same_journal_def void_tokens_def)

lemma revokeDevice_keeps: "same_journal s (snd (revokeDevice flt caller k now s))"
  unfolding revokeDevice_def
  by (rule transact_keeps)
    (auto simp: closeRequestsOf_def split: option.splits if_splits prod.splits dest!: closeAll_keeps
      intro!: void_keeps, auto simp: same_journal_def)

lemma SetLabel_keeps: "same_journal s (snd (SetLabel flt u label s))"
proof -
  have "u_user_id ` set (update_where P (\<lambda>u. u\<lparr>u_label := label\<rparr>) us) = u_user_id ` set us" for P and us :: "user_row list"
    by (subst (1 2) set_map [symmetric], subst map_update_where_key) simp_all
  then show ?thesis by (simp add: SetLabel_def autocommit_def same_journal_def split: sum.splits prod.splits)
qed

lemmas pairing_keeps_journal =
  IssueMachineLink_keeps PageMachineLink_keeps IssueDeviceInvite_keeps ResolveIdentity_keeps Pair_keeps
  DecidePairRequest_keeps CancelPairRequest_keeps ExpirePairRequests_keeps revokeDevice_keeps SetLabel_keeps

section \<open>What presenting a token does\<close>

lemma pairByMachineLink_joined:
  assumes inv: "pairing_inv X s"
    and t: "t \<in> set (pair_tokens s)" "t_token t = pt_token pt" "t_kind t = TokenMachine"
      "pt_expiresAt pt = t_expires_at t"
    and p: "pairByMachineLink flt rid draws pt k platform now s = Inr ((i, True), s')"
  shows "t_used_at t = None" "now < t_expires_at t" "pair_requests s' = pair_requests s"
    and "pair_tokens s' = update_where (\<lambda>x. t_token x = pt_token pt)
           (\<lambda>x. x\<lparr>t_used_at := Some now, t_used_by := Some k, t_paired_user_id := Some (id_UserID i),
                  t_created_person := id_Created i\<rparr>) (pair_tokens s)"
    and "d_device_key ` set (devices s') = insert k (d_device_key ` set (devices s))"
    and "id_Created i \<longleftrightarrow> users s = []" "users s \<noteq> [] \<Longrightarrow> users s' = users s"
    and "\<exists>u \<in> set (users s'). u_user_id u = id_UserID i \<and> u_label u = id_Label i"
    and "bindDevice flt k (id_UserID i) platform now (s\<lparr>users := users s'\<rparr>) = Inr (s\<lparr>users := users s', devices := devices s'\<rparr>)"
proof -
  let ?tok = "pt_token pt"
  obtain s1 s2 s3 where s1: "spendToken flt ?tok k now s = Inr s1"
    and s2: "resolveSolePerson flt rid draws now s1 = Inr (i, s2)"
    and s3: "bindDevice flt k (id_UserID i) platform now s2 = Inr s3"
    and s4: "recordOutcome flt ?tok i s3 = Inr s'" and "now < t_expires_at t"
    using p t(4) by (auto simp: pairByMachineLink_def split: option.splits if_splits prod.splits)
  then show "now < t_expires_at t" by simp
  have only: "\<forall>x \<in> set (pair_tokens s). t_token x = ?tok \<longrightarrow> x = t"
    by (rule machine_token_row [OF inv t(1-3)])
  obtain z where "z \<in> set (pair_tokens s)" "t_token z = ?tok" "t_used_at z = None"
    using s1 by (auto simp: spendToken_Inr)
  then show unspent: "t_used_at t = None" using only by blast
  have s1': "s1 = s\<lparr>pair_tokens := update_where (\<lambda>t. t_token t = ?tok \<and> t_used_at t = None)
          (\<lambda>t. t\<lparr>t_used_at := Some now, t_used_by := Some k\<rparr>) (pair_tokens s)\<rparr>"
    using s1 by (simp only: spendToken_Inr)
  have r: "s2 = s1\<lparr>users := users s2\<rparr>" "id_Created i \<longleftrightarrow> users s1 = []" "users s1 \<noteq> [] \<Longrightarrow> s2 = s1"
    "\<exists>u \<in> set (users s2). u_user_id u = id_UserID i \<and> u_label u = id_Label i"
    using s2 by (auto simp: resolveSolePerson_def soleUser_def insertUser_def countPeople_def identity_of_def Let_def
        split: if_splits prod.splits list.splits)
  have ins: "insertDevice flt k (id_UserID i) platform now s2 = Inr s3" by (rule bindDevice_Inr [OF s3])
  have s3': "s3 = s2\<lparr>devices := devices s3\<rparr>" by (rule insertDevice_Inr(1) [OF ins])
  have s4': "s' = s3\<lparr>pair_tokens := update_where (\<lambda>t. t_token t = ?tok)
     (\<lambda>t. t\<lparr>t_paired_user_id := Some (id_UserID i), t_created_person := id_Created i\<rparr>) (pair_tokens s3)\<rparr>"
    using s4 by (simp add: recordOutcome_def)
  have eqs: "users s1 = users s" "devices s2 = devices s" "pair_requests s2 = pair_requests s"
    "pair_tokens s2 = pair_tokens s1" "users s3 = users s2" "pair_requests s3 = pair_requests s2"
    "pair_tokens s3 = pair_tokens s2" "users s' = users s3" "devices s' = devices s3" "pair_requests s' = pair_requests s3"
    using arg_cong [OF r(1), of devices] arg_cong [OF r(1), of pair_requests] arg_cong [OF r(1), of pair_tokens]
      arg_cong [OF s3', of users] arg_cong [OF s3', of pair_requests] arg_cong [OF s3', of pair_tokens]
      arg_cong [OF s4', of users] arg_cong [OF s4', of devices] arg_cong [OF s4', of pair_requests]
    by (simp_all add: s1')
  show "pair_requests s' = pair_requests s" by (simp add: eqs)
  show "d_device_key ` set (devices s') = insert k (d_device_key ` set (devices s))"
    using insertDevice_Inr(3) [OF ins] by (simp add: eqs)
  show "id_Created i \<longleftrightarrow> users s = []" "\<exists>u \<in> set (users s'). u_user_id u = id_UserID i \<and> u_label u = id_Label i"
    using r(2,4) eqs by simp_all
  show "users s' = users s" if "users s \<noteq> []" using r(3) that eqs by simp
  have "pair_tokens s' = update_where (\<lambda>x. t_token x = t_token t) (\<lambda>t. t\<lparr>t_paired_user_id := Some (id_UserID i), t_created_person := id_Created i\<rparr>)
      (update_where (\<lambda>x. t_token x = ?tok \<and> t_used_at x = None) (\<lambda>t. t\<lparr>t_used_at := Some now, t_used_by := Some k\<rparr>) (pair_tokens s))"
    using arg_cong [OF s4', of pair_tokens] by (simp add: eqs t(2)) (simp add: s1')
  also have "\<dots> = update_where (\<lambda>x. t_token x = t_token t) (\<lambda>x. (x\<lparr>t_used_at := Some now, t_used_by := Some k\<rparr>)
       \<lparr>t_paired_user_id := Some (id_UserID i), t_created_person := id_Created i\<rparr>) (pair_tokens s)"
    by (rule update_where_once) (use inv t unspent in \<open>auto simp: pairing_inv_def tokens_ok_def\<close>)
  finally show "pair_tokens s' = update_where (\<lambda>x. t_token x = pt_token pt)
           (\<lambda>x. x\<lparr>t_used_at := Some now, t_used_by := Some k, t_paired_user_id := Some (id_UserID i),
                  t_created_person := id_Created i\<rparr>) (pair_tokens s)" by (simp add: t(2))
  have "bindDevice flt k (id_UserID i) platform now (s\<lparr>users := users s2\<rparr>) = Inr (s\<lparr>users := users s2, devices := devices s3\<rparr>)"
    using insertDevice_Inr(2) [OF ins, of "s\<lparr>users := users s2\<rparr>"] s3 eqs
    by (auto simp: bindDevice_def deviceOwnerOf_def split: if_splits)
  then show "bindDevice flt k (id_UserID i) platform now (s\<lparr>users := users s'\<rparr>) = Inr (s\<lparr>users := users s', devices := devices s'\<rparr>)"
    by (simp add: eqs)
qed

lemma Pair_cases:
  assumes inv: "pairing_inv {} s" and op: "Pair flt rid draws token k platform now s = (res, s')"
  obtains (same) "s' = s" "\<forall>r. res = Inr r \<longrightarrow> \<not> res_Joined r \<and> \<not> res_Opened r \<and> \<not> res_Closed r"
    | (joined) t pt i where "t \<in> set (pair_tokens s)" "t_token t = token" "t_kind t = TokenMachine"
        "t_expires_at t = pt_expiresAt pt" "pt_token pt = token"
        "pairByMachineLink flt rid draws pt k platform now s = Inr ((i, True), s')"
        "res = Inr (no_result\<lparr>res_Identity := i, res_Joined := True, res_Paired := True\<rparr>)"
    | (opened) t row where "t \<in> set (pair_tokens s)" "t_token t = token" "t_kind t = TokenInviteDevice"
        "t_used_at t = None" "now < t_expires_at t" "r_token row = token" "r_device_key row = k"
        "r_outcome row = None" "s' = s\<lparr>pair_requests := pair_requests s @ [row]\<rparr>"
        "res = Inr (no_result\<lparr>res_Request := Some (scanRequest row), res_Opened := True\<rparr>)"
    | (expired) r where "r \<in> set (pair_requests s)" "r_token r = token" "r_device_key r = k" "r_outcome r = None"
        "r_expires_at r \<le> now" "s' = close_tables (r_request_id r) (r_token r) k OutcomeExpired now s"
        "res = Inr (no_result\<lparr>res_Request := Some ((scanRequest r)\<lparr>pr_Outcome := OutcomeExpired\<rparr>), res_Closed := True\<rparr>)"
proof (cases "s' = s \<and> (\<forall>r. res = Inr r \<longrightarrow> \<not> res_Joined r \<and> \<not> res_Opened r \<and> \<not> res_Closed r)")
  case True
  then show ?thesis using same by blast
next
  case False
  then obtain x where res: "res = Inr x" using transact_error op unfolding Pair_def by (cases res) blast+
  then obtain pt where pt: "readToken flt token s = Inr pt"
    and body: "(if pt_kind pt = TokenMachine then
             onOk (pairByMachineLink flt rid draws pt k platform now s) (\<lambda>((i, joined), s1).
             Inr (no_result\<lparr>res_Identity := i, res_Joined := joined, res_Paired := True\<rparr>, s1))
           else if pt_kind pt = TokenInviteDevice then requestByInvite flt rid pt k platform now s
           else Inl ErrTokenInvalid) = Inr (x, s')"
    using op unfolding Pair_def by (auto simp: transact_Inr split: prod.splits)
  obtain t where t: "t \<in> set (pair_tokens s)" "t_token t = token" "pt_token pt = token" "pt_kind pt = t_kind t"
    "pt_userID pt = null_string (t_user_id t)" "pt_issuerKey pt = null_string (t_issuer_key t)"
    "pt_expiresAt pt = t_expires_at t" "pt_used pt \<longleftrightarrow> t_used_at t \<noteq> None"
    by (rule readToken_Inr [OF pt])
  show ?thesis
  proof (cases "t_kind t = TokenMachine")
    case True
    then obtain i j where p: "pairByMachineLink flt rid draws pt k platform now s = Inr ((i, j), s')"
      and x: "x = no_result\<lparr>res_Identity := i, res_Joined := j, res_Paired := True\<rparr>"
      using body t(4) by (auto split: prod.splits)
    have j using p False res x by (auto simp: pairByMachineLink_def no_result_def split: option.splits if_splits prod.splits)
    with p res x t True show ?thesis using joined [of t pt i] by simp
  next
    case invite: False
    then have r: "requestByInvite flt rid pt k platform now s = Inr (x, s')" and kind: "t_kind t = TokenInviteDevice"
      using body t(4) by (auto split: if_splits)
    show ?thesis
    proof (cases "List.find (\<lambda>r. r_token r = pt_token pt) (pair_requests s)")
      case None
      then show ?thesis using r res t kind
        by (intro opened [of t "last (pair_requests s')"])
          (auto simp: requestByInvite_def requestByToken_def Let_def scanRequest_def null_string_def split: if_splits)
    next
      case (Some q)
      then have q: "q \<in> set (pair_requests s)" "r_token q = token" using t(3)
        by (auto simp: find_Some_iff)
      then have "request_ok q" using inv by (simp add: pairing_inv_def requests_ok_def)
      then have w: "null_string (r_outcome q) = '''' \<longleftrightarrow> r_outcome q = None" by (rule waiting_scan)
      have "repeatRequest flt (scanRequest q) pt k now s = Inr (x, s')"
        using Some r by (simp add: requestByInvite_def requestByToken_def)
      then have "r_device_key q = k \<and> r_outcome q = None \<and> r_expires_at q \<le> now
        \<and> closeRequest flt (scanRequest q) OutcomeExpired now s = Inr ((scanRequest q)\<lparr>pr_Outcome := OutcomeExpired\<rparr>, s')
        \<and> x = no_result\<lparr>res_Request := Some ((scanRequest q)\<lparr>pr_Outcome := OutcomeExpired\<rparr>), res_Closed := True\<rparr>"
        using w False res unfolding repeatRequest_def
        by (auto simp: no_result_def closeRequest_Inr split: if_splits option.splits)
      then show ?thesis using q res by (intro expired [of q]) (simp_all add: closeRequest_Inr)
    qed
  qed
qed

end
