(* ===== verification/Base64.thy ===== *)
theory Base64
  imports Go_Text
begin

text \<open>
  \<open>encoding/base64\<close> as the server uses it: \<open>StdEncoding\<close> (keys in the database) and
  \<open>RawURLEncoding\<close> (tokens and keys in a pairing link). The two differ in their last two
  letters and in the padding. Decoding skips line breaks, as Go's does, and does not look at
  the unused bits of the last letter.
\<close>

datatype alphabet = Std | URL

definition letter :: "alphabet \<Rightarrow> nat \<Rightarrow> char" where
  "letter a n =
     (if n < 26 then char_of (65 + n)
      else if n < 52 then char_of (71 + n)
      else if n < 62 then char_of (n - 4)
      else if n = 62 then (case a of Std \<Rightarrow> CHR ''+'' | URL \<Rightarrow> CHR ''-'')
      else (case a of Std \<Rightarrow> CHR ''/'' | URL \<Rightarrow> CHR ''_''))"

definition digit :: "alphabet \<Rightarrow> char \<Rightarrow> nat option" where
  "digit a c =
     (let n = byte c
      in if 65 \<le> n \<and> n \<le> 90 then Some (n - 65)
         else if 97 \<le> n \<and> n \<le> 122 then Some (n - 71)
         else if 48 \<le> n \<and> n \<le> 57 then Some (n + 4)
         else if c = (case a of Std \<Rightarrow> CHR ''+'' | URL \<Rightarrow> CHR ''-'') then Some 62
         else if c = (case a of Std \<Rightarrow> CHR ''/'' | URL \<Rightarrow> CHR ''_'') then Some 63
         else None)"

definition pad :: "alphabet \<Rightarrow> string \<Rightarrow> string" where
  "pad a s = (case a of Std \<Rightarrow> s | URL \<Rightarrow> '''')"

fun enc :: "alphabet \<Rightarrow> nat list \<Rightarrow> string" where
  "enc a [] = ''''"
| "enc a [x] = [letter a (x div 4), letter a (x mod 4 * 16)] @ pad a ''==''"
| "enc a [x, y] = [letter a (x div 4), letter a (x mod 4 * 16 + y div 16), letter a (y mod 16 * 4)] @ pad a ''=''"
| "enc a (x # y # z # r) =
     [letter a (x div 4), letter a (x mod 4 * 16 + y div 16), letter a (y mod 16 * 4 + z div 64), letter a (z mod 64)]
     @ enc a r"

definition EncodeToString :: "alphabet \<Rightarrow> string \<Rightarrow> string" where
  "EncodeToString a s = enc a (map byte s)"

definition one_byte :: "alphabet \<Rightarrow> char \<Rightarrow> char \<Rightarrow> nat list option" where
  "one_byte a w x = (case (digit a w, digit a x) of (Some i, Some j) \<Rightarrow> Some [i * 4 + j div 16] | _ \<Rightarrow> None)"

definition two_bytes :: "alphabet \<Rightarrow> char \<Rightarrow> char \<Rightarrow> char \<Rightarrow> nat list option" where
  "two_bytes a w x y =
     (case (digit a w, digit a x, digit a y) of
        (Some i, Some j, Some k) \<Rightarrow> Some [i * 4 + j div 16, j mod 16 * 16 + k div 4]
      | _ \<Rightarrow> None)"

definition three_bytes :: "alphabet \<Rightarrow> char \<Rightarrow> char \<Rightarrow> char \<Rightarrow> char \<Rightarrow> nat list option" where
  "three_bytes a w x y z =
     (case (digit a w, digit a x, digit a y, digit a z) of
        (Some i, Some j, Some k, Some l) \<Rightarrow>
          Some [i * 4 + j div 16, j mod 16 * 16 + k div 4, k mod 4 * 64 + l]
      | _ \<Rightarrow> None)"

text \<open>The last group: two or three letters without padding for \<open>URL\<close>, with it for \<open>Std\<close>.\<close>

fun dec :: "alphabet \<Rightarrow> string \<Rightarrow> nat list option" where
  "dec a [] = Some []"
| "dec a [w] = None"
| "dec a [w, x] = (if a = URL then one_byte a w x else None)"
| "dec a [w, x, y] = (if a = URL then two_bytes a w x y else None)"
| "dec a (w # x # y # z # r) =
     (if a = Std \<and> z = CHR ''='' \<and> r = [] then
        (if y = CHR ''='' then one_byte a w x else two_bytes a w x y)
      else case (three_bytes a w x y z, dec a r) of
             (Some p, Some q) \<Rightarrow> Some (p @ q)
           | _ \<Rightarrow> None)"

definition DecodeString :: "alphabet \<Rightarrow> string \<Rightarrow> string option" where
  "DecodeString a s =
     map_option (map char_of) (dec a (filter (\<lambda>c. c \<noteq> CHR 0x0D \<and> c \<noteq> CHR 0x0A) s))"

lemma digit_letter: "n < 64 \<Longrightarrow> digit a (letter a n) = Some n"
proof -
  assume n: "n < 64"
  consider "n < 26" | "26 \<le> n" "n < 52" | "52 \<le> n" "n < 62" | "n = 62" | "n = 63" using n by linarith
  then show ?thesis
  proof cases
    case 1
    then have "byte (letter a n) = 65 + n" by (simp add: letter_def byte_def)
    then show ?thesis using 1 by (simp add: digit_def Let_def)
  next
    case 2
    then have "byte (letter a n) = 71 + n" by (simp add: letter_def byte_def)
    then show ?thesis using 2 by (simp add: digit_def Let_def)
  next
    case 3
    then have "byte (letter a n) = n - 4" by (simp add: letter_def byte_def)
    then show ?thesis using 3 by (simp add: digit_def Let_def) linarith
  qed (cases a; simp add: letter_def digit_def byte_def)+
qed

lemma letter_plain: "n < 64 \<Longrightarrow> letter a n \<noteq> CHR ''='' \<and> letter a n \<noteq> CHR 0x0D \<and> letter a n \<noteq> CHR 0x0A"
proof -
  assume "n < 64"
  then have "digit a (letter a n) \<noteq> None" by (simp add: digit_letter)
  moreover have "digit a (CHR ''='') = None" "digit a (CHR 0x0D) = None" "digit a (CHR 0x0A) = None"
    by (cases a; simp add: digit_def byte_def)+
  ultimately show ?thesis by metis
qed

lemma six_bits:
  assumes "x < 256" "y < 256" "(z::nat) < 256"
  shows "x div 4 < 64" "x mod 4 * 16 + y div 16 < 64" "y mod 16 * 4 + z div 64 < 64" "z mod 64 < 64"
    "x mod 4 * 16 < 64" "y mod 16 * 4 < 64"
proof -
  have "x mod 4 < 4" "y mod 16 < 16" "y div 16 < 16" "z div 64 < 4" using assms by simp_all
  then show "x mod 4 * 16 + y div 16 < 64" "y mod 16 * 4 + z div 64 < 64" "x mod 4 * 16 < 64" "y mod 16 * 4 < 64"
    by linarith+
qed (use assms in simp_all)

lemma regroup:
  fixes x y z :: nat
  assumes "x < 256" "y < 256" "z < 256"
  shows "x div 4 * 4 + (x mod 4 * 16 + y div 16) div 16 = x"
    "(x mod 4 * 16 + y div 16) mod 16 * 16 + (y mod 16 * 4 + z div 64) div 4 = y"
    "(y mod 16 * 4 + z div 64) mod 4 * 64 + z mod 64 = z"
proof -
  have b: "y div 16 < 16" "z div 64 < 4" using assms by simp_all
  have "(x mod 4 * 16 + y div 16) div 16 = x mod 4" "(x mod 4 * 16 + y div 16) mod 16 = y div 16"
    "(y mod 16 * 4 + z div 64) div 4 = y mod 16" "(y mod 16 * 4 + z div 64) mod 4 = z div 64"
    using b by simp_all
  then show "x div 4 * 4 + (x mod 4 * 16 + y div 16) div 16 = x"
    "(x mod 4 * 16 + y div 16) mod 16 * 16 + (y mod 16 * 4 + z div 64) div 4 = y"
    "(y mod 16 * 4 + z div 64) mod 4 * 64 + z mod 64 = z"
    by simp_all
qed

lemma dec_enc: "\<forall>x \<in> set xs. x < 256 \<Longrightarrow> dec a (enc a xs) = Some xs"
proof (induction a xs rule: enc.induct)
  case (2 a x)
  then have "x < 256" by simp
  then show ?case
    using six_bits [of x 0 0] regroup(1) [of x 0 0]
    by (cases a) (simp_all add: pad_def one_byte_def digit_letter letter_plain)
next
  case (3 a x y)
  then have "x < 256" "y < 256" by simp_all
  then show ?case
    using six_bits [of x y 0] regroup [of x y 0]
    by (cases a) (simp_all add: pad_def two_bytes_def digit_letter letter_plain)
next
  case (4 a x y z r)
  then have "x < 256" "y < 256" "z < 256" by simp_all
  then show ?case
    using 4 six_bits [of x y z] regroup [of x y z]
    by (simp del: div_mult_self1 div_mult_self3 mod_mult_self1 mod_mult_self3 add: three_bytes_def digit_letter letter_plain)
qed simp

lemma enc_plain: "\<forall>x \<in> set xs. x < 256 \<Longrightarrow> c \<in> set (enc a xs) \<Longrightarrow> c \<noteq> CHR 0x0D \<and> c \<noteq> CHR 0x0A"
proof (induction a xs rule: enc.induct)
  case (2 a x)
  then show ?case using six_bits [of x 0 0] letter_plain by (cases a) (auto simp: pad_def)
next
  case (3 a x y)
  then show ?case using six_bits [of x y 0] letter_plain by (cases a) (auto simp: pad_def)
next
  case (4 a x y z r)
  then show ?case using six_bits [of x y z] letter_plain by auto
qed simp

lemma byte_lt: "byte c < 256"
  unfolding byte_def by simp

theorem DecodeString_EncodeToString: "DecodeString a (EncodeToString a s) = Some s"
proof -
  have b: "\<forall>x \<in> set (map byte s). x < 256" by (simp add: byte_lt)
  have "filter (\<lambda>c. c \<noteq> CHR 0x0D \<and> c \<noteq> CHR 0x0A) (enc a (map byte s)) = enc a (map byte s)"
    using enc_plain [OF b] by (simp add: filter_id_conv)
  then show ?thesis
    using dec_enc [OF b] by (simp add: DecodeString_def EncodeToString_def byte_def comp_def)
qed

lemma EncodeToString_Nil [simp]: "EncodeToString a s = '''' \<longleftrightarrow> s = ''''"
  using DecodeString_EncodeToString [of a s] by (auto simp: DecodeString_def EncodeToString_def)

end
