(* ===== verification/Store_Machine.thy ===== *)
theory Store_Machine
  imports Store_Pairing Base64
begin

text \<open>
  The machine's own rows: \<open>internal/store\<close> \<open>serverkey.go\<close>, \<open>addresses.go\<close>, \<open>stats.go\<close> and the
  store identity of \<open>identity.go\<close>. RustSecureBox, which makes keys, is the argument \<open>keys\<close>
  (\<open>GenerateKeys\<close> and \<open>PublicKey\<close> of \<open>KeySource\<close>).
\<close>

section \<open>The server key\<close>

record KeySource =
  GenerateKeys :: "(string \<times> string) option"
  PublicKeyOf :: "string \<Rightarrow> string option"

definition PublicKeySize :: nat where "PublicKeySize = 32"
definition PrivateKeySize :: nat where "PrivateKeySize = 32"

definition decodeServerPublicKey :: "string \<Rightarrow> err + string" where
  "decodeServerPublicKey s =
     (case DecodeString Std s of
        None \<Rightarrow> Inl (ErrOther ''decode server public key'')
      | Some raw \<Rightarrow> if length raw \<noteq> PublicKeySize then Inl (ErrOther ''server public key size'') else Inr raw)"

definition readServerIdentity :: "faults \<Rightarrow> db \<Rightarrow> err + string" where
  "readServerIdentity flt s =
     onOk (query flt ''read server identity'' (server_identity s)) (\<lambda>row.
     case row of None \<Rightarrow> Inl ErrNoServerIdentity | Some i \<Rightarrow> decodeServerPublicKey (s_public_key i))"

definition EnsureServerIdentity :: "faults \<Rightarrow> KeySource \<Rightarrow> db \<Rightarrow> (err + string) \<times> db" where
  "EnsureServerIdentity flt keys = transact flt ''begin ensure server identity'' (\<lambda>s.
     case readServerIdentity flt s of
       Inr pub \<Rightarrow> commit flt ''commit ensure server identity'' pub s
     | Inl e \<Rightarrow>
         if e \<noteq> ErrNoServerIdentity then Inl e
         else
           onOk (countPeople flt s) (\<lambda>people.
           if people > 0 then Inl (ErrOther ''this database holds people but no server identity'')
           else
             case GenerateKeys keys of
               None \<Rightarrow> Inl (ErrOther ''generate server key'')
             | Some (pub, priv) \<Rightarrow>
                 onOk (exec flt ''insert server identity''
                   (server_identity s = None \<and> EncodeToString Std pub \<noteq> '''' \<and> EncodeToString Std priv \<noteq> '''')
                   (s\<lparr>server_identity := Some \<lparr>s_public_key = EncodeToString Std pub, s_private_key = EncodeToString Std priv,
                      s_public_address = None, s_onion_address = None, s_public_address_param = None,
                      s_onion_address_param = None\<rparr>\<rparr>)) (\<lambda>s1.
                 commit flt ''commit ensure server identity'' pub s1)))"

definition rekeyServerIdentity :: "faults \<Rightarrow> string \<Rightarrow> db \<Rightarrow> (err + unit) \<times> db" where
  "rekeyServerIdentity flt pub = transact flt ''begin rekey server identity'' (\<lambda>s.
     onOk (exec flt ''rekey server identity'' True (s\<lparr>pair_requests := []\<rparr>)) (\<lambda>s1.
     onOk (exec flt ''rekey server identity'' (pair_requests s1 = []) (s1\<lparr>pair_tokens := []\<rparr>)) (\<lambda>s2.
     onOk (exec flt ''rekey server identity'' True (s2\<lparr>devices := []\<rparr>)) (\<lambda>s3.
     onOk (exec flt ''rekey server identity'' (EncodeToString Std pub \<noteq> '''' \<or> server_identity s3 = None)
       (s3\<lparr>server_identity := map_option (\<lambda>i. i\<lparr>s_public_key := EncodeToString Std pub\<rparr>) (server_identity s3)\<rparr>)) (\<lambda>s4.
     commit flt ''commit rekey server identity'' () s4)))))"

text \<open>
  \<open>ServerKey\<close>: the private key, and whether every device was let go because the stored public
  key is not the one \<open>keys\<close> gives for it. It reads on the read pool, from \<open>snap\<close>.
\<close>

definition ServerKey :: "faults \<Rightarrow> KeySource \<Rightarrow> db \<Rightarrow> db \<Rightarrow> (err + (string \<times> bool)) \<times> db" where
  "ServerKey flt keys snap s =
     (case onOk (query flt ''read server private key'' (server_identity snap)) (\<lambda>row.
           case row of
             None \<Rightarrow> Inl ErrNoServerIdentity
           | Some i \<Rightarrow>
               (case DecodeString Std (s_private_key i) of
                  None \<Rightarrow> Inl (ErrOther ''decode server private key'')
                | Some priv \<Rightarrow>
                    if length priv \<noteq> PrivateKeySize then Inl (ErrOther ''server private key size'')
                    else
                      onOk (decodeServerPublicKey (s_public_key i)) (\<lambda>storedPub.
                      case PublicKeyOf keys priv of
                        None \<Rightarrow> Inl (ErrOther ''the public key of the server key'')
                      | Some pub \<Rightarrow> Inr (priv, storedPub, pub)))) of
        Inl e \<Rightarrow> (Inl e, s)
      | Inr (priv, storedPub, pub) \<Rightarrow>
          if storedPub = pub then (Inr (priv, False), s)
          else (case rekeyServerIdentity flt pub s of
                  (Inl e, s') \<Rightarrow> (Inl e, s')
                | (Inr _, s') \<Rightarrow> (Inr (priv, True), s')))"

definition ServerIdentity :: "faults \<Rightarrow> db \<Rightarrow> err + string" where
  "ServerIdentity flt s = readServerIdentity flt s"

definition DeviceCount :: "faults \<Rightarrow> db \<Rightarrow> err + int" where
  "DeviceCount flt s = countDevices flt s"

section \<open>Addresses\<close>

definition AddressPublic :: string where "AddressPublic = ''public''"
definition AddressOnion :: string where "AddressOnion = ''onion''"

record AddressesRow =
  ar_Public :: string
  ar_Onion :: string
  ar_PublicParam :: string
  ar_OnionParam :: string

definition Value :: "AddressesRow \<Rightarrow> string \<Rightarrow> string" where
  "Value a kind = (if kind = AddressPublic then ar_Public a else if kind = AddressOnion then ar_Onion a else '''')"

definition Param :: "AddressesRow \<Rightarrow> string \<Rightarrow> string" where
  "Param a kind = (if kind = AddressPublic then ar_PublicParam a else if kind = AddressOnion then ar_OnionParam a else '''')"

definition Addresses :: "faults \<Rightarrow> db \<Rightarrow> err + AddressesRow" where
  "Addresses flt s =
     onOk (query flt ''read addresses'' (server_identity s)) (\<lambda>row.
     case row of
       None \<Rightarrow> Inl ErrNoServerIdentity
     | Some i \<Rightarrow> Inr \<lparr>ar_Public = null_string (s_public_address i), ar_Onion = null_string (s_onion_address i),
         ar_PublicParam = null_string (s_public_address_param i), ar_OnionParam = null_string (s_onion_address_param i)\<rparr>)"

definition nullIfEmpty :: "string \<Rightarrow> string option" where
  "nullIfEmpty v = (if v = '''' then None else Some v)"

text \<open>One UPDATE of the machine row, which has to find it.\<close>

definition updateIdentityRow :: "faults \<Rightarrow> string \<Rightarrow> (server_identity_row \<Rightarrow> server_identity_row) \<Rightarrow> db \<Rightarrow> (err + unit) \<times> db" where
  "updateIdentityRow flt what upd s =
     (if flt what then (Inl (ErrSQL what), s)
      else
        let s' = s\<lparr>server_identity := map_option upd (server_identity s)\<rparr>
        in if flt (what @ '' rows'') then (Inl (ErrSQL what), s')
           else if server_identity s = None then (Inl ErrNoServerIdentity, s')
           else (Inr (), s'))"

definition SetAddress :: "faults \<Rightarrow> string \<Rightarrow> string \<Rightarrow> db \<Rightarrow> (err + unit) \<times> db" where
  "SetAddress flt kind value s =
     (if kind = AddressPublic then
        updateIdentityRow flt ''set address'' (\<lambda>i. i\<lparr>s_public_address := nullIfEmpty value\<rparr>) s
      else if kind = AddressOnion then
        updateIdentityRow flt ''set address'' (\<lambda>i. i\<lparr>s_onion_address := nullIfEmpty value\<rparr>) s
      else (Inl ErrUnknownAddressKind, s))"

definition ApplyAddressParam :: "faults \<Rightarrow> string \<Rightarrow> string \<Rightarrow> string \<Rightarrow> db \<Rightarrow> (err + unit) \<times> db" where
  "ApplyAddressParam flt kind value param s =
     (if value = '''' \<or> param = '''' then
        (Inl (ErrOther ''apply address parameter: the value and the parameter are both required''), s)
      else if kind = AddressPublic then
        updateIdentityRow flt ''apply address parameter''
          (\<lambda>i. i\<lparr>s_public_address := Some value, s_public_address_param := Some param\<rparr>) s
      else if kind = AddressOnion then
        updateIdentityRow flt ''apply address parameter''
          (\<lambda>i. i\<lparr>s_onion_address := Some value, s_onion_address_param := Some param\<rparr>) s
      else (Inl ErrUnknownAddressKind, s))"

section \<open>The store identity and the counts\<close>

definition JournalID :: "faults \<Rightarrow> db \<Rightarrow> err + string" where
  "JournalID flt s = query_row flt ''read journal id'' (journal s)"

definition EnsureJournal :: "faults \<Rightarrow> string \<Rightarrow> db \<Rightarrow> (err + unit) \<times> db" where
  "EnsureJournal flt rid s =
     autocommit s (exec flt ''ensure journal'' True
       ((), s\<lparr>journal := (case journal s of None \<Rightarrow> Some (''j_'' @ rid) | Some j \<Rightarrow> Some j)\<rparr>))"

definition RotateJournal :: "faults \<Rightarrow> string \<Rightarrow> db \<Rightarrow> (err + string) \<times> db" where
  "RotateJournal flt rid s =
     (if flt ''rotate journal'' then (Inl (ErrSQL ''rotate journal''), s)
      else
        let s' = s\<lparr>journal := map_option (\<lambda>_. ''j_'' @ rid) (journal s)\<rparr>
        in if flt ''rotate journal rows'' \<or> journal s = None
           then (Inl (ErrOther ''rotate journal: the store has no journal to rotate''), s')
           else (Inr (''j_'' @ rid), s'))"

record Counts =
  ct_People :: int
  ct_Devices :: int
  ct_Chats :: int
  ct_Messages :: int

definition CountEverything :: "faults \<Rightarrow> db \<Rightarrow> err + Counts" where
  "CountEverything flt s =
     query flt ''count store contents''
       \<lparr>ct_People = int (length (users s)), ct_Devices = int (length (devices s)),
        ct_Chats = int (length (chats s)), ct_Messages = int (length (messages s))\<rparr>"

section \<open>What the machine operations keep and do\<close>

lemma EnsureServerIdentity_shape:
  "snd (EnsureServerIdentity flt keys s) = s\<lparr>server_identity := server_identity (snd (EnsureServerIdentity flt keys s))\<rparr>"
  unfolding EnsureServerIdentity_def
  by (rule transact_invariant [where P = "\<lambda>t. t = s\<lparr>server_identity := server_identity t\<rparr>"])
    (auto split: sum.splits if_splits option.splits prod.splits)

lemma rekey_cases:
  assumes "rekeyServerIdentity flt pub s = (r, s')"
  obtains (same) e where "s' = s" "r = Inl e"
    | (rekeyed) "r = Inr ()"
        "s' = s\<lparr>pair_requests := [], pair_tokens := [], devices := [],
           server_identity := map_option (\<lambda>i. i\<lparr>s_public_key := EncodeToString Std pub\<rparr>) (server_identity s)\<rparr>"
  using assms by (auto simp: rekeyServerIdentity_def transact_def split: if_splits sum.splits)

lemma no_devices_ok: "pairing_ok s \<Longrightarrow> pairing_ok (s\<lparr>pair_requests := [], pair_tokens := [], devices := []\<rparr>)"
  by (simp add: pairing_ok_def pairing_defs uids_def)

lemma rekey_ok: "pairing_ok s \<Longrightarrow> pairing_ok (snd (rekeyServerIdentity flt pub s))"
proof (cases "rekeyServerIdentity flt pub s")
  case (Pair r t)
  assume ok: "pairing_ok s"
  have "pairing_ok t"
    using Pair by (cases rule: rekey_cases)
      (use ok no_devices_ok [OF ok] in \<open>simp_all add: pairing_ok_def pairing_inv_frame [OF _] same_pairing_def pairing_defs uids_def\<close>)
  with Pair show ?thesis by simp
qed

lemma rekey_keeps: "same_journal s (snd (rekeyServerIdentity flt pub s))"
proof (cases "rekeyServerIdentity flt pub s")
  case (Pair r t)
  then have "same_journal s t" by (cases rule: rekey_cases) (simp_all add: same_journal_def)
  with Pair show ?thesis by simp
qed

lemma ServerKey_state:
  "snd (ServerKey flt keys snap s) = s \<or> (\<exists>pub. snd (ServerKey flt keys snap s) = snd (rekeyServerIdentity flt pub s))"
  by (auto simp: ServerKey_def split: sum.splits prod.splits)
    (metis snd_conv)+

lemma ServerKey_ok: "pairing_ok s \<Longrightarrow> pairing_ok (snd (ServerKey flt keys snap s))"
  using ServerKey_state [of flt keys snap s] rekey_ok by metis

lemma ServerKey_keeps: "same_journal s (snd (ServerKey flt keys snap s))"
  using ServerKey_state [of flt keys snap s] rekey_keeps by (metis same_journal_refl)

lemma machine_row_only:
  "snd (SetAddress flt kind v s) = s\<lparr>server_identity := server_identity (snd (SetAddress flt kind v s))\<rparr>"
  "snd (ApplyAddressParam flt kind v p s) = s\<lparr>server_identity := server_identity (snd (ApplyAddressParam flt kind v p s))\<rparr>"
  "snd (EnsureJournal flt rid s) = s\<lparr>journal := journal (snd (EnsureJournal flt rid s))\<rparr>"
  "snd (RotateJournal flt rid s) = s\<lparr>journal := journal (snd (RotateJournal flt rid s))\<rparr>"
  by (simp_all add: SetAddress_def ApplyAddressParam_def updateIdentityRow_def EnsureJournal_def RotateJournal_def
      Let_def autocommit_def exec_def)

lemma server_identity_frame:
  assumes "t = s\<lparr>server_identity := i\<rparr>"
  shows "pairing_ok s \<Longrightarrow> pairing_ok t" "same_journal s t"
  using assms by (auto simp: pairing_ok_def same_pairing_def intro: pairing_inv_frame)

lemma journal_frame:
  assumes "t = s\<lparr>journal := i\<rparr>"
  shows "pairing_ok s \<Longrightarrow> pairing_ok t" "same_journal s t"
  using assms by (auto simp: pairing_ok_def same_pairing_def intro: pairing_inv_frame)

lemmas machine_keeps_journal =
  server_identity_frame(2) [OF EnsureServerIdentity_shape] ServerKey_keeps
  server_identity_frame(2) [OF machine_row_only(1)] server_identity_frame(2) [OF machine_row_only(2)]
  journal_frame(2) [OF machine_row_only(3)] journal_frame(2) [OF machine_row_only(4)]

lemmas machine_ok =
  server_identity_frame(1) [OF EnsureServerIdentity_shape] ServerKey_ok
  server_identity_frame(1) [OF machine_row_only(1)] server_identity_frame(1) [OF machine_row_only(2)]
  journal_frame(1) [OF machine_row_only(3)] journal_frame(1) [OF machine_row_only(4)]

end
