(* ===== verification/Store_Steps.thy ===== *)
theory Store_Steps
  imports Store_Machine
begin

text \<open>
  The store as a state machine. \<open>store_step\<close> has one rule per exported operation of
  \<open>internal/store\<close> that writes, with any arguments and any faults; the operations that
  read on the read pool before they take the writer read any earlier database. The invariants of
  the two component theories hold in every reachable database, and along a run the event log
  and the message history only ever grow at the end.
\<close>

inductive store_step :: "(rune \<Rightarrow> rune) \<Rightarrow> db \<Rightarrow> db \<Rightarrow> bool" for sf where
  CreateChat: "store_step sf s (snd (CreateChat flt sf rid i name lbl now s))"
| RenameChat: "store_step sf s (snd (RenameChat flt sf i name s))"
| SendMessage: "store_step sf s (snd (SendMessage flt sf rid chatID cmid author body fileID now s))"
| CreateUpload: "store_step sf s (snd (CreateUpload flt rid name size0 mime now s))"
| MarkUploaded: "store_step sf s (snd (MarkUploaded flt fileID s))"
| DeleteFiles: "store_step sf s (snd (DeleteFiles flt ids s))"
| ResolveIdentity: "store_step sf s (snd (ResolveIdentity flt k now s))"
| SetLabel: "store_step sf s (snd (SetLabel flt u label s))"
| IssueMachineLink: "store_step sf s (snd (IssueMachineLink flt tok now s))"
| PageMachineLink: "store_step sf s (snd (PageMachineLink flt tok now snap s))"
| IssueDeviceInvite: "store_step sf s (snd (IssueDeviceInvite flt tok issuer now s))"
| Pair: "store_step sf s (snd (Pair flt rid draws token k platform now s))"
| DecidePairRequest: "store_step sf s (snd (DecidePairRequest flt i k allow now s))"
| CancelPairRequest: "store_step sf s (snd (CancelPairRequest flt token k now s))"
| ExpirePairRequests: "store_step sf s (snd (ExpirePairRequests flt now snap s))"
| RevokeDevice: "store_step sf s (snd (RevokeDevice flt k now s))"
| RevokeDeviceAs: "store_step sf s (snd (RevokeDeviceAs flt caller k now s))"
| EnsureServerIdentity: "store_step sf s (snd (EnsureServerIdentity flt keys s))"
| ServerKey: "store_step sf s (snd (ServerKey flt keys snap s))"
| SetAddress: "store_step sf s (snd (SetAddress flt kind v s))"
| ApplyAddressParam: "store_step sf s (snd (ApplyAddressParam flt kind v p s))"
| EnsureJournal: "store_step sf s (snd (EnsureJournal flt rid s))"
| RotateJournal: "store_step sf s (snd (RotateJournal flt rid s))"

definition reachable :: "(rune \<Rightarrow> rune) \<Rightarrow> db \<Rightarrow> bool" where
  "reachable sf s \<longleftrightarrow> (store_step sf)\<^sup>*\<^sup>* empty_db s"

definition store_ok :: "(rune \<Rightarrow> rune) \<Rightarrow> db \<Rightarrow> bool" where
  "store_ok sf s \<longleftrightarrow> journal_ok sf s \<and> pairing_ok s"

lemma same_pairing_ok: "pairing_ok s \<Longrightarrow> same_pairing s t \<Longrightarrow> pairing_ok t"
  unfolding pairing_ok_def by (rule pairing_inv_frame)

lemma CreateChat_pairing: "same_pairing s (snd (CreateChat flt sf rid i name lbl now s))"
  unfolding CreateChat_def
  by (rule transact_invariant [where P = "same_pairing s"])
    (auto simp: Let_def same_pairing_def split: option.splits if_splits)

lemma RenameChat_pairing: "same_pairing s (snd (RenameChat flt sf i name s))"
  unfolding RenameChat_def
  by (rule transact_invariant [where P = "same_pairing s"])
    (auto simp: Let_def same_pairing_def split: option.splits if_splits)

lemma SendMessage_pairing:
  "journal_ok sf s \<Longrightarrow> same_pairing s (snd (SendMessage flt sf rid chatID cmid author body fileID now s))"
proof (cases "SendMessage flt sf rid chatID cmid author body fileID now s")
  case (Pair r t)
  assume "journal_ok sf s"
  then have "log_ok s" by (simp add: journal_ok_def)
  with Pair have "same_pairing s t"
    by (cases rule: SendMessage_cases) (simp_all add: sent_state_def same_pairing_def)
  with Pair show ?thesis by simp
qed

lemma file_ops_pairing:
  "same_pairing s (snd (CreateUpload flt rid name size0 mime now s))"
  "same_pairing s (snd (MarkUploaded flt fileID s))"
  "same_pairing s (snd (DeleteFiles flt ids s))"
proof -
  show "same_pairing s (snd (DeleteFiles flt ids s))"
    by (induction ids arbitrary: s) (simp_all add: same_pairing_def)
qed (simp_all add: CreateUpload_def MarkUploaded_def autocommit_def exec_def Let_def same_pairing_def)

lemmas journal_ops_pairing = CreateChat_pairing RenameChat_pairing SendMessage_pairing file_ops_pairing

lemma step_pairing_ok:
  assumes "store_step sf s t" "store_ok sf s"
  shows "pairing_ok t"
  using assms unfolding store_ok_def
  by cases
    (auto simp: RevokeDevice_def RevokeDeviceAs_def
      intro: same_pairing_ok journal_ops_pairing machine_ok IssueMachineLink_ok PageMachineLink_ok
        IssueDeviceInvite_ok ExpirePairRequests_ok CancelPairRequest_ok ResolveIdentity_ok SetLabel_ok Pair_ok
        DecidePairRequest_ok revokeDevice_ok)

lemma step_journal:
  assumes "store_step sf s t" "store_ok sf s"
  shows "journal_ok sf t \<and> grows s t"
  using assms unfolding store_ok_def
  by cases
    (auto simp: RevokeDevice_def RevokeDeviceAs_def
      intro: CreateChat_journal RenameChat_journal SendMessage_journal CreateUpload_journal MarkUploaded_journal
        DeleteFiles_journal CreateChat_grows RenameChat_grows SendMessage_grows CreateUpload_grows MarkUploaded_grows
        DeleteFiles_grows journal_ok_frame same_journal_grows pairing_keeps_journal machine_keeps_journal)

lemma step_store_ok: "store_step sf s t \<Longrightarrow> store_ok sf s \<Longrightarrow> store_ok sf t \<and> grows s t"
  using step_pairing_ok step_journal unfolding store_ok_def by blast

lemma steps_store_ok: "(store_step sf)\<^sup>*\<^sup>* s t \<Longrightarrow> store_ok sf s \<Longrightarrow> store_ok sf t \<and> grows s t"
  by (induction rule: rtranclp_induct) (auto dest: step_store_ok intro: grows_trans)

lemma reachable_store_ok: "reachable sf s \<Longrightarrow> store_ok sf s"
  unfolding reachable_def
  by (drule steps_store_ok) (simp_all add: store_ok_def journal_ok_empty pairing_ok_empty)

lemma reachable_empty [simp]: "reachable sf empty_db"
  by (simp add: reachable_def)

lemma reachable_step: "reachable sf s \<Longrightarrow> store_step sf s t \<Longrightarrow> reachable sf t"
  unfolding reachable_def by (rule rtranclp.rtrancl_into_rtrancl)

section \<open>A sample run\<close>

text \<open>
  A short run of the store, on which the properties are applied: a phone pairs through the
  machine link, a chat is created, a message is sent.
\<close>

definition sample_paired :: db where
  "sample_paired = snd (Pair no_faults ''1'' (\<lambda>_. 0) ''tok'' ''phone'' ''ios'' 1
     (snd (IssueMachineLink no_faults ''tok'' 0 empty_db)))"

definition sample_chat :: "(rune \<Rightarrow> rune) \<Rightarrow> db" where
  "sample_chat sf = snd (CreateChat no_faults sf ''1'' '''' ''General'' ''User1000'' 2 sample_paired)"

definition sample_author :: Identity where
  "sample_author = \<lparr>id_UserID = ''u_1'', id_Label = ''User1000'', id_Created = False\<rparr>"

definition sample_sent :: "(rune \<Rightarrow> rune) \<Rightarrow> db" where
  "sample_sent sf = snd (SendMessage no_faults sf ''1'' ''c_1'' ''a'' sample_author None '''' 3 (sample_chat sf))"

lemma sample_paired_value:
  "sample_paired = \<lparr>users = [\<lparr>u_user_id = ''u_1'', u_label = ''User1000'', u_created_at = 1\<rparr>],
    devices = [\<lparr>d_device_key = ''phone'', d_user_id = ''u_1'', d_platform = ''ios'', d_created_at = 1, d_last_seen_at = 1\<rparr>],
    pair_tokens = [\<lparr>t_token = ''tok'', t_kind = ''machine'', t_user_id = None, t_issuer_key = None, t_created_at = 0,
      t_expires_at = 600, t_used_at = Some 1, t_used_by = Some ''phone'', t_paired_user_id = Some ''u_1'',
      t_created_person = True\<rparr>],
    pair_requests = [], chats = [], files = [], messages = [], events = [], event_seq = 0, journal = None,
    server_identity = None\<rparr>"
  by code_simp

lemma reachable_sample_paired: "reachable sf sample_paired"
  unfolding sample_paired_def by (intro reachable_step [OF _ store_step.intros(12)]
      reachable_step [OF _ store_step.intros(9)] reachable_empty)

lemma reachable_sample_chat: "reachable sf (sample_chat sf)"
  unfolding sample_chat_def by (intro reachable_step [OF _ store_step.intros(1)] reachable_sample_paired)

lemma reachable_sample_sent: "reachable sf (sample_sent sf)"
  unfolding sample_sent_def by (intro reachable_step [OF _ store_step.intros(3)] reachable_sample_chat)

lemmas reachable_samples = reachable_sample_paired reachable_sample_chat reachable_sample_sent

lemma journal_ok_sample: "journal_ok sf sample_paired" "journal_ok sf (sample_chat sf)"
  using reachable_samples [THEN reachable_store_ok] by (auto simp: store_ok_def)

lemma int64_max_pos [simp]: "0 < int64_max" "1 < int64_max" "2 < int64_max" "3 < int64_max"
  by (simp_all add: int64_max_def)

lemma sample_create:
  "CreateChat no_faults sf ''1'' '''' ''General'' ''User1000'' 2 sample_paired =
    (let chat = \<lparr>ChatID = ''c_1'', Name = ''General'', CreatedAt = 2, CreatedByLabel = ''User1000'',
                 LastMessagePreview = '''', LastActivityAt = 2\<rparr>
     in (Inr (chat, \<lparr>ev_Seq = 1, ev_Type = EventChatCreated, ev_Payload = PChat chat\<rparr>, True), sample_chat sf))"
  using journal_ok_sample(1) [of sf] CreateChat_total [where s = sample_paired and sf = sf and name = "''General''" and rid = "''1''" and i = "''''" and lbl = "''User1000''" and now = 2] unfolding sample_chat_def
  by (simp add: foldCase_eq_Nil sample_paired_value Let_def)

lemma sample_chat_value:
  "sample_chat sf = sample_paired\<lparr>chats := [\<lparr>c_chat_id = ''c_1'', c_name = ''General'', c_name_ci = foldCase sf ''General'',
      c_created_at = 2, c_created_by_label = ''User1000'', c_last_activity_at = 2, c_last_message_preview = ''''\<rparr>],
     event_seq := 1,
     events := [\<lparr>e_seq = 1, e_type = EventChatCreated, e_payload = PChat \<lparr>ChatID = ''c_1'', Name = ''General'',
        CreatedAt = 2, CreatedByLabel = ''User1000'', LastMessagePreview = '''', LastActivityAt = 2\<rparr>\<rparr>]\<rparr>"
  using journal_ok_sample(1) [of sf] CreateChat_total [where s = sample_paired and sf = sf and name = "''General''" and rid = "''1''" and i = "''''" and lbl = "''User1000''" and now = 2] unfolding sample_chat_def
  by (simp add: foldCase_eq_Nil sample_paired_value Let_def appended_def)

lemma sample_send:
  "SendMessage no_faults sf rid ''c_1'' cmid sample_author body '''' now (sample_chat sf) =
    (let msg = new_message rid 2 ''c_1'' cmid sample_author body None now
     in (Inr (msg, \<lparr>ev_Seq = 2, ev_Type = EventMessageNew, ev_Payload = PMessage msg\<rparr>, True),
         sent_state (sample_chat sf) sf '''' msg))"
  using journal_ok_sample(2) [of sf] SendMessage_total [where s = "sample_chat sf" and sf = sf and author = sample_author and rid = rid and chatID = "''c_1''" and cmid = cmid and body = body and fileID = "''''" and now = now]
  by (simp add: sample_chat_value sample_paired_value sample_author_def messageByClientID_def attachment_verdict_def)

end
