(* ===== verification/Journal_Properties.thy ===== *)
theory Journal_Properties
  imports Store_Steps
begin

text \<open>
  What the store promises a client of the journal: sends that can be repeated, a log that can
  be replayed from a cursor, paging that reaches every message, chat names that stay unique,
  attachments that belong to one message.
\<close>

section \<open>Sending\<close>

lemma filter_distinct_key:
  "distinct (map key xs) \<Longrightarrow> x \<in> set xs \<Longrightarrow> key x = k \<Longrightarrow> filter (\<lambda>y. key y = k) xs = [x]"
proof (induction xs)
  case (Cons a xs)
  show ?case
  proof (cases "a = x")
    case True
    with Cons.prems show ?thesis by (auto simp: filter_empty_conv) (metis image_eqI)
  next
    case False
    with Cons show ?thesis by auto
  qed
qed simp

lemma sample_run: "(store_step sf)\<^sup>*\<^sup>* (sample_chat sf) (sample_sent sf)"
  unfolding sample_sent_def by (rule r_into_rtranclp) (rule store_step.SendMessage)

lemma history_unique:
  assumes "journal_ok sf s" "msg \<in> set (history s)" "msg_AuthorID msg = a" "msg_ClientMessageID msg = c"
  shows "filter (\<lambda>m. msg_AuthorID m = a \<and> msg_ClientMessageID m = c) (history s) = [msg]"
  using filter_distinct_key [of "\<lambda>m. (msg_AuthorID m, msg_ClientMessageID m)" "history s" msg "(a, c)"] assms
  by (simp add: history_def journal_defs comp_def)

lemma run_history:
  assumes "reachable sf s" "(store_step sf)\<^sup>*\<^sup>* s t"
  shows "journal_ok sf t" "set (history s) \<subseteq> set (history t)" "grows s t"
  using steps_store_ok [OF assms(2) reachable_store_ok [OF assms(1)]]
  by (auto simp: store_ok_def grows_def)

text \<open>
  C1. A message is sent exactly once. When \<open>SendMessage\<close> has answered with a message, then
  after any further run of the store a repeat of the same client message id by the same
  person, whatever else it carries, answers with that message, reports nothing created and
  changes nothing; and the history holds that message and no other for this id.
\<close>

theorem send_exactly_once:
  assumes s: "reachable sf s"
    and sent: "SendMessage flt sf rid chatID cmid author body fileID now s = (Inr (msg, ev, created), s')"
    and run: "(store_step sf)\<^sup>*\<^sup>* s' t"
    and again: "id_UserID author' = id_UserID author" "\<not> flt' ''begin send message''" "\<not> flt' ''check idempotency''"
  shows "SendMessage flt' sf rid' chatID' cmid author' body' fileID' now' t = (Inr (msg, no_event, False), t)
    \<and> filter (\<lambda>m. msg_AuthorID m = id_UserID author \<and> msg_ClientMessageID m = cmid) (history t) = [msg]"
proof -
  have j: "journal_ok sf s" using reachable_store_ok [OF s] by (simp add: store_ok_def)
  note msg = SendMessage_in_history [OF j sent]
  have "reachable sf s'"
    using reachable_step [OF s store_step.SendMessage, of flt rid chatID cmid author body fileID now] sent by simp
  from run_history [OF this run] msg(1) have t: "journal_ok sf t" "msg \<in> set (history t)" by auto
  show ?thesis
    using SendMessage_replay [OF t] history_unique [OF t] msg again by simp
qed

theorem send_exactly_once_witness:
  "SendMessage no_faults id ''9'' ''c_7'' ''a'' sample_author (Some JNull) ''f_1'' 50 (sample_sent id)
     = (Inr (new_message ''1'' 2 ''c_1'' ''a'' sample_author None None 3, no_event, False), sample_sent id)
   \<and> filter (\<lambda>m. msg_AuthorID m = ''u_1'' \<and> msg_ClientMessageID m = ''a'') (history (sample_sent id))
     = [new_message ''1'' 2 ''c_1'' ''a'' sample_author None None 3]"
  using send_exactly_once [OF reachable_sample_chat [of id] sample_send [unfolded Let_def, of id "''1''" "''a''" None 3]
      rtranclp.rtrancl_refl refl, of no_faults "''9''" "''c_7''" "Some JNull" "''f_1''" 50]
  by (simp add: no_faults_def sample_author_def sample_sent_def sample_send [unfolded sample_author_def] Let_def)

text \<open>
  C2. \<open>SendMessage\<close> on every branch, in a reachable store with no failing statement: a known
  client message id returns the stored message; a missing chat, and a file that is missing, not
  uploaded or already attached, are refused with their own error and no change; otherwise the
  answer carries the next sequence number and the file's metadata, and the new database holds
  the message, its event, the file's binding and the chat's activity and preview.
\<close>

theorem send_message_branches:
  assumes "reachable sf s" "event_seq s < int64_max"
    and "id_UserID author \<in> u_user_id ` set (users s)" "''m_'' @ rid \<notin> m_message_id ` set (messages s)"
  shows "SendMessage no_faults sf rid chatID cmid author body fileID now s =
    (case messageByClientID s (id_UserID author) cmid of
       Some msg \<Rightarrow> (Inr (msg, no_event, False), s)
     | None \<Rightarrow>
         if chatID \<notin> c_chat_id ` set (chats s) then (Inl ErrChatNotFound, s)
         else case attachment_verdict fileID s of
                Inl e \<Rightarrow> (Inl e, s)
              | Inr att \<Rightarrow>
                  let msg = new_message rid (event_seq s + 1) chatID cmid author body att now
                  in (Inr (msg, \<lparr>ev_Seq = event_seq s + 1, ev_Type = EventMessageNew, ev_Payload = PMessage msg\<rparr>, True),
                      sent_state s sf fileID msg))"
  using reachable_store_ok [OF assms(1)] assms(2-) by (intro SendMessage_total) (simp_all add: store_ok_def)

theorem send_message_branches_witness:
  "SendMessage no_faults id ''5'' ''c_2'' ''b'' sample_author None '''' 9 (sample_chat id)
     = (Inl ErrChatNotFound, sample_chat id)"
  using send_message_branches [OF reachable_sample_chat [of id], of sample_author "''5''" "''c_2''" "''b''" None "''''" 9]
  by (simp add: sample_chat_value sample_paired_value sample_author_def messageByClientID_def)

section \<open>The log\<close>

text \<open>
  C3. Replay from a cursor is complete and exact. If a reader took the cursor \<open>c\<close> of a
  reachable store, then after any further run \<open>EventsSince\<close> from \<open>c\<close> returns exactly the
  events appended since, in order and with the payloads they were written with, and the
  messages among them are exactly the messages the history gained.
\<close>

theorem replay_from_cursor:
  assumes s: "reachable sf s" and c: "Cursor flt s = Inr c"
    and run: "(store_step sf)\<^sup>*\<^sup>* s t" and flt': "\<not> flt' ''query events''"
  shows "\<exists>new. events t = events s @ new \<and> EventsSince flt' c t = Inr (map stored new)
    \<and> history t = history s @ List.map_filter event_message new"
proof -
  note t = run_history [OF s run]
  have j: "journal_ok sf s" using reachable_store_ok [OF s] by (simp add: store_ok_def)
  from t(3) obtain new where new: "events t = events s @ new" by (auto simp: grows_def)
  have "EventsSince flt' c t = Inr (map stored new)"
    using j t(1) by (intro EventsSince_cursor [of s flt]) (simp_all add: journal_ok_def c new flt')
  with new history_events [OF j] history_events [OF t(1)] show ?thesis by auto
qed

theorem replay_from_cursor_witness:
  "\<exists>new. events (sample_sent id) = events (sample_chat id) @ new
    \<and> EventsSince no_faults 1 (sample_sent id) = Inr (map stored new)
    \<and> history (sample_sent id) = history (sample_chat id) @ List.map_filter event_message new"
proof (rule replay_from_cursor [OF reachable_sample_chat, of no_faults])
  show "Cursor no_faults (sample_chat id) = Inr 1"
    by (simp add: Cursor_def sample_chat_value)
qed (simp_all add: no_faults_def sample_run)

text \<open>
  C4. The log is in order and nothing on it is ever lost or rewritten: in a reachable store
  sequence numbers are positive, strictly increasing and bounded by the counter, every message
  event carries its own number and the message's row, and a further run only appends to
  the log and to the history.
\<close>

theorem log_append_only:
  assumes s: "reachable sf s" and run: "(store_step sf)\<^sup>*\<^sup>* s t"
  shows "sorted_wrt (<) (map e_seq (events t)) \<and> (\<forall>e \<in> set (events t). 0 < e_seq e \<and> e_seq e \<le> event_seq t)
    \<and> (\<forall>e \<in> set (events t). event_ok e)
    \<and> List.map_filter event_message (events t) = history t
    \<and> (\<exists>es ms. events t = events s @ es \<and> history t = history s @ ms)"
  using run_history [OF s run] history_events [of sf t] by (auto simp: journal_defs grows_def)

theorem log_append_only_witness:
  "sorted_wrt (<) (map e_seq (events (sample_sent id)))
    \<and> (\<exists>es ms. events (sample_sent id) = events (sample_chat id) @ es \<and> history (sample_sent id) = history (sample_chat id) @ ms)"
  using log_append_only [OF reachable_sample_chat sample_run, of id] by blast

section \<open>Paging\<close>

text \<open>
  C22. Paging backwards reaches every message exactly once: for every page size, reading a
  chat page by page, each time below the oldest message of the page before, ends after at most
  one read per message and yields the chat's whole history in order, and no read panics.
\<close>

theorem paging_covers_history:
  assumes "reachable sf s" "0 < limit" "limit < int64_max" "\<not> flt ''query messages''"
  shows "read_back (Suc (length (chat_history s chatID))) flt chatID 0 limit s = Some (chat_history s chatID)"
proof -
  have "journal_ok sf s" using reachable_store_ok [OF assms(1)] by (simp add: store_ok_def)
  moreover have "older s chatID 0 = chat_history s chatID" by (simp add: older_def)
  ultimately show ?thesis using read_back_older [of sf s limit flt chatID 0] assms(2-) by (simp del: read_back.simps)
qed

theorem paging_covers_history_witness:
  "read_back (Suc (length (chat_history (sample_sent id) ''c_1''))) no_faults ''c_1'' 0 1 (sample_sent id)
    = Some (chat_history (sample_sent id) ''c_1'')"
  by (rule paging_covers_history [OF reachable_sample_sent]) (simp_all add: no_faults_def)

text \<open>
  C23. \<open>ListMessages\<close> returns the newest messages of the chat below the bound, oldest first, at
  most \<open>limit\<close> of them, and \<open>hasMore\<close> exactly when older ones remain.
\<close>

theorem list_messages_page:
  assumes "reachable sf s" "0 \<le> limit" "limit < int64_max" "\<not> flt ''query messages''"
  shows "ListMessages flt chatID beforeSeq limit s =
    Some (Inr (drop (length (older s chatID beforeSeq) - nat limit) (older s chatID beforeSeq),
               int (length (older s chatID beforeSeq)) > limit))"
  using reachable_store_ok [OF assms(1)] assms(2-) by (intro ListMessages_eq [of sf]) (simp_all add: store_ok_def)

theorem list_messages_page_witness:
  "ListMessages no_faults ''c_1'' 0 0 (sample_chat id) =
    Some (Inr (drop (length (older (sample_chat id) ''c_1'' 0)) (older (sample_chat id) ''c_1'' 0),
               int (length (older (sample_chat id) ''c_1'' 0)) > 0))"
  using list_messages_page [OF reachable_sample_chat [of id], of 0 no_faults "''c_1''" 0] by (simp add: no_faults_def)

text \<open>
  C24. \<open>ListChats\<close> never panics and pages the matching chats: for a page number the wire can
  carry and any page size that multiplied by the number of chats stays in 64 bits, page \<open>n\<close> is
  the \<open>n\<close>-th block of the chats whose name contains the query up to case, most recent
  activity first, and \<open>hasMore\<close> says whether more follow.
\<close>

theorem list_chats_page:
  assumes "1 \<le> page" "page \<le> int64_max" "1 \<le> pageSize"
    and "int (length (chats s)) * pageSize \<le> int64_max" "\<not> flt ''query chats''"
  shows "ListChats flt sf page pageSize q s =
    Some (Inr (take (nat pageSize) (drop (nat ((page - 1) * pageSize)) (matching_chats sf q s)),
               page * pageSize < int (length (matching_chats sf q s))))"
  using assms by (rule ListChats_eq)

theorem list_chats_page_witness:
  "ListChats no_faults id int64_max 50 '''' (sample_chat id) =
    Some (Inr (take 50 (drop (nat ((int64_max - 1) * 50)) (matching_chats id '''' (sample_chat id))),
               int64_max * 50 < int (length (matching_chats id '''' (sample_chat id)))))"
  using list_chats_page [of int64_max 50 "sample_chat id" no_faults id "''''"]
  by (simp add: sample_chat_value sample_paired_value no_faults_def int64_max_def)

section \<open>Chats\<close>

text \<open>
  C25. Chat names stay unique up to case: in a reachable store, two chats whose names agree
  rune by rune up to Unicode simple folding are the same chat. \<open>unicode.SimpleFold\<close> is the
  parameter \<open>sf\<close>, of which only its documented orbits are used.
\<close>

theorem chat_names_unique:
  assumes "simple_fold sf" "reachable sf s" "c \<in> set (chats s)" "d \<in> set (chats s)"
    and "list_all2 (\<lambda>a b. b \<in> orbit_of sf a) (map fst (runes (c_name c))) (map fst (runes (c_name d)))"
  shows "c = d"
proof -
  have ok: "distinct (map c_name_ci (chats s))" "c_name_ci c = foldCase sf (c_name c)" "c_name_ci d = foldCase sf (c_name d)"
    using reachable_store_ok [OF assms(2)] assms(3,4) by (auto simp: store_ok_def journal_defs)
  moreover have "foldCase sf (c_name c) = foldCase sf (c_name d)"
    using simple_fold.foldCase_eq_iff [OF assms(1)] assms(5) by blast
  ultimately show ?thesis
    using assms(3,4) distinct_key_eq by metis
qed

lemma orbit_self: "r \<in> orbit_of sf r"
  unfolding orbit_of_def by (metis (mono_tags, lifting) funpow_0 mem_Collect_eq)

theorem chat_names_unique_witness:
  "hd (chats (sample_chat SimpleFold_table)) = hd (chats (sample_chat SimpleFold_table))
    \<and> c_name (hd (chats (sample_chat SimpleFold_table))) = ''General''"
  using chat_names_unique [OF go_fold.simple_fold_axioms reachable_sample_chat,
      of "hd (chats (sample_chat SimpleFold_table))" "hd (chats (sample_chat SimpleFold_table))"]
  by (simp add: sample_chat_value list_all2_refl orbit_self)

text \<open>
  \<open>CreateChat\<close> on every branch: a known chat id returns the stored chat unchanged (a
  repeat), a name that folds to a taken one is refused with no change, and otherwise the chat
  is stored under the given or generated id together with its \<open>chat.created\<close> event.
\<close>

theorem create_chat_branches:
  assumes "reachable sf s" "event_seq s < int64_max" "name \<noteq> ''''" "''c_'' @ rid \<notin> c_chat_id ` set (chats s)"
  shows "CreateChat no_faults sf rid i name lbl now s =
    (case List.find (\<lambda>c. i \<noteq> '''' \<and> c_chat_id c = i) (chats s) of
       Some c \<Rightarrow> (Inr (scanChat c, no_event, False), s)
     | None \<Rightarrow>
         if \<exists>c \<in> set (chats s). foldCase sf (c_name c) = foldCase sf name then (Inl ErrNameTaken, s)
         else
           let cid = (if i = '''' then ''c_'' @ rid else i);
               chat = \<lparr>ChatID = cid, Name = name, CreatedAt = now, CreatedByLabel = lbl,
                 LastMessagePreview = '''', LastActivityAt = now\<rparr>
           in (Inr (chat, \<lparr>ev_Seq = event_seq s + 1, ev_Type = EventChatCreated, ev_Payload = PChat chat\<rparr>, True),
               appended (s\<lparr>chats := chats s @
                 [\<lparr>c_chat_id = cid, c_name = name, c_name_ci = foldCase sf name, c_created_at = now,
                   c_created_by_label = lbl, c_last_activity_at = now, c_last_message_preview = ''''\<rparr>]\<rparr>)
                 EventChatCreated (PChat chat)))"
  using reachable_store_ok [OF assms(1)] assms(2-) foldCase_eq_Nil [of sf name]
  by (intro CreateChat_total) (simp_all add: store_ok_def)

theorem create_chat_branches_witness:
  "CreateChat no_faults id ''2'' ''c_9'' ''General'' ''User1000'' 5 (sample_chat id) = (Inl ErrNameTaken, sample_chat id)"
  using create_chat_branches [OF reachable_sample_chat [of id], where name = "''General''" and rid = "''2''"
      and i = "''c_9''" and lbl = "''User1000''" and now = 5]
  by (simp add: sample_chat_value sample_paired_value)

text \<open>
  \<open>RenameChat\<close> on every branch: an unknown chat is an error; the name it already has changes
  nothing and logs nothing; a name another chat holds up to case is refused; otherwise the
  chat carries the new name and the log one \<open>chat.updated\<close> event more. Changing only the
  case of a chat's own name is allowed.
\<close>

theorem rename_chat_branches:
  assumes "reachable sf s" "event_seq s < int64_max" "name \<noteq> ''''"
  shows "RenameChat no_faults sf chatID name s =
    (case List.find (\<lambda>c. c_chat_id c = chatID) (chats s) of
       None \<Rightarrow> (Inl ErrChatNotFound, s)
     | Some c \<Rightarrow>
         if c_name c = name then (Inr (scanChat c, no_event, False), s)
         else if \<exists>d \<in> set (chats s). foldCase sf (c_name d) = foldCase sf name \<and> c_chat_id d \<noteq> chatID
         then (Inl ErrNameTaken, s)
         else
           let chat = (scanChat c)\<lparr>Name := name\<rparr>
           in (Inr (chat, \<lparr>ev_Seq = event_seq s + 1, ev_Type = EventChatUpdated, ev_Payload = PChat chat\<rparr>, True),
               appended (s\<lparr>chats := update_where (\<lambda>c. c_chat_id c = chatID)
                 (\<lambda>c. c\<lparr>c_name := name, c_name_ci := foldCase sf name\<rparr>) (chats s)\<rparr>) EventChatUpdated (PChat chat)))"
  using reachable_store_ok [OF assms(1)] assms(2-) by (intro RenameChat_total) (simp_all add: store_ok_def)

theorem rename_chat_branches_witness:
  "RenameChat no_faults id ''c_2'' ''Other'' (sample_chat id) = (Inl ErrChatNotFound, sample_chat id)"
  using rename_chat_branches [OF reachable_sample_chat [of id], of "''Other''" "''c_2''"]
  by (simp add: sample_chat_value sample_paired_value)

section \<open>Files\<close>

text \<open>
  C26. An attachment belongs to one message. In a reachable store a message with a file refers
  to a stored, uploaded file bound to exactly that message, and two messages never
  share a file.
\<close>

theorem attachment_one_message:
  assumes "reachable sf s" "m \<in> set (messages s)" "m_file_id m = Some i"
  shows "(\<exists>f. file_by i (files s) = Some f \<and> f_uploaded f \<and> f_message_id f = Some (m_message_id m))
    \<and> (\<forall>m' \<in> set (messages s). m_file_id m' = Some i \<longrightarrow> m' = m)"
proof -
  have j: "messages_ok s" "files_ok s"
    using reachable_store_ok [OF assms(1)] by (simp_all add: store_ok_def journal_ok_def)
  obtain f where f: "file_by i (files s) = Some f" "f_message_id f = Some (m_message_id m)"
    by (rule messages_have_files [OF j assms(2,3)])
  have "f \<in> set (files s)" using f(1) by (simp add: file_by_def find_Some_iff) (metis nth_mem)
  then have "f_uploaded f" using j(2) f(2) by (auto simp: files_ok_def)
  moreover have "m' = m" if m': "m' \<in> set (messages s)" "m_file_id m' = Some i" for m'
  proof -
    obtain g where "file_by i (files s) = Some g" "f_message_id g = Some (m_message_id m')"
      by (rule messages_have_files [OF j m'])
    then have "m_message_id m' = m_message_id m" using f by simp
    then show ?thesis using j(1) assms(2) m'(1) distinct_key_eq unfolding messages_ok_def by metis
  qed
  ultimately show ?thesis using f by auto
qed

definition sample_upload :: "(rune \<Rightarrow> rune) \<Rightarrow> db" where
  "sample_upload sf = snd (MarkUploaded no_faults ''f_1''
     (snd (CreateUpload no_faults ''1'' ''a.png'' 3 ''image/png'' 4 (sample_chat sf))))"

lemma reachable_sample_upload: "reachable sf (sample_upload sf)"
  unfolding sample_upload_def by (intro reachable_step [OF _ store_step.intros(5)]
      reachable_step [OF _ store_step.intros(4)] reachable_sample_chat)

lemma sample_upload_value:
  "sample_upload sf = (sample_chat sf)\<lparr>files := [\<lparr>f_file_id = ''f_1'', f_name = ''a.png'', f_size = 3, f_mime = ''image/png'',
     f_created_at = 4, f_expires_at = 4 + attachmentLifetimeSeconds, f_uploaded = True, f_message_id = None\<rparr>]\<rparr>"
  by (simp add: sample_upload_def CreateUpload_def MarkUploaded_def sample_chat_value sample_paired_value Let_def
      file_by_def autocommit_def exec_def no_faults_def affected_def update_where_def)

lemma sample_attach:
  "SendMessage no_faults sf ''1'' ''c_1'' ''a'' sample_author None ''f_1'' 5 (sample_upload sf) =
    (let msg = new_message ''1'' 2 ''c_1'' ''a'' sample_author None
           (Some \<lparr>att_FileID = ''f_1'', att_Name = ''a.png'', att_Size = 3, att_Mime = ''image/png'',
              att_ExpiresAt = 4 + attachmentLifetimeSeconds\<rparr>) 5
     in (Inr (msg, \<lparr>ev_Seq = 2, ev_Type = EventMessageNew, ev_Payload = PMessage msg\<rparr>, True),
         sent_state (sample_upload sf) sf ''f_1'' msg))"
  using reachable_store_ok [OF reachable_sample_upload [of sf]]
    SendMessage_total [where s = "sample_upload sf" and sf = sf and author = sample_author and rid = "''1''" and chatID = "''c_1''"
      and cmid = "''a''" and body = None and fileID = "''f_1''" and now = 5]
  by (simp add: store_ok_def sample_upload_value sample_chat_value sample_paired_value sample_author_def messageByClientID_def
      attachment_verdict_def file_by_def attachment_of_def)

definition sample_attached :: "(rune \<Rightarrow> rune) \<Rightarrow> db" where
  "sample_attached sf = snd (SendMessage no_faults sf ''1'' ''c_1'' ''a'' sample_author None ''f_1'' 5 (sample_upload sf))"

lemma reachable_sample_attached: "reachable sf (sample_attached sf)"
  unfolding sample_attached_def by (intro reachable_step [OF _ store_step.intros(3)] reachable_sample_upload)

lemma sample_attached_message:
  "messages (sample_attached sf) = [\<lparr>m_message_id = ''m_1'', m_seq = 2, m_chat_id = ''c_1'', m_author_id = ''u_1'',
     m_author_label = ''User1000'', m_client_message_id = ''a'', m_sent_at = 5, m_body = None, m_file_id = Some ''f_1''\<rparr>]"
  unfolding sample_attached_def sample_attach Let_def
  by (simp add: sent_state_def new_row_def new_message_def sample_upload_value sample_chat_value sample_paired_value
      sample_author_def)

theorem attachment_one_message_witness:
  "\<exists>f. file_by ''f_1'' (files (sample_attached id)) = Some f \<and> f_uploaded f \<and> f_message_id f = Some ''m_1''"
  using attachment_one_message [OF reachable_sample_attached [of id], of "hd (messages (sample_attached id))" "''f_1''"]
  by (simp add: sample_attached_message)

text \<open>
  The orphan sweep removes exactly the files no message refers to that were registered
  before the cutoff, succeeds whenever the statement does, and no message changes.
\<close>

theorem orphan_sweep_exact:
  assumes "reachable sf s" "OrphanFiles flt cutoff s = Inr ids" "\<not> flt' ''delete file''"
  shows "DeleteFiles flt' ids s =
      (Inr (), s\<lparr>files := filter (\<lambda>f. \<not> (f_message_id f = None \<and> f_created_at f < cutoff)) (files s)\<rparr>)
    \<and> history (snd (DeleteFiles flt' ids s)) = history s"
  using orphan_sweep [of sf s flt cutoff ids flt'] reachable_store_ok [OF assms(1)] assms(2-) by (simp add: store_ok_def)

theorem orphan_sweep_exact_witness:
  "files (snd (DeleteFiles no_faults [''f_1''] (sample_upload id))) = []"
  using orphan_sweep_exact [OF reachable_sample_upload [of id], of no_faults 100 "[''f_1'']" no_faults]
  by (simp add: OrphanFiles_def sample_upload_value no_faults_def)

end
