(* ===== verification/Pairing_Properties.thy ===== *)
theory Pairing_Properties
  imports Store_Steps
begin

text \<open>
  Who gets in, and how: devices join through a live machine link or the allowance of a paired
  device, tokens work once, a revoked device loses everything that let it in or let it
  admit others.
\<close>

abbreviation device_keys :: "db \<Rightarrow> string set" where
  "device_keys s \<equiv> d_device_key ` set (devices s)"

section \<open>How a device joins\<close>

text \<open>
  The two ways in, as a relation between a database and its successor: device \<open>k\<close> spent a
  live machine link at \<open>now\<close>, or a paired device allowed the waiting request of \<open>k\<close> before
  its deadline.
\<close>

definition by_machine_link :: "db \<Rightarrow> db \<Rightarrow> string \<Rightarrow> bool" where
  "by_machine_link s s' k \<longleftrightarrow> (\<exists>t \<in> set (pair_tokens s). \<exists>t' \<in> set (pair_tokens s'). \<exists>now.
     unspent_machine t \<and> now < t_expires_at t \<and> t_token t' = t_token t
     \<and> t_used_at t' = Some now \<and> t_used_by t' = Some k)"

definition by_allowance :: "db \<Rightarrow> db \<Rightarrow> string \<Rightarrow> bool" where
  "by_allowance s s' k \<longleftrightarrow> (\<exists>r \<in> set (pair_requests s). \<exists>r' \<in> set (pair_requests s'). \<exists>now.
     r_device_key r = k \<and> r_outcome r = None \<and> now < r_expires_at r \<and> r_issuer_key r \<in> device_keys s
     \<and> r_request_id r' = r_request_id r \<and> r_outcome r' = Some OutcomeAllowed \<and> r_decided_at r' = Some now)"

lemma Pair_devices:
  assumes ok: "pairing_ok s" and new: "k \<in> device_keys (snd (Pair flt rid draws token dk p now s))" "k \<notin> device_keys s"
  shows "by_machine_link s (snd (Pair flt rid draws token dk p now s)) k"
proof (cases "Pair flt rid draws token dk p now s")
  case (Pair res s')
  have inv: "pairing_inv {} s" using ok by (simp add: pairing_ok_def)
  from inv Pair have "by_machine_link s s' k"
  proof (cases rule: Pair_cases)
    case (joined t pt i)
    note j = pairByMachineLink_joined [OF inv joined(1) _ joined(3) _ joined(6)]
    have k: "k = dk" using new Pair j(5) joined(2,4,5) by auto
    have "t\<lparr>t_used_at := Some now, t_used_by := Some k, t_paired_user_id := Some (id_UserID i), t_created_person := id_Created i\<rparr>
        \<in> set (pair_tokens s')"
      using j(4) joined(1,2,4,5) k by (auto simp: in_update_where)
    then show ?thesis
      unfolding by_machine_link_def using joined(1-5) j(1,2)
      by (intro bexI [of _ t] bexI [of _ "t\<lparr>t_used_at := Some now, t_used_by := Some k, t_paired_user_id := Some (id_UserID i),
            t_created_person := id_Created i\<rparr>"] exI [of _ now]) (simp_all add: unspent_machine_def)
  qed (use new Pair in simp_all)
  with Pair show ?thesis by simp
qed

lemma Decide_devices:
  assumes ok: "pairing_ok s" and new: "k \<in> device_keys (snd (DecidePairRequest flt i ik allow now s))" "k \<notin> device_keys s"
  shows "by_allowance s (snd (DecidePairRequest flt i ik allow now s)) k"
proof (cases "DecidePairRequest flt i ik allow now s")
  case (Pair res s')
  have inv: "pairing_inv {} s" using ok by (simp add: pairing_ok_def)
  from inv Pair have "by_allowance s s' k"
  proof (cases rule: Decide_cases)
    case (allowed r u ds)
    have "k = r_device_key r"
      using new Pair allowed(11) insertDevice_Inr(3) [OF allowed(10)] by (auto simp: allow_tables_def)
    moreover have "r\<lparr>r_outcome := Some OutcomeAllowed, r_decided_at := Some now\<rparr> \<in> set (pair_requests s')"
      using allowed(1,3,11) by (auto simp: allow_tables_def in_update_where)
    ultimately show ?thesis
      unfolding by_allowance_def using allowed(1-7)
      by (intro bexI [of _ r] bexI [of _ "r\<lparr>r_outcome := Some OutcomeAllowed, r_decided_at := Some now\<rparr>"] exI [of _ now]) simp_all
  qed (use new Pair in simp_all)
  with Pair show ?thesis by simp
qed

lemma keys_update: "(\<And>d. d_device_key (g d) = d_device_key d) \<Longrightarrow>
   d_device_key ` set (update_where P g ds) = d_device_key ` set (ds :: device_row list)"
  by (subst (1 2) set_map [symmetric], subst map_update_where_key) simp_all

lemma insertMachineLink_devices: "insertMachineLink flt tok now s = Inr (l, s') \<Longrightarrow> devices s' = devices s"
  by (drule insertMachineLink_Inr(3)) simp

lemma closeRequest_devices: "closeRequest flt r out now s = Inr (r', s') \<Longrightarrow> devices s' = devices s"
  by (simp add: closeRequest_Inr)

lemma closeAll_devices: "closeAll flt out now rs s = Inr (rs', s') \<Longrightarrow> devices s' = devices s"
  by (induction rs arbitrary: s rs') (auto split: prod.splits dest!: closeRequest_devices)

lemma devices_kept:
  "devices (snd (IssueMachineLink flt tok now s)) = devices s"
  "devices (snd (PageMachineLink flt tok now snap s)) = devices s"
  "devices (snd (IssueDeviceInvite flt tok issuer now s)) = devices s"
  "devices (snd (CancelPairRequest flt token k now s)) = devices s"
  "devices (snd (SetLabel flt u label s)) = devices s"
  "device_keys (snd (ResolveIdentity flt k now s)) = device_keys s"
proof -
  note t = transact_invariant [where P = "\<lambda>t. devices t = devices s"]
  show "devices (snd (IssueMachineLink flt tok now s)) = devices s"
    unfolding IssueMachineLink_def by (rule t) (auto split: prod.splits dest: insertMachineLink_devices)
  show "devices (snd (CancelPairRequest flt token k now s)) = devices s"
    unfolding CancelPairRequest_def by (rule t) (auto split: option.splits if_splits prod.splits dest: closeRequest_devices)
  show "devices (snd (IssueDeviceInvite flt tok issuer now s)) = devices s"
    by (simp add: IssueDeviceInvite_def Let_def split: sum.splits option.splits)
  show "devices (snd (SetLabel flt u label s)) = devices s"
    by (simp add: SetLabel_def autocommit_def exec_def)
  show "device_keys (snd (ResolveIdentity flt k now s)) = device_keys s"
  proof -
    have "device_keys t = device_keys s" if "touchDevice flt k now s = Inr t" for t
      using that keys_update [of "\<lambda>d. d\<lparr>d_last_seen_at := now\<rparr>" "\<lambda>d. d_device_key d = k" "devices s"]
      by (auto simp: touchDevice_def)
    then show ?thesis unfolding ResolveIdentity_def
      by (intro transact_invariant [where P = "\<lambda>t. device_keys t = device_keys s"]) (simp_all split: option.splits if_splits, blast)
  qed
  have "devices (snd (transact flt ''begin mint machine link'' (\<lambda>s.
                 onOk (pageLinkState flt s) (\<lambda>page.
                 onOk (if \<not> pl_Found page \<and> pl_Devices page = 0
                       then onOk (insertMachineLink flt tok now s) (\<lambda>(link, s1).
                              Inr (page\<lparr>pl_Link := link, pl_Found := True\<rparr>, s1))
                       else Inr (page, s)) (\<lambda>(page, s1).
                 commit flt ''commit mint machine link'' page s1))) s)) = devices s"
    by (rule t) (auto split: prod.splits if_splits dest: insertMachineLink_devices)
  then show "devices (snd (PageMachineLink flt tok now snap s)) = devices s"
    by (simp add: PageMachineLink_def split: sum.splits)
qed

lemma Expire_devices: "devices (snd (ExpirePairRequests flt now snap s)) = devices s"
proof -
  have "devices (snd (transact flt ''begin expire pairing requests'' (\<lambda>s.
           onOk (query flt ''list expired pairing requests'' (collectRequests (filter P (pair_requests s)))) (\<lambda>expired.
           onOk (closeAll flt (\<lambda>_. OutcomeExpired) now expired s) (\<lambda>(closed, s1).
           commit flt ''commit expire pairing requests'' closed s1))) s)) = devices s" for P
    by (rule transact_invariant [where P = "\<lambda>t. devices t = devices s"]) (auto split: prod.splits dest: closeAll_devices)
  then show ?thesis by (simp add: ExpirePairRequests_def Let_def)
qed

lemma revoke_devices: "pairing_ok s \<Longrightarrow> device_keys (snd (revokeDevice flt caller k now s)) \<subseteq> device_keys s"
proof (cases "revokeDevice flt caller k now s")
  case (Pair res s')
  assume "pairing_ok s"
  then have inv: "pairing_inv {} s" by (simp add: pairing_ok_def)
  then have "device_keys s' \<subseteq> device_keys s" using Pair
  proof (cases rule: revoke_cases)
    case (revoked closed s2)
    have "devices s' = devices s2" using revoked(5) by (simp add: Let_def)
    also have "\<dots> = filter (\<lambda>d. d_device_key d \<noteq> k) (devices s)"
      using closeRequestsOf_Inr(3) [OF remove_device_ok [OF inv] revoked(4)] by simp
    finally show ?thesis by auto
  qed simp
  with Pair show ?thesis by simp
qed

lemma machine_devices:
  "devices (snd (EnsureServerIdentity flt keys s)) = devices s"
  "device_keys (snd (ServerKey flt keys snap s)) \<subseteq> device_keys s"
  "devices (snd (SetAddress flt kind v s)) = devices s" "devices (snd (ApplyAddressParam flt kind v p s)) = devices s"
  "devices (snd (EnsureJournal flt rid s)) = devices s" "devices (snd (RotateJournal flt rid s)) = devices s"
proof -
  have "device_keys (snd (rekeyServerIdentity flt pub s)) \<subseteq> device_keys s" for pub
  proof (cases "rekeyServerIdentity flt pub s")
    case (Pair r t)
    then have "device_keys t \<subseteq> device_keys s" by (cases rule: rekey_cases) simp_all
    with Pair show ?thesis by simp
  qed
  then show "device_keys (snd (ServerKey flt keys snap s)) \<subseteq> device_keys s"
    using ServerKey_state [of flt keys snap s] by (metis order_refl)
qed (subst EnsureServerIdentity_shape machine_row_only, simp)+

text \<open>
  C5. A device key comes into the store only in one of two ways: by spending a live machine
  link, or by the allowance, before the deadline, of the paired device that issued the
  invite. No other operation, no failure and no restart ever adds one.
\<close>

theorem device_joins_two_ways:
  assumes "reachable sf s" "store_step sf s s'" "k \<in> device_keys s'" "k \<notin> device_keys s"
  shows "by_machine_link s s' k \<or> by_allowance s s' k"
proof -
  have ok: "pairing_ok s" and j: "journal_ok sf s"
    using reachable_store_ok [OF assms(1)] by (simp_all add: store_ok_def)
  note same = journal_ops_pairing [unfolded same_pairing_def] devices_kept Expire_devices machine_devices
  show ?thesis
    using assms(2)
  proof cases
    case (Pair flt rid draws token dk p now)
    then show ?thesis using Pair_devices [OF ok] assms(3,4) by auto
  next
    case (DecidePairRequest flt i ik allow now)
    then show ?thesis using Decide_devices [OF ok] assms(3,4) by auto
  next
    case (RevokeDevice flt dk now)
    then show ?thesis using revoke_devices [OF ok] assms(3,4) unfolding RevokeDevice_def by blast
  next
    case (RevokeDeviceAs flt c dk now)
    then show ?thesis using revoke_devices [OF ok] assms(3,4) unfolding RevokeDeviceAs_def by blast
  next
    case (ServerKey flt keys snap)
    then show ?thesis using machine_devices(2) assms(3,4) by blast
  qed (use assms(3,4) j in \<open>simp_all add: same\<close>)
qed

theorem device_joins_two_ways_witness:
  "by_machine_link (snd (IssueMachineLink no_faults ''tok'' 0 empty_db)) sample_paired ''phone''
    \<or> by_allowance (snd (IssueMachineLink no_faults ''tok'' 0 empty_db)) sample_paired ''phone''"
proof (rule device_joins_two_ways)
  show "reachable id (snd (IssueMachineLink no_faults ''tok'' 0 empty_db))"
    by (intro reachable_step [OF _ store_step.IssueMachineLink] reachable_empty)
  show "store_step id (snd (IssueMachineLink no_faults ''tok'' 0 empty_db)) sample_paired"
    unfolding sample_paired_def by (rule store_step.Pair)
  show "''phone'' \<notin> device_keys (snd (IssueMachineLink no_faults ''tok'' 0 empty_db))"
    by (simp add: devices_kept empty_db_def)
qed (simp add: sample_paired_value)

section \<open>Tokens work once\<close>

lemma frozen_update:
  assumes "distinct (map t_token ts)" "x \<in> set ts" "\<not> P x"
    and "\<And>t. t_token (g t) = t_token t" and "x' \<in> set (update_where P g ts)" "t_token x' = t_token x"
  shows "x' = x"
proof -
  obtain y where y: "y \<in> set ts" "x' = (if P y then g y else y)" using assms(5) unfolding in_update_where by blast
  then have "t_token y = t_token x" using assms(4,6) by (auto split: if_splits)
  then have "y = x" using distinct_key_eq [OF assms(1) y(1) assms(2)] by simp
  then show ?thesis using y(2) assms(3) by simp
qed

text \<open>\<open>frozen s s'\<close>: every spent token of \<open>s\<close> that is still there is unchanged in \<open>s'\<close>.\<close>

definition frozen :: "db \<Rightarrow> db \<Rightarrow> bool" where
  "frozen s s' \<longleftrightarrow> (\<forall>t \<in> set (pair_tokens s). \<forall>t' \<in> set (pair_tokens s').
     t_used_at t \<noteq> None \<longrightarrow> t_token t' = t_token t \<longrightarrow> t' = t)"

lemma token_keys_distinct: "pairing_inv X s \<Longrightarrow> distinct (map t_token (pair_tokens s))"
  by (simp add: pairing_inv_def tokens_ok_def)

lemma frozen_same: "pairing_inv X s \<Longrightarrow> pair_tokens s' = pair_tokens s \<Longrightarrow> frozen s s'"
  by (auto simp: frozen_def dest: distinct_key_eq [OF token_keys_distinct])

lemma frozen_upd:
  assumes "distinct (map t_token (pair_tokens s))" "pair_tokens s' = update_where P g (pair_tokens s)"
    and "\<And>t. t \<in> set (pair_tokens s) \<Longrightarrow> P t \<Longrightarrow> t_used_at t = None" "\<And>t. t_token (g t) = t_token t"
  shows "frozen s s'"
  unfolding frozen_def
proof (intro ballI impI)
  fix t t' assume t: "t \<in> set (pair_tokens s)" "t' \<in> set (pair_tokens s')" "t_used_at t \<noteq> None" "t_token t' = t_token t"
  then have "\<not> P t" using assms(3) by auto
  then show "t' = t" using frozen_update [OF assms(1) t(1)] assms(2,4) t(2,4) by metis
qed

lemma frozen_void: "distinct (map t_token (pair_tokens s)) \<Longrightarrow> frozen s (void_tokens P now s)"
  by (rule frozen_upd [where P = "\<lambda>t. P t \<and> t_used_at t = None" and g = "\<lambda>t. t\<lparr>t_used_at := Some now\<rparr>"])
    (simp_all add: void_tokens_def)

lemma frozen_close: "distinct (map t_token (pair_tokens s)) \<Longrightarrow> frozen s (close_tables i tok k out now s)"
  by (rule frozen_upd [where P = "\<lambda>t. t_token t = tok \<and> t_used_at t = None"
        and g = "\<lambda>t. t\<lparr>t_used_at := Some now, t_used_by := Some k\<rparr>"])
    (simp_all add: close_tables_tables)

lemma frozen_append:
  assumes "frozen s s1" "t_token t \<notin> t_token ` set (pair_tokens s)" "pair_tokens s' = pair_tokens s1 @ [t]"
  shows "frozen s s'"
  using assms by (auto simp: frozen_def)

lemma frozen_trans:
  assumes "frozen s s1" "frozen s1 s2" "t_token ` set (pair_tokens s2) \<subseteq> t_token ` set (pair_tokens s1)"
  shows "frozen s s2"
  unfolding frozen_def
proof (intro ballI impI)
  fix t t2 assume t: "t \<in> set (pair_tokens s)" "t2 \<in> set (pair_tokens s2)" "t_used_at t \<noteq> None" "t_token t2 = t_token t"
  then have "t_token t2 \<in> t_token ` set (pair_tokens s1)" using assms(3) by blast
  then obtain t1 where t1: "t1 \<in> set (pair_tokens s1)" "t_token t1 = t_token t2" by (metis imageE)
  then have "t1 = t" using assms(1) t unfolding frozen_def by metis
  then show "t2 = t" using assms(2) t t1 unfolding frozen_def by metis
qed

lemma void_keys: "t_token ` set (pair_tokens (void_tokens P now s)) = t_token ` set (pair_tokens s)"
  unfolding void_tokens_def by (simp flip: set_map add: distinct_token_update)

lemma close_keys: "t_token ` set (pair_tokens (close_tables i tok k out now s)) = t_token ` set (pair_tokens s)"
  unfolding close_tables_tables by (simp flip: set_map add: distinct_token_update)

lemma void_distinct:
  "distinct (map t_token (pair_tokens s)) \<Longrightarrow> distinct (map t_token (pair_tokens (void_tokens P now s)))"
  unfolding void_tokens_def by (simp add: distinct_token_update)

lemma closeAll_frozen:
  assumes "pairing_inv X s" "waiting_rows s rs" "closeAll flt out now rs s = Inr (rs', s')"
    "\<forall>r. Some (out r) \<in> outcomes \<and> out r \<noteq> OutcomeAllowed"
  shows "frozen s s' \<and> t_token ` set (pair_tokens s') \<subseteq> t_token ` set (pair_tokens s)"
  using assms
proof (induction rs arbitrary: s rs')
  case (Cons r rs)
  obtain q where q: "q \<in> set (pair_requests s)" "r_outcome q = None" "r = scanRequest q"
    using Cons.prems(2) by (auto simp: waiting_rows_def)
  let ?s1 = "close_tables (r_request_id q) (r_token q) (r_device_key q) (out r) now s"
  obtain rs'' where r: "closeAll flt out now rs ?s1 = Inr (rs'', s')"
    using Cons.prems(3) q(3) by (auto simp: closeRequest_Inr split: prod.splits)
  have inv: "pairing_inv X ?s1" using close_tables_ok [OF Cons.prems(1) q(1,2)] Cons.prems(4) by blast
  have w: "waiting_rows ?s1 rs" using waiting_rows_step Cons.prems(2) q(3) by blast
  from Cons.IH [OF inv w r Cons.prems(4)] have "frozen ?s1 s'" "t_token ` set (pair_tokens s') \<subseteq> t_token ` set (pair_tokens ?s1)"
    by blast+
  then show ?case using frozen_trans [OF frozen_close [OF token_keys_distinct [OF Cons.prems(1)]]] close_keys by metis
qed (auto intro: frozen_same)

lemma insertMachineLink_frozen:
  assumes "pairing_inv X s" "insertMachineLink flt tok now s = Inr (l, s')"
  shows "frozen s s'"
proof (rule frozen_append [OF frozen_void [OF token_keys_distinct [OF assms(1)], of "\<lambda>t. t_kind t = TokenMachine" now]])
  show "pair_tokens s' = pair_tokens (void_tokens (\<lambda>t. t_kind t = TokenMachine) now s) @
      [\<lparr>t_token = tok, t_kind = TokenMachine, t_user_id = None, t_issuer_key = None,
               t_created_at = now, t_expires_at = now + TokenTTLSeconds, t_used_at = None, t_used_by = None,
               t_paired_user_id = None, t_created_person = False\<rparr>]"
    by (subst insertMachineLink_Inr(3) [OF assms(2)]) simp
qed (use insertMachineLink_Inr(2) [OF assms(2)] in simp)

lemma transact_frozen:
  assumes "pairing_inv X s" "\<And>x t. body s = Inr (x, Some t) \<Longrightarrow> frozen s t"
  shows "frozen s (snd (transact flt l body s))"
  using transact_invariant [of "frozen s" s flt l body] assms frozen_same by blast

lemma Pair_frozen:
  assumes inv: "pairing_inv {} s"
  shows "frozen s (snd (Pair flt rid draws token k p now s))"
proof (cases "Pair flt rid draws token k p now s")
  case (Pair res s')
  have dist: "distinct (map t_token (pair_tokens s))" by (rule token_keys_distinct [OF inv])
  from inv Pair have "frozen s s'"
  proof (cases rule: Pair_cases)
    case (joined t pt i)
    have a: "t_token t = pt_token pt" "pt_expiresAt pt = t_expires_at t" using joined by simp_all
    note j = pairByMachineLink_joined [OF inv joined(1) a(1) joined(3) a(2) joined(6)]
    have only: "\<forall>x \<in> set (pair_tokens s). t_token x = token \<longrightarrow> x = t"
      by (rule machine_token_row [OF inv joined(1-3)])
    then have "t_used_at x = None" if "x \<in> set (pair_tokens s)" "t_token x = pt_token pt" for x
      using that j(1) joined(5) by metis
    then show ?thesis by (intro frozen_upd [OF dist j(4)]) simp_all
  qed (use frozen_same [OF inv] frozen_close [OF dist] in simp_all)
  with Pair show ?thesis by simp
qed

lemma Decide_frozen:
  assumes inv: "pairing_inv {} s"
  shows "frozen s (snd (DecidePairRequest flt i k allow now s))"
proof (cases "DecidePairRequest flt i k allow now s")
  case (Pair res s')
  have dist: "distinct (map t_token (pair_tokens s))" by (rule token_keys_distinct [OF inv])
  from inv Pair have "frozen s s'"
  proof (cases rule: Decide_cases)
    case (allowed r u ds)
    have "\<forall>t \<in> set (pair_tokens s). t_token t = r_token r \<longrightarrow> t_used_at t = None"
      using inv allowed(1,3) by (auto simp: pairing_inv_def requests_ok_def agree_def)
    then show ?thesis
      by (intro frozen_upd [OF dist, where P = "\<lambda>t. t_token t = r_token r" and
            g = "\<lambda>t. t\<lparr>t_used_at := Some now, t_used_by := Some (r_device_key r), t_paired_user_id := Some (u_user_id u),
                 t_created_person := False\<rparr>"]) (simp_all add: allowed(11) allow_tables_def)
  qed (use frozen_same [OF inv] frozen_close [OF dist] in simp_all)
  with Pair show ?thesis by simp
qed

lemma closeRequestsOf_frozen:
  assumes inv: "pairing_inv X s" and c: "closeRequestsOf flt k now s = Inr (closed, s')"
  shows "frozen s s' \<and> t_token ` set (pair_tokens s') \<subseteq> t_token ` set (pair_tokens s)"
proof -
  let ?P = "\<lambda>r. (r_issuer_key r = k \<or> r_device_key r = k) \<and> r_outcome r = None"
  have "waiting_rows s (collectRequests (filter ?P (pair_requests s)))" by (rule collect_waiting [OF inv]) simp
  moreover have "closeAll flt (\<lambda>r. if pr_ExpiresAt r \<le> now then OutcomeExpired else OutcomeDenied) now
      (collectRequests (filter ?P (pair_requests s))) s = Inr (closed, s')"
    using c by (simp add: closeRequestsOf_def)
  ultimately show ?thesis by (rule closeAll_frozen [OF inv]) (simp add: outcomes_def)
qed

lemma revoke_frozen:
  assumes inv: "pairing_inv {} s"
  shows "frozen s (snd (revokeDevice flt caller k now s))"
proof (cases "revokeDevice flt caller k now s")
  case (Pair res s')
  have dist: "distinct (map t_token (pair_tokens s))" by (rule token_keys_distinct [OF inv])
  from inv Pair have "frozen s s'"
  proof (cases rule: revoke_cases)
    case (revoked closed s2)
    let ?s1 = "s\<lparr>devices := filter (\<lambda>d. d_device_key d \<noteq> k) (devices s)\<rparr>"
    have inv1: "pairing_inv {k} ?s1" by (rule remove_device_ok [OF inv])
    have inv2: "pairing_inv {k} s2" by (rule closeRequestsOf_Inr(1) [OF inv1 revoked(4)])
    have f1: "frozen ?s1 s2 \<and> t_token ` set (pair_tokens s2) \<subseteq> t_token ` set (pair_tokens ?s1)"
      by (rule closeRequestsOf_frozen [OF inv1 revoked(4)])
    then have f1': "frozen s s2" by (simp add: frozen_def)
    have dist2: "distinct (map t_token (pair_tokens s2))" by (rule token_keys_distinct [OF inv2])
    let ?s3 = "void_tokens (\<lambda>t. t_issuer_key t = Some k) now s2"
    have f2: "frozen s ?s3" by (rule frozen_trans [OF f1' frozen_void [OF dist2]]) (simp add: void_keys)
    have "frozen s (void_tokens P now ?s3)" for P
      by (rule frozen_trans [OF f2 frozen_void [OF void_distinct [OF dist2]]]) (simp add: void_keys)
    with f2 show ?thesis using revoked(5) by (simp add: Let_def)
  qed (use frozen_same [OF inv] in simp)
  with Pair show ?thesis by simp
qed

lemma link_ops_frozen:
  assumes inv: "pairing_inv {} s"
  shows "frozen s (snd (IssueMachineLink flt tok now s))" "frozen s (snd (PageMachineLink flt tok now snap s))"
    and "frozen s (snd (IssueDeviceInvite flt tok issuer now s))"
proof -
  show "frozen s (snd (IssueMachineLink flt tok now s))"
    unfolding IssueMachineLink_def
    by (rule transact_frozen [OF inv]) (auto split: prod.splits intro: insertMachineLink_frozen [OF inv])
  have "frozen s (snd (transact flt ''begin mint machine link'' (\<lambda>s.
                 onOk (pageLinkState flt s) (\<lambda>page.
                 onOk (if \<not> pl_Found page \<and> pl_Devices page = 0
                       then onOk (insertMachineLink flt tok now s) (\<lambda>(link, s1).
                              Inr (page\<lparr>pl_Link := link, pl_Found := True\<rparr>, s1))
                       else Inr (page, s)) (\<lambda>(page, s1).
                 commit flt ''commit mint machine link'' page s1))) s))"
    by (rule transact_frozen [OF inv])
      (auto split: prod.splits if_splits intro: insertMachineLink_frozen [OF inv] frozen_same [OF inv])
  then show "frozen s (snd (PageMachineLink flt tok now snap s))"
    using frozen_same [OF inv] by (simp add: PageMachineLink_def split: sum.splits)
  have f: "frozen s s" by (rule frozen_same [OF inv]) simp
  show "frozen s (snd (IssueDeviceInvite flt tok issuer now s))"
    using f frozen_append [OF f, of _ "s\<lparr>pair_tokens := pair_tokens s @ [_]\<rparr>"]
    by (simp add: IssueDeviceInvite_def Let_def newTokenValue_def query_def token_by_None split: sum.splits option.splits)
qed

lemma request_ops_frozen:
  assumes inv: "pairing_inv {} s"
  shows "frozen s (snd (CancelPairRequest flt token k now s))" "frozen s (snd (ExpirePairRequests flt now snap s))"
proof -
  show "frozen s (snd (CancelPairRequest flt token k now s))"
    unfolding CancelPairRequest_def
    by (rule transact_frozen [OF inv])
      (auto simp: closeRequest_Inr split: option.splits if_splits prod.splits intro: frozen_close [OF token_keys_distinct [OF inv]])
  have "frozen s (snd (transact flt ''begin expire pairing requests'' (\<lambda>s.
           onOk (query flt ''list expired pairing requests'' (collectRequests (filter (\<lambda>r. r_outcome r = None \<and> r_expires_at r \<le> now) (pair_requests s)))) (\<lambda>expired.
           onOk (closeAll flt (\<lambda>_. OutcomeExpired) now expired s) (\<lambda>(closed, s1).
           commit flt ''commit expire pairing requests'' closed s1))) s))"
    by (rule transact_frozen [OF inv])
      (auto split: prod.splits simp: outcomes_def dest!: closeAll_frozen [OF inv, rotated] intro!: collect_waiting [OF inv])
  then show "frozen s (snd (ExpirePairRequests flt now snap s))"
    using frozen_same [OF inv] by (simp add: ExpirePairRequests_def Let_def)
qed

lemma tokens_kept:
  "pair_tokens (snd (SetLabel flt u label s)) = pair_tokens s"
  "pair_tokens (snd (ResolveIdentity flt k now s)) = pair_tokens s"
  "pair_tokens (snd (EnsureServerIdentity flt keys s)) = pair_tokens s"
  "pair_tokens (snd (SetAddress flt kind v s)) = pair_tokens s" "pair_tokens (snd (ApplyAddressParam flt kind v p s)) = pair_tokens s"
  "pair_tokens (snd (EnsureJournal flt rid s)) = pair_tokens s" "pair_tokens (snd (RotateJournal flt rid s)) = pair_tokens s"
proof -
  show "pair_tokens (snd (ResolveIdentity flt k now s)) = pair_tokens s"
    unfolding ResolveIdentity_def
    by (rule transact_invariant [where P = "\<lambda>t. pair_tokens t = pair_tokens s"])
      (auto simp: touchDevice_def split: option.splits if_splits)
qed (simp add: SetLabel_def autocommit_def exec_def, (subst EnsureServerIdentity_shape machine_row_only, simp)+)

lemma ServerKey_frozen:
  assumes inv: "pairing_inv {} s"
  shows "frozen s (snd (ServerKey flt keys snap s))"
proof -
  have "frozen s (snd (rekeyServerIdentity flt pub s))" for pub
  proof (cases "rekeyServerIdentity flt pub s")
    case (Pair r t)
    then have "frozen s t" by (cases rule: rekey_cases) (use frozen_same [OF inv] in \<open>simp_all add: frozen_def\<close>)
    with Pair show ?thesis by simp
  qed
  then show ?thesis using ServerKey_state [of flt keys snap s] frozen_same [OF inv, of s] by metis
qed

text \<open>
  C27. A pairing token works once: once spent or voided, its row never changes again while it
  exists. Whatever operation runs, a token spent by one device is never handed to another, and
  the outcome recorded on it is never rewritten.
\<close>

theorem spent_token_frozen:
  assumes "reachable sf s" "store_step sf s s'"
    and "t \<in> set (pair_tokens s)" "t_used_at t \<noteq> None" "t' \<in> set (pair_tokens s')" "t_token t' = t_token t"
  shows "t' = t"
proof -
  have inv: "pairing_inv {} s" and j: "journal_ok sf s"
    using reachable_store_ok [OF assms(1)] by (simp_all add: store_ok_def pairing_ok_def)
  from assms(2) have "frozen s s'"
    by cases (use j in \<open>simp_all add: RevokeDevice_def RevokeDeviceAs_def frozen_same [OF inv] link_ops_frozen [OF inv]
        request_ops_frozen [OF inv] tokens_kept ServerKey_frozen [OF inv] Pair_frozen [OF inv] Decide_frozen [OF inv]
        revoke_frozen [OF inv] journal_ops_pairing [unfolded same_pairing_def]\<close>)
  then show ?thesis using assms(3-) by (auto simp: frozen_def)
qed

theorem spent_token_frozen_witness:
  "hd (pair_tokens (snd (RevokeDevice no_faults ''phone'' 700 sample_paired))) = hd (pair_tokens sample_paired)"
proof (rule spent_token_frozen [OF reachable_sample_paired [of id] store_step.RevokeDevice])
  show "hd (pair_tokens sample_paired) \<in> set (pair_tokens sample_paired)" "t_used_at (hd (pair_tokens sample_paired)) \<noteq> None"
    by (simp_all add: sample_paired_value)
  show "hd (pair_tokens (snd (RevokeDevice no_faults ''phone'' 700 sample_paired)))
      \<in> set (pair_tokens (snd (RevokeDevice no_faults ''phone'' 700 sample_paired)))"
    "t_token (hd (pair_tokens (snd (RevokeDevice no_faults ''phone'' 700 sample_paired)))) = t_token (hd (pair_tokens sample_paired))"
    unfolding sample_paired_value by code_simp+
qed

lemma reachable_pairing: "reachable sf s \<Longrightarrow> pairing_inv {} s"
  using reachable_store_ok by (auto simp: store_ok_def pairing_ok_def)

text \<open>
  C28. A spent machine link admits nobody else: presented by any device but the one that
  spent it, and also after it was voided, it is refused as invalid and nothing changes; a
  link that ran out unspent is refused as expired and nothing changes.
\<close>

theorem dead_link_refused:
  assumes "reachable sf s" "t \<in> set (pair_tokens s)" "t_kind t = TokenMachine"
    and "t_used_at t \<noteq> None \<and> t_used_by t \<noteq> Some k \<or> t_used_at t = None \<and> t_expires_at t \<le> now"
  shows "Pair no_faults rid draws (t_token t) k platform now s =
    (Inl (if t_used_at t = None then ErrTokenExpired else ErrTokenInvalid), s)"
proof -
  have "token_by (t_token t) (pair_tokens s) = Some t"
    using token_by_Some [OF token_keys_distinct [OF reachable_pairing [OF assms(1)]]] assms(2) by blast
  then show ?thesis using assms(3,4)
    by (auto simp: Pair_def transact_def no_faults_def readToken_def pairByMachineLink_def pairedBy_def query_def onOk_def
        split: option.splits)
qed

theorem dead_link_refused_witness:
  "Pair no_faults ''2'' (\<lambda>_. 0) ''tok'' ''other'' ''ios'' 5 sample_paired = (Inl ErrTokenInvalid, sample_paired)"
  using dead_link_refused [OF reachable_sample_paired [of id], of "hd (pair_tokens sample_paired)" "''other''" 5 "''2''" "\<lambda>_. 0" "''ios''"]
  by (simp add: sample_paired_value TokenMachine_def)

lemma user_by_self:
  assumes "length us \<le> 1" "u \<in> set us"
  shows "user_by (u_user_id u) us = Some u"
  using assms by (cases us) (auto simp: user_by_def)

lemma joined_again:
  assumes inv: "pairing_inv {} s" "pairing_inv {} s'"
    and t: "t \<in> set (pair_tokens s)" "t_token t = token" "t_kind t = TokenMachine" "t_expires_at t = pt_expiresAt pt" "pt_token pt = token"
    and p: "pairByMachineLink flt rid draws pt k platform now s = Inr ((i, True), s')"
  shows "pairedBy no_faults token k s' = Inr (Some i)"
proof -
  have a: "t_token t = pt_token pt" "pt_expiresAt pt = t_expires_at t" using t by simp_all
  note j = pairByMachineLink_joined [OF inv(1) t(1) a(1) t(3) a(2) p]
  let ?t = "t\<lparr>t_used_at := Some now, t_used_by := Some k, t_paired_user_id := Some (id_UserID i), t_created_person := id_Created i\<rparr>"
  have "?t \<in> set (pair_tokens s')"
    using t(1,2,5) by (auto simp: j(4) in_update_where intro!: bexI [of _ t])
  then have tok: "token_by token (pair_tokens s') = Some ?t"
    using token_by_Some [OF token_keys_distinct [OF inv(2)]] t(2) by force
  have ppl: "length (users s') \<le> 1" "distinct (map d_device_key (devices s'))" "\<forall>d \<in> set (devices s'). d_user_id d \<in> uids s'"
    using inv(2) by (simp_all add: pairing_inv_def people_ok_def)
  obtain u where u: "u \<in> set (users s')" "u_user_id u = id_UserID i" "u_label u = id_Label i" using j(8) by blast
  have "k \<in> device_keys s'" using j(5) by simp
  then obtain d where d: "d \<in> set (devices s')" "d_device_key d = k" by auto
  have "users s' = [u]" using ppl(1) u(1) by (cases "users s'") auto
  then have "d_user_id d = id_UserID i" using ppl(3) d(1) u(2) by (auto simp: uids_def)
  moreover have "device_by k (devices s') = Some d" using device_by_Some [OF ppl(2)] d by blast
  moreover have "user_by (id_UserID i) (users s') = Some u" using user_by_self [OF ppl(1) u(1)] u(2) by simp
  ultimately show ?thesis using tok u(2,3) by (simp add: pairedBy_def query_def no_faults_def)
qed

lemma readToken_known:
  assumes "distinct (map t_token (pair_tokens s))" "t \<in> set (pair_tokens s)"
  shows "readToken no_faults (t_token t) s = Inr \<lparr>pt_token = t_token t, pt_kind = t_kind t, pt_userID = null_string (t_user_id t),
         pt_issuerKey = null_string (t_issuer_key t), pt_expiresAt = t_expires_at t, pt_used = (t_used_at t \<noteq> None)\<rparr>"
proof -
  have "token_by (t_token t) (pair_tokens s) = Some t" using token_by_Some [OF assms(1)] assms(2) by blast
  then show ?thesis by (simp add: readToken_def query_def no_faults_def)
qed

lemma Pair_machine_again:
  assumes "distinct (map t_token (pair_tokens s))" "t \<in> set (pair_tokens s)" "t_kind t = TokenMachine"
    and "pairedBy no_faults (t_token t) k s = Inr (Some i)"
  shows "Pair no_faults rid draws (t_token t) k platform now s = (Inr (no_result\<lparr>res_Identity := i, res_Paired := True\<rparr>), s)"
  using assms(3,4) readToken_known [OF assms(1,2)]
  by (simp add: Pair_def transact_def pairByMachineLink_def commit_def no_faults_def [of "''begin pair''"]
      no_faults_def [of "''commit pair''"] no_result_def)

lemma Pair_invite_again:
  assumes inv: "pairing_inv {} s" and r: "r \<in> set (pair_requests s)" "r_outcome r = Some OutcomeAllowed"
    and p: "pairedBy no_faults (r_token r) (r_device_key r) s = Inr (Some i)"
  shows "Pair no_faults rid draws (r_token r) (r_device_key r) platform now s =
    (Inr (no_result\<lparr>res_Paired := True, res_Identity := i, res_Request := Some (scanRequest r)\<rparr>), s)"
proof -
  have reqs: "distinct (map r_token (pair_requests s))" "r_token r \<in> t_token ` set (pair_tokens s)"
    "\<forall>t \<in> set (pair_tokens s). t_token t = r_token r \<longrightarrow> agree t r"
    using inv r(1) by (simp_all add: pairing_inv_def requests_ok_def)
  then obtain t where t: "t \<in> set (pair_tokens s)" "t_token t = r_token r" "t_kind t = TokenInviteDevice"
    by (auto simp: agree_def)
  have find: "List.find (\<lambda>q. r_token q = r_token r) (pair_requests s) = Some r"
    using find_key_Some_iff [OF reqs(1)] r(1) by blast
  have tok: "readToken no_faults (r_token r) s = Inr \<lparr>pt_token = t_token t, pt_kind = t_kind t, pt_userID = null_string (t_user_id t),
         pt_issuerKey = null_string (t_issuer_key t), pt_expiresAt = t_expires_at t, pt_used = (t_used_at t \<noteq> None)\<rparr>"
    using readToken_known [OF token_keys_distinct [OF inv] t(1)] t(2) by simp
  show ?thesis
    using p r(2) t(2,3) by (simp add: Pair_def transact_def tok requestByInvite_def requestByToken_def find repeatRequest_def
        commit_def query_def no_faults_def [of "''begin pair''"] no_faults_def [of "''commit pair''"]
        no_faults_def [of "''read pairing request''"] null_string_def)
qed

text \<open>
  Pairing can be repeated: when \<open>Pair\<close> has joined a device through a machine link, the same
  device presenting the same link again, at any later moment, even after the link's lifetime,
  gets the same answer, is not counted as a new arrival, and nothing changes.
\<close>

theorem pair_repeat:
  assumes "reachable sf s" "Pair flt rid draws token k platform now s = (Inr res, s')" "res_Joined res"
  shows "Pair no_faults rid' draws' token k platform' now' s' = (Inr (res\<lparr>res_Joined := False\<rparr>), s')"
proof -
  have inv: "pairing_inv {} s" by (rule reachable_pairing [OF assms(1)])
  have inv': "pairing_inv {} s'"
    using reachable_pairing [OF reachable_step [OF assms(1) store_step.Pair [where flt = flt and rid = rid and draws = draws
            and token = token and k = k and platform = platform and now = now]]] assms(2) by simp
  from inv assms(2) show ?thesis
  proof (cases rule: Pair_cases)
    case (joined t pt i)
    have a: "t_token t = pt_token pt" "pt_expiresAt pt = t_expires_at t" using joined by simp_all
    note j = pairByMachineLink_joined [OF inv joined(1) a(1) joined(3) a(2) joined(6)]
    let ?t = "t\<lparr>t_used_at := Some now, t_used_by := Some k, t_paired_user_id := Some (id_UserID i), t_created_person := id_Created i\<rparr>"
    have "?t \<in> set (pair_tokens s')"
      using joined(1,2,5) by (auto simp: j(4) in_update_where intro!: bexI [of _ t])
    moreover have "pairedBy no_faults (t_token ?t) k s' = Inr (Some i)"
      using joined_again [OF inv inv' joined(1-6)] joined(2) by simp
    ultimately show ?thesis
      using Pair_machine_again [OF token_keys_distinct [OF inv'], of ?t k i rid' draws' platform' now'] joined(2,3,7)
      by (simp add: no_result_def)
  qed (use assms(3) in \<open>auto simp: no_result_def\<close>)
qed

theorem pair_repeat_witness:
  "fst (Pair no_faults ''9'' (\<lambda>_. 7) ''tok'' ''phone'' ''macos'' 9999 sample_paired) =
    Inr (no_result\<lparr>res_Identity := \<lparr>id_UserID = ''u_1'', id_Label = ''User1000'', id_Created = True\<rparr>, res_Paired := True\<rparr>)"
proof -
  let ?s = "snd (IssueMachineLink no_faults ''tok'' 0 empty_db)"
  let ?r = "no_result\<lparr>res_Identity := \<lparr>id_UserID = ''u_1'', id_Label = ''User1000'', id_Created = True\<rparr>,
      res_Joined := True, res_Paired := True\<rparr>"
  have "reachable id ?s" by (intro reachable_step [OF _ store_step.IssueMachineLink] reachable_empty)
  moreover have "Pair no_faults ''1'' (\<lambda>_. 0) ''tok'' ''phone'' ''ios'' 1 ?s = (Inr ?r, sample_paired)"
    unfolding sample_paired_value by code_simp
  ultimately have "Pair no_faults ''9'' (\<lambda>_. 7) ''tok'' ''phone'' ''macos'' 9999 sample_paired
      = (Inr (?r\<lparr>res_Joined := False\<rparr>), sample_paired)"
    by (rule pair_repeat) (simp add: no_result_def)
  then show ?thesis by (simp add: no_result_def)
qed

section \<open>Answering a request\<close>

definition sample_asked :: db where
  "sample_asked = snd (Pair no_faults ''2'' (\<lambda>_. 0) ''inv'' ''tablet'' ''android'' 20
     (snd (IssueDeviceInvite no_faults ''inv'' ''phone'' 10 sample_paired)))"

lemma reachable_sample_asked: "reachable sf sample_asked"
  unfolding sample_asked_def by (intro reachable_step [OF _ store_step.Pair] reachable_step [OF _ store_step.IssueDeviceInvite]
      reachable_sample_paired)

lemma sample_asked_value:
  "sample_asked = sample_paired\<lparr>
     pair_tokens := pair_tokens sample_paired @ [\<lparr>t_token = ''inv'', t_kind = ''invite_device'', t_user_id = Some ''u_1'',
       t_issuer_key = Some ''phone'', t_created_at = 10, t_expires_at = 610, t_used_at = None, t_used_by = None,
       t_paired_user_id = None, t_created_person = False\<rparr>],
     pair_requests := [\<lparr>r_request_id = ''r_2'', r_token = ''inv'', r_device_key = ''tablet'', r_platform = ''android'',
       r_issuer_key = ''phone'', r_expires_at = 610, r_outcome = None, r_decided_at = None\<rparr>]\<rparr>"
  unfolding sample_asked_def sample_paired_value by code_simp

lemma requestByID_row:
  assumes "pairing_inv X s" "r \<in> set (pair_requests s)" "\<not> flt ''read pairing request''"
  shows "requestByID flt (r_request_id r) s = Inr (Some (scanRequest r))"
proof -
  have "distinct (map r_request_id (pair_requests s))" using assms(1) by (simp add: pairing_inv_def requests_ok_def)
  then have "List.find (\<lambda>q. r_request_id q = r_request_id r) (pair_requests s) = Some r"
    using find_key_Some_iff assms(2) by metis
  then show ?thesis using assms(3) by (simp add: requestByID_def query_def)
qed

lemma decide_closed:
  assumes inv: "pairing_inv {} s" and r: "r \<in> set (pair_requests s)" "r_outcome r \<noteq> None" and k: "k \<in> device_keys s"
  shows "DecidePairRequest no_faults (r_request_id r) k allow now s = (Inl ErrRequestNotFound, s)"
proof -
  have ok: "request_ok r" using inv r(1) by (simp add: pairing_inv_def requests_ok_def)
  have out: "null_string (r_outcome r) \<noteq> ''''" unfolding waiting_scan [OF ok] by (rule r(2))
  obtain d where d: "d \<in> set (devices s)" "d_device_key d = k" using k by auto
  have ppl: "distinct (map d_device_key (devices s))" "d_user_id d \<in> uids s" "\<forall>u \<in> set (users s). u_user_id u \<noteq> ''''"
    using inv d(1) by (auto simp: pairing_inv_def people_ok_def)
  have "device_by k (devices s) = Some d" using device_by_Some [OF ppl(1)] d by blast
  moreover have "d_user_id d \<noteq> ''''" using ppl(2,3) by (auto simp: uids_def)
  moreover have "requestByID no_faults (r_request_id r) s = Inr (Some (scanRequest r))"
    by (rule requestByID_row [OF inv r(1)]) (simp add: no_faults_def)
  ultimately show ?thesis using out
    by (simp add: DecidePairRequest_def transact_def decide_tx_def deviceOwnerOf_def query_def no_faults_def [of "''begin decide pairing request''"]
        no_faults_def [of "''read device owner''"])
qed

text \<open>
  C29. Only the device that issued an invite decides about the request it opened, only while that
  device is paired and before the deadline, and only once: a successful decision closes
  exactly that request with the outcome decided, changes no other request, and every further
  decision on it fails without effect.
\<close>

theorem decide_once_by_issuer:
  assumes "reachable sf s" "DecidePairRequest flt i k allow now s = (Inr d, s')"
  shows "k \<in> device_keys s
    \<and> (\<exists>r \<in> set (pair_requests s). r_request_id r = i \<and> r_issuer_key r = k \<and> r_outcome r = None \<and> now < r_expires_at r
         \<and> dec_Request d = (scanRequest r)\<lparr>pr_Outcome := (if allow then OutcomeAllowed else OutcomeDenied)\<rparr>)
    \<and> pair_requests s' = update_where (\<lambda>q. r_request_id q = i)
         (\<lambda>q. q\<lparr>r_outcome := Some (if allow then OutcomeAllowed else OutcomeDenied), r_decided_at := Some now\<rparr>) (pair_requests s)
    \<and> DecidePairRequest no_faults i k allow' now' s' = (Inl ErrRequestNotFound, s')"
proof -
  let ?out = "if allow then OutcomeAllowed else OutcomeDenied"
  let ?g = "\<lambda>q. q\<lparr>r_outcome := Some ?out, r_decided_at := Some now\<rparr>"
  have inv: "pairing_inv {} s" by (rule reachable_pairing [OF assms(1)])
  have inv': "pairing_inv {} s'"
    using reachable_pairing [OF reachable_step [OF assms(1) store_step.DecidePairRequest [where flt = flt and i = i
            and k = k and allow = allow and now = now]]] assms(2) by simp
  obtain r where r: "r \<in> set (pair_requests s)" "r_request_id r = i" "r_issuer_key r = k" "r_outcome r = None"
    "now < r_expires_at r" "dec_Request d = (scanRequest r)\<lparr>pr_Outcome := ?out\<rparr>" "k \<in> device_keys s"
    and pr: "pair_requests s' = update_where (\<lambda>q. r_request_id q = i \<and> r_outcome q = None) ?g (pair_requests s)"
    and dev: "k \<in> device_keys s'"
    using inv assms(2)
  proof (cases rule: Decide_cases)
    case (denied r)
    then show ?thesis by (intro that [of r]) (simp_all add: close_tables_tables)
  next
    case (allowed r u ds)
    then show ?thesis using insertDevice_Inr(3) [OF allowed(10)]
      by (intro that [of r]) (simp_all add: allow_tables_def)
  qed simp
  have "q = r" if "q \<in> set (pair_requests s)" "r_request_id q = i" for q
    using inv r(1,2) that distinct_key_eq unfolding pairing_inv_def requests_ok_def by metis
  then have pr': "pair_requests s' = update_where (\<lambda>q. r_request_id q = i) ?g (pair_requests s)"
    unfolding pr update_where_def using r(4) by (auto simp: map_eq_conv)
  have "?g r \<in> set (pair_requests s')" using r(1,2) by (auto simp: pr' in_update_where intro!: bexI [of _ r])
  then have "DecidePairRequest no_faults i k allow' now' s' = (Inl ErrRequestNotFound, s')"
    using decide_closed [OF inv' _ _ dev, of "?g r" allow' now'] r(2) by simp
  then show ?thesis using r pr' by blast
qed

theorem decide_once_by_issuer_witness:
  "snd (DecidePairRequest no_faults ''r_2'' ''phone'' True 700
      (snd (DecidePairRequest no_faults ''r_2'' ''phone'' False 30 sample_asked)))
    = snd (DecidePairRequest no_faults ''r_2'' ''phone'' False 30 sample_asked)"
proof -
  obtain d s' where d: "DecidePairRequest no_faults ''r_2'' ''phone'' False 30 sample_asked = (Inr d, s')"
  proof (cases "DecidePairRequest no_faults ''r_2'' ''phone'' False 30 sample_asked")
    case (Pair x s')
    moreover have "isl (fst (DecidePairRequest no_faults ''r_2'' ''phone'' False 30 sample_asked)) = False"
      unfolding sample_asked_value sample_paired_value by code_simp
    ultimately show ?thesis using that by (cases x) auto
  qed
  show ?thesis using decide_once_by_issuer [OF reachable_sample_asked [of id] d, of True 700] d by simp
qed

text \<open>
  After an allowance the asking device is in, and hears so: the decision adds it to the
  issuer's person, and when it presents its invite again it is told the identity it now
  speaks as.
\<close>

theorem allowed_device_paired:
  assumes "reachable sf s" "DecidePairRequest flt i k True now s = (Inr d, s')"
  shows "pr_DeviceKey (dec_Request d) \<in> device_keys s'
    \<and> Pair no_faults rid draws (pr_token (dec_Request d)) (pr_DeviceKey (dec_Request d)) platform now' s' =
      (Inr (no_result\<lparr>res_Paired := True, res_Identity := dec_Identity d, res_Request := Some (dec_Request d)\<rparr>), s')"
proof -
  have inv: "pairing_inv {} s" by (rule reachable_pairing [OF assms(1)])
  have inv': "pairing_inv {} s'"
    using reachable_pairing [OF reachable_step [OF assms(1) store_step.DecidePairRequest [where flt = flt and i = i
            and k = k and allow = True and now = now]]] assms(2) by simp
  from inv assms(2) show ?thesis
  proof (cases rule: Decide_cases)
    case (allowed r u ds)
    let ?r = "r\<lparr>r_outcome := Some OutcomeAllowed, r_decided_at := Some now\<rparr>"
    have d: "dec_Request d = scanRequest ?r" "dec_Identity d = identity_of u"
      using allowed(12) by (simp_all add: scanRequest_def null_string_def)
    have rin: "?r \<in> set (pair_requests s')"
      using allowed(1,3) by (auto simp: allowed(11) allow_tables_def in_update_where intro!: bexI [of _ r])
    have keys: "r_device_key r \<in> device_keys s'" and us: "users s' = users s"
      using insertDevice_Inr(3) [OF allowed(10)] allowed(11) by (simp_all add: allow_tables_def)
    have ppl: "length (users s') \<le> 1" "distinct (map d_device_key (devices s'))" "\<forall>d \<in> set (devices s'). d_user_id d \<in> uids s'"
      using inv' by (simp_all add: pairing_inv_def people_ok_def)
    obtain e where e: "e \<in> set (devices s')" "d_device_key e = r_device_key r" using keys by auto
    have u': "u \<in> set (users s')" using us allowed(9) by simp
    have "users s' = [u]" using ppl(1) u' by (cases "users s'") auto
    then have eu: "d_user_id e = u_user_id u" using ppl(3) e(1) by (auto simp: uids_def)
    obtain t where t: "t \<in> set (pair_tokens s)" "t_token t = r_token r"
      using inv allowed(1) by (auto simp: pairing_inv_def requests_ok_def)
    let ?t = "t\<lparr>t_used_at := Some now, t_used_by := Some (r_device_key r), t_paired_user_id := Some (u_user_id u), t_created_person := False\<rparr>"
    have "?t \<in> set (pair_tokens s')"
      using t by (auto simp: allowed(11) allow_tables_def in_update_where intro!: bexI [of _ t])
    then have tok: "token_by (r_token r) (pair_tokens s') = Some ?t"
      using token_by_Some [OF token_keys_distinct [OF inv']] t(2) by force
    have "pairedBy no_faults (r_token r) (r_device_key r) s' = Inr (Some (identity_of u))"
      using tok eu user_by_self [OF ppl(1) u'] device_by_Some [OF ppl(2), of "r_device_key r" e] e
      by (simp add: pairedBy_def query_def no_faults_def identity_of_def)
    then show ?thesis using Pair_invite_again [OF inv' rin, of "identity_of u"] d keys by simp
  qed simp_all
qed

theorem allowed_device_paired_witness:
  "''tablet'' \<in> device_keys (snd (DecidePairRequest no_faults ''r_2'' ''phone'' True 30 sample_asked))"
proof -
  let ?r = "DecidePairRequest no_faults ''r_2'' ''phone'' True 30 sample_asked"
  have v: "isl (fst ?r) = False" "pr_DeviceKey (dec_Request (projr (fst ?r))) = ''tablet''"
    unfolding sample_asked_value sample_paired_value by code_simp+
  then have "?r = (Inr (projr (fst ?r)), snd ?r)" by (metis isl_def old.sum.exhaust prod.collapse sum.sel(2))
  from allowed_device_paired [OF reachable_sample_asked [of id] this] v(2) show ?thesis by simp
qed

section \<open>Revocation\<close>

definition issued_spent :: "string \<Rightarrow> db \<Rightarrow> bool" where
  "issued_spent k s \<longleftrightarrow> (\<forall>t \<in> set (pair_tokens s). t_issuer_key t = Some k \<longrightarrow> t_used_at t \<noteq> None)"

lemma void_issued: "issued_spent k (void_tokens (\<lambda>t. t_issuer_key t = Some k) now s)"
  by (auto simp: issued_spent_def void_tokens_def set_update_where)

lemma void_issued_keeps: "issued_spent k s \<Longrightarrow> issued_spent k (void_tokens P now s)"
  by (auto simp: issued_spent_def void_tokens_def set_update_where)

text \<open>
  C30. A revoked device is gone with everything it held: its key is no longer paired and every
  other key still is; no request it opened or was to answer waits; no invite it issued is
  usable; from then on it is refused as unknown, as a session, as an issuer and as the one
  deciding. The person and all other devices stay.
\<close>

theorem revoke_takes_all:
  assumes "reachable sf s" "k \<in> device_keys s" "RevokeDevice flt k now s = (Inr closed, s')"
  shows "device_keys s' = device_keys s - {k} \<and> users s' = users s
    \<and> (\<forall>r \<in> set (pair_requests s'). r_issuer_key r = k \<or> r_device_key r = k \<longrightarrow> r_outcome r \<noteq> None)
    \<and> (\<forall>t \<in> set (pair_tokens s'). t_issuer_key t = Some k \<longrightarrow> t_used_at t \<noteq> None)
    \<and> ResolveIdentity no_faults k now' s' = (Inl ErrDeviceUnknown, s')
    \<and> IssueDeviceInvite no_faults tok k now' s' = (Inl ErrDeviceUnknown, s')
    \<and> DecidePairRequest no_faults i k allow now' s' = (Inl ErrDeviceUnknown, s')"
proof -
  have inv: "pairing_inv {} s" by (rule reachable_pairing [OF assms(1)])
  have inv': "pairing_inv {} s'"
    using reachable_pairing [OF reachable_step [OF assms(1) store_step.RevokeDevice [where flt = flt and k = k and now = now]]]
      assms(3) by simp
  have op: "revokeDevice flt '''' k now s = (Inr closed, s')" using assms(3) by (simp add: RevokeDevice_def)
  have main: "device_keys s' = device_keys s - {k} \<and> users s' = users s
    \<and> (\<forall>r \<in> set (pair_requests s'). r_issuer_key r = k \<or> r_device_key r = k \<longrightarrow> r_outcome r \<noteq> None)
    \<and> (\<forall>t \<in> set (pair_tokens s'). t_issuer_key t = Some k \<longrightarrow> t_used_at t \<noteq> None)"
    using inv op
  proof (cases rule: revoke_cases)
    case same
    then show ?thesis using assms(2) by simp
  next
    case (revoked closed' s2)
    let ?s1 = "s\<lparr>devices := filter (\<lambda>d. d_device_key d \<noteq> k) (devices s)\<rparr>"
    note c = closeRequestsOf_Inr [OF remove_device_ok [OF inv] revoked(4)]
    have eq: "devices s' = filter (\<lambda>d. d_device_key d \<noteq> k) (devices s)" "users s' = users s" "pair_requests s' = pair_requests s2"
      using revoked(5) c(3,4) by (simp_all add: Let_def)
    let ?s3 = "void_tokens (\<lambda>t. t_issuer_key t = Some k) now s2"
    have s3: "issued_spent k ?s3" by (rule void_issued)
    then have "issued_spent k s'" using void_issued_keeps [OF s3] by (simp add: revoked(5) Let_def)
    then have "\<forall>t \<in> set (pair_tokens s'). t_issuer_key t = Some k \<longrightarrow> t_used_at t \<noteq> None"
      by (simp add: issued_spent_def)
    then show ?thesis using c(5) eq by auto
  qed
  then have k: "device_by k (devices s') = None" by (simp add: device_by_None)
  have "ResolveIdentity no_faults k now' s' = (Inl ErrDeviceUnknown, s')"
    using k by (simp add: ResolveIdentity_def transact_def lookupByDevice_def query_def no_faults_def)
  moreover have "IssueDeviceInvite no_faults tok k now' s' = (Inl ErrDeviceUnknown, s')"
    using k by (simp add: IssueDeviceInvite_def newTokenValue_def query_def no_faults_def)
  moreover have "DecidePairRequest no_faults i k allow now' s' = (Inl ErrDeviceUnknown, s')"
    using k by (simp add: DecidePairRequest_def transact_def decide_tx_def deviceOwnerOf_def query_def no_faults_def)
  ultimately show ?thesis using main by blast
qed

theorem revoke_takes_all_witness:
  "ResolveIdentity no_faults ''phone'' 50 (snd (RevokeDevice no_faults ''phone'' 40 sample_asked))
    = (Inl ErrDeviceUnknown, snd (RevokeDevice no_faults ''phone'' 40 sample_asked))"
proof -
  let ?r = "RevokeDevice no_faults ''phone'' 40 sample_asked"
  have "isl (fst ?r) = False" unfolding sample_asked_value sample_paired_value by code_simp
  then have "?r = (Inr (projr (fst ?r)), snd ?r)" by (metis isl_def old.sum.exhaust prod.collapse sum.sel(2))
  from revoke_takes_all [OF reachable_sample_asked [of id] _ this] show ?thesis
    by (simp add: sample_asked_value sample_paired_value)
qed

section \<open>Machine links\<close>

text \<open>
  There is at most one usable machine link: issuing one voids every earlier one, leaves
  exactly the new link unspent, and dates it ten minutes from now; a reachable store never
  holds two.
\<close>

theorem issue_link_single:
  assumes "reachable sf s" "IssueMachineLink flt tok now s = (Inr link, s')"
  shows "length (filter unspent_machine (pair_tokens s)) \<le> 1
    \<and> link = \<lparr>ml_Token = tok, ml_ExpiresAt = now + 600\<rparr>
    \<and> map t_token (filter unspent_machine (pair_tokens s')) = [tok] \<and> tok \<notin> t_token ` set (pair_tokens s)"
proof -
  have inv: "pairing_inv {} s" by (rule reachable_pairing [OF assms(1)])
  have i: "insertMachineLink flt tok now s = Inr (link, s')"
    using assms(2) by (auto simp: IssueMachineLink_def transact_Inr split: prod.splits)
  note m = insertMachineLink_Inr [OF i]
  have "map t_token (filter unspent_machine (pair_tokens s')) = [tok]"
    by (subst m(3)) (simp add: void_all_machine, simp add: unspent_machine_def)
  then show ?thesis using m(1,2) inv by (simp add: pairing_inv_def tokens_ok_def TokenTTLSeconds_def)
qed

theorem issue_link_single_witness:
  "map t_token (filter unspent_machine (pair_tokens (snd (IssueMachineLink no_faults ''new'' 5 sample_paired)))) = [''new'']"
proof -
  let ?r = "IssueMachineLink no_faults ''new'' 5 sample_paired"
  have "isl (fst ?r) = False" unfolding sample_paired_value by code_simp
  then have "?r = (Inr (projr (fst ?r)), snd ?r)" by (metis isl_def old.sum.exhaust prod.collapse sum.sel(2))
  from issue_link_single [OF reachable_sample_paired [of id] this] show ?thesis by simp
qed

lemma newest_single: "newest_token [t] = Some t"
  by (simp add: newest_token_def)

lemma pageLinkState_value:
  "pageLinkState no_faults s = Inr (case newest_token (filter unspent_machine (pair_tokens s)) of
       None \<Rightarrow> \<lparr>pl_Devices = int (length (devices s)), pl_Link = \<lparr>ml_Token = '''', ml_ExpiresAt = 0\<rparr>, pl_Found = False\<rparr>
     | Some t \<Rightarrow> \<lparr>pl_Devices = int (length (devices s)), pl_Link = \<lparr>ml_Token = t_token t, ml_ExpiresAt = t_expires_at t\<rparr>, pl_Found = True\<rparr>)"
  by (simp add: pageLinkState_def countDevices_def split: option.splits)

text \<open>
  The service page's link: with no device paired and no unspent link the page mints one;
  otherwise it mints nothing, and asking again right after returns the same link and changes
  nothing, so reloading the page never voids a link somebody is scanning.
\<close>

theorem page_link_stable:
  assumes "tok \<notin> t_token ` set (pair_tokens s)" "PageMachineLink no_faults tok now s s = (Inr page, s')"
  shows "(if devices s = [] \<and> filter unspent_machine (pair_tokens s) = []
          then page = \<lparr>pl_Devices = 0, pl_Link = \<lparr>ml_Token = tok, ml_ExpiresAt = now + 600\<rparr>, pl_Found = True\<rparr>
          else s' = s)
    \<and> PageMachineLink no_faults tok' now' s' s' = (Inr page, s')"
proof (cases "devices s = [] \<and> filter unspent_machine (pair_tokens s) = []")
  case True
  then have st: "pageLinkState no_faults s = Inr \<lparr>pl_Devices = 0, pl_Link = \<lparr>ml_Token = '''', ml_ExpiresAt = 0\<rparr>, pl_Found = False\<rparr>"
    by (simp add: pageLinkState_value newest_token_def)
  let ?t = "\<lparr>t_token = tok, t_kind = TokenMachine, t_user_id = None, t_issuer_key = None,
               t_created_at = now, t_expires_at = now + TokenTTLSeconds, t_used_at = None, t_used_by = None,
               t_paired_user_id = None, t_created_person = False\<rparr>"
  obtain link s1 where i: "insertMachineLink no_faults tok now s = Inr (link, s1)"
    and page: "page = \<lparr>pl_Devices = 0, pl_Link = link, pl_Found = True\<rparr>" "s' = s1"
    using assms(2) by (auto simp: PageMachineLink_def st no_faults_def transact_Inr split: prod.splits)
  note m = insertMachineLink_Inr [OF i]
  have toks: "filter unspent_machine (pair_tokens s1) = [?t]" "devices s1 = devices s"
    by (subst m(3), simp add: void_all_machine, simp add: unspent_machine_def) (rule insertMachineLink_devices [OF i])
  then have "pageLinkState no_faults s' = Inr page"
    using True page m(1) by (simp add: pageLinkState_value newest_single)
  then have "PageMachineLink no_faults tok' now' s' s' = (Inr page, s')"
    using page(1) by (simp add: PageMachineLink_def no_faults_def)
  then show ?thesis using True page m(1) by (simp add: TokenTTLSeconds_def)
next
  case False
  obtain p where st: "pageLinkState no_faults s = Inr p" by (simp add: pageLinkState_value)
  have "pl_Found p \<or> pl_Devices p > 0"
  proof (cases "newest_token (filter unspent_machine (pair_tokens s))")
    case None
    then have "rev (sort_key t_created_at (filter unspent_machine (pair_tokens s))) = []"
      by (simp add: newest_token_def split: list.splits)
    then have "filter unspent_machine (pair_tokens s) = []"
      using length_sort [of t_created_at "filter unspent_machine (pair_tokens s)"] by (metis length_0_conv rev_is_Nil_conv)
    then show ?thesis using False None st by (auto simp: pageLinkState_value)
  next
    case (Some t)
    then show ?thesis using st by (auto simp: pageLinkState_value)
  qed
  then have "PageMachineLink no_faults t n s s = (Inr p, s)" for t n
    using st by (simp add: PageMachineLink_def no_faults_def)
  then show ?thesis using assms(2) False by auto
qed

theorem page_link_stable_witness:
  "PageMachineLink no_faults ''b'' 9 sample_paired sample_paired
    = (Inr \<lparr>pl_Devices = 1, pl_Link = \<lparr>ml_Token = '''', ml_ExpiresAt = 0\<rparr>, pl_Found = False\<rparr>, sample_paired)"
proof -
  have "PageMachineLink no_faults ''a'' 5 sample_paired sample_paired
    = (Inr \<lparr>pl_Devices = 1, pl_Link = \<lparr>ml_Token = '''', ml_ExpiresAt = 0\<rparr>, pl_Found = False\<rparr>, sample_paired)"
    unfolding sample_paired_value by code_simp
  from page_link_stable [OF _ this, of "''b''" 9] show ?thesis by (simp add: sample_paired_value)
qed

section \<open>Deadlines\<close>

lemma close_due:
  "close_rows (\<lambda>_. OutcomeExpired) now (collectRequests (filter (\<lambda>r. r_outcome r = None \<and> r_expires_at r \<le> now) qs)) qs
    = update_where (\<lambda>r. r_outcome r = None \<and> r_expires_at r \<le> now)
        (\<lambda>r. r\<lparr>r_outcome := Some OutcomeExpired, r_decided_at := Some now\<rparr>) qs"
  if "distinct (map r_request_id qs)"
proof -
  have "r_request_id q \<in> r_request_id ` set (filter (\<lambda>r. r_outcome r = None \<and> r_expires_at r \<le> now) qs)
      \<longleftrightarrow> r_outcome q = None \<and> r_expires_at q \<le> now" if "q \<in> set qs" for q
  proof
    assume "r_request_id q \<in> r_request_id ` set (filter (\<lambda>r. r_outcome r = None \<and> r_expires_at r \<le> now) qs)"
    then obtain p where p: "p \<in> set qs" "r_outcome p = None" "r_expires_at p \<le> now" "r_request_id q = r_request_id p" by auto
    then have "q = p" using distinct_key_eq [OF \<open>distinct (map r_request_id qs)\<close> that] by blast
    with p show "r_outcome q = None \<and> r_expires_at q \<le> now" by simp
  qed (use that in auto)
  then show ?thesis unfolding close_rows_def collect_ids update_where_def by (intro map_cong) auto
qed

text \<open>
  The expiry sweep closes exactly the waiting requests whose deadline has passed, as
  expired, reports exactly those, soonest deadline first, and touches no other request.
\<close>

theorem expiry_sweep_exact:
  assumes "reachable sf s" "ExpirePairRequests flt now s s = (Inr closed, s')"
  shows "pair_requests s' = update_where (\<lambda>r. r_outcome r = None \<and> r_expires_at r \<le> now)
           (\<lambda>r. r\<lparr>r_outcome := Some OutcomeExpired, r_decided_at := Some now\<rparr>) (pair_requests s)
    \<and> closed = map (\<lambda>r. r\<lparr>pr_Outcome := OutcomeExpired\<rparr>)
        (collectRequests (filter (\<lambda>r. r_outcome r = None \<and> r_expires_at r \<le> now) (pair_requests s)))
    \<and> devices s' = devices s \<and> users s' = users s"
proof -
  let ?due = "\<lambda>r. r_outcome r = None \<and> r_expires_at r \<le> now"
  have inv: "pairing_inv {} s" by (rule reachable_pairing [OF assms(1)])
  then have dist: "distinct (map r_request_id (pair_requests s))" by (simp add: pairing_inv_def requests_ok_def)
  show ?thesis
  proof (cases "affected ?due (pair_requests s) = 0")
    case True
    then have none: "\<forall>r \<in> set (pair_requests s). \<not> ?due r" by (simp add: affected_0_iff)
    then have "update_where ?due g (pair_requests s) = pair_requests s" for g
      unfolding update_where_def by (intro map_idI) auto
    moreover have "filter ?due (pair_requests s) = []" using none by (simp add: filter_empty_conv)
    ultimately show ?thesis using assms(2) True
      by (auto simp: ExpirePairRequests_def Let_def collectRequests_def split: if_splits)
  next
    case False
    then have "closeAll flt (\<lambda>_. OutcomeExpired) now (collectRequests (filter ?due (pair_requests s))) s = Inr (closed, s')"
      using assms(2) by (auto simp: ExpirePairRequests_def Let_def transact_Inr split: if_splits prod.splits)
    from closeAll_ok [OF inv collect_waiting [OF inv] this] show ?thesis
      by (simp add: close_due [OF dist] outcomes_def)
  qed
qed

theorem expiry_sweep_exact_witness:
  "map r_outcome (pair_requests (snd (ExpirePairRequests no_faults 610 sample_asked sample_asked))) = [Some ''expired'']"
proof -
  let ?r = "ExpirePairRequests no_faults 610 sample_asked sample_asked"
  have "isl (fst ?r) = False" unfolding sample_asked_value sample_paired_value by code_simp
  then have "?r = (Inr (projr (fst ?r)), snd ?r)" by (metis isl_def old.sum.exhaust prod.collapse sum.sel(2))
  from expiry_sweep_exact [OF reachable_sample_asked [of id] this] show ?thesis
    by (simp add: sample_asked_value update_where_def OutcomeExpired_def)
qed

section \<open>The person\<close>

text \<open>
  C31. One person, and every device theirs: a reachable store holds at most one person, every
  device belongs to them, device keys and token values are unique, an unspent invite was
  issued by a device that is still paired, and a request waits exactly as long as its invite is
  unspent.
\<close>

theorem one_person:
  assumes "reachable sf s"
  shows "length (users s) \<le> 1 \<and> (\<forall>d \<in> set (devices s). \<exists>u \<in> set (users s). u_user_id u = d_user_id d)
    \<and> distinct (map d_device_key (devices s)) \<and> distinct (map t_token (pair_tokens s))
    \<and> (\<forall>t \<in> set (pair_tokens s). t_kind t = TokenInviteDevice \<and> t_used_at t = None \<longrightarrow>
         (\<exists>k \<in> device_keys s. t_issuer_key t = Some k))
    \<and> (\<forall>r \<in> set (pair_requests s). \<exists>t \<in> set (pair_tokens s). t_token t = r_token r
         \<and> (r_outcome r = None \<longleftrightarrow> t_used_at t = None))"
proof -
  have inv: "pairing_inv {} s" by (rule reachable_pairing [OF assms])
  have "\<exists>k \<in> device_keys s. t_issuer_key t = Some k"
    if "t \<in> set (pair_tokens s)" "t_kind t = TokenInviteDevice" "t_used_at t = None" for t
  proof -
    have "token_ok {} s t" using inv that(1) by (simp add: pairing_inv_def tokens_ok_def)
    then show ?thesis using that(2,3) by (auto simp: token_ok_def paired_as_def)
  qed
  moreover have "\<exists>t \<in> set (pair_tokens s). t_token t = r_token r \<and> (r_outcome r = None \<longleftrightarrow> t_used_at t = None)"
    if "r \<in> set (pair_requests s)" for r
  proof -
    have "r_token r \<in> t_token ` set (pair_tokens s)" "\<forall>t \<in> set (pair_tokens s). t_token t = r_token r \<longrightarrow> agree t r"
      using inv that by (simp_all add: pairing_inv_def requests_ok_def)
    then show ?thesis by (auto simp: agree_def)
  qed
  moreover have "\<exists>u \<in> set (users s). u_user_id u = d_user_id d" if "d \<in> set (devices s)" for d
  proof -
    have "d_user_id d \<in> uids s" using inv that by (simp add: pairing_inv_def people_ok_def)
    then show ?thesis by (auto simp: uids_def)
  qed
  moreover have "length (users s) \<le> 1" "distinct (map d_device_key (devices s))" "distinct (map t_token (pair_tokens s))"
    using inv by (simp_all add: pairing_inv_def people_ok_def tokens_ok_def)
  ultimately show ?thesis by blast
qed

theorem one_person_witness:
  "length (users sample_asked) \<le> 1 \<and> distinct (map d_device_key (devices sample_asked))"
  using one_person [OF reachable_sample_asked [of id]] by blast

end
