(* ===== verification/Machine_Properties.thy ===== *)
theory Machine_Properties
  imports Store_Machine
begin

text \<open>
  The machine keeps its identity: its key is made once and never replaced under people, a key
  that does not fit the stored private one lets every device go and keeps everything they
  wrote, and the addresses an owner set are the ones read back.
\<close>

definition sample_keys :: KeySource where
  "sample_keys = \<lparr>GenerateKeys = Some (replicate 32 CHR ''p'', replicate 32 CHR ''s''),
     PublicKeyOf = (\<lambda>k. Some (replicate 32 CHR ''p''))\<rparr>"

lemma decode_stored: "length pub = 32 \<Longrightarrow> decodeServerPublicKey (EncodeToString Std pub) = Inr pub"
  by (simp add: decodeServerPublicKey_def DecodeString_EncodeToString PublicKeySize_def)

text \<open>
  The server key is made once: whatever \<open>EnsureServerIdentity\<close> answered, it answers again,
  with any key source and no change; it never makes a key for a database that already
  holds people. The key source makes public keys of 32 bytes.
\<close>

theorem server_identity_made_once:
  assumes "\<And>pub priv. GenerateKeys keys = Some (pub, priv) \<Longrightarrow> length pub = 32"
    and "EnsureServerIdentity flt keys s = (Inr pub, s')"
  shows "EnsureServerIdentity no_faults keys' s' = (Inr pub, s') \<and> ServerIdentity no_faults s' = Inr pub
    \<and> (server_identity s \<noteq> None \<longrightarrow> s' = s) \<and> (users s \<noteq> [] \<longrightarrow> server_identity s \<noteq> None)"
proof -
  have read: "readServerIdentity no_faults s' = Inr pub \<and> (server_identity s \<noteq> None \<longrightarrow> s' = s)
      \<and> (users s \<noteq> [] \<longrightarrow> server_identity s \<noteq> None)"
    using assms(2) decode_stored [OF assms(1)]
    by (auto simp: EnsureServerIdentity_def transact_Inr readServerIdentity_def countPeople_def no_faults_def [of "''read server identity''"]
        query_def onOk_def split: if_splits sum.splits option.splits prod.splits)
  then show ?thesis
    by (simp add: EnsureServerIdentity_def transact_def ServerIdentity_def commit_def no_faults_def [of "''begin ensure server identity''"]
        no_faults_def [of "''commit ensure server identity''"])
qed

theorem server_identity_made_once_witness:
  "EnsureServerIdentity no_faults \<lparr>GenerateKeys = None, PublicKeyOf = (\<lambda>_. None)\<rparr> (snd (EnsureServerIdentity no_faults sample_keys empty_db))
    = (Inr (replicate 32 CHR ''p''), snd (EnsureServerIdentity no_faults sample_keys empty_db))"
proof -
  have "EnsureServerIdentity no_faults sample_keys empty_db
      = (Inr (replicate 32 CHR ''p''), snd (EnsureServerIdentity no_faults sample_keys empty_db))"
    by (simp add: EnsureServerIdentity_def transact_def readServerIdentity_def empty_db_def sample_keys_def countPeople_def
        query_def exec_def commit_def no_faults_def)
  from server_identity_made_once [OF _ this] show ?thesis by (auto simp: sample_keys_def)
qed

text \<open>
  A machine whose stored public key is not the one of its private key lets every device go:
  \<open>ServerKey\<close> then removes all devices, tokens and requests, stores the right public key, keeps
  the person, the chats, the messages, the files and the log, and says so; on the next start the key
  fits and nothing is removed.
\<close>

theorem server_key_rekeys:
  assumes "server_identity s = Some i" "DecodeString Std (s_private_key i) = Some priv" "length priv = 32"
    and "decodeServerPublicKey (s_public_key i) = Inr storedPub" "PublicKeyOf keys priv = Some pub" "length pub = 32"
  shows "ServerKey no_faults keys s s =
      (if storedPub = pub then (Inr (priv, False), s)
       else (Inr (priv, True), s\<lparr>devices := [], pair_tokens := [], pair_requests := [],
               server_identity := Some (i\<lparr>s_public_key := EncodeToString Std pub\<rparr>)\<rparr>))
    \<and> (let s' = snd (ServerKey no_faults keys s s) in ServerKey no_faults keys s' s' = (Inr (priv, False), s'))"
proof -
  have pub: "EncodeToString Std pub \<noteq> ''''" using assms(6) by auto
  have one: "ServerKey no_faults keys s s =
      (if storedPub = pub then (Inr (priv, False), s)
       else (Inr (priv, True), s\<lparr>devices := [], pair_tokens := [], pair_requests := [],
               server_identity := Some (i\<lparr>s_public_key := EncodeToString Std pub\<rparr>)\<rparr>))"
    using assms(1-5) pub
    by (simp add: ServerKey_def rekeyServerIdentity_def transact_def exec_def commit_def query_def no_faults_def PrivateKeySize_def)
  moreover have "ServerKey no_faults keys s' s' = (Inr (priv, False), s')"
    if "server_identity s' = Some j" "s_private_key j = s_private_key i" "decodeServerPublicKey (s_public_key j) = Inr pub" for s' j
    using that assms(2,3,5) by (simp add: ServerKey_def query_def no_faults_def PrivateKeySize_def)
  ultimately show ?thesis
    using assms(1,4) decode_stored [OF assms(6)] by (simp add: Let_def)
qed

theorem server_key_rekeys_witness:
  "let s = empty_db\<lparr>server_identity := Some \<lparr>s_public_key = EncodeToString Std (replicate 32 CHR ''x''),
         s_private_key = EncodeToString Std (replicate 32 CHR ''s''), s_public_address = None, s_onion_address = None,
         s_public_address_param = None, s_onion_address_param = None\<rparr>,
       devices := [\<lparr>d_device_key = ''k'', d_user_id = ''u'', d_platform = ''ios'', d_created_at = 1, d_last_seen_at = 1\<rparr>]\<rparr>
   in devices (snd (ServerKey no_faults sample_keys s s)) = [] \<and> fst (ServerKey no_faults sample_keys s s) = Inr (replicate 32 CHR ''s'', True)"
  unfolding Let_def
  using server_key_rekeys [where s = "empty_db\<lparr>server_identity := Some \<lparr>s_public_key = EncodeToString Std (replicate 32 CHR ''x''),
         s_private_key = EncodeToString Std (replicate 32 CHR ''s''), s_public_address = None, s_onion_address = None,
         s_public_address_param = None, s_onion_address_param = None\<rparr>,
       devices := [\<lparr>d_device_key = ''k'', d_user_id = ''u'', d_platform = ''ios'', d_created_at = 1, d_last_seen_at = 1\<rparr>]\<rparr>"
      and keys = sample_keys and priv = "replicate 32 CHR ''s''" and storedPub = "replicate 32 CHR ''x''" and pub = "replicate 32 CHR ''p''"]
  by (simp add: DecodeString_EncodeToString decode_stored sample_keys_def)

text \<open>
  Addresses read back: after \<open>SetAddress\<close> the address of that kind is the value set, after
  \<open>ApplyAddressParam\<close> the value and the parameter it came from, and in both cases the other kind's
  value and parameter are what they were; an unknown kind changes nothing.
\<close>

theorem address_read_back:
  assumes "Addresses no_faults s = Inr a"
  shows "(if kind = AddressPublic \<or> kind = AddressOnion
          then \<exists>s' b. SetAddress no_faults kind v s = (Inr (), s') \<and> Addresses no_faults s' = Inr b
             \<and> Value b kind = v \<and> (\<forall>k. Param b k = Param a k) \<and> (\<forall>k. k \<noteq> kind \<longrightarrow> Value b k = Value a k)
          else SetAddress no_faults kind v s = (Inl ErrUnknownAddressKind, s))
    \<and> (v \<noteq> '''' \<and> p \<noteq> '''' \<and> (kind = AddressPublic \<or> kind = AddressOnion) \<longrightarrow>
        (\<exists>s' b. ApplyAddressParam no_faults kind v p s = (Inr (), s') \<and> Addresses no_faults s' = Inr b
           \<and> Value b kind = v \<and> Param b kind = p \<and> (\<forall>k. k \<noteq> kind \<longrightarrow> Value b k = Value a k \<and> Param b k = Param a k)))"
proof -
  obtain i where i: "server_identity s = Some i" using assms by (auto simp: Addresses_def split: option.splits)
  have a: "a = \<lparr>ar_Public = null_string (s_public_address i), ar_Onion = null_string (s_onion_address i),
         ar_PublicParam = null_string (s_public_address_param i), ar_OnionParam = null_string (s_onion_address_param i)\<rparr>"
    using assms i by (simp add: Addresses_def)
  have neq: "AddressPublic \<noteq> AddressOnion" "AddressOnion \<noteq> AddressPublic" by (simp_all add: AddressPublic_def AddressOnion_def)
  have nul: "null_string (nullIfEmpty v) = v" "null_string (Some x) = x" for x by (simp_all add: null_string_def nullIfEmpty_def)
  show ?thesis
    by (cases "kind = AddressPublic"; cases "kind = AddressOnion")
      (simp_all add: SetAddress_def ApplyAddressParam_def updateIdentityRow_def Addresses_def no_faults_def query_def Let_def i a
        Value_def Param_def neq nul)
qed

theorem address_read_back_witness:
  "let s = snd (EnsureServerIdentity no_faults sample_keys empty_db) in
   \<exists>s' b. SetAddress no_faults AddressOnion ''abc.onion'' s = (Inr (), s') \<and> Addresses no_faults s' = Inr b \<and> Value b AddressOnion = ''abc.onion''"
proof -
  let ?s = "snd (EnsureServerIdentity no_faults sample_keys empty_db)"
  have "Addresses no_faults ?s = Inr \<lparr>ar_Public = '''', ar_Onion = '''', ar_PublicParam = '''', ar_OnionParam = ''''\<rparr>"
    by (simp add: EnsureServerIdentity_def transact_def readServerIdentity_def empty_db_def sample_keys_def countPeople_def
        query_def exec_def commit_def no_faults_def Addresses_def null_string_def)
  from address_read_back [OF this, of AddressOnion "''abc.onion''" "''p''"] show ?thesis unfolding Let_def by auto
qed

end
