(* ===== verification/Hub.thy ===== *)
theory Hub
  imports Nox_Prelude "HOL-Library.Sublist"
begin

text \<open>
  \<open>internal/hub\<close>: the fan-out of broadcast envelopes to subscribers. A subscriber's channel
  is the list of the envelopes it buffers; closing a closed channel or sending on one panics, which
  is the value \<open>None\<close> of an operation. \<open>Run\<close> owns the subscriber set and takes one request at
  a time, so its loop is a sequence of the steps below; the order in which it walks the set
  does not matter, because what happens to one subscriber does not depend on the others. The
  field \<open>h_log\<close> remembers every envelope broadcast and \<open>sb_from\<close> how many there were when the
  subscriber joined; no operation reads them.
\<close>

section \<open>State and operations\<close>

definition subscriberBuffer :: nat where
  "subscriberBuffer = 16"

record 'f Envelope =
  env_AuthorID :: string
  env_Full :: 'f
  env_Stripped :: 'f

definition FrameFor :: "'f Envelope \<Rightarrow> string \<Rightarrow> 'f" where
  "FrameFor e i = (if env_AuthorID e \<noteq> '''' \<and> env_AuthorID e = i then env_Full e else env_Stripped e)"

text \<open>\<open>sb_taken\<close> is what the reader of \<open>C\<close> has received; \<open>sb_dropped\<close> counts the calls of \<open>dropped\<close>.\<close>

record 'f Subscriber =
  sb_ch :: "'f Envelope list"
  sb_closed :: bool
  sb_dropped :: nat
  sb_taken :: "'f Envelope list"
  sb_from :: nat

record 'f Hub =
  h_subs :: "nat list"
  h_sub :: "nat \<Rightarrow> 'f Subscriber option"
  h_done :: bool
  h_log :: "'f Envelope list"

definition NewHub :: "'f Hub" where
  "NewHub = \<lparr>h_subs = [], h_sub = (\<lambda>_. None), h_done = False, h_log = []\<rparr>"

definition NewSubscriber :: "nat \<Rightarrow> 'f Hub \<Rightarrow> 'f Hub" where
  "NewSubscriber i h = h\<lparr>h_sub := (h_sub h)(i \<mapsto>
     \<lparr>sb_ch = [], sb_closed = False, sb_dropped = 0, sb_taken = [], sb_from = length (h_log h)\<rparr>)\<rparr>"

definition close_ch :: "'f Subscriber \<Rightarrow> 'f Subscriber option" where
  "close_ch sb = (if sb_closed sb then None else Some (sb\<lparr>sb_closed := True\<rparr>))"

definition Register :: "nat \<Rightarrow> 'f Hub \<Rightarrow> 'f Hub" where
  "Register i h =
     (if h_done h \<or> h_sub h i = None then h
      else h\<lparr>h_subs := (if i \<in> set (h_subs h) then h_subs h else h_subs h @ [i]),
             h_sub := (h_sub h)(i := map_option (\<lambda>sb. sb\<lparr>sb_from := length (h_log h)\<rparr>) (h_sub h i))\<rparr>)"

definition Unregister :: "nat \<Rightarrow> 'f Hub \<Rightarrow> 'f Hub option" where
  "Unregister i h =
     (if h_done h \<or> i \<notin> set (h_subs h) then Some h
      else map_option (\<lambda>sb. h\<lparr>h_subs := removeAll i (h_subs h), h_sub := (h_sub h)(i \<mapsto> sb)\<rparr>)
             (Option.bind (h_sub h i) close_ch))"

text \<open>One subscriber's turn in a broadcast: the buffer takes the envelope, or the subscriber is evicted.\<close>

definition offer :: "'f Envelope \<Rightarrow> nat \<Rightarrow> 'f Hub \<Rightarrow> 'f Hub option" where
  "offer env i h =
     (case h_sub h i of
        None \<Rightarrow> None
      | Some sb \<Rightarrow>
          if sb_closed sb then None
          else if length (sb_ch sb) < subscriberBuffer
          then Some (h\<lparr>h_sub := (h_sub h)(i \<mapsto> sb\<lparr>sb_ch := sb_ch sb @ [env]\<rparr>)\<rparr>)
          else map_option (\<lambda>sb'. h\<lparr>h_subs := removeAll i (h_subs h),
                 h_sub := (h_sub h)(i \<mapsto> sb'\<lparr>sb_dropped := sb_dropped sb' + 1\<rparr>)\<rparr>) (close_ch sb))"

fun fan_out :: "'f Envelope \<Rightarrow> nat list \<Rightarrow> 'f Hub \<Rightarrow> 'f Hub option" where
  "fan_out env [] h = Some h"
| "fan_out env (i # is) h = Option.bind (offer env i h) (fan_out env is)"

definition Broadcast :: "'f Envelope \<Rightarrow> 'f Hub \<Rightarrow> 'f Hub option" where
  "Broadcast env h =
     (if h_done h then Some h else fan_out env (h_subs h) (h\<lparr>h_log := h_log h @ [env]\<rparr>))"

text \<open>The end of \<open>Run\<close>: every remaining channel is closed.\<close>

fun close_all :: "nat list \<Rightarrow> 'f Hub \<Rightarrow> 'f Hub option" where
  "close_all [] h = Some h"
| "close_all (i # is) h =
     Option.bind (Option.bind (h_sub h i) close_ch) (\<lambda>sb. close_all is (h\<lparr>h_sub := (h_sub h)(i \<mapsto> sb)\<rparr>))"

definition Stop :: "'f Hub \<Rightarrow> 'f Hub option" where
  "Stop h = (if h_done h then Some h
     else map_option (\<lambda>h'. h'\<lparr>h_subs := [], h_done := True\<rparr>) (close_all (h_subs h) h))"

text \<open>The reader of a channel takes its oldest envelope; a closed channel is still drained first.\<close>

definition Take :: "nat \<Rightarrow> 'f Hub \<Rightarrow> 'f Hub" where
  "Take i h =
     (case h_sub h i of
        None \<Rightarrow> h
      | Some sb \<Rightarrow>
          (case sb_ch sb of
             [] \<Rightarrow> h
           | e # es \<Rightarrow> h\<lparr>h_sub := (h_sub h)(i \<mapsto> sb\<lparr>sb_ch := es, sb_taken := sb_taken sb @ [e]\<rparr>)\<rparr>))"

text \<open>A connection creates its subscriber and registers it once (\<open>handleSessionHello\<close>).\<close>

datatype 'f hub_action = Join nat | Leave nat | Cast "'f Envelope" | Read nat | Shut

fun act :: "'f hub_action \<Rightarrow> 'f Hub \<Rightarrow> 'f Hub option" where
  "act (Join i) h = (if h_sub h i \<noteq> None \<or> h_done h then Some h else Some (Register i (NewSubscriber i h)))"
| "act (Leave i) h = Unregister i h"
| "act (Cast env) h = Broadcast env h"
| "act (Read i) h = Some (Take i h)"
| "act Shut h = Stop h"

fun acts :: "'f hub_action list \<Rightarrow> 'f Hub \<Rightarrow> 'f Hub option" where
  "acts [] h = Some h"
| "acts (a # as) h = Option.bind (act a h) (acts as)"

section \<open>The invariant\<close>

text \<open>
  What a subscriber has received or buffers is an unbroken stretch of the broadcasts since it
  joined; as long as it is registered, the whole of it.
\<close>

definition got :: "'f Subscriber \<Rightarrow> 'f Envelope list" where
  "got sb = sb_taken sb @ sb_ch sb"

definition sub_ok :: "'f Envelope list \<Rightarrow> bool \<Rightarrow> 'f Subscriber \<Rightarrow> bool" where
  "sub_ok log member sb \<longleftrightarrow> length (sb_ch sb) \<le> subscriberBuffer \<and> sb_from sb \<le> length log
     \<and> prefix (got sb) (drop (sb_from sb) log) \<and> sb_dropped sb \<le> 1 \<and> (sb_dropped sb = 1 \<longrightarrow> sb_closed sb)
     \<and> (member \<longrightarrow> \<not> sb_closed sb \<and> got sb = drop (sb_from sb) log) \<and> (\<not> member \<longrightarrow> sb_closed sb)"

definition hub_ok :: "'f Hub \<Rightarrow> bool" where
  "hub_ok h \<longleftrightarrow> distinct (h_subs h) \<and> (\<forall>i \<in> set (h_subs h). h_sub h i \<noteq> None)
     \<and> (\<forall>i sb. h_sub h i = Some sb \<longrightarrow> sub_ok (h_log h) (i \<in> set (h_subs h)) sb) \<and> (h_done h \<longrightarrow> h_subs h = [])"

lemma hub_ok_new: "hub_ok NewHub"
  by (simp add: hub_ok_def NewHub_def)

lemma sub_close: "sub_ok log m sb \<Longrightarrow> sub_ok log False (sb\<lparr>sb_closed := True\<rparr>)"
  by (simp add: sub_ok_def got_def)

lemma sub_take: "sub_ok log m sb \<Longrightarrow> sb_ch sb = e # es \<Longrightarrow> sub_ok log m (sb\<lparr>sb_ch := es, sb_taken := sb_taken sb @ [e]\<rparr>)"
  by (auto simp: sub_ok_def got_def)

lemma sub_push:
  "sub_ok log True sb \<Longrightarrow> length (sb_ch sb) < subscriberBuffer \<Longrightarrow> sub_ok (log @ [env]) True (sb\<lparr>sb_ch := sb_ch sb @ [env]\<rparr>)"
  by (auto simp: sub_ok_def got_def)

lemma sub_evict: "sub_ok log True sb \<Longrightarrow> sub_ok (log @ [env]) False (sb\<lparr>sb_closed := True, sb_dropped := Suc (sb_dropped sb)\<rparr>)"
  by (auto simp: sub_ok_def got_def le_Suc_eq)

lemma sub_log: "sub_ok log False sb \<Longrightarrow> sub_ok (log @ [env]) False sb"
  by (auto simp: sub_ok_def intro: prefix_prefix)

lemma join_ok:
  assumes "hub_ok h" "h_sub h i = None" "\<not> h_done h"
  shows "hub_ok (Register i (NewSubscriber i h))"
  using assms by (auto simp: hub_ok_def Register_def NewSubscriber_def, simp_all add: sub_ok_def got_def)

lemma member_open: "hub_ok h \<Longrightarrow> i \<in> set (h_subs h) \<Longrightarrow> \<exists>sb. h_sub h i = Some sb \<and> \<not> sb_closed sb \<and> sub_ok (h_log h) True sb"
  by (fastforce simp: hub_ok_def sub_ok_def)

lemma hub_sub: "hub_ok h \<Longrightarrow> h_sub h i = Some sb \<Longrightarrow> sub_ok (h_log h) (i \<in> set (h_subs h)) sb"
  by (simp add: hub_ok_def)

lemma outsider_ok: "hub_ok h \<Longrightarrow> h_sub h i = Some sb \<Longrightarrow> i \<notin> set (h_subs h) \<Longrightarrow> sub_ok (h_log h) False sb"
  using hub_sub by fastforce

lemma member_ok: "hub_ok h \<Longrightarrow> h_sub h i = Some sb \<Longrightarrow> i \<in> set (h_subs h) \<Longrightarrow> sub_ok (h_log h) True sb"
  using hub_sub by fastforce

lemma leave_ok:
  assumes "hub_ok h"
  shows "\<exists>h'. Unregister i h = Some h' \<and> hub_ok h'"
proof (cases "h_done h \<or> i \<notin> set (h_subs h)")
  case False
  then obtain sb where "h_sub h i = Some sb" "\<not> sb_closed sb" "sub_ok (h_log h) True sb" using member_open [OF assms] by blast
  then show ?thesis using assms False sub_close
    by (auto simp: Unregister_def close_ch_def hub_ok_def distinct_removeAll)
qed (use assms in \<open>auto simp: Unregister_def\<close>)

lemma take_ok: "hub_ok h \<Longrightarrow> hub_ok (Take i h)"
  by (auto simp: Take_def hub_ok_def intro: sub_take split: option.splits list.splits)

text \<open>
  During a broadcast the subscribers \<open>is\<close> are still to be served: they have everything but the
  envelope, the others are settled for the longer log.
\<close>

definition serving :: "'f Envelope \<Rightarrow> nat list \<Rightarrow> 'f Hub \<Rightarrow> 'f Envelope list \<Rightarrow> bool" where
  "serving env is h log \<longleftrightarrow> distinct (h_subs h) \<and> distinct is \<and> set is \<subseteq> set (h_subs h) \<and> h_log h = log @ [env] \<and> \<not> h_done h
     \<and> (\<forall>i \<in> set (h_subs h). h_sub h i \<noteq> None)
     \<and> (\<forall>i sb. h_sub h i = Some sb \<longrightarrow>
          (if i \<in> set is then sub_ok log True sb else sub_ok (log @ [env]) (i \<in> set (h_subs h)) sb))"

lemma offer_ok:
  assumes "serving env (i # is) h log"
  shows "\<exists>h'. offer env i h = Some h' \<and> serving env is h' log"
proof -
  obtain sb where sb: "h_sub h i = Some sb" "sub_ok log True sb" "\<not> sb_closed sb"
    using assms by (fastforce simp: serving_def sub_ok_def)
  show ?thesis
  proof (cases "length (sb_ch sb) < subscriberBuffer")
    case True
    then show ?thesis using assms sb sub_push [OF sb(2) True, of env]
      by (auto simp: offer_def serving_def)
  next
    case False
    then show ?thesis using assms sb sub_evict [OF sb(2), of env]
      by (auto simp: offer_def serving_def close_ch_def distinct_removeAll)
  qed
qed

lemma fan_out_ok: "serving env is h log \<Longrightarrow> \<exists>h'. fan_out env is h = Some h' \<and> serving env [] h' log"
proof (induction "is" arbitrary: h)
  case (Cons i "is")
  then show ?case using offer_ok [OF Cons.prems] by auto
qed simp

lemma broadcast_ok:
  assumes "hub_ok h"
  shows "\<exists>h'. Broadcast env h = Some h' \<and> hub_ok h'"
proof (cases "h_done h")
  case False
  have "serving env (h_subs h) (h\<lparr>h_log := h_log h @ [env]\<rparr>) (h_log h)"
    using assms False member_ok [OF assms] sub_log [OF outsider_ok [OF assms]] by (auto simp: serving_def) (simp_all add: hub_ok_def)
  from fan_out_ok [OF this] show ?thesis using False by (auto simp: Broadcast_def serving_def hub_ok_def)
qed (use assms in \<open>simp add: Broadcast_def\<close>)

lemma close_all_ok:
  assumes "distinct is" "\<forall>i \<in> set is. \<exists>sb. h_sub h i = Some sb \<and> sub_ok (h_log h) True sb"
    and "\<forall>i sb. i \<notin> set is \<longrightarrow> h_sub h i = Some sb \<longrightarrow> sub_ok (h_log h) False sb"
  shows "\<exists>h'. close_all is h = Some h' \<and> h_log h' = h_log h \<and> (\<forall>i sb. h_sub h' i = Some sb \<longrightarrow> sub_ok (h_log h) False sb)"
  using assms
proof (induction "is" arbitrary: h)
  case (Cons i "is")
  then obtain sb where sb: "h_sub h i = Some sb" "sub_ok (h_log h) True sb" by auto
  let ?h = "h\<lparr>h_sub := (h_sub h)(i \<mapsto> sb\<lparr>sb_closed := True\<rparr>)\<rparr>"
  have "\<exists>h'. close_all is ?h = Some h' \<and> h_log h' = h_log ?h \<and> (\<forall>i sb. h_sub h' i = Some sb \<longrightarrow> sub_ok (h_log ?h) False sb)"
    by (rule Cons.IH) (use Cons.prems sub_close [OF sb(2)] in auto)
  moreover have "\<not> sb_closed sb" using sb(2) by (simp add: sub_ok_def)
  ultimately show ?case using sb(1) by (simp add: close_ch_def)
qed auto

lemma stop_ok:
  assumes "hub_ok h"
  shows "\<exists>h'. Stop h = Some h' \<and> hub_ok h'"
proof (cases "h_done h")
  case False
  have "\<exists>h'. close_all (h_subs h) h = Some h' \<and> h_log h' = h_log h \<and> (\<forall>i sb. h_sub h' i = Some sb \<longrightarrow> sub_ok (h_log h) False sb)"
  proof (rule close_all_ok)
    show "\<forall>i \<in> set (h_subs h). \<exists>sb. h_sub h i = Some sb \<and> sub_ok (h_log h) True sb" using member_open [OF assms] by blast
  qed (use assms outsider_ok [OF assms] in \<open>auto simp: hub_ok_def\<close>)
  then show ?thesis using False by (auto simp: Stop_def hub_ok_def)
qed (use assms in \<open>simp add: Stop_def\<close>)

lemma act_ok: "hub_ok h \<Longrightarrow> \<exists>h'. act a h = Some h' \<and> hub_ok h'"
  by (cases a) (auto simp: join_ok take_ok intro: leave_ok broadcast_ok stop_ok)

lemma acts_ok: "hub_ok h \<Longrightarrow> \<exists>h'. acts as h = Some h' \<and> hub_ok h'"
proof (induction as arbitrary: h)
  case (Cons a as)
  then show ?case using act_ok [OF Cons.prems, of a] by auto
qed simp

section \<open>What was broadcast\<close>

fun casts :: "'f hub_action list \<Rightarrow> 'f Envelope list" where
  "casts [] = []"
| "casts (Cast e # as) = e # casts as"
| "casts (Shut # as) = []"
| "casts (_ # as) = casts as"

lemma offer_log: "offer env i h = Some h' \<Longrightarrow> h_log h' = h_log h \<and> h_done h' = h_done h"
  by (auto simp: offer_def close_ch_def split: option.splits if_splits)

lemma fan_out_log: "fan_out env is h = Some h' \<Longrightarrow> h_log h' = h_log h \<and> h_done h' = h_done h"
  by (induction env "is" h rule: fan_out.induct) (auto simp: Option.bind_eq_Some_conv dest: offer_log)

lemma close_all_log: "close_all is h = Some h' \<Longrightarrow> h_log h' = h_log h"
  by (induction "is" h rule: close_all.induct) (auto simp: Option.bind_eq_Some_conv)

lemma act_log:
  assumes "act a h = Some h'"
  shows "h_done h' = (h_done h \<or> a = Shut) \<and> h_log h' = h_log h @ (case a of Cast e \<Rightarrow> if h_done h then [] else [e] | _ \<Rightarrow> [])"
proof (cases a)
  case (Cast env)
  then show ?thesis using assms by (auto simp: Broadcast_def dest: fan_out_log split: if_splits)
next
  case Shut
  then show ?thesis using assms by (auto simp: Stop_def dest: close_all_log split: if_splits)
qed (use assms in \<open>auto simp: Register_def NewSubscriber_def Unregister_def Take_def split: if_splits option.splits list.splits\<close>)

lemma acts_done: "acts as h = Some h' \<Longrightarrow> h_done h \<Longrightarrow> h_log h' = h_log h"
proof (induction as arbitrary: h)
  case (Cons a as)
  then obtain h1 where h1: "act a h = Some h1" "acts as h1 = Some h'" by (auto simp: Option.bind_eq_Some_conv)
  then show ?case using act_log [OF h1(1)] Cons.IH [OF h1(2)] Cons.prems(2) by (auto split: hub_action.splits)
qed simp

lemma acts_log: "acts as h = Some h' \<Longrightarrow> h_log h' = h_log h @ (if h_done h then [] else casts as)"
proof (induction as arbitrary: h rule: casts.induct)
  case (2 e as)
  then show ?case using act_log [of "Cast e" h] by (auto simp del: act.simps simp: Option.bind_eq_Some_conv split: if_splits)
next
  case (3 as)
  then obtain h1 where h1: "act Shut h = Some h1" "acts as h1 = Some h'" by (auto simp: Option.bind_eq_Some_conv)
  then show ?case using act_log [OF h1(1)] acts_done [OF h1(2)] by simp
qed (auto simp del: act.simps simp: Option.bind_eq_Some_conv dest!: act_log)

text \<open>
  C32. The hub never panics and never leaves a gap: whatever the sequence of joins, departures,
  broadcasts, reads and the final stop, no channel is closed twice or written after it was closed;
  what a subscriber has received and buffers is an unbroken stretch of the broadcasts since
  it joined, all of it while it stays registered; it buffers at most sixteen envelopes; its
  eviction callback fires at most once, and only a subscriber whose channel was closed is evicted.
\<close>

theorem hub_delivers:
  "\<exists>h. acts as NewHub = Some h \<and> h_log h = casts as \<and> (\<forall>i sb. h_sub h i = Some sb \<longrightarrow>
     length (sb_ch sb) \<le> 16 \<and> prefix (sb_taken sb @ sb_ch sb) (drop (sb_from sb) (casts as))
     \<and> (i \<in> set (h_subs h) \<longrightarrow> \<not> sb_closed sb \<and> sb_taken sb @ sb_ch sb = drop (sb_from sb) (casts as))
     \<and> (i \<notin> set (h_subs h) \<longrightarrow> sb_closed sb) \<and> sb_dropped sb \<le> 1 \<and> (sb_dropped sb = 1 \<longrightarrow> i \<notin> set (h_subs h)))"
proof -
  obtain h where h: "acts as NewHub = Some h" "hub_ok h" using acts_ok [OF hub_ok_new] by blast
  then have log: "h_log h = casts as" using acts_log [OF h(1)] by (simp add: NewHub_def)
  show ?thesis
  proof (intro exI [of _ h] conjI allI impI)
    fix i sb assume "h_sub h i = Some sb"
    from hub_sub [OF h(2) this] have ok: "sub_ok (casts as) (i \<in> set (h_subs h)) sb" by (simp add: log)
    then show "length (sb_ch sb) \<le> 16" "prefix (sb_taken sb @ sb_ch sb) (drop (sb_from sb) (casts as))" "sb_dropped sb \<le> 1"
      by (simp_all add: sub_ok_def got_def subscriberBuffer_def)
    show "\<not> sb_closed sb" "sb_taken sb @ sb_ch sb = drop (sb_from sb) (casts as)" if "i \<in> set (h_subs h)"
      using ok that by (simp_all add: sub_ok_def got_def)
    show "sb_closed sb" if "i \<notin> set (h_subs h)" using ok that by (simp add: sub_ok_def)
    show "i \<notin> set (h_subs h)" if "sb_dropped sb = 1" using ok that by (auto simp: sub_ok_def)
  qed (use h log in auto)
qed

text \<open>Two subscribers: the second one leaves between two broadcasts and keeps the first one.\<close>

abbreviation sample_env :: "nat \<Rightarrow> nat Envelope" where
  "sample_env n \<equiv> \<lparr>env_AuthorID = ''ann'', env_Full = n, env_Stripped = n + 100\<rparr>"

abbreviation sample_acts :: "nat hub_action list" where
  "sample_acts \<equiv> [Join 0, Cast (sample_env 1), Join 1, Cast (sample_env 2), Leave 1, Cast (sample_env 3), Read 0]"

theorem hub_delivers_witness:
  "\<exists>h sb sb'. acts sample_acts NewHub = Some h \<and> h_sub h 0 = Some sb \<and> sb_taken sb = [sample_env 1] \<and> sb_ch sb = [sample_env 2, sample_env 3]
     \<and> h_sub h 1 = Some sb' \<and> sb_ch sb' = [sample_env 2] \<and> sb_closed sb' \<and> prefix (sb_ch sb') (drop 1 (casts sample_acts))"
proof -
  obtain h where h: "acts sample_acts NewHub = Some h"
    and sb: "\<forall>i sb. h_sub h i = Some sb \<longrightarrow> prefix (sb_taken sb @ sb_ch sb) (drop (sb_from sb) (casts sample_acts))"
    using hub_delivers [of sample_acts] by blast
  from h have s0: "h_sub h 0 = Some \<lparr>sb_ch = [sample_env 2, sample_env 3], sb_closed = False, sb_dropped = 0, sb_taken = [sample_env 1], sb_from = 0\<rparr>"
    and s1: "h_sub h 1 = Some \<lparr>sb_ch = [sample_env 2], sb_closed = True, sb_dropped = 0, sb_taken = [], sb_from = 1\<rparr>"
    by (auto simp: NewHub_def NewSubscriber_def Register_def Unregister_def Broadcast_def offer_def close_ch_def Take_def subscriberBuffer_def)
  have "prefix [sample_env 2] (drop 1 (casts sample_acts))" using sb s1 by fastforce
  with h s0 s1 show ?thesis
    by (intro exI [of _ h] exI conjI) (assumption | rule s0 s1 refl | simp del: acts.simps casts.simps)+
qed

end
