(* ===== verification/Transfer_Tokens.thy ===== *)
theory Transfer_Tokens
  imports Base64
begin

text \<open>
  \<open>internal/server/tokens.go\<close>: the one-shot tokens a file transfer starts with. The map of
  the store is a map from the token text to its entry; the random bytes and the clock, in
  nanoseconds, are arguments. Every operation runs under the store's mutex, so a process is
  a sequence of operations.
\<close>

section \<open>State and operations\<close>

definition tokenTTL :: int where
  "tokenTTL = 10 * 60 * 1000000000"

datatype tokenOp = opUpload | opDownload

record tokenEntry =
  te_fileID :: string
  te_op :: tokenOp
  te_offset :: int
  te_expires :: int

record tokenStore =
  ts_tokens :: "string \<Rightarrow> tokenEntry option"

definition newTokenStore :: tokenStore where
  "newTokenStore = \<lparr>ts_tokens = (\<lambda>_. None)\<rparr>"

definition superseded :: "string \<Rightarrow> tokenOp \<Rightarrow> tokenEntry \<Rightarrow> bool" where
  "superseded fileID op e \<longleftrightarrow> op = opUpload \<and> te_op e = opUpload \<and> te_fileID e = fileID"

definition issue :: "string \<Rightarrow> string \<Rightarrow> tokenOp \<Rightarrow> int \<Rightarrow> int \<Rightarrow> tokenStore \<Rightarrow> string \<times> tokenStore" where
  "issue buf fileID op offset now t =
     (let token = EncodeToString URL buf;
          swept = (\<lambda>k. case ts_tokens t k of
                         None \<Rightarrow> None
                       | Some e \<Rightarrow> if superseded fileID op e \<or> te_expires e < now then None else Some e)
      in (token, t\<lparr>ts_tokens := swept(token \<mapsto>
            \<lparr>te_fileID = fileID, te_op = op, te_offset = offset, te_expires = now + tokenTTL\<rparr>)\<rparr>))"

definition consume :: "string \<Rightarrow> tokenOp \<Rightarrow> int \<Rightarrow> tokenStore \<Rightarrow> (string \<times> int) option \<times> tokenStore" where
  "consume token op now t =
     (case ts_tokens t token of
        None \<Rightarrow> (None, t)
      | Some e \<Rightarrow>
          (if te_op e \<noteq> op \<or> te_expires e < now then None else Some (te_fileID e, te_offset e),
           t\<lparr>ts_tokens := (ts_tokens t)(token := None)\<rparr>))"

section \<open>Histories\<close>

datatype token_call =
    Issue (ti_buf: string) (ti_file: string) (ti_op: tokenOp) (ti_offset: int) (ti_now: int)
  | Consume (tc_token: string) (tc_op: tokenOp) (ti_now: int)

fun call :: "token_call \<Rightarrow> tokenStore \<Rightarrow> tokenStore" where
  "call (Issue buf f op off now) t = snd (issue buf f op off now t)"
| "call (Consume token op now) t = snd (consume token op now t)"

definition calls :: "token_call list \<Rightarrow> tokenStore" where
  "calls cs = fold call cs newTokenStore"

text \<open>What ends a token: its use, an upload token issued for the same file, and the same bytes drawn again.\<close>

fun ends :: "string \<Rightarrow> string \<Rightarrow> tokenOp \<Rightarrow> token_call \<Rightarrow> bool" where
  "ends token f op (Consume tok _ _) \<longleftrightarrow> tok = token"
| "ends token f op (Issue buf f' op' _ _) \<longleftrightarrow>
     EncodeToString URL buf = token \<or> (op = opUpload \<and> op' = opUpload \<and> f' = f)"

lemma calls_simps [simp]: "calls [] = newTokenStore" "calls (cs @ [c]) = call c (calls cs)"
  by (simp_all add: calls_def)

lemma call_kept:
  assumes "ts_tokens t token = Some e" "\<not> ends token (te_fileID e) (te_op e) c" "ti_now c \<le> te_expires e"
  shows "ts_tokens (call c t) token = Some e"
  using assms by (cases c) (auto simp: issue_def consume_def superseded_def Let_def split: option.splits)

lemma calls_kept:
  assumes "ts_tokens t token = Some e" "\<forall>c \<in> set cs. \<not> ends token (te_fileID e) (te_op e) c \<and> ti_now c \<le> te_expires e"
  shows "ts_tokens (fold call cs t) token = Some e"
  using assms by (induction cs arbitrary: t) (auto simp: call_kept)

lemma call_origin:
  assumes "ts_tokens (call c t) token = Some e"
  shows "c = Issue (ti_buf c) (te_fileID e) (te_op e) (te_offset e) (te_expires e - tokenTTL) \<and> EncodeToString URL (ti_buf c) = token
    \<or> ts_tokens t token = Some e \<and> \<not> ends token (te_fileID e) (te_op e) c"
  using assms by (cases c) (auto simp: issue_def consume_def superseded_def Let_def split: option.splits if_splits)

lemma calls_origin:
  assumes "ts_tokens (calls cs) token = Some e"
  shows "\<exists>pre post buf. cs = pre @ Issue buf (te_fileID e) (te_op e) (te_offset e) (te_expires e - tokenTTL) # post
    \<and> EncodeToString URL buf = token \<and> (\<forall>c \<in> set post. \<not> ends token (te_fileID e) (te_op e) c)"
  using assms
proof (induction cs rule: rev_induct)
  case (snoc c cs)
  from snoc.prems have "ts_tokens (call c (calls cs)) token = Some e" by simp
  from call_origin [OF this] show ?case
  proof
    assume "c = Issue (ti_buf c) (te_fileID e) (te_op e) (te_offset e) (te_expires e - tokenTTL) \<and> EncodeToString URL (ti_buf c) = token"
    then show ?thesis by (intro exI [of _ cs] exI [of _ "[]"] exI [of _ "ti_buf c"]) simp
  next
    assume kept: "ts_tokens (calls cs) token = Some e \<and> \<not> ends token (te_fileID e) (te_op e) c"
    then obtain pre post buf where "cs = pre @ Issue buf (te_fileID e) (te_op e) (te_offset e) (te_expires e - tokenTTL) # post"
      "EncodeToString URL buf = token" "\<forall>c \<in> set post. \<not> ends token (te_fileID e) (te_op e) c"
      using snoc.IH by blast
    then show ?thesis using kept by (intro exI [of _ pre] exI [of _ "post @ [c]"] exI [of _ buf]) auto
  qed
qed (simp add: newTokenStore_def)

text \<open>
  C33. A transfer token is good for exactly what it was issued for, once: with a clock that does
  not run backwards, \<open>consume\<close> grants a file and an offset if and only if the token was issued for
  that operation, file and offset at most ten minutes ago and since then was not presented,
  for whatever operation, and not superseded by a newer upload token of the same file;
  presenting it again then fails.
\<close>

theorem token_one_shot:
  assumes "\<forall>c \<in> set cs. ti_now c \<le> now"
  shows "(fst (consume token op now (calls cs)) = Some (f, off) \<longleftrightarrow>
      (\<exists>pre post buf t. cs = pre @ Issue buf f op off t # post \<and> EncodeToString URL buf = token \<and> now \<le> t + tokenTTL
         \<and> (\<forall>c \<in> set post. \<not> ends token f op c)))
    \<and> fst (consume token op' now' (snd (consume token op now (calls cs)))) = None"
proof
  show "fst (consume token op' now' (snd (consume token op now (calls cs)))) = None"
    by (simp add: consume_def split: option.split)
  show "fst (consume token op now (calls cs)) = Some (f, off) \<longleftrightarrow>
      (\<exists>pre post buf t. cs = pre @ Issue buf f op off t # post \<and> EncodeToString URL buf = token \<and> now \<le> t + tokenTTL
         \<and> (\<forall>c \<in> set post. \<not> ends token f op c))" (is "?l \<longleftrightarrow> ?r")
  proof
    assume ?l
    then obtain e where e: "ts_tokens (calls cs) token = Some e" "te_op e = op" "now \<le> te_expires e" "te_fileID e = f" "te_offset e = off"
      by (auto simp: consume_def split: option.splits if_splits)
    then show ?r using calls_origin [OF e(1)] by fastforce
  next
    assume ?r
    then obtain pre post buf t where cs: "cs = pre @ Issue buf f op off t # post" "EncodeToString URL buf = token" "now \<le> t + tokenTTL"
      "\<forall>c \<in> set post. \<not> ends token f op c" by blast
    define e where "e = \<lparr>te_fileID = f, te_op = op, te_offset = off, te_expires = t + tokenTTL\<rparr>"
    have "ts_tokens (snd (issue buf f op off t (calls pre))) token = Some e"
      using cs(2) by (simp add: issue_def Let_def e_def)
    then have "ts_tokens (fold call post (snd (issue buf f op off t (calls pre)))) token = Some e"
      by (rule calls_kept) (use cs assms in \<open>force simp: e_def\<close>)
    then have "ts_tokens (calls cs) token = Some e" by (simp add: cs(1) calls_def)
    then show ?l using cs(3) by (simp add: consume_def e_def)
  qed
qed

theorem token_one_shot_witness:
  "fst (consume (EncodeToString URL ''a'') opUpload 5 (calls [Issue ''a'' ''file'' opUpload 7 3])) = Some (''file'', 7)
   \<and> fst (consume (EncodeToString URL ''a'') opUpload 6 (calls [Issue ''a'' ''file'' opUpload 7 3, Issue ''b'' ''file'' opUpload 9 4])) = None"
proof
  let ?cs = "[Issue ''a'' ''file'' opUpload 7 3]"
  have "\<exists>pre post buf t. ?cs = pre @ Issue buf ''file'' opUpload 7 t # post \<and> EncodeToString URL buf = EncodeToString URL ''a''
      \<and> 5 \<le> t + tokenTTL \<and> (\<forall>c \<in> set post. \<not> ends (EncodeToString URL ''a'') ''file'' opUpload c)"
    by (intro exI [of _ "[]"] exI [of _ "''a''"] exI [of _ 3]) (simp add: tokenTTL_def)
  then show "fst (consume (EncodeToString URL ''a'') opUpload 5 (calls ?cs)) = Some (''file'', 7)"
    using token_one_shot [of ?cs 5 "EncodeToString URL ''a''" opUpload "''file''" 7] by simp
qed (simp add: calls_def consume_def issue_def superseded_def newTokenStore_def EncodeToString_def byte_def letter_def pad_def Let_def)

end
