(* ===== verification/Go_Runes.thy ===== *)
theory Go_Runes
  imports Go_Text
begin

text \<open>
  Where a text may be cut: in front of a byte that does not continue a sequence, the runes of
  the whole are those of the two halves. ASCII bytes are their own runes.
\<close>

type_synonym pieces = "(rune \<times> string) list"

definition ascii_pieces :: "string \<Rightarrow> pieces" where
  "ascii_pieces s = map (\<lambda>c. (byte c, [c])) s"

lemma second_ok_cont: "second_ok a b \<Longrightarrow> cont b"
  by (auto simp: second_ok_def cont_def split: if_splits)

lemma decode_rune_append:
  assumes "as \<noteq> []" "bs = [] \<or> \<not> cont (hd bs)"
  shows "decode_rune (as @ bs) = decode_rune as"
  using assms
  by (auto simp: neq_Nil_conv decode_rune.simps second_ok_cont Cons_eq_append_conv append_eq_Cons_conv split: list.splits dest: second_ok_cont)

lemma runes_append:
  assumes "bs = [] \<or> \<not> cont (byte (hd bs))"
  shows "runes (as @ bs) = runes as @ runes bs"
  using assms
proof (induction as rule: runes.induct)
  case (2 c cs)
  obtain r w where d: "decode_rune (map byte (c # cs)) = (r, w)" by fastforce
  have w: "w \<le> length (c # cs)" using decode_rune_width_le [of "map byte (c # cs)"] d by simp
  have start: "map byte bs = [] \<or> \<not> cont (hd (map byte bs))" using 2(2) by (cases bs) auto
  have "decode_rune (map byte (c # cs) @ map byte bs) = (r, w)"
    using decode_rune_append [OF _ start, of "map byte (c # cs)"] d by simp
  moreover have "take w ((c # cs) @ bs) = take w (c # cs)" "drop w ((c # cs) @ bs) = drop w (c # cs) @ bs"
    using w by (simp_all only: take_append drop_append) simp_all
  ultimately have "runes ((c # cs) @ bs) = (r, take w (c # cs)) # runes (drop w (c # cs) @ bs)"
    by (simp del: list.map flip: map_append)
  also have "runes (drop w (c # cs) @ bs) = runes (drop w (c # cs)) @ runes bs" using 2 d by simp
  finally show ?case using d by simp
qed simp

lemma runes_ascii: "byte c < 128 \<Longrightarrow> runes (c # s) = (byte c, [c]) # runes s"
  by (simp add: decode_rune.simps)

lemma runes_ascii_append: "\<forall>c \<in> set u. byte c < 128 \<Longrightarrow> runes (u @ s) = ascii_pieces u @ runes s"
  by (induction u) (simp_all add: runes_ascii ascii_pieces_def del: runes.simps)

lemma fold_rune_id: "fold_rune id r = r"
  by (simp add: fold_rune_def while_unfold)

lemma encode_ascii: "byte c < 128 \<Longrightarrow> encode_rune (byte c) = [c]"
  by (simp add: encode_rune_def encode_bytes_def valid_rune_def byte_def)

lemma foldCase_id_ascii: "\<forall>c \<in> set s. byte c < 128 \<Longrightarrow> foldCase id s = s"
  unfolding foldCase_def
  by (induction s) (simp_all add: runes_ascii fold_rune_id encode_ascii del: runes.simps, simp)

lemma runes_suffix: "runes s = xs @ ys \<Longrightarrow> runes (bytes_of ys) = ys"
proof (induction s arbitrary: xs rule: runes.induct)
  case (2 c cs)
  obtain r w where d: "decode_rune (map byte (c # cs)) = (r, w)" by fastforce
  have rs: "runes (c # cs) = (r, take w (c # cs)) # runes (drop w (c # cs))" using d by simp
  show ?case
  proof (cases xs)
    case Nil
    then show ?thesis using 2(2) bytes_of_runes [of "c # cs"] by (simp del: runes.simps)
  next
    case (Cons x zs)
    then have "runes (drop w (c # cs)) = zs @ ys" using 2(2) rs by (simp del: runes.simps)
    then show ?thesis using 2(1) d by simp
  qed
qed (simp add: bytes_of_def)

lemma runes_head: "runes (c # cs) = p # ps \<Longrightarrow> fst p \<noteq> RuneError \<Longrightarrow> \<not> cont (byte c)"
  by (auto simp: decode_rune.simps cont_def split: if_splits list.splits prod.splits)

lemma bytes_of_append [simp]: "bytes_of (xs @ ys) = bytes_of xs @ bytes_of ys"
  by (simp add: bytes_of_def)

lemma bytes_of_ascii [simp]: "bytes_of (ascii_pieces s) = s"
  by (induction s) (auto simp: bytes_of_def ascii_pieces_def)

end
