(* ===== verification/Log_Scrub.thy ===== *)
theory Log_Scrub
  imports Go_Runes
begin

text \<open>
  \<open>internal/server/logscrub.go\<close>: what the server's log must never carry. A text is cut into
  its runes, as Go's \<open>regexp\<close> reads it; a pattern is a function that says how many runes its
  match at the head of a text takes, and \<open>ReplaceAllString\<close> walks the text from the left. The
  laws of a pattern that the proofs need are the locale \<open>pattern\<close>, and both patterns
  are interpretations of it.
\<close>

section \<open>Patterns\<close>

definition lower_rune :: "rune \<Rightarrow> rune" where
  "lower_rune r = (if 65 \<le> r \<and> r \<le> 90 then r + 32 else r)"

text \<open>A literal under \<open>(?i)\<close>; the two literals hold no \<open>k\<close> and no \<open>s\<close>, which fold outside ASCII too.\<close>

definition ci_literal :: "string \<Rightarrow> pieces \<Rightarrow> bool" where
  "ci_literal lit ps \<longleftrightarrow> map (\<lambda>p. lower_rune (fst p)) (take (length lit) ps) = map byte lit"

text \<open>\<open>[a-z2-7]\<close> and \<open>[A-Za-z0-9\_=-]\<close> under \<open>(?i)\<close>: the long s and the Kelvin sign fold into them.\<close>

definition base32_rune :: "rune \<Rightarrow> bool" where
  "base32_rune r \<longleftrightarrow> 97 \<le> r \<and> r \<le> 122 \<or> 65 \<le> r \<and> r \<le> 90 \<or> 50 \<le> r \<and> r \<le> 55 \<or> r = 383 \<or> r = 8490"

definition link_rune :: "rune \<Rightarrow> bool" where
  "link_rune r \<longleftrightarrow> 97 \<le> r \<and> r \<le> 122 \<or> 65 \<le> r \<and> r \<le> 90 \<or> 48 \<le> r \<and> r \<le> 57 \<or> r = 95 \<or> r = 61 \<or> r = 45 \<or> r = 383 \<or> r = 8490"

definition onionInText :: "pieces \<Rightarrow> nat option" where
  "onionInText ps =
     (if 56 \<le> length ps \<and> list_all (\<lambda>p. base32_rune (fst p)) (take 56 ps)
      then Some (if ci_literal ''.onion'' (drop 56 ps) then 62 else 56) else None)"

definition linkInText :: "pieces \<Rightarrow> nat option" where
  "linkInText ps =
     (if ci_literal ''nox://pair/'' ps
      then Some (11 + length (takeWhile (\<lambda>p. link_rune (fst p)) (drop 11 ps))) else None)"

text \<open>A match takes at least one rune here, so the walk moves on by at least one.\<close>

function replace_all :: "(pieces \<Rightarrow> nat option) \<Rightarrow> pieces \<Rightarrow> pieces \<Rightarrow> pieces" where
  "replace_all m repl [] = []"
| "replace_all m repl (p # ps) =
     (case m (p # ps) of
        None \<Rightarrow> p # replace_all m repl ps
      | Some n \<Rightarrow> repl @ replace_all m repl (drop (n - 1) ps))"
  by pat_completeness auto
termination by (relation "measure (\<lambda>(m, repl, ps). length ps)") auto

definition ReplaceAllString :: "(pieces \<Rightarrow> nat option) \<Rightarrow> string \<Rightarrow> string \<Rightarrow> string" where
  "ReplaceAllString m s repl = bytes_of (replace_all m (ascii_pieces repl) (runes s))"

definition scrub :: "string \<Rightarrow> string" where
  "scrub s = ReplaceAllString onionInText (ReplaceAllString linkInText s ''[link]'') ''[onion]''"

section \<open>Records\<close>

text \<open>
  A \<open>slog.Value\<close> after \<open>Resolve\<close>: a string, a group, a value of no text, or any other value,
  known by the text the switch of \<open>scrubValue\<close> takes of it.
\<close>

datatype sval = KindString string | KindGroup "(string \<times> sval) list" | KindAny string | KindPlain

record slog_record =
  sr_Message :: string
  sr_Attrs :: "(string \<times> sval) list"

text \<open>What the handler behind the scrubbing one is asked to do.\<close>

datatype handler_call = HHandle slog_record | HWithAttrs "(string \<times> sval) list" | HWithGroup string

fun scrubValue :: "sval \<Rightarrow> sval" where
  "scrubValue (KindString s) = KindString (scrub s)"
| "scrubValue (KindGroup as) = KindGroup (map (\<lambda>a. (scrub (fst a), scrubValue (snd a))) as)"
| "scrubValue (KindAny t) = (if scrub t \<noteq> t then KindString (scrub t) else KindAny t)"
| "scrubValue KindPlain = KindPlain"

definition scrubAttr :: "string \<times> sval \<Rightarrow> string \<times> sval" where
  "scrubAttr a = (scrub (fst a), scrubValue (snd a))"

definition scrubAttrs :: "(string \<times> sval) list \<Rightarrow> (string \<times> sval) list" where
  "scrubAttrs as = map scrubAttr as"

definition Handle :: "slog_record \<Rightarrow> handler_call" where
  "Handle r = HHandle \<lparr>sr_Message = scrub (sr_Message r), sr_Attrs = map scrubAttr (sr_Attrs r)\<rparr>"

definition WithAttrs :: "(string \<times> sval) list \<Rightarrow> handler_call" where
  "WithAttrs as = HWithAttrs (scrubAttrs as)"

definition WithGroup :: "string \<Rightarrow> handler_call" where
  "WithGroup name = HWithGroup (scrub name)"

text \<open>Every text a call carries.\<close>

fun value_texts :: "sval \<Rightarrow> string set" where
  "value_texts (KindString s) = {s}"
| "value_texts (KindGroup as) = (\<Union>a \<in> set as. insert (fst a) (value_texts (snd a)))"
| "value_texts (KindAny t) = {t}"
| "value_texts KindPlain = {}"

definition attr_texts :: "(string \<times> sval) list \<Rightarrow> string set" where
  "attr_texts as = (\<Union>a \<in> set as. insert (fst a) (value_texts (snd a)))"

fun call_texts :: "handler_call \<Rightarrow> string set" where
  "call_texts (HHandle r) = insert (sr_Message r) (attr_texts (sr_Attrs r))"
| "call_texts (HWithAttrs as) = attr_texts as"
| "call_texts (HWithGroup name) = {name}"

section \<open>Replacing the matches of a pattern\<close>

text \<open>The mark a match is replaced by: short, ASCII, in brackets.\<close>

definition mark :: "string \<Rightarrow> bool" where
  "mark r \<longleftrightarrow> (\<exists>w. r = ''['' @ w @ '']'' \<and> length w < 6 \<and> (\<forall>c \<in> set w. byte c < 128))"

locale pattern =
  fixes m :: "pieces \<Rightarrow> nat option"
  assumes long: "m ps = Some n \<Longrightarrow> 6 \<le> n \<and> n \<le> length ps"
    and local: "m ps = Some n \<Longrightarrow> take n ps' = take n ps \<Longrightarrow> m ps' \<noteq> None"
    and plain: "m ps = Some n \<Longrightarrow> p \<in> set (take n ps) \<Longrightarrow> fst p \<noteq> 91 \<and> fst p \<noteq> 93 \<and> fst p \<noteq> RuneError"
begin

definition free :: "pieces \<Rightarrow> bool" where
  "free ps \<longleftrightarrow> (\<forall>k. m (drop k ps) = None)"

lemma free_drop: "free ps \<Longrightarrow> free (drop k ps)"
  by (simp add: free_def)

lemma none_empty: "m [] = None"
  using long [of "[]"] by (cases "m []") auto

lemma no_bracket: "m (p # ps) = Some n \<Longrightarrow> fst p \<noteq> 91 \<and> fst p \<noteq> 93"
  using long [of "p # ps" n] plain [of "p # ps" n p] by (cases n) auto

text \<open>The first match, if there is one.\<close>

lemma replace_cases:
  obtains (nothing) "free ps" "replace_all m r ps = ps"
    | (first) k n where "k < length ps" "m (drop k ps) = Some n" "\<And>j. j < k \<Longrightarrow> m (drop j ps) = None"
        "replace_all m r ps = take k ps @ r @ replace_all m r (drop (k + n) ps)"
proof (induction ps arbitrary: thesis)
  case Nil
  then show ?case by (simp add: free_def none_empty)
next
  case (Cons p ps)
  show ?case
  proof (cases "m (p # ps)")
    case (Some n)
    then have "0 < n" using long by fastforce
    then show ?thesis using Some by (intro Cons.prems(2) [of 0 n]) (auto simp: drop_Cons')
  next
    case None
    show ?thesis
    proof (rule Cons.IH)
      assume "free ps" "replace_all m r ps = ps"
      then show ?thesis using None by (intro Cons.prems(1)) (auto simp: free_def drop_Cons')
    next
      fix k n assume k: "k < length ps" "m (drop k ps) = Some n" "\<And>j. j < k \<Longrightarrow> m (drop j ps) = None"
        "replace_all m r ps = take k ps @ r @ replace_all m r (drop (k + n) ps)"
      show ?thesis using None k by (intro Cons.prems(2) [of "Suc k" n]) (auto simp: drop_Cons')
    qed
  qed
qed

text \<open>A bracketed mark separates what stands before it from what stands after it.\<close>

lemma free_join:
  assumes "mark r" "free ys" "\<And>j. j < length xs \<Longrightarrow> m (drop j (xs @ zs)) = None"
  shows "free (xs @ ascii_pieces r @ ys)"
proof -
  obtain w where w: "r = ''['' @ w @ '']''" "length w < 6" using assms(1) by (auto simp: mark_def)
  define ws where "ws = ascii_pieces w"
  have r: "ascii_pieces r = (91, ''['') # ws @ [(93, '']'')]" and lw: "length ws < 6"
    using w by (simp_all add: ascii_pieces_def ws_def byte_def)
  have "m (drop k (xs @ ascii_pieces r @ ys)) = None" for k
  proof (rule ccontr)
    assume "m (drop k (xs @ ascii_pieces r @ ys)) \<noteq> None"
    then obtain n where n: "m (drop k (xs @ ascii_pieces r @ ys)) = Some n" by blast
    have open_out: "(91, ''['') \<notin> set (take n (drop k (xs @ ascii_pieces r @ ys)))"
      and shut_out: "(93, '']'') \<notin> set (take n (drop k (xs @ ascii_pieces r @ ys)))" using plain [OF n] by fastforce+
    have n6: "6 \<le> n" using long [OF n] by simp
    consider "k < length xs" | "k = length xs" | "length xs < k" "k \<le> length xs + length (ascii_pieces r)"
      | "length xs + length (ascii_pieces r) < k" by linarith
    then show False
    proof cases
      case 1
      have "n \<le> length xs - k"
      proof (rule ccontr)
        assume "\<not> n \<le> length xs - k"
        then have "(91, ''['') \<in> set (take n (drop k xs @ ascii_pieces r @ ys))" by (simp add: r take_Cons')
        then show False using open_out 1 by simp
      qed
      then have "take n (drop k (xs @ zs)) = take n (drop k (xs @ ascii_pieces r @ ys))" using 1 by simp
      then show False using local [OF n] assms(3) [OF 1] by blast
    next
      case 2
      then show False using open_out n6 by (simp add: r take_Cons')
    next
      case 3
      define j where "j = k - length xs - 1"
      have j: "drop k (xs @ ascii_pieces r @ ys) = drop j (ws @ (93, '']'') # ys)" "j \<le> length ws + 1"
        using 3 by (auto simp: j_def r drop_Cons')
      show False
      proof (cases "j \<le> length ws")
        case True
        then have "(93, '']'') \<in> set (take n (drop j (ws @ (93, '']'') # ys)))" using lw n6 by (simp add: take_Cons')
        then show False using shut_out unfolding j(1) by blast
      next
        case False
        then have "drop k (xs @ ascii_pieces r @ ys) = ys" using j by (simp add: drop_Cons')
        then show False using n assms(2) unfolding free_def by (metis drop0 option.distinct(1))
      qed
    next
      case 4
      then have "drop k (xs @ ascii_pieces r @ ys) = drop (k - length xs - length (ascii_pieces r)) ys" by simp
      then show False using n assms(2) unfolding free_def by (metis option.distinct(1))
    qed
  qed
  then show ?thesis by (simp add: free_def)
qed

lemma replace_free:
  assumes "mark r"
  shows "free (replace_all m (ascii_pieces r) ps)"
proof (induction ps rule: length_induct)
  case (1 ps)
  show ?case
  proof (cases rule: replace_cases [of ps "ascii_pieces r"])
    case nothing
    then show ?thesis by simp
  next
    case (first k n)
    have "0 < n" using long [OF first(2)] by simp
    then have "free (replace_all m (ascii_pieces r) (drop (k + n) ps))" using 1 first(1) by simp
    then show ?thesis unfolding first(4)
      by (rule free_join [OF assms, where zs = "drop k ps"]) (use first in \<open>simp only: append_take_drop_id, simp\<close>)
  qed
qed

lemma replace_id: "free ps \<Longrightarrow> replace_all m r ps = ps"
proof (cases rule: replace_cases [of ps r])
  case (first k n)
  assume "free ps"
  then show ?thesis using first(2) by (simp add: free_def)
qed

text \<open>The bytes of the outcome are read back as the runes it was made of.\<close>

lemma replace_runes:
  assumes "mark r"
  shows "runes (bytes_of (replace_all m (ascii_pieces r) (runes s))) = replace_all m (ascii_pieces r) (runes s)"
proof -
  have "runes (bytes_of (replace_all m (ascii_pieces r) ps)) = replace_all m (ascii_pieces r) ps" if "runes (bytes_of ps) = ps" for ps
    using that
  proof (induction ps rule: length_induct)
    case (1 ps)
    show ?case
    proof (cases rule: replace_cases [of ps "ascii_pieces r"])
      case nothing
      then show ?thesis using 1(2) by simp
    next
      case (first k n)
      let ?rest = "replace_all m (ascii_pieces r) (drop (k + n) ps)"
      have split: "runes (bytes_of ps) = take k ps @ drop k ps" "runes (bytes_of ps) = take (k + n) ps @ drop (k + n) ps"
        using 1(2) by simp_all
      have "0 < n" using long [OF first(2)] by simp
      then have rest: "runes (bytes_of ?rest) = ?rest" using 1(1) first(1) runes_suffix [OF split(2)] by simp
      obtain p qs where pq: "drop k ps = p # qs" using first(1) by (metis Cons_nth_drop_Suc)
      have "fst p \<noteq> RuneError" using plain [OF first(2), of p] \<open>0 < n\<close> by (simp add: pq take_Cons')
      moreover have tail: "runes (bytes_of (drop k ps)) = p # qs" using runes_suffix [OF split(1)] pq by simp
      ultimately have "bytes_of (drop k ps) = [] \<or> \<not> cont (byte (hd (bytes_of (drop k ps))))"
        using runes_head [of _ _ p qs] by (metis list.exhaust_sel)
      then have "runes (bytes_of (take k ps) @ bytes_of (drop k ps)) = runes (bytes_of (take k ps)) @ runes (bytes_of (drop k ps))"
        by (rule runes_append)
      then have before: "runes (bytes_of (take k ps)) = take k ps"
        using split(1) tail pq by (metis append_same_eq append_take_drop_id bytes_of_append)
      obtain w where w: "r = ''['' @ w @ '']''" "\<forall>c \<in> set w. byte c < 128" using assms by (auto simp: mark_def)
      then have "\<forall>c \<in> set r. byte c < 128" by (auto simp: byte_def)
      from runes_ascii_append [OF this] have mid: "runes (r @ bytes_of ?rest) = ascii_pieces r @ ?rest" using rest by simp
      have "r @ bytes_of ?rest = [] \<or> \<not> cont (byte (hd (r @ bytes_of ?rest)))" by (simp add: w cont_def byte_def)
      from runes_append [OF this] show ?thesis unfolding first(4) by (simp add: before mid)
    qed
  qed
  then show ?thesis by (simp add: bytes_of_runes)
qed


text \<open>What replaces the matches of another pattern cannot bring a match of this one about.\<close>

lemma keeps_free:
  assumes "pattern m'" "mark r" "free ps"
  shows "free (replace_all m' (ascii_pieces r) ps)"
  using assms(3)
proof (induction ps rule: length_induct)
  case (1 ps)
  show ?case
  proof (cases rule: pattern.replace_cases [OF assms(1), of ps "ascii_pieces r"])
    case 1
    then show ?thesis using \<open>free ps\<close> by simp
  next
    case (2 k n)
    have "0 < n" using pattern.long [OF assms(1) 2(2)] by simp
    then have "free (replace_all m' (ascii_pieces r) (drop (k + n) ps))" using 1 2(1) free_drop by simp
    then show ?thesis unfolding 2(4)
      by (rule free_join [OF assms(2), where zs = "drop k ps"]) (use \<open>free ps\<close> in \<open>simp only: append_take_drop_id, simp add: free_def\<close>)
  qed
qed

end

section \<open>The two patterns\<close>

lemma ci_literal_runes:
  assumes "ci_literal lit ps" "p \<in> set (take (length lit) ps)"
  shows "lower_rune (fst p) \<in> byte ` set lit"
  using assms unfolding ci_literal_def by (metis (no_types, lifting) image_eqI list.set_map)

lemma ci_literal_length: "ci_literal lit ps \<Longrightarrow> length lit \<le> length ps"
  unfolding ci_literal_def by (metis length_map length_take min.absorb_iff1 min.commute)

lemma lower_rune_odd: "lower_rune r \<noteq> 91 \<Longrightarrow> lower_rune r \<noteq> 93 \<Longrightarrow> lower_rune r \<noteq> RuneError \<Longrightarrow> r \<noteq> 91 \<and> r \<noteq> 93 \<and> r \<noteq> RuneError"
  by (auto simp: lower_rune_def RuneError_def)

interpretation link: pattern linkInText
proof
  fix ps ps' :: pieces and n p
  assume m: "linkInText ps = Some n"
  then have lit: "ci_literal ''nox://pair/'' ps" and n: "n = 11 + length (takeWhile (\<lambda>p. link_rune (fst p)) (drop 11 ps))"
    by (auto simp: linkInText_def split: if_splits)
  have "11 \<le> length ps" using ci_literal_length [OF lit] by simp
  moreover have "length (takeWhile (\<lambda>p. link_rune (fst p)) (drop 11 ps)) \<le> length ps - 11"
    using length_takeWhile_le [of _ "drop 11 ps"] by (metis length_drop)
  ultimately show "6 \<le> n \<and> n \<le> length ps" using n by linarith
  show "linkInText ps' \<noteq> None" if "take n ps' = take n ps"
  proof -
    have "take 11 ps' = take 11 ps" using that n by (metis le_add1 min.absorb1 take_take)
    then show ?thesis using lit by (simp add: linkInText_def ci_literal_def eval_nat_numeral)
  qed
  show "fst p \<noteq> 91 \<and> fst p \<noteq> 93 \<and> fst p \<noteq> RuneError" if "p \<in> set (take n ps)"
  proof -
    have "take n ps = take 11 ps @ takeWhile (\<lambda>p. link_rune (fst p)) (drop 11 ps)"
      by (simp add: n take_add takeWhile_eq_take [symmetric])
    with that consider "p \<in> set (take 11 ps)" | "link_rune (fst p)" by (auto dest: set_takeWhileD)
    then show ?thesis
    proof cases
      case 1
      then have "lower_rune (fst p) \<in> byte ` set ''nox://pair/''" using ci_literal_runes [OF lit] by (simp add: eval_nat_numeral)
      then show ?thesis by (intro lower_rune_odd) (auto simp: byte_def RuneError_def)
    qed (auto simp: link_rune_def RuneError_def)
  qed
qed

interpretation onion: pattern onionInText
proof
  fix ps ps' :: pieces and n p
  assume m: "onionInText ps = Some n"
  then have run: "56 \<le> length ps" "list_all (\<lambda>p. base32_rune (fst p)) (take 56 ps)"
    and n: "n = (if ci_literal ''.onion'' (drop 56 ps) then 62 else 56)"
    by (auto simp: onionInText_def split: if_splits)
  show "6 \<le> n \<and> n \<le> length ps" using n run(1) ci_literal_length [of "''.onion''" "drop 56 ps"] by auto
  show "onionInText ps' \<noteq> None" if eq: "take n ps' = take n ps"
  proof -
    have "56 \<le> n" by (simp add: n)
    then have "take 56 ps' = take 56 ps" using eq by (metis min.absorb1 take_take)
    moreover from this have "56 \<le> length ps'" using run(1) by (metis length_take min.absorb_iff2 min.commute)
    ultimately show ?thesis using run by (simp add: onionInText_def)
  qed
  show "fst p \<noteq> 91 \<and> fst p \<noteq> 93 \<and> fst p \<noteq> RuneError" if "p \<in> set (take n ps)"
  proof -
    have "set (take n ps) \<subseteq> set (take 56 ps) \<union> set (take (n - 56) (drop 56 ps))"
      using take_add [of 56 "n - 56" ps] n by auto
    with that consider "p \<in> set (take 56 ps)" | "ci_literal ''.onion'' (drop 56 ps)" "p \<in> set (take 6 (drop 56 ps))"
      by (auto simp: n split: if_splits)
    then show ?thesis
    proof cases
      case 1
      then show ?thesis using run(2) by (auto simp: list_all_iff base32_rune_def RuneError_def)
    next
      case 2
      then have "lower_rune (fst p) \<in> byte ` set ''.onion''" using ci_literal_runes [OF 2(1)] by (simp add: eval_nat_numeral)
      then show ?thesis by (intro lower_rune_odd) (auto simp: byte_def RuneError_def)
    qed
  qed
qed

lemma marks: "mark ''[link]''" "mark ''[onion]''"
proof -
  show "mark ''[link]''" unfolding mark_def by (rule exI [of _ "''link''"]) (simp add: byte_def)
  show "mark ''[onion]''" unfolding mark_def by (rule exI [of _ "''onion''"]) (simp add: byte_def)
qed

lemma scrub_runes:
  "runes (scrub s) = replace_all onionInText (ascii_pieces ''[onion]'') (replace_all linkInText (ascii_pieces ''[link]'') (runes s))"
proof -
  let ?t = "ReplaceAllString linkInText s ''[link]''"
  have "runes ?t = replace_all linkInText (ascii_pieces ''[link]'') (runes s)"
    unfolding ReplaceAllString_def by (rule link.replace_runes [OF marks(1)])
  then show ?thesis using onion.replace_runes [OF marks(2), of ?t] by (simp add: scrub_def ReplaceAllString_def)
qed

lemma scrub_free: "link.free (runes (scrub s)) \<and> onion.free (runes (scrub s))"
  unfolding scrub_runes
  using link.keeps_free [OF onion.pattern_axioms marks(2) link.replace_free [OF marks(1)]] onion.replace_free [OF marks(2)] by blast

lemma free_scrub: "link.free (runes s) \<Longrightarrow> onion.free (runes s) \<Longrightarrow> scrub s = s"
  by (simp add: scrub_def ReplaceAllString_def link.replace_id onion.replace_id bytes_of_runes)

text \<open>A secret in a text: fifty-six base32 letters in a row, or the head of a pairing link, in either case.\<close>

definition reveals :: "string \<Rightarrow> bool" where
  "reveals s \<longleftrightarrow> (\<exists>a u b. s = a @ u @ b
     \<and> (length u = 56 \<and> (\<forall>c \<in> set u. base32_rune (byte c)) \<or> map (\<lambda>c. lower_rune (byte c)) u = map byte ''nox://pair/''))"

lemma free_reveals:
  assumes "link.free (runes s)" "onion.free (runes s)"
  shows "\<not> reveals s"
proof
  assume "reveals s"
  then obtain a u b where s: "s = a @ u @ b"
    and u: "length u = 56 \<and> (\<forall>c \<in> set u. base32_rune (byte c)) \<or> map (\<lambda>c. lower_rune (byte c)) u = map byte ''nox://pair/''"
    unfolding reveals_def by blast
  have asc: "\<forall>c \<in> set u. byte c < 128"
  proof
    fix c assume c: "c \<in> set u"
    from u show "byte c < 128"
    proof
      assume "map (\<lambda>c. lower_rune (byte c)) u = map byte ''nox://pair/''"
      then have "lower_rune (byte c) \<in> byte ` set ''nox://pair/''" using c by (metis (no_types, lifting) image_eqI list.set_map)
      then show ?thesis by (auto simp: lower_rune_def byte_def split: if_splits)
    next
      assume "length u = 56 \<and> (\<forall>c \<in> set u. base32_rune (byte c))"
      then have "base32_rune (byte c)" "byte c < 256" using c by (simp_all add: byte_def)
      then show ?thesis by (auto simp: base32_rune_def)
    qed
  qed
  have "u \<noteq> []" using u by auto
  then have "u @ b = [] \<or> \<not> cont (byte (hd (u @ b)))" using asc by (cases u) (auto simp: cont_def)
  then have "runes s = runes a @ ascii_pieces u @ runes b" unfolding s using runes_append runes_ascii_append [OF asc] by simp
  then have at: "drop (length (runes a)) (runes s) = ascii_pieces u @ runes b" by simp
  have "linkInText (ascii_pieces u @ runes b) = None" "onionInText (ascii_pieces u @ runes b) = None"
    using assms unfolding link.free_def onion.free_def by (metis at)+
  moreover have "linkInText (ascii_pieces u @ runes b) \<noteq> None" if l: "map (\<lambda>c. lower_rune (byte c)) u = map byte ''nox://pair/''"
  proof -
    have "length u = 11" using arg_cong [OF l, of length] by simp
    then show ?thesis using l by (simp add: linkInText_def ci_literal_def ascii_pieces_def comp_def)
  qed
  moreover have "onionInText (ascii_pieces u @ runes b) \<noteq> None" if "length u = 56" "\<forall>c \<in> set u. base32_rune (byte c)"
    using that by (simp add: onionInText_def ascii_pieces_def list_all_iff)
  ultimately show False using u by blast
qed

section \<open>Properties\<close>

text \<open>
  Scrubbing hides every secret: whatever bytes the text holds, the result holds no run of
  fifty-six base32 letters and no pairing link in any spelling of its case, and scrubbing it again
  changes nothing. A text in which neither pattern matches anywhere is left byte for byte.
\<close>

theorem scrub_hides:
  "\<not> reveals (scrub s) \<and> scrub (scrub s) = scrub s
   \<and> ((\<forall>k. linkInText (drop k (runes s)) = None \<and> onionInText (drop k (runes s)) = None) \<longrightarrow> scrub s = s)"
  using scrub_free free_reveals free_scrub by (simp add: link.free_def onion.free_def)

theorem scrub_hides_witness:
  "scrub ''ok'' = ''ok'' \<and> \<not> reveals (scrub ''go NOX://pair/AbC_1= now'') \<and> scrub ''go NOX://pair/AbC_1= now'' = ''go [link] now''"
proof (intro conjI)
  have "runes ''ok'' = [(111, ''o''), (107, ''k'')]" by (simp add: decode_rune.simps byte_def)
  then have "\<forall>k. linkInText (drop k (runes ''ok'')) = None \<and> onionInText (drop k (runes ''ok'')) = None"
    by (simp add: linkInText_def onionInText_def ci_literal_def lower_rune_def byte_def drop_Cons')
  then show "scrub ''ok'' = ''ok''" using scrub_hides [of "''ok''"] by simp
  show "\<not> reveals (scrub ''go NOX://pair/AbC_1= now'')" using scrub_hides by simp
  show "scrub ''go NOX://pair/AbC_1= now'' = ''go [link] now''"
    by (simp add: scrub_def ReplaceAllString_def linkInText_def onionInText_def ci_literal_def lower_rune_def link_rune_def ascii_pieces_def
        bytes_of_def decode_rune.simps byte_def)
qed

lemma scrubValue_clean: "t \<in> value_texts (scrubValue v) \<Longrightarrow> \<not> reveals t"
proof (induction v rule: scrubValue.induct)
  case (2 as)
  then show ?case using scrub_free free_reveals by fastforce
next
  case (3 s)
  then show ?case using scrub_free [of s] free_reveals by (auto split: if_splits)
qed (use scrub_free free_reveals in auto)

lemma scrubAttrs_clean: "t \<in> attr_texts (map scrubAttr as) \<Longrightarrow> \<not> reveals t"
  using scrub_free free_reveals by (auto simp: attr_texts_def scrubAttr_def dest: scrubValue_clean)

text \<open>
  C40. Nothing the log handler passes on carries a secret: not a record's message, not a key or a
  value of an attribute at any depth of its groups, not the text of an error, not a group's name.
\<close>

theorem log_never_reveals:
  assumes "t \<in> call_texts (Handle r) \<union> call_texts (WithAttrs as) \<union> call_texts (WithGroup name)"
  shows "\<not> reveals t"
  using assms scrub_free free_reveals scrubAttrs_clean by (auto simp: Handle_def WithAttrs_def WithGroup_def scrubAttrs_def)

theorem log_never_reveals_witness: "\<not> reveals (scrub ''nox://pair/x'')"
  by (rule log_never_reveals [of _ "\<lparr>sr_Message = ''nox://pair/x'', sr_Attrs = []\<rparr>" "[]" "''''"]) (simp add: Handle_def)

end
