(* ===== verification/Frames.thy ===== *)
theory Frames
  imports Store_Machine Hub Transfer_Tokens
begin

text \<open>
  The frames the server sends, as values: the greeting, the reply to a command with the
  reply struct of its handler, and the events. \<open>MarshalFrame\<close> turns a frame into the bytes of one
  JSON text; the model keeps the value. The command names and the off-journal event names of
  \<open>frames.go\<close> are here too, with \<open>eventEnvelope\<close>, which makes the two wire variants of a stored
  event.
\<close>

section \<open>Names\<close>

definition CmdSessionHello :: string where "CmdSessionHello = ''session.hello''"
definition CmdChatsList :: string where "CmdChatsList = ''chats.list''"
definition CmdChatGet :: string where "CmdChatGet = ''chat.get''"
definition CmdChatCreate :: string where "CmdChatCreate = ''chat.create''"
definition CmdChatRename :: string where "CmdChatRename = ''chat.rename''"
definition CmdChatNameAvailable :: string where "CmdChatNameAvailable = ''chat.nameAvailable''"
definition CmdChatFiles :: string where "CmdChatFiles = ''chat.files''"
definition CmdMessagesList :: string where "CmdMessagesList = ''messages.list''"
definition CmdMessageSend :: string where "CmdMessageSend = ''message.send''"
definition CmdFileUploadBegin :: string where "CmdFileUploadBegin = ''file.uploadBegin''"
definition CmdFileDownloadBegin :: string where "CmdFileDownloadBegin = ''file.downloadBegin''"
definition CmdPair :: string where "CmdPair = ''pair''"
definition CmdPairCancel :: string where "CmdPairCancel = ''pair.cancel''"
definition CmdDeviceList :: string where "CmdDeviceList = ''device.list''"
definition CmdDeviceRevoke :: string where "CmdDeviceRevoke = ''device.revoke''"
definition CmdDeviceInvite :: string where "CmdDeviceInvite = ''device.invite''"
definition CmdDeviceApprove :: string where "CmdDeviceApprove = ''device.approve''"
definition CmdIdentitySetLabel :: string where "CmdIdentitySetLabel = ''identity.setLabel''"

definition EventDeviceRevoked :: string where "EventDeviceRevoked = ''device.revoked''"
definition EventIdentityUpdated :: string where "EventIdentityUpdated = ''identity.updated''"
definition EventDevicePaired :: string where "EventDevicePaired = ''device.paired''"
definition EventPairResolved :: string where "EventPairResolved = ''pair.resolved''"
definition EventDevicePairRequested :: string where "EventDevicePairRequested = ''device.pairRequested''"
definition EventDevicePairResolved :: string where "EventDevicePairResolved = ''device.pairResolved''"
definition EventServerAddresses :: string where "EventServerAddresses = ''server.addresses''"

section \<open>Frames\<close>

record Limits =
  MaxMessageBytes :: int
  MaxAttachmentBytes :: int
  MaxFrameBytes :: int

record addressSet =
  as_Version :: nat
  as_Direct :: "string list"
  as_Public :: string
  as_Onion :: string

record greetingIdentity =
  gi_ID :: string
  gi_Label :: string

record identity = greetingIdentity +
  wi_Created :: bool

definition wireIdentity :: "Identity \<Rightarrow> identity" where
  "wireIdentity i = \<lparr>gi_ID = id_UserID i, gi_Label = id_Label i, wi_Created = id_Created i\<rparr>"

record helloReply =
  hr_Schema :: int
  hr_Cursor :: int
  hr_JournalID :: string
  hr_Limits :: Limits
  hr_Identity :: greetingIdentity
  hr_Addresses :: addressSet

record inviteReply =
  ir_Token :: string
  ir_Link :: string
  ir_Onion :: bool
  ir_Public :: bool

record uploadBeginReply =
  ur_FileID :: string
  ur_UploadURL :: string
  ur_UploadToken :: string
  ur_MaxAttachmentBytes :: int
  ur_Received :: int

record downloadBeginReply =
  dr_DownloadURL :: string
  dr_DownloadToken :: string

text \<open>\<open>pairReply\<close> is one of two shapes, never both.\<close>

datatype pairReply = PairIdentity identity | PairStatus string string int

datatype reply_data =
    RHello helloReply
  | RChat Chat
  | RChats "Chat list" bool
  | RAvailable bool
  | RMessages "Message list" bool
  | RMessage Message
  | RPair pairReply
  | REmpty
  | RDevices "Device list"
  | RInvite inviteReply
  | RLabel string
  | RUpload uploadBeginReply
  | RDownload downloadBeginReply
  | RFiles "ChatFileEntry list" bool

text \<open>The data of an event: a stored payload, or one of the off-journal structs.\<close>

datatype event_data =
    EPayload payload
  | EDeviceRevoked string
  | EIdentityUpdated string
  | EDevicePaired
  | EPairRequested string string int
  | EPairResolved string "identity option"
  | EDevicePairResolved string
  | EServerAddresses addressSet

text \<open>\<open>Goodbye\<close> is the nil frame of \<open>closeAfterFlush\<close>, with the reason that goes with it.\<close>

datatype frame =
    Greeting int
  | FReply "reply_data Reply"
  | Event int string event_data
  | Goodbye string

section \<open>The two variants of a stored event\<close>

definition zero_message :: Message where
  "zero_message = \<lparr>msg_MessageID = '''', msg_Seq = 0, msg_ChatID = '''', msg_AuthorID = '''', msg_AuthorLabel = '''',
     msg_ClientMessageID = '''', msg_SentAt = 0, msg_Body = None, msg_Attachment = None\<rparr>"

text \<open>A payload read as a \<open>protocol.Message\<close>: a chat's has only the chat id in common with it.\<close>

definition payload_message :: "payload \<Rightarrow> Message option" where
  "payload_message p =
     (case p of
        PEmpty \<Rightarrow> None
      | PMessage m \<Rightarrow> Some m
      | PChat c \<Rightarrow> Some (zero_message\<lparr>msg_ChatID := ChatID c\<rparr>))"

text \<open>Marshalling an event fails exactly when its raw data is the empty text.\<close>

definition eventEnvelope :: "StoredEvent \<Rightarrow> frame Envelope option" where
  "eventEnvelope ev =
     (if ev_Payload ev = PEmpty then None
      else let full = Event (ev_Seq ev) (ev_Type ev) (EPayload (ev_Payload ev))
           in if ev_Type ev \<noteq> EventMessageNew then Some \<lparr>env_AuthorID = '''', env_Full = full, env_Stripped = full\<rparr>
              else case payload_message (ev_Payload ev) of
                     None \<Rightarrow> None
                   | Some msg \<Rightarrow> Some \<lparr>env_AuthorID = msg_AuthorID msg, env_Full = full,
                       env_Stripped = Event (ev_Seq ev) (ev_Type ev) (EPayload (PMessage (msg\<lparr>msg_ClientMessageID := ''''\<rparr>)))\<rparr>)"

lemma eventEnvelope_message:
  "ev_Type ev = EventMessageNew \<Longrightarrow> ev_Payload ev = PMessage m \<Longrightarrow>
   eventEnvelope ev = Some \<lparr>env_AuthorID = msg_AuthorID m, env_Full = Event (ev_Seq ev) EventMessageNew (EPayload (PMessage m)),
     env_Stripped = Event (ev_Seq ev) EventMessageNew (EPayload (PMessage (m\<lparr>msg_ClientMessageID := ''''\<rparr>)))\<rparr>"
  by (simp add: eventEnvelope_def payload_message_def)

lemma eventEnvelope_total: "ev_Payload ev \<noteq> PEmpty \<Longrightarrow> \<exists>env. eventEnvelope ev = Some env"
  by (cases "ev_Payload ev") (auto simp: eventEnvelope_def payload_message_def Let_def)

end
