(* ===== verification/Registry.thy ===== *)
theory Registry
  imports Frames
begin

text \<open>
  The connection registry of \<open>internal/server\<close>: \<open>client.go\<close>, \<open>unpaired.go\<close>, \<open>requests.go\<close> and the
  registry half of \<open>server.go\<close> and \<open>addresses.go\<close>. A \<open>*client\<close> is a number, the heap of clients a
  function; the sets and maps guarded by \<open>Server.mu\<close> are fields of the \<open>server\<close> record. A client's
  queue keeps every frame ever queued, oldest first; \<open>cl_close\<close> is the first close asked for,
  as \<open>closeOnce\<close> keeps it. A close, a goodbye or an event that the code leaves to a goroutine
  happens at once. Time is in nanoseconds; \<open>holdGen\<close> is a counter no run exhausts.
  \<open>sv_timers\<close> remembers every timer armed: \<open>Stop\<close> may come after a timer fired, so any
  of them may still call \<open>outOfTime\<close>.
\<close>

section \<open>State\<close>

datatype close_code = StatusNormalClosure | StatusProtocolError | StatusPolicyViolation | StatusInternalError | StatusTryAgainLater

record client =
  cl_deviceKey :: string
  cl_requestHost :: string
  cl_helloDone :: bool
  cl_revoked :: bool
  cl_greeted :: bool
  cl_addrVersion :: nat
  cl_unpaired :: bool
  cl_waitsOn :: string
  cl_deadline :: "(nat \<times> int) option"
  cl_holdGen :: nat
  cl_identity :: Identity
  cl_sub :: bool
  cl_forward :: bool
  cl_out :: "frame list"
  cl_close :: "(close_code \<times> string) option"

record server =
  sv_db :: db
  sv_client :: "nat \<Rightarrow> client"
  sv_conns :: "nat list"
  sv_transfers :: "(nat \<times> string) list"
  sv_transfersCut :: "nat list"
  sv_unpaired :: "nat list"
  sv_waits :: "string \<Rightarrow> nat option"
  sv_timers :: "(nat \<times> nat) list"
  sv_maxUnpaired :: int
  sv_unpairedTimeout :: int
  sv_requestSweep :: int
  sv_unpairedCut :: int
  sv_unpairedWarned :: int
  sv_kick :: bool
  sv_addrKick :: bool
  sv_addrs :: "addressSet option"
  sv_limits :: Limits
  sv_cfgAddr :: string
  sv_hub :: "frame Hub"
  sv_tokens :: tokenStore

definition defaultUnpairedTimeout :: int where
  "defaultUnpairedTimeout = 2 * 60 * 1000000000"

definition defaultMaxUnpaired :: int where
  "defaultMaxUnpaired = 32"

definition defaultRequestSweep :: int where
  "defaultRequestSweep = 2 * 1000000000"

definition shedLogInterval :: int where
  "shedLogInterval = 60 * 1000000000"

definition Unix :: "int \<Rightarrow> int" where
  "Unix now = now div 1000000000"

definition newClient :: "string \<Rightarrow> string \<Rightarrow> client" where
  "newClient key host = \<lparr>cl_deviceKey = key, cl_requestHost = host, cl_helloDone = False, cl_revoked = False,
     cl_greeted = False, cl_addrVersion = 0, cl_unpaired = False, cl_waitsOn = '''', cl_deadline = None, cl_holdGen = 0,
     cl_identity = no_identity, cl_sub = False, cl_forward = False, cl_out = [], cl_close = None\<rparr>"

definition newServer :: "db \<Rightarrow> Limits \<Rightarrow> string \<Rightarrow> server" where
  "newServer s lim addr = \<lparr>sv_db = s, sv_client = (\<lambda>_. newClient '''' ''''), sv_conns = [], sv_transfers = [], sv_transfersCut = [],
     sv_unpaired = [], sv_waits = (\<lambda>_. None), sv_timers = [], sv_maxUnpaired = defaultMaxUnpaired,
     sv_unpairedTimeout = defaultUnpairedTimeout, sv_requestSweep = defaultRequestSweep, sv_unpairedCut = 0,
     sv_unpairedWarned = 0, sv_kick = False, sv_addrKick = False, sv_addrs = None, sv_limits = lim, sv_cfgAddr = addr,
     sv_hub = NewHub, sv_tokens = newTokenStore\<rparr>"

section \<open>Client operations\<close>

definition upd :: "nat \<Rightarrow> (client \<Rightarrow> client) \<Rightarrow> server \<Rightarrow> server" where
  "upd i f s = s\<lparr>sv_client := (sv_client s)(i := f (sv_client s i))\<rparr>"

definition sendFrame :: "nat \<Rightarrow> frame \<Rightarrow> server \<Rightarrow> server" where
  "sendFrame i fr = upd i (\<lambda>c. c\<lparr>cl_out := cl_out c @ [fr]\<rparr>)"

definition sendFrames :: "nat list \<Rightarrow> frame \<Rightarrow> server \<Rightarrow> server" where
  "sendFrames is fr s = fold (\<lambda>i. sendFrame i fr) is s"

definition close :: "nat \<Rightarrow> close_code \<Rightarrow> string \<Rightarrow> server \<Rightarrow> server" where
  "close i code reason = upd i (\<lambda>c. if cl_close c = None then c\<lparr>cl_close := Some (code, reason)\<rparr> else c)"

definition closeAfterFlush :: "nat \<Rightarrow> string \<Rightarrow> server \<Rightarrow> server" where
  "closeAfterFlush i reason = upd i (\<lambda>c. c\<lparr>cl_out := cl_out c @ [Goodbye reason]\<rparr>)"

section \<open>A stranger's limits\<close>

definition pairedKey :: "faults \<Rightarrow> string \<Rightarrow> db \<Rightarrow> bool" where
  "pairedKey flt key s = (case DeviceOwner flt key s of Inl e \<Rightarrow> False | Inr (owner, found) \<Rightarrow> found)"

definition letGoLocked :: "nat \<Rightarrow> server \<Rightarrow> server" where
  "letGoLocked i s =
     (let c = sv_client s i;
          s1 = (if cl_unpaired c then s\<lparr>sv_unpaired := remove1 i (sv_unpaired s)\<rparr> else s);
          s2 = (if cl_waitsOn c \<noteq> '''' then s1\<lparr>sv_waits := (sv_waits s1)(cl_waitsOn c := None)\<rparr> else s1)
      in upd i (\<lambda>c. c\<lparr>cl_unpaired := False, cl_waitsOn := '''', cl_deadline := None, cl_holdGen := cl_holdGen c + 1\<rparr>) s2)"

definition armLocked :: "nat \<Rightarrow> int \<Rightarrow> server \<Rightarrow> server" where
  "armLocked i d s =
     (let gen = cl_holdGen (sv_client s i) + 1
      in (upd i (\<lambda>c. c\<lparr>cl_holdGen := gen, cl_deadline := Some (gen, d)\<rparr>) s)\<lparr>sv_timers := (i, gen) # sv_timers s\<rparr>)"

definition outOfTime :: "nat \<Rightarrow> nat \<Rightarrow> server \<Rightarrow> server" where
  "outOfTime i gen s =
     (if cl_holdGen (sv_client s i) = gen
      then close i StatusPolicyViolation ''not paired in time'' (letGoLocked i s) else s)"

text \<open>
  The loop of \<open>placeUnpairedLocked\<close>: every turn takes the front of the list out, so it walks
  the list as it stood.
\<close>

fun make_room :: "nat list \<Rightarrow> server \<Rightarrow> server \<times> nat list" where
  "make_room [] s = (s, [])"
| "make_room (oldest # rest) s =
     (if int (length (oldest # rest)) \<ge> sv_maxUnpaired s
      then let (s1, removed) = make_room rest (letGoLocked oldest s) in (s1, oldest # removed)
      else (s, []))"

definition placeUnpairedLocked :: "nat \<Rightarrow> int \<Rightarrow> server \<Rightarrow> server \<times> nat list \<times> int" where
  "placeUnpairedLocked i now s =
     (let (s1, removed) = make_room (sv_unpaired s) s;
          s2 = (upd i (\<lambda>c. c\<lparr>cl_unpaired := True\<rparr>) s1)\<lparr>sv_unpaired := sv_unpaired s1 @ [i]\<rparr>;
          s3 = armLocked i (sv_unpairedTimeout s2) s2
      in if removed = [] then (s3, removed, 0)
         else let total = sv_unpairedCut s3 + int (length removed)
              in if now - sv_unpairedWarned s3 \<ge> shedLogInterval
                 then (s3\<lparr>sv_unpairedCut := 0, sv_unpairedWarned := now\<rparr>, removed, total)
                 else (s3\<lparr>sv_unpairedCut := total\<rparr>, removed, 0))"

text \<open>The warning \<open>closeToMakeRoom\<close> logs has no effect on the state.\<close>

definition closeToMakeRoom :: "nat list \<Rightarrow> server \<Rightarrow> server" where
  "closeToMakeRoom removed s = fold (\<lambda>old. close old StatusTryAgainLater ''too many unpaired connections'') removed s"

definition holdUnpaired :: "nat \<Rightarrow> int \<Rightarrow> server \<Rightarrow> server" where
  "holdUnpaired i now s = (let (s1, removed, report) = placeUnpairedLocked i now s in closeToMakeRoom removed s1)"

definition settleUnpaired :: "nat \<Rightarrow> server \<Rightarrow> server" where
  "settleUnpaired i s = letGoLocked i s"

definition endWait :: "PairRequest \<Rightarrow> int \<Rightarrow> server \<Rightarrow> server" where
  "endWait r now s =
     (case sv_waits s (pr_RequestID r) of
        None \<Rightarrow> s
      | Some holder \<Rightarrow>
          let s1 = letGoLocked holder s
          in if pr_Outcome r \<noteq> OutcomeAllowed
             then let (s2, removed, report) = placeUnpairedLocked holder now s1 in closeToMakeRoom removed s2
             else s1)"

text \<open>The locked half of \<open>awaitAnswer\<close>, with the close of the connection it leaves.\<close>

definition takeWait :: "nat \<Rightarrow> PairRequest \<Rightarrow> int \<Rightarrow> server \<Rightarrow> server" where
  "takeWait i r now s =
     (let s1 = letGoLocked i s;
          left = sv_waits s1 (pr_RequestID r);
          s2 = (case left of None \<Rightarrow> s1 | Some l \<Rightarrow> letGoLocked l s1);
          s3 = (upd i (\<lambda>c. c\<lparr>cl_waitsOn := pr_RequestID r\<rparr>) s2)\<lparr>sv_waits := (sv_waits s2)(pr_RequestID r \<mapsto> i)\<rparr>;
          s4 = armLocked i (pr_ExpiresAt r * 1000000000 - now + sv_requestSweep s3 + sv_unpairedTimeout s3) s3
      in case left of
           None \<Rightarrow> s4
         | Some l \<Rightarrow> close l StatusTryAgainLater ''another connection presented the invite'' s4)"

text \<open>
  \<open>snap\<close> is the database when the wait has taken hold and the outcome is asked again: the
  request may have closed meanwhile.
\<close>

definition awaitAnswer :: "faults \<Rightarrow> nat \<Rightarrow> PairRequest \<Rightarrow> int \<Rightarrow> db \<Rightarrow> server \<Rightarrow> server" where
  "awaitAnswer flt i r now snap s =
     (if \<not> cl_unpaired (sv_client s i) \<and> cl_waitsOn (sv_client s i) = '''' then s
      else let s1 = takeWait i r now s
           in case PairRequestOutcome flt (pr_RequestID r) snap of
                Inl e \<Rightarrow> if cl_close (sv_client s1 i) \<noteq> None then s1 else endWait (r\<lparr>pr_Outcome := ''''\<rparr>) now s1
              | Inr outcome \<Rightarrow> if outcome \<noteq> '''' then endWait (r\<lparr>pr_Outcome := outcome\<rparr>) now s1 else s1)"

section \<open>The registry\<close>

definition track :: "nat \<Rightarrow> server \<Rightarrow> server" where
  "track i s = s\<lparr>sv_conns := (if i \<in> set (sv_conns s) then sv_conns s else sv_conns s @ [i])\<rparr>"

definition untrack :: "nat \<Rightarrow> server \<Rightarrow> server" where
  "untrack i s = letGoLocked i (s\<lparr>sv_conns := removeAll i (sv_conns s)\<rparr>)"

definition trackTransfer :: "nat \<Rightarrow> string \<Rightarrow> server \<Rightarrow> server" where
  "trackTransfer t key s = s\<lparr>sv_transfers := (t, key) # sv_transfers s\<rparr>"

definition setIdentity :: "nat \<Rightarrow> Identity \<Rightarrow> server \<Rightarrow> server" where
  "setIdentity i ident = upd i (\<lambda>c. c\<lparr>cl_identity := ident\<rparr>)"

definition currentIdentity :: "nat \<Rightarrow> server \<Rightarrow> Identity" where
  "currentIdentity i s = cl_identity (sv_client s i)"

definition connectionsWhere :: "(nat \<Rightarrow> client \<Rightarrow> bool) \<Rightarrow> server \<Rightarrow> nat list" where
  "connectionsWhere match s = filter (\<lambda>i. match i (sv_client s i)) (sv_conns s)"

definition sendTo :: "nat list \<Rightarrow> string \<Rightarrow> event_data \<Rightarrow> server \<Rightarrow> server" where
  "sendTo targets name data s = sendFrames targets (Event 0 name data) s"

definition dropDevice :: "string \<Rightarrow> server \<Rightarrow> server" where
  "dropDevice key s =
     (let doomed = filter (\<lambda>i. cl_deviceKey (sv_client s i) = key) (sv_conns s);
          s1 = fold (\<lambda>i t. letGoLocked i (upd i (\<lambda>c. c\<lparr>cl_revoked := True\<rparr>) t)) doomed s;
          removed = map fst (filter (\<lambda>tr. snd tr = key) (sv_transfers s));
          s2 = s1\<lparr>sv_transfersCut := sv_transfersCut s1 @ removed\<rparr>
      in fold (\<lambda>i t. closeAfterFlush i ''device revoked'' (sendFrame i (Event 0 EventDeviceRevoked (EDeviceRevoked key)) t)) doomed s2)"

definition refreshLabel :: "string \<Rightarrow> string \<Rightarrow> nat \<Rightarrow> server \<Rightarrow> server" where
  "refreshLabel userID label origin s =
     (let mine = filter (\<lambda>i. id_UserID (cl_identity (sv_client s i)) = userID) (sv_conns s);
          s1 = fold (\<lambda>i. upd i (\<lambda>c. c\<lparr>cl_identity := (cl_identity c)\<lparr>id_Label := label\<rparr>\<rparr>)) mine s
      in sendFrames (filter (\<lambda>i. i \<noteq> origin) mine) (Event 0 EventIdentityUpdated (EIdentityUpdated label)) s1)"

definition announceDevicesChanged :: "string \<Rightarrow> nat option \<Rightarrow> server \<Rightarrow> server" where
  "announceDevicesChanged userID except s =
     sendFrames (connectionsWhere (\<lambda>i c. id_UserID (cl_identity c) = userID \<and> Some i \<noteq> except) s)
       (Event 0 EventDevicePaired EDevicePaired) s"

definition announcePaired :: "nat \<Rightarrow> string \<Rightarrow> server \<Rightarrow> server" where
  "announcePaired origin userID = announceDevicesChanged userID (Some origin)"

definition pairRequestedEvent :: "PairRequest \<Rightarrow> frame" where
  "pairRequestedEvent r = Event 0 EventDevicePairRequested (EPairRequested (pr_RequestID r) (pr_Platform r) (pr_ExpiresAt r))"

definition announcePairRequested :: "PairRequest \<Rightarrow> server \<Rightarrow> server" where
  "announcePairRequested r s =
     sendFrames (connectionsWhere (\<lambda>i c. cl_deviceKey c = pr_IssuerKey r \<and> cl_greeted c) s) (pairRequestedEvent r) s"

definition tellNewDevice :: "PairRequest \<Rightarrow> identity option \<Rightarrow> server \<Rightarrow> server" where
  "tellNewDevice r ident s =
     sendTo (connectionsWhere (\<lambda>i c. cl_deviceKey c = pr_DeviceKey r \<and> \<not> cl_greeted c) s)
       EventPairResolved (EPairResolved (pr_Outcome r) ident) s"

definition tellIssuer :: "PairRequest \<Rightarrow> server \<Rightarrow> server" where
  "tellIssuer r s =
     sendTo (connectionsWhere (\<lambda>i c. cl_deviceKey c = pr_IssuerKey r \<and> cl_greeted c) s)
       EventDevicePairResolved (EDevicePairResolved (pr_RequestID r)) s"

definition announcePairClosed :: "PairRequest \<Rightarrow> identity option \<Rightarrow> int \<Rightarrow> server \<Rightarrow> server" where
  "announcePairClosed r ident now s = tellIssuer r (tellNewDevice r ident (endWait r now s))"

text \<open>\<open>snap\<close> is the database of the second read, after the requests went out.\<close>

definition resendPairRequests :: "faults \<Rightarrow> faults \<Rightarrow> nat \<Rightarrow> int \<Rightarrow> int \<Rightarrow> db \<Rightarrow> server \<Rightarrow> server" where
  "resendPairRequests flt flt' i now now' snap s =
     (let key = cl_deviceKey (sv_client s i)
      in case WaitingPairRequests flt key (Unix now) (sv_db s) of
           Inl e \<Rightarrow> s
         | Inr waiting \<Rightarrow>
             let s1 = fold (\<lambda>r. sendFrame i (pairRequestedEvent r)) waiting s
             in if waiting = [] then s1
                else case WaitingPairRequests flt' key (Unix now') snap of
                       Inl e \<Rightarrow> s1
                     | Inr still \<Rightarrow>
                         fold (\<lambda>r. sendFrame i (Event 0 EventDevicePairResolved (EDevicePairResolved (pr_RequestID r))))
                           (filter (\<lambda>r. pr_RequestID r \<notin> pr_RequestID ` set still) waiting) s1)"

text \<open>One tick of \<open>runRequestSweeper\<close>.\<close>

definition sweepRequests :: "faults \<Rightarrow> int \<Rightarrow> db \<Rightarrow> server \<Rightarrow> server" where
  "sweepRequests flt now snap s =
     (case ExpirePairRequests flt (Unix now) snap (sv_db s) of
        (Inl e, d) \<Rightarrow> s\<lparr>sv_db := d\<rparr>
      | (Inr closed, d) \<Rightarrow> fold (\<lambda>r. announcePairClosed r None now) closed (s\<lparr>sv_db := d\<rparr>))"

definition markGreeted :: "nat \<Rightarrow> nat \<Rightarrow> server \<Rightarrow> server" where
  "markGreeted i version = upd i (\<lambda>c. c\<lparr>cl_greeted := True, cl_addrVersion := version\<rparr>)"

definition pokeAddresses :: "server \<Rightarrow> server" where
  "pokeAddresses s = s\<lparr>sv_addrKick := True\<rparr>"

definition kickDispatcher :: "server \<Rightarrow> server" where
  "kickDispatcher s = s\<lparr>sv_kick := True\<rparr>"

definition equal_addresses :: "addressSet \<Rightarrow> addressSet \<Rightarrow> bool" where
  "equal_addresses a b \<longleftrightarrow> as_Public a = as_Public b \<and> as_Onion a = as_Onion b \<and> as_Direct a = as_Direct b"

text \<open>\<open>next\<close> is what \<open>computeAddresses\<close> found.\<close>

definition refreshAddresses :: "addressSet \<Rightarrow> server \<Rightarrow> bool \<times> server" where
  "refreshAddresses nxt s =
     (case sv_addrs s of
        None \<Rightarrow> (True, s\<lparr>sv_addrs := Some (nxt\<lparr>as_Version := 1\<rparr>)\<rparr>)
      | Some cur \<Rightarrow>
          if equal_addresses cur nxt then (False, s)
          else (True, s\<lparr>sv_addrs := Some (nxt\<lparr>as_Version := as_Version cur + 1\<rparr>)\<rparr>))"

definition sendAddresses :: "server \<Rightarrow> server" where
  "sendAddresses s =
     (case sv_addrs s of
        None \<Rightarrow> s
      | Some cur \<Rightarrow>
          let targets = filter (\<lambda>i. cl_greeted (sv_client s i) \<and> cl_addrVersion (sv_client s i) < as_Version cur) (sv_conns s);
              s1 = fold (\<lambda>i. upd i (\<lambda>c. c\<lparr>cl_addrVersion := as_Version cur\<rparr>)) targets s
          in sendFrames targets (Event 0 EventServerAddresses (EServerAddresses cur)) s1)"

end
