(* ===== verification/Registry_Properties.thy ===== *)
theory Registry_Properties
  imports Registry
begin

text \<open>
  The limits a stranger's connection is held to. Every operation of the registry runs under
  \<open>Server.mu\<close>, so the registry is a state machine whose steps are these operations, in any
  order; a handler is a sequence of such steps, and between two of them any other connection's
  steps may come. The invariant \<open>reg_ok\<close> ties the list of places, the map of waits, the hold of each
  client and the timers armed so far together.
\<close>

section \<open>Invariant\<close>

definition held :: "server \<Rightarrow> nat \<Rightarrow> bool" where
  "held s i \<longleftrightarrow> cl_unpaired (sv_client s i) \<or> cl_waitsOn (sv_client s i) \<noteq> ''''"

definition holds_ok :: "server \<Rightarrow> bool" where
  "holds_ok s \<longleftrightarrow> distinct (sv_unpaired s)
     \<and> (\<forall>i. cl_unpaired (sv_client s i) \<longleftrightarrow> i \<in> set (sv_unpaired s))
     \<and> (\<forall>r i. sv_waits s r = Some i \<longleftrightarrow> r \<noteq> '''' \<and> cl_waitsOn (sv_client s i) = r)
     \<and> (\<forall>i. cl_unpaired (sv_client s i) \<longrightarrow> cl_waitsOn (sv_client s i) = '''')
     \<and> (\<forall>i. held s i \<longrightarrow> i \<in> set (sv_conns s))"

definition timers_ok :: "server \<Rightarrow> bool" where
  "timers_ok s \<longleftrightarrow> (\<forall>i. held s i \<longleftrightarrow> cl_deadline (sv_client s i) \<noteq> None)
     \<and> (\<forall>i g d. cl_deadline (sv_client s i) = Some (g, d) \<longrightarrow> g = cl_holdGen (sv_client s i) \<and> (i, g) \<in> set (sv_timers s))
     \<and> (\<forall>i g. (i, g) \<in> set (sv_timers s) \<longrightarrow> g \<le> cl_holdGen (sv_client s i) \<and> (g = cl_holdGen (sv_client s i) \<longrightarrow> held s i))"

definition reg_ok :: "server \<Rightarrow> bool" where
  "reg_ok s \<longleftrightarrow> holds_ok s \<and> timers_ok s"

definition capped :: "int \<Rightarrow> server \<Rightarrow> bool" where
  "capped m s \<longleftrightarrow> sv_maxUnpaired s = m \<and> int (length (sv_unpaired s)) \<le> max 1 m"

text \<open>Two states with the same holds: everything else may differ.\<close>

definition same_holds :: "server \<Rightarrow> server \<Rightarrow> bool" where
  "same_holds s t \<longleftrightarrow> sv_unpaired t = sv_unpaired s \<and> sv_waits t = sv_waits s \<and> sv_timers t = sv_timers s
     \<and> sv_conns t = sv_conns s \<and> sv_maxUnpaired t = sv_maxUnpaired s
     \<and> (\<forall>i. cl_unpaired (sv_client t i) = cl_unpaired (sv_client s i) \<and> cl_waitsOn (sv_client t i) = cl_waitsOn (sv_client s i)
          \<and> cl_deadline (sv_client t i) = cl_deadline (sv_client s i) \<and> cl_holdGen (sv_client t i) = cl_holdGen (sv_client s i))"

lemma same_holds_refl [simp]: "same_holds s s"
  by (simp add: same_holds_def)

lemma same_holds_trans: "same_holds s t \<Longrightarrow> same_holds t u \<Longrightarrow> same_holds s u"
  by (simp add: same_holds_def)

lemma same_holds_held: "same_holds s t \<Longrightarrow> held t i = held s i"
  by (simp add: same_holds_def held_def)

lemma reg_ok_frame:
  assumes "same_holds s t" "reg_ok s"
  shows "reg_ok t"
proof -
  have e: "sv_unpaired t = sv_unpaired s" "sv_waits t = sv_waits s" "sv_timers t = sv_timers s" "sv_conns t = sv_conns s"
    "\<And>i. cl_unpaired (sv_client t i) = cl_unpaired (sv_client s i)" "\<And>i. cl_waitsOn (sv_client t i) = cl_waitsOn (sv_client s i)"
    "\<And>i. cl_deadline (sv_client t i) = cl_deadline (sv_client s i)" "\<And>i. cl_holdGen (sv_client t i) = cl_holdGen (sv_client s i)"
    using assms(1) by (simp_all add: same_holds_def)
  show ?thesis using assms(2) unfolding reg_ok_def holds_ok_def timers_ok_def e same_holds_held [OF assms(1)] .
qed

lemma wait_unique:
  assumes "holds_ok s" "cl_waitsOn (sv_client s i) = cl_waitsOn (sv_client s j)" "cl_waitsOn (sv_client s j) \<noteq> ''''"
  shows "i = j"
proof -
  have "sv_waits s (cl_waitsOn (sv_client s j)) = Some i" "sv_waits s (cl_waitsOn (sv_client s j)) = Some j"
    using assms unfolding holds_ok_def by blast+
  then show ?thesis by simp
qed

lemma timers_old:
  "timers_ok s \<Longrightarrow> (j, g) \<in> set (sv_timers s) \<Longrightarrow> g \<le> cl_holdGen (sv_client s j) \<and> (g = cl_holdGen (sv_client s j) \<longrightarrow> held s j)"
  unfolding timers_ok_def by blast

lemma capped_frame: "same_holds s t \<Longrightarrow> capped m s \<Longrightarrow> capped m t"
  by (simp add: same_holds_def capped_def)

lemma same_holds_fold: "(\<And>x t. same_holds t (f x t)) \<Longrightarrow> same_holds s (fold f xs s)"
  by (induction xs arbitrary: s) (auto intro: same_holds_trans)

lemma same_holds_simple [simp]:
  "same_holds s (sendFrame i fr s)" "same_holds s (close i code reason s)" "same_holds s (closeAfterFlush i reason s)"
  "same_holds s (setIdentity i ident s)" "same_holds s (markGreeted i v s)" "same_holds s (s\<lparr>sv_transfersCut := cs\<rparr>)"
  "same_holds s (trackTransfer k key s)" "same_holds s (s\<lparr>sv_db := d\<rparr>)" "same_holds s (kickDispatcher s)" "same_holds s (pokeAddresses s)"
  by (simp_all add: same_holds_def sendFrame_def close_def closeAfterFlush_def setIdentity_def markGreeted_def upd_def trackTransfer_def
      kickDispatcher_def pokeAddresses_def)

lemma same_holds_fans [simp]:
  "same_holds s (sendFrames is fr s)" "same_holds s (closeToMakeRoom is s)" "same_holds s (sendTo is nm ev s)"
  unfolding sendTo_def sendFrames_def closeToMakeRoom_def by (rule same_holds_fold, simp)+

lemma same_holds_tell [simp]:
  "same_holds s (tellIssuer r s)" "same_holds s (tellNewDevice r i s)" "same_holds s (announcePairRequested r s)"
  "same_holds s (announceDevicesChanged u ex s)" "same_holds s (announcePaired o' u s)"
  by (simp_all add: tellIssuer_def tellNewDevice_def announcePairRequested_def announceDevicesChanged_def announcePaired_def)

section \<open>Letting go, placing, waiting\<close>

lemma letGo_fields:
  "sv_conns (letGoLocked i s) = sv_conns s" "sv_timers (letGoLocked i s) = sv_timers s" "sv_maxUnpaired (letGoLocked i s) = sv_maxUnpaired s"
  "sv_unpaired (letGoLocked i s) = (if cl_unpaired (sv_client s i) then remove1 i (sv_unpaired s) else sv_unpaired s)"
  "sv_waits (letGoLocked i s) = (if cl_waitsOn (sv_client s i) \<noteq> '''' then (sv_waits s)(cl_waitsOn (sv_client s i) := None) else sv_waits s)"
  "sv_client (letGoLocked i s) j = (if j = i then (sv_client s i)\<lparr>cl_unpaired := False, cl_waitsOn := '''', cl_deadline := None,
      cl_holdGen := cl_holdGen (sv_client s i) + 1\<rparr> else sv_client s j)"
  "sv_db (letGoLocked i s) = sv_db s"
  by (simp_all add: letGoLocked_def upd_def Let_def)

lemma letGo_held: "held (letGoLocked i s) j \<longleftrightarrow> j \<noteq> i \<and> held s j"
  by (simp add: held_def letGo_fields)

lemma letGo_ok:
  assumes "reg_ok s"
  shows "reg_ok (letGoLocked i s)"
proof -
  have h: "holds_ok s" and t: "timers_ok s" using assms by (simp_all add: reg_ok_def)
  have "holds_ok (letGoLocked i s)"
    using h wait_unique [OF h] unfolding holds_ok_def letGo_held by (auto simp: letGo_fields)
  moreover have late: "(i, Suc (cl_holdGen (sv_client s i))) \<notin> set (sv_timers s)" using timers_old [OF t] by fastforce
  moreover have "timers_ok (letGoLocked i s)"
    using t late timers_old [OF t, of i] unfolding timers_ok_def letGo_held by (auto simp: letGo_fields le_Suc_eq)
  ultimately show ?thesis by (simp add: reg_ok_def)
qed

lemma letGo_unpaired: "reg_ok s \<Longrightarrow> sv_unpaired (letGoLocked i s) = remove1 i (sv_unpaired s)"
  by (auto simp: letGo_fields reg_ok_def holds_ok_def remove1_idem)

lemma letGo_capped: "reg_ok s \<Longrightarrow> capped m s \<Longrightarrow> capped m (letGoLocked i s)"
  by (auto simp: capped_def letGo_unpaired letGo_fields(3) length_remove1)

text \<open>A hold taken and armed at once: \<open>f\<close> makes it a place or a wait.\<close>

lemma arm_fields:
  "sv_conns (armLocked i d s) = sv_conns s" "sv_unpaired (armLocked i d s) = sv_unpaired s" "sv_waits (armLocked i d s) = sv_waits s"
  "sv_maxUnpaired (armLocked i d s) = sv_maxUnpaired s"
  "sv_timers (armLocked i d s) = (i, cl_holdGen (sv_client s i) + 1) # sv_timers s"
  "sv_client (armLocked i d s) j = (if j = i then (sv_client s i)\<lparr>cl_holdGen := cl_holdGen (sv_client s i) + 1,
      cl_deadline := Some (cl_holdGen (sv_client s i) + 1, d)\<rparr> else sv_client s j)"
  by (simp_all add: armLocked_def upd_def Let_def)

lemma arm_held: "held (armLocked i d s) j = held s j"
  by (simp add: held_def arm_fields)

lemma arm_timers:
  assumes "timers_ok s" "\<And>j. j \<noteq> i \<Longrightarrow> sv_client t j = sv_client s j" "cl_holdGen (sv_client t i) = cl_holdGen (sv_client s i)"
    "sv_timers t = sv_timers s" "held t i"
  shows "timers_ok (armLocked i d t)"
proof -
  let ?t = "armLocked i d t"
  have other: "held t j = held s j" if "j \<noteq> i" for j using assms(2) [OF that] by (simp add: held_def)
  note old = timers_old [OF assms(1)]
  have "held ?t j \<longleftrightarrow> cl_deadline (sv_client ?t j) \<noteq> None" for j
    using assms(1,2,5) other unfolding arm_held by (cases "j = i") (simp_all add: arm_fields timers_ok_def)
  moreover have "g = cl_holdGen (sv_client ?t j) \<and> (j, g) \<in> set (sv_timers ?t)" if "cl_deadline (sv_client ?t j) = Some (g, d')" for j g d'
    using assms(1,2,4) that by (cases "j = i") (auto simp: arm_fields timers_ok_def)
  moreover have "g \<le> cl_holdGen (sv_client ?t j) \<and> (g = cl_holdGen (sv_client ?t j) \<longrightarrow> held ?t j)" if "(j, g) \<in> set (sv_timers ?t)" for j g
    using that assms(2,3,4,5) old [of j g] other unfolding arm_held by (cases "j = i") (auto simp: arm_fields)
  ultimately show ?thesis unfolding timers_ok_def by blast
qed

definition placed :: "nat \<Rightarrow> server \<Rightarrow> server" where
  "placed i s = (upd i (\<lambda>c. c\<lparr>cl_unpaired := True\<rparr>) s)\<lparr>sv_unpaired := sv_unpaired s @ [i]\<rparr>"

lemma place_ok:
  assumes "reg_ok s" "\<not> held s i" "i \<in> set (sv_conns s)"
  shows "reg_ok (armLocked i d (placed i s))"
proof -
  have h: "holds_ok s" and t: "timers_ok s" using assms by (simp_all add: reg_ok_def)
  have "holds_ok (armLocked i d (placed i s))"
    using h assms(2,3) unfolding holds_ok_def arm_held by (auto simp: arm_fields placed_def upd_def held_def)
  moreover have "timers_ok (armLocked i d (placed i s))"
    by (rule arm_timers [OF t]) (simp_all add: placed_def upd_def held_def)
  ultimately show ?thesis by (simp add: reg_ok_def)
qed

lemma make_room_ok:
  assumes "reg_ok s" "sv_unpaired s = os" "make_room os s = (s1, removed)"
  shows "reg_ok s1 \<and> os = removed @ sv_unpaired s1 \<and> (sv_unpaired s1 = [] \<or> int (length (sv_unpaired s1)) < sv_maxUnpaired s)
    \<and> sv_conns s1 = sv_conns s \<and> sv_maxUnpaired s1 = sv_maxUnpaired s \<and> sv_waits s1 = sv_waits s
    \<and> (\<forall>j. j \<notin> set removed \<longrightarrow> sv_client s1 j = sv_client s j)"
  using assms
proof (induction os arbitrary: s s1 removed)
  case (Cons o' os)
  show ?case
  proof (cases "int (length (o' # os)) \<ge> sv_maxUnpaired s")
    case True
    then obtain rem where m: "make_room os (letGoLocked o' s) = (s1, rem)" "removed = o' # rem"
      using Cons.prems(3) by (auto split: prod.splits)
    have un: "cl_unpaired (sv_client s o')" "cl_waitsOn (sv_client s o') = ''''"
      using Cons.prems(1,2) by (auto simp: reg_ok_def holds_ok_def)
    have "sv_unpaired (letGoLocked o' s) = os" using Cons.prems(1,2) by (simp add: letGo_unpaired)
    from Cons.IH [OF letGo_ok [OF Cons.prems(1)] this m(1)] show ?thesis
      using m(2) un by (simp add: letGo_fields)
  qed (use Cons.prems in auto)
qed auto

lemma placeUnpaired_ok:
  assumes "reg_ok s" "\<not> held s i" "i \<in> set (sv_conns s)" "placeUnpairedLocked i now s = (t, removed, report)"
  shows "reg_ok t \<and> capped (sv_maxUnpaired s) t \<and> sv_unpaired s @ [i] = removed @ sv_unpaired t \<and> sv_waits t = sv_waits s
    \<and> (\<forall>j. cl_waitsOn (sv_client s j) \<noteq> '''' \<longrightarrow> j \<notin> set removed \<and> sv_client t j = sv_client s j)"
proof -
  obtain s1 where s1: "make_room (sv_unpaired s) s = (s1, removed)"
    using assms(4) by (auto simp: placeUnpairedLocked_def Let_def split: prod.splits if_splits)
  note room = make_room_ok [OF assms(1) refl s1]
  have ni: "i \<notin> set (sv_unpaired s)" using assms(1,2) by (auto simp: reg_ok_def holds_ok_def held_def)
  then have "i \<notin> set removed" using room by auto
  then have nh: "\<not> held s1 i" using assms(2) room by (simp add: held_def)
  let ?t = "armLocked i (sv_unpairedTimeout (placed i s1)) (placed i s1)"
  have t: "reg_ok ?t" using place_ok [of s1 i] nh room assms(3) by simp
  have same: "same_holds ?t t" "sv_client t = sv_client ?t"
    using assms(4) s1 by (auto simp: placeUnpairedLocked_def Let_def placed_def same_holds_def split: if_splits)
  have un: "sv_unpaired ?t = sv_unpaired s1 @ [i]" "sv_waits ?t = sv_waits s1" "sv_maxUnpaired ?t = sv_maxUnpaired s"
    using room by (simp_all add: arm_fields placed_def upd_def)
  have other: "j \<notin> set removed \<and> sv_client t j = sv_client s j" if w: "cl_waitsOn (sv_client s j) \<noteq> ''''" for j
  proof -
    have "j \<notin> set (sv_unpaired s)" using assms(1) w by (auto simp: reg_ok_def holds_ok_def)
    then have "j \<notin> set removed" using room by auto
    moreover have "j \<noteq> i" using assms(2) w by (auto simp: held_def)
    ultimately show ?thesis using room same(2) by (simp add: arm_fields placed_def upd_def)
  qed
  have "capped (sv_maxUnpaired s) ?t" using room un by (auto simp: capped_def)
  then show ?thesis using t same other un room reg_ok_frame [OF same(1)] capped_frame [OF same(1)] by (auto simp: same_holds_def)
qed

section \<open>The operations keep the invariant\<close>

lemma holdUnpaired_ok: "reg_ok s \<Longrightarrow> capped m s \<Longrightarrow> \<not> held s i \<Longrightarrow> i \<in> set (sv_conns s) \<Longrightarrow> reg_ok (holdUnpaired i now s) \<and> capped m (holdUnpaired i now s)"
proof -
  assume a: "reg_ok s" "\<not> held s i" "i \<in> set (sv_conns s)" and "capped m s"
  then have m: "sv_maxUnpaired s = m" by (simp add: capped_def)
  obtain t removed report where p: "placeUnpairedLocked i now s = (t, removed, report)" by (cases "placeUnpairedLocked i now s") auto
  have "same_holds t (holdUnpaired i now s)" by (simp add: holdUnpaired_def p)
  then show ?thesis using placeUnpaired_ok [OF a p] m reg_ok_frame capped_frame by blast
qed

lemma endWait_ok:
  assumes "reg_ok s" "capped m s"
  shows "reg_ok (endWait r now s) \<and> capped m (endWait r now s)"
proof (cases "sv_waits s (pr_RequestID r)")
  case (Some i)
  let ?s = "letGoLocked i s"
  have s: "reg_ok ?s" "capped m ?s" using letGo_ok letGo_capped assms by blast+
  have "i \<in> set (sv_conns ?s)" using assms(1) Some by (auto simp: reg_ok_def holds_ok_def held_def letGo_fields)
  then have "reg_ok (holdUnpaired i now ?s) \<and> capped m (holdUnpaired i now ?s)" using holdUnpaired_ok [OF s] by (simp add: letGo_held)
  moreover have "endWait r now s = (if pr_Outcome r \<noteq> OutcomeAllowed then holdUnpaired i now ?s else ?s)"
    using Some by (simp add: endWait_def holdUnpaired_def Let_def)
  ultimately show ?thesis using s by simp
qed (use assms in \<open>simp add: endWait_def\<close>)

definition waiting :: "nat \<Rightarrow> string \<Rightarrow> server \<Rightarrow> server" where
  "waiting i r s = (upd i (\<lambda>c. c\<lparr>cl_waitsOn := r\<rparr>) s)\<lparr>sv_waits := (sv_waits s)(r \<mapsto> i)\<rparr>"

lemma wait_ok:
  assumes "reg_ok s" "\<not> held s i" "i \<in> set (sv_conns s)" "r \<noteq> ''''" "sv_waits s r = None"
  shows "reg_ok (armLocked i d (waiting i r s))"
proof -
  have h: "holds_ok s" and t: "timers_ok s" using assms by (simp_all add: reg_ok_def)
  have none: "cl_waitsOn (sv_client s j) \<noteq> r" for j using h assms(4,5) unfolding holds_ok_def by (metis option.distinct(1))
  have "holds_ok (armLocked i d (waiting i r s))"
    using h assms(2,3,4) none unfolding holds_ok_def arm_held by (auto simp: arm_fields waiting_def upd_def held_def)
  moreover have "timers_ok (armLocked i d (waiting i r s))"
    by (rule arm_timers [OF t]) (simp_all add: waiting_def upd_def held_def assms)
  ultimately show ?thesis by (simp add: reg_ok_def)
qed

lemma takeWait_ok:
  assumes "reg_ok s" "capped m s" "held s i" "pr_RequestID r \<noteq> ''''"
  shows "reg_ok (takeWait i r now s) \<and> capped m (takeWait i r now s) \<and> sv_waits (takeWait i r now s) (pr_RequestID r) = Some i
    \<and> set (sv_unpaired (takeWait i r now s)) \<subseteq> set (sv_unpaired s)"
proof -
  let ?r = "pr_RequestID r"
  let ?s1 = "letGoLocked i s"
  define s2 where "s2 = (case sv_waits ?s1 ?r of None \<Rightarrow> ?s1 | Some l \<Rightarrow> letGoLocked l ?s1)"
  have s1: "reg_ok ?s1" "capped m ?s1" "\<not> held ?s1 i" using letGo_ok letGo_capped letGo_held assms by blast+
  have s2: "reg_ok s2" "capped m s2" "\<not> held s2 i"
    using s1 letGo_ok letGo_capped letGo_held by (auto simp: s2_def split: option.split)
  have "i \<in> set (sv_conns s)" using assms(1,3) by (auto simp: reg_ok_def holds_ok_def)
  then have conn: "i \<in> set (sv_conns s2)" by (simp add: s2_def letGo_fields split: option.split)
  have free: "sv_waits s2 ?r = None"
  proof (cases "sv_waits ?s1 ?r")
    case (Some l)
    then have "cl_waitsOn (sv_client ?s1 l) = ?r" "?r \<noteq> ''''" using s1(1) unfolding reg_ok_def holds_ok_def by blast+
    then show ?thesis using Some by (simp add: s2_def letGo_fields(5))
  qed (simp add: s2_def)
  define d where "d = pr_ExpiresAt r * 1000000000 - now + sv_requestSweep (waiting i ?r s2) + sv_unpairedTimeout (waiting i ?r s2)"
  have "reg_ok (armLocked i d (waiting i ?r s2))" by (rule wait_ok [OF s2(1) s2(3) conn assms(4) free])
  moreover have same: "same_holds (armLocked i d (waiting i ?r s2)) (takeWait i r now s)"
    by (cases "sv_waits ?s1 ?r") (simp_all add: takeWait_def Let_def s2_def waiting_def d_def)
  moreover have "capped m (armLocked i d (waiting i ?r s2))" using s2(2) by (simp add: capped_def arm_fields waiting_def upd_def)
  moreover have "set (sv_unpaired s2) \<subseteq> set (sv_unpaired s)"
    using letGo_unpaired [OF s1(1)] letGo_unpaired [OF assms(1)] by (auto simp: s2_def split: option.split dest: set_remove1_subset [THEN subsetD])
  moreover have "sv_waits (takeWait i r now s) ?r = Some i" "sv_unpaired (takeWait i r now s) = sv_unpaired s2"
    using same by (simp_all add: same_holds_def arm_fields waiting_def upd_def)
  ultimately show ?thesis using reg_ok_frame capped_frame by metis
qed

lemma awaitAnswer_ok:
  assumes "reg_ok s" "capped m s" "pr_RequestID r \<noteq> ''''"
  shows "reg_ok (awaitAnswer flt i r now snap s) \<and> capped m (awaitAnswer flt i r now snap s)"
proof (cases "held s i")
  case True
  note taken = takeWait_ok [OF assms(1,2) True assms(3), of now]
  then show ?thesis using True endWait_ok
    by (auto simp: awaitAnswer_def held_def Let_def split: sum.splits)
qed (use assms in \<open>simp add: awaitAnswer_def held_def\<close>)

lemma outOfTime_ok: "reg_ok s \<Longrightarrow> capped m s \<Longrightarrow> reg_ok (outOfTime i g s) \<and> capped m (outOfTime i g s)"
  using letGo_ok letGo_capped reg_ok_frame [OF same_holds_simple(2)] capped_frame [OF same_holds_simple(2)]
  by (simp add: outOfTime_def)

lemma untrack_ok:
  assumes "reg_ok s" "capped m s"
  shows "reg_ok (untrack i s) \<and> capped m (untrack i s)"
proof -
  let ?s = "letGoLocked i s"
  have e: "untrack i s = ?s\<lparr>sv_conns := removeAll i (sv_conns ?s)\<rparr>"
    by (simp add: untrack_def letGoLocked_def upd_def Let_def)
  have s: "reg_ok ?s" "capped m ?s" using letGo_ok letGo_capped assms by blast+
  have hd: "held (untrack i s) j = held ?s j" for j by (simp add: e held_def)
  have "reg_ok (untrack i s)"
    using s(1) letGo_held [of i s] unfolding reg_ok_def holds_ok_def timers_ok_def hd by (simp add: e) blast
  then show ?thesis using s(2) by (simp add: capped_def e)
qed

lemma track_ok:
  assumes "reg_ok s" "capped m s"
  shows "reg_ok (track i s) \<and> capped m (track i s)"
proof -
  have hd: "held (track i s) j = held s j" for j by (simp add: track_def held_def)
  show ?thesis using assms unfolding reg_ok_def holds_ok_def timers_ok_def hd capped_def by (simp add: track_def) blast
qed

lemma dropDevice_ok:
  assumes "reg_ok s" "capped m s"
  shows "reg_ok (dropDevice key s) \<and> capped m (dropDevice key s)"
proof -
  let ?f = "\<lambda>i t. letGoLocked i (upd i (\<lambda>c. c\<lparr>cl_revoked := True\<rparr>) t)"
  have mark: "same_holds t (upd i (\<lambda>c. c\<lparr>cl_revoked := True\<rparr>) t)" for i t by (simp add: same_holds_def upd_def)
  have one: "reg_ok t \<and> capped m t \<Longrightarrow> reg_ok (?f i t) \<and> capped m (?f i t)" for i t
    using letGo_ok letGo_capped reg_ok_frame [OF mark] capped_frame [OF mark] by blast
  have "reg_ok (fold ?f is s) \<and> capped m (fold ?f is s)" for "is"
    using assms by (induction "is" arbitrary: s) (auto simp: one)
  moreover have "same_holds (fold ?f is s) (fold (\<lambda>i t. closeAfterFlush i ''device revoked'' (sendFrame i (Event 0 EventDeviceRevoked (EDeviceRevoked key)) t))
      is ((fold ?f is s)\<lparr>sv_transfersCut := cs\<rparr>))" for "is" cs
    by (rule same_holds_trans [OF same_holds_simple(6) same_holds_fold]) (rule same_holds_trans [OF same_holds_simple(1,3)])
  ultimately show ?thesis unfolding dropDevice_def Let_def using reg_ok_frame capped_frame by blast
qed

section \<open>Runs of the registry\<close>

text \<open>
  Every operation on the registry, at the granularity of its lock. A connection joins as a new
  client; a wait begins only for a request the store gave, whose id is never empty.
\<close>

inductive reg_step :: "server \<Rightarrow> server \<Rightarrow> bool" where
  Joins: "i \<notin> set (sv_conns s) \<Longrightarrow> i \<notin> fst ` set (sv_timers s) \<Longrightarrow>
     reg_step s (track i (upd i (\<lambda>_. newClient key host) s))"
| Holds: "i \<in> set (sv_conns s) \<Longrightarrow> \<not> held s i \<Longrightarrow> reg_step s (holdUnpaired i now s)"
| Settles: "reg_step s (settleUnpaired i s)"
| Awaits: "pr_RequestID r \<noteq> '''' \<Longrightarrow> reg_step s (awaitAnswer flt i r now snap s)"
| Ends: "reg_step s (endWait r now s)"
| Fires: "(i, g) \<in> set (sv_timers s) \<Longrightarrow> reg_step s (outOfTime i g s)"
| Drops: "reg_step s (dropDevice key s)"
| Leaves: "reg_step s (untrack i s)"
| Sends: "reg_step s (sendFrame i fr s)"
| Closes: "reg_step s (close i code reason s)"

lemma joins_ok:
  assumes "reg_ok s" "capped m s" "i \<notin> set (sv_conns s)" "i \<notin> fst ` set (sv_timers s)"
  shows "reg_ok (track i (upd i (\<lambda>_. newClient key host) s)) \<and> capped m (track i (upd i (\<lambda>_. newClient key host) s))"
proof -
  let ?t = "upd i (\<lambda>_. newClient key host) s"
  have nh: "\<not> held s i" using assms(1,3) by (auto simp: reg_ok_def holds_ok_def)
  have hd: "held ?t j = held s j" for j using nh by (auto simp: held_def upd_def newClient_def)
  have "holds_ok ?t" using assms(1) nh unfolding reg_ok_def holds_ok_def hd by (auto simp: upd_def newClient_def held_def)
  moreover have "timers_ok ?t"
  proof -
    have to: "timers_ok s" using assms(1) by (simp add: reg_ok_def)
    have "held ?t j \<longleftrightarrow> cl_deadline (sv_client ?t j) \<noteq> None" for j
      using to nh unfolding hd by (cases "j = i") (simp_all add: upd_def newClient_def timers_ok_def)
    moreover have "g = cl_holdGen (sv_client ?t j) \<and> (j, g) \<in> set (sv_timers ?t)" if "cl_deadline (sv_client ?t j) = Some (g, d')" for j g d'
      using to that by (cases "j = i") (auto simp: upd_def newClient_def timers_ok_def)
    moreover have "g \<le> cl_holdGen (sv_client ?t j) \<and> (g = cl_holdGen (sv_client ?t j) \<longrightarrow> held ?t j)" if "(j, g) \<in> set (sv_timers ?t)" for j g
    proof -
      have "(j, g) \<in> set (sv_timers s)" using that by (simp add: upd_def)
      moreover from this have "j \<noteq> i" using assms(4) by force
      ultimately show ?thesis using timers_old [OF to] unfolding hd by (simp add: upd_def)
    qed
    ultimately show ?thesis unfolding timers_ok_def by blast
  qed
  moreover have "capped m ?t" using assms(2) by (simp add: capped_def upd_def)
  ultimately show ?thesis using track_ok by (simp add: reg_ok_def)
qed

lemma reg_step_ok: "reg_step s t \<Longrightarrow> reg_ok s \<and> capped m s \<Longrightarrow> reg_ok t \<and> capped m t"
proof (induction rule: reg_step.induct)
  case (Settles s i)
  then show ?case using letGo_ok letGo_capped by (simp add: settleUnpaired_def)
qed (auto simp: joins_ok holdUnpaired_ok awaitAnswer_ok endWait_ok outOfTime_ok dropDevice_ok untrack_ok
    intro: reg_ok_frame [OF same_holds_simple(1)] capped_frame [OF same_holds_simple(1)]
      reg_ok_frame [OF same_holds_simple(2)] capped_frame [OF same_holds_simple(2)])

lemma newServer_ok: "reg_ok (newServer d lim addr) \<and> capped defaultMaxUnpaired (newServer d lim addr)"
  by (auto simp: newServer_def newClient_def reg_ok_def holds_ok_def timers_ok_def held_def capped_def defaultMaxUnpaired_def)

lemma reg_run_ok:
  assumes "reg_step\<^sup>*\<^sup>* (newServer d lim addr) s"
  shows "reg_ok s \<and> capped defaultMaxUnpaired s"
  using assms by (induction rule: rtranclp_induct) (auto simp: newServer_ok dest: reg_step_ok)

text \<open>
  C34. Strangers are bounded, whatever the interleaving: at most thirty-two connections of keys nobody
  paired hold a place; a connection that waits for an answer holds none; every request is waited on by
  at most one connection; a connection held to anything is open in the registry and has a timer
  armed for exactly what it is held to; and a timer that fires for an earlier hold changes nothing.
\<close>

theorem strangers_bounded:
  assumes "reg_step\<^sup>*\<^sup>* (newServer d lim addr) s"
  shows "length (sv_unpaired s) \<le> 32 \<and> distinct (sv_unpaired s)
    \<and> (\<forall>i. cl_waitsOn (sv_client s i) \<noteq> '''' \<longrightarrow> i \<notin> set (sv_unpaired s))
    \<and> (\<forall>i j. cl_waitsOn (sv_client s i) = cl_waitsOn (sv_client s j) \<and> cl_waitsOn (sv_client s j) \<noteq> '''' \<longrightarrow> i = j)
    \<and> (\<forall>i. held s i \<longrightarrow> i \<in> set (sv_conns s) \<and> (\<exists>dl. cl_deadline (sv_client s i) = Some (cl_holdGen (sv_client s i), dl))
          \<and> (i, cl_holdGen (sv_client s i)) \<in> set (sv_timers s))
    \<and> (\<forall>i g. (i, g) \<in> set (sv_timers s) \<and> \<not> (held s i \<and> g = cl_holdGen (sv_client s i)) \<longrightarrow> outOfTime i g s = s)"
proof -
  from reg_run_ok [OF assms] have h: "holds_ok s" and t: "timers_ok s" and c: "capped defaultMaxUnpaired s" by (simp_all add: reg_ok_def)
  have "i \<in> set (sv_conns s) \<and> (\<exists>dl. cl_deadline (sv_client s i) = Some (cl_holdGen (sv_client s i), dl))
      \<and> (i, cl_holdGen (sv_client s i)) \<in> set (sv_timers s)" if hi: "held s i" for i
  proof -
    obtain g dl where gd: "cl_deadline (sv_client s i) = Some (g, dl)" using t hi unfolding timers_ok_def by (metis option.exhaust surj_pair)
    then have "g = cl_holdGen (sv_client s i) \<and> (i, g) \<in> set (sv_timers s)" using t unfolding timers_ok_def by blast
    moreover have "i \<in> set (sv_conns s)" using h hi unfolding holds_ok_def by blast
    ultimately show ?thesis using gd by blast
  qed
  moreover have "outOfTime i g s = s" if "(i, g) \<in> set (sv_timers s)" "\<not> (held s i \<and> g = cl_holdGen (sv_client s i))" for i g
    using timers_old [OF t that(1)] that(2) by (auto simp: outOfTime_def)
  moreover have "length (sv_unpaired s) \<le> 32" using c by (simp add: capped_def defaultMaxUnpaired_def)
  moreover have "distinct (sv_unpaired s)" "\<And>i. cl_waitsOn (sv_client s i) \<noteq> '''' \<Longrightarrow> i \<notin> set (sv_unpaired s)"
    using h unfolding holds_ok_def by blast+
  ultimately show ?thesis using wait_unique [OF h] by blast
qed

text \<open>A stranger's connection joins, is given a place, and its timer fires.\<close>

abbreviation sample_server :: server where
  "sample_server \<equiv> newServer empty_db \<lparr>MaxMessageBytes = 65536, MaxAttachmentBytes = 1000, MaxFrameBytes = 131072\<rparr> '':8080''"

definition sample_held :: server where
  "sample_held = holdUnpaired 7 0 (track 7 (upd 7 (\<lambda>_. newClient ''key'' ''host'') sample_server))"

lemma sample_held_run: "reg_step\<^sup>*\<^sup>* sample_server sample_held"
proof -
  let ?t = "track 7 (upd 7 (\<lambda>_. newClient ''key'' ''host'') sample_server)"
  have "reg_step sample_server ?t" by (rule Joins) (simp_all add: newServer_def)
  moreover have "reg_step ?t (holdUnpaired 7 0 ?t)"
    by (rule Holds) (simp_all add: track_def upd_def newServer_def newClient_def held_def)
  ultimately show ?thesis unfolding sample_held_def by (meson converse_rtranclp_into_rtranclp rtranclp.rtrancl_refl)
qed

theorem strangers_bounded_witness:
  "length (sv_unpaired sample_held) \<le> 32 \<and> sv_unpaired sample_held = [7] \<and> sv_timers sample_held = [(7, 1)]
   \<and> cl_close (sv_client (outOfTime 7 1 sample_held) 7) = Some (StatusPolicyViolation, ''not paired in time'')"
proof (intro conjI)
  show "length (sv_unpaired sample_held) \<le> 32" using strangers_bounded [OF sample_held_run] by blast
qed (simp_all add: sample_held_def holdUnpaired_def placeUnpairedLocked_def armLocked_def closeToMakeRoom_def outOfTime_def letGoLocked_def
    close_def track_def upd_def newServer_def newClient_def Let_def)

lemma closeToMakeRoom_client:
  "sv_client (closeToMakeRoom rs s) j = (if j \<in> set rs \<and> cl_close (sv_client s j) = None
     then (sv_client s j)\<lparr>cl_close := Some (StatusTryAgainLater, ''too many unpaired connections'')\<rparr> else sv_client s j)"
  unfolding closeToMakeRoom_def by (induction rs arbitrary: s) (auto simp: close_def upd_def)

lemma make_room_close: "make_room os s = (t, removed) \<Longrightarrow> cl_close (sv_client t j) = cl_close (sv_client s j)"
proof (induction os arbitrary: s t removed)
  case (Cons o' os)
  then show ?case by (fastforce simp: letGo_fields split: if_splits prod.splits)
qed auto

lemma make_room_one:
  assumes "make_room os s = (t, removed)" "length os \<le> 32" "sv_maxUnpaired s = 32"
  shows "length removed = (if length os < 32 then 0 else 1)"
proof (cases os)
  case (Cons o' rest)
  then show ?thesis using assms by (cases rest) (auto simp: letGo_fields split: if_splits prod.splits)
qed (use assms in auto)

text \<open>
  A newcomer never ends a wait: placing a stranger's connection takes the oldest place out when all
  thirty-two are taken, and none otherwise, and closes it; the newcomer is in; every connection
  that waits for an answer is left untouched, its deadline included.
\<close>

theorem newcomer_spares_waiting:
  assumes "reg_step\<^sup>*\<^sup>* (newServer d lim addr) s" "i \<in> set (sv_conns s)" "\<not> held s i"
  shows "\<exists>removed. sv_unpaired s @ [i] = removed @ sv_unpaired (holdUnpaired i now s) \<and> i \<in> set (sv_unpaired (holdUnpaired i now s))
    \<and> length removed = (if length (sv_unpaired s) < 32 then 0 else 1)
    \<and> (\<forall>j. cl_waitsOn (sv_client s j) \<noteq> '''' \<longrightarrow> sv_client (holdUnpaired i now s) j = sv_client s j)
    \<and> (\<forall>j \<in> set removed. cl_close (sv_client s j) = None \<longrightarrow>
         cl_close (sv_client (holdUnpaired i now s) j) = Some (StatusTryAgainLater, ''too many unpaired connections''))"
proof -
  from reg_run_ok [OF assms(1)] have ok: "reg_ok s" and c: "sv_maxUnpaired s = 32" "length (sv_unpaired s) \<le> 32"
    by (simp_all add: capped_def defaultMaxUnpaired_def)
  obtain t removed report where p: "placeUnpairedLocked i now s = (t, removed, report)" by (cases "placeUnpairedLocked i now s") auto
  obtain s1 where s1: "make_room (sv_unpaired s) s = (s1, removed)" and t: "\<And>j. cl_close (sv_client t j) = cl_close (sv_client s1 j)"
    using p by (auto simp: placeUnpairedLocked_def Let_def arm_fields upd_def split: prod.splits if_splits)
  note placed = placeUnpaired_ok [OF ok assms(3,2) p]
  have e: "holdUnpaired i now s = closeToMakeRoom removed t" by (simp add: holdUnpaired_def p)
  have u: "sv_unpaired (holdUnpaired i now s) = sv_unpaired t" using same_holds_fans(2) [of t removed] by (simp add: e same_holds_def)
  have n: "length removed = (if length (sv_unpaired s) < 32 then 0 else 1)" using make_room_one [OF s1] c by simp
  then have "sv_unpaired t \<noteq> []" using placed c by (auto split: if_splits)
  then have "last (sv_unpaired t) = i" using placed by (metis last_appendR last_snoc)
  then have "i \<in> set (sv_unpaired t)" using \<open>sv_unpaired t \<noteq> []\<close> last_in_set by blast
  then show ?thesis
    using placed n u make_room_close [OF s1] t by (intro exI [of _ removed]) (auto simp: e closeToMakeRoom_client)
qed

text \<open>The connection presents an invite and waits; then another stranger joins.\<close>

abbreviation sample_request :: PairRequest where
  "sample_request \<equiv> \<lparr>pr_RequestID = ''r_1'', pr_DeviceKey = ''key'', pr_Platform = ''ios'', pr_IssuerKey = ''phone'',
     pr_ExpiresAt = 600, pr_Outcome = '''', pr_token = ''tok''\<rparr>"

abbreviation sample_snap :: db where
  "sample_snap \<equiv> empty_db\<lparr>pair_requests := [\<lparr>r_request_id = ''r_1'', r_token = ''tok'', r_device_key = ''key'', r_platform = ''ios'',
     r_issuer_key = ''phone'', r_expires_at = 600, r_outcome = None, r_decided_at = None\<rparr>]\<rparr>"

definition sample_waiting :: server where
  "sample_waiting = track 8 (upd 8 (\<lambda>_. newClient ''other'' ''host'') (awaitAnswer no_faults 7 sample_request 0 sample_snap sample_held))"

lemmas reg_eval = sample_held_def holdUnpaired_def placeUnpairedLocked_def armLocked_def closeToMakeRoom_def letGoLocked_def
  awaitAnswer_def takeWait_def PairRequestOutcome_def null_string_def empty_db_def close_def track_def upd_def newServer_def newClient_def
  held_def Let_def

lemma sample_waiting_run: "reg_step\<^sup>*\<^sup>* sample_server sample_waiting"
proof -
  let ?t = "awaitAnswer no_faults 7 sample_request 0 sample_snap sample_held"
  have "reg_step sample_held ?t" by (rule Awaits) simp
  moreover have "reg_step ?t sample_waiting" unfolding sample_waiting_def by (rule Joins) (simp_all add: reg_eval)
  ultimately show ?thesis using sample_held_run by (meson rtranclp.rtrancl_into_rtrancl)
qed

theorem newcomer_spares_waiting_witness:
  "sv_waits sample_waiting ''r_1'' = Some 7 \<and> sv_client (holdUnpaired 8 0 sample_waiting) 7 = sv_client sample_waiting 7
   \<and> sv_unpaired (holdUnpaired 8 0 sample_waiting) = [8]"
proof -
  have "8 \<in> set (sv_conns sample_waiting)" "\<not> held sample_waiting 8" "cl_waitsOn (sv_client sample_waiting 7) \<noteq> ''''"
    by (simp_all add: sample_waiting_def reg_eval)
  moreover have "sv_waits sample_waiting ''r_1'' = Some 7" "sv_unpaired (holdUnpaired 8 0 sample_waiting) = [8]"
    by (simp_all add: sample_waiting_def reg_eval)
  ultimately show ?thesis using newcomer_spares_waiting [OF sample_waiting_run, of 8 0] by blast
qed

end
