(* ===== verification/Go_Net.thy ===== *)
theory Go_Net
  imports Store_Pairing Go_Runes
begin

text \<open>
  What the server uses of Go's \<open>net\<close>, \<open>net/netip\<close>, \<open>strconv\<close> and \<open>strings\<close> for addresses:
  \<open>SplitHostPort\<close>, \<open>JoinHostPort\<close>, \<open>ParseIP\<close> and the printing of an IP, \<open>ParseUint\<close> of a port. An
  \<open>net.IP\<close> is the list of its bytes, 4 or 16 of them.
\<close>

section \<open>Indices and affixes\<close>

fun index_of :: "char \<Rightarrow> string \<Rightarrow> nat option" where
  "index_of c [] = None"
| "index_of c (x # xs) = (if x = c then Some 0 else map_option Suc (index_of c xs))"

fun last_index_of :: "char \<Rightarrow> string \<Rightarrow> nat option" where
  "last_index_of c [] = None"
| "last_index_of c (x # xs) =
     (case last_index_of c xs of Some i \<Rightarrow> Some (Suc i) | None \<Rightarrow> if x = c then Some 0 else None)"

definition CutPrefix :: "string \<Rightarrow> string \<Rightarrow> string option" where
  "CutPrefix s p = (if take (length p) s = p then Some (drop (length p) s) else None)"

definition CutSuffix :: "string \<Rightarrow> string \<Rightarrow> string option" where
  "CutSuffix s p = (if length p \<le> length s \<and> drop (length s - length p) s = p then Some (take (length s - length p) s) else None)"

definition TrimSuffix :: "string \<Rightarrow> string \<Rightarrow> string" where
  "TrimSuffix s p = (case CutSuffix s p of None \<Rightarrow> s | Some t \<Rightarrow> t)"

definition HasSuffix :: "string \<Rightarrow> string \<Rightarrow> bool" where
  "HasSuffix s p \<longleftrightarrow> CutSuffix s p \<noteq> None"

section \<open>Host and port\<close>

definition SplitHostPort :: "string \<Rightarrow> (string \<times> string) option" where
  "SplitHostPort hp =
     (case last_index_of (CHR '':'') hp of
        None \<Rightarrow> None
      | Some i \<Rightarrow>
          let check = (\<lambda>host j k. if CHR ''['' \<in> set (drop j hp) \<or> CHR '']'' \<in> set (drop k hp) then None
                                  else Some (host, drop (i + 1) hp))
          in if hd hp = CHR ''['' then
               (case index_of (CHR '']'') hp of
                  None \<Rightarrow> None
                | Some e \<Rightarrow> if e + 1 = i then check (take (e - 1) (drop 1 hp)) 1 (e + 1) else None)
             else if CHR '':'' \<in> set (take i hp) then None
             else check (take i hp) 0 0)"

definition JoinHostPort :: "string \<Rightarrow> string \<Rightarrow> string" where
  "JoinHostPort host port =
     (if CHR '':'' \<in> set host then ''['' @ host @ '']:'' @ port else host @ '':'' @ port)"

definition is_digit :: "char \<Rightarrow> bool" where
  "is_digit c \<longleftrightarrow> 48 \<le> byte c \<and> byte c \<le> 57"

definition digits_value :: "string \<Rightarrow> nat" where
  "digits_value s = foldl (\<lambda>n c. n * 10 + (byte c - 48)) 0 s"

text \<open>\<open>strconv.ParseUint(s, 10, 16)\<close>: digits only, at most 65535.\<close>

definition ParseUint16 :: "string \<Rightarrow> nat option" where
  "ParseUint16 s = (if s \<noteq> '''' \<and> list_all is_digit s \<and> digits_value s < 65536 then Some (digits_value s) else None)"

lemma digits_value_snoc: "digits_value (s @ [c]) = digits_value s * 10 + (byte c - 48)"
  by (simp add: digits_value_def)

lemma decimal_digits: "list_all is_digit (decimal n) \<and> digits_value (decimal n) = n"
proof (induction n rule: decimal.induct)
  case (1 n)
  show ?case
  proof (cases "n < 10")
    case True
    then show ?thesis by (subst (1 2) decimal.simps) (simp add: is_digit_def byte_def digits_value_def)
  next
    case False
    have "byte (char_of (48 + n mod 10)) = 48 + n mod 10" by (simp add: byte_def)
    then have "is_digit (char_of (48 + n mod 10))" by (simp add: is_digit_def)
    with \<open>byte _ = _\<close> show ?thesis using False 1 by (subst (1 2) decimal.simps) (simp add: digits_value_snoc)
  qed
qed

section \<open>IP addresses\<close>

text \<open>The fields of a dotted address: the value so far and how many digits it has, then the bytes.\<close>

fun ipv4_fields :: "nat \<Rightarrow> nat \<Rightarrow> nat list \<Rightarrow> string \<Rightarrow> nat list option" where
  "ipv4_fields val len acc [] = (if length acc = 3 \<and> 0 < len then Some (acc @ [val]) else None)"
| "ipv4_fields val len acc (c # cs) =
     (if is_digit c then
        (if len = 1 \<and> val = 0 \<or> val * 10 + (byte c - 48) > 255 then None
         else ipv4_fields (val * 10 + (byte c - 48)) (len + 1) acc cs)
      else if c = CHR ''.'' then
        (if len = 0 \<or> cs = [] \<or> length acc = 3 then None else ipv4_fields 0 0 (acc @ [val]) cs)
      else None)"

definition parseIPv4 :: "string \<Rightarrow> nat list option" where
  "parseIPv4 s = ipv4_fields 0 0 [] s"

definition hex_value :: "char \<Rightarrow> nat option" where
  "hex_value c =
     (let n = byte c
      in if 48 \<le> n \<and> n \<le> 57 then Some (n - 48)
         else if 97 \<le> n \<and> n \<le> 102 then Some (n - 87)
         else if 65 \<le> n \<and> n \<le> 70 then Some (n - 55)
         else None)"

text \<open>The hex digits at the head of a text: their number, their value, and what follows.\<close>

fun hex_run :: "nat \<Rightarrow> nat \<Rightarrow> string \<Rightarrow> (nat \<times> nat \<times> string)" where
  "hex_run len acc [] = (len, acc, [])"
| "hex_run len acc (c # cs) =
     (case hex_value c of None \<Rightarrow> (len, acc, c # cs) | Some d \<Rightarrow> hex_run (len + 1) (acc * 16 + d) cs)"

lemma hex_run_length: "hex_run len acc s = (n, v, r) \<Longrightarrow> len \<le> n \<and> length r + n = length s + len"
  by (induction len acc s rule: hex_run.induct) (auto split: option.splits)

text \<open>
  The loop of \<open>parseIPv6\<close>: the bytes so far and where the ellipsis stands; it ends with the bytes, the
  ellipsis and the text not used. A group has one to four digits, which keeps it below 65536.
\<close>

function ipv6_groups :: "nat list \<Rightarrow> nat option \<Rightarrow> string \<Rightarrow> (nat list \<times> nat option \<times> string) option" where
  "ipv6_groups ip ell s =
     (if 16 \<le> length ip then Some (ip, ell, s)
      else let (len, acc, r) = hex_run 0 0 s
           in if len = 0 \<or> len > 4 then None
              else if r \<noteq> [] \<and> hd r = CHR ''.'' then
                (if ell = None \<and> length ip \<noteq> 12 \<or> length ip + 4 > 16 then None
                 else map_option (\<lambda>v4. (ip @ v4, ell, '''')) (parseIPv4 s))
              else let ip' = ip @ [acc div 256, acc mod 256]
                   in if r = [] then Some (ip', ell, '''')
                      else if hd r \<noteq> CHR '':'' \<or> tl r = [] then None
                      else if hd (tl r) = CHR '':'' then
                        (if ell \<noteq> None then None
                         else if tl (tl r) = [] then Some (ip', Some (length ip'), '''')
                         else ipv6_groups ip' (Some (length ip')) (tl (tl r)))
                      else ipv6_groups ip' ell (tl r))"
  by pat_completeness auto
termination by (relation "measure (\<lambda>(ip, ell, s). 16 - length ip)") auto

declare ipv6_groups.simps [simp del]

definition expand_ellipsis :: "nat list \<times> nat option \<times> string \<Rightarrow> nat list option" where
  "expand_ellipsis p =
     (case p of (ip, ell, s) \<Rightarrow>
        if s \<noteq> '''' then None
        else case ell of
               None \<Rightarrow> if length ip < 16 then None else Some ip
             | Some e \<Rightarrow> if length ip < 16 then Some (take e ip @ replicate (16 - length ip) 0 @ drop e ip) else None)"

definition parseIPv6 :: "string \<Rightarrow> nat list option" where
  "parseIPv6 s =
     (if take 2 s = ''::'' then
        (if drop 2 s = '''' then Some (replicate 16 0)
         else Option.bind (ipv6_groups [] (Some 0) (drop 2 s)) expand_ellipsis)
      else Option.bind (ipv6_groups [] None s) expand_ellipsis)"

text \<open>
  \<open>net.ParseIP\<close>: the first of dot, colon and percent sign decides; a zone is refused, so a
  percent sign anywhere is.
\<close>

definition ParseIP :: "string \<Rightarrow> nat list option" where
  "ParseIP s =
     (case List.find (\<lambda>c. c = CHR ''.'' \<or> c = CHR '':'' \<or> c = CHR ''%'') s of
        None \<Rightarrow> None
      | Some c \<Rightarrow>
          if c = CHR ''.'' then map_option (\<lambda>v4. replicate 10 0 @ [255, 255] @ v4) (parseIPv4 s)
          else if c = CHR '':'' then (if CHR ''%'' \<in> set s then None else parseIPv6 s)
          else None)"

definition To4 :: "nat list \<Rightarrow> nat list option" where
  "To4 ip =
     (if length ip = 4 then Some ip
      else if length ip = 16 \<and> take 10 ip = replicate 10 0 \<and> ip ! 10 = 255 \<and> ip ! 11 = 255 then Some (drop 12 ip)
      else None)"

definition string4 :: "nat list \<Rightarrow> string" where
  "string4 v4 = Join (map decimal v4) ''.''"

definition hex_digit :: "nat \<Rightarrow> char" where
  "hex_digit n = (if n < 10 then char_of (48 + n) else char_of (87 + n))"

fun hex :: "nat \<Rightarrow> string" where
  "hex n = (if n < 16 then [hex_digit n] else hex (n div 16) @ [hex_digit (n mod 16)])"

declare hex.simps [simp del]

fun groups :: "nat list \<Rightarrow> nat list" where
  "groups (a # b # r) = (a * 256 + b) # groups r"
| "groups _ = []"

text \<open>The first longest run of two zero groups or more, as its start and its end.\<close>

definition zero_run :: "nat list \<Rightarrow> nat \<times> nat" where
  "zero_run gs = fold (\<lambda>i (st, en). let l = length (takeWhile (\<lambda>g. g = 0) (drop i gs))
                                     in if 2 \<le> l \<and> en - st < l then (i, i + l) else (st, en)) [0..<length gs] (255, 255)"

definition string6 :: "nat list \<Rightarrow> string" where
  "string6 ip =
     (let gs = groups ip; (st, en) = zero_run gs
      in if st = 255 then Join (map hex gs) '':''
         else Join (map hex (take st gs)) '':'' @ ''::'' @ Join (map hex (drop en gs)) '':'')"

text \<open>\<open>IP.String\<close> of an address of 4 or 16 bytes.\<close>

definition IPString :: "nat list \<Rightarrow> string" where
  "IPString ip = (case To4 ip of Some v4 \<Rightarrow> string4 v4 | None \<Rightarrow> string6 ip)"

definition ValidString :: "string \<Rightarrow> bool" where
  "ValidString s \<longleftrightarrow> (\<forall>p \<in> set (runes s). \<not> (fst p = RuneError \<and> length (snd p) = 1))"

end
