(* ===== verification/Pairing_Link.thy ===== *)
theory Pairing_Link
  imports Go_Net Store_Machine
begin

text \<open>
  \<open>internal/server/pairing\_link.go\<close> and \<open>address\_settings.go\<close>: the addresses a machine stores, checked before
  they are st, and the link that carries them to a device, version 3 of its format. Keys and
  payloads are byte strings; a nil onion key is \<open>None\<close>. \<open>sha3\<close> (SHA3-256) and \<open>low\<close>
  (\<open>unicode.ToLower\<close>) are parameters.
\<close>

section \<open>The format\<close>

definition pairingLinkVersion :: nat where "pairingLinkVersion = 3"
definition pairingLinkPrefix :: string where "pairingLinkPrefix = ''nox://pair/''"
definition addrTypeIPv4 :: nat where "addrTypeIPv4 = 1"
definition addrTypeIPv6 :: nat where "addrTypeIPv6 = 2"
definition addrTypeName :: nat where "addrTypeName = 3"
definition addrTypeOnion :: nat where "addrTypeOnion = 4"
definition linkHeaderSize :: nat where "linkHeaderSize = 1 + 32 + 16"
definition maxLinkNameBytes :: nat where "maxLinkNameBytes = 253"

datatype link_error = ErrLinkMalformed | ErrLinkNewerVersion

record PairingLink =
  pl_ServerKey :: string
  pl_Token :: string
  pl_Direct :: "string list"
  pl_Onion :: "string option"

definition byte_of :: "nat \<Rightarrow> char" where
  "byte_of n = char_of n"

definition AppendUint16 :: "nat \<Rightarrow> string" where
  "AppendUint16 n = [byte_of (n div 256), byte_of (n mod 256)]"

definition Uint16 :: "string \<Rightarrow> nat" where
  "Uint16 b = byte (b ! 0) * 256 + byte (b ! 1)"

definition appendDirectAddress :: "string \<Rightarrow> string \<Rightarrow> string option" where
  "appendDirectAddress payload addr =
     (case SplitHostPort addr of
        None \<Rightarrow> None
      | Some (host, portStr) \<Rightarrow>
          (case ParseUint16 portStr of
             None \<Rightarrow> None
           | Some port \<Rightarrow>
               if port = 0 then None
               else
                 map_option (\<lambda>p. p @ AppendUint16 port)
                   (case ParseIP host of
                      Some ip \<Rightarrow>
                        (case To4 ip of
                           Some v4 \<Rightarrow> Some (payload @ [byte_of addrTypeIPv4, byte_of (4 + 2)] @ map byte_of v4)
                         | None \<Rightarrow> Some (payload @ [byte_of addrTypeIPv6, byte_of (16 + 2)] @ map byte_of ip))
                    | None \<Rightarrow>
                        if host = '''' \<or> length host > maxLinkNameBytes \<or> \<not> ValidString host \<or> CHR '':'' \<in> set host then None
                        else Some (payload @ [byte_of addrTypeName, byte_of (length host + 2)] @ host))))"

fun append_all :: "string \<Rightarrow> string list \<Rightarrow> string option" where
  "append_all payload [] = Some payload"
| "append_all payload (a # as) = Option.bind (appendDirectAddress payload a) (\<lambda>p. append_all p as)"

definition BuildPairingLink :: "string \<Rightarrow> string \<Rightarrow> string list \<Rightarrow> string option \<Rightarrow> string option" where
  "BuildPairingLink serverKey token direct onion =
     (if length serverKey \<noteq> 32 then None
      else case DecodeString URL token of
             None \<Rightarrow> None
           | Some tok \<Rightarrow>
               if length tok \<noteq> 16 then None
               else if direct = [] \<and> onion = None then None
               else Option.bind (append_all ([byte_of pairingLinkVersion] @ serverKey @ tok) direct) (\<lambda>payload.
                    (case onion of
                       None \<Rightarrow> Some (pairingLinkPrefix @ EncodeToString URL payload)
                     | Some key \<Rightarrow>
                         if length key \<noteq> 32 then None
                         else Some (pairingLinkPrefix @ EncodeToString URL (payload @ [byte_of addrTypeOnion, byte_of 32] @ key)))))"

definition parseDirectAddress :: "nat \<Rightarrow> string \<Rightarrow> link_error + string" where
  "parseDirectAddress kind value =
     onOk (if kind = addrTypeIPv4 then
             (if length value \<noteq> 4 + 2 then Inl ErrLinkMalformed else Inr (IPString (map byte (take 4 value))))
           else if kind = addrTypeIPv6 then
             (if length value \<noteq> 16 + 2 then Inl ErrLinkMalformed else Inr (IPString (map byte (take 16 value))))
           else if length value < 1 + 2 \<or> \<not> ValidString (take (length value - 2) value) then Inl ErrLinkMalformed
           else Inr (take (length value - 2) value)) (\<lambda>host.
     let port = Uint16 (drop (length value - 2) value)
     in if port = 0 then Inl ErrLinkMalformed else Inr (JoinHostPort host (decimal port)))"

text \<open>The loop over the addresses; \<open>known\<close> counts the ones of a type the parser knows.\<close>

function parse_addrs :: "string \<Rightarrow> nat \<Rightarrow> PairingLink \<Rightarrow> link_error + (nat \<times> PairingLink)" where
  "parse_addrs [] known out = Inr (known, out)"
| "parse_addrs [k] known out = Inl ErrLinkMalformed"
| "parse_addrs (k # n # rest) known out =
     (if length rest < byte n then Inl ErrLinkMalformed
      else let kind = byte k; value = take (byte n) rest; rest' = drop (byte n) rest
           in if kind = addrTypeIPv4 \<or> kind = addrTypeIPv6 \<or> kind = addrTypeName then
                onOk (parseDirectAddress kind value) (\<lambda>addr. parse_addrs rest' (known + 1) (out\<lparr>pl_Direct := pl_Direct out @ [addr]\<rparr>))
              else if kind = addrTypeOnion then
                (if byte n \<noteq> 32 then Inl ErrLinkMalformed
                 else parse_addrs rest' (known + 1) (if pl_Onion out = None then out\<lparr>pl_Onion := Some value\<rparr> else out))
              else parse_addrs rest' known out)"
  by pat_completeness auto
termination by (relation "measure (\<lambda>(s, k, out). length s)") auto

definition ParsePairingLink :: "string \<Rightarrow> link_error + PairingLink" where
  "ParsePairingLink link =
     (case CutPrefix (TrimSpace link) pairingLinkPrefix of
        None \<Rightarrow> Inl ErrLinkMalformed
      | Some rest \<Rightarrow>
          (case DecodeString URL rest of
             None \<Rightarrow> Inl ErrLinkMalformed
           | Some payload \<Rightarrow>
               if length payload < linkHeaderSize then Inl ErrLinkMalformed
               else if byte (payload ! 0) > pairingLinkVersion then Inl ErrLinkNewerVersion
               else if byte (payload ! 0) \<noteq> pairingLinkVersion then Inl ErrLinkMalformed
               else onOk (parse_addrs (drop linkHeaderSize payload) 0
                      \<lparr>pl_ServerKey = take 32 (drop 1 payload), pl_Token = EncodeToString URL (take 16 (drop 33 payload)),
                       pl_Direct = [], pl_Onion = None\<rparr>) (\<lambda>(known, out).
                    if known = 0 then Inl ErrLinkMalformed else Inr out)))"

section \<open>The stored addresses\<close>

definition onionPort :: string where "onionPort = ''443''"
definition onionVersion :: nat where "onionVersion = 3"
definition maxLabelBytes :: nat where "maxLabelBytes = 63"

definition base32_value :: "char \<Rightarrow> nat option" where
  "base32_value c =
     (let n = byte c in if 97 \<le> n \<and> n \<le> 122 then Some (n - 97) else if 50 \<le> n \<and> n \<le> 55 then Some (n - 24) else None)"

definition onionName :: "string \<Rightarrow> bool" where
  "onionName s \<longleftrightarrow> length s = 56 \<and> list_all (\<lambda>c. base32_value c \<noteq> None) s"

text \<open>\<open>onionAlphabet.DecodeString\<close> on whole groups of eight letters, which is what \<open>onionName\<close> lets through.\<close>

fun base32_decode :: "string \<Rightarrow> string option" where
  "base32_decode [] = Some []"
| "base32_decode (a # b # c # d # e # f # g # h # r) =
     (case (base32_value a, base32_value b, base32_value c, base32_value d,
            base32_value e, base32_value f, base32_value g, base32_value h, base32_decode r) of
        (Some a', Some b', Some c', Some d', Some e', Some f', Some g', Some h', Some r') \<Rightarrow>
          Some (map byte_of [a' * 8 + b' div 4, b' mod 4 * 64 + c' * 2 + d' div 16, d' mod 16 * 16 + e' div 2,
                             e' mod 2 * 128 + f' * 4 + g' div 8, g' mod 8 * 32 + h'] @ r')
      | _ \<Rightarrow> None)"
| "base32_decode _ = None"

definition onionChecksum :: "(string \<Rightarrow> string) \<Rightarrow> string \<Rightarrow> string" where
  "onionChecksum sha3 key = sha3 (''.onion checksum'' @ key @ [byte_of onionVersion])"

definition parseOnionAddress :: "(string \<Rightarrow> string) \<Rightarrow> string \<Rightarrow> (string \<times> string) option" where
  "parseOnionAddress sha3 raw =
     (let check = (\<lambda>host. case CutSuffix host ''.onion'' of
                      None \<Rightarrow> None
                    | Some name \<Rightarrow>
                        if \<not> onionName name then None
                        else case base32_decode name of
                               None \<Rightarrow> None
                             | Some decoded \<Rightarrow>
                                 if length decoded \<noteq> 35 then None
                                 else let key = take 32 decoded; sum = onionChecksum sha3 key
                                      in if byte (decoded ! 34) \<noteq> onionVersion \<or> decoded ! 32 \<noteq> sum ! 0 \<or> decoded ! 33 \<noteq> sum ! 1
                                         then None else Some (name @ ''.onion'', key))
      in case SplitHostPort raw of
           Some (h, port) \<Rightarrow> if port \<noteq> onionPort then None else check h
         | None \<Rightarrow> check raw)"

text \<open>\<open>strings.ToLower\<close>: every rune mapped, an invalid byte as \<open>RuneError\<close>.\<close>

definition ToLower :: "(rune \<Rightarrow> rune) \<Rightarrow> string \<Rightarrow> string" where
  "ToLower low s = concat (map (\<lambda>p. encode_rune (low (fst p))) (runes s))"

fun Split :: "char \<Rightarrow> string \<Rightarrow> string list" where
  "Split c [] = [[]]"
| "Split c (x # xs) =
     (if x = c then [] # Split c xs else case Split c xs of [] \<Rightarrow> [[x]] | l # ls \<Rightarrow> (x # l) # ls)"

definition host_char :: "char \<Rightarrow> bool" where
  "host_char c \<longleftrightarrow> 97 \<le> byte c \<and> byte c \<le> 122 \<or> 48 \<le> byte c \<and> byte c \<le> 57 \<or> c = CHR ''-''"

definition valid_label :: "string \<Rightarrow> bool" where
  "valid_label l \<longleftrightarrow> l \<noteq> '''' \<and> length l \<le> maxLabelBytes \<and> hd l \<noteq> CHR ''-'' \<and> last l \<noteq> CHR ''-'' \<and> list_all host_char l"

definition validHostName :: "string \<Rightarrow> bool" where
  "validHostName name \<longleftrightarrow>
     name \<noteq> '''' \<and> length name \<le> maxLinkNameBytes
     \<and> (let labels = Split (CHR ''.'') name
        in list_all valid_label labels
           \<and> rev (dropWhile is_digit (rev (dropWhile is_digit (last labels)))) \<noteq> '''')"

definition parsePublicAddress :: "(rune \<Rightarrow> rune) \<Rightarrow> string \<Rightarrow> string option" where
  "parsePublicAddress low raw =
     (case SplitHostPort raw of
        None \<Rightarrow> None
      | Some (host, portStr) \<Rightarrow>
          if host = '''' then None
          else case ParseUint16 portStr of
                 None \<Rightarrow> None
               | Some port \<Rightarrow>
                   if port = 0 then None
                   else case ParseIP host of
                          Some ip \<Rightarrow> Some (JoinHostPort (IPString ip) (decimal port))
                        | None \<Rightarrow>
                            let name = ToLower low (TrimSuffix host ''.'')
                            in if \<not> validHostName name \<or> HasSuffix name ''.onion'' then None
                               else Some (JoinHostPort name (decimal port)))"

datatype address_error = ErrInvalidAddress | ErrUnknownKind

definition normalizeAddress :: "(string \<Rightarrow> string) \<Rightarrow> (rune \<Rightarrow> rune) \<Rightarrow> string \<Rightarrow> string \<Rightarrow> address_error + string" where
  "normalizeAddress sha3 low kind raw =
     (if raw = '''' then Inr ''''
      else if kind = AddressPublic then
        (case parsePublicAddress low raw of None \<Rightarrow> Inl ErrInvalidAddress | Some a \<Rightarrow> Inr a)
      else if kind = AddressOnion then
        (case parseOnionAddress sha3 raw of None \<Rightarrow> Inl ErrInvalidAddress | Some (a, k) \<Rightarrow> Inr a)
      else Inl ErrUnknownKind)"

record configuredAddresses =
  ca_Public :: string
  ca_Onion :: string
  ca_OnionKey :: "string option"

definition configured :: "(string \<Rightarrow> string) \<Rightarrow> (rune \<Rightarrow> rune) \<Rightarrow> AddressesRow \<Rightarrow> configuredAddresses" where
  "configured sha3 low st =
     (let public = parsePublicAddress low (ar_Public st);
          onion = parseOnionAddress sha3 (ar_Onion st)
      in \<lparr>ca_Public = (case public of None \<Rightarrow> '''' | Some a \<Rightarrow> a),
          ca_Onion = (case onion of None \<Rightarrow> '''' | Some (a, k) \<Rightarrow> a),
          ca_OnionKey = (case onion of None \<Rightarrow> None | Some (a, k) \<Rightarrow> Some k)\<rparr>)"

definition onionHost :: "(rune \<Rightarrow> rune) \<Rightarrow> string \<Rightarrow> bool" where
  "onionHost low hostHeader =
     (let host = (case SplitHostPort hostHeader of None \<Rightarrow> hostHeader | Some (h, p) \<Rightarrow> h)
      in HasSuffix (ToLower low (TrimSuffix host ''.'')) ''.onion'')"

section \<open>The link every issuer hands out\<close>

record linkCarries =
  lc_Public :: bool
  lc_Onion :: bool

definition buildLink :: "string \<Rightarrow> string \<Rightarrow> string \<Rightarrow> configuredAddresses \<Rightarrow> (string \<times> linkCarries) option" where
  "buildLink serverKey token direct conf =
     (let addrs = (if ca_Public conf \<noteq> '''' then [ca_Public conf] else [])
                  @ (if direct \<noteq> '''' \<and> direct \<noteq> ca_Public conf then [direct] else [])
      in map_option (\<lambda>link. (link, \<lparr>lc_Public = (ca_Public conf \<noteq> ''''), lc_Onion = (ca_OnionKey conf \<noteq> None)\<rparr>))
           (BuildPairingLink serverKey token addrs (ca_OnionKey conf)))"

definition wildcard :: "string \<Rightarrow> bool" where
  "wildcard host \<longleftrightarrow> host = '''' \<or> host = ''0.0.0.0'' \<or> host = ''::''"

definition listenAddress :: "string \<Rightarrow> string" where
  "listenAddress addr =
     (case SplitHostPort addr of
        None \<Rightarrow> addr
      | Some (host, port) \<Rightarrow> JoinHostPort (if wildcard host then ''127.0.0.1'' else host) port)"

definition inviteAddress :: "string \<Rightarrow> string \<Rightarrow> string" where
  "inviteAddress cfgAddr requestHost =
     (case SplitHostPort cfgAddr of
        None \<Rightarrow> listenAddress cfgAddr
      | Some (host, port) \<Rightarrow>
          if \<not> wildcard host then listenAddress cfgAddr
          else if requestHost = '''' then listenAddress cfgAddr
          else let (reachedHost, reachedPort) = (case SplitHostPort requestHost of None \<Rightarrow> (requestHost, port) | Some hp \<Rightarrow> hp)
               in if reachedHost = '''' \<or> reachedPort = '''' then listenAddress cfgAddr
                  else JoinHostPort reachedHost reachedPort)"

end
