(* ===== verification/Link_Properties.thy ===== *)
theory Link_Properties
  imports Pairing_Link
begin

text \<open>
  What is promised of pairing links and stored addresses: a link that was built is read back, a parser
  of this version skips what it does not know, and what the address checks accept a link can carry.
\<close>

section \<open>Bytes\<close>

lemma byte_byte_of [simp]: "n < 256 \<Longrightarrow> byte (byte_of n) = n"
  by (simp add: byte_def byte_of_def)

lemma byte_of_byte [simp]: "byte_of (byte c) = c"
  by (simp add: byte_def byte_of_def)

definition is_bytes :: "nat list \<Rightarrow> bool" where
  "is_bytes bs \<longleftrightarrow> (\<forall>b \<in> set bs. b < 256)"

lemma is_bytes_simps [simp]:
  "is_bytes []" "is_bytes (b # bs) \<longleftrightarrow> b < 256 \<and> is_bytes bs" "is_bytes (xs @ ys) \<longleftrightarrow> is_bytes xs \<and> is_bytes ys" "is_bytes (replicate n 0)"
  "is_bytes xs \<Longrightarrow> is_bytes (take k xs)" "is_bytes xs \<Longrightarrow> is_bytes (drop k xs)"
  by (auto simp: is_bytes_def dest: in_set_takeD in_set_dropD)

lemma map_byte_of: "is_bytes bs \<Longrightarrow> map byte (map byte_of bs) = bs"
  by (induction bs) auto

lemma Uint16_append: "n < 65536 \<Longrightarrow> Uint16 (AppendUint16 n) = n"
  by (simp add: Uint16_def AppendUint16_def)

lemma ParseUint16_lt: "ParseUint16 s = Some n \<Longrightarrow> n < 65536 \<and> n = digits_value s"
  by (auto simp: ParseUint16_def split: if_splits)

section \<open>Parsed addresses are bytes\<close>

lemma ipv4_fields_bytes:
  "ipv4_fields val len acc s = Some v4 \<Longrightarrow> val < 256 \<Longrightarrow> is_bytes acc \<Longrightarrow> length acc \<le> 3
   \<Longrightarrow> length v4 = 4 \<and> is_bytes v4"
  by (induction val len acc s rule: ipv4_fields.induct) (auto split: if_splits)

lemma parseIPv4_bytes: "parseIPv4 s = Some v4 \<Longrightarrow> length v4 = 4 \<and> is_bytes v4"
  unfolding parseIPv4_def by (drule ipv4_fields_bytes) auto

lemma hex_value_lt: "hex_value c = Some d \<Longrightarrow> d < 16"
  by (auto simp: hex_value_def Let_def split: if_splits)

lemma hex_run_lt: "hex_run len acc s = (n, v, r) \<Longrightarrow> acc < 16 ^ len \<Longrightarrow> v < 16 ^ n"
proof (induction len acc s rule: hex_run.induct)
  case (2 len acc c cs)
  show ?case
  proof (cases "hex_value c")
    case (Some d)
    then have "d < 16" by (rule hex_value_lt)
    then have "acc * 16 + d < 16 ^ (len + 1)" using 2(3) by simp
    then show ?thesis using 2(1) [OF Some] 2(2) Some by simp
  qed (use 2 in auto)
qed auto

lemma ipv6_groups_cases:
  assumes "ipv6_groups ip ell s = Some res" "length ip < 16"
  obtains (dotted) v4 where "parseIPv4 s = Some v4" "length ip + 4 \<le> 16" "res = (ip @ v4, ell, '''')"
    | (ends) acc ell' where "acc < 65536" "ell' = ell \<or> ell' = Some (length ip + 2)" "res = (ip @ [acc div 256, acc mod 256], ell', '''')"
    | (goes_on) acc ell' t where "acc < 65536" "ell' = ell \<or> ell' = Some (length ip + 2)" "ipv6_groups (ip @ [acc div 256, acc mod 256]) ell' t = Some res"
proof -
  obtain len acc r where h: "hex_run 0 0 s = (len, acc, r)" by (cases "hex_run 0 0 s") auto
  have lt: "acc < 65536" if "len \<le> 4"
  proof -
    have "(16::nat) ^ len \<le> 16 ^ 4" using that by (rule power_increasing) simp
    then show ?thesis using hex_run_lt [OF h] by simp
  qed
  show ?thesis
    using assms lt dotted ends [of acc] goes_on [of acc]
    by (subst (asm) ipv6_groups.simps) (auto simp: h Let_def split: if_splits)
qed

lemma ipv6_groups_bytes:
  assumes "ipv6_groups ip ell s = Some (ip', ell', s')" "is_bytes ip" "length ip \<le> 16" "even (length ip)" "\<forall>e. ell = Some e \<longrightarrow> e \<le> length ip"
  shows "is_bytes ip' \<and> length ip' \<le> 16 \<and> (\<forall>e. ell' = Some e \<longrightarrow> e \<le> length ip')"
  using assms
proof (induction "16 - length ip" arbitrary: ip ell s rule: less_induct)
  case less
  show ?case
  proof (cases "length ip < 16")
    case False
    then show ?thesis using less.prems by (simp add: ipv6_groups.simps)
  next
    case True
    then have le: "length ip + 2 \<le> 16" using less.prems(4) by presburger
    from less.prems(1) True show ?thesis
    proof (cases rule: ipv6_groups_cases)
      case (dotted v4)
      then show ?thesis using less.prems parseIPv4_bytes [OF dotted(1)] by auto
    next
      case (ends acc e)
      then show ?thesis using less.prems le by (auto simp: less_mult_imp_div_less)
    next
      case (goes_on acc e t)
      show ?thesis
        by (rule less.hyps [OF _ goes_on(3)]) (use less.prems le goes_on(1,2) in \<open>auto simp: less_mult_imp_div_less\<close>)
    qed
  qed
qed

lemma expand_bytes:
  "expand_ellipsis (ip, ell, s) = Some ip' \<Longrightarrow> is_bytes ip \<Longrightarrow> length ip \<le> 16 \<Longrightarrow> (\<forall>e. ell = Some e \<longrightarrow> e \<le> length ip)
   \<Longrightarrow> length ip' = 16 \<and> is_bytes ip'"
  by (auto simp: expand_ellipsis_def split: if_splits option.splits)

lemma parseIPv6_bytes:
  assumes "parseIPv6 s = Some ip"
  shows "length ip = 16 \<and> is_bytes ip"
proof -
  have "length ip = 16 \<and> is_bytes ip" if b: "Option.bind (ipv6_groups [] ell t) expand_ellipsis = Some ip" and e0: "ell = None \<or> ell = Some 0" for ell t
  proof -
    obtain i e u where g: "ipv6_groups [] ell t = Some (i, e, u)" "expand_ellipsis (i, e, u) = Some ip"
      using b by (cases "ipv6_groups [] ell t") auto
    have "is_bytes i \<and> length i \<le> 16 \<and> (\<forall>x. e = Some x \<longrightarrow> x \<le> length i)"
      by (rule ipv6_groups_bytes [OF g(1)]) (use e0 in auto)
    then show ?thesis using expand_bytes [OF g(2)] by blast
  qed
  then show ?thesis using assms by (auto simp: parseIPv6_def split: if_splits)
qed

lemma ParseIP_bytes: "ParseIP s = Some ip \<Longrightarrow> length ip = 16 \<and> is_bytes ip"
  by (auto simp: ParseIP_def split: option.splits if_splits dest!: parseIPv4_bytes parseIPv6_bytes)

lemma To4_bytes: "To4 ip = Some v4 \<Longrightarrow> length ip = 16 \<Longrightarrow> is_bytes ip \<Longrightarrow> length v4 = 4 \<and> is_bytes v4"
  by (auto simp: To4_def split: if_splits)

section \<open>Links are read back\<close>

text \<open>An address in the spelling a link gives it: an IP as Go prints it, the port without leading zeros.\<close>

definition canonical :: "string \<Rightarrow> string" where
  "canonical addr =
     (case SplitHostPort addr of
        None \<Rightarrow> addr
      | Some (host, port) \<Rightarrow> JoinHostPort (case ParseIP host of Some ip \<Rightarrow> IPString ip | None \<Rightarrow> host) (decimal (digits_value port)))"

lemma IPString_To4: "To4 ip = Some v4 \<Longrightarrow> IPString v4 = IPString ip"
  by (auto simp: IPString_def To4_def split: if_splits)

lemma parse_record:
  assumes "k \<in> {addrTypeIPv4, addrTypeIPv6, addrTypeName}" "length value = n" "n < 256" "parseDirectAddress k value = Inr a"
  shows "parse_addrs ([byte_of k, byte_of n] @ value @ rest) known out = parse_addrs rest (known + 1) (out\<lparr>pl_Direct := pl_Direct out @ [a]\<rparr>)"
proof -
  have "k < 256" using assms(1) by (auto simp: addrTypeIPv4_def addrTypeIPv6_def addrTypeName_def)
  then show ?thesis using assms by (auto simp: Let_def)
qed

lemma parseDirect_port:
  assumes "0 < port" "port < 65536"
  shows "Uint16 (drop (length (body @ AppendUint16 port) - 2) (body @ AppendUint16 port)) = port"
    "take (length (body @ AppendUint16 port) - 2) (body @ AppendUint16 port) = body"
  using Uint16_append [OF assms(2)] by (simp_all add: AppendUint16_def)

lemma parseDirect_ip:
  assumes "is_bytes ip" "length ip = n" "0 < port" "port < 65536" "k = addrTypeIPv4 \<and> n = 4 \<or> k = addrTypeIPv6 \<and> n = 16"
  shows "parseDirectAddress k (map byte_of ip @ AppendUint16 port) = Inr (JoinHostPort (IPString ip) (decimal port))"
proof -
  define v where "v = map byte_of ip @ AppendUint16 port"
  have "map byte (map byte_of ip) = ip" by (rule map_byte_of [OF assms(1)])
  then have "length v = n + 2" "map byte (take n v) = ip" using assms(2) by (simp_all add: v_def AppendUint16_def)
  moreover have "Uint16 (drop (length v - 2) v) = port" unfolding v_def by (rule parseDirect_port [OF assms(3,4)])
  ultimately show ?thesis
    using assms(3,5) unfolding v_def [symmetric] parseDirectAddress_def by (auto simp: addrTypeIPv4_def addrTypeIPv6_def)
qed

lemma parseDirect_name:
  assumes "host \<noteq> ''''" "ValidString host" "0 < port" "port < 65536"
  shows "parseDirectAddress addrTypeName (host @ AppendUint16 port) = Inr (JoinHostPort host (decimal port))"
proof -
  let ?v = "host @ AppendUint16 port"
  have "\<not> length ?v < 1 + 2" using assms(1) by (cases host) (simp_all add: AppendUint16_def)
  then show ?thesis using assms(2,3) parseDirect_port [OF assms(3,4), of host]
    unfolding parseDirectAddress_def by (auto simp: addrTypeIPv4_def addrTypeIPv6_def addrTypeName_def simp del: drop_append)
qed

lemma direct_read_back:
  assumes "appendDirectAddress payload addr = Some q"
  obtains rec where "q = payload @ rec"
    "\<And>rest known out. parse_addrs (rec @ rest) known out = parse_addrs rest (known + 1) (out\<lparr>pl_Direct := pl_Direct out @ [canonical addr]\<rparr>)"
proof -
  obtain host ps port where hp: "SplitHostPort addr = Some (host, ps)" "ParseUint16 ps = Some port" "0 < port"
    using assms by (auto simp: appendDirectAddress_def split: option.splits if_splits)
  have p: "port < 65536" "port = digits_value ps" using ParseUint16_lt [OF hp(2)] by simp_all
  have len: "length (AppendUint16 port) = 2" by (simp add: AppendUint16_def)
  show ?thesis
  proof (cases "ParseIP host")
    case (Some ip)
    note ipb = ParseIP_bytes [OF Some]
    have can: "canonical addr = JoinHostPort (IPString ip) (decimal port)" using Some hp p by (simp add: canonical_def)
    show ?thesis
    proof (cases "To4 ip")
      case None
      show ?thesis
      proof (rule that)
        show "q = payload @ [byte_of addrTypeIPv6, byte_of 18] @ (map byte_of ip @ AppendUint16 port)"
          using assms hp Some None by (auto simp: appendDirectAddress_def)
        show "parse_addrs (([byte_of addrTypeIPv6, byte_of 18] @ (map byte_of ip @ AppendUint16 port)) @ rest) known out =
            parse_addrs rest (known + 1) (out\<lparr>pl_Direct := pl_Direct out @ [canonical addr]\<rparr>)" for rest known out
          unfolding append_assoc [of _ "map byte_of ip @ AppendUint16 port"] can
          by (rule parse_record) (use ipb len hp(3) p(1) parseDirect_ip in auto)
      qed
    next
      case (Some v4)
      note v4 = To4_bytes [OF Some] ipb
      show ?thesis
      proof (rule that)
        show "q = payload @ [byte_of addrTypeIPv4, byte_of 6] @ (map byte_of v4 @ AppendUint16 port)"
          using assms hp \<open>ParseIP host = Some ip\<close> Some by (auto simp: appendDirectAddress_def)
        show "parse_addrs (([byte_of addrTypeIPv4, byte_of 6] @ (map byte_of v4 @ AppendUint16 port)) @ rest) known out =
            parse_addrs rest (known + 1) (out\<lparr>pl_Direct := pl_Direct out @ [canonical addr]\<rparr>)" for rest known out
          unfolding append_assoc [of _ "map byte_of v4 @ AppendUint16 port"] can IPString_To4 [OF Some, symmetric]
          by (rule parse_record) (use v4 len hp(3) p(1) parseDirect_ip in auto)
      qed
    qed
  next
    case None
    then have host: "host \<noteq> ''''" "length host \<le> 253" "ValidString host"
      and q: "q = payload @ [byte_of addrTypeName, byte_of (length host + 2)] @ (host @ AppendUint16 port)"
      using assms hp by (auto simp: appendDirectAddress_def maxLinkNameBytes_def split: if_splits)
    have can: "canonical addr = JoinHostPort host (decimal port)" using None hp p by (simp add: canonical_def)
    show ?thesis
    proof (rule that [OF q])
      show "parse_addrs (([byte_of addrTypeName, byte_of (length host + 2)] @ (host @ AppendUint16 port)) @ rest) known out =
          parse_addrs rest (known + 1) (out\<lparr>pl_Direct := pl_Direct out @ [canonical addr]\<rparr>)" for rest known out
        unfolding append_assoc [of _ "host @ AppendUint16 port"] can
        by (rule parse_record) (use host len parseDirect_name [OF host(1,3) hp(3) p(1)] in auto)
    qed
  qed
qed

lemma directs_read_back:
  assumes "append_all payload direct = Some q"
  obtains rec where "q = payload @ rec"
    "\<And>rest known out. parse_addrs (rec @ rest) known out =
       parse_addrs rest (known + length direct) (out\<lparr>pl_Direct := pl_Direct out @ map canonical direct\<rparr>)"
  using assms
proof (induction direct arbitrary: payload thesis)
  case Nil
  then show ?case by (auto intro: Nil.prems(1) [of "[]"])
next
  case (Cons a as)
  then obtain p where p: "appendDirectAddress payload a = Some p" "append_all p as = Some q" by (auto simp: Option.bind_eq_Some_conv)
  obtain r1 where r1: "p = payload @ r1"
    "\<And>rest known out. parse_addrs (r1 @ rest) known out = parse_addrs rest (known + 1) (out\<lparr>pl_Direct := pl_Direct out @ [canonical a]\<rparr>)"
    using direct_read_back [OF p(1)] by blast
  obtain r2 where r2: "q = p @ r2"
    "\<And>rest known out. parse_addrs (r2 @ rest) known out = parse_addrs rest (known + length as) (out\<lparr>pl_Direct := pl_Direct out @ map canonical as\<rparr>)"
    using Cons.IH [OF _ p(2)] by blast
  show ?case by (rule Cons.prems(1) [of "r1 @ r2"]) (simp_all add: r1 r2)
qed

section \<open>The text of a link\<close>

lemma letter_ascii: "n < 64 \<Longrightarrow> byte (letter URL n) < 128 \<and> \<not> IsSpace (byte (letter URL n))"
  by (auto simp: letter_def byte_def IsSpace_def)

lemma enc_ascii: "is_bytes xs \<Longrightarrow> c \<in> set (enc URL xs) \<Longrightarrow> byte c < 128 \<and> \<not> IsSpace (byte c)"
proof (induction "URL" xs rule: enc.induct)
  case (2 x)
  then show ?case using six_bits [of x 0 0] letter_ascii by (auto simp: pad_def)
next
  case (3 x y)
  then show ?case using six_bits [of x y 0] letter_ascii by (auto simp: pad_def)
next
  case (4 x y z r)
  then show ?case using six_bits [of x y z] letter_ascii by auto
qed simp

lemma Encode_ascii: "c \<in> set (EncodeToString URL s) \<Longrightarrow> byte c < 128 \<and> \<not> IsSpace (byte c)"
  unfolding EncodeToString_def by (rule enc_ascii) (auto simp: is_bytes_def byte_lt)

lemma dropWhile_no: "\<forall>x \<in> set xs. \<not> P x \<Longrightarrow> dropWhile P xs = xs"
  by (cases xs) auto

lemma TrimSpace_ascii:
  assumes "\<And>c. c \<in> set s \<Longrightarrow> byte c < 128 \<and> \<not> IsSpace (byte c)"
  shows "TrimSpace s = s"
proof -
  have "runes s = ascii_pieces s" using runes_ascii_append [of s "[]"] assms by simp
  moreover have "\<forall>p \<in> set (ascii_pieces s). \<not> IsSpace (fst p)" using assms by (auto simp: ascii_pieces_def)
  ultimately show ?thesis by (simp add: TrimSpace_def Let_def dropWhile_no)
qed

lemma link_text: "TrimSpace (pairingLinkPrefix @ EncodeToString URL payload) = pairingLinkPrefix @ EncodeToString URL payload"
  by (rule TrimSpace_ascii) (use Encode_ascii in \<open>auto simp: pairingLinkPrefix_def byte_def IsSpace_def\<close>)

lemma Parse_payload:
  assumes "length key = 32" "length tok = 16"
  shows "ParsePairingLink (pairingLinkPrefix @ EncodeToString URL (byte_of v # key @ tok @ addrs)) =
    (if v mod 256 > 3 then Inl ErrLinkNewerVersion else if v mod 256 \<noteq> 3 then Inl ErrLinkMalformed
     else onOk (parse_addrs addrs 0 \<lparr>pl_ServerKey = key, pl_Token = EncodeToString URL tok, pl_Direct = [], pl_Onion = None\<rparr>)
       (\<lambda>(known, out). if known = 0 then Inl ErrLinkMalformed else Inr out))"
proof -
  define p where "p = byte_of v # key @ tok @ addrs"
  have "take 32 (drop 1 p) = key" "take 16 (drop 33 p) = tok" "drop 49 p = addrs" "\<not> length p < 49" "byte (p ! 0) = v mod 256"
    using assms by (simp_all add: p_def byte_def byte_of_def)
  moreover have "CutPrefix (pairingLinkPrefix @ EncodeToString URL p) pairingLinkPrefix = Some (EncodeToString URL p)" by (simp add: CutPrefix_def)
  ultimately show ?thesis
    unfolding ParsePairingLink_def link_text p_def [symmetric]
    by (cases "v mod 256 > 3"; cases "v mod 256 = 3") (simp_all add: DecodeString_EncodeToString linkHeaderSize_def pairingLinkVersion_def)
qed

section \<open>Properties\<close>

text \<open>
  C35. A pairing link is read back as it was built: the server's key and the onion key byte for byte, the token's
  sixteen bytes, and every direct address in its order, an IP in Go's spelling and the port without
  leading zeros. The link builder never renders a link the parser refuses.
\<close>

theorem link_read_back:
  assumes "BuildPairingLink serverKey token direct onion = Some link"
  shows "\<exists>tok. DecodeString URL token = Some tok \<and> ParsePairingLink link =
    Inr \<lparr>pl_ServerKey = serverKey, pl_Token = EncodeToString URL tok, pl_Direct = map canonical direct, pl_Onion = onion\<rparr>"
proof -
  obtain tok payload where b: "length serverKey = 32" "DecodeString URL token = Some tok" "length tok = 16" "direct \<noteq> [] \<or> onion \<noteq> None"
    "append_all ([byte_of pairingLinkVersion] @ serverKey @ tok) direct = Some payload"
    and l: "link = pairingLinkPrefix @ EncodeToString URL (payload @ (case onion of None \<Rightarrow> [] | Some key \<Rightarrow> [byte_of addrTypeOnion, byte_of 32] @ key))"
    and k: "\<And>key. onion = Some key \<Longrightarrow> length key = 32"
    using assms by (cases onion) (auto simp: BuildPairingLink_def Option.bind_eq_Some_conv split: if_splits option.splits)
  obtain rec where rec: "payload = ([byte_of pairingLinkVersion] @ serverKey @ tok) @ rec"
    "\<And>rest known out. parse_addrs (rec @ rest) known out =
       parse_addrs rest (known + length direct) (out\<lparr>pl_Direct := pl_Direct out @ map canonical direct\<rparr>)"
    using directs_read_back [OF b(5)] by blast
  let ?tail = "case onion of None \<Rightarrow> [] | Some key \<Rightarrow> [byte_of addrTypeOnion, byte_of 32] @ key"
  have link: "link = pairingLinkPrefix @ EncodeToString URL (byte_of 3 # serverKey @ tok @ (rec @ ?tail))"
    by (simp add: l rec(1) pairingLinkVersion_def)
  have "parse_addrs ?tail n out = Inr (n + (if onion = None then 0 else 1), if pl_Onion out = None then out\<lparr>pl_Onion := onion\<rparr> else out)"
    if "onion = None \<longrightarrow> pl_Onion out = None" for n out
    using that k by (cases onion) (auto simp: addrTypeOnion_def addrTypeIPv4_def addrTypeIPv6_def addrTypeName_def Let_def)
  then show ?thesis using b unfolding link Parse_payload [OF b(1,3)] rec(2) by (auto split: option.splits)
qed

text \<open>The sample key has 32 bytes, the sample token decodes to 16.\<close>

abbreviation sample_key :: string where "sample_key \<equiv> replicate 32 (CHR ''k'')"
abbreviation sample_token :: string where "sample_token \<equiv> EncodeToString URL ''0123456789abcdef''"

lemma sample_canonical: "canonical ''192.168.1.7:08080'' = ''192.168.1.7:8080''" "canonical ''home.example:443'' = ''home.example:443''"
proof -
  have "SplitHostPort ''192.168.1.7:08080'' = Some (''192.168.1.7'', ''08080'')" "SplitHostPort ''home.example:443'' = Some (''home.example'', ''443'')"
    by (simp_all add: SplitHostPort_def)
  moreover have "ParseIP ''192.168.1.7'' = Some ([0, 0, 0, 0, 0, 0, 0, 0, 0, 0, 255, 255, 192, 168, 1, 7])" "ParseIP ''home.example'' = None"
    by (simp_all add: ParseIP_def parseIPv4_def is_digit_def byte_def eval_nat_numeral)
  moreover have "To4 [0, 0, 0, 0, 0, 0, 0, 0, 0, 0, 255, 255, 192, 168, 1, 7] = Some [192, 168, 1, 7]"
    by (simp add: To4_def eval_nat_numeral)
  moreover have "decimal 192 = ''192''" "decimal 168 = ''168''" "decimal 1 = ''1''" "decimal 7 = ''7''" "decimal 8080 = ''8080''" "decimal 443 = ''443''"
    by (simp_all add: decimal.simps char_of_def bit_Suc_0_iff)
  ultimately show "canonical ''192.168.1.7:08080'' = ''192.168.1.7:8080''" "canonical ''home.example:443'' = ''home.example:443''"
    by (simp_all add: canonical_def IPString_def string4_def JoinHostPort_def digits_value_def byte_def)
qed

lemma sample_link: "\<exists>link. BuildPairingLink sample_key sample_token [''192.168.1.7:08080'', ''home.example:443''] (Some sample_key) = Some link"
  by (simp add: BuildPairingLink_def DecodeString_EncodeToString appendDirectAddress_def SplitHostPort_def ParseUint16_def digits_value_def is_digit_def byte_def
      ParseIP_def parseIPv4_def To4_def ValidString_def decode_rune.simps RuneError_def maxLinkNameBytes_def AppendUint16_def)

theorem link_read_back_witness:
  "\<exists>link. ParsePairingLink link = Inr \<lparr>pl_ServerKey = sample_key, pl_Token = sample_token,
     pl_Direct = [''192.168.1.7:8080'', ''home.example:443''], pl_Onion = Some sample_key\<rparr>"
proof -
  obtain link where "BuildPairingLink sample_key sample_token [''192.168.1.7:08080'', ''home.example:443''] (Some sample_key) = Some link"
    using sample_link by blast
  from link_read_back [OF this] show ?thesis
    by (auto simp: DecodeString_EncodeToString sample_canonical)
qed

text \<open>
  Links of other versions and unknown addresses: a link of a newer version is told apart from a malformed one,
  an older version is malformed; and a known version with addresses of types this parser does not know, put
  anywhere among the others, reads as if they were not there.
\<close>

theorem link_other_versions:
  assumes "length key = 32" "length tok = 16" "v < 256" "length value < 256" "k < 256" "k \<notin> {1, 2, 3, 4}" "append_all [] direct = Some rec"
  shows "(v > 3 \<longrightarrow> ParsePairingLink (pairingLinkPrefix @ EncodeToString URL (byte_of v # key @ tok @ addrs)) = Inl ErrLinkNewerVersion)
    \<and> (v < 3 \<longrightarrow> ParsePairingLink (pairingLinkPrefix @ EncodeToString URL (byte_of v # key @ tok @ addrs)) = Inl ErrLinkMalformed)
    \<and> ParsePairingLink (pairingLinkPrefix @ EncodeToString URL (byte_of 3 # key @ tok @ rec @ [byte_of k, byte_of (length value)] @ value @ addrs)) =
      ParsePairingLink (pairingLinkPrefix @ EncodeToString URL (byte_of 3 # key @ tok @ rec @ addrs))"
proof -
  have "parse_addrs ([byte_of k, byte_of (length value)] @ value @ addrs) n out = parse_addrs addrs n out" for n out
    using assms(4,5,6) by (simp add: Let_def addrTypeIPv4_def addrTypeIPv6_def addrTypeName_def addrTypeOnion_def)
  moreover obtain rec' where "rec = [] @ rec'"
    "\<And>rest known out. parse_addrs (rec' @ rest) known out =
       parse_addrs rest (known + length direct) (out\<lparr>pl_Direct := pl_Direct out @ map canonical direct\<rparr>)"
    using directs_read_back [OF assms(7)] by blast
  ultimately have skip: "parse_addrs (rec @ [byte_of k, byte_of (length value)] @ value @ addrs) n out = parse_addrs (rec @ addrs) n out" for n out
    by simp
  show ?thesis unfolding Parse_payload [OF assms(1,2)] skip using assms(3) by simp
qed

theorem link_other_versions_witness:
  "ParsePairingLink (pairingLinkPrefix @ EncodeToString URL (byte_of 4 # sample_key @ ''0123456789abcdef'' @ '''')) = Inl ErrLinkNewerVersion
   \<and> ParsePairingLink (pairingLinkPrefix @ EncodeToString URL (byte_of 3 # sample_key @ ''0123456789abcdef'' @ '''' @ [byte_of 9, byte_of (length ''xy'')] @ ''xy'' @ '''')) =
     ParsePairingLink (pairingLinkPrefix @ EncodeToString URL (byte_of 3 # sample_key @ ''0123456789abcdef'' @ '''' @ ''''))"
  using link_other_versions [of sample_key "''0123456789abcdef''" 4 "''xy''" 9 "[]" "''''" "''''"] by simp

end
