(* ===== verification/Session.thy ===== *)
theory Session
  imports Registry Pairing_Link
begin

text \<open>
  The commands of a session: \<open>handlers.go\<close>, \<open>pairing.go\<close>, the WebSocket commands of \<open>files.go\<close>, and
  \<open>ws.go\<close>. A handler is a function from the server state to the server state; what it takes from
  outside comes in an \<open>io\<close> record: faults of the store, the clock in nanoseconds, random values,
  what the blob store answers, the bytes the body's text took, and, for a read that comes after
  another one of the same handler, the database as it is by then. A panic of the store unwinds the
  handler, whose deferred calls close the connection.
\<close>

record io =
  io_flt :: faults
  io_flt2 :: faults
  io_sf :: "rune \<Rightarrow> rune"
  io_low :: "rune \<Rightarrow> rune"
  io_sha3 :: "string \<Rightarrow> string"
  io_rid :: string
  io_draws :: "nat \<Rightarrow> nat"
  io_tok :: string
  io_now :: int
  io_snap :: db
  io_bodyLen :: int
  io_blobSize :: "string \<Rightarrow> int option"
  io_blobReceived :: "string \<Rightarrow> int option"

definition now_of :: "io \<Rightarrow> int" where
  "now_of io = Unix (io_now io)"

definition itoa :: "int \<Rightarrow> string" where
  "itoa n = (if n < 0 then ''-'' @ decimal (nat (- n)) else decimal (nat n))"

definition reply_err :: "nat \<Rightarrow> Command \<Rightarrow> string \<Rightarrow> string \<Rightarrow> server \<Rightarrow> server" where
  "reply_err i cmd code m = sendFrame i (FReply (ErrReply (cmd_ID cmd) code m))"

definition reply_ok :: "nat \<Rightarrow> Command \<Rightarrow> reply_data \<Rightarrow> server \<Rightarrow> server" where
  "reply_ok i cmd d = sendFrame i (FReply (OKReply (cmd_ID cmd) d))"

definition unwind :: "nat \<Rightarrow> server \<Rightarrow> server" where
  "unwind i = close i StatusNormalClosure ''''"

text \<open>The members of a command's data; absent data is no JSON text at all.\<close>

definition data_of :: "Command \<Rightarrow> (string \<times> json) list option" where
  "data_of cmd = Option.bind (cmd_Data cmd) members"

definition str_field :: "io \<Rightarrow> string \<Rightarrow> (string \<times> json) list \<Rightarrow> string option" where
  "str_field io name kvs = dec_string '''' (field_vals (io_sf io) name kvs)"

definition int_field :: "io \<Rightarrow> string \<Rightarrow> (string \<times> json) list \<Rightarrow> int option" where
  "int_field io name kvs = dec_int64 0 (field_vals (io_sf io) name kvs)"

section \<open>Chats\<close>

definition maxChatNameRunes :: nat where "maxChatNameRunes = 64"
definition maxPageSize :: int where "maxPageSize = 100"

definition validChatName :: "string \<Rightarrow> string \<times> bool" where
  "validChatName raw = (let name = TrimSpace raw in (name, name \<noteq> '''' \<and> RuneCountInString name \<le> maxChatNameRunes))"

definition nameRule :: string where
  "nameRule = ''name must be non-empty and at most '' @ decimal maxChatNameRunes @ '' characters''"

definition lower_hex :: "char \<Rightarrow> bool" where
  "lower_hex c \<longleftrightarrow> 48 \<le> byte c \<and> byte c \<le> 57 \<or> 97 \<le> byte c \<and> byte c \<le> 102"

definition deviceChatIDPattern :: "string \<Rightarrow> bool" where
  "deviceChatIDPattern s \<longleftrightarrow> take 2 s = ''c_'' \<and> length s = 34 \<and> list_all lower_hex (drop 2 s)"

definition dec_ptr_string :: "json list \<Rightarrow> string option option" where
  "dec_ptr_string vs = dec_ptr (\<lambda>a v. map_option Some (dec_string '''' [v])) None vs"

definition dec_ptr_int :: "json list \<Rightarrow> int option option" where
  "dec_ptr_int vs = dec_ptr (\<lambda>a v. map_option Some (dec_int64 0 [v])) None vs"

definition dec_ptr_bool :: "json list \<Rightarrow> bool option option" where
  "dec_ptr_bool vs = dec_ptr (\<lambda>a v. map_option Some (dec_bool False [v])) None vs"

definition chatCreateRequest :: "io \<Rightarrow> Command \<Rightarrow> (string \<times> string option) option" where
  "chatCreateRequest io cmd = Option.bind (data_of cmd) (\<lambda>kvs.
     case (str_field io ''name'' kvs, dec_ptr_string (field_vals (io_sf io) ''chat_id'' kvs)) of
       (Some n, Some c) \<Rightarrow> Some (n, c) | _ \<Rightarrow> None)"

text \<open>
  A handler that may write to the journal has two ends. Either it replied with an error and is done; or the store
  has committed, and the reply is still to be queued and, when an event was written, the dispatcher
  to be woken after it. The parts are definitions of their own, because others run between them.
\<close>

type_synonym commit_end = "(reply_data \<times> bool) option \<times> server"

definition declined :: "nat \<Rightarrow> Command \<Rightarrow> string \<Rightarrow> string \<Rightarrow> server \<Rightarrow> commit_end" where
  "declined i cmd code m s = (None, reply_err i cmd code m s)"

definition kick_if :: "bool \<Rightarrow> server \<Rightarrow> server" where
  "kick_if wake s = (if wake then kickDispatcher s else s)"

definition after_commit :: "nat \<Rightarrow> Command \<Rightarrow> commit_end \<Rightarrow> server" where
  "after_commit i cmd w = (case w of (None, s) \<Rightarrow> s | (Some (dat, wake), s) \<Rightarrow> kick_if wake (reply_ok i cmd dat s))"

definition create_commit :: "io \<Rightarrow> nat \<Rightarrow> Command \<Rightarrow> server \<Rightarrow> commit_end" where
  "create_commit io i cmd s =
     (case chatCreateRequest io cmd of
        None \<Rightarrow> declined i cmd codeInvalidRequest ''malformed chat.create data'' s
      | Some (rawName, reqID) \<Rightarrow>
          if reqID \<noteq> None \<and> \<not> deviceChatIDPattern (the reqID)
          then declined i cmd codeInvalidRequest ''chat_id must be c_ followed by 32 lowercase hex digits'' s
          else let chatID = (case reqID of None \<Rightarrow> '''' | Some c \<Rightarrow> c); (name, ok) = validChatName rawName
               in if \<not> ok then declined i cmd codeInvalidRequest nameRule s
                  else case CreateChat (io_flt io) (io_sf io) (io_rid io) chatID name (id_Label (currentIdentity i s)) (now_of io) (sv_db s) of
                         (Inl e, d) \<Rightarrow>
                           if e = ErrNameTaken then declined i cmd codeNameTaken ''Chat name already exists'' (s\<lparr>sv_db := d\<rparr>)
                           else declined i cmd codeInternal ''failed to create chat'' (s\<lparr>sv_db := d\<rparr>)
                       | (Inr (chat, event, created), d) \<Rightarrow> (Some (RChat chat, created), s\<lparr>sv_db := d\<rparr>))"

definition handleChatCreate :: "io \<Rightarrow> nat \<Rightarrow> Command \<Rightarrow> server \<Rightarrow> server" where
  "handleChatCreate io i cmd s = after_commit i cmd (create_commit io i cmd s)"

definition chatsListRequest :: "io \<Rightarrow> Command \<Rightarrow> (int \<times> int \<times> string) option" where
  "chatsListRequest io cmd = Option.bind (data_of cmd) (\<lambda>kvs.
     case (int_field io ''page'' kvs, int_field io ''page_size'' kvs, str_field io ''query'' kvs) of
       (Some p, Some ps, Some q) \<Rightarrow> Some (p, ps, q) | _ \<Rightarrow> None)"

definition handleChatsList :: "io \<Rightarrow> nat \<Rightarrow> Command \<Rightarrow> server \<Rightarrow> server" where
  "handleChatsList io i cmd s =
     (case chatsListRequest io cmd of
        None \<Rightarrow> reply_err i cmd codeInvalidRequest ''malformed chats.list data'' s
      | Some (page, pageSize, q) \<Rightarrow>
          if page < 1 \<or> pageSize < 1 then reply_err i cmd codeInvalidRequest ''page and page_size must be at least 1'' s
          else case ListChats (io_flt io) (io_sf io) page (min pageSize maxPageSize) q (sv_db s) of
                 None \<Rightarrow> unwind i s
               | Some (Inl e) \<Rightarrow> reply_err i cmd codeInternal ''failed to list chats'' s
               | Some (Inr (cs, hasMore)) \<Rightarrow> reply_ok i cmd (RChats cs hasMore) s)"

definition one_string :: "io \<Rightarrow> string \<Rightarrow> Command \<Rightarrow> string option" where
  "one_string io name cmd = Option.bind (data_of cmd) (str_field io name)"

definition handleChatGet :: "io \<Rightarrow> nat \<Rightarrow> Command \<Rightarrow> server \<Rightarrow> server" where
  "handleChatGet io i cmd s =
     (case one_string io ''chat_id'' cmd of
        None \<Rightarrow> reply_err i cmd codeInvalidRequest ''chat_id is required'' s
      | Some chatID \<Rightarrow>
          if chatID = '''' then reply_err i cmd codeInvalidRequest ''chat_id is required'' s
          else case GetChat (io_flt io) chatID (sv_db s) of
                 Inl e \<Rightarrow>
                   if e = ErrChatNotFound then reply_err i cmd codeNotFound ''chat does not exist'' s
                   else reply_err i cmd codeInternal ''failed to get chat'' s
               | Inr chat \<Rightarrow> reply_ok i cmd (RChat chat) s)"

definition rename_commit :: "io \<Rightarrow> nat \<Rightarrow> Command \<Rightarrow> server \<Rightarrow> commit_end" where
  "rename_commit io i cmd s =
     (case Option.bind (data_of cmd) (\<lambda>kvs. case (str_field io ''chat_id'' kvs, str_field io ''name'' kvs) of
          (Some c, Some n) \<Rightarrow> Some (c, n) | _ \<Rightarrow> None) of
        None \<Rightarrow> declined i cmd codeInvalidRequest ''chat_id is required'' s
      | Some (chatID, rawName) \<Rightarrow>
          if chatID = '''' then declined i cmd codeInvalidRequest ''chat_id is required'' s
          else let (name, ok) = validChatName rawName
               in if \<not> ok then declined i cmd codeInvalidRequest nameRule s
                  else case RenameChat (io_flt io) (io_sf io) chatID name (sv_db s) of
                         (Inl e, d) \<Rightarrow>
                           if e = ErrChatNotFound then declined i cmd codeNotFound ''chat does not exist'' (s\<lparr>sv_db := d\<rparr>)
                           else if e = ErrNameTaken then declined i cmd codeNameTaken ''Chat name already exists'' (s\<lparr>sv_db := d\<rparr>)
                           else declined i cmd codeInternal ''failed to rename chat'' (s\<lparr>sv_db := d\<rparr>)
                       | (Inr (chat, event, changed), d) \<Rightarrow> (Some (RChat chat, changed), s\<lparr>sv_db := d\<rparr>))"

definition handleChatRename :: "io \<Rightarrow> nat \<Rightarrow> Command \<Rightarrow> server \<Rightarrow> server" where
  "handleChatRename io i cmd s = after_commit i cmd (rename_commit io i cmd s)"

definition handleChatNameAvailable :: "io \<Rightarrow> nat \<Rightarrow> Command \<Rightarrow> server \<Rightarrow> server" where
  "handleChatNameAvailable io i cmd s =
     (case Option.bind (data_of cmd) (\<lambda>kvs. case (str_field io ''name'' kvs, str_field io ''exclude_chat_id'' kvs) of
          (Some n, Some c) \<Rightarrow> Some (n, c) | _ \<Rightarrow> None) of
        None \<Rightarrow> reply_err i cmd codeInvalidRequest ''malformed chat.nameAvailable data'' s
      | Some (rawName, exclude) \<Rightarrow>
          let (name, ok) = validChatName rawName
          in if \<not> ok then reply_err i cmd codeInvalidRequest nameRule s
             else case NameAvailable (io_flt io) (io_sf io) name exclude (sv_db s) of
                    Inl e \<Rightarrow> reply_err i cmd codeInternal ''failed to check name'' s
                  | Inr available \<Rightarrow> reply_ok i cmd (RAvailable available) s)"

section \<open>Messages\<close>

definition list_request :: "io \<Rightarrow> Command \<Rightarrow> (string \<times> int \<times> int) option" where
  "list_request io cmd = Option.bind (data_of cmd) (\<lambda>kvs.
     case (str_field io ''chat_id'' kvs, int_field io ''before_seq'' kvs, int_field io ''limit'' kvs) of
       (Some c, Some b, Some l) \<Rightarrow> Some (c, b, l) | _ \<Rightarrow> None)"

definition strip_foreign :: "string \<Rightarrow> Message \<Rightarrow> Message" where
  "strip_foreign userID m = (if msg_AuthorID m \<noteq> userID then m\<lparr>msg_ClientMessageID := ''''\<rparr> else m)"

definition handleMessagesList :: "io \<Rightarrow> nat \<Rightarrow> Command \<Rightarrow> server \<Rightarrow> server" where
  "handleMessagesList io i cmd s =
     (case list_request io cmd of
        None \<Rightarrow> reply_err i cmd codeInvalidRequest ''chat_id is required'' s
      | Some (chatID, beforeSeq, limit) \<Rightarrow>
          if chatID = '''' then reply_err i cmd codeInvalidRequest ''chat_id is required'' s
          else if limit < 1 then reply_err i cmd codeInvalidRequest ''limit must be at least 1'' s
          else case GetChat (io_flt io) chatID (sv_db s) of
                 Inl e \<Rightarrow>
                   if e = ErrChatNotFound then reply_err i cmd codeNotFound ''chat does not exist'' s
                   else reply_err i cmd codeInternal ''failed to list messages'' s
               | Inr _ \<Rightarrow>
                   (case ListMessages (io_flt io) chatID beforeSeq (min limit maxPageSize) (sv_db s) of
                      None \<Rightarrow> unwind i s
                    | Some (Inl e) \<Rightarrow> reply_err i cmd codeInternal ''failed to list messages'' s
                    | Some (Inr (ms, hasMore)) \<Rightarrow>
                        reply_ok i cmd (RMessages (map (strip_foreign (id_UserID (cl_identity (sv_client s i)))) ms) hasMore) s))"

record messageSendRequest =
  ms_ChatID :: string
  ms_ClientMessageID :: string
  ms_Body :: "json option"
  ms_Attachment :: "string option"

definition dec_attachment :: "io \<Rightarrow> string option \<Rightarrow> json \<Rightarrow> string option option" where
  "dec_attachment io a v =
     Option.bind (members v) (\<lambda>kvs. map_option Some (dec_string (case a of None \<Rightarrow> '''' | Some f \<Rightarrow> f) (field_vals (io_sf io) ''file_id'' kvs)))"

definition decode_send :: "io \<Rightarrow> Command \<Rightarrow> messageSendRequest option" where
  "decode_send io cmd = Option.bind (data_of cmd) (\<lambda>kvs.
     case (str_field io ''chat_id'' kvs, str_field io ''client_message_id'' kvs,
           dec_ptr (dec_attachment io) None (field_vals (io_sf io) ''attachment'' kvs)) of
       (Some c, Some m, Some a) \<Rightarrow>
         Some \<lparr>ms_ChatID = c, ms_ClientMessageID = m, ms_Body = dec_raw (field_vals (io_sf io) ''body'' kvs), ms_Attachment = a\<rparr>
     | _ \<Rightarrow> None)"

definition send_commit :: "io \<Rightarrow> nat \<Rightarrow> Command \<Rightarrow> server \<Rightarrow> commit_end" where
  "send_commit io i cmd s =
     (case decode_send io cmd of
        None \<Rightarrow> declined i cmd codeInvalidRequest ''malformed message.send data'' s
      | Some req \<Rightarrow>
          if ms_ChatID req = '''' \<or> ms_ClientMessageID req = ''''
          then declined i cmd codeInvalidRequest ''chat_id and client_message_id are required'' s
          else
            let body = (if ms_Body req = Some JNull then None else ms_Body req);
                fileID = (case ms_Attachment req of None \<Rightarrow> '''' | Some f \<Rightarrow> TrimSpace f)
            in if ms_Attachment req \<noteq> None \<and> fileID = ''''
               then declined i cmd codeInvalidRequest ''attachment.file_id is required'' s
               else if body = None \<and> fileID = ''''
               then declined i cmd codeInvalidRequest ''at least one of body and attachment is required'' s
               else if (if body = None then 0 else io_bodyLen io) > MaxMessageBytes (sv_limits s)
               then declined i cmd codePayloadTooLarge (''body exceeds max_message_bytes '' @ itoa (MaxMessageBytes (sv_limits s))) s
               else
                 case SendMessage (io_flt io) (io_sf io) (io_rid io) (ms_ChatID req) (ms_ClientMessageID req) (currentIdentity i s)
                        body fileID (now_of io) (sv_db s) of
                   (Inl e, d) \<Rightarrow>
                     if e = ErrChatNotFound then declined i cmd codeNotFound ''chat does not exist'' (s\<lparr>sv_db := d\<rparr>)
                     else if e = ErrFileNotFound \<or> e = ErrFileNotReady \<or> e = ErrFileTaken
                     then declined i cmd codeInvalidRequest ''attachment file_id must reference an uploaded, unbound file'' (s\<lparr>sv_db := d\<rparr>)
                     else declined i cmd codeInternal ''failed to send message'' (s\<lparr>sv_db := d\<rparr>)
                 | (Inr (msg, event, created), d) \<Rightarrow> (Some (RMessage msg, created), s\<lparr>sv_db := d\<rparr>))"

definition handleMessageSend :: "io \<Rightarrow> nat \<Rightarrow> Command \<Rightarrow> server \<Rightarrow> server" where
  "handleMessageSend io i cmd s = after_commit i cmd (send_commit io i cmd s)"

text \<open>The part up to the commit, of whichever of the three commands it is.\<close>

definition writing_command :: "Command \<Rightarrow> bool" where
  "writing_command cmd \<longleftrightarrow> cmd_Cmd cmd = CmdChatCreate \<or> cmd_Cmd cmd = CmdChatRename \<or> cmd_Cmd cmd = CmdMessageSend"

definition write_commit :: "io \<Rightarrow> nat \<Rightarrow> Command \<Rightarrow> server \<Rightarrow> commit_end" where
  "write_commit io i cmd s =
     (if cmd_Cmd cmd = CmdChatCreate then create_commit io i cmd s
      else if cmd_Cmd cmd = CmdChatRename then rename_commit io i cmd s
      else send_commit io i cmd s)"

section \<open>Files\<close>

definition maxFileNameRunes :: nat where "maxFileNameRunes = 255"
definition maxMimeRunes :: nat where "maxMimeRunes = 128"

definition replyUpload :: "io \<Rightarrow> nat \<Rightarrow> Command \<Rightarrow> string \<Rightarrow> int \<Rightarrow> server \<Rightarrow> server" where
  "replyUpload io i cmd fileID received s =
     (let (token, ts) = issue (io_tok io) fileID opUpload received (io_now io) (sv_tokens s)
      in reply_ok i cmd (RUpload \<lparr>ur_FileID = fileID, ur_UploadURL = ''/files/'' @ token, ur_UploadToken = token,
           ur_MaxAttachmentBytes = MaxAttachmentBytes (sv_limits s), ur_Received = received\<rparr>) (s\<lparr>sv_tokens := ts\<rparr>))"

definition unfinishedUpload :: "faults \<Rightarrow> string \<Rightarrow> string \<Rightarrow> int \<Rightarrow> string \<Rightarrow> db \<Rightarrow> (string \<times> string) + FileInfo" where
  "unfinishedUpload flt fileID name size0 mime d =
     (case FileByID flt fileID d of
        Inl e \<Rightarrow>
          if e = ErrFileNotFound then Inl (codeNotFound, ''no unfinished upload with this file_id'')
          else Inl (codeInternal, ''failed to look up file'')
      | Inr info \<Rightarrow>
          if fi_MessageID info \<noteq> '''' then Inl (codeNotFound, ''no unfinished upload with this file_id'')
          else if att_Name (fi_Attachment info) \<noteq> name \<or> att_Size (fi_Attachment info) \<noteq> size0 \<or> att_Mime (fi_Attachment info) \<noteq> mime
          then Inl (codeInvalidRequest, ''name, size and mime differ from the ones this upload was declared with'')
          else Inr info)"

definition finished :: "io \<Rightarrow> string \<Rightarrow> int \<Rightarrow> bool" where
  "finished io fileID size0 \<longleftrightarrow> io_blobSize io fileID = Some size0"

text \<open>The second look at the file comes after its writer was interrupted.\<close>

definition continueUpload :: "io \<Rightarrow> nat \<Rightarrow> Command \<Rightarrow> string \<Rightarrow> string \<Rightarrow> int \<Rightarrow> string \<Rightarrow> server \<Rightarrow> server" where
  "continueUpload io i cmd fileID name size0 mime s =
     (case unfinishedUpload (io_flt io) fileID name size0 mime (sv_db s) of
        Inl (code, m) \<Rightarrow> reply_err i cmd code m s
      | Inr info \<Rightarrow>
          if fi_Uploaded info then replyUpload io i cmd fileID size0 s
          else case unfinishedUpload (io_flt2 io) fileID name size0 mime (io_snap io) of
                 Inl (code, m) \<Rightarrow> reply_err i cmd code m s
               | Inr info' \<Rightarrow>
                   if fi_Uploaded info' \<or> finished io fileID size0 then replyUpload io i cmd fileID size0 s
                   else case io_blobReceived io fileID of
                          None \<Rightarrow> reply_err i cmd codeInternal ''failed to read upload progress'' s
                        | Some durable \<Rightarrow> replyUpload io i cmd fileID (min durable size0) s)"

definition handleFileUploadBegin :: "io \<Rightarrow> nat \<Rightarrow> Command \<Rightarrow> server \<Rightarrow> server" where
  "handleFileUploadBegin io i cmd s =
     (case Option.bind (data_of cmd) (\<lambda>kvs. case (str_field io ''name'' kvs, int_field io ''size'' kvs, str_field io ''mime'' kvs, str_field io ''file_id'' kvs) of
          (Some n, Some z, Some m, Some f) \<Rightarrow> Some (n, z, m, f) | _ \<Rightarrow> None) of
        None \<Rightarrow> reply_err i cmd codeInvalidRequest ''malformed file.uploadBegin data'' s
      | Some (rawName, size0, rawMime, fileID) \<Rightarrow>
          let name = TrimSpace rawName; mime = TrimSpace rawMime
          in if name = '''' \<or> mime = '''' \<or> size0 < 1
             then reply_err i cmd codeInvalidRequest ''name, mime and a positive size are required'' s
             else if RuneCountInString name > maxFileNameRunes \<or> RuneCountInString mime > maxMimeRunes
             then reply_err i cmd codeInvalidRequest (''name is capped at '' @ decimal maxFileNameRunes @ '' and mime at '' @ decimal maxMimeRunes @ '' characters'') s
             else if size0 > MaxAttachmentBytes (sv_limits s)
             then reply_err i cmd codePayloadTooLarge (''size exceeds max_attachment_bytes '' @ itoa (MaxAttachmentBytes (sv_limits s))) s
             else if fileID \<noteq> '''' then continueUpload io i cmd fileID name size0 mime s
             else case CreateUpload (io_flt io) (io_rid io) name size0 mime (now_of io) (sv_db s) of
                    (Inl e, d) \<Rightarrow> reply_err i cmd codeInternal ''failed to register upload'' (s\<lparr>sv_db := d\<rparr>)
                  | (Inr att, d) \<Rightarrow> replyUpload io i cmd (att_FileID att) 0 (s\<lparr>sv_db := d\<rparr>))"

definition handleFileDownloadBegin :: "io \<Rightarrow> nat \<Rightarrow> Command \<Rightarrow> server \<Rightarrow> server" where
  "handleFileDownloadBegin io i cmd s =
     (case one_string io ''file_id'' cmd of
        None \<Rightarrow> reply_err i cmd codeInvalidRequest ''file_id is required'' s
      | Some fileID \<Rightarrow>
          if fileID = '''' then reply_err i cmd codeInvalidRequest ''file_id is required'' s
          else case FileByID (io_flt io) fileID (sv_db s) of
                 Inl e \<Rightarrow>
                   if e = ErrFileNotFound then reply_err i cmd codeNotFound ''file does not exist'' s
                   else reply_err i cmd codeInternal ''failed to look up file'' s
               | Inr info \<Rightarrow>
                   if \<not> fi_Uploaded info then reply_err i cmd codeInvalidRequest ''file bytes are not uploaded yet'' s
                   else if now_of io \<ge> att_ExpiresAt (fi_Attachment info) \<or> io_blobSize io fileID \<noteq> Some (att_Size (fi_Attachment info))
                   then reply_err i cmd codeAttachmentGone ''attachment bytes are no longer stored'' s
                   else let (token, ts) = issue (io_tok io) fileID opDownload 0 (io_now io) (sv_tokens s)
                        in reply_ok i cmd (RDownload \<lparr>dr_DownloadURL = ''/files/'' @ token, dr_DownloadToken = token\<rparr>) (s\<lparr>sv_tokens := ts\<rparr>))"

definition handleChatFiles :: "io \<Rightarrow> nat \<Rightarrow> Command \<Rightarrow> server \<Rightarrow> server" where
  "handleChatFiles io i cmd s =
     (case list_request io cmd of
        None \<Rightarrow> reply_err i cmd codeInvalidRequest ''chat_id is required'' s
      | Some (chatID, beforeSeq, limit) \<Rightarrow>
          if chatID = '''' then reply_err i cmd codeInvalidRequest ''chat_id is required'' s
          else if limit < 1 then reply_err i cmd codeInvalidRequest ''limit must be at least 1'' s
          else case GetChat (io_flt io) chatID (sv_db s) of
                 Inl e \<Rightarrow>
                   if e = ErrChatNotFound then reply_err i cmd codeNotFound ''chat does not exist'' s
                   else reply_err i cmd codeInternal ''failed to list chat files'' s
               | Inr _ \<Rightarrow>
                   (case ListChatFiles (io_flt io) chatID beforeSeq (min limit maxPageSize) (sv_db s) of
                      None \<Rightarrow> unwind i s
                    | Some (Inl e) \<Rightarrow> reply_err i cmd codeInternal ''failed to list chat files'' s
                    | Some (Inr (fs, hasMore)) \<Rightarrow> reply_ok i cmd (RFiles fs hasMore) s))"

section \<open>The greeting\<close>

fun send_all :: "nat \<Rightarrow> StoredEvent list \<Rightarrow> server \<Rightarrow> bool \<times> server" where
  "send_all i [] s = (True, s)"
| "send_all i (ev # evs) s =
     (case eventEnvelope ev of
        None \<Rightarrow> (False, close i StatusInternalError ''replay failed'' s)
      | Some env \<Rightarrow> send_all i evs (sendFrame i (FrameFor env (id_UserID (cl_identity (sv_client s i)))) s))"

text \<open>The events are read when everything before them was queued: from the database as it is by then.\<close>

definition replay :: "io \<Rightarrow> nat \<Rightarrow> int option \<Rightarrow> server \<Rightarrow> server" where
  "replay io i since s =
     (let start = upd i (\<lambda>c. c\<lparr>cl_forward := True\<rparr>)
      in case since of
           None \<Rightarrow> start s
         | Some n \<Rightarrow>
             (case EventsSince (io_flt io) n (io_snap io) of
                Inl e \<Rightarrow> close i StatusInternalError ''replay failed'' s
              | Inr evs \<Rightarrow> (case send_all i evs s of (True, s1) \<Rightarrow> start s1 | (False, s1) \<Rightarrow> s1)))"

definition subscribe :: "nat \<Rightarrow> server \<Rightarrow> server" where
  "subscribe i s = (upd i (\<lambda>c. c\<lparr>cl_sub := True\<rparr>) s)\<lparr>sv_hub := Register i (NewSubscriber i (sv_hub s))\<rparr>"

definition unsubscribe :: "nat \<Rightarrow> server \<Rightarrow> server" where
  "unsubscribe i s = (upd i (\<lambda>c. c\<lparr>cl_sub := False\<rparr>) s)\<lparr>sv_hub := (case Unregister i (sv_hub s) of None \<Rightarrow> sv_hub s | Some h \<Rightarrow> h)\<rparr>"

definition no_addresses :: addressSet where
  "no_addresses = \<lparr>as_Version = 0, as_Direct = [], as_Public = '''', as_Onion = ''''\<rparr>"

definition helloRequest :: "io \<Rightarrow> Command \<Rightarrow> (int \<times> int option) option" where
  "helloRequest io cmd = Option.bind (data_of cmd) (\<lambda>kvs.
     case (int_field io ''schema'' kvs, dec_ptr_int (field_vals (io_sf io) ''since'' kvs)) of
       (Some n, Some since) \<Rightarrow> Some (n, since) | _ \<Rightarrow> None)"

text \<open>
  \<open>handleSessionHello\<close> in its three parts, between which other connections and the dispatcher run:
  up to the subscription, which keeps the person and the journal id read on the way; the cursor and
  the reply; the replay. Nothing in the first component ends the handler there.
\<close>

definition hello_subscribe :: "io \<Rightarrow> nat \<Rightarrow> Command \<Rightarrow> server \<Rightarrow> (int option \<times> Identity \<times> string) option \<times> server" where
  "hello_subscribe io i cmd s =
     (if cl_helloDone (sv_client s i) then (None, reply_err i cmd codeInvalidRequest ''session.hello already done'' s)
      else case helloRequest io cmd of
        None \<Rightarrow> (None, reply_err i cmd codeInvalidRequest ''malformed session.hello data'' s)
      | Some (schema, since) \<Rightarrow>
          if schema \<noteq> SchemaVersion
          then (None, reply_err i cmd codeUnsupportedSchema (''schema '' @ itoa schema @ '' is not supported, server speaks '' @ itoa SchemaVersion) s)
          else case ResolveIdentity (io_flt io) (cl_deviceKey (sv_client s i)) (now_of io) (sv_db s) of
                 (Inl e, d) \<Rightarrow>
                   (None, if e = ErrDeviceUnknown then reply_err i cmd codeUnauthenticated ''device is not paired'' (s\<lparr>sv_db := d\<rparr>)
                          else reply_err i cmd codeInternal ''failed to resolve identity'' (s\<lparr>sv_db := d\<rparr>))
               | (Inr ident, d) \<Rightarrow>
                   let s1 = setIdentity i ident (settleUnpaired i (s\<lparr>sv_db := d\<rparr>))
                   in case JournalID (io_flt io) (sv_db s1) of
                        Inl e \<Rightarrow> (None, reply_err i cmd codeInternal ''failed to read journal id'' s1)
                      | Inr journalID \<Rightarrow> (Some (since, ident, journalID), subscribe i s1))"

definition hello_reply :: "io \<Rightarrow> nat \<Rightarrow> Command \<Rightarrow> Identity \<Rightarrow> string \<Rightarrow> server \<Rightarrow> bool \<times> server" where
  "hello_reply io i cmd ident journalID s2 =
     (case Cursor (io_flt io) (sv_db s2) of
        Inl e \<Rightarrow> (False, reply_err i cmd codeInternal ''failed to read cursor'' (unsubscribe i s2))
      | Inr cursor \<Rightarrow>
          let s3 = upd i (\<lambda>c. c\<lparr>cl_helloDone := True\<rparr>) s2;
              addrs = (case sv_addrs s3 of None \<Rightarrow> no_addresses | Some a \<Rightarrow> a);
              s4 = reply_ok i cmd (RHello \<lparr>hr_Schema = SchemaVersion, hr_Cursor = cursor, hr_JournalID = journalID,
                     hr_Limits = sv_limits s3, hr_Identity = \<lparr>gi_ID = id_UserID ident, gi_Label = id_Label ident\<rparr>,
                     hr_Addresses = addrs\<rparr>) s3;
              s5 = pokeAddresses (markGreeted i (as_Version addrs) s4)
          in (True, resendPairRequests (io_flt io) (io_flt2 io) i (io_now io) (io_now io) (io_snap io) s5))"

definition handleSessionHello :: "io \<Rightarrow> nat \<Rightarrow> Command \<Rightarrow> server \<Rightarrow> server" where
  "handleSessionHello io i cmd s =
     (case hello_subscribe io i cmd s of
        (None, s1) \<Rightarrow> s1
      | (Some (since, ident, journalID), s2) \<Rightarrow>
          (case hello_reply io i cmd ident journalID s2 of
             (False, s3) \<Rightarrow> s3
           | (True, s6) \<Rightarrow> replay io i since s6))"

section \<open>Pairing\<close>

definition knownPlatform :: "string \<Rightarrow> bool" where
  "knownPlatform p \<longleftrightarrow> p \<in> {''ios'', ''android'', ''macos'', ''windows'', ''linux''}"

definition statusPending :: string where "statusPending = ''pending''"

definition handlePair :: "io \<Rightarrow> nat \<Rightarrow> Command \<Rightarrow> server \<Rightarrow> server" where
  "handlePair io i cmd s =
     (if cl_helloDone (sv_client s i) then reply_err i cmd codeInvalidRequest ''already greeted'' s
      else case Option.bind (data_of cmd) (\<lambda>kvs. case (str_field io ''token'' kvs, str_field io ''platform'' kvs) of
          (Some t, Some p) \<Rightarrow> Some (t, p) | _ \<Rightarrow> None) of
        None \<Rightarrow> reply_err i cmd codeInvalidRequest ''malformed pair data'' s
      | Some (rawToken, rawPlatform) \<Rightarrow>
          let token = TrimSpace rawToken; platform = TrimSpace rawPlatform
          in if token = '''' \<or> platform = '''' then reply_err i cmd codeInvalidRequest ''token and platform are required'' s
             else if \<not> knownPlatform platform
             then reply_err i cmd codeInvalidRequest ''platform must be ios, android, macos, windows or linux'' s
             else case Pair (io_flt io) (io_rid io) (io_draws io) token (cl_deviceKey (sv_client s i)) platform (now_of io) (sv_db s) of
                    (Inl e, d) \<Rightarrow>
                      if e = ErrTokenInvalid then reply_err i cmd codeInvalidToken ''pairing token is not usable'' (s\<lparr>sv_db := d\<rparr>)
                      else if e = ErrTokenExpired then reply_err i cmd codeTokenExpired ''pairing token has expired'' (s\<lparr>sv_db := d\<rparr>)
                      else reply_err i cmd codeInternal ''failed to pair'' (s\<lparr>sv_db := d\<rparr>)
                  | (Inr res, d) \<Rightarrow>
                      if \<not> res_Paired res then
                        (case res_Request res of
                           None \<Rightarrow> unwind i (s\<lparr>sv_db := d\<rparr>)
                         | Some r \<Rightarrow>
                             let s1 = s\<lparr>sv_db := d\<rparr>;
                                 status = (if pr_Outcome r = '''' then statusPending else pr_Outcome r);
                                 s2 = (if pr_Outcome r = '''' then awaitAnswer (io_flt2 io) i r (io_now io) (io_snap io) s1 else s1);
                                 s3 = reply_ok i cmd (RPair (PairStatus status (pr_RequestID r) (pr_ExpiresAt r))) s2
                             in if res_Opened res then announcePairRequested r s3
                                else if res_Closed res then announcePairClosed r None (io_now io) s3
                                else s3)
                      else
                        let s1 = settleUnpaired i (s\<lparr>sv_db := d\<rparr>);
                            s2 = reply_ok i cmd (RPair (PairIdentity (wireIdentity (res_Identity res)))) s1
                        in announcePaired i (id_UserID (res_Identity res)) s2)"

definition handlePairCancel :: "io \<Rightarrow> nat \<Rightarrow> Command \<Rightarrow> server \<Rightarrow> server" where
  "handlePairCancel io i cmd s =
     (case one_string io ''token'' cmd of
        None \<Rightarrow> reply_err i cmd codeInvalidRequest ''malformed pair.cancel data'' s
      | Some rawToken \<Rightarrow>
          if TrimSpace rawToken = '''' then reply_err i cmd codeInvalidRequest ''token is required'' s
          else case CancelPairRequest (io_flt io) (TrimSpace rawToken) (cl_deviceKey (sv_client s i)) (now_of io) (sv_db s) of
                 (Inl e, d) \<Rightarrow> reply_err i cmd codeInternal ''failed to cancel the request'' (s\<lparr>sv_db := d\<rparr>)
               | (Inr cancelled, d) \<Rightarrow>
                   let s1 = reply_ok i cmd REmpty (s\<lparr>sv_db := d\<rparr>)
                   in case cancelled of None \<Rightarrow> s1 | Some r \<Rightarrow> announcePairClosed r None (io_now io) s1)"

definition handleDeviceApprove :: "io \<Rightarrow> nat \<Rightarrow> Command \<Rightarrow> server \<Rightarrow> server" where
  "handleDeviceApprove io i cmd s =
     (case Option.bind (data_of cmd) (\<lambda>kvs. case (str_field io ''request_id'' kvs, dec_ptr_bool (field_vals (io_sf io) ''allow'' kvs)) of
          (Some r, Some a) \<Rightarrow> Some (r, a) | _ \<Rightarrow> None) of
        None \<Rightarrow> reply_err i cmd codeInvalidRequest ''malformed device.approve data'' s
      | Some (rawID, allow) \<Rightarrow>
          if TrimSpace rawID = '''' \<or> allow = None then reply_err i cmd codeInvalidRequest ''request_id and allow are required'' s
          else case DecidePairRequest (io_flt io) (TrimSpace rawID) (cl_deviceKey (sv_client s i)) (the allow) (now_of io) (sv_db s) of
                 (Inl e, d) \<Rightarrow>
                   if e = ErrDeviceUnknown then reply_err i cmd codeUnauthenticated ''device is not paired'' (s\<lparr>sv_db := d\<rparr>)
                   else if e = ErrRequestNotFound then reply_err i cmd codeNotFound ''no such request waiting for this device'' (s\<lparr>sv_db := d\<rparr>)
                   else reply_err i cmd codeInternal ''failed to answer the request'' (s\<lparr>sv_db := d\<rparr>)
               | (Inr dcn, d) \<Rightarrow>
                   let s1 = reply_ok i cmd REmpty (s\<lparr>sv_db := d\<rparr>)
                   in if pr_Outcome (dec_Request dcn) \<noteq> OutcomeAllowed then announcePairClosed (dec_Request dcn) None (io_now io) s1
                      else announceDevicesChanged (id_UserID (dec_Identity dcn)) None
                             (announcePairClosed (dec_Request dcn) (Some (wireIdentity (dec_Identity dcn))) (io_now io) s1))"

definition handleDeviceList :: "io \<Rightarrow> nat \<Rightarrow> Command \<Rightarrow> server \<Rightarrow> server" where
  "handleDeviceList io i cmd s =
     (case ListDevices (io_flt io) (id_UserID (cl_identity (sv_client s i))) (sv_db s) of
        Inl e \<Rightarrow> reply_err i cmd codeInternal ''failed to list devices'' s
      | Inr ds \<Rightarrow> reply_ok i cmd (RDevices ds) s)"

definition tell_closed :: "string \<Rightarrow> int \<Rightarrow> PairRequest \<Rightarrow> server \<Rightarrow> server" where
  "tell_closed key now r s =
     (let s1 = tellNewDevice r None (endWait r now s) in if pr_IssuerKey r \<noteq> key then tellIssuer r s1 else s1)"

definition handleDeviceRevoke :: "io \<Rightarrow> nat \<Rightarrow> Command \<Rightarrow> server \<Rightarrow> server" where
  "handleDeviceRevoke io i cmd s =
     (case one_string io ''device_key'' cmd of
        None \<Rightarrow> reply_err i cmd codeInvalidRequest ''malformed device.revoke data'' s
      | Some rawKey \<Rightarrow>
          let key = TrimSpace rawKey
          in if key = '''' then reply_err i cmd codeInvalidRequest ''device_key is required'' s
             else case DeviceOwner (io_flt io) key (sv_db s) of
                    Inl e \<Rightarrow> reply_err i cmd codeInternal ''failed to read the device'' s
                  | Inr (owner, found) \<Rightarrow>
                      if found \<and> owner \<noteq> id_UserID (cl_identity (sv_client s i)) then reply_err i cmd codeNotFound ''no such device'' s
                      else case RevokeDeviceAs (io_flt io) (cl_deviceKey (sv_client s i)) key (now_of io) (sv_db s) of
                             (Inl e, d) \<Rightarrow>
                               if e = ErrDeviceUnknown then reply_err i cmd codeUnauthenticated ''device is not paired'' (s\<lparr>sv_db := d\<rparr>)
                               else reply_err i cmd codeInternal ''failed to revoke the device'' (s\<lparr>sv_db := d\<rparr>)
                           | (Inr closed, d) \<Rightarrow>
                               let s1 = s\<lparr>sv_db := d\<rparr>;
                                   s2 = (if key \<noteq> cl_deviceKey (sv_client s1 i) then reply_ok i cmd REmpty (dropDevice key s1)
                                         else dropDevice key (reply_ok i cmd REmpty s1))
                               in fold (tell_closed key (io_now io)) closed s2)"

definition inviteDirectAddress :: "server \<Rightarrow> string" where
  "inviteDirectAddress s =
     (case sv_addrs s of
        Some cur \<Rightarrow> (case as_Direct cur of a # _ \<Rightarrow> a | [] \<Rightarrow> listenAddress (sv_cfgAddr s))
      | None \<Rightarrow> listenAddress (sv_cfgAddr s))"

definition handleDeviceInvite :: "io \<Rightarrow> nat \<Rightarrow> Command \<Rightarrow> server \<Rightarrow> server" where
  "handleDeviceInvite io i cmd s =
     (case ServerIdentity (io_flt io) (sv_db s) of
        Inl e \<Rightarrow> reply_err i cmd codeInternal ''failed to read the server identity'' s
      | Inr publicKey \<Rightarrow>
          (case Addresses (io_flt io) (sv_db s) of
             Inl e \<Rightarrow> reply_err i cmd codeInternal ''failed to read the addresses'' s
           | Inr row \<Rightarrow>
               let conf = configured (io_sha3 io) (io_low io) row;
                   host = cl_requestHost (sv_client s i);
                   addr = (if onionHost (io_low io) host then inviteDirectAddress s else inviteAddress (sv_cfgAddr s) host)
               in case IssueDeviceInvite (io_flt io) (io_tok io) (cl_deviceKey (sv_client s i)) (now_of io) (sv_db s) of
                    (Inl e, d) \<Rightarrow>
                      if e = ErrDeviceUnknown then reply_err i cmd codeUnauthenticated ''device is not paired'' (s\<lparr>sv_db := d\<rparr>)
                      else reply_err i cmd codeInternal ''failed to issue an invite'' (s\<lparr>sv_db := d\<rparr>)
                  | (Inr token, d) \<Rightarrow>
                      (case buildLink publicKey token addr conf of
                         None \<Rightarrow> reply_err i cmd codeInternal ''failed to build the link'' (s\<lparr>sv_db := d\<rparr>)
                       | Some (link, carries) \<Rightarrow>
                           reply_ok i cmd (RInvite \<lparr>ir_Token = token, ir_Link = link, ir_Onion = lc_Onion carries, ir_Public = lc_Public carries\<rparr>)
                             (s\<lparr>sv_db := d\<rparr>))))"

definition handleIdentitySetLabel :: "io \<Rightarrow> nat \<Rightarrow> Command \<Rightarrow> server \<Rightarrow> server" where
  "handleIdentitySetLabel io i cmd s =
     (case one_string io ''label'' cmd of
        None \<Rightarrow> reply_err i cmd codeInvalidRequest ''malformed identity.setLabel data'' s
      | Some rawLabel \<Rightarrow>
          let label = TrimSpace rawLabel; userID = id_UserID (cl_identity (sv_client s i))
          in if label = '''' then reply_err i cmd codeInvalidRequest ''label is required'' s
             else case SetLabel (io_flt io) userID label (sv_db s) of
                    (Inl e, d) \<Rightarrow> reply_err i cmd codeInternal ''failed to set the label'' (s\<lparr>sv_db := d\<rparr>)
                  | (Inr u, d) \<Rightarrow> refreshLabel userID label i (reply_ok i cmd (RLabel label) (s\<lparr>sv_db := d\<rparr>)))"

section \<open>Dispatch\<close>

definition dispatch :: "io \<Rightarrow> nat \<Rightarrow> Command \<Rightarrow> server \<Rightarrow> server" where
  "dispatch io i cmd s =
     (let c = sv_client s i; name = cmd_Cmd cmd
      in if cl_revoked c then reply_err i cmd codeUnauthenticated ''device is not paired'' s
         else if \<not> cl_helloDone c \<and> name \<noteq> CmdSessionHello \<and> name \<noteq> CmdPair \<and> name \<noteq> CmdPairCancel
         then reply_err i cmd codeInvalidRequest ''session.hello must be the first command'' s
         else if name = CmdSessionHello then handleSessionHello io i cmd s
         else if name = CmdPair then handlePair io i cmd s
         else if name = CmdPairCancel then handlePairCancel io i cmd s
         else if name = CmdDeviceApprove then handleDeviceApprove io i cmd s
         else if name = CmdDeviceList then handleDeviceList io i cmd s
         else if name = CmdDeviceRevoke then handleDeviceRevoke io i cmd s
         else if name = CmdDeviceInvite then handleDeviceInvite io i cmd s
         else if name = CmdIdentitySetLabel then handleIdentitySetLabel io i cmd s
         else if name = CmdChatsList then handleChatsList io i cmd s
         else if name = CmdChatGet then handleChatGet io i cmd s
         else if name = CmdChatCreate then handleChatCreate io i cmd s
         else if name = CmdChatRename then handleChatRename io i cmd s
         else if name = CmdChatNameAvailable then handleChatNameAvailable io i cmd s
         else if name = CmdChatFiles then handleChatFiles io i cmd s
         else if name = CmdMessagesList then handleMessagesList io i cmd s
         else if name = CmdMessageSend then handleMessageSend io i cmd s
         else if name = CmdFileUploadBegin then handleFileUploadBegin io i cmd s
         else if name = CmdFileDownloadBegin then handleFileDownloadBegin io i cmd s
         else reply_err i cmd codeInvalidRequest ''unknown command'' s)"

text \<open>One turn of \<open>readLoop\<close>: a frame that is no JSON object ends the connection.\<close>

definition read_frame :: "(string \<Rightarrow> json option) \<Rightarrow> io \<Rightarrow> nat \<Rightarrow> string \<Rightarrow> server \<Rightarrow> server" where
  "read_frame pj io i raw s =
     (case ParseCommand (io_sf io) pj raw of
        (cmd, None) \<Rightarrow> dispatch io i cmd s
      | (cmd, Some ErrMissingCmd) \<Rightarrow> reply_err i cmd codeInvalidRequest ''missing cmd'' s
      | (cmd, Some ParseFailed) \<Rightarrow> close i StatusProtocolError ''unparseable frame'' s)"

text \<open>\<open>handleWS\<close> up to its read loop, and what its deferred calls do when the loop ends.\<close>

definition handleWS :: "io \<Rightarrow> nat \<Rightarrow> string \<Rightarrow> string \<Rightarrow> server \<Rightarrow> server" where
  "handleWS io i key host s =
     (let s1 = track i (upd i (\<lambda>_. newClient key host) s);
          s2 = (if pairedKey (io_flt io) key (sv_db s1) then s1 else holdUnpaired i (io_now io) s1)
      in sendFrame i (Greeting SchemaVersion) s2)"

definition cleanup :: "nat \<Rightarrow> server \<Rightarrow> server" where
  "cleanup i s = (if cl_sub (sv_client s i) then unsubscribe i s else s)"

definition hang_up :: "bool \<Rightarrow> nat \<Rightarrow> server \<Rightarrow> server" where
  "hang_up stranger i s = untrack i (close i StatusNormalClosure '''' (cleanup i (if stranger then letGoLocked i s else s)))"

end
