(* ===== verification/Dispatcher.thy ===== *)
theory Dispatcher
  imports Session Store_Steps
begin

text \<open>
  The dispatcher of \<open>server.go\<close>, the forwarding of \<open>client.go\<close>, and the server as one system: connections
  that open, send commands and end, the sweeper, the timers, the writers beside the sessions, the
  dispatcher and the forwarders, in any order. A command is one step, except where the dispatcher
  running in between matters: the greeting, whose subscription, cursor and replay are steps of their own,
  and the three commands that may write to the journal, whose commit, reply and wake-up are.
\<close>

section \<open>State\<close>

text \<open>Where a connection's greeting stands: subscribed and about to reply, or replied and about to replay.\<close>

datatype greeting = Subscribed io Command "int option" Identity string | Replied io "int option"

text \<open>
  Where a writing handler stands: the store has committed and the reply is to be queued, or the reply is
  queued and the dispatcher to be woken, if there is an event for it.
\<close>

datatype pending = Committed Command reply_data bool | Answered bool

fun owes :: "pending option \<Rightarrow> bool" where
  "owes (Some (Committed cmd dat wk)) = wk"
| "owes (Some (Answered wk)) = wk"
| "owes None = False"

text \<open>
  \<open>sy_last\<close> is the dispatcher's \<open>last\<close>, \<open>sy_batch\<close> what is left of the events it read, \<open>sy_reading\<close> that it is in
  its inner loop. Four fields are not in the code and no step reads them: \<open>sy_failed\<close>
  tells that the last read of the log failed, \<open>sy_start\<close> is the number of events the dispatcher found at
  its start, \<open>sy_replayed\<close> the \<open>since\<close> of a finished replay with the number of events it
  saw, \<open>sy_used\<close> the connection numbers given out.
\<close>

record system =
  sy_sv :: server
  sy_last :: int
  sy_batch :: "StoredEvent list"
  sy_reading :: bool
  sy_failed :: bool
  sy_start :: nat
  sy_greeting :: "nat \<Rightarrow> greeting option"
  sy_pending :: "nat \<Rightarrow> pending option"
  sy_replayed :: "nat \<Rightarrow> (int option \<times> nat) option"
  sy_used :: "nat set"

section \<open>The dispatcher\<close>

definition startDispatcher :: "faults \<Rightarrow> server \<Rightarrow> system option" where
  "startDispatcher flt s =
     (case Cursor flt (sv_db s) of
        Inl e \<Rightarrow> None
      | Inr cursor \<Rightarrow> Some \<lparr>sy_sv = s, sy_last = cursor, sy_batch = [], sy_reading = False, sy_failed = False,
          sy_start = length (events (sv_db s)), sy_greeting = (\<lambda>_. None), sy_pending = (\<lambda>_. None), sy_replayed = (\<lambda>_. None), sy_used = {}\<rparr>)"

definition wake :: "system \<Rightarrow> system" where
  "wake y = (if sv_kick (sy_sv y) \<and> \<not> sy_reading y
     then y\<lparr>sy_sv := (sy_sv y)\<lparr>sv_kick := False\<rparr>, sy_reading := True\<rparr> else y)"

definition read_log :: "faults \<Rightarrow> system \<Rightarrow> system" where
  "read_log flt y =
     (if \<not> sy_reading y \<or> sy_batch y \<noteq> [] then y
      else case EventsSince flt (sy_last y) (sv_db (sy_sv y)) of
             Inl e \<Rightarrow> y\<lparr>sy_reading := False, sy_failed := True\<rparr>
           | Inr evs \<Rightarrow> if evs = [] then y\<lparr>sy_reading := False, sy_failed := False\<rparr> else y\<lparr>sy_batch := evs, sy_failed := False\<rparr>)"

text \<open>One event of the batch; a subscriber the hub evicts has its connection closed.\<close>

definition cast_next :: "system \<Rightarrow> system option" where
  "cast_next y =
     (case sy_batch y of
        [] \<Rightarrow> Some y
      | ev # evs \<Rightarrow>
          let y1 = y\<lparr>sy_last := ev_Seq ev, sy_batch := evs\<rparr>; s = sy_sv y
          in case eventEnvelope ev of
               None \<Rightarrow> Some y1
             | Some env \<Rightarrow>
                 map_option (\<lambda>h. y1\<lparr>sy_sv :=
                     fold (\<lambda>i. close i StatusPolicyViolation ''slow consumer'')
                       (filter (\<lambda>i. i \<notin> set (h_subs h)) (h_subs (sv_hub s))) (s\<lparr>sv_hub := h\<rparr>)\<rparr>)
                   (Broadcast env (sv_hub s)))"

section \<open>Forwarding\<close>

text \<open>\<open>full\<close> tells that the outbound queue has no room: the frame is lost and the connection closes.\<close>

definition enqueueLive :: "bool \<Rightarrow> nat \<Rightarrow> frame \<Rightarrow> server \<Rightarrow> bool \<times> server" where
  "enqueueLive full i fr s =
     (if full then (False, close i StatusPolicyViolation ''slow consumer'' s) else (True, sendFrame i fr s))"

definition forward_one :: "bool \<Rightarrow> nat \<Rightarrow> server \<Rightarrow> server" where
  "forward_one full i s =
     (if \<not> cl_forward (sv_client s i) then s
      else case h_sub (sv_hub s) i of
             None \<Rightarrow> s
           | Some sb \<Rightarrow>
               (case sb_ch sb of
                  [] \<Rightarrow> if sb_closed sb then upd i (\<lambda>c. c\<lparr>cl_forward := False\<rparr>) s else s
                | env # envs \<Rightarrow>
                    let s1 = s\<lparr>sv_hub := Take i (sv_hub s)\<rparr>;
                        (ok, s2) = enqueueLive full i (FrameFor env (id_UserID (cl_identity (sv_client s i)))) s1
                    in if ok then s2 else upd i (\<lambda>c. c\<lparr>cl_forward := False\<rparr>) s2))"

section \<open>The system\<close>

definition on_server :: "(server \<Rightarrow> server) \<Rightarrow> system \<Rightarrow> system" where
  "on_server f y = y\<lparr>sy_sv := f (sy_sv y)\<rparr>"

definition greet :: "nat \<Rightarrow> greeting option \<Rightarrow> system \<Rightarrow> system" where
  "greet i g y = y\<lparr>sy_greeting := (sy_greeting y)(i := g)\<rparr>"

definition begin_hello :: "io \<Rightarrow> nat \<Rightarrow> Command \<Rightarrow> system \<Rightarrow> system" where
  "begin_hello io i cmd y =
     (case hello_subscribe io i cmd (sy_sv y) of
        (None, s) \<Rightarrow> y\<lparr>sy_sv := s\<rparr>
      | (Some (since, ident, journalID), s) \<Rightarrow> greet i (Some (Subscribed io cmd since ident journalID)) (y\<lparr>sy_sv := s\<rparr>))"

definition reply_hello :: "io \<Rightarrow> nat \<Rightarrow> Command \<Rightarrow> int option \<Rightarrow> Identity \<Rightarrow> string \<Rightarrow> system \<Rightarrow> system" where
  "reply_hello io i cmd since ident journalID y =
     (case hello_reply io i cmd ident journalID (sy_sv y) of
        (ok, s) \<Rightarrow> greet i (if ok then Some (Replied io since) else None) (y\<lparr>sy_sv := s\<rparr>))"

definition end_hello :: "io \<Rightarrow> nat \<Rightarrow> int option \<Rightarrow> system \<Rightarrow> system" where
  "end_hello io i since y =
     (let s = replay (io\<lparr>io_snap := sv_db (sy_sv y)\<rparr>) i since (sy_sv y)
      in greet i None (y\<lparr>sy_sv := s, sy_replayed := (sy_replayed y)(i := if cl_forward (sv_client s i)
           then Some (since, length (events (sv_db (sy_sv y)))) else sy_replayed y i)\<rparr>))"

text \<open>A writing command, past the checks of \<open>dispatch\<close>: up to the commit, the reply, the wake-up.\<close>

definition admitted :: "nat \<Rightarrow> Command \<Rightarrow> server \<Rightarrow> bool" where
  "admitted i cmd s \<longleftrightarrow> writing_command cmd \<and> \<not> cl_revoked (sv_client s i) \<and> cl_helloDone (sv_client s i)"

definition hold :: "nat \<Rightarrow> pending option \<Rightarrow> system \<Rightarrow> system" where
  "hold i p y = y\<lparr>sy_pending := (sy_pending y)(i := p)\<rparr>"

definition begin_write :: "io \<Rightarrow> nat \<Rightarrow> Command \<Rightarrow> system \<Rightarrow> system" where
  "begin_write io i cmd y =
     (case write_commit io i cmd (sy_sv y) of
        (None, s) \<Rightarrow> y\<lparr>sy_sv := s\<rparr>
      | (Some (dat, wk), s) \<Rightarrow> hold i (Some (Committed cmd dat wk)) (y\<lparr>sy_sv := s\<rparr>))"

definition reply_write :: "nat \<Rightarrow> Command \<Rightarrow> reply_data \<Rightarrow> bool \<Rightarrow> system \<Rightarrow> system" where
  "reply_write i cmd dat wk y = hold i (Some (Answered wk)) (on_server (reply_ok i cmd dat) y)"

definition end_write :: "nat \<Rightarrow> bool \<Rightarrow> system \<Rightarrow> system" where
  "end_write i wk y = hold i None (on_server (kick_if wk) y)"

text \<open>The writers beside the sessions: an upload that ends, the orphan sweep, the service page.\<close>

inductive beside :: "db \<Rightarrow> db \<Rightarrow> bool" where
  "beside d (snd (MarkUploaded flt fileID d))"
| "beside d (snd (DeleteFiles flt ids d))"
| "beside d (snd (IssueMachineLink flt tok now d))"
| "beside d (snd (PageMachineLink flt tok now snap d))"
| "beside d (snd (SetAddress flt kind v d))"

inductive sys_step :: "(rune \<Rightarrow> rune) \<Rightarrow> system \<Rightarrow> system \<Rightarrow> bool" for sf where
  Open: "i \<notin> sy_used y \<Longrightarrow> io_sf io = sf \<Longrightarrow>
    sys_step sf y ((on_server (handleWS io i key host) y)\<lparr>sy_used := insert i (sy_used y)\<rparr>)"
| Command: "i \<in> set (sv_conns (sy_sv y)) \<Longrightarrow> io_sf io = sf \<Longrightarrow> sy_greeting y i = None \<Longrightarrow> sy_pending y i = None \<Longrightarrow>
    cmd_Cmd cmd \<noteq> CmdSessionHello \<or> cl_revoked (sv_client (sy_sv y) i) \<Longrightarrow> \<not> admitted i cmd (sy_sv y) \<Longrightarrow>
    sys_step sf y (on_server (dispatch io i cmd) y)"
| Write: "i \<in> set (sv_conns (sy_sv y)) \<Longrightarrow> io_sf io = sf \<Longrightarrow> sy_greeting y i = None \<Longrightarrow> sy_pending y i = None \<Longrightarrow> admitted i cmd (sy_sv y) \<Longrightarrow>
    sys_step sf y (begin_write io i cmd y)"
| Write_reply: "sy_pending y i = Some (Committed cmd dat wk) \<Longrightarrow> sys_step sf y (reply_write i cmd dat wk y)"
| Write_kick: "sy_pending y i = Some (Answered wk) \<Longrightarrow> sys_step sf y (end_write i wk y)"
| Hello: "i \<in> set (sv_conns (sy_sv y)) \<Longrightarrow> io_sf io = sf \<Longrightarrow> sy_greeting y i = None \<Longrightarrow> sy_pending y i = None \<Longrightarrow> cmd_Cmd cmd = CmdSessionHello \<Longrightarrow> \<not> cl_revoked (sv_client (sy_sv y) i) \<Longrightarrow>
    sys_step sf y (begin_hello io i cmd y)"
| Hello_reply: "sy_greeting y i = Some (Subscribed io cmd since ident journalID) \<Longrightarrow>
    sys_step sf y (reply_hello io i cmd since ident journalID y)"
| Hello_replay: "sy_greeting y i = Some (Replied io since) \<Longrightarrow> sys_step sf y (end_hello io i since y)"
| HangUp: "i \<in> set (sv_conns (sy_sv y)) \<Longrightarrow> sy_greeting y i = None \<Longrightarrow> sy_pending y i = None \<Longrightarrow> sys_step sf y (on_server (hang_up stranger i) y)"
| Sweep: "sys_step sf y (on_server (sweepRequests flt now snap) y)"
| Timer: "sys_step sf y (on_server (outOfTime i gen) y)"
| Beside: "beside (sv_db (sy_sv y)) d \<Longrightarrow> sys_step sf y (on_server (sv_db_update (\<lambda>_. d)) y)"
| Addresses: "sys_step sf y (on_server (\<lambda>s. sendAddresses (snd (refreshAddresses nxt s))) y)"
| Wake: "sys_step sf y (wake y)"
| Read: "sys_step sf y (read_log flt y)"
| Cast: "cast_next y = Some y' \<Longrightarrow> sys_step sf y y'"
| Forward: "i \<in> set (sv_conns (sy_sv y)) \<Longrightarrow> sys_step sf y (on_server (forward_one full i) y)"

end
