(* ===== verification/Session_Properties.thy ===== *)
theory Session_Properties
  imports Session Store_Steps
begin

text \<open>
  What a session promises: every command is answered exactly once, whatever it does to
  other connections; it changes the database only through the operations of the store; a change of
  the journal always wakes the dispatcher; and a connection that has not greeted, or whose device
  was revoked, can do nothing but ask to pair.
\<close>

section \<open>Replies\<close>

fun reply_of :: "frame \<Rightarrow> reply_data Reply option" where
  "reply_of (FReply r) = Some r"
| "reply_of _ = None"

definition replies :: "nat \<Rightarrow> server \<Rightarrow> reply_data Reply list" where
  "replies j s = List.map_filter reply_of (cl_out (sv_client s j))"

text \<open>
  What the outside sees of a session: the replies on every connection, the database, and whether the
  dispatcher was woken. The notifications and the registry's bookkeeping leave it alone.
\<close>

definition view :: "server \<Rightarrow> (nat \<Rightarrow> reply_data Reply list) \<times> db \<times> bool" where
  "view s = (\<lambda>j. replies j s, sv_db s, sv_kick s)"

lemma view_cong: "sv_client t = sv_client s \<Longrightarrow> sv_db t = sv_db s \<Longrightarrow> sv_kick t = sv_kick s \<Longrightarrow> view t = view s"
  by (simp add: view_def replies_def)

lemma view_fields [simp]:
  "view (s\<lparr>sv_unpaired := us\<rparr>) = view s" "view (s\<lparr>sv_waits := ws\<rparr>) = view s" "view (s\<lparr>sv_timers := ts\<rparr>) = view s"
  "view (s\<lparr>sv_unpairedCut := n\<rparr>) = view s" "view (s\<lparr>sv_unpairedWarned := m\<rparr>) = view s" "view (s\<lparr>sv_transfersCut := cs\<rparr>) = view s"
  "view (s\<lparr>sv_addrKick := b\<rparr>) = view s" "view (s\<lparr>sv_hub := h\<rparr>) = view s" "view (s\<lparr>sv_tokens := toks\<rparr>) = view s"
  by (simp_all add: view_def replies_def)

lemma view_upd: "(\<And>c. cl_out (f c) = cl_out c) \<Longrightarrow> view (upd i f s) = view s"
  by (auto simp: view_def replies_def upd_def)

lemma view_fold: "(\<And>x t. view (f x t) = view t) \<Longrightarrow> view (fold f xs s) = view s"
  by (induction xs arbitrary: s) auto

lemma view_event: "reply_of fr = None \<Longrightarrow> view (sendFrame i fr s) = view s"
  by (auto simp: view_def replies_def sendFrame_def upd_def)

lemma view_events: "reply_of fr = None \<Longrightarrow> view (sendFrames is fr s) = view s"
  unfolding sendFrames_def by (rule view_fold) (rule view_event)

lemma view_steps [simp]:
  "view (close i code reason s) = view s" "view (closeAfterFlush i reason s) = view s" "view (setIdentity i ident s) = view s"
  "view (markGreeted i v s) = view s" "view (pokeAddresses s) = view s" "view (letGoLocked i s) = view s" "view (armLocked i d s) = view s"
  "view (settleUnpaired i s) = view s" "view (subscribe i s) = view s" "view (unsubscribe i s) = view s" "view (unwind i s) = view s"
  by (auto simp: view_def replies_def upd_def close_def closeAfterFlush_def setIdentity_def markGreeted_def pokeAddresses_def
      letGoLocked_def armLocked_def settleUnpaired_def subscribe_def unsubscribe_def unwind_def Let_def)

lemma view_closeToMakeRoom [simp]: "view (closeToMakeRoom is s) = view s"
  unfolding closeToMakeRoom_def by (rule view_fold) simp

lemma view_make_room: "view (fst (make_room is s)) = view s"
  by (induction "is" s rule: make_room.induct) (auto split: prod.splits)

lemma view_place: "view (fst (placeUnpairedLocked i now s)) = view s"
  using view_make_room [of "sv_unpaired s" s]
  by (auto simp: placeUnpairedLocked_def Let_def view_upd split: prod.splits)

lemma view_holdUnpaired [simp]: "view (holdUnpaired i now s) = view s"
  using view_place [of i now s] by (auto simp: holdUnpaired_def split: prod.splits)

lemma view_endWait [simp]: "view (endWait r now s) = view s"
proof (cases "sv_waits s (pr_RequestID r)")
  case (Some h)
  then show ?thesis using view_place [of h now "letGoLocked h s"] by (auto simp: endWait_def Let_def split: prod.splits)
qed (simp add: endWait_def)

lemma view_takeWait [simp]: "view (takeWait i r now s) = view s"
  by (simp add: takeWait_def Let_def view_upd split: option.splits)

lemma view_awaitAnswer [simp]: "view (awaitAnswer flt i r now snap s) = view s"
  by (simp add: awaitAnswer_def Let_def split: sum.splits)

lemma view_tell [simp]:
  "view (sendTo is nm ev s) = view s" "view (tellIssuer r s) = view s" "view (tellNewDevice r ident s) = view s"
  "view (announcePairRequested r s) = view s" "view (announceDevicesChanged u ex s) = view s" "view (announcePaired o' u s) = view s"
  by (simp_all add: sendTo_def tellIssuer_def tellNewDevice_def announcePairRequested_def announceDevicesChanged_def announcePaired_def
      pairRequestedEvent_def view_events)

lemma view_closed [simp]: "view (announcePairClosed r ident now s) = view s" "view (tell_closed key now r s) = view s"
  by (simp_all add: announcePairClosed_def tell_closed_def Let_def)

lemma view_resend [simp]: "view (resendPairRequests flt flt' i now now' snap s) = view s"
  by (simp add: resendPairRequests_def Let_def pairRequestedEvent_def view_fold view_event split: sum.splits)

lemma view_dropDevice [simp]: "view (dropDevice key s) = view s"
  by (simp add: dropDevice_def Let_def view_fold view_event view_upd)

lemma view_refreshLabel [simp]: "view (refreshLabel u label o' s) = view s"
  by (simp add: refreshLabel_def Let_def view_fold view_events view_upd)

lemma event_frame: "eventEnvelope ev = Some env \<Longrightarrow> reply_of (FrameFor env u) = None"
  by (auto simp: eventEnvelope_def FrameFor_def Let_def split: if_splits option.splits)

lemma view_send_all: "view (snd (send_all i evs s)) = view s"
  by (induction i evs s rule: send_all.induct) (auto simp: view_event event_frame split: option.splits)

lemma view_replay [simp]: "view (replay io i since s) = view s"
  by (auto simp: replay_def Let_def view_upd split: option.splits sum.splits prod.splits bool.splits)
    (metis view_send_all snd_conv)+

section \<open>One reply to every command\<close>

text \<open>
  \<open>answers sf i cmd v w\<close>: from view \<open>v\<close> to view \<open>w\<close> connection \<open>i\<close> got exactly one reply more, the one to
  \<open>cmd\<close>, no other connection got any, the database made at most one step of the store, and the
  dispatcher is woken if the journal changed; no wake-up is taken back.
\<close>

type_synonym view = "(nat \<Rightarrow> reply_data Reply list) \<times> db \<times> bool"

definition put :: "nat \<Rightarrow> reply_data Reply \<Rightarrow> view \<Rightarrow> view" where
  "put i r v = ((fst v)(i := fst v i @ [r]), snd v)"

definition answers :: "(rune \<Rightarrow> rune) \<Rightarrow> nat \<Rightarrow> Command \<Rightarrow> view \<Rightarrow> view \<Rightarrow> bool" where
  "answers sf i cmd v w \<longleftrightarrow>
     (\<exists>r. rp_ID r = cmd_ID cmd \<and> fst w = (fst v)(i := fst v i @ [r])) \<and> (store_step sf)\<^sup>=\<^sup>= (fst (snd v)) (fst (snd w))
     \<and> (events (fst (snd w)) = events (fst (snd v)) \<or> snd (snd w)) \<and> (snd (snd v) \<longrightarrow> snd (snd w))"

lemma view_parts [simp]: "fst (snd (view s)) = sv_db s" "snd (view s) = (sv_db s, sv_kick s)"
  by (simp_all add: view_def)

lemma reply_ids [simp]: "rp_ID (OKReply n d) = n" "rp_ID (ErrReply n c m) = n"
  by (simp_all add: OKReply_def ErrReply_def)

lemma view_reply [simp]:
  "view (reply_err i cmd code m s) = put i (ErrReply (cmd_ID cmd) code m) (view s)"
  "view (reply_ok i cmd d s) = put i (OKReply (cmd_ID cmd) d) (view s)"
  by (auto simp: view_def put_def replies_def reply_err_def reply_ok_def sendFrame_def upd_def)

lemma view_db [simp]: "view (s\<lparr>sv_db := d\<rparr>) = (fst (view s), d, sv_kick s)"
  by (simp add: view_def replies_def)

lemma view_kick [simp]: "view (kickDispatcher s) = (fst (view s), fst (snd (view s)), True)"
  by (simp add: view_def replies_def kickDispatcher_def)

lemma put_parts [simp]: "(fst (put i r v), w) = put i r (fst v, w)" "snd (put i r v) = snd v"
  by (simp_all add: put_def)

lemma put_same: "f(i := f i @ [r]) = f(i := f i @ [r']) \<longleftrightarrow> r = r'" for f :: "nat \<Rightarrow> 'r list"
  by (metis fun_upd_same last_snoc)

lemma answers_put [simp]: "answers sf i cmd v (put i r v) \<longleftrightarrow> rp_ID r = cmd_ID cmd"
  by (auto simp: answers_def put_def put_same)

lemma answers_write [simp]:
  "answers sf i cmd (view s) (put i r (fst (view s), d, k)) \<longleftrightarrow>
     rp_ID r = cmd_ID cmd \<and> (store_step sf)\<^sup>=\<^sup>= (sv_db s) d \<and> (events d = events (sv_db s) \<or> k) \<and> (sv_kick s \<longrightarrow> k)"
  by (auto simp: answers_def put_def put_same)

text \<open>What the operations a handler calls do to the database.\<close>

definition off_log :: "(rune \<Rightarrow> rune) \<Rightarrow> db \<Rightarrow> db \<Rightarrow> bool" where
  "off_log sf s d \<longleftrightarrow> store_step sf s d \<and> events d = events s"

lemma off_logI: "store_step sf s (snd x) \<Longrightarrow> same_journal s (snd x) \<Longrightarrow> x = (r, d) \<Longrightarrow> off_log sf s d"
  by (auto simp: off_log_def same_journal_def)

lemma off_log_answer: "off_log sf s d \<Longrightarrow> (store_step sf)\<^sup>=\<^sup>= s d \<and> events d = events s"
  by (auto simp: off_log_def)

lemma off_log_ops:
  assumes "store_ok sf s"
  shows "ResolveIdentity flt k now s = (ri, d) \<Longrightarrow> off_log sf s d"
    and "Pair flt rid draws token k platform now s = (rp, d) \<Longrightarrow> off_log sf s d"
    and "CancelPairRequest flt token k now s = (rc, d) \<Longrightarrow> off_log sf s d"
    and "DecidePairRequest flt q k allow now s = (rd, d) \<Longrightarrow> off_log sf s d"
    and "RevokeDeviceAs flt caller k now s = (rr, d) \<Longrightarrow> off_log sf s d"
    and "IssueDeviceInvite flt tok k now s = (rv, d) \<Longrightarrow> off_log sf s d"
    and "SetLabel flt u label s = (rl, d) \<Longrightarrow> off_log sf s d"
    and "CreateUpload flt rid name size0 mime now s = (ru, d) \<Longrightarrow> off_log sf s d"
proof -
  show "CreateUpload flt rid name size0 mime now s = (ru, d) \<Longrightarrow> off_log sf s d"
    using store_step.CreateUpload [of sf s flt rid name size0 mime now]
    by (auto simp: off_log_def CreateUpload_def Let_def autocommit_def exec_def split: if_splits)
  show "DecidePairRequest flt q k allow now s = (rd, d) \<Longrightarrow> off_log sf s d"
    using assms off_logI [OF store_step.DecidePairRequest DecidePairRequest_keeps] by (auto simp: store_ok_def)
  show "RevokeDeviceAs flt caller k now s = (rr, d) \<Longrightarrow> off_log sf s d"
    using off_logI [OF store_step.RevokeDeviceAs] revokeDevice_keeps by (simp add: RevokeDeviceAs_def)
qed (auto intro: off_logI store_step.intros pairing_keeps_journal)

lemma CreateChat_moves: "CreateChat flt sf rid i name lbl now s = (r, d) \<Longrightarrow> store_step sf s d"
  by (metis snd_conv store_step.CreateChat)

lemma RenameChat_moves: "RenameChat flt sf i name s = (r, d) \<Longrightarrow> store_step sf s d"
  by (metis snd_conv store_step.RenameChat)

lemma SendMessage_moves: "SendMessage flt sf rid chatID cmid author body fileID now s = (r, d) \<Longrightarrow> store_step sf s d"
  by (metis snd_conv store_step.SendMessage)

lemma CreateChat_log: "CreateChat flt sf rid i name lbl now s = (r, d) \<Longrightarrow> (\<nexists>c ev. r = Inr (c, ev, True)) \<Longrightarrow> d = s"
  by (erule CreateChat_cases) auto

lemma RenameChat_log: "RenameChat flt sf i name s = (r, d) \<Longrightarrow> (\<nexists>c ev. r = Inr (c, ev, True)) \<Longrightarrow> d = s"
  by (erule RenameChat_cases) auto

lemma SendMessage_log:
  "log_ok s \<Longrightarrow> SendMessage flt sf rid chatID cmid author body fileID now s = (r, d) \<Longrightarrow> (\<nexists>c ev. r = Inr (c, ev, True)) \<Longrightarrow> d = s"
  by (erule SendMessage_cases) auto

text \<open>The conditions, one branch of a handler at a time.\<close>

lemma branches:
  "(c \<Longrightarrow> answers sf i cmd v (view a)) \<Longrightarrow> (\<not> c \<Longrightarrow> answers sf i cmd v (view b)) \<Longrightarrow> answers sf i cmd v (view (if c then a else b))"
  "(\<And>x. answers sf i cmd v (view (f x))) \<Longrightarrow> answers sf i cmd v (view (Let y f))"
  "(o' = None \<Longrightarrow> answers sf i cmd v (view a)) \<Longrightarrow> (\<And>x. o' = Some x \<Longrightarrow> answers sf i cmd v (view (g x)))
     \<Longrightarrow> answers sf i cmd v (view (case o' of None \<Rightarrow> a | Some x \<Rightarrow> g x))"
  by (auto split: option.splits)

section \<open>The handlers\<close>

text \<open>The handlers that may write to the journal, up to their commit: an answer, or a step of the store that owes a wake-up if it wrote.\<close>

definition commits :: "(rune \<Rightarrow> rune) \<Rightarrow> nat \<Rightarrow> Command \<Rightarrow> server \<Rightarrow> commit_end \<Rightarrow> bool" where
  "commits sf i cmd s w \<longleftrightarrow> (case w of
       (None, t) \<Rightarrow> answers sf i cmd (view s) (view t) \<and> sv_kick t = sv_kick s \<and> events (sv_db t) = events (sv_db s)
     | (Some (dat, wake), t) \<Rightarrow> \<exists>d. t = s\<lparr>sv_db := d\<rparr> \<and> (store_step sf)\<^sup>=\<^sup>= (sv_db s) d \<and> (events d = events (sv_db s) \<or> wake))"

lemma commits_end: "commits sf i cmd s w \<Longrightarrow> answers sf i cmd (view s) (view (after_commit i cmd w))"
  by (cases w) (auto simp: commits_def after_commit_def kick_if_def split: option.splits)

lemma sv_kick_reply [simp]: "sv_kick (reply_err i cmd c m s) = sv_kick s" "sv_db (reply_err i cmd c m s) = sv_db s"
  "sv_kick (reply_ok i cmd dat s) = sv_kick s" "sv_db (reply_ok i cmd dat s) = sv_db s"
  by (simp_all add: reply_err_def reply_ok_def sendFrame_def upd_def)

lemma commits_declined:
  "(store_step sf)\<^sup>=\<^sup>= (sv_db s) d \<Longrightarrow> events d = events (sv_db s) \<Longrightarrow> commits sf i cmd s (declined i cmd c m (s\<lparr>sv_db := d\<rparr>))"
  "commits sf i cmd s (declined i cmd c m s)"
  by (simp_all add: commits_def declined_def)

lemma commits_written:
  "(store_step sf)\<^sup>=\<^sup>= (sv_db s) d \<Longrightarrow> events d = events (sv_db s) \<or> wake \<Longrightarrow> commits sf i cmd s (Some (dat, wake), s\<lparr>sv_db := d\<rparr>)"
  by (auto simp: commits_def)

lemma commit_branches:
  "(c \<Longrightarrow> commits sf i cmd s a) \<Longrightarrow> (\<not> c \<Longrightarrow> commits sf i cmd s b) \<Longrightarrow> commits sf i cmd s (if c then a else b)"
  "(\<And>x. commits sf i cmd s (f x)) \<Longrightarrow> commits sf i cmd s (Let y f)"
  "(o' = None \<Longrightarrow> commits sf i cmd s a) \<Longrightarrow> (\<And>x. o' = Some x \<Longrightarrow> commits sf i cmd s (g x))
     \<Longrightarrow> commits sf i cmd s (case o' of None \<Rightarrow> a | Some x \<Rightarrow> g x)"
  "(\<And>a b. p = (a, b) \<Longrightarrow> commits sf i cmd s (h a b)) \<Longrightarrow> commits sf i cmd s (case p of (a, b) \<Rightarrow> h a b)"
  "(\<And>e. r = Inl e \<Longrightarrow> commits sf i cmd s (l e)) \<Longrightarrow> (\<And>x. r = Inr x \<Longrightarrow> commits sf i cmd s (u x))
     \<Longrightarrow> commits sf i cmd s (case r of Inl e \<Rightarrow> l e | Inr x \<Rightarrow> u x)"
  by (auto split: option.splits prod.splits sum.splits)

lemma create_commits: "commits (io_sf io) i cmd s (create_commit io i cmd s)"
  unfolding create_commit_def
  by (intro commit_branches commits_declined commits_written) (auto dest: CreateChat_moves CreateChat_log)

lemma rename_commits: "commits (io_sf io) i cmd s (rename_commit io i cmd s)"
  unfolding rename_commit_def
  by (intro commit_branches commits_declined commits_written) (auto dest: RenameChat_moves RenameChat_log)

lemma send_commits:
  assumes "store_ok (io_sf io) (sv_db s)"
  shows "commits (io_sf io) i cmd s (send_commit io i cmd s)"
proof -
  have "log_ok (sv_db s)" using assms by (simp add: store_ok_def journal_ok_def)
  then show ?thesis unfolding send_commit_def
    by (intro commit_branches commits_declined commits_written) (auto dest: SendMessage_moves SendMessage_log)
qed

lemma write_commits: "store_ok (io_sf io) (sv_db s) \<Longrightarrow> commits (io_sf io) i cmd s (write_commit io i cmd s)"
  by (simp add: write_commit_def create_commits rename_commits send_commits)

lemma handleChatCreate_answers: "answers (io_sf io) i cmd (view s) (view (handleChatCreate io i cmd s))"
  unfolding handleChatCreate_def by (rule commits_end [OF create_commits])

lemma handleChatRename_answers: "answers (io_sf io) i cmd (view s) (view (handleChatRename io i cmd s))"
  unfolding handleChatRename_def by (rule commits_end [OF rename_commits])

lemma handleMessageSend_answers:
  "store_ok (io_sf io) (sv_db s) \<Longrightarrow> answers (io_sf io) i cmd (view s) (view (handleMessageSend io i cmd s))"
  unfolding handleMessageSend_def by (rule commits_end [OF send_commits])

text \<open>The parts of a writing command make up what \<open>dispatch\<close> runs.\<close>

lemma dispatch_parts:
  "writing_command cmd \<Longrightarrow> \<not> cl_revoked (sv_client s i) \<Longrightarrow> cl_helloDone (sv_client s i)
   \<Longrightarrow> dispatch io i cmd s = after_commit i cmd (write_commit io i cmd s)"
  by (auto simp: writing_command_def dispatch_def write_commit_def handleChatCreate_def handleChatRename_def handleMessageSend_def
      CmdChatCreate_def CmdChatRename_def CmdMessageSend_def CmdSessionHello_def CmdPair_def CmdPairCancel_def CmdDeviceApprove_def
      CmdDeviceList_def CmdDeviceRevoke_def CmdDeviceInvite_def CmdIdentitySetLabel_def CmdChatsList_def CmdChatGet_def
      CmdChatNameAvailable_def CmdChatFiles_def CmdMessagesList_def)

lemma reads_answer:
  "answers sf i cmd (view s) (view (handleChatGet io i cmd s))" "answers sf i cmd (view s) (view (handleChatNameAvailable io i cmd s))"
  "answers sf i cmd (view s) (view (handleDeviceList io i cmd s))" "answers sf i cmd (view s) (view (handleFileDownloadBegin io i cmd s))"
  by (auto simp: handleChatGet_def handleChatNameAvailable_def handleDeviceList_def handleFileDownloadBegin_def Let_def
      split: option.splits prod.splits sum.splits)

lemma view_replyUpload [simp]:
  "view (replyUpload io i cmd f n s) =
     (let token = fst (issue (io_tok io) f opUpload n (io_now io) (sv_tokens s))
      in put i (OKReply (cmd_ID cmd) (RUpload \<lparr>ur_FileID = f, ur_UploadURL = ''/files/'' @ token, ur_UploadToken = token,
           ur_MaxAttachmentBytes = MaxAttachmentBytes (sv_limits s), ur_Received = n\<rparr>)) (view s))"
  by (simp add: replyUpload_def Let_def split: prod.splits)

lemma continueUpload_answers: "answers sf i cmd (view s) (view (continueUpload io i cmd f n z m s))"
  by (auto simp: continueUpload_def Let_def split: option.splits prod.splits sum.splits)

lemma handleFileUploadBegin_answers:
  assumes "store_ok sf (sv_db s)"
  shows "answers sf i cmd (view s) (view (handleFileUploadBegin io i cmd s))"
proof -
  have "answers sf i cmd (view s) (view (replyUpload io i cmd (att_FileID att) 0 (s\<lparr>sv_db := d\<rparr>)))"
    if "CreateUpload (io_flt io) (io_rid io) n z m (now_of io) (sv_db s) = (r, d)" for n z m r d att
    using off_log_ops(8) [OF assms that, THEN off_log_answer] by (auto simp: Let_def)
  then show ?thesis
    using off_log_ops(8) [OF assms, THEN off_log_answer] continueUpload_answers
    by (auto simp: handleFileUploadBegin_def Let_def split: option.splits prod.splits sum.splits)
qed

lemma handleDeviceApprove_answers:
  "store_ok sf (sv_db s) \<Longrightarrow> answers sf i cmd (view s) (view (handleDeviceApprove io i cmd s))"
  by (auto simp: handleDeviceApprove_def Let_def dest: off_log_ops(4) [THEN off_log_answer] split: option.splits prod.splits sum.splits)

lemma handlePairCancel_answers:
  "store_ok sf (sv_db s) \<Longrightarrow> answers sf i cmd (view s) (view (handlePairCancel io i cmd s))"
  by (auto simp: handlePairCancel_def Let_def dest: off_log_ops(3) [THEN off_log_answer] split: option.splits prod.splits sum.splits)

lemma handleDeviceRevoke_answers:
  "store_ok sf (sv_db s) \<Longrightarrow> answers sf i cmd (view s) (view (handleDeviceRevoke io i cmd s))"
  by (auto simp: handleDeviceRevoke_def Let_def view_fold dest: off_log_ops(5) [THEN off_log_answer] split: option.splits prod.splits sum.splits)

lemma handleDeviceInvite_answers:
  "store_ok sf (sv_db s) \<Longrightarrow> answers sf i cmd (view s) (view (handleDeviceInvite io i cmd s))"
  by (auto simp: handleDeviceInvite_def Let_def dest: off_log_ops(6) [THEN off_log_answer] split: option.splits prod.splits sum.splits)

lemma handleIdentitySetLabel_answers:
  "store_ok sf (sv_db s) \<Longrightarrow> answers sf i cmd (view s) (view (handleIdentitySetLabel io i cmd s))"
  by (auto simp: handleIdentitySetLabel_def Let_def dest: off_log_ops(7) [THEN off_log_answer] split: option.splits prod.splits sum.splits)

lemma repeatRequest_request: "repeatRequest flt r pt k now s = Inr (res, d) \<Longrightarrow> res_Request res \<noteq> None"
  by (auto simp: repeatRequest_def split: option.split_asm if_split_asm)

lemma requestByInvite_request: "requestByInvite flt rid pt k platform now s = Inr (res, d) \<Longrightarrow> res_Request res \<noteq> None"
  by (auto simp: requestByInvite_def Let_def split: option.split_asm if_split_asm dest: repeatRequest_request)

lemma Pair_request: "Pair flt rid draws token k platform now s = (Inr res, d) \<Longrightarrow> res_Paired res \<or> res_Request res \<noteq> None"
  by (auto simp: Pair_def transact_Inr split: if_splits dest: requestByInvite_request)

lemma handlePair_answers:
  assumes "store_ok sf (sv_db s)"
  shows "answers sf i cmd (view s) (view (handlePair io i cmd s))"
  using assms unfolding handlePair_def
  by (intro branches) (auto simp: Let_def dest: off_log_ops(2) [THEN off_log_answer] Pair_request split: option.splits prod.splits sum.splits)

lemma view_helloDone [simp]: "view (upd i (\<lambda>c. c\<lparr>cl_helloDone := b\<rparr>) s) = view s"
  by (rule view_upd) simp

lemma hello_subscribe_view:
  assumes "store_ok sf (sv_db s)"
  shows "case hello_subscribe io i cmd s of
      (None, t) \<Rightarrow> answers sf i cmd (view s) (view t)
    | (Some q, t) \<Rightarrow> \<exists>d. off_log sf (sv_db s) d \<and> view t = (fst (view s), d, sv_kick s)"
  using assms
  by (auto simp: hello_subscribe_def Let_def dest: off_log_ops(1) off_log_ops(1) [THEN off_log_answer] split: option.splits prod.splits sum.splits)

lemma hello_reply_view:
  "\<exists>r. rp_ID r = cmd_ID cmd \<and> view (snd (hello_reply io i cmd ident j s)) = put i r (view s)"
  by (simp add: hello_reply_def Let_def split: sum.splits) (safe; rule exI, rule conjI [OF _ refl], simp)

lemma handleSessionHello_answers:
  assumes "store_ok sf (sv_db s)"
  shows "answers sf i cmd (view s) (view (handleSessionHello io i cmd s))"
proof (cases "hello_subscribe io i cmd s")
  case (Pair q t)
  show ?thesis
  proof (cases q)
    case None
    then show ?thesis using hello_subscribe_view [OF assms, of i cmd io] Pair by (simp add: handleSessionHello_def)
  next
    case (Some w)
    obtain since ident j where w: "w = (since, ident, j)" by (cases w)
    from hello_subscribe_view [OF assms, of i cmd io] Pair Some obtain d where
      d: "off_log sf (sv_db s) d" "view t = (fst (view s), d, sv_kick s)" by auto
    obtain r where r: "rp_ID r = cmd_ID cmd" "view (snd (hello_reply io i cmd ident j t)) = put i r (view t)"
      using hello_reply_view by blast
    then have "view (handleSessionHello io i cmd s) = put i r (fst (view s), d, sv_kick s)"
      using Pair Some w d(2) by (auto simp: handleSessionHello_def split: prod.splits bool.splits)
    then show ?thesis using r(1) off_log_answer [OF d(1)] by simp
  qed
qed

text \<open>The pages: no slice of a page goes out of bounds, so nothing panics.\<close>

lemma page_of_total: "0 \<le> limit \<Longrightarrow> page_of limit xs \<noteq> None"
  by (auto simp: page_of_def slice_def)

lemma list_pages:
  "0 \<le> limit \<Longrightarrow> ListMessages flt c b limit d \<noteq> None" "0 \<le> limit \<Longrightarrow> ListChatFiles flt c b limit d \<noteq> None"
  using page_of_total by (auto simp: ListMessages_def ListChatFiles_def Let_def)

lemma ListChats_total:
  assumes "1 \<le> page" "page \<le> int64_max" "1 \<le> pageSize" "int (length (chats d)) * pageSize \<le> int64_max"
  shows "ListChats flt sf page pageSize q d \<noteq> None"
proof (cases "flt ''query chats''")
  case False
  then show ?thesis using ListChats_eq [OF assms] by simp
qed (simp add: ListChats_def)

lemma dec_int64_range: "dec_int64 n vs = Some m \<Longrightarrow> in_int64 n \<Longrightarrow> in_int64 m"
  by (induction n vs rule: dec_int64.induct) (auto split: if_splits)

lemma int_field_range: "int_field io name kvs = Some n \<Longrightarrow> n \<le> int64_max"
  using dec_int64_range unfolding int_field_def by (force simp: in_int64_def int64_min_def int64_max_def)

lemma handleMessagesList_answers: "answers sf i cmd (view s) (view (handleMessagesList io i cmd s))"
  unfolding handleMessagesList_def
  by (intro branches) (auto simp: list_pages(1) maxPageSize_def split: option.splits prod.splits sum.splits dest: list_pages(1) [THEN notE, rotated])

lemma handleChatFiles_answers: "answers sf i cmd (view s) (view (handleChatFiles io i cmd s))"
  unfolding handleChatFiles_def
  by (intro branches) (auto simp: list_pages(2) maxPageSize_def split: option.splits prod.splits sum.splits dest: list_pages(2) [THEN notE, rotated])

lemma chatsListRequest_range: "chatsListRequest io cmd = Some (page, n, q) \<Longrightarrow> page \<le> int64_max"
  unfolding chatsListRequest_def
  by (cases "data_of cmd") (auto dest: int_field_range split: option.splits)

lemma handleChatsList_answers:
  assumes "length (chats (sv_db s)) \<le> 2 ^ 56"
  shows "answers sf i cmd (view s) (view (handleChatsList io i cmd s))"
proof -
  have total: "ListChats flt sf' page (min n maxPageSize) q (sv_db s) \<noteq> None" if "1 \<le> page" "page \<le> int64_max" "1 \<le> n" for flt sf' page n q
  proof (rule ListChats_total)
    have "int (length (chats (sv_db s))) * min n maxPageSize \<le> 2 ^ 56 * 100"
      using assms that by (intro mult_mono) (auto simp: maxPageSize_def)
    then show "int (length (chats (sv_db s))) * min n maxPageSize \<le> int64_max" by (simp add: int64_max_def)
  qed (use that in \<open>auto simp: maxPageSize_def\<close>)
  show ?thesis unfolding handleChatsList_def
    by (intro branches) (auto simp: not_less total dest!: chatsListRequest_range split: prod.splits option.split sum.splits)
qed

lemmas handlers_answer = handleSessionHello_answers handlePair_answers handlePairCancel_answers handleDeviceApprove_answers
  handleDeviceRevoke_answers handleDeviceInvite_answers handleIdentitySetLabel_answers handleFileUploadBegin_answers
  handleMessageSend_answers handleChatCreate_answers handleChatRename_answers handleChatsList_answers handleMessagesList_answers
  handleChatFiles_answers reads_answer

lemma dispatch_answers:
  assumes "store_ok (io_sf io) (sv_db s)" "length (chats (sv_db s)) \<le> 2 ^ 56"
  shows "answers (io_sf io) i cmd (view s) (view (dispatch io i cmd s))"
  unfolding dispatch_def by (intro branches handlers_answer assms) simp_all

text \<open>The database side alone holds however many chats there are: a page of chats writes nothing.\<close>

definition moves :: "(rune \<Rightarrow> rune) \<Rightarrow> view \<Rightarrow> view \<Rightarrow> bool" where
  "moves sf v w \<longleftrightarrow> (store_step sf)\<^sup>=\<^sup>= (fst (snd v)) (fst (snd w))
     \<and> (events (fst (snd w)) = events (fst (snd v)) \<or> snd (snd w)) \<and> (snd (snd v) \<longrightarrow> snd (snd w))"

lemma moves_same [simp]: "moves sf v v" "moves sf v (put i r v)"
  by (simp_all add: moves_def put_def)

lemma answers_moves: "answers sf i cmd v w \<Longrightarrow> moves sf v w"
  by (simp add: answers_def moves_def)

lemma moves_if: "(c \<Longrightarrow> moves sf v (view a)) \<Longrightarrow> (\<not> c \<Longrightarrow> moves sf v (view b)) \<Longrightarrow> moves sf v (view (if c then a else b))"
  by simp

lemma moves_let: "(\<And>x. moves sf v (view (f x))) \<Longrightarrow> moves sf v (view (Let y f))"
  by simp

lemma handleChatsList_moves: "moves sf (view s) (view (handleChatsList io i cmd s))"
  by (simp add: handleChatsList_def split: option.splits prod.splits sum.splits)

lemmas handlers_move = handleChatsList_moves handlers_answer(1-11,13-) [THEN answers_moves]

lemma dispatch_moves:
  assumes "store_ok (io_sf io) (sv_db s)"
  shows "moves (io_sf io) (view s) (view (dispatch io i cmd s))"
  unfolding dispatch_def by (intro moves_if moves_let handlers_move assms) simp_all

text \<open>
  C36. Every command is answered exactly once. Whatever the command, its data, the faults of the
  store and the state of the other connections, handling it queues exactly one reply on its own
  connection, with the command's id, and none on any other; the database makes at most one step of the
  store and stays reachable; and if that step wrote to the journal, the dispatcher is woken. So
  no handler panics: a page out of range, a request without an answer or a missing row ends in a reply.
\<close>

theorem command_answered_once:
  assumes "reachable (io_sf io) (sv_db s)" "length (chats (sv_db s)) \<le> 2 ^ 56"
  shows "(\<exists>r. rp_ID r = cmd_ID cmd \<and> replies i (dispatch io i cmd s) = replies i s @ [r])
    \<and> (\<forall>j. j \<noteq> i \<longrightarrow> replies j (dispatch io i cmd s) = replies j s)
    \<and> (store_step (io_sf io))\<^sup>=\<^sup>= (sv_db s) (sv_db (dispatch io i cmd s)) \<and> reachable (io_sf io) (sv_db (dispatch io i cmd s))
    \<and> (events (sv_db (dispatch io i cmd s)) \<noteq> events (sv_db s) \<longrightarrow> sv_kick (dispatch io i cmd s))"
proof -
  have a: "answers (io_sf io) i cmd (view s) (view (dispatch io i cmd s))"
    using dispatch_answers reachable_store_ok assms by blast
  then obtain r where r: "rp_ID r = cmd_ID cmd" "fst (view (dispatch io i cmd s)) = (fst (view s))(i := fst (view s) i @ [r])"
    by (auto simp: answers_def)
  have "replies j (dispatch io i cmd s) = (if j = i then replies i s @ [r] else replies j s)" for j
    using fun_cong [OF r(2), of j] by (simp add: view_def)
  moreover have "(store_step (io_sf io))\<^sup>=\<^sup>= (sv_db s) (sv_db (dispatch io i cmd s))"
    "events (sv_db (dispatch io i cmd s)) \<noteq> events (sv_db s) \<longrightarrow> sv_kick (dispatch io i cmd s)"
    using a by (auto simp: answers_def)
  ultimately show ?thesis using r(1) reachable_step [OF assms(1)] assms(1) by fastforce
qed

definition sample_io :: io where
  "sample_io = \<lparr>io_flt = no_faults, io_flt2 = no_faults, io_sf = id, io_low = id, io_sha3 = id, io_rid = ''7'', io_draws = (\<lambda>_. 0),
     io_tok = ''t'', io_now = 5000000000, io_snap = sample_chat id, io_bodyLen = 0, io_blobSize = (\<lambda>_. None), io_blobReceived = (\<lambda>_. None)\<rparr>"

definition sample_server :: server where
  "sample_server = newServer (sample_chat id) \<lparr>MaxMessageBytes = 65536, MaxAttachmentBytes = 1000, MaxFrameBytes = 131072\<rparr> '':8090''"

theorem command_answered_once_witness:
  "\<exists>r. rp_ID r = 3 \<and> replies 0 (dispatch sample_io 0 \<lparr>cmd_ID = 3, cmd_Cmd = ''session.hello'', cmd_Data = None\<rparr> sample_server) = [r]"
  using command_answered_once [of sample_io sample_server "\<lparr>cmd_ID = 3, cmd_Cmd = ''session.hello'', cmd_Data = None\<rparr>" 0]
    reachable_sample_chat [of id]
  by (simp add: sample_io_def sample_server_def newServer_def sample_chat_value replies_def newClient_def)

end
