(* ===== verification/Delivery.thy ===== *)
theory Delivery
  imports Dispatcher Session_Properties
begin

text \<open>
  Delivery of the journal: what the dispatcher broadcasts, and what a greeted connection gets, in every
  interleaving of the system.
\<close>

section \<open>What concerns the journal\<close>

fun is_journal :: "frame \<Rightarrow> bool" where
  "is_journal (Event n nm (EPayload p)) = True"
| "is_journal _ = False"

definition journal_frames :: "nat \<Rightarrow> server \<Rightarrow> frame list" where
  "journal_frames i s = filter is_journal (cl_out (sv_client s i))"

definition facet :: "client \<Rightarrow> frame list \<times> bool \<times> bool \<times> bool \<times> string" where
  "facet c = (filter is_journal (cl_out c), cl_sub c, cl_forward c, cl_helloDone c, id_UserID (cl_identity c))"

text \<open>The hub, the registered connections, and of every client its journal frames, its subscription, whether it greeted, and its person.\<close>

definition jview :: "server \<Rightarrow> frame Hub \<times> nat list \<times> (nat \<Rightarrow> frame list \<times> bool \<times> bool \<times> bool \<times> string)" where
  "jview s = (sv_hub s, sv_conns s, \<lambda>i. facet (sv_client s i))"

lemma jview_fields [simp]:
  "jview (s\<lparr>sv_unpaired := us\<rparr>) = jview s" "jview (s\<lparr>sv_waits := ws\<rparr>) = jview s" "jview (s\<lparr>sv_timers := ts\<rparr>) = jview s"
  "jview (s\<lparr>sv_unpairedCut := n\<rparr>) = jview s" "jview (s\<lparr>sv_unpairedWarned := m\<rparr>) = jview s" "jview (s\<lparr>sv_transfersCut := cs\<rparr>) = jview s"
  "jview (s\<lparr>sv_addrKick := b\<rparr>) = jview s" "jview (s\<lparr>sv_kick := b\<rparr>) = jview s" "jview (s\<lparr>sv_tokens := toks\<rparr>) = jview s"
  "jview (s\<lparr>sv_db := d\<rparr>) = jview s" "jview (s\<lparr>sv_addrs := as\<rparr>) = jview s"
  by (simp_all add: jview_def)

lemma jview_upd: "(\<And>c. facet (f c) = facet c) \<Longrightarrow> jview (upd i f s) = jview s"
  by (auto simp: jview_def upd_def)

lemma jview_fold: "(\<And>x t. jview (f x t) = jview t) \<Longrightarrow> jview (fold f xs s) = jview s"
  by (induction xs arbitrary: s) auto

lemma jview_event: "\<not> is_journal fr \<Longrightarrow> jview (sendFrame i fr s) = jview s"
  unfolding sendFrame_def by (rule jview_upd) (simp add: facet_def)

lemma jview_events: "\<not> is_journal fr \<Longrightarrow> jview (sendFrames is fr s) = jview s"
  unfolding sendFrames_def by (rule jview_fold) (rule jview_event)

lemma jview_steps [simp]:
  "jview (close i code reason s) = jview s" "jview (closeAfterFlush i reason s) = jview s"
  "jview (markGreeted i v s) = jview s" "jview (pokeAddresses s) = jview s" "jview (letGoLocked i s) = jview s" "jview (armLocked i d s) = jview s"
  "jview (settleUnpaired i s) = jview s" "jview (unwind i s) = jview s" "jview (kickDispatcher s) = jview s"
  "jview (reply_err i cmd code' msg s) = jview s" "jview (reply_ok i cmd dat s) = jview s"
  by (simp_all add: close_def closeAfterFlush_def markGreeted_def pokeAddresses_def letGoLocked_def armLocked_def settleUnpaired_def
      unwind_def kickDispatcher_def reply_err_def reply_ok_def Let_def jview_event jview_upd facet_def)

lemma jview_closeToMakeRoom [simp]: "jview (closeToMakeRoom is s) = jview s"
  unfolding closeToMakeRoom_def by (rule jview_fold) simp

lemma jview_make_room: "jview (fst (make_room is s)) = jview s"
  by (induction "is" s rule: make_room.induct) (auto split: prod.splits)

lemma jview_place: "jview (fst (placeUnpairedLocked i now s)) = jview s"
  using jview_make_room [of "sv_unpaired s" s]
  by (auto simp: placeUnpairedLocked_def Let_def jview_upd facet_def split: prod.splits)

lemma jview_holdUnpaired [simp]: "jview (holdUnpaired i now s) = jview s"
  using jview_place [of i now s] by (auto simp: holdUnpaired_def split: prod.splits)

lemma jview_endWait [simp]: "jview (endWait r now s) = jview s"
proof (cases "sv_waits s (pr_RequestID r)")
  case (Some h)
  then show ?thesis using jview_place [of h now "letGoLocked h s"] by (auto simp: endWait_def Let_def split: prod.splits)
qed (simp add: endWait_def)

lemma jview_takeWait [simp]: "jview (takeWait i r now s) = jview s"
  by (simp add: takeWait_def Let_def jview_upd facet_def split: option.splits)

lemma jview_awaitAnswer [simp]: "jview (awaitAnswer flt i r now snap s) = jview s"
  by (simp add: awaitAnswer_def Let_def split: sum.splits)

lemma jview_outOfTime [simp]: "jview (outOfTime i gen s) = jview s"
  by (simp add: outOfTime_def)

text \<open>Off-journal events carry no payload of the journal.\<close>

lemma jview_tell [simp]:
  "jview (tellIssuer r s) = jview s" "jview (tellNewDevice r ident s) = jview s"
  "jview (announcePairRequested r s) = jview s" "jview (announceDevicesChanged u ex s) = jview s" "jview (announcePaired o' u s) = jview s"
  by (simp_all add: sendTo_def tellIssuer_def tellNewDevice_def announcePairRequested_def announceDevicesChanged_def announcePaired_def
      pairRequestedEvent_def jview_events)

lemma jview_closed [simp]: "jview (announcePairClosed r ident now s) = jview s" "jview (tell_closed key now r s) = jview s"
  by (simp_all add: announcePairClosed_def tell_closed_def Let_def)

lemma jview_resend [simp]: "jview (resendPairRequests flt flt' i now now' snap s) = jview s"
  by (simp add: resendPairRequests_def Let_def pairRequestedEvent_def jview_fold jview_event split: sum.splits)

lemma jview_dropDevice [simp]: "jview (dropDevice key s) = jview s"
  by (simp add: dropDevice_def Let_def jview_fold jview_event jview_upd facet_def)

lemma jview_refreshLabel [simp]: "jview (refreshLabel u label o' s) = jview s"
  by (simp add: refreshLabel_def Let_def jview_fold jview_events jview_upd facet_def)

lemma jview_addresses [simp]: "jview (sendAddresses (snd (refreshAddresses nxt s))) = jview s"
  by (simp add: sendAddresses_def refreshAddresses_def Let_def jview_fold jview_events jview_upd facet_def split: option.splits)

lemma jview_sweep [simp]: "jview (sweepRequests flt now snap s) = jview s"
  by (auto simp: sweepRequests_def jview_fold split: prod.splits sum.splits)

lemma jview_replyUpload [simp]: "jview (replyUpload io i cmd f n s) = jview s"
  by (simp add: replyUpload_def split: prod.splits)

text \<open>No command but the greeting touches what concerns the journal.\<close>

lemma jview_if: "(c \<Longrightarrow> jview a = v) \<Longrightarrow> (\<not> c \<Longrightarrow> jview b = v) \<Longrightarrow> jview (if c then a else b) = v"
  by simp

lemma jview_let: "(\<And>x. jview (f x) = v) \<Longrightarrow> jview (Let y f) = v"
  by simp

lemma jview_option: "jview a = v \<Longrightarrow> (\<And>x. jview (g x) = v) \<Longrightarrow> jview (case o' of None \<Rightarrow> a | Some x \<Rightarrow> g x) = v"
  by (simp split: option.splits)

lemmas jbranches = jview_if jview_let jview_option

lemma jview_snd:
  "(c \<Longrightarrow> jview (snd a) = v) \<Longrightarrow> (\<not> c \<Longrightarrow> jview (snd b) = v) \<Longrightarrow> jview (snd (if c then a else b)) = v"
  "(\<And>x. jview (snd (f x)) = v) \<Longrightarrow> jview (snd (Let z f)) = v"
  "jview (snd n) = v \<Longrightarrow> (\<And>x. jview (snd (g x)) = v) \<Longrightarrow> jview (snd (case o' of None \<Rightarrow> n | Some x \<Rightarrow> g x)) = v"
  "(\<And>x y. jview (snd (h x y)) = v) \<Longrightarrow> jview (snd (case p of (x, y) \<Rightarrow> h x y)) = v"
  "(\<And>e. jview (snd (l e)) = v) \<Longrightarrow> (\<And>x. jview (snd (u x)) = v) \<Longrightarrow> jview (snd (case r of Inl e \<Rightarrow> l e | Inr x \<Rightarrow> u x)) = v"
  by (simp_all split: option.splits prod.splits sum.splits)

lemma jview_commit:
  "jview (snd (create_commit io i cmd s)) = jview s" "jview (snd (rename_commit io i cmd s)) = jview s" "jview (snd (send_commit io i cmd s)) = jview s"
  "jview (snd (write_commit io i cmd s)) = jview s"
proof -
  have d: "jview (snd (declined i cmd c m t)) = jview t" for c m t by (simp add: declined_def)
  show c: "jview (snd (create_commit io i cmd s)) = jview s"
    unfolding create_commit_def by (intro jview_snd) (simp_all add: d)
  show r: "jview (snd (rename_commit io i cmd s)) = jview s"
    unfolding rename_commit_def by (intro jview_snd) (simp_all add: d)
  show m: "jview (snd (send_commit io i cmd s)) = jview s"
    unfolding send_commit_def by (intro jview_snd) (simp_all add: d)
  show "jview (snd (write_commit io i cmd s)) = jview s" by (simp add: write_commit_def c r m)
qed

lemma jview_after: "jview (after_commit i cmd w) = jview (snd w)"
  by (simp add: after_commit_def kick_if_def split: prod.splits option.splits)

lemma jview_messages: "jview (handleMessageSend io i cmd s) = jview s" "jview (handlePair io i cmd s) = jview s"
   apply (simp add: handleMessageSend_def jview_after jview_commit)
  unfolding handlePair_def
  by (intro jbranches; simp add: Let_def split: prod.splits sum.splits option.splits)+

lemma jview_chats:
  "jview (handleChatCreate io i cmd s) = jview s" "jview (handleChatRename io i cmd s) = jview s" "jview (handleChatGet io i cmd s) = jview s"
  "jview (handleChatsList io i cmd s) = jview s" "jview (handleChatNameAvailable io i cmd s) = jview s" "jview (handleMessagesList io i cmd s) = jview s"
  "jview (handleChatFiles io i cmd s) = jview s"
  unfolding handleChatCreate_def handleChatRename_def handleChatGet_def handleChatsList_def handleChatNameAvailable_def handleMessagesList_def
    handleChatFiles_def
  by ((intro jbranches)?; simp add: Let_def jview_after jview_commit split: prod.splits sum.splits option.splits)+

lemma jview_devices:
  "jview (handlePairCancel io i cmd s) = jview s" "jview (handleDeviceApprove io i cmd s) = jview s" "jview (handleDeviceList io i cmd s) = jview s"
  "jview (handleDeviceRevoke io i cmd s) = jview s" "jview (handleDeviceInvite io i cmd s) = jview s" "jview (handleIdentitySetLabel io i cmd s) = jview s"
  unfolding handlePairCancel_def handleDeviceApprove_def handleDeviceList_def handleDeviceRevoke_def handleDeviceInvite_def handleIdentitySetLabel_def
  by ((intro jbranches)?; simp add: Let_def jview_fold split: prod.splits sum.splits option.splits)+

lemma jview_files:
  "jview (handleFileUploadBegin io i cmd s) = jview s" "jview (handleFileDownloadBegin io i cmd s) = jview s"
  unfolding handleFileUploadBegin_def handleFileDownloadBegin_def continueUpload_def
  by (intro jbranches; simp add: Let_def split: prod.splits sum.splits option.splits)+

lemma jview_dispatch:
  "cmd_Cmd cmd \<noteq> CmdSessionHello \<or> cl_revoked (sv_client s i) \<Longrightarrow> jview (dispatch io i cmd s) = jview s"
  by (auto simp: dispatch_def Let_def jview_messages jview_chats jview_devices jview_files)

section \<open>A log in ascending order\<close>

locale ordered_log =
  fixes ok :: "'s \<Rightarrow> bool" and entries :: "'s \<Rightarrow> 'e list" and seq :: "'e \<Rightarrow> int"
  assumes ascending: "ok s \<Longrightarrow> sorted_wrt (<) (map seq (entries s))"
    and positive: "ok s \<Longrightarrow> e \<in> set (entries s) \<Longrightarrow> 0 < seq e"
begin

lemma after_entry:
  assumes "ok s" "k < length (entries s)"
  shows "filter (\<lambda>e. seq (entries s ! k) < seq e) (entries s) = drop (Suc k) (entries s)"
proof -
  let ?E = "entries s" and ?P = "\<lambda>e. seq (entries s ! k) < seq e"
  have sorted: "seq (?E ! i) < seq (?E ! j)" if "i < j" "j < length ?E" for i j
    using ascending [OF assms(1)] that by (simp add: sorted_wrt_iff_nth_less)
  have "filter ?P (take (Suc k) ?E) = []"
  proof (subst filter_empty_conv, intro ballI)
    fix e assume "e \<in> set (take (Suc k) ?E)"
    then obtain j where "j < Suc k" "e = ?E ! j" by (auto simp: in_set_conv_nth)
    then show "\<not> ?P e" using sorted [of j k] assms(2) by (cases "j = k") auto
  qed
  moreover have "filter ?P (drop (Suc k) ?E) = drop (Suc k) ?E"
  proof (subst filter_id_conv, intro ballI)
    fix e assume "e \<in> set (drop (Suc k) ?E)"
    then obtain j where "j < length ?E - Suc k" "e = ?E ! (Suc k + j)" by (auto simp: in_set_conv_nth)
    then show "?P e" using sorted [of k "Suc k + j"] by simp
  qed
  ultimately show ?thesis
    using filter_append [of ?P "take (Suc k) ?E" "drop (Suc k) ?E"] by simp
qed

text \<open>The cursor after \<open>k\<close> entries: what lies beyond it is the rest of the log.\<close>

lemma after_cursor:
  assumes "ok s" "k \<le> length (entries s)" "n = (if k = 0 then 0 else seq (entries s ! (k - 1)))"
  shows "filter (\<lambda>e. n < seq e) (entries s) = drop k (entries s)"
  using assms after_entry [OF assms(1), of "k - 1"] positive [OF assms(1)] by (cases k) auto

end

interpretation journal: ordered_log "journal_ok sf" events e_seq for sf
  by unfold_locales (auto simp: journal_ok_def log_ok_def)

section \<open>The invariant of the system\<close>

definition env_of :: "event_row \<Rightarrow> frame Envelope" where
  "env_of e = the (eventEnvelope (stored e))"

definition log_of :: "system \<Rightarrow> event_row list" where
  "log_of y = events (sv_db (sy_sv y))"

definition hub_of :: "system \<Rightarrow> frame Hub" where
  "hub_of y = sv_hub (sy_sv y)"

text \<open>How many events of the log were broadcast, those from before the start counted as such.\<close>

definition dispatched :: "system \<Rightarrow> nat" where
  "dispatched y = sy_start y + length (h_log (hub_of y))"

text \<open>Some handler has committed an event and has not woken the dispatcher yet.\<close>

definition owing :: "system \<Rightarrow> bool" where
  "owing y \<longleftrightarrow> (\<exists>i. owes (sy_pending y i))"

lemma owing_sv [simp]: "owing (y\<lparr>sy_sv := t\<rparr>) = owing y"
  by (simp add: owing_def)

lemma owingI: "owes (sy_pending y i) \<Longrightarrow> owing y"
  unfolding owing_def by blast

definition log_inv :: "system \<Rightarrow> bool" where
  "log_inv y \<longleftrightarrow> dispatched y \<le> length (log_of y)
     \<and> prefix (h_log (hub_of y)) (map env_of (drop (sy_start y) (log_of y)))
     \<and> sy_last y = (if dispatched y = 0 then 0 else e_seq (log_of y ! (dispatched y - 1)))
     \<and> prefix (sy_batch y) (map stored (drop (dispatched y) (log_of y)))
     \<and> (sy_batch y \<noteq> [] \<longrightarrow> sy_reading y)
     \<and> (sy_reading y \<or> sv_kick (sy_sv y) \<or> sy_failed y \<or> owing y \<or> dispatched y = length (log_of y))"

definition since_part :: "int option \<Rightarrow> event_row list \<Rightarrow> event_row list" where
  "since_part since es = (case since of None \<Rightarrow> [] | Some n \<Rightarrow> filter (\<lambda>e. n < e_seq e) es)"

text \<open>
  Before its replay a connection has no journal frame; after it, and while it forwards, its journal frames are
  the replayed events and then what it took from its subscription, which began before the replay read.
\<close>

definition client_inv :: "system \<Rightarrow> nat \<Rightarrow> bool" where
  "client_inv y i \<longleftrightarrow> (let s = sy_sv y; c = sv_client s i in
     case sy_replayed y i of
       None \<Rightarrow> journal_frames i s = [] \<and> \<not> cl_forward c \<and> (\<forall>sb. h_sub (hub_of y) i = Some sb \<longrightarrow> sb_taken sb = [])
     | Some (since, n) \<Rightarrow> cl_helloDone c \<and> sy_greeting y i = None \<and> (cl_forward c \<longrightarrow>
         (\<exists>sb. h_sub (hub_of y) i = Some sb \<and> n \<le> length (log_of y) \<and> sy_start y + sb_from sb \<le> n
           \<and> journal_frames i s = map (\<lambda>e. FrameFor (env_of e) (id_UserID (cl_identity c))) (since_part since (take n (log_of y)))
               @ map (\<lambda>env. FrameFor env (id_UserID (cl_identity c))) (sb_taken sb))))"

definition conn_inv :: "system \<Rightarrow> bool" where
  "conn_inv y \<longleftrightarrow> set (sv_conns (sy_sv y)) \<subseteq> sy_used y
     \<and> (\<forall>i. i \<notin> sy_used y \<longrightarrow> h_sub (hub_of y) i = None \<and> sy_greeting y i = None \<and> sy_replayed y i = None)
     \<and> (\<forall>i. sy_greeting y i \<noteq> None \<longrightarrow> h_sub (hub_of y) i \<noteq> None)
     \<and> (\<forall>i. i \<in> set (h_subs (hub_of y)) \<longrightarrow> cl_helloDone (sv_client (sy_sv y) i) \<or> sy_greeting y i \<noteq> None)
     \<and> (\<forall>i io since. sy_greeting y i = Some (Replied io since) \<longrightarrow> cl_helloDone (sv_client (sy_sv y) i))
     \<and> (\<forall>i. sy_pending y i \<noteq> None \<longrightarrow> i \<in> set (sv_conns (sy_sv y)))"

definition sys_inv :: "(rune \<Rightarrow> rune) \<Rightarrow> system \<Rightarrow> bool" where
  "sys_inv sf y \<longleftrightarrow> reachable sf (sv_db (sy_sv y)) \<and> hub_ok (hub_of y) \<and> \<not> h_done (hub_of y) \<and> log_inv y
     \<and> (\<forall>i. client_inv y i) \<and> conn_inv y"

lemma journal_of: "reachable sf d \<Longrightarrow> journal_ok sf d"
  using reachable_store_ok by (simp add: store_ok_def)

lemma envelope: "journal_ok sf d \<Longrightarrow> e \<in> set (events d) \<Longrightarrow> eventEnvelope (stored e) = Some (env_of e)"
proof -
  assume "journal_ok sf d" "e \<in> set (events d)"
  then have "event_ok e" by (simp add: journal_ok_def replay_ok_def)
  then have "ev_Payload (stored e) \<noteq> PEmpty" by (auto simp: event_ok_def stored_def)
  then show ?thesis using eventEnvelope_total unfolding env_of_def by fastforce
qed

text \<open>A step that leaves the journal's concerns alone and grows the log only with a wake-up keeps the invariant.\<close>

lemma jview_eqs:
  assumes "jview t = jview s"
  shows "sv_hub t = sv_hub s" "sv_conns t = sv_conns s" "journal_frames i t = journal_frames i s"
    "cl_forward (sv_client t i) = cl_forward (sv_client s i)" "cl_helloDone (sv_client t i) = cl_helloDone (sv_client s i)"
    "id_UserID (cl_identity (sv_client t i)) = id_UserID (cl_identity (sv_client s i))" "cl_sub (sv_client t i) = cl_sub (sv_client s i)"
  using assms fun_cong [of "\<lambda>i. facet (sv_client t i)" "\<lambda>i. facet (sv_client s i)" i]
  by (auto simp: jview_def facet_def journal_frames_def)

lemma log_inv_grow:
  assumes "log_inv y" "log_of y' = log_of y @ new" "hub_of y' = hub_of y" "sy_start y' = sy_start y" "sy_last y' = sy_last y"
    "sy_batch y' = sy_batch y" "sy_reading y' = sy_reading y" "sy_failed y' = sy_failed y"
    "new = [] \<or> sv_kick (sy_sv y') \<or> owing y'" "sv_kick (sy_sv y) \<or> owing y \<longrightarrow> sv_kick (sy_sv y') \<or> owing y'"
  shows "log_inv y'"
proof -
  have d: "dispatched y' = dispatched y" using assms by (simp add: dispatched_def)
  have k: "dispatched y \<le> length (log_of y)" "sy_start y + length (h_log (hub_of y)) \<le> length (log_of y)"
    using assms(1) by (simp_all add: log_inv_def dispatched_def)
  show ?thesis using assms(1) k unfolding log_inv_def d assms(2-8) using assms(9,10)
    by (auto simp: nth_append intro: prefix_prefix)
qed

lemma jview_facet: "jview t = jview s \<Longrightarrow> facet (sv_client t i) = facet (sv_client s i)"
  by (auto simp: jview_def dest: fun_cong)

lemma facet_eqs:
  assumes "facet (sv_client t i) = facet (sv_client s i)"
  shows "journal_frames i t = journal_frames i s" "cl_forward (sv_client t i) = cl_forward (sv_client s i)"
    "cl_helloDone (sv_client t i) = cl_helloDone (sv_client s i)" "cl_sub (sv_client t i) = cl_sub (sv_client s i)"
    "id_UserID (cl_identity (sv_client t i)) = id_UserID (cl_identity (sv_client s i))"
  using assms by (auto simp: facet_def journal_frames_def)

lemma client_inv_frame:
  assumes "facet (sv_client (sy_sv y') i) = facet (sv_client (sy_sv y) i)" "client_inv y i" "log_of y' = log_of y @ new"
    "h_sub (hub_of y') i = h_sub (hub_of y) i" "sy_start y' = sy_start y" "sy_greeting y' i = sy_greeting y i" "sy_replayed y' i = sy_replayed y i"
  shows "client_inv y' i"
  using assms(2) unfolding client_inv_def Let_def facet_eqs [OF assms(1)] assms(3-) by (auto split: option.splits)

lemma sys_inv_quiet:
  assumes inv: "sys_inv sf y" and d: "reachable sf (sv_db (sy_sv y'))" and j: "jview (sy_sv y') = jview (sy_sv y)"
    and g: "log_of y' = log_of y @ new" "new = [] \<or> sv_kick (sy_sv y') \<or> owing y'" "sv_kick (sy_sv y) \<or> owing y \<longrightarrow> sv_kick (sy_sv y') \<or> owing y'"
    and p: "\<And>i. sy_pending y' i \<noteq> None \<Longrightarrow> sy_pending y i \<noteq> None \<or> i \<in> set (sv_conns (sy_sv y))"
    and same: "sy_start y' = sy_start y" "sy_last y' = sy_last y" "sy_batch y' = sy_batch y" "sy_reading y' = sy_reading y"
      "sy_failed y' = sy_failed y" "sy_greeting y' = sy_greeting y" "sy_replayed y' = sy_replayed y" "sy_used y' = sy_used y"
  shows "sys_inv sf y'"
proof -
  have h: "hub_of y' = hub_of y" using jview_eqs [OF j] by (simp add: hub_of_def)
  have "log_inv y'" using inv g same h by (intro log_inv_grow [of y y' new]) (auto simp: sys_inv_def)
  moreover have "client_inv y' i" for i using inv g j same by (intro client_inv_frame [OF jview_facet [OF j], of i new]) (auto simp: sys_inv_def h)
  moreover have "conn_inv y'"
  proof -
    have "i \<in> set (sv_conns (sy_sv y'))" if "sy_pending y' i \<noteq> None" for i
      using p [OF that] inv jview_eqs(2) [OF j] by (auto simp: sys_inv_def conn_inv_def)
    then show ?thesis using inv same h jview_eqs [OF j] unfolding sys_inv_def conn_inv_def by simp
  qed
  ultimately show ?thesis using inv d h by (simp add: sys_inv_def)
qed

section \<open>The steps\<close>

lemma step_events:
  assumes "reachable sf d" "(store_step sf)\<^sup>=\<^sup>= d d'"
  shows "reachable sf d'" "\<exists>new. events d' = events d @ new"
  using assms step_store_ok [OF _ reachable_store_ok [OF assms(1)]] reachable_step by (auto simp: grows_def)

lemma quiet_step:
  assumes "sys_inv sf y" "moves sf (view (sy_sv y)) (view (f (sy_sv y)))" "jview (f (sy_sv y)) = jview (sy_sv y)"
  shows "sys_inv sf (on_server f y)"
proof -
  have r: "reachable sf (sv_db (sy_sv y))" using assms(1) by (simp add: sys_inv_def)
  from assms(2) have m: "(store_step sf)\<^sup>=\<^sup>= (sv_db (sy_sv y)) (sv_db (f (sy_sv y)))"
    "events (sv_db (f (sy_sv y))) = events (sv_db (sy_sv y)) \<or> sv_kick (f (sy_sv y))" "sv_kick (sy_sv y) \<longrightarrow> sv_kick (f (sy_sv y))"
    by (simp_all add: moves_def)
  obtain new where new: "events (sv_db (f (sy_sv y))) = events (sv_db (sy_sv y)) @ new" using step_events [OF r m(1)] by blast
  show ?thesis
    by (rule sys_inv_quiet [OF assms(1), where new = new])
      (use new m(2,3) assms(3) step_events(1) [OF r m(1)] in \<open>auto simp: on_server_def log_of_def owing_def\<close>)
qed

lemma moves_off_log: "view t = (fst (view s), d, sv_kick s) \<Longrightarrow> off_log sf (sv_db s) d \<Longrightarrow> moves sf (view s) (view t)"
  by (auto simp: moves_def off_log_def)

lemma view_moves: "view t = view s \<Longrightarrow> moves sf (view s) (view t)"
  by simp

lemma ExpirePairRequests_off_log: "ExpirePairRequests flt now snap d = (r, d') \<Longrightarrow> off_log sf d d'"
  by (rule off_logI [OF store_step.ExpirePairRequests ExpirePairRequests_keeps])

lemma sweep_moves: "moves sf (view s) (view (sweepRequests flt now snap s))"
proof (cases "ExpirePairRequests flt (Unix now) snap (sv_db s)")
  case (Pair r d)
  show ?thesis
    by (rule moves_off_log [OF _ ExpirePairRequests_off_log [OF Pair]]) (cases r; simp add: sweepRequests_def Pair view_fold)
qed

lemma view_outOfTime: "view (outOfTime i gen s) = view s"
  by (simp add: outOfTime_def)

lemma view_addresses: "view (sendAddresses (snd (refreshAddresses nxt s))) = view s"
proof -
  have "view (s\<lparr>sv_addrs := a\<rparr>) = view s" for s :: server and a by (simp add: view_def replies_def)
  then show ?thesis by (simp add: sendAddresses_def refreshAddresses_def Let_def view_fold view_events view_upd split: option.splits)
qed

lemma beside_off_log:
  assumes "beside d d'"
  shows "off_log sf d d'"
  using assms
proof cases
  case (2 flt ids)
  then show ?thesis by (auto simp: off_log_def DeleteFiles_events intro: store_step.DeleteFiles)
next
  case (1 flt fileID)
  then show ?thesis using store_step.MarkUploaded [of sf d flt fileID] by (simp add: off_log_def) (simp add: MarkUploaded_def Let_def)
next
  case (5 flt kind v)
  then show ?thesis using machine_keeps_journal(3) by (auto simp: off_log_def same_journal_def intro: store_step.SetAddress)
qed (auto intro!: off_logI [OF _ _ prod.collapse [symmetric]] intro: store_step.intros pairing_keeps_journal)

lemma Open_inv:
  assumes inv: "sys_inv sf y" and i: "i \<notin> sy_used y"
  shows "sys_inv sf ((on_server (handleWS io i key host) y)\<lparr>sy_used := insert i (sy_used y)\<rparr>)" (is "sys_inv sf ?y")
proof -
  let ?s = "sy_sv y"
  define s1 where "s1 = track i (upd i (\<lambda>_. newClient key host) ?s)"
  have jv: "jview (sy_sv ?y) = jview s1" "view (sy_sv ?y) = view s1"
    by (simp_all add: on_server_def handleWS_def Let_def s1_def jview_event view_event)
  have db: "sv_db (sy_sv ?y) = sv_db ?s" "sv_kick (sy_sv ?y) = sv_kick ?s"
    using arg_cong [OF jv(2), of snd] by (simp_all add: s1_def track_def upd_def)
  have hub: "hub_of ?y = hub_of y" using jview_eqs [OF jv(1)] by (simp add: hub_of_def s1_def track_def upd_def)
  have eq: "log_of ?y = log_of y" unfolding log_of_def db ..
  have other: "sy_start ?y = sy_start y" "sy_last ?y = sy_last y" "sy_batch ?y = sy_batch y" "sy_reading ?y = sy_reading y"
    "sy_failed ?y = sy_failed y" "sy_greeting ?y = sy_greeting y" "sy_replayed ?y = sy_replayed y" "sy_used ?y = insert i (sy_used y)"
    "sy_pending ?y = sy_pending y" "owing ?y = owing y"
    by (simp_all add: on_server_def owing_def)
  have fresh: "sy_replayed y i = None" "h_sub (hub_of y) i = None" "sy_greeting y i = None"
    using inv i by (simp_all add: sys_inv_def conn_inv_def)
  have "i \<notin> set (h_subs (hub_of y))" using inv fresh by (auto simp: sys_inv_def hub_ok_def)
  then have "conn_inv ?y"
    using inv fresh(3) unfolding sys_inv_def conn_inv_def other hub jview_eqs [OF jv(1)] by (auto simp: s1_def track_def upd_def)
  moreover have "client_inv ?y j" for j
  proof (cases "j = i")
    case True
    then show ?thesis using fresh unfolding client_inv_def Let_def other hub eq jview_eqs [OF jv(1)]
      by (simp add: s1_def track_def upd_def newClient_def journal_frames_def)
  next
    case False
    then have "facet (sv_client (sy_sv ?y) j) = facet (sv_client ?s j)"
      using jview_facet [OF jv(1), of j] by (simp add: s1_def track_def upd_def)
    then show ?thesis by (rule client_inv_frame [where y = y and new = "[]"]) (use inv hub eq other in \<open>simp_all add: sys_inv_def\<close>)
  qed
  moreover have "log_inv ?y"
    using inv unfolding sys_inv_def log_inv_def dispatched_def other hub eq db by simp
  ultimately show ?thesis using inv unfolding sys_inv_def hub db by blast
qed

text \<open>The dispatcher.\<close>

lemma frames_inv:
  assumes "sys_inv sf y" "sv_db (sy_sv y') = sv_db (sy_sv y)" "hub_ok (hub_of y')" "\<not> h_done (hub_of y')" "log_inv y'"
    "\<And>i. client_inv y' i" "conn_inv y'"
  shows "sys_inv sf y'"
  using assms by (simp add: sys_inv_def)

lemma dispatcher_only:
  assumes inv: "sys_inv sf y" and same: "sv_db (sy_sv y') = sv_db (sy_sv y)" "jview (sy_sv y') = jview (sy_sv y)" "sy_start y' = sy_start y"
      "sy_greeting y' = sy_greeting y" "sy_replayed y' = sy_replayed y" "sy_used y' = sy_used y" "sy_pending y' = sy_pending y"
    and log: "log_inv y'"
  shows "sys_inv sf y'"
proof (rule frames_inv [OF inv same(1) _ _ log])
  have h: "hub_of y' = hub_of y" using jview_eqs [OF same(2)] by (simp add: hub_of_def)
  then show "hub_ok (hub_of y')" "\<not> h_done (hub_of y')" using inv by (simp_all add: sys_inv_def)
  show "client_inv y' i" for i
    using inv h same by (intro client_inv_frame [OF jview_facet [OF same(2)], of i "[]"]) (auto simp: sys_inv_def log_of_def)
  show "conn_inv y'" using inv same h jview_eqs [OF same(2)] unfolding sys_inv_def conn_inv_def by simp
qed

lemma Wake_inv:
  assumes "sys_inv sf y"
  shows "sys_inv sf (wake y)"
proof (rule dispatcher_only [OF assms])
  have "log_inv y" using assms by (simp add: sys_inv_def)
  then show "log_inv (wake y)" by (auto simp: wake_def log_inv_def dispatched_def hub_of_def log_of_def owing_def)
qed (simp_all add: wake_def)

lemma undispatched:
  assumes "journal_ok sf (sv_db (sy_sv y))" "log_inv y"
  shows "filter (\<lambda>e. sy_last y < e_seq e) (log_of y) = drop (dispatched y) (log_of y)"
  unfolding log_of_def by (rule journal.after_cursor [OF assms(1)]) (use assms(2) in \<open>simp_all add: log_inv_def log_of_def\<close>)

lemma Read_inv:
  assumes inv: "sys_inv sf y"
  shows "sys_inv sf (read_log flt y)"
proof (rule dispatcher_only [OF inv])
  have j: "journal_ok sf (sv_db (sy_sv y))" and log: "log_inv y" using inv journal_of by (auto simp: sys_inv_def)
  have evs: "EventsSince flt (sy_last y) (sv_db (sy_sv y)) = Inr (map stored (drop (dispatched y) (log_of y)))" if "\<not> flt ''query events''"
    using EventsSince_eq [of "sv_db (sy_sv y)" flt "sy_last y"] undispatched [OF j log] j that by (simp add: journal_ok_def log_of_def)
  have fail: "\<exists>e. EventsSince flt (sy_last y) (sv_db (sy_sv y)) = Inl e" if "flt ''query events''"
    using that by (simp add: EventsSince_def query_def)
  show "log_inv (read_log flt y)"
  proof (cases "\<not> sy_reading y \<or> sy_batch y \<noteq> []")
    case True
    then show ?thesis using log by (simp add: read_log_def)
  next
    case busy: False
    show ?thesis
    proof (cases "flt ''query events''")
      case True
      then show ?thesis using log busy fail by (auto simp: read_log_def log_inv_def dispatched_def hub_of_def log_of_def owing_def)
    next
      case False
      then show ?thesis using log busy evs by (auto simp: read_log_def log_inv_def dispatched_def hub_of_def log_of_def owing_def)
    qed
  qed
qed (auto simp: read_log_def split: sum.splits)

lemma view_slow: "view (fold (\<lambda>i. close i StatusPolicyViolation r) is s) = view s" "jview (fold (\<lambda>i. close i StatusPolicyViolation r) is s) = jview s"
  by (simp_all add: view_fold jview_fold)

text \<open>A broadcast neither registers anybody nor touches what a subscriber took.\<close>

definition only_offers :: "'f Hub \<Rightarrow> 'f Hub \<Rightarrow> bool" where
  "only_offers h h' \<longleftrightarrow> set (h_subs h') \<subseteq> set (h_subs h)
     \<and> (\<forall>i. map_option (\<lambda>sb. (sb_taken sb, sb_from sb)) (h_sub h' i) = map_option (\<lambda>sb. (sb_taken sb, sb_from sb)) (h_sub h i))"

lemma only_offers_trans: "only_offers h1 h2 \<Longrightarrow> only_offers h2 h3 \<Longrightarrow> only_offers h1 h3"
  by (auto simp: only_offers_def)

lemma only_offers_None: "only_offers h h' \<Longrightarrow> (h_sub h' i = None) = (h_sub h i = None)"
  unfolding only_offers_def by (elim conjE allE [of _ i] arg_cong [of _ _ "\<lambda>x. x = None", elim_format]) simp

lemma offer_only: "offer env j h = Some h' \<Longrightarrow> only_offers h h'"
  by (auto simp: offer_def close_ch_def only_offers_def split: option.splits if_splits)

lemma fan_out_only: "fan_out env is h = Some h' \<Longrightarrow> only_offers h h'"
proof (induction env "is" h arbitrary: h' rule: fan_out.induct)
  case (2 env i "is" h)
  then obtain h1 where "offer env i h = Some h1" "fan_out env is h1 = Some h'" by (auto simp: Option.bind_eq_Some_conv)
  then show ?case using 2(1) [of h1 h'] offer_only only_offers_trans by blast
qed (simp add: only_offers_def)

lemma prefix_drop: "prefix xs ys \<Longrightarrow> ys = xs @ drop (length xs) ys"
  by (auto simp: prefix_def)

lemma Broadcast_only: "Broadcast env h = Some h' \<Longrightarrow> only_offers h h'"
  by (auto simp: Broadcast_def only_offers_def split: if_splits dest!: fan_out_only)

lemma Broadcast_log:
  assumes "Broadcast env h = Some h'" "\<not> h_done h" "hub_ok h"
  shows "hub_ok h'" "\<not> h_done h'" "h_log h' = h_log h @ [env]"
  using broadcast_ok [OF assms(3), of env] assms(1,2) act_log [of "Cast env" h h'] by auto

lemma only_offers_client:
  assumes "client_inv y i" "only_offers (hub_of y) (hub_of y')" "facet (sv_client (sy_sv y') i) = facet (sv_client (sy_sv y) i)"
    "log_of y' = log_of y" "sy_start y' = sy_start y" "sy_greeting y' i = sy_greeting y i" "sy_replayed y' i = sy_replayed y i"
  shows "client_inv y' i"
proof -
  have "map_option (\<lambda>sb. (sb_taken sb, sb_from sb)) (h_sub (hub_of y') i) = map_option (\<lambda>sb. (sb_taken sb, sb_from sb)) (h_sub (hub_of y) i)"
    using assms(2) by (simp add: only_offers_def)
  then show ?thesis
    using assms(1) unfolding client_inv_def Let_def facet_eqs [OF assms(3)] assms(4-)
    by (cases "h_sub (hub_of y) i"; cases "h_sub (hub_of y') i") (auto split: option.splits)
qed

lemma Cast_inv:
  assumes inv: "sys_inv sf y" and c: "cast_next y = Some y'"
  shows "sys_inv sf y'"
proof (cases "sy_batch y")
  case Nil
  then show ?thesis using inv c by (simp add: cast_next_def)
next
  case (Cons ev evs)
  have j: "journal_ok sf (sv_db (sy_sv y))" and log: "log_inv y" and hub: "hub_ok (hub_of y)" "\<not> h_done (hub_of y)"
    using inv journal_of by (auto simp: sys_inv_def)
  let ?k = "dispatched y"
  have b: "prefix (sy_batch y) (map stored (drop ?k (log_of y)))" using log by (simp add: log_inv_def)
  have k: "?k < length (log_of y)" using b Cons by (cases "?k < length (log_of y)") auto
  then have d: "drop ?k (log_of y) = log_of y ! ?k # drop (Suc ?k) (log_of y)" by (simp add: Cons_nth_drop_Suc)
  have ev: "ev = stored (log_of y ! ?k)" and evs: "prefix evs (map stored (drop (Suc ?k) (log_of y)))"
    using b unfolding Cons d by simp_all
  have env: "eventEnvelope ev = Some (env_of (log_of y ! ?k))"
    unfolding ev by (rule envelope [OF j]) (use k in \<open>simp add: log_of_def\<close>)
  then obtain h where h: "Broadcast (env_of (log_of y ! ?k)) (hub_of y) = Some h"
    and y': "y' = y\<lparr>sy_last := ev_Seq ev, sy_batch := evs, sy_sv := sy_sv y'\<rparr>"
      "sy_sv y' = fold (\<lambda>i. close i StatusPolicyViolation ''slow consumer'')
         (filter (\<lambda>i. i \<notin> set (h_subs h)) (h_subs (hub_of y))) ((sy_sv y)\<lparr>sv_hub := h\<rparr>)"
    using c by (auto simp: cast_next_def Cons Let_def hub_of_def)
  have jv: "jview (sy_sv y') = jview ((sy_sv y)\<lparr>sv_hub := h\<rparr>)" and v: "view (sy_sv y') = view (sy_sv y)"
    unfolding y'(2) by (simp_all add: view_slow)
  have h': "hub_of y' = h" using jview_eqs(1) [OF jv] by (simp add: hub_of_def)
  have f: "facet (sv_client (sy_sv y') i) = facet (sv_client (sy_sv y) i)" for i using jview_facet [OF jv] by simp
  have db: "sv_db (sy_sv y') = sv_db (sy_sv y)" "sv_kick (sy_sv y') = sv_kick (sy_sv y)" using v by (simp_all add: view_def)
  have rest: "sy_last y' = ev_Seq ev" "sy_batch y' = evs" "sy_reading y' = sy_reading y" "sy_failed y' = sy_failed y" "sy_start y' = sy_start y"
    "sy_greeting y' = sy_greeting y" "sy_replayed y' = sy_replayed y" "sy_used y' = sy_used y" "sy_pending y' = sy_pending y" by (subst y'(1), simp)+
  have lg: "log_of y' = log_of y" by (simp add: log_of_def db)
  have dk: "dispatched y' = Suc ?k" using Broadcast_log(3) [OF h hub(2,1)] by (simp add: dispatched_def h' rest)
  have only: "only_offers (hub_of y) (hub_of y')" using Broadcast_only [OF h] by (simp add: h')
  show ?thesis
  proof (rule frames_inv [OF inv db(1)])
    show "hub_ok (hub_of y')" "\<not> h_done (hub_of y')" using Broadcast_log [OF h hub(2,1)] by (simp_all add: h')
    have "prefix (h_log h) (map env_of (drop (sy_start y) (log_of y)))"
    proof -
      have "map env_of (drop (sy_start y) (log_of y)) = h_log (hub_of y) @ map env_of (drop ?k (log_of y))"
        using log prefix_drop [of "h_log (hub_of y)" "map env_of (drop (sy_start y) (log_of y))"]
        by (auto simp: log_inv_def dispatched_def drop_map add.commute)
      then show ?thesis unfolding Broadcast_log(3) [OF h hub(2,1)] d by simp
    qed
    then show "log_inv y'"
      using log k evs Cons unfolding log_inv_def dk lg db rest h' by (simp add: ev stored_def)
    show "client_inv y' i" for i
      using inv by (intro only_offers_client [OF _ only f lg]) (auto simp: rest sys_inv_def)
    have "(h_sub (hub_of y') i = None) = (h_sub (hub_of y) i = None)" for i
      using only_offers_None [OF only] .
    moreover have "set (h_subs (hub_of y')) \<subseteq> set (h_subs (hub_of y))" using only by (simp add: only_offers_def)
    moreover have "sv_conns (sy_sv y') = sv_conns (sy_sv y)" using jview_eqs(2) [OF jv] by simp
    ultimately show "conn_inv y'"
      using inv facet_eqs(3) [OF f] unfolding sys_inv_def conn_inv_def rest by (simp add: subset_iff)
  qed
qed

text \<open>A step of one connection: it touches its own subscription and queue and nobody else's.\<close>

definition own_step :: "nat \<Rightarrow> system \<Rightarrow> system \<Rightarrow> bool" where
  "own_step i y y' \<longleftrightarrow> log_of y' = log_of y \<and> sv_kick (sy_sv y') = sv_kick (sy_sv y) \<and> h_log (hub_of y') = h_log (hub_of y)
     \<and> hub_ok (hub_of y') \<and> \<not> h_done (hub_of y') \<and> set (sv_conns (sy_sv y')) \<subseteq> set (sv_conns (sy_sv y))
     \<and> (\<forall>j. j \<noteq> i \<longrightarrow> h_sub (hub_of y') j = h_sub (hub_of y) j \<and> (j \<in> set (h_subs (hub_of y')) \<longrightarrow> j \<in> set (h_subs (hub_of y)))
         \<and> facet (sv_client (sy_sv y') j) = facet (sv_client (sy_sv y) j) \<and> sy_greeting y' j = sy_greeting y j \<and> sy_replayed y' j = sy_replayed y j)
     \<and> sy_start y' = sy_start y \<and> sy_last y' = sy_last y \<and> sy_batch y' = sy_batch y \<and> sy_reading y' = sy_reading y \<and> sy_failed y' = sy_failed y
     \<and> sy_used y' = sy_used y \<and> sy_pending y' = sy_pending y
     \<and> (\<forall>j. j \<in> set (sv_conns (sy_sv y)) \<longrightarrow> j \<in> set (sv_conns (sy_sv y')) \<or> sy_pending y j = None)"

lemma own_step_inv:
  assumes inv: "sys_inv sf y" and step: "own_step i y y'" and i: "i \<in> sy_used y" and d: "reachable sf (sv_db (sy_sv y'))"
    and c: "client_inv y' i" "sy_greeting y' i \<noteq> None \<longrightarrow> h_sub (hub_of y') i \<noteq> None"
      "i \<in> set (h_subs (hub_of y')) \<longrightarrow> cl_helloDone (sv_client (sy_sv y') i) \<or> sy_greeting y' i \<noteq> None"
      "\<forall>io since. sy_greeting y' i = Some (Replied io since) \<longrightarrow> cl_helloDone (sv_client (sy_sv y') i)"
  shows "sys_inv sf y'"
proof -
  have s: "log_of y' = log_of y" "sv_kick (sy_sv y') = sv_kick (sy_sv y)" "h_log (hub_of y') = h_log (hub_of y)"
    "hub_ok (hub_of y')" "\<not> h_done (hub_of y')" "set (sv_conns (sy_sv y')) \<subseteq> set (sv_conns (sy_sv y))"
    "sy_start y' = sy_start y" "sy_last y' = sy_last y" "sy_batch y' = sy_batch y" "sy_reading y' = sy_reading y" "sy_failed y' = sy_failed y"
    "sy_used y' = sy_used y" "sy_pending y' = sy_pending y" "owing y' = owing y"
    and left: "\<And>j. j \<in> set (sv_conns (sy_sv y)) \<Longrightarrow> j \<in> set (sv_conns (sy_sv y')) \<or> sy_pending y j = None"
    using step by (simp_all add: own_step_def owing_def)
  have j: "h_sub (hub_of y') j = h_sub (hub_of y) j" "j \<in> set (h_subs (hub_of y')) \<Longrightarrow> j \<in> set (h_subs (hub_of y))"
    "facet (sv_client (sy_sv y') j) = facet (sv_client (sy_sv y) j)" "sy_greeting y' j = sy_greeting y j" "sy_replayed y' j = sy_replayed y j"
    if "j \<noteq> i" for j using step that by (simp_all add: own_step_def)
  have "log_inv y'" using inv unfolding sys_inv_def log_inv_def dispatched_def s by blast
  moreover have "client_inv y' j" for j
    using inv c(1) s j by (cases "j = i") (auto simp: sys_inv_def intro: client_inv_frame [of y' j y "[]"])
  moreover have "conn_inv y'"
  proof -
    have old: "conn_inv y" using inv by (simp add: sys_inv_def)
    have "h_sub (hub_of y') k = None \<and> sy_greeting y' k = None \<and> sy_replayed y' k = None" if "k \<notin> sy_used y" for k
      using old that i j [of k] unfolding conn_inv_def by (cases "k = i") auto
    moreover have "h_sub (hub_of y') k \<noteq> None" if "sy_greeting y' k \<noteq> None" for k
      using old that c(2) j [of k] unfolding conn_inv_def by (cases "k = i") auto
    moreover have "cl_helloDone (sv_client (sy_sv y') k) \<or> sy_greeting y' k \<noteq> None" if "k \<in> set (h_subs (hub_of y'))" for k
    proof (cases "k = i")
      case False
      then show ?thesis using old that j [OF False] facet_eqs(3) [OF j(3) [OF False]] unfolding conn_inv_def by metis
    qed (use that c(3) in simp)
    moreover have "cl_helloDone (sv_client (sy_sv y') k)" if "sy_greeting y' k = Some (Replied io since)" for k io since
    proof (cases "k = i")
      case False
      then show ?thesis using old that j(4) [OF False] facet_eqs(3) [OF j(3) [OF False]] unfolding conn_inv_def by metis
    qed (use that c(4) in simp)
    moreover have "set (sv_conns (sy_sv y')) \<subseteq> sy_used y" using old s(6) unfolding conn_inv_def by blast
    moreover have "k \<in> set (sv_conns (sy_sv y'))" if p: "sy_pending y k \<noteq> None" for k
    proof -
      have "k \<in> set (sv_conns (sy_sv y))" using old p unfolding conn_inv_def by (elim conjE) simp
      from left [OF this] show ?thesis using p by simp
    qed
    ultimately show ?thesis unfolding conn_inv_def s by blast
  qed
  ultimately show ?thesis using d s(4,5) by (simp add: sys_inv_def)
qed

lemma live_frame:
  assumes "journal_ok sf (sv_db (sy_sv y))" "log_inv y" "env \<in> set (h_log (hub_of y))"
  shows "is_journal (FrameFor env u)"
proof -
  have "env \<in> set (map env_of (drop (sy_start y) (log_of y)))"
    using assms(2,3) unfolding log_inv_def by (meson set_mono_prefix subset_iff)
  then obtain e where e: "e \<in> set (log_of y)" "env = env_of e" by (auto dest: in_set_dropD)
  then have "eventEnvelope (stored e) = Some env" using envelope [OF assms(1)] by (simp add: log_of_def)
  then show ?thesis by (auto simp: eventEnvelope_def FrameFor_def Let_def split: if_splits option.splits)
qed

lemma Forward_inv:
  assumes inv: "sys_inv sf y" and i: "i \<in> set (sv_conns (sy_sv y))"
  shows "sys_inv sf (on_server (forward_one full i) y)" (is "sys_inv sf ?y")
proof (cases "cl_forward (sv_client (sy_sv y) i)")
  case False
  then show ?thesis using inv by (simp add: on_server_def forward_one_def)
next
  case True
  have ci: "client_inv y i" "conn_inv y" "hub_ok (hub_of y)" "\<not> h_done (hub_of y)" "log_inv y" and j: "journal_ok sf (sv_db (sy_sv y))"
    using inv journal_of by (auto simp: sys_inv_def)
  let ?s = "sy_sv y" and ?u = "id_UserID (cl_identity (sv_client (sy_sv y) i))"
  obtain since n sb where r: "sy_replayed y i = Some (since, n)" and sb: "h_sub (hub_of y) i = Some sb" "n \<le> length (log_of y)" "sy_start y + sb_from sb \<le> n"
      "journal_frames i ?s = map (\<lambda>e. FrameFor (env_of e) ?u) (since_part since (take n (log_of y))) @ map (\<lambda>env. FrameFor env ?u) (sb_taken sb)"
    and gr: "cl_helloDone (sv_client ?s i)" "sy_greeting y i = None"
    using ci(1) True by (auto simp: client_inv_def Let_def split: option.splits)
  have used: "i \<in> sy_used y" using ci(2) i unfolding conn_inv_def by blast
  have hub': "hub_ok (hub_of ?y)" "\<not> h_done (hub_of ?y)"
    using ci(3,4) take_ok [OF ci(3), of i] unfolding hub_of_def on_server_def forward_one_def
    by (auto simp: enqueueLive_def Take_def sendFrame_def close_def upd_def Let_def split: option.splits list.splits)
  show ?thesis
  proof (rule own_step_inv [OF inv _ used])
    show "own_step i y ?y" unfolding own_step_def
    proof (intro conjI hub')
    qed (auto simp: on_server_def forward_one_def enqueueLive_def Take_def sendFrame_def close_def upd_def Let_def hub_of_def log_of_def
        split: option.splits list.splits)
    show "reachable sf (sv_db (sy_sv ?y))"
      using inv by (auto simp: sys_inv_def on_server_def forward_one_def enqueueLive_def sendFrame_def close_def upd_def Let_def split: option.splits list.splits)
    show "sy_greeting ?y i \<noteq> None \<longrightarrow> h_sub (hub_of ?y) i \<noteq> None" using gr by (simp add: on_server_def)
    show "i \<in> set (h_subs (hub_of ?y)) \<longrightarrow> cl_helloDone (sv_client (sy_sv ?y) i) \<or> sy_greeting ?y i \<noteq> None"
      using gr by (auto simp: on_server_def forward_one_def enqueueLive_def sendFrame_def close_def upd_def Let_def split: option.splits list.splits)
    show "\<forall>io since. sy_greeting ?y i = Some (Replied io since) \<longrightarrow> cl_helloDone (sv_client (sy_sv ?y) i)"
      using gr by (simp add: on_server_def)
    have "is_journal (FrameFor env ?u)" if "sb_ch sb = env # envs" for env envs
    proof (rule live_frame [OF j ci(5)])
      have "prefix (got sb) (drop (sb_from sb) (h_log (hub_of y)))" using hub_sub [OF ci(3) sb(1)] by (simp add: sub_ok_def)
      moreover have "env \<in> set (got sb)" using that by (simp add: got_def)
      ultimately show "env \<in> set (h_log (hub_of y))" by (meson in_set_dropD set_mono_prefix subsetD)
    qed
    then show "client_inv ?y i"
      using r sb True gr by (auto simp: client_inv_def Let_def on_server_def forward_one_def enqueueLive_def Take_def sendFrame_def close_def
          upd_def hub_of_def log_of_def journal_frames_def split: list.splits)
  qed
qed

text \<open>The greeting.\<close>

lemma subscribe_hub:
  assumes "hub_ok h" "\<not> h_done h" "i \<notin> set (h_subs h)"
  shows "hub_ok (Register i (NewSubscriber i h))" "\<not> h_done (Register i (NewSubscriber i h))"
    "h_log (Register i (NewSubscriber i h)) = h_log h"
    "j \<noteq> i \<Longrightarrow> h_sub (Register i (NewSubscriber i h)) j = h_sub h j"
    "j \<noteq> i \<Longrightarrow> j \<in> set (h_subs (Register i (NewSubscriber i h))) \<longleftrightarrow> j \<in> set (h_subs h)"
    "h_sub (Register i (NewSubscriber i h)) i =
       Some \<lparr>sb_ch = [], sb_closed = False, sb_dropped = 0, sb_taken = [], sb_from = length (h_log h)\<rparr>"
proof -
  show "hub_ok (Register i (NewSubscriber i h))"
    using assms by (auto simp: hub_ok_def Register_def NewSubscriber_def, simp_all add: sub_ok_def got_def)
qed (use assms in \<open>auto simp: Register_def NewSubscriber_def\<close>)

lemma unsubscribe_hub:
  assumes "hub_ok h" "\<not> h_done h" "h' = (case Unregister i h of None \<Rightarrow> h | Some g \<Rightarrow> g)"
  shows "hub_ok h'" "\<not> h_done h'" "h_log h' = h_log h" "j \<noteq> i \<Longrightarrow> h_sub h' j = h_sub h j"
    "j \<noteq> i \<Longrightarrow> j \<in> set (h_subs h') \<longleftrightarrow> j \<in> set (h_subs h)" "i \<notin> set (h_subs h')"
    "map_option (\<lambda>sb. (sb_taken sb, sb_from sb)) (h_sub h' i) = map_option (\<lambda>sb. (sb_taken sb, sb_from sb)) (h_sub h i)"
proof -
  obtain g where g: "Unregister i h = Some g" "hub_ok g" using leave_ok [OF assms(1)] by blast
  then show "hub_ok h'" using assms(3) by simp
  show "\<not> h_done h'" "h_log h' = h_log h" "j \<noteq> i \<Longrightarrow> h_sub h' j = h_sub h j" "i \<notin> set (h_subs h')"
    "j \<noteq> i \<Longrightarrow> j \<in> set (h_subs h') \<longleftrightarrow> j \<in> set (h_subs h)"
    "map_option (\<lambda>sb. (sb_taken sb, sb_from sb)) (h_sub h' i) = map_option (\<lambda>sb. (sb_taken sb, sb_from sb)) (h_sub h i)"
    using g(1) assms(2,3) by (auto simp: Unregister_def close_ch_def Option.bind_eq_Some_conv split: if_splits)
qed

text \<open>What the first part of the greeting does to a connection that has not greeted: at most a person and a subscription.\<close>

definition named :: "nat \<Rightarrow> server \<Rightarrow> server \<Rightarrow> bool" where
  "named i s t \<longleftrightarrow> (\<exists>ident s0. jview s0 = jview s \<and> jview t = jview (setIdentity i ident s0))"

lemma named_intro: "jview s0 = jview s \<Longrightarrow> named i s (setIdentity i ident s0)"
  unfolding named_def by blast

lemma hello_subscribe_jview:
  "hello_subscribe io i cmd s = (None, t) \<Longrightarrow> jview t = jview s \<or> \<not> cl_helloDone (sv_client s i) \<and> named i s t"
  "hello_subscribe io i cmd s = (Some q, t) \<Longrightarrow> \<not> cl_helloDone (sv_client s i) \<and> (\<exists>s1. named i s s1 \<and> t = subscribe i s1)"
proof -
  have "named i s (setIdentity i ident (settleUnpaired i (s\<lparr>sv_db := d\<rparr>)))" for ident d
    by (rule named_intro) simp
  moreover have "named i s (reply_err i cmd a b (setIdentity i ident (settleUnpaired i (s\<lparr>sv_db := d\<rparr>))))" for ident d a b
    using named_intro [of "settleUnpaired i (s\<lparr>sv_db := d\<rparr>)" s i ident] by (simp add: named_def)
  ultimately show "hello_subscribe io i cmd s = (None, t) \<Longrightarrow> jview t = jview s \<or> \<not> cl_helloDone (sv_client s i) \<and> named i s t"
    "hello_subscribe io i cmd s = (Some q, t) \<Longrightarrow> \<not> cl_helloDone (sv_client s i) \<and> (\<exists>s1. named i s s1 \<and> t = subscribe i s1)"
    unfolding hello_subscribe_def Let_def by (auto split: option.splits prod.splits sum.splits if_splits)
qed

lemma named_eqs:
  assumes "named i s t"
  shows "sv_hub t = sv_hub s" "sv_conns t = sv_conns s" "j \<noteq> i \<Longrightarrow> facet (sv_client t j) = facet (sv_client s j)"
    "journal_frames i t = journal_frames i s" "cl_forward (sv_client t i) = cl_forward (sv_client s i)"
    "cl_helloDone (sv_client t i) = cl_helloDone (sv_client s i)"
proof -
  from assms obtain ident s0 where s0: "jview s0 = jview s" and t: "jview t = jview (setIdentity i ident s0)"
    unfolding named_def by blast
  show "sv_hub t = sv_hub s" "sv_conns t = sv_conns s" "journal_frames i t = journal_frames i s"
    "cl_forward (sv_client t i) = cl_forward (sv_client s i)" "cl_helloDone (sv_client t i) = cl_helloDone (sv_client s i)"
    using jview_eqs(1,2) [OF t] jview_eqs(1,2) [OF s0] jview_eqs(3-6) [OF t, of i] jview_eqs(3-6) [OF s0, of i] by (auto simp: setIdentity_def upd_def journal_frames_def)
  show "facet (sv_client t j) = facet (sv_client s j)" if "j \<noteq> i"
    using jview_facet [OF t, of j] jview_facet [OF s0, of j] that by (simp add: setIdentity_def upd_def)
qed

lemma view_db_kick: "snd (view t) = (d, k) \<Longrightarrow> sv_db t = d \<and> sv_kick t = k"
  by (simp add: view_def)

lemma hello_subscribe_db:
  assumes "store_ok sf (sv_db s)" "hello_subscribe io i cmd s = (q, t)"
  shows "sv_kick t = sv_kick s" "events (sv_db t) = events (sv_db s)" "(store_step sf)\<^sup>=\<^sup>= (sv_db s) (sv_db t)"
proof -
  obtain r d where r: "ResolveIdentity (io_flt io) (cl_deviceKey (sv_client s i)) (now_of io) (sv_db s) = (r, d)" by fastforce
  have "snd (view (snd (hello_subscribe io i cmd s))) = (sv_db s, sv_kick s) \<or> snd (view (snd (hello_subscribe io i cmd s))) = (d, sv_kick s)"
    by (simp add: hello_subscribe_def Let_def r del: view_parts split: option.splits prod.splits sum.splits) (simp add: view_def)
  then have "snd (view t) = (sv_db s, sv_kick s) \<or> snd (view t) = (d, sv_kick s)" using assms(2) by simp
  then show "sv_kick t = sv_kick s" "events (sv_db t) = events (sv_db s)" "(store_step sf)\<^sup>=\<^sup>= (sv_db s) (sv_db t)"
    using off_log_answer [OF off_log_ops(1) [OF assms(1) r]] view_db_kick by fastforce+
qed

lemma Hello_inv:
  assumes inv: "sys_inv sf y" and i: "i \<in> set (sv_conns (sy_sv y))" and g: "sy_greeting y i = None"
  shows "sys_inv sf (begin_hello io i cmd y)" (is "sys_inv sf ?y")
proof (cases "hello_subscribe io i cmd (sy_sv y)")
  case (Pair q t)
  let ?s = "sy_sv y"
  have ok: "store_ok sf (sv_db ?s)" and r: "reachable sf (sv_db ?s)" and ci: "conn_inv y" "hub_ok (hub_of y)" "\<not> h_done (hub_of y)" "client_inv y i"
    using inv reachable_store_ok by (auto simp: sys_inv_def)
  note db = hello_subscribe_db [OF ok Pair]
  have rt: "reachable sf (sv_db t)" using step_events(1) [OF r db(3)] .
  have used: "i \<in> sy_used y" using ci(1) i unfolding conn_inv_def by blast
  have out: "sy_replayed y i = None" "i \<notin> set (h_subs (hub_of y))" if "\<not> cl_helloDone (sv_client ?s i)"
    using ci that g by (auto simp: client_inv_def conn_inv_def Let_def split: option.splits)
  show ?thesis
  proof (cases q)
    case None
    then have y': "?y = y\<lparr>sy_sv := t\<rparr>" using Pair by (simp add: begin_hello_def)
    consider "jview t = jview ?s" | "\<not> cl_helloDone (sv_client ?s i)" "named i ?s t" using hello_subscribe_jview(1) Pair None by blast
    then show ?thesis
    proof cases
      case 1
      then show ?thesis unfolding y' using db(1,2) rt by (intro sys_inv_quiet [OF inv, where new = "[]"]) (simp_all add: log_of_def)
    next
      case 2
      note n = named_eqs [OF 2(2)]
      show ?thesis unfolding y'
      proof (rule own_step_inv [OF inv _ used])
        show "own_step i y (y\<lparr>sy_sv := t\<rparr>)" using n db ci(2,3) by (auto simp: own_step_def log_of_def hub_of_def)
        show "client_inv (y\<lparr>sy_sv := t\<rparr>) i" using ci(4) out(1) [OF 2(1)] n by (simp add: client_inv_def Let_def hub_of_def)
      qed (use g rt out 2 n in \<open>auto simp: hub_of_def\<close>)
    qed
  next
    case (Some w)
    then obtain since ident j where w: "q = Some (since, ident, j)" by (cases w) auto
    from hello_subscribe_jview(2) [of io i cmd ?s w t] Pair Some obtain s1 where
      s1: "\<not> cl_helloDone (sv_client ?s i)" "named i ?s s1" "t = subscribe i s1" by auto
    note n = named_eqs [OF s1(2)] and h = subscribe_hub [OF ci(2,3) out(2) [OF s1(1)]]
    have y': "?y = greet i (Some (Subscribed io cmd since ident j)) (y\<lparr>sy_sv := t\<rparr>)" using Pair w by (simp add: begin_hello_def)
    have hub: "hub_of ?y = Register i (NewSubscriber i (hub_of y))" using n(1) by (simp add: y' greet_def hub_of_def s1(3) subscribe_def upd_def)
    have f: "facet (sv_client t j) = facet (sv_client ?s j)" if "j \<noteq> i" for j using n(3) [OF that] that by (simp add: s1(3) subscribe_def upd_def)
    show ?thesis
    proof (rule own_step_inv [OF inv _ used])
      show "own_step i y ?y" unfolding own_step_def hub
        using n(2) db h f by (auto simp: y' greet_def log_of_def s1(3)) (auto simp: subscribe_def upd_def)
      show "client_inv ?y i" using ci(4) out(1) [OF s1(1)] n h(6) unfolding client_inv_def Let_def hub
        by (simp add: y' greet_def s1(3) subscribe_def upd_def journal_frames_def)
    qed (use rt h(6) in \<open>simp_all add: hub\<close>, simp_all add: y' greet_def)
  qed
qed

lemma hello_reply_ok:
  "hello_reply io i cmd ident j s = (True, t) \<Longrightarrow> jview t = jview (upd i (\<lambda>c. c\<lparr>cl_helloDone := True\<rparr>) s) \<and> snd (view t) = snd (view s)"
  by (auto simp: hello_reply_def Let_def simp del: view_parts split: sum.splits)

lemma hello_reply_fail:
  "hello_reply io i cmd ident j s = (False, t) \<Longrightarrow> jview t = jview (unsubscribe i s) \<and> snd (view t) = snd (view s)"
  by (auto simp: hello_reply_def Let_def simp del: view_parts split: sum.splits)

lemma greeting_facts:
  assumes "sys_inv sf y" "sy_greeting y i = Some g"
  shows "i \<in> sy_used y" "sy_replayed y i = None" "h_sub (hub_of y) i \<noteq> None" "journal_frames i (sy_sv y) = []"
    "\<not> cl_forward (sv_client (sy_sv y) i)" "\<And>sb. h_sub (hub_of y) i = Some sb \<Longrightarrow> sb_taken sb = []"
proof -
  have c: "client_inv y i" "conn_inv y" using assms(1) by (simp_all add: sys_inv_def)
  show "i \<in> sy_used y" "h_sub (hub_of y) i \<noteq> None" using c(2) assms(2) unfolding conn_inv_def by (metis option.distinct(1))+
  show r: "sy_replayed y i = None" using c(1) assms(2) by (auto simp: client_inv_def Let_def split: option.splits)
  show "journal_frames i (sy_sv y) = []" "\<not> cl_forward (sv_client (sy_sv y) i)" "\<And>sb. h_sub (hub_of y) i = Some sb \<Longrightarrow> sb_taken sb = []"
    using c(1) r by (simp_all add: client_inv_def Let_def)
qed

lemma Hello_reply_inv:
  assumes inv: "sys_inv sf y" and g: "sy_greeting y i = Some g"
  shows "sys_inv sf (reply_hello io i cmd since ident j y)" (is "sys_inv sf ?y")
proof (cases "hello_reply io i cmd ident j (sy_sv y)")
  case (Pair ok t)
  note gf = greeting_facts [OF inv g]
  have ci: "hub_ok (hub_of y)" "\<not> h_done (hub_of y)" "reachable sf (sv_db (sy_sv y))" using inv by (simp_all add: sys_inv_def)
  show ?thesis
  proof (cases ok)
    case True
    then have t: "jview t = jview (upd i (\<lambda>c. c\<lparr>cl_helloDone := True\<rparr>) (sy_sv y))" "snd (view t) = snd (view (sy_sv y))"
      using hello_reply_ok [of io i cmd ident j "sy_sv y" t] Pair by simp_all
    have y': "?y = greet i (Some (Replied io since)) (y\<lparr>sy_sv := t\<rparr>)" using Pair True by (simp add: reply_hello_def)
    have hub: "hub_of ?y = hub_of y" "sv_conns t = sv_conns (sy_sv y)" using jview_eqs(1,2) [OF t(1)] by (simp_all add: y' greet_def hub_of_def upd_def)
    have f: "facet (sv_client t k) = facet (sv_client (sy_sv y) k)" if "k \<noteq> i" for k using jview_facet [OF t(1), of k] that by (simp add: upd_def)
    show ?thesis
    proof (rule own_step_inv [OF inv _ gf(1)])
      show "own_step i y ?y" unfolding own_step_def hub using t(2) hub(2) ci f by (auto simp: y' greet_def log_of_def)
      show "client_inv ?y i" using gf jview_eqs(3-6) [OF t(1), of i] unfolding client_inv_def Let_def hub
        by (simp add: y' greet_def upd_def journal_frames_def)
    qed (use t ci(3) gf(3) hub jview_eqs(5) [OF t(1), of i] in \<open>auto simp: y' greet_def upd_def\<close>)
  next
    case False
    then have t: "jview t = jview (unsubscribe i (sy_sv y))" "snd (view t) = snd (view (sy_sv y))" using hello_reply_fail [of io i cmd ident j "sy_sv y" t] Pair by simp_all
    have y': "?y = greet i None (y\<lparr>sy_sv := t\<rparr>)" using Pair False by (simp add: reply_hello_def)
    have hub: "hub_of ?y = (case Unregister i (hub_of y) of None \<Rightarrow> hub_of y | Some h \<Rightarrow> h)" "sv_conns t = sv_conns (sy_sv y)"
      using jview_eqs(1,2) [OF t(1)] by (simp_all add: y' greet_def hub_of_def unsubscribe_def upd_def split: option.splits)
    note h = unsubscribe_hub [OF ci(1,2) hub(1)]
    have f: "facet (sv_client t k) = facet (sv_client (sy_sv y) k)" if "k \<noteq> i" for k
      using jview_facet [OF t(1), of k] that by (simp add: unsubscribe_def upd_def)
    show ?thesis
    proof (rule own_step_inv [OF inv _ gf(1)])
      show "own_step i y ?y" unfolding own_step_def using h t(2) hub(2) ci f by (auto simp: y' greet_def log_of_def)
      have "sb_taken sb = []" if "h_sub (hub_of ?y) i = Some sb" for sb using h(7) that gf(6) by (cases "h_sub (hub_of y) i") auto
      then show "client_inv ?y i" using gf jview_eqs(3-6) [OF t(1), of i] unfolding client_inv_def Let_def
        by (simp add: y' greet_def upd_def unsubscribe_def journal_frames_def)
    qed (use t ci(3) h(6) in \<open>auto simp: y' greet_def\<close>)
  qed
qed

text \<open>The replay queues exactly the frames of the events it read.\<close>

lemma event_is_journal: "eventEnvelope ev = Some env \<Longrightarrow> is_journal (FrameFor env u)"
  by (auto simp: eventEnvelope_def FrameFor_def Let_def split: if_splits option.splits)

lemma send_all_frames:
  assumes "\<forall>e \<in> set es. eventEnvelope (stored e) = Some (env_of e)"
  shows "\<exists>t. send_all i (map stored es) s = (True, t) \<and> sv_hub t = sv_hub s \<and> sv_conns t = sv_conns s
    \<and> (\<forall>j. j \<noteq> i \<longrightarrow> sv_client t j = sv_client s j)
    \<and> facet (sv_client t i) = (journal_frames i s @ map (\<lambda>e. FrameFor (env_of e) (id_UserID (cl_identity (sv_client s i)))) es, snd (facet (sv_client s i)))"
  using assms
proof (induction es arbitrary: s)
  case Nil
  then show ?case by (simp add: facet_def journal_frames_def)
next
  case (Cons e es)
  let ?s = "sendFrame i (FrameFor (env_of e) (id_UserID (cl_identity (sv_client s i)))) s"
  have "is_journal (FrameFor (env_of e) u)" for u using Cons.prems by (auto intro: event_is_journal)
  moreover obtain t where t: "send_all i (map stored es) ?s = (True, t)" "sv_hub t = sv_hub ?s" "sv_conns t = sv_conns ?s"
    "\<forall>j. j \<noteq> i \<longrightarrow> sv_client t j = sv_client ?s j"
    "facet (sv_client t i) = (journal_frames i ?s @ map (\<lambda>e. FrameFor (env_of e) (id_UserID (cl_identity (sv_client ?s i)))) es, snd (facet (sv_client ?s i)))"
    using Cons.IH [of ?s] Cons.prems by auto
  ultimately show ?case using Cons.prems
    by (intro exI [of _ t]) (auto simp: sendFrame_def upd_def journal_frames_def facet_def)
qed

lemma replay_result:
  assumes j: "journal_ok sf (io_snap io)"
  obtains (failed) "jview (replay io i since s) = jview s"
    | (replayed) "sv_hub (replay io i since s) = sv_hub s" "sv_conns (replay io i since s) = sv_conns s"
      "\<And>j. j \<noteq> i \<Longrightarrow> sv_client (replay io i since s) j = sv_client s j" "cl_forward (sv_client (replay io i since s) i)"
      "journal_frames i (replay io i since s) = journal_frames i s
         @ map (\<lambda>e. FrameFor (env_of e) (id_UserID (cl_identity (sv_client s i)))) (since_part since (events (io_snap io)))"
      "cl_helloDone (sv_client (replay io i since s) i) = cl_helloDone (sv_client s i)"
      "id_UserID (cl_identity (sv_client (replay io i since s) i)) = id_UserID (cl_identity (sv_client s i))"
proof (cases since)
  case None
  then have "replay io i since s = upd i (\<lambda>c. c\<lparr>cl_forward := True\<rparr>) s" by (simp add: replay_def)
  then show ?thesis using None by (intro replayed) (auto simp: upd_def since_part_def journal_frames_def)
next
  case (Some n)
  show ?thesis
  proof (cases "io_flt io ''query events''")
    case True
    then have "\<exists>e. EventsSince (io_flt io) n (io_snap io) = Inl e" by (simp add: EventsSince_def query_def)
    then show ?thesis using Some by (intro failed) (auto simp: replay_def)
  next
    case False
    let ?es = "filter (\<lambda>e. n < e_seq e) (events (io_snap io))"
    have e: "EventsSince (io_flt io) n (io_snap io) = Inr (map stored ?es)"
      using EventsSince_eq [of "io_snap io" "io_flt io" n] False j by (simp add: journal_ok_def)
    have "\<forall>e \<in> set ?es. eventEnvelope (stored e) = Some (env_of e)" using envelope [OF j] by simp
    from send_all_frames [OF this, of i s] obtain t where t: "send_all i (map stored ?es) s = (True, t)" "sv_hub t = sv_hub s" "sv_conns t = sv_conns s"
      "\<forall>j. j \<noteq> i \<longrightarrow> sv_client t j = sv_client s j"
      "facet (sv_client t i) = (journal_frames i s @ map (\<lambda>e. FrameFor (env_of e) (id_UserID (cl_identity (sv_client s i)))) ?es, snd (facet (sv_client s i)))"
      by blast
    have "replay io i since s = upd i (\<lambda>c. c\<lparr>cl_forward := True\<rparr>) t" using Some e t(1) by (simp add: replay_def)
    then show ?thesis using t Some by (intro replayed) (auto simp: upd_def since_part_def journal_frames_def facet_def)
  qed
qed

lemma Hello_replay_inv:
  assumes inv: "sys_inv sf y" and g: "sy_greeting y i = Some (Replied io' since')"
  shows "sys_inv sf (end_hello io i since y)" (is "sys_inv sf ?y")
proof -
  let ?s = "sy_sv y" and ?io = "io\<lparr>io_snap := sv_db (sy_sv y)\<rparr>"
  let ?t = "replay ?io i since ?s"
  note gf = greeting_facts [OF inv g]
  have ci: "hub_ok (hub_of y)" "\<not> h_done (hub_of y)" "reachable sf (sv_db ?s)" "log_inv y" "conn_inv y" using inv by (simp_all add: sys_inv_def)
  have hello: "cl_helloDone (sv_client ?s i)" using ci(5) g unfolding conn_inv_def by blast
  have v: "sv_db ?t = sv_db ?s" "sv_kick ?t = sv_kick ?s" using view_replay [of ?io i since ?s] by (simp_all add: view_def)
  have proj: "sy_sv ?y = ?t" "sy_greeting ?y = (sy_greeting y)(i := None)" "sy_start ?y = sy_start y" "sy_last ?y = sy_last y" "sy_batch ?y = sy_batch y"
    "sy_reading ?y = sy_reading y" "sy_failed ?y = sy_failed y" "sy_used ?y = sy_used y" "j \<noteq> i \<Longrightarrow> sy_replayed ?y j = sy_replayed y j"
    "sy_replayed ?y i = (if cl_forward (sv_client ?t i) then Some (since, length (log_of y)) else sy_replayed y i)" "sy_pending ?y = sy_pending y" for j
    by (simp_all add: end_hello_def greet_def Let_def log_of_def)
  have lg: "log_of ?y = log_of y" by (simp add: log_of_def proj v)
  have "journal_ok sf (io_snap ?io)" using journal_of [OF ci(3)] by simp
  then show ?thesis
  proof (cases rule: replay_result [of sf ?io i since ?s])
    case failed
    note f = jview_eqs(1,2) [OF failed]
    show ?thesis
    proof (rule own_step_inv [OF inv _ gf(1)])
      show "own_step i y ?y" using ci f jview_facet [OF failed] by (simp add: own_step_def proj lg hub_of_def v)
      show "client_inv ?y i" using gf jview_eqs(3-6) [OF failed, of i] f by (simp add: client_inv_def Let_def proj hub_of_def)
    qed (use ci(3) v hello jview_eqs(5) [OF failed, of i] in \<open>simp_all add: proj\<close>)
  next
    case replayed
    obtain sb where sb: "h_sub (hub_of y) i = Some sb" "sb_taken sb = []" using gf(3,6) by blast
    have "sb_from sb \<le> length (h_log (hub_of y))" using hub_sub [OF ci(1) sb(1)] by (simp add: sub_ok_def)
    then have from': "sy_start y + sb_from sb \<le> length (log_of y)" using ci(4) by (simp add: log_inv_def dispatched_def)
    show ?thesis
    proof (rule own_step_inv [OF inv _ gf(1)])
      show "own_step i y ?y" using ci replayed(1-3) by (simp add: own_step_def proj lg hub_of_def v)
      show "client_inv ?y i" using replayed sb from' gf(4) hello unfolding client_inv_def Let_def lg
        by (simp add: proj hub_of_def log_of_def)
    qed (use ci(3) v hello replayed(6) in \<open>simp_all add: proj\<close>)
  qed
qed

lemma view_conns: "view (s\<lparr>sv_conns := cs\<rparr>) = view s"
  by (simp add: view_def replies_def)

lemma HangUp_inv:
  assumes inv: "sys_inv sf y" and i: "i \<in> set (sv_conns (sy_sv y))" and g: "sy_greeting y i = None" and p: "sy_pending y i = None"
  shows "sys_inv sf (on_server (hang_up stranger i) y)" (is "sys_inv sf ?y")
proof -
  let ?s = "sy_sv y"
  define s1 where "s1 = (if stranger then letGoLocked i ?s else ?s)"
  define s2 where "s2 = cleanup i s1"
  have ci: "hub_ok (hub_of y)" "\<not> h_done (hub_of y)" "reachable sf (sv_db ?s)" "client_inv y i" "conn_inv y" using inv by (simp_all add: sys_inv_def)
  have used: "i \<in> sy_used y" using ci(5) i unfolding conn_inv_def by blast
  have s1: "jview s1 = jview ?s" "view s1 = view ?s" by (simp_all add: s1_def)
  have v: "view (sy_sv ?y) = view ?s"
    using view_conns by (simp add: on_server_def hang_up_def untrack_def cleanup_def s1_def [symmetric] s1)
  let ?t = "sy_sv ?y"
  have t: "?t = untrack i (close i StatusNormalClosure '''' s2)" by (simp add: on_server_def hang_up_def s2_def s1_def)
  have jt: "sv_hub ?t = sv_hub s2" "sv_conns ?t = removeAll i (sv_conns s2)" "facet (sv_client ?t j) = facet (sv_client s2 j)" for j
    using jview_eqs(1,2) [of "letGoLocked i (close i StatusNormalClosure '''' s2)" s2]
    by (auto simp: t untrack_def letGoLocked_def close_def upd_def facet_def Let_def)
  have hub: "hub_of ?y = (if cl_sub (sv_client ?s i) then (case Unregister i (hub_of y) of None \<Rightarrow> hub_of y | Some h \<Rightarrow> h) else hub_of y)"
    using jview_eqs [OF s1(1)] by (auto simp: hub_of_def jt s2_def cleanup_def unsubscribe_def upd_def split: option.splits)
  have h: "hub_ok (hub_of ?y)" "\<not> h_done (hub_of ?y)" "h_log (hub_of ?y) = h_log (hub_of y)"
    "j \<noteq> i \<Longrightarrow> h_sub (hub_of ?y) j = h_sub (hub_of y) j" "j \<noteq> i \<Longrightarrow> j \<in> set (h_subs (hub_of ?y)) \<longleftrightarrow> j \<in> set (h_subs (hub_of y))"
    "i \<in> set (h_subs (hub_of ?y)) \<Longrightarrow> i \<in> set (h_subs (hub_of y))"
    "map_option (\<lambda>sb. (sb_taken sb, sb_from sb)) (h_sub (hub_of ?y) i) = map_option (\<lambda>sb. (sb_taken sb, sb_from sb)) (h_sub (hub_of y) i)" for j
    using unsubscribe_hub [OF ci(1,2) refl] ci(1,2) unfolding hub by (auto split: if_splits)
  have fj: "facet (sv_client ?t j) = facet (sv_client ?s j)" if "j \<noteq> i" for j
    using jview_facet [OF s1(1), of j] that by (simp add: jt s2_def cleanup_def unsubscribe_def upd_def)
  have fi: "journal_frames i ?t = journal_frames i ?s" "cl_forward (sv_client ?t i) = cl_forward (sv_client ?s i)"
    "cl_helloDone (sv_client ?t i) = cl_helloDone (sv_client ?s i)" "id_UserID (cl_identity (sv_client ?t i)) = id_UserID (cl_identity (sv_client ?s i))"
    using jview_facet [OF s1(1), of i] jt(3) [of i]
    by (auto simp: facet_def journal_frames_def s2_def cleanup_def unsubscribe_def upd_def split: if_splits)
  have db: "sv_db ?t = sv_db ?s" "sv_kick ?t = sv_kick ?s" using v by (simp_all add: view_def)
  have conns: "set (sv_conns ?t) \<subseteq> set (sv_conns ?s)" using jview_eqs(2) [OF s1(1)]
    by (auto simp: jt s2_def cleanup_def unsubscribe_def upd_def split: if_splits)
  have stay: "j \<in> set (sv_conns ?t)" if "j \<in> set (sv_conns ?s)" "j \<noteq> i" for j using jview_eqs(2) [OF s1(1)] that
    by (auto simp: jt s2_def cleanup_def unsubscribe_def upd_def split: if_splits)
  have rest: "sy_greeting ?y = sy_greeting y" "sy_replayed ?y = sy_replayed y" "sy_start ?y = sy_start y" "log_of ?y = log_of y"
    by (simp_all add: on_server_def log_of_def) (simp add: db [unfolded on_server_def, simplified])
  show ?thesis
  proof (rule own_step_inv [OF inv _ used])
    have "j \<in> set (sv_conns ?s) \<longrightarrow> j \<in> set (sv_conns ?t) \<or> sy_pending y j = None" for j using stay [of j] p by (cases "j = i") auto
    then show "own_step i y ?y" using h fj db conns rest by (simp add: own_step_def) (simp add: on_server_def)
    show "client_inv ?y i"
    proof -
      have "h_sub (hub_of ?y) i = None \<longleftrightarrow> h_sub (hub_of y) i = None" "\<And>sb. h_sub (hub_of ?y) i = Some sb \<Longrightarrow>
          \<exists>sb0. h_sub (hub_of y) i = Some sb0 \<and> sb_taken sb = sb_taken sb0 \<and> sb_from sb = sb_from sb0"
        using h(7) by (cases "h_sub (hub_of y) i"; cases "h_sub (hub_of ?y) i"; auto)+
      then show ?thesis using ci(4) unfolding client_inv_def Let_def rest fi
        by (auto split: option.splits)
    qed
    show "i \<in> set (h_subs (hub_of ?y)) \<longrightarrow> cl_helloDone (sv_client ?t i) \<or> sy_greeting ?y i \<noteq> None"
      using h(6) ci(5) fi(3) unfolding conn_inv_def rest by blast
  qed (use ci(3) db g rest in simp_all)
qed

text \<open>The writing commands: a commit owes the wake-up that comes after the reply.\<close>

lemma Write_inv:
  assumes inv: "sys_inv (io_sf io) y" and i: "i \<in> set (sv_conns (sy_sv y))" and p: "sy_pending y i = None"
  shows "sys_inv (io_sf io) (begin_write io i cmd y)" (is "sys_inv ?sf ?y")
proof -
  let ?s = "sy_sv y"
  obtain q t where w: "write_commit io i cmd ?s = (q, t)" by fastforce
  have r: "reachable ?sf (sv_db ?s)" using inv by (simp add: sys_inv_def)
  have jv: "jview t = jview ?s" using jview_commit(4) [of io i cmd ?s] w by simp
  have c: "commits ?sf i cmd ?s (q, t)" using write_commits [OF reachable_store_ok [OF r], of i cmd] w by simp
  then have st: "(store_step ?sf)\<^sup>=\<^sup>= (sv_db ?s) (sv_db t)" and k: "sv_kick t = sv_kick ?s"
    by (auto simp: commits_def answers_def split: option.splits)
  obtain new where new: "events (sv_db t) = events (sv_db ?s) @ new" using step_events [OF r st] by blast
  have sv: "sy_sv ?y = t" and same: "sy_start ?y = sy_start y" "sy_last ?y = sy_last y" "sy_batch ?y = sy_batch y" "sy_reading ?y = sy_reading y"
      "sy_failed ?y = sy_failed y" "sy_greeting ?y = sy_greeting y" "sy_replayed ?y = sy_replayed y" "sy_used ?y = sy_used y"
    and pend: "sy_pending ?y = (case q of None \<Rightarrow> sy_pending y | Some (dat, wk) \<Rightarrow> (sy_pending y)(i := Some (Committed cmd dat wk)))"
    using w by (simp_all add: begin_write_def hold_def split: option.splits prod.splits)
  have mine: "owing ?y" if n: "new \<noteq> []"
  proof (cases q)
    case (Some a)
    then have "snd a" using c new n by (auto simp: commits_def)
    then show ?thesis using pend Some by (intro owingI [of _ i]) (auto split: prod.splits)
  qed (use c new n in \<open>auto simp: commits_def\<close>)
  have others: "owing ?y" if o: "owing y"
  proof -
    from o obtain j where "owes (sy_pending y j)" by (auto simp: owing_def)
    then show ?thesis using p pend by (intro owingI [of _ j]) (auto split: option.splits)
  qed
  show ?thesis
    by (rule sys_inv_quiet [OF inv, where new = new])
      (use new k mine others same jv step_events(1) [OF r st] i pend in \<open>auto simp: sv log_of_def split: option.splits if_splits\<close>)
qed

lemma Write_reply_inv:
  assumes inv: "sys_inv sf y" and p: "sy_pending y i = Some (Committed cmd dat wk)"
  shows "sys_inv sf (reply_write i cmd dat wk y)"
proof -
  have "owing (reply_write i cmd dat wk y) = owing y" using p unfolding owing_def reply_write_def hold_def on_server_def
    by (auto; metis owes.simps)
  then show ?thesis using inv p
    by (intro sys_inv_quiet [OF inv, where new = "[]"]) (auto simp: reply_write_def hold_def on_server_def log_of_def sys_inv_def split: if_splits)
qed

lemma Write_kick_inv:
  assumes inv: "sys_inv sf y" and p: "sy_pending y i = Some (Answered wk)"
  shows "sys_inv sf (end_write i wk y)"
proof -
  have o: "owing (end_write i wk y)" if o: "owing y" "\<not> wk"
  proof -
    from o obtain j where "owes (sy_pending y j)" by (auto simp: owing_def)
    then show ?thesis using p o by (intro owingI [of _ j]) (auto simp: on_server_def end_write_def hold_def)
  qed
  have s: "sv_db (kick_if wk s) = sv_db s" "jview (kick_if wk s) = jview s" "sv_kick (kick_if wk s) = (wk \<or> sv_kick s)" for s
    by (simp_all add: kick_if_def kickDispatcher_def)
  show ?thesis using inv p o
    by (intro sys_inv_quiet [OF inv, where new = "[]"]) (auto simp: end_write_def hold_def on_server_def log_of_def sys_inv_def s split: if_splits)
qed

section \<open>Every run\<close>

lemma step_inv:
  assumes "sys_step sf y y'" "sys_inv sf y"
  shows "sys_inv sf y'"
  using assms
proof cases
  case (Command i io cmd)
  have "store_ok sf (sv_db (sy_sv y))" using assms(2) reachable_store_ok by (simp add: sys_inv_def)
  then show ?thesis using Command dispatch_moves [of io "sy_sv y" i cmd] jview_dispatch assms(2) by (auto intro: quiet_step)
next
  case (Beside d)
  then show ?thesis using beside_off_log [of _ d sf] assms(2) by (auto intro!: quiet_step moves_off_log)
next
  case (Addresses nxt)
  then show ?thesis using assms(2) by (auto intro!: quiet_step simp: view_addresses)
qed (use assms(2) in \<open>auto intro: Open_inv Hello_inv Hello_reply_inv Hello_replay_inv Write_inv Write_reply_inv Write_kick_inv HangUp_inv quiet_step sweep_moves Wake_inv Read_inv Cast_inv
      Forward_inv simp: view_outOfTime\<close>)

lemma start_inv:
  assumes d: "reachable sf d" and y: "startDispatcher flt (newServer d lim addr) = Some y"
  shows "sys_inv sf y"
proof -
  have j: "log_ok d" using journal_of [OF d] by (simp add: journal_ok_def)
  obtain c where c: "Cursor flt d = Inr c" and y': "y = \<lparr>sy_sv = newServer d lim addr, sy_last = c, sy_batch = [], sy_reading = False,
      sy_failed = False, sy_start = length (events d), sy_greeting = (\<lambda>_. None), sy_pending = (\<lambda>_. None), sy_replayed = (\<lambda>_. None), sy_used = {}\<rparr>"
    using y by (auto simp: startDispatcher_def newServer_def split: sum.splits)
  have last: "c = (if events d = [] then 0 else e_seq (events d ! (length (events d) - 1)))"
  proof (cases "events d = []")
    case False
    let ?m = "length (events d) - 1"
    have le: "e_seq e \<le> e_seq (events d ! ?m)" if e: "e \<in> set (events d)" for e
    proof -
      obtain k where k: "k < length (events d)" "e = events d ! k" using e by (auto simp: in_set_conv_nth)
      then show ?thesis using j by (cases "k = ?m") (auto simp: log_ok_def sorted_wrt_iff_nth_less intro: less_imp_le)
    qed
    have "e_seq (events d ! ?m) \<le> c" using Cursor_bound(1) [OF j c] False by simp
    moreover have "c \<le> e_seq (events d ! ?m)"
      using Cursor_bound(2) [OF j c] le j False by (auto simp: log_ok_def) (metis last_conv_nth last_in_set less_imp_le One_nat_def)
    ultimately show ?thesis using False by simp
  qed (use c in \<open>simp add: Cursor_def query_def split: if_splits\<close>)
  show ?thesis using d last hub_ok_new
    by (auto simp: sys_inv_def y' log_inv_def dispatched_def hub_of_def log_of_def newServer_def NewHub_def client_inv_def conn_inv_def
        journal_frames_def newClient_def)
qed

lemma run_inv: "(sys_step sf)\<^sup>*\<^sup>* y y' \<Longrightarrow> sys_inv sf y \<Longrightarrow> sys_inv sf y'"
  by (induction rule: rtranclp_induct) (auto intro: step_inv)

lemma step_start: "sys_step sf y y' \<Longrightarrow> sy_start y' = sy_start y"
  by (cases rule: sys_step.cases, assumption)
    (auto simp: on_server_def begin_hello_def reply_hello_def end_hello_def greet_def begin_write_def reply_write_def end_write_def hold_def
        wake_def read_log_def cast_next_def Let_def
      split: prod.splits option.splits sum.splits list.splits)

lemma run_start: "(sys_step sf)\<^sup>*\<^sup>* y y' \<Longrightarrow> sy_start y' = sy_start y"
  by (induction rule: rtranclp_induct) (auto dest: step_start)

lemma started: "startDispatcher flt (newServer d lim addr) = Some y \<Longrightarrow> sy_start y = length (events d)"
  by (auto simp: startDispatcher_def newServer_def split: sum.splits)

text \<open>
  The dispatcher left to itself: it wakes, broadcasts what it has read, reads the rest, broadcasts that, and finds
  nothing more.
\<close>

fun cast_all :: "StoredEvent list \<Rightarrow> system \<Rightarrow> system option" where
  "cast_all [] y = Some y"
| "cast_all (_ # evs) y = Option.bind (cast_next y) (cast_all evs)"

definition catch_up :: "system \<Rightarrow> system option" where
  "catch_up y =
     (let y1 = wake y in
      Option.bind (cast_all (sy_batch y1) y1) (\<lambda>y2.
        let y3 = read_log no_faults y2
        in map_option (read_log no_faults) (cast_all (sy_batch y3) y3)))"

lemma cast_next_works:
  assumes inv: "sys_inv sf y" and b: "sy_batch y = ev # evs"
  shows "\<exists>y'. cast_next y = Some y' \<and> sys_inv sf y' \<and> sy_batch y' = evs \<and> log_of y' = log_of y \<and> dispatched y' = Suc (dispatched y)
    \<and> sy_reading y' = sy_reading y \<and> sy_start y' = sy_start y \<and> sy_failed y' = sy_failed y \<and> sv_kick (sy_sv y') = sv_kick (sy_sv y)"
proof -
  have hub: "hub_ok (hub_of y)" "\<not> h_done (hub_of y)" and j: "journal_ok sf (sv_db (sy_sv y))" and log: "log_inv y"
    using inv journal_of by (auto simp: sys_inv_def)
  have "ev \<in> set (map stored (drop (dispatched y) (log_of y)))"
    using log b unfolding log_inv_def by (metis list.set_intros(1) set_mono_prefix subsetD)
  then obtain e where e: "e \<in> set (log_of y)" "ev = stored e" by (auto dest: in_set_dropD)
  then have env: "eventEnvelope ev = Some (env_of e)" using envelope [OF j] by (simp add: log_of_def)
  obtain h where h: "Broadcast (env_of e) (hub_of y) = Some h" using broadcast_ok [OF hub(1)] by blast
  define s' where "s' = fold (\<lambda>i. close i StatusPolicyViolation ''slow consumer'')
     (filter (\<lambda>i. i \<notin> set (h_subs h)) (h_subs (sv_hub (sy_sv y)))) ((sy_sv y)\<lparr>sv_hub := h\<rparr>)"
  have c: "cast_next y = Some (y\<lparr>sy_last := ev_Seq ev, sy_batch := evs, sy_sv := s'\<rparr>)"
    using h b env by (simp add: cast_next_def Let_def hub_of_def s'_def)
  have "view s' = view ((sy_sv y)\<lparr>sv_hub := h\<rparr>)" "jview s' = jview ((sy_sv y)\<lparr>sv_hub := h\<rparr>)" unfolding s'_def by (rule view_slow)+
  then have "sv_db s' = sv_db (sy_sv y)" "sv_kick s' = sv_kick (sy_sv y)" "sv_hub s' = h" by (simp_all add: view_def jview_def)
  then show ?thesis using c Cast_inv [OF inv c] Broadcast_log(3) [OF h hub(2,1)] by (simp add: log_of_def dispatched_def hub_of_def)
qed

lemma cast_all_works:
  assumes "sys_inv sf y" "evs = sy_batch y"
  shows "\<exists>y'. cast_all evs y = Some y' \<and> sys_inv sf y' \<and> sy_batch y' = [] \<and> log_of y' = log_of y \<and> dispatched y' = dispatched y + length evs
    \<and> sy_reading y' = sy_reading y \<and> sy_start y' = sy_start y \<and> sy_failed y' = sy_failed y \<and> sv_kick (sy_sv y') = sv_kick (sy_sv y)"
  using assms
proof (induction evs arbitrary: y)
  case (Cons ev evs)
  obtain y1 where "cast_next y = Some y1" "sys_inv sf y1" "sy_batch y1 = evs" "log_of y1 = log_of y" "sy_reading y1 = sy_reading y"
    "sy_start y1 = sy_start y" "sy_failed y1 = sy_failed y" "sv_kick (sy_sv y1) = sv_kick (sy_sv y)" "dispatched y1 = Suc (dispatched y)"
    using cast_next_works [OF Cons.prems(1) Cons.prems(2) [symmetric]] by blast
  then show ?case using Cons.IH [of y1] by auto
qed simp

lemma read_log_works:
  assumes "sys_inv sf y" "sy_batch y = []"
  shows "sy_reading y \<Longrightarrow> sy_batch (read_log no_faults y) = map stored (drop (dispatched y) (log_of y))"
    "log_of (read_log no_faults y) = log_of y" "sy_start (read_log no_faults y) = sy_start y" "hub_of (read_log no_faults y) = hub_of y"
    "sy_reading y \<Longrightarrow> sy_reading (read_log no_faults y) = (drop (dispatched y) (log_of y) \<noteq> [])"
    "\<not> sy_reading y \<Longrightarrow> read_log no_faults y = y" "sv_kick (sy_sv (read_log no_faults y)) = sv_kick (sy_sv y)" "sy_reading y \<Longrightarrow> \<not> sy_failed (read_log no_faults y)"
proof -
  have j: "journal_ok sf (sv_db (sy_sv y))" "log_inv y" using assms(1) journal_of by (auto simp: sys_inv_def)
  have e: "EventsSince no_faults (sy_last y) (sv_db (sy_sv y)) = Inr (map stored (drop (dispatched y) (log_of y)))"
    using EventsSince_eq [of "sv_db (sy_sv y)" no_faults "sy_last y"] undispatched [OF j] j by (simp add: journal_ok_def log_of_def no_faults_def)
  show "sy_reading y \<Longrightarrow> sy_batch (read_log no_faults y) = map stored (drop (dispatched y) (log_of y))"
    "sy_reading y \<Longrightarrow> sy_reading (read_log no_faults y) = (drop (dispatched y) (log_of y) \<noteq> [])" "sy_reading y \<Longrightarrow> \<not> sy_failed (read_log no_faults y)"
    using assms(2) e by (auto simp: read_log_def)
qed (auto simp: read_log_def log_of_def hub_of_def split: sum.splits)

lemma owing_wake: "owing (wake y) = owing y"
  by (simp add: wake_def owing_def)

lemma owing_cast: "cast_next y = Some y' \<Longrightarrow> owing y' = owing y"
  by (auto simp: cast_next_def owing_def Let_def split: list.splits option.splits)

lemma owing_cast_all: "cast_all evs y = Some y' \<Longrightarrow> owing y' = owing y"
  by (induction evs y rule: cast_all.induct) (auto simp: Option.bind_eq_Some_conv owing_cast)

lemma catch_up_works:
  assumes inv: "sys_inv sf y" and f: "\<not> sy_failed y" "\<not> owing y"
  shows "\<exists>y'. catch_up y = Some y' \<and> sys_inv sf y' \<and> \<not> sy_reading y' \<and> sy_batch y' = [] \<and> dispatched y' = length (log_of y)
    \<and> log_of y' = log_of y \<and> sy_start y' = sy_start y"
proof -
  define y1 where "y1 = wake y"
  have y1: "sys_inv sf y1" "log_of y1 = log_of y" "sy_start y1 = sy_start y" "sy_failed y1 = sy_failed y" "sv_kick (sy_sv y1) \<longrightarrow> sy_reading y1"
    using Wake_inv [OF inv] by (auto simp: y1_def wake_def log_of_def)
  obtain y2 where y2: "cast_all (sy_batch y1) y1 = Some y2" "sys_inv sf y2" "sy_batch y2 = []" "log_of y2 = log_of y" "sy_reading y2 = sy_reading y1"
    "sy_start y2 = sy_start y" "\<not> sy_failed y2" "sv_kick (sy_sv y2) \<longrightarrow> sy_reading y2"
    using cast_all_works [OF y1(1) refl] y1 f(1) by auto
  have o2: "\<not> owing y2" using owing_cast_all [OF y2(1)] f(2) by (simp add: y1_def owing_wake)
  define y3 where "y3 = read_log no_faults y2"
  obtain y4 where y4: "cast_all (sy_batch y3) y3 = Some y4" "sys_inv sf y4" "sy_batch y4 = []" "log_of y4 = log_of y" "sy_reading y4 = sy_reading y3"
    "sy_start y4 = sy_start y"
    "dispatched y4 = dispatched y3 + length (sy_batch y3)"
    using cast_all_works [OF Read_inv [OF y2(2), of no_faults] refl] y2 read_log_works(2,3) [OF y2(2,3)] unfolding y3_def by auto
  note r2 = read_log_works [OF y2(2,3), folded y3_def] and r4 = read_log_works [OF y4(2,3)]
  have le: "dispatched y2 \<le> length (log_of y)" "dispatched y3 = dispatched y2"
    using y2 r2 by (auto simp: sys_inv_def log_inv_def dispatched_def)
  have d: "dispatched y4 = length (log_of y)"
  proof (cases "sy_reading y2")
    case True
    then show ?thesis using y4(7) r2(1) le y2(4) by simp
  next
    case False
    then have "y3 = y2" "dispatched y2 = length (log_of y2)" using r2(6) y2 o2 by (auto simp: sys_inv_def log_inv_def)
    then show ?thesis using y4(7) y2 by simp
  qed
  moreover have "\<not> sy_reading (read_log no_faults y4) \<and> sy_batch (read_log no_faults y4) = []"
    using d r4(1,5,6) y4(3,4) by (cases "sy_reading y4") auto
  ultimately show ?thesis
    using y2(1) y4 r4 Read_inv [OF y4(2), of no_faults]
    by (simp add: catch_up_def Let_def y1_def [symmetric] y3_def [symmetric] dispatched_def)
qed


text \<open>The handlers that are between their commit and their wake-up, let finish.\<close>

definition finish_write :: "nat \<Rightarrow> system \<Rightarrow> system" where
  "finish_write i y =
     (case sy_pending y i of
        None \<Rightarrow> y
      | Some (Committed cmd dat wk) \<Rightarrow> end_write i wk (reply_write i cmd dat wk y)
      | Some (Answered wk) \<Rightarrow> end_write i wk y)"

definition settle :: "system \<Rightarrow> system" where
  "settle y = fold finish_write (sv_conns (sy_sv y)) y"

lemma finish_write_steps: "(sys_step sf)\<^sup>*\<^sup>* y (finish_write i y)"
proof (cases "sy_pending y i")
  case (Some p)
  show ?thesis
  proof (cases p)
    case (Committed cmd dat wk)
    have "sys_step sf y (reply_write i cmd dat wk y)" using Some Committed by (auto intro: sys_step.Write_reply)
    moreover have "sys_step sf (reply_write i cmd dat wk y) (end_write i wk (reply_write i cmd dat wk y))"
      by (rule sys_step.Write_kick) (simp add: reply_write_def hold_def)
    ultimately show ?thesis using Some Committed by (simp add: finish_write_def)
  next
    case (Answered wk)
    then show ?thesis using Some by (auto simp: finish_write_def intro: sys_step.Write_kick)
  qed
qed (simp add: finish_write_def)

lemma finish_write_parts:
  "sy_pending (finish_write i y) = (sy_pending y)(i := None)" "log_of (finish_write i y) = log_of y"
  "sy_start (finish_write i y) = sy_start y" "sy_failed (finish_write i y) = sy_failed y"
  by (auto simp: finish_write_def end_write_def reply_write_def hold_def on_server_def log_of_def kick_if_def kickDispatcher_def
      split: option.splits pending.splits)

lemma finish_all:
  "(sys_step sf)\<^sup>*\<^sup>* y (fold finish_write is y)" "sy_pending (fold finish_write is y) i = (if i \<in> set is then None else sy_pending y i)"
  "log_of (fold finish_write is y) = log_of y" "sy_start (fold finish_write is y) = sy_start y" "sy_failed (fold finish_write is y) = sy_failed y"
  by (induction "is" arbitrary: y) (auto simp: finish_write_parts intro: rtranclp_trans [OF finish_write_steps])

lemma settle_works:
  assumes "sys_inv sf y"
  shows "(sys_step sf)\<^sup>*\<^sup>* y (settle y)" "sy_pending (settle y) = (\<lambda>_. None)" "\<not> owing (settle y)" "log_of (settle y) = log_of y"
    "sy_start (settle y) = sy_start y" "sy_failed (settle y) = sy_failed y"
proof -
  have "sy_pending y i = None" if "i \<notin> set (sv_conns (sy_sv y))" for i using assms that by (auto simp: sys_inv_def conn_inv_def)
  then show p: "sy_pending (settle y) = (\<lambda>_. None)" by (auto simp: settle_def finish_all(2))
  show "\<not> owing (settle y)" by (simp add: owing_def p)
qed (simp_all add: settle_def finish_all)

text \<open>What the dispatcher does on its own is a run of the system.\<close>

lemma cast_all_steps: "cast_all evs y = Some y' \<Longrightarrow> (sys_step sf)\<^sup>*\<^sup>* y y'"
  by (induction evs y rule: cast_all.induct) (auto simp: Option.bind_eq_Some_conv intro: converse_rtranclp_into_rtranclp sys_step.Cast)

lemma catch_up_steps:
  assumes "catch_up y = Some y'"
  shows "(sys_step sf)\<^sup>*\<^sup>* y y'"
proof -
  obtain y2 y4 where c: "cast_all (sy_batch (wake y)) (wake y) = Some y2"
      "cast_all (sy_batch (read_log no_faults y2)) (read_log no_faults y2) = Some y4" "y' = read_log no_faults y4"
    using assms by (auto simp: catch_up_def Let_def Option.bind_eq_Some_conv)
  have "(sys_step sf)\<^sup>*\<^sup>* (wake y) y2" "(sys_step sf)\<^sup>*\<^sup>* (read_log no_faults y2) y4" using c cast_all_steps by blast+
  then have "(sys_step sf)\<^sup>*\<^sup>* y y2" "(sys_step sf)\<^sup>*\<^sup>* y2 y4"
    using converse_rtranclp_into_rtranclp sys_step.Wake sys_step.Read by metis+
  then show ?thesis unfolding c(3) by (meson rtranclp_trans rtranclp.rtrancl_into_rtrancl sys_step.Read)
qed

lemma pending_kept: "sy_pending (wake y) = sy_pending y" "sy_pending (read_log flt y) = sy_pending y" "cast_next y = Some y' \<Longrightarrow> sy_pending y' = sy_pending y"
  by (auto simp: wake_def read_log_def cast_next_def Let_def split: list.splits option.splits sum.splits)

lemma cast_all_pending: "cast_all evs y = Some y' \<Longrightarrow> sy_pending y' = sy_pending y"
  by (induction evs y rule: cast_all.induct) (auto simp: Option.bind_eq_Some_conv pending_kept)

lemma catch_up_pending: "catch_up y = Some y' \<Longrightarrow> sy_pending y' = sy_pending y"
  by (auto simp: catch_up_def Let_def Option.bind_eq_Some_conv pending_kept dest!: cast_all_pending)

end
