(* ===== verification/Delivery_Properties.thy ===== *)
theory Delivery_Properties
  imports Delivery
begin

text \<open>
  What the dispatcher and a greeted connection promise, in every run of the system: broadcasts in the order of the
  log and nothing left behind, and a stream without a gap from the cursor a device names.
\<close>

section \<open>A sample run\<close>

text \<open>A paired phone connects to a server with two events, greets from the beginning and is replayed both.\<close>

definition sample_db :: db where
  "sample_db = snd (EnsureJournal no_faults ''7'' (sample_sent id))"

definition sample_hello :: Command where
  "sample_hello = \<lparr>cmd_ID = 1, cmd_Cmd = CmdSessionHello, cmd_Data = Some (JObj [(''schema'', JInt 1), (''since'', JInt 0)])\<rparr>"

definition sample_limits :: Limits where
  "sample_limits = \<lparr>MaxMessageBytes = 65536, MaxAttachmentBytes = 1000, MaxFrameBytes = 131072\<rparr>"

definition sample_start :: system where
  "sample_start = the (startDispatcher no_faults (newServer sample_db sample_limits '':8090''))"

definition sample_open :: system where
  "sample_open = (on_server (handleWS sample_io 0 ''phone'' ''box'') sample_start)\<lparr>sy_used := {0}\<rparr>"

definition sample_subscribed :: system where
  "sample_subscribed = begin_hello sample_io 0 sample_hello sample_open"

definition sample_replied :: system where
  "sample_replied = reply_hello sample_io 0 sample_hello (Some 0) sample_author ''j_7'' sample_subscribed"

definition sample_live :: system where
  "sample_live = end_hello sample_io 0 (Some 0) sample_replied"

lemma reachable_sample_db: "reachable id sample_db"
  unfolding sample_db_def by (rule reachable_step [OF reachable_sample_sent store_step.EnsureJournal])

lemma sample_fields:
  "field_vals id ''schema'' [(''schema'', JInt 1), (''since'', JInt 0)] = [JInt 1]"
  "field_vals id ''since'' [(''schema'', JInt 1), (''since'', JInt 0)] = [JInt 0]"
  by (simp_all add: field_vals_def foldCase_id_ascii byte_def)

lemma sample_request: "helloRequest sample_io sample_hello = Some (1, Some 0)"
  by (simp add: helloRequest_def sample_hello_def data_of_def members_def int_field_def sample_io_def sample_fields dec_ptr_int_def
      in_int64_def int64_min_def int64_max_def)

lemma sample_sent_value: "sample_sent id = sent_state (sample_chat id) id '''' (new_message ''1'' 2 ''c_1'' ''a'' sample_author None None 3)"
  using sample_send [of id "''1''" "''a''" None 3] by (simp add: sample_sent_def Let_def)

lemma sample_db_fields:
  "devices sample_db = devices sample_paired" "users sample_db = users sample_paired" "journal sample_db = Some ''j_7''"
  "events sample_db = events (sample_chat id)
     @ [\<lparr>e_seq = 2, e_type = EventMessageNew, e_payload = PMessage (new_message ''1'' 2 ''c_1'' ''a'' sample_author None None 3)\<rparr>]"
  by (simp_all add: sample_db_def EnsureJournal_def autocommit_def exec_def no_faults_def sample_sent_value sent_state_def appended_def
      sample_chat_value sample_paired_value)

lemma sample_resolve:
  "ResolveIdentity no_faults ''phone'' 5 sample_db = (Inr sample_author,
     sample_db\<lparr>devices := [\<lparr>d_device_key = ''phone'', d_user_id = ''u_1'', d_platform = ''ios'', d_created_at = 1, d_last_seen_at = 5\<rparr>]\<rparr>)"
  by (simp add: ResolveIdentity_def transact_def lookupByDevice_def touchDevice_def sample_db_fields sample_paired_value device_by_def user_by_def
      identity_of_def sample_author_def query_def exec_def no_faults_def commit_def update_where_def)

lemma sample_owner: "pairedKey no_faults ''phone'' sample_db"
  by (simp add: pairedKey_def DeviceOwner_def deviceOwnerOf_def sample_db_fields sample_paired_value device_by_def query_def no_faults_def)

lemmas sample_defs = sample_live_def sample_replied_def sample_subscribed_def sample_open_def sample_start_def

lemma sample_startDispatcher: "startDispatcher no_faults (newServer sample_db sample_limits '':8090'') = Some sample_start"
  by (simp add: sample_start_def startDispatcher_def newServer_def Cursor_def query_def no_faults_def)

lemma startDispatcher_parts:
  "startDispatcher flt s = Some y \<Longrightarrow> sy_sv y = s \<and> sy_greeting y = (\<lambda>_. None) \<and> sy_pending y = (\<lambda>_. None) \<and> sy_used y = {} \<and> \<not> sy_failed y"
  by (auto simp: startDispatcher_def split: sum.splits)

lemma sample_open_greeting: "cl_deviceKey (sv_client (sy_sv sample_open) 0) = ''phone''" "sv_db (sy_sv sample_open) = sample_db"
  "cl_helloDone (sv_client (sy_sv sample_open) 0) = False" "cl_revoked (sv_client (sy_sv sample_open) 0) = False" "sy_greeting sample_open 0 = None"
  "sy_pending sample_open 0 = None" "sv_conns (sy_sv sample_open) = [0]"
  using startDispatcher_parts [OF sample_startDispatcher] sample_owner
  by (simp_all add: sample_open_def on_server_def handleWS_def Let_def track_def upd_def newServer_def newClient_def sendFrame_def sample_io_def)

lemma sample_subscribes:
  "sample_subscribed = greet 0 (Some (Subscribed sample_io sample_hello (Some 0) sample_author ''j_7''))
     (sample_open\<lparr>sy_sv := snd (hello_subscribe sample_io 0 sample_hello (sy_sv sample_open))\<rparr>)"
proof -
  have db: "sv_db (setIdentity i a (settleUnpaired i t)) = sv_db t" for i a t
    by (simp add: setIdentity_def settleUnpaired_def letGoLocked_def upd_def Let_def)
  have "io_flt sample_io = no_faults" "now_of sample_io = 5" by (simp_all add: sample_io_def now_of_def Unix_def)
  then show ?thesis using sample_resolve unfolding sample_subscribed_def begin_hello_def
    by (simp add: hello_subscribe_def sample_open_greeting sample_request SchemaVersion_def Let_def db JournalID_def query_row_def
        sample_db_fields query_def no_faults_def)
qed

lemma replay_forwards:
  assumes "journal_ok sf (io_snap io)" "\<not> io_flt io ''query events''"
  shows "cl_forward (sv_client (replay io i since s) i)"
proof (cases since)
  case (Some n)
  let ?es = "filter (\<lambda>e. n < e_seq e) (events (io_snap io))"
  have "\<forall>e \<in> set ?es. eventEnvelope (stored e) = Some (env_of e)" using envelope [OF assms(1)] by simp
  from send_all_frames [OF this, of i s] obtain t where "send_all i (map stored ?es) s = (True, t)" by blast
  then show ?thesis using Some EventsSince_eq [of "io_snap io" "io_flt io" n] assms by (simp add: replay_def journal_ok_def upd_def)
qed (simp add: replay_def upd_def)

lemma sample_run_steps: "(sys_step id)\<^sup>*\<^sup>* sample_start sample_live" "cl_forward (sv_client (sy_sv sample_live) 0)"
proof -
  have io: "io_sf sample_io = id" "io_flt sample_io = no_faults" by (simp_all add: sample_io_def)
  have s1: "sys_step id sample_start sample_open"
    using sys_step.Open [of 0 sample_start sample_io id "''phone''" "''box''"] startDispatcher_parts [OF sample_startDispatcher] io by (simp add: sample_open_def)
  have s2: "sys_step id sample_open sample_subscribed" unfolding sample_subscribed_def
    by (rule sys_step.Hello) (simp_all add: sample_open_greeting io sample_hello_def)
  have g: "sy_greeting sample_subscribed 0 = Some (Subscribed sample_io sample_hello (Some 0) sample_author ''j_7'')"
    by (subst sample_subscribes) (simp add: greet_def)
  have s3: "sys_step id sample_subscribed sample_replied" unfolding sample_replied_def by (rule sys_step.Hello_reply [OF g])
  have g2: "sy_greeting sample_replied 0 = Some (Replied sample_io (Some 0))"
    by (simp add: sample_replied_def reply_hello_def hello_reply_def Cursor_def query_def io no_faults_def Let_def greet_def)
  have s4: "sys_step id sample_replied sample_live" unfolding sample_live_def by (rule sys_step.Hello_replay [OF g2])
  show run: "(sys_step id)\<^sup>*\<^sup>* sample_start sample_live" using s1 s2 s3 s4 by (meson converse_rtranclp_into_rtranclp rtranclp.rtrancl_refl)
  have "sys_inv id sample_replied"
    using start_inv [OF reachable_sample_db sample_startDispatcher] s1 s2 s3 step_inv by blast
  then have "journal_ok id (sv_db (sy_sv sample_replied))" using journal_of by (simp add: sys_inv_def)
  then show "cl_forward (sv_client (sy_sv sample_live) 0)"
    using replay_forwards [of id "sample_io\<lparr>io_snap := sv_db (sy_sv sample_replied)\<rparr>"] io
    by (simp add: sample_live_def end_hello_def greet_def Let_def no_faults_def)
qed

section \<open>The properties\<close>

text \<open>The frame of an event as connection \<open>i\<close> is shown it.\<close>

definition shown :: "system \<Rightarrow> nat \<Rightarrow> event_row \<Rightarrow> frame" where
  "shown y i e = FrameFor (env_of e) (id_UserID (cl_identity (sv_client (sy_sv y) i)))"

lemma broadcast_from:
  assumes "log_inv y"
  shows "drop k (h_log (hub_of y)) = map env_of (take (length (h_log (hub_of y)) - k) (drop (sy_start y + k) (log_of y)))"
proof -
  obtain zs where "map env_of (drop (sy_start y) (log_of y)) = h_log (hub_of y) @ zs"
    using assms by (auto simp: log_inv_def prefix_def)
  then have "h_log (hub_of y) = take (length (h_log (hub_of y))) (map env_of (drop (sy_start y) (log_of y)))"
    by simp
  then have "drop k (h_log (hub_of y)) = drop k (take (length (h_log (hub_of y))) (map env_of (drop (sy_start y) (log_of y))))"
    by (rule arg_cong)
  then show ?thesis by (simp add: drop_take drop_map take_map add.commute)
qed

lemma live_client:
  assumes inv: "sys_inv sf y" and live: "cl_forward (sv_client (sy_sv y) i)"
  obtains since n sb where "sy_replayed y i = Some (since, n)" "h_sub (hub_of y) i = Some sb" "n \<le> length (log_of y)" "sy_start y + sb_from sb \<le> n"
    "journal_frames i (sy_sv y) = map (shown y i) (since_part since (take n (log_of y)))
       @ map (shown y i) (take (length (sb_taken sb)) (drop (sy_start y + sb_from sb) (log_of y)))"
proof -
  have log: "log_inv y" and hub: "hub_ok (hub_of y)" and ci: "client_inv y i" using inv by (auto simp: sys_inv_def)
  let ?u = "id_UserID (cl_identity (sv_client (sy_sv y) i))"
  obtain since n sb where r: "sy_replayed y i = Some (since, n)" "h_sub (hub_of y) i = Some sb" "n \<le> length (log_of y)" "sy_start y + sb_from sb \<le> n"
    and frames: "journal_frames i (sy_sv y) = map (shown y i) (since_part since (take n (log_of y))) @ map (\<lambda>env. FrameFor env ?u) (sb_taken sb)"
    using ci live by (auto simp: client_inv_def Let_def shown_def [abs_def] split: option.splits)
  have "prefix (sb_taken sb @ sb_ch sb) (drop (sb_from sb) (h_log (hub_of y)))" using hub_sub [OF hub r(2)] by (simp add: sub_ok_def got_def)
  then have "prefix (sb_taken sb) (drop (sb_from sb) (h_log (hub_of y)))" by (rule append_prefixD)
  moreover have "prefix (drop (sb_from sb) (h_log (hub_of y))) (map env_of (drop (sy_start y + sb_from sb) (log_of y)))"
    unfolding broadcast_from [OF log] by (rule map_mono_prefix) (rule take_is_prefix)
  ultimately have "prefix (sb_taken sb) (map env_of (drop (sy_start y + sb_from sb) (log_of y)))" by (rule prefix_order.trans)
  then have "sb_taken sb = map env_of (take (length (sb_taken sb)) (drop (sy_start y + sb_from sb) (log_of y)))"
    by (metis prefix_def append_eq_conv_conj take_map)
  then have "map (\<lambda>env. FrameFor env ?u) (sb_taken sb) = map (shown y i) (take (length (sb_taken sb)) (drop (sy_start y + sb_from sb) (log_of y)))"
    by (metis (no_types, lifting) map_map comp_def shown_def map_cong)
  then show thesis using that [OF r] frames by simp
qed

text \<open>A registered subscriber has everything that was dispatched since it joined, taken or buffered.\<close>

lemma registered_buffer:
  assumes inv: "sys_inv sf y" and sb: "h_sub (hub_of y) i = Some sb" and reg: "i \<in> set (h_subs (hub_of y))"
  defines "f \<equiv> sy_start y + sb_from sb + length (sb_taken sb)"
  shows "sb_ch sb = map env_of (take (length (sb_ch sb)) (drop f (log_of y)))"
    "filter (\<lambda>e. sy_last y < e_seq e) (log_of y) = drop (f + length (sb_ch sb)) (log_of y)"
proof -
  have j: "journal_ok sf (sv_db (sy_sv y))" and log: "log_inv y" and hub: "hub_ok (hub_of y)" using inv journal_of by (auto simp: sys_inv_def)
  have g: "sb_taken sb @ sb_ch sb = drop (sb_from sb) (h_log (hub_of y))" "sb_from sb \<le> length (h_log (hub_of y))"
    using hub_sub [OF hub sb] reg by (auto simp: sub_ok_def got_def)
  then have l: "length (h_log (hub_of y)) - sb_from sb = length (sb_taken sb) + length (sb_ch sb)" by (metis length_append length_drop)
  then have "dispatched y = f + length (sb_ch sb)" using g(2) by (simp add: dispatched_def f_def)
  then show "filter (\<lambda>e. sy_last y < e_seq e) (log_of y) = drop (f + length (sb_ch sb)) (log_of y)"
    using undispatched [OF j log] by simp
  have "sb_ch sb = drop (length (sb_taken sb)) (map env_of (take (length (sb_taken sb) + length (sb_ch sb)) (drop (sy_start y + sb_from sb) (log_of y))))"
    using g(1) unfolding broadcast_from [OF log] l by (metis append_eq_conv_conj)
  then show "sb_ch sb = map env_of (take (length (sb_ch sb)) (drop f (log_of y)))" by (simp add: drop_map drop_take f_def add.commute)
qed

lemma cut_in_three:
  assumes "e \<in> set xs" "f \<le> n"
  shows "e \<in> set (take n xs) \<or> e \<in> set (take m (drop f xs)) \<or> e \<in> set (take k (drop (f + m) xs)) \<or> e \<in> set (drop (f + m + k) xs)"
proof -
  have "e \<in> set (take n xs) \<or> e \<in> set (drop f xs)" using assms by (metis Un_iff append_take_drop_id set_append set_drop_subset_set_drop subsetD)
  moreover have "set (drop f xs) = set (take m (drop f xs)) \<union> set (take k (drop (f + m) xs)) \<union> set (drop (f + m + k) xs)"
    by (metis append_take_drop_id drop_drop set_append add.commute Un_assoc)
  ultimately show ?thesis by auto
qed

text \<open>
  C37. A greeted connection gets the journal without a gap, whatever runs beside its greeting. While it
  forwards, its journal frames are, in this order, the events after the cursor it named that the replay read,
  and then the events broadcast since it subscribed, up to the last one it took; the second stretch starts
  no later than where the first one ends, so no event between them is missing. As long as the hub has not evicted
  it, every event after its cursor is on its queue, in its buffer, or not yet dispatched.
\<close>

theorem journal_without_gap:
  assumes "reachable sf d" "startDispatcher flt (newServer d lim addr) = Some y0" "(sys_step sf)\<^sup>*\<^sup>* y0 y" "cl_forward (sv_client (sy_sv y) i)"
  shows "\<exists>since n f m sb. sy_replayed y i = Some (since, n) \<and> h_sub (hub_of y) i = Some sb \<and> f \<le> n \<and> n \<le> length (log_of y)
    \<and> journal_frames i (sy_sv y) = map (shown y i) (since_part since (take n (log_of y))) @ map (shown y i) (take m (drop f (log_of y)))
    \<and> (i \<in> set (h_subs (hub_of y)) \<longrightarrow> (\<forall>k. since = Some k \<longrightarrow> (\<forall>e \<in> set (log_of y). k < e_seq e \<longrightarrow>
         shown y i e \<in> set (cl_out (sv_client (sy_sv y) i)) \<or> env_of e \<in> set (sb_ch sb) \<or> sy_last y < e_seq e)))"
proof -
  have inv: "sys_inv sf y" using run_inv [OF assms(3) start_inv [OF assms(1,2)]] .
  obtain since n sb where r: "sy_replayed y i = Some (since, n)" and sb: "h_sub (hub_of y) i = Some sb" and n: "n \<le> length (log_of y)" "sy_start y + sb_from sb \<le> n"
    and fr: "journal_frames i (sy_sv y) = map (shown y i) (since_part since (take n (log_of y)))
       @ map (shown y i) (take (length (sb_taken sb)) (drop (sy_start y + sb_from sb) (log_of y)))"
    by (rule live_client [OF inv assms(4)])
  have sub: "set (journal_frames i (sy_sv y)) \<subseteq> set (cl_out (sv_client (sy_sv y) i))" by (auto simp: journal_frames_def)
  have "shown y i e \<in> set (cl_out (sv_client (sy_sv y) i)) \<or> env_of e \<in> set (sb_ch sb) \<or> sy_last y < e_seq e"
    if reg: "i \<in> set (h_subs (hub_of y))" and k: "since = Some k" and e: "e \<in> set (log_of y)" "k < e_seq e" for k e
  proof -
    note b = registered_buffer [OF inv sb reg]
    consider "e \<in> set (take n (log_of y))" | "e \<in> set (take (length (sb_taken sb)) (drop (sy_start y + sb_from sb) (log_of y)))"
      | "env_of e \<in> set (sb_ch sb)" | "sy_last y < e_seq e"
      using cut_in_three [OF e(1) n(2), of "length (sb_taken sb)" "length (sb_ch sb)"] b
      by (metis (mono_tags, lifting) image_eqI list.set_map mem_Collect_eq set_filter)
    then show ?thesis
    proof cases
      case 1
      then have "shown y i e \<in> set (journal_frames i (sy_sv y))" using k e(2) by (simp add: fr since_part_def)
      then show ?thesis using sub by blast
    next
      case 2
      then have "shown y i e \<in> set (journal_frames i (sy_sv y))" by (simp add: fr)
      then show ?thesis using sub by blast
    qed simp_all
  qed
  then show ?thesis using r sb n fr by blast
qed

theorem journal_without_gap_witness:
  "\<exists>since n sb. sy_replayed sample_live 0 = Some (since, n) \<and> h_sub (hub_of sample_live) 0 = Some sb \<and> n \<le> length (log_of sample_live)"
  using journal_without_gap [OF reachable_sample_db sample_startDispatcher sample_run_steps] by blast

text \<open>
  C38. The dispatcher broadcasts the committed events, each once and in the order of the log, and no
  wake-up is lost, whatever runs between a handler's commit, its reply and its \<open>kickDispatcher\<close>: the hub's broadcasts
  are always a prefix of the events committed since the start. When the dispatcher waits with nothing to
  wake it and its last read of the log did not fail, they are all of them, unless some handler has
  committed an event and has its wake-up still to send.
\<close>

theorem dispatched_in_order:
  assumes "reachable sf d" "startDispatcher flt (newServer d lim addr) = Some y0" "(sys_step sf)\<^sup>*\<^sup>* y0 y"
  shows "prefix (h_log (hub_of y)) (map env_of (drop (length (events d)) (log_of y)))
    \<and> (sy_reading y \<or> sv_kick (sy_sv y) \<or> sy_failed y \<or> (\<exists>i. owes (sy_pending y i))
       \<or> h_log (hub_of y) = map env_of (drop (length (events d)) (log_of y)))"
proof -
  have log: "log_inv y" using run_inv [OF assms(3) start_inv [OF assms(1,2)]] by (simp add: sys_inv_def)
  have start: "sy_start y = length (events d)" using run_start [OF assms(3)] started [OF assms(2)] by simp
  have "h_log (hub_of y) = map env_of (drop (sy_start y) (log_of y))" if "dispatched y = length (log_of y)"
    using that broadcast_from [OF log, of 0] by (simp add: dispatched_def)
  then show ?thesis using log unfolding log_inv_def start owing_def by blast
qed

theorem dispatched_in_order_witness:
  "prefix (h_log (hub_of sample_live)) (map env_of (drop (length (events sample_db)) (log_of sample_live)))"
  using dispatched_in_order [OF reachable_sample_db sample_startDispatcher sample_run_steps(1)] by blast

text \<open>
  C39. The dispatcher catches up. From every state a run can reach in which its last read did not fail,
  let the handlers between their commit and their wake-up finish, which commits nothing more, and then let the
  dispatcher run on its own with a log that can be read: its steps end, no broadcast panics, and afterwards
  every committed event has been broadcast, the dispatcher waits again, and a subscriber that is still
  registered has taken or buffers every event since it joined. All of it is a run of the system.
\<close>

theorem dispatcher_catches_up:
  assumes "reachable sf d" "startDispatcher flt (newServer d lim addr) = Some y0" "(sys_step sf)\<^sup>*\<^sup>* y0 y" "\<not> sy_failed y"
  shows "\<exists>y'. catch_up (settle y) = Some y' \<and> (sys_step sf)\<^sup>*\<^sup>* y y' \<and> \<not> sy_reading y' \<and> (\<forall>i. sy_pending y' i = None)
    \<and> log_of y' = log_of y \<and> h_log (hub_of y') = map env_of (drop (length (events d)) (log_of y))
    \<and> (\<forall>i sb. i \<in> set (h_subs (hub_of y')) \<longrightarrow> h_sub (hub_of y') i = Some sb \<longrightarrow>
         sb_taken sb @ sb_ch sb = map env_of (drop (length (events d) + sb_from sb) (log_of y)))"
proof -
  have inv: "sys_inv sf y" using run_inv [OF assms(3) start_inv [OF assms(1,2)]] .
  note s = settle_works [OF inv]
  obtain y' where y': "catch_up (settle y) = Some y'" "sys_inv sf y'" "\<not> sy_reading y'" "dispatched y' = length (log_of y)" "log_of y' = log_of y" "sy_start y' = sy_start y"
    using catch_up_works [OF run_inv [OF s(1) inv]] s assms(4) by auto
  have run: "(sys_step sf)\<^sup>*\<^sup>* y y'" using s(1) catch_up_steps [OF y'(1)] by (rule rtranclp_trans)
  have idle: "sy_pending y' = (\<lambda>_. None)" using catch_up_pending [OF y'(1)] s(2) by simp
  have start: "sy_start y' = length (events d)" using run_start [OF assms(3)] started [OF assms(2)] y'(6) by simp
  have inv': "log_inv y'" "hub_ok (hub_of y')" using y'(2) by (simp_all add: sys_inv_def)
  have all: "drop k (h_log (hub_of y')) = map env_of (drop (length (events d) + k) (log_of y))" for k
    using broadcast_from [OF inv'(1), of k] y'(4,5) by (simp add: dispatched_def start)
  have "sb_taken sb @ sb_ch sb = map env_of (drop (length (events d) + sb_from sb) (log_of y))"
    if "i \<in> set (h_subs (hub_of y'))" "h_sub (hub_of y') i = Some sb" for i sb
    using hub_sub [OF inv'(2) that(2)] that(1) by (simp add: sub_ok_def got_def all)
  then show ?thesis using y' all [of 0] run idle by auto
qed

theorem dispatcher_catches_up_witness:
  "\<exists>y'. catch_up (settle sample_start) = Some y' \<and> \<not> sy_reading y' \<and> h_log (hub_of y') = []"
proof -
  have "\<not> sy_failed sample_start" "log_of sample_start = events sample_db"
    using startDispatcher_parts [OF sample_startDispatcher] by (simp_all add: log_of_def newServer_def)
  then show ?thesis
    using dispatcher_catches_up [OF reachable_sample_db sample_startDispatcher rtranclp.rtrancl_refl] by auto
qed

end
