(* ===== verification/Disk.thy ===== *)
theory Disk
  imports Go_Text
begin

text \<open>
  The files of one directory, as the blob store uses them through \<open>os.Root\<close> and \<open>os.File\<close>. A file
  has its bytes and how many leading ones are on stable storage; \<open>ff_clean\<close> says that nothing was
  written or cut since the last flush. A name is bound to a file or to nothing, and \<open>dk_behind\<close> keeps, of every
  name, what it was bound to before, as long as the directory was not flushed since: making, renaming
  and removing a file is seen at once, but is on stable storage only with the directory. An open
  file is known by its name: one request at a time writes the files of an id.

  Every system call takes the next entry of \<open>dk_fates\<close>: it does its work, fails, or the machine
  stops there. A write that fails or stops has written the given number of bytes first; any
  other call that fails has changed nothing, and one that stops has done its work or not.
  A list that has run out means no more faults.
\<close>

section \<open>Outcomes\<close>

datatype blob_err = ErrShortPart | ErrCorrupt | errPastTheEnd | ErrNotExist | ErrExist | ErrRange | ErrUnfinished | ErrKey | ErrDisk | errEOF | errPanic

datatype 'a outcome = Ret 'a | Err blob_err | Halt

datatype fate = Fine | Fails nat | Crashes nat

record fsfile =
  ff_data :: string
  ff_stable :: nat
  ff_clean :: bool

record disk =
  dk_files :: "string \<Rightarrow> fsfile option"
  dk_behind :: "string \<Rightarrow> fsfile option list"
  dk_fates :: "fate list"

type_synonym 'a fs = "disk \<Rightarrow> 'a outcome \<times> disk"

definition ret :: "'a \<Rightarrow> 'a fs" where
  "ret x d = (Ret x, d)"

definition fail :: "blob_err \<Rightarrow> 'a fs" where
  "fail e d = (Err e, d)"

text \<open>The Go idiom of returning the first error; a stopped machine does nothing more.\<close>

definition andThen :: "'a fs \<Rightarrow> ('a \<Rightarrow> 'b fs) \<Rightarrow> 'b fs" where
  "andThen m f d = (case m d of (Ret x, d') \<Rightarrow> f x d' | (Err e, d') \<Rightarrow> (Err e, d') | (Halt, d') \<Rightarrow> (Halt, d'))"

text \<open>A call whose error the caller looks at, or drops.\<close>

definition attempt :: "'a fs \<Rightarrow> (blob_err + 'a) fs" where
  "attempt m d = (case m d of (Ret x, d') \<Rightarrow> (Ret (Inr x), d') | (Err e, d') \<Rightarrow> (Ret (Inl e), d') | (Halt, d') \<Rightarrow> (Halt, d'))"

definition ignoring :: "'a fs \<Rightarrow> 'b fs \<Rightarrow> 'b fs" where
  "ignoring m k = andThen (attempt m) (\<lambda>_. k)"

section \<open>System calls\<close>

text \<open>A call that only reads, and one with an effect on the directory.\<close>

definition reading :: "(disk \<Rightarrow> 'a outcome) \<Rightarrow> 'a fs" where
  "reading look d =
     (case dk_fates d of
        [] \<Rightarrow> (look d, d)
      | v # vs \<Rightarrow>
          (case v of Fine \<Rightarrow> look d | Fails _ \<Rightarrow> Err ErrDisk | Crashes _ \<Rightarrow> Halt, d\<lparr>dk_fates := vs\<rparr>))"

definition changing :: "(disk \<Rightarrow> disk) \<Rightarrow> unit fs" where
  "changing eff d =
     (case dk_fates d of
        [] \<Rightarrow> (Ret (), eff d)
      | v # vs \<Rightarrow>
          let d' = d\<lparr>dk_fates := vs\<rparr>
          in case v of
               Fine \<Rightarrow> (Ret (), eff d')
             | Fails _ \<Rightarrow> (Err ErrDisk, d')
             | Crashes k \<Rightarrow> (Halt, if k = 0 then d' else eff d'))"

definition on_file :: "string \<Rightarrow> (fsfile \<Rightarrow> fsfile) \<Rightarrow> disk \<Rightarrow> disk" where
  "on_file name g d = d\<lparr>dk_files := (dk_files d)(name := map_option g (dk_files d name))\<rparr>"

text \<open>A name gets another file, or none.\<close>

definition rebind :: "string \<Rightarrow> fsfile option \<Rightarrow> disk \<Rightarrow> disk" where
  "rebind name x d = d\<lparr>dk_files := (dk_files d)(name := x), dk_behind := (dk_behind d)(name := dk_files d name # dk_behind d name)\<rparr>"

definition new_file :: fsfile where
  "new_file = \<lparr>ff_data = '''', ff_stable = 0, ff_clean = False\<rparr>"

definition missing :: "string \<Rightarrow> disk \<Rightarrow> bool" where
  "missing name d \<longleftrightarrow> dk_files d name = None"

definition data_at :: "string \<Rightarrow> disk \<Rightarrow> string" where
  "data_at name d = (case dk_files d name of None \<Rightarrow> '''' | Some f \<Rightarrow> ff_data f)"

definition fs_ReadFile :: "string \<Rightarrow> string fs" where
  "fs_ReadFile name = reading (\<lambda>d. if missing name d then Err ErrNotExist else Ret (data_at name d))"

definition fs_Open :: "string \<Rightarrow> unit fs" where
  "fs_Open name = reading (\<lambda>d. if missing name d then Err ErrNotExist else Ret ())"

text \<open>\<open>Stat\<close>, by name or on an open file: how long it is.\<close>

definition fs_Stat :: "string \<Rightarrow> int fs" where
  "fs_Stat name = reading (\<lambda>d. if missing name d then Err ErrNotExist else Ret (int (length (data_at name d))))"

text \<open>\<open>ReadAt\<close> and \<open>io.ReadFull\<close>: all \<open>n\<close> bytes at \<open>pos\<close>, or an error.\<close>

definition fs_ReadAt :: "string \<Rightarrow> nat \<Rightarrow> nat \<Rightarrow> string fs" where
  "fs_ReadAt name pos n =
     reading (\<lambda>d. if pos + n \<le> length (data_at name d) then Ret (take n (drop pos (data_at name d))) else Err ErrDisk)"

definition fs_OpenFile :: "string \<Rightarrow> bool \<Rightarrow> unit fs" where
  "fs_OpenFile name trunc =
     changing (\<lambda>d. if missing name d then rebind name (Some new_file) d
                  else if trunc then on_file name (\<lambda>_. new_file) d else d)"

text \<open>Bytes that are not there yet read as zero.\<close>

definition padded :: "nat \<Rightarrow> string \<Rightarrow> string" where
  "padded n s = take n s @ replicate (n - length s) (char_of (0::nat))"

definition fs_Truncate :: "string \<Rightarrow> nat \<Rightarrow> unit fs" where
  "fs_Truncate name n =
     changing (on_file name (\<lambda>f. \<lparr>ff_data = padded n (ff_data f), ff_stable = min (ff_stable f) n, ff_clean = False\<rparr>))"

definition put_at :: "nat \<Rightarrow> string \<Rightarrow> fsfile \<Rightarrow> fsfile" where
  "put_at pos bs f = \<lparr>ff_data = padded pos (ff_data f) @ bs @ drop (pos + length bs) (ff_data f),
     ff_stable = min (ff_stable f) pos, ff_clean = False\<rparr>"

text \<open>\<open>Write\<close> answers how many bytes went in and whether that was all of them.\<close>

definition fs_Write :: "string \<Rightarrow> nat \<Rightarrow> string \<Rightarrow> (nat \<times> bool) fs" where
  "fs_Write name pos bs d =
     (let go = (\<lambda>k d. on_file name (put_at pos (take k bs)) d)
      in case dk_fates d of
           [] \<Rightarrow> (Ret (length bs, True), go (length bs) d)
         | v # vs \<Rightarrow>
             let d' = d\<lparr>dk_fates := vs\<rparr>
             in case v of
                  Fine \<Rightarrow> (Ret (length bs, True), go (length bs) d')
                | Fails k \<Rightarrow> (Ret (min k (length bs), False), go k d')
                | Crashes k \<Rightarrow> (Halt, go k d'))"

definition fs_Sync :: "string \<Rightarrow> unit fs" where
  "fs_Sync name = changing (on_file name (\<lambda>f. f\<lparr>ff_stable := length (ff_data f), ff_clean := True\<rparr>))"

definition fs_Close :: "string \<Rightarrow> unit fs" where
  "fs_Close name = changing (\<lambda>d. d)"

definition fs_Seek :: "string \<Rightarrow> unit fs" where
  "fs_Seek name = reading (\<lambda>_. Ret ())"

definition fs_Rename :: "string \<Rightarrow> string \<Rightarrow> unit fs" where
  "fs_Rename a b d =
     (if missing a d then reading (\<lambda>_. Err ErrNotExist) d
      else changing (\<lambda>d. rebind a None (rebind b (dk_files d a) d)) d)"

definition fs_Remove :: "string \<Rightarrow> unit fs" where
  "fs_Remove name d =
     (if missing name d then reading (\<lambda>_. Err ErrNotExist) d
      else changing (rebind name None) d)"

text \<open>A directory is opened, flushed and closed; its flush puts every name it has on stable storage.\<close>

definition fs_OpenDir :: "unit fs" where "fs_OpenDir = reading (\<lambda>_. Ret ())"
definition fs_SyncDir :: "unit fs" where "fs_SyncDir = changing (\<lambda>d. d\<lparr>dk_behind := (\<lambda>_. [])\<rparr>)"
definition fs_CloseDir :: "unit fs" where "fs_CloseDir = reading (\<lambda>_. Ret ())"

section \<open>A power loss\<close>

text \<open>
  What may be left of a file: all of it when it was flushed and not touched since; otherwise
  at least the leading bytes that were flushed and neither cut nor written over since, and
  anything after them. What a restart finds is on stable storage.
\<close>

definition survives :: "fsfile \<Rightarrow> fsfile \<Rightarrow> bool" where
  "survives f g \<longleftrightarrow> (ff_clean f \<longrightarrow> ff_data g = ff_data f) \<and> ff_stable f \<le> length (ff_data g)
     \<and> take (ff_stable f) (ff_data g) = take (ff_stable f) (ff_data f)
     \<and> ff_stable g = length (ff_data g) \<and> ff_clean g"

definition power_loss :: "disk \<Rightarrow> disk \<Rightarrow> bool" where
  "power_loss d d' \<longleftrightarrow> (\<forall>name. rel_option survives (dk_files d name) (dk_files d' name))"

text \<open>
  \<open>power_loss\<close> keeps the names as they are, what a journalled file system gives a program that never flushes its
  directory. \<open>power_cut\<close> promises nothing of the kind: every name the directory was not flushed for
  may be back to what it was bound to before, each name by itself.
\<close>

definition power_cut :: "disk \<Rightarrow> disk \<Rightarrow> bool" where
  "power_cut d d' \<longleftrightarrow> (\<forall>name. (\<exists>f \<in> set (dk_files d name # dk_behind d name). rel_option survives f (dk_files d' name)) \<and> dk_behind d' name = [])"

end
