(* ===== verification/Blob.thy ===== *)
theory Blob
  imports Disk Store_Journal Pairing_Link "HOL-Library.Signed_Division"
begin

text \<open>
  \<open>internal/blob/blob.go\<close>: attachment bytes on disk, sealed in chunks. The AEAD and the key
  derivation are parameters (\<open>crypto\<close>); an \<open>Upload\<close> is passed and returned. The lengths
  are 64-bit integers: sums and products wrap.
\<close>

section \<open>The format\<close>

definition partSuffix :: string where "partSuffix = ''.part''"
definition syncedSuffix :: string where "syncedSuffix = ''.synced''"
definition tmpSuffix :: string where "tmpSuffix = ''.tmp''"

definition ChunkSize :: int where "ChunkSize = 65536"
definition HeaderSize :: int where "HeaderSize = 32"
definition tagSize :: int where "tagSize = 16"
definition sealedSize :: int where "sealedSize = ChunkSize + tagSize"
definition formatVersion :: nat where "formatVersion = 1"
definition magic :: string where "magic = ''NOXF''"
definition keyInfo :: string where "keyInfo = ''nox/file/v1|''"

text \<open>\<open>hkdf.Key\<close> of a secret and an info text, and the ChaCha20-Poly1305 AEAD of a key.\<close>

record crypto =
  cr_hkdf :: "string \<Rightarrow> string \<Rightarrow> string option"
  cr_seal :: "string \<Rightarrow> string \<Rightarrow> string \<Rightarrow> string \<Rightarrow> string"
  cr_open :: "string \<Rightarrow> string \<Rightarrow> string \<Rightarrow> string \<Rightarrow> string option"

record blob_store =
  bs_key :: string
  bs_crypto :: crypto

definition blob_Open :: "crypto \<Rightarrow> string \<Rightarrow> blob_store option" where
  "blob_Open cr key = (if length key \<noteq> 32 then None else Some \<lparr>bs_key = key, bs_crypto = cr\<rparr>)"

definition cipherFor :: "blob_store \<Rightarrow> string \<Rightarrow> string fs" where
  "cipherFor st fid =
     (case cr_hkdf (bs_crypto st) (bs_key st) (keyInfo @ fid) of
        None \<Rightarrow> fail ErrKey
      | Some key \<Rightarrow> if length key = 32 then ret key else fail ErrKey)"

definition PutUint :: "nat \<Rightarrow> nat \<Rightarrow> string" where
  "PutUint w n = map (\<lambda>k. byte_of (n div 256 ^ (w - 1 - k) mod 256)) [0..<w]"

definition nonce :: "int \<Rightarrow> string" where
  "nonce i = replicate 4 (byte_of 0) @ PutUint 8 (nat (i mod 2 ^ 64))"

definition aad :: "int \<Rightarrow> bool \<Rightarrow> string" where
  "aad i last0 = PutUint 8 (nat (i mod 2 ^ 64)) @ [byte_of (if last0 then 1 else 0)]"

definition header :: string where
  "header = magic @ [byte_of formatVersion] @ replicate 3 (byte_of 0) @ PutUint 4 (nat ChunkSize) @ replicate 20 (byte_of 0)"

definition validHeader :: "string \<Rightarrow> bool" where
  "validHeader h \<longleftrightarrow> int (length h) = HeaderSize \<and> h = header"

definition CipherLen :: "int \<Rightarrow> int" where
  "CipherLen plain =
     (let n = wrap64 (HeaderSize + wrap64 (plain sdiv ChunkSize * sealedSize));
          rem = plain smod ChunkSize
      in if rem > 0 then wrap64 (n + (rem + tagSize)) else n)"

definition plainLen :: "int \<Rightarrow> int" where
  "plainLen n =
     (if n < HeaderSize then 0
      else
        let m = n - HeaderSize;
            p = m sdiv sealedSize * ChunkSize;
            rem = m smod sealedSize
        in if rem > tagSize then p + (rem - tagSize) else p)"

definition durable :: "int \<Rightarrow> int \<Rightarrow> int" where
  "durable synced held = (if synced = held then held else min synced held sdiv ChunkSize * ChunkSize)"

section \<open>The record of what is durable\<close>

text \<open>\<open>strconv.ParseInt(s, 10, 64)\<close> and \<open>FormatInt\<close>.\<close>

definition ParseInt64 :: "string \<Rightarrow> int option" where
  "ParseInt64 s =
     (let (neg, ds) = (case s of [] \<Rightarrow> (False, s)
            | c # cs \<Rightarrow> if c = CHR ''-'' then (True, cs) else if c = CHR ''+'' then (False, cs) else (False, s));
          n = (if neg then - int (digits_value ds) else int (digits_value ds))
      in if ds \<noteq> '''' \<and> list_all is_digit ds \<and> - (2 ^ 63) \<le> n \<and> n < 2 ^ 63 then Some n else None)"

definition FormatInt :: "int \<Rightarrow> string" where
  "FormatInt n = (if n < 0 then ''-'' @ decimal (nat (- n)) else decimal (nat n))"

text \<open>What a record's text vouches for.\<close>

definition vouches :: "string \<Rightarrow> int" where
  "vouches text0 = (case ParseInt64 (TrimSpace text0) of None \<Rightarrow> 0 | Some n \<Rightarrow> if n < 0 then 0 else n)"

definition readSynced :: "string \<Rightarrow> int fs" where
  "readSynced fid = andThen (attempt (fs_ReadFile (fid @ syncedSuffix))) (\<lambda>r.
     case r of
       Inl e \<Rightarrow> if e = ErrNotExist then ret 0 else fail e
     | Inr text0 \<Rightarrow> ret (vouches text0))"

definition writeSynced :: "string \<Rightarrow> int \<Rightarrow> unit fs" where
  "writeSynced fid n =
     (let tmp = fid @ syncedSuffix @ tmpSuffix
      in andThen (fs_OpenFile tmp True) (\<lambda>_.
         andThen (fs_Write tmp 0 (FormatInt n)) (\<lambda>(_, whole).
         if \<not> whole then ignoring (fs_Close tmp) (fail ErrDisk)
         else andThen (attempt (fs_Sync tmp)) (\<lambda>r.
           case r of
             Inl e \<Rightarrow> ignoring (fs_Close tmp) (fail e)
           | Inr _ \<Rightarrow>
               andThen (fs_Close tmp) (\<lambda>_. fs_Rename tmp (fid @ syncedSuffix))))))"

definition removeIfPresent :: "string \<Rightarrow> unit fs" where
  "removeIfPresent name = andThen (attempt (fs_Remove name)) (\<lambda>r.
     case r of
       Inl e \<Rightarrow> if e \<noteq> ErrNotExist then fail e else ret ()
     | Inr _ \<Rightarrow> ret ())"

section \<open>Uploads\<close>

record Upload =
  up_id :: string
  up_pos :: nat
  up_key :: string
  up_size :: int
  up_sealed :: int
  up_synced :: int
  up_tail :: string

definition Received :: "string \<Rightarrow> int fs" where
  "Received fid = andThen (readSynced fid) (\<lambda>synced.
     andThen (attempt (fs_Open (fid @ partSuffix))) (\<lambda>r.
     case r of
       Inl e \<Rightarrow> if e = ErrNotExist then ret 0 else fail e
     | Inr _ \<Rightarrow>
         andThen (fs_Stat (fid @ partSuffix)) (\<lambda>n.
         andThen (attempt (fs_ReadAt (fid @ partSuffix) 0 (nat HeaderSize))) (\<lambda>h.
         case h of
           Inl _ \<Rightarrow> ret 0
         | Inr bs \<Rightarrow> if \<not> validHeader bs then ret 0 else ret (durable synced (plainLen n))))))"

text \<open>The cut of the part at the offset an upload starts from, and where writing goes on.\<close>

definition cut_part :: "string \<Rightarrow> int \<Rightarrow> nat fs" where
  "cut_part fid offset =
     (let part = fid @ partSuffix; closing = (\<lambda>e. ignoring (fs_Close part) (fail e))
      in if offset = 0 then
           andThen (attempt (fs_Truncate part 0)) (\<lambda>r.
           case r of
             Inl e \<Rightarrow> closing e
           | Inr _ \<Rightarrow>
               andThen (fs_Write part 0 header) (\<lambda>(n, whole).
               if \<not> whole then closing ErrDisk else ret n))
         else
           let end0 = nat (CipherLen offset)
           in andThen (attempt (fs_Truncate part end0)) (\<lambda>r.
              case r of
                Inl e \<Rightarrow> closing e
              | Inr _ \<Rightarrow>
                  andThen (attempt (fs_Seek part)) (\<lambda>r.
                  case r of Inl e \<Rightarrow> closing e | Inr _ \<Rightarrow> ret end0)))"

text \<open>The end of \<open>Resume\<close>, once the record is no higher than the offset.\<close>

definition open_part :: "blob_store \<Rightarrow> string \<Rightarrow> int \<Rightarrow> int \<Rightarrow> int \<Rightarrow> Upload fs" where
  "open_part st fid offset size0 synced =
     andThen (cipherFor st fid) (\<lambda>key.
     andThen (fs_OpenFile (fid @ partSuffix) False) (\<lambda>_.
     andThen (cut_part fid offset) (\<lambda>pos.
     ret \<lparr>up_id = fid, up_pos = pos, up_key = key, up_size = size0, up_sealed = offset,
          up_synced = synced, up_tail = ''''\<rparr>)))"

definition Resume :: "blob_store \<Rightarrow> string \<Rightarrow> int \<Rightarrow> int \<Rightarrow> Upload fs" where
  "Resume st fid offset size0 =
     (if size0 < 1 \<or> offset < 0 \<or> offset > size0 then fail ErrRange
      else if offset smod ChunkSize \<noteq> 0 \<and> offset \<noteq> size0 then fail ErrShortPart
      else
        andThen (Received fid) (\<lambda>received.
        if received < offset then fail ErrShortPart
        else
          andThen (readSynced fid) (\<lambda>synced.
          if synced > offset then andThen (writeSynced fid offset) (\<lambda>_. open_part st fid offset size0 offset)
          else open_part st fid offset size0 synced)))"

definition Create :: "blob_store \<Rightarrow> string \<Rightarrow> int \<Rightarrow> Upload fs" where
  "Create st fid size0 = Resume st fid 0 size0"

definition up_part :: "Upload \<Rightarrow> string" where
  "up_part u = up_id u @ partSuffix"

definition up_Size :: "Upload \<Rightarrow> int" where
  "up_Size u = up_sealed u + int (length (up_tail u))"

definition up_Durable :: "Upload \<Rightarrow> int" where
  "up_Durable u = up_synced u"

definition sealTail :: "blob_store \<Rightarrow> Upload \<Rightarrow> (Upload \<times> blob_err option) fs" where
  "sealTail st u =
     (let i = up_sealed u sdiv ChunkSize;
          last0 = (up_Size u = up_size u);
          out = cr_seal (bs_crypto st) (up_key u) (nonce i) (up_tail u) (aad i last0)
      in andThen (fs_Write (up_part u) (up_pos u) out) (\<lambda>(n, whole).
         let u' = u\<lparr>up_pos := up_pos u + n\<rparr>
         in if \<not> whole then ret (u', Some ErrDisk)
            else ret (u'\<lparr>up_sealed := up_Size u, up_tail := ''''\<rparr>, None)))"

lemma sealTail_empties: "sealTail st u d = (Ret (u', None), d') \<Longrightarrow> up_tail u' = ''''"
  by (auto simp: sealTail_def andThen_def ret_def Let_def fs_Write_def split: prod.splits list.splits fate.splits if_splits)

lemma write_takes:
  fixes t s z :: int
  assumes "\<not> s + t \<ge> z" "\<not> min (65536 - t) (z - s - t) < 0" "0 < l"
  shows "0 < nat (min (min (65536 - t) (z - s - t)) (int l)) \<or> t = 65536"
  using assms by (auto simp: min_def)

text \<open>
  The loop of \<open>Write\<close>: \<open>n\<close> bytes are in so far. A negative slice bound panics. A full chunk in
  memory is sealed before more is taken.
\<close>

function blob_Write :: "blob_store \<Rightarrow> Upload \<Rightarrow> string \<Rightarrow> nat \<Rightarrow> (nat \<times> Upload \<times> blob_err option) fs" where
  "blob_Write st u p n d =
     (if p = [] then (Ret (n, u, None), d)
      else if up_Size u \<ge> up_size u then (Ret (n, u, Some errPastTheEnd), d)
      else
        let want = min (ChunkSize - int (length (up_tail u))) (up_size u - up_sealed u - int (length (up_tail u)));
            k = nat (min want (int (length p)));
            u1 = u\<lparr>up_tail := up_tail u @ take k p\<rparr>
        in if want < 0 then (Err errPanic, d)
           else if int (length (up_tail u1)) = ChunkSize \<or> up_Size u1 = up_size u1 then
             (case sealTail st u1 d of
                (Ret (u2, None), d') \<Rightarrow> blob_Write st u2 (drop k p) (n + k) d'
              | (Ret (u2, Some e), d') \<Rightarrow> (Ret (n + k, u2, Some e), d')
              | (Err e, d') \<Rightarrow> (Err e, d')
              | (Halt, d') \<Rightarrow> (Halt, d'))
           else blob_Write st u1 (drop k p) (n + k) d)"
  by pat_completeness auto

termination
proof (relation "measure (\<lambda>(st, u, p, n, d). 2 * length p + (if length (up_tail u) = 65536 then 1 else 0))",
    simp, goal_cases)
  case (1 st u p n d want k u1 out d' r u2)
  have "0 < k \<or> length (up_tail u) = 65536"
    using write_takes [of "up_sealed u" "int (length (up_tail u))" "up_size u" "length p"] 1 by (auto simp: up_Size_def ChunkSize_def)
  moreover have "up_tail u2 = ''''" using 1 by (auto dest: sealTail_empties [OF sym])
  ultimately show ?case using 1(1) by auto
next
  case (2 st u p n d want k u1)
  have "0 < k \<or> length (up_tail u) = 65536"
    using write_takes [of "up_sealed u" "int (length (up_tail u))" "up_size u" "length p"] 2 by (auto simp: up_Size_def ChunkSize_def)
  moreover have u1: "up_tail u1 = up_tail u @ take k p" using 2(3-5) by simp
  have "int (length (up_tail u1)) \<noteq> ChunkSize" "p \<noteq> []" using 2 by blast+
  then have "length (up_tail u1) \<noteq> 65536" "p \<noteq> []" by (auto simp: ChunkSize_def)
  moreover from this have "length (up_tail u) \<noteq> 65536 \<or> 0 < k" using u1 by auto
  ultimately show ?case by auto
qed

declare blob_Write.simps [simp del]

definition Checkpoint :: "Upload \<Rightarrow> (Upload \<times> blob_err option) fs" where
  "Checkpoint u =
     (if up_sealed u = up_synced u then ret (u, None)
      else
        andThen (attempt (fs_Sync (up_part u))) (\<lambda>r.
        case r of
          Inl e \<Rightarrow> ret (u, Some e)
        | Inr _ \<Rightarrow>
            andThen (attempt (writeSynced (up_id u) (up_sealed u))) (\<lambda>r.
            case r of
              Inl e \<Rightarrow> ret (u, Some e)
            | Inr _ \<Rightarrow> ret (u\<lparr>up_synced := up_sealed u\<rparr>, None))))"

text \<open>Closing at the end of a request: its error counts only when there was none before.\<close>

definition closing :: "Upload \<Rightarrow> blob_err option \<Rightarrow> (Upload \<times> blob_err option) fs" where
  "closing u err =
     andThen (attempt (fs_Close (up_part u))) (\<lambda>r.
     ret (u, case r of Inl e \<Rightarrow> if err = None then Some e else err | Inr _ \<Rightarrow> err))"

definition Suspend :: "Upload \<Rightarrow> (Upload \<times> blob_err option) fs" where
  "Suspend u = andThen (Checkpoint u) (\<lambda>(u1, err). closing (u1\<lparr>up_tail := ''''\<rparr>) err)"

definition Rollback :: "Upload \<Rightarrow> int \<Rightarrow> (Upload \<times> blob_err option) fs" where
  "Rollback u offset =
     andThen (if up_synced u > offset
              then andThen (attempt (writeSynced (up_id u) offset)) (\<lambda>r.
                     case r of Inl e \<Rightarrow> ret (u, Some e) | Inr _ \<Rightarrow> ret (u\<lparr>up_synced := offset\<rparr>, None))
              else ret (u, None)) (\<lambda>(u1, err).
     andThen (if err = None
              then andThen (attempt (fs_Truncate (up_part u1) (nat (CipherLen offset)))) (\<lambda>r.
                     case r of Inl e \<Rightarrow> ret (u1, Some e) | Inr _ \<Rightarrow> ret (u1\<lparr>up_sealed := offset\<rparr>, None))
              else ret (u1, err)) (\<lambda>(u2, err).
     closing (u2\<lparr>up_tail := ''''\<rparr>) err))"

definition Finalize :: "Upload \<Rightarrow> unit fs" where
  "Finalize u =
     (if up_sealed u \<noteq> up_size u \<or> up_tail u \<noteq> '''' then ignoring (fs_Close (up_part u)) (fail ErrUnfinished)
      else
        andThen (attempt (fs_Sync (up_part u))) (\<lambda>r.
        case r of
          Inl e \<Rightarrow> ignoring (fs_Close (up_part u)) (fail e)
        | Inr _ \<Rightarrow>
            andThen (fs_Close (up_part u)) (\<lambda>_.
            andThen (fs_Rename (up_part u) (up_id u)) (\<lambda>_.
            andThen (removeIfPresent (up_id u @ syncedSuffix)) (\<lambda>_.
            removeIfPresent (up_id u @ syncedSuffix @ tmpSuffix))))))"

definition Abort :: "Upload \<Rightarrow> unit fs" where
  "Abort u =
     ignoring (fs_Close (up_part u)) (
     ignoring (removeIfPresent (up_part u)) (
     ignoring (removeIfPresent (up_id u @ syncedSuffix)) (
     ignoring (removeIfPresent (up_id u @ syncedSuffix @ tmpSuffix)) (ret ()))))"

section \<open>Reading a finished file\<close>

record Reader =
  rd_id :: string
  rd_key :: string
  rd_size :: int
  rd_pos :: int
  rd_chunk :: int
  rd_plain :: string

definition reader :: "blob_store \<Rightarrow> string \<Rightarrow> int \<Rightarrow> Reader fs" where
  "reader st fid size0 =
     andThen (fs_Stat fid) (\<lambda>n.
     if size0 < 1 \<or> n \<noteq> CipherLen size0 then fail ErrCorrupt
     else
       andThen (attempt (fs_ReadAt fid 0 (nat HeaderSize))) (\<lambda>h.
       case h of
         Inl _ \<Rightarrow> fail ErrCorrupt
       | Inr bs \<Rightarrow>
           if \<not> validHeader bs then fail ErrCorrupt
           else andThen (cipherFor st fid) (\<lambda>key.
             ret \<lparr>rd_id = fid, rd_key = key, rd_size = size0, rd_pos = 0, rd_chunk = - 1, rd_plain = ''''\<rparr>)))"

definition Store_Open :: "blob_store \<Rightarrow> string \<Rightarrow> int \<Rightarrow> Reader fs" where
  "Store_Open st fid size0 =
     andThen (fs_Open fid) (\<lambda>_.
     andThen (attempt (reader st fid size0)) (\<lambda>r.
     case r of Inl e \<Rightarrow> ignoring (fs_Close fid) (fail e) | Inr rd \<Rightarrow> ret rd))"

definition load :: "blob_store \<Rightarrow> Reader \<Rightarrow> int \<Rightarrow> (Reader \<times> blob_err option) fs" where
  "load st r i =
     (let start = i * ChunkSize; len = min ChunkSize (rd_size r - start)
      in andThen (attempt (fs_ReadAt (rd_id r) (nat (HeaderSize + i * sealedSize)) (nat (len + tagSize)))) (\<lambda>x.
         case x of
           Inl e \<Rightarrow> ret (r, Some e)
         | Inr ct \<Rightarrow>
             (case cr_open (bs_crypto st) (rd_key r) (nonce i) ct (aad i (start + len = rd_size r)) of
                None \<Rightarrow> ret (r\<lparr>rd_chunk := - 1\<rparr>, Some ErrCorrupt)
              | Some p \<Rightarrow> ret (r\<lparr>rd_plain := p, rd_chunk := i\<rparr>, None))))"

text \<open>\<open>Read\<close> into a buffer of \<open>n\<close> bytes: what was copied, and the error.\<close>

definition Read :: "blob_store \<Rightarrow> Reader \<Rightarrow> nat \<Rightarrow> (Reader \<times> string \<times> blob_err option) fs" where
  "Read st r n =
     (if rd_pos r \<ge> rd_size r then ret (r, '''', Some errEOF)
      else
        let i = rd_pos r sdiv ChunkSize
        in andThen (if i \<noteq> rd_chunk r then load st r i else ret (r, None)) (\<lambda>(r1, err).
           if err \<noteq> None then ret (r1, '''', err)
           else
             let bs = take n (drop (nat (rd_pos r1 - i * ChunkSize)) (rd_plain r1))
             in ret (r1\<lparr>rd_pos := rd_pos r1 + int (length bs)\<rparr>, bs, None)))"

definition Seek :: "Reader \<Rightarrow> int \<Rightarrow> int \<Rightarrow> (Reader \<times> int) option" where
  "Seek r offset whence =
     (if whence \<notin> {0, 1, 2} then None
      else
        let at = (if whence = 0 then offset else if whence = 1 then wrap64 (rd_pos r + offset) else wrap64 (rd_size r + offset))
        in if at < 0 then None else Some (r\<lparr>rd_pos := at\<rparr>, at))"

definition Store_Size :: "string \<Rightarrow> int fs" where
  "Store_Size fid =
     andThen (fs_Stat fid) (\<lambda>n.
     let plain = plainLen n
     in if plain < 1 \<or> CipherLen plain \<noteq> n then fail ErrCorrupt else ret plain)"

definition Exists :: "string \<Rightarrow> bool fs" where
  "Exists fid = andThen (attempt (fs_Stat fid)) (\<lambda>r. ret (case r of Inl _ \<Rightarrow> False | Inr _ \<Rightarrow> True))"

definition OpenSealed :: "string \<Rightarrow> string fs" where
  "OpenSealed fid = andThen (fs_Open fid) (\<lambda>_. ret fid)"

definition Store_Remove :: "string \<Rightarrow> unit fs" where
  "Store_Remove fid =
     andThen (removeIfPresent fid) (\<lambda>_.
     andThen (removeIfPresent (fid @ partSuffix)) (\<lambda>_.
     andThen (removeIfPresent (fid @ syncedSuffix)) (\<lambda>_.
     removeIfPresent (fid @ syncedSuffix @ tmpSuffix))))"

end
