(* ===== verification/Transfers.thy ===== *)
theory Transfers
  imports Session Blob
begin

text \<open>
  \<open>internal/server/files.go\<close> and \<open>writers.go\<close>: the HTTP side of file transfers. A request runs in
  its own goroutine: \<open>pe_wait\<close> is what the other sessions do to the server while it waits for
  the previous writer of its file, \<open>pe_while\<close> what they do while its body arrives. The files of
  an id belong to one request at a time, so its calls to the disk are not interleaved with
  another's on the same names. Log lines are left out.
\<close>

section \<open>The body of a request\<close>

text \<open>
  What the reads of a body return, in order, and how it ends; reads after the end return nothing
  more. \<open>limited\<close> is \<open>http.MaxBytesReader\<close>.
\<close>

datatype read_end = EOF | MaxBytesError | errSuperseded | DeadlineExceeded | BrokenOff

record body =
  bd_reads :: "string list"
  bd_end :: read_end
  bd_ContentLength :: int

fun limited :: "int \<Rightarrow> string list \<Rightarrow> read_end \<Rightarrow> string list \<times> read_end" where
  "limited n [] e = ([], e)"
| "limited n (b # bs) e =
     (if int (length b) \<le> n then (let (cs, e') = limited (n - int (length b)) bs e in (b # cs, e'))
      else ([take (nat n) b], MaxBytesError))"

section \<open>The reader that measures silence\<close>

record stallReader =
  sr_stopped :: bool
  sr_eof :: bool
  sr_finished :: bool
  sr_renew :: bool

definition newStallReader :: stallReader where
  "newStallReader = \<lparr>sr_stopped = False, sr_eof = False, sr_finished = False, sr_renew = True\<rparr>"

definition stall_interrupt :: "bool \<Rightarrow> stallReader \<Rightarrow> stallReader" where
  "stall_interrupt deadline_ok r =
     (if sr_finished r then r
      else
        let r' = r\<lparr>sr_stopped := True\<rparr>
        in if sr_eof r then r' else if sr_renew r \<and> \<not> deadline_ok then r'\<lparr>sr_renew := False\<rparr> else r')"

definition stall_finish :: "stallReader \<Rightarrow> stallReader" where
  "stall_finish r = r\<lparr>sr_finished := True\<rparr>"

text \<open>
  One \<open>Read\<close>: \<open>res0\<close> is what the connection answers, \<open>during\<close> what reaches the reader while it
  waits for that answer with its lock released.
\<close>

definition stall_Read :: "bool \<Rightarrow> (stallReader \<Rightarrow> stallReader) \<Rightarrow> string \<times> read_end option \<Rightarrow> stallReader
    \<Rightarrow> (string \<times> read_end option) \<times> stallReader" where
  "stall_Read deadline_ok during res0 r =
     (if sr_stopped r then (('''', Some errSuperseded), r)
      else
        let r1 = during (if sr_renew r \<and> \<not> deadline_ok then r\<lparr>sr_renew := False\<rparr> else r)
        in case snd res0 of
             None \<Rightarrow> ((fst res0, None), r1)
           | Some e \<Rightarrow>
               if e = EOF then ((fst res0, Some EOF), r1\<lparr>sr_eof := True\<rparr>)
               else if sr_stopped r1 then ((fst res0, Some errSuperseded), r1)
               else ((fst res0, Some e), r1))"

section \<open>One writer for each file\<close>

text \<open>Writers are numbered; \<open>uw_active\<close> says who holds a file.\<close>

record uploadWriters =
  uw_active :: "string \<Rightarrow> nat option"

definition newUploadWriters :: uploadWriters where
  "newUploadWriters = \<lparr>uw_active = (\<lambda>_. None)\<rparr>"

text \<open>One turn of the loop of \<open>take\<close>: \<open>None\<close> when the caller has the file, otherwise whom it interrupts and waits for.\<close>

definition take_turn :: "string \<Rightarrow> nat \<Rightarrow> uploadWriters \<Rightarrow> nat option \<times> uploadWriters" where
  "take_turn fileID me u =
     (case uw_active u fileID of
        None \<Rightarrow> (None, u\<lparr>uw_active := (uw_active u)(fileID := Some me)\<rparr>)
      | Some prev \<Rightarrow> (Some prev, u))"

definition release :: "string \<Rightarrow> nat \<Rightarrow> uploadWriters \<Rightarrow> uploadWriters" where
  "release fileID me u =
     (if uw_active u fileID = Some me then u\<lparr>uw_active := (uw_active u)(fileID := None)\<rparr> else u)"

section \<open>Receiving\<close>

fun receive :: "blob_store \<Rightarrow> int \<Rightarrow> Upload \<Rightarrow> string list \<Rightarrow> read_end \<Rightarrow> int \<Rightarrow> nat
    \<Rightarrow> (nat \<times> Upload \<times> read_end option \<times> blob_err option) fs" where
  "receive st checkpointBytes u [] e since n = ret (n, u, if e = EOF then None else Some e, None)"
| "receive st checkpointBytes u (b # bs) e since n =
     (if b = '''' then receive st checkpointBytes u bs e since n
      else
        andThen (blob_Write st u b 0) (\<lambda>(k, u1, werr).
        case werr of
          Some w \<Rightarrow> ret (n + k, u1, None, Some w)
        | None \<Rightarrow>
            if since + int k \<ge> checkpointBytes
            then andThen (Checkpoint u1) (\<lambda>(u2, err).
              case err of
                Some w \<Rightarrow> ret (n + k, u2, None, Some w)
              | None \<Rightarrow> receive st checkpointBytes u2 bs e 0 (n + k))
            else receive st checkpointBytes u1 bs e (since + int k) (n + k)))"

text \<open>How a PUT ends before the row is touched: an answer, or the commit of a whole file.\<close>

datatype put_end = Answered int | Whole

fun answerBroken :: "read_end \<Rightarrow> int" where
  "answerBroken e = (if e = errSuperseded then 409 else 408)"

definition blob_finished :: "string \<Rightarrow> int \<Rightarrow> bool fs" where
  "blob_finished fileID size0 = andThen (attempt (Store_Size fileID)) (\<lambda>r. ret (r = Inr size0))"

definition putFinished :: "int \<Rightarrow> int \<Rightarrow> body \<Rightarrow> bool \<Rightarrow> put_end" where
  "putFinished offset size0 b committed =
     (if offset < size0 then Answered 404
      else if bd_ContentLength b < 0 \<and> concat (bd_reads b) \<noteq> '''' then Answered 413
      else if bd_ContentLength b < 0 \<and> bd_end b \<noteq> EOF then Answered (answerBroken (bd_end b))
      else if committed then Answered 204
      else Whole)"

definition put_receive :: "blob_store \<Rightarrow> int \<Rightarrow> string \<Rightarrow> int \<Rightarrow> int \<Rightarrow> body \<Rightarrow> put_end fs" where
  "put_receive st checkpointBytes fileID offset size0 b =
     andThen (attempt (Resume st fileID offset size0)) (\<lambda>r.
     case r of
       Inl e \<Rightarrow> ret (Answered (if e = ErrShortPart then 404 else 500))
     | Inr up \<Rightarrow>
         let (reads, e) = limited (size0 - offset) (bd_reads b) (bd_end b)
         in andThen (receive st checkpointBytes up reads e 0 0) (\<lambda>(n, u, readErr, writeErr).
            if writeErr \<noteq> None then
              andThen (Rollback u (up_Durable u)) (\<lambda>(u1, err).
              if err \<noteq> None then andThen (Abort u1) (\<lambda>_. ret (Answered 500)) else ret (Answered 500))
            else if readErr = Some MaxBytesError then
              andThen (Rollback u offset) (\<lambda>_. ret (Answered 413))
            else case readErr of
                Some e \<Rightarrow> andThen (Suspend u) (\<lambda>_. ret (Answered (answerBroken e)))
              | None \<Rightarrow>
                  if int n < size0 - offset then andThen (Suspend u) (\<lambda>_. ret (Answered 400))
                  else andThen (attempt (Finalize u)) (\<lambda>r.
                    ret (case r of Inl _ \<Rightarrow> Answered 500 | Inr _ \<Rightarrow> Whole))))"

definition put_bytes :: "blob_store \<Rightarrow> int \<Rightarrow> string \<Rightarrow> int \<Rightarrow> int \<Rightarrow> bool \<Rightarrow> body \<Rightarrow> put_end fs" where
  "put_bytes st checkpointBytes fileID offset size0 uploaded b =
     andThen (if uploaded then ret True else blob_finished fileID size0) (\<lambda>whole.
     if whole then ret (putFinished offset size0 b uploaded)
     else put_receive st checkpointBytes fileID offset size0 b)"

section \<open>Requests\<close>

text \<open>A status, whether the answer ends the connection, or the file that is served.\<close>

datatype answer = Status int bool | Serve Reader string

definition untrackTransfer :: "nat \<Rightarrow> server \<Rightarrow> server" where
  "untrackTransfer t s = s\<lparr>sv_transfers := filter (\<lambda>(t', _). t' \<noteq> t) (sv_transfers s)\<rparr>"

definition admitTransfer :: "faults \<Rightarrow> nat \<Rightarrow> string option \<Rightarrow> server \<Rightarrow> (answer + unit) \<times> server" where
  "admitTransfer flt t conn s =
     (case conn of
        None \<Rightarrow> (Inl (Status 401 True), s)
      | Some key \<Rightarrow>
          let s1 = trackTransfer t key s
          in case DeviceOwner flt key (sv_db s1) of
               Inl _ \<Rightarrow> (Inl (Status 500 False), untrackTransfer t s1)
             | Inr (_, paired) \<Rightarrow>
                 if \<not> paired then (Inl (Status 401 True), untrackTransfer t s1) else (Inr (), s1))"

definition commitUpload :: "faults \<Rightarrow> string \<Rightarrow> server \<Rightarrow> answer \<times> server" where
  "commitUpload flt fileID s =
     (case MarkUploaded flt fileID (sv_db s) of
        (Inl e, d) \<Rightarrow> (Status (if e = ErrFileNotFound then 404 else 500) False, s\<lparr>sv_db := d\<rparr>)
      | (Inr _, d) \<Rightarrow> (Status 204 False, s\<lparr>sv_db := d\<rparr>))"

record put_env =
  pe_flt :: faults
  pe_flt2 :: faults
  pe_flt3 :: faults
  pe_now :: int
  pe_took :: bool
  pe_wait :: "server \<Rightarrow> server"
  pe_while :: "server \<Rightarrow> server"
  pe_checkpointBytes :: int

definition handlePutFile :: "blob_store \<Rightarrow> put_env \<Rightarrow> nat \<Rightarrow> string option \<Rightarrow> string \<Rightarrow> body \<Rightarrow> server \<times> disk
    \<Rightarrow> answer outcome \<times> server \<times> disk" where
  "handlePutFile st env t conn token b = (\<lambda>(s, d).
     case admitTransfer (pe_flt env) t conn s of
       (Inl a, s1) \<Rightarrow> (Ret a, s1, d)
     | (Inr _, s1) \<Rightarrow>
         let (granted, ts) = consume token opUpload (pe_now env) (sv_tokens s1);
             s2 = s1\<lparr>sv_tokens := ts\<rparr>;
             refuse = (\<lambda>code s. (Ret (Status code False), untrackTransfer t s, d))
         in case granted of
              None \<Rightarrow> refuse 404 s2
            | Some (fileID, offset) \<Rightarrow>
                case FileByID (pe_flt env) fileID (sv_db s2) of
                  Inl _ \<Rightarrow> refuse 404 s2
                | Inr info \<Rightarrow>
                    let size0 = att_Size (fi_Attachment info)
                    in if offset > size0 then refuse 404 s2
                       else if bd_ContentLength b > size0 - offset then refuse 413 s2
                       else if \<not> pe_took env then refuse 409 (pe_wait env s2)
                       else
                         let s3 = pe_wait env s2
                         in case FileByID (pe_flt2 env) fileID (sv_db s3) of
                              Inl _ \<Rightarrow> refuse 404 s3
                            | Inr info2 \<Rightarrow>
                                case put_bytes st (pe_checkpointBytes env) fileID offset size0 (fi_Uploaded info2) b d of
                                  (Ret (Answered code), d') \<Rightarrow> (Ret (Status code False), untrackTransfer t (pe_while env s3), d')
                                | (Ret Whole, d') \<Rightarrow>
                                    let (a, s4) = commitUpload (pe_flt3 env) fileID (pe_while env s3)
                                    in (Ret a, untrackTransfer t s4, d')
                                | (Err e, d') \<Rightarrow> (Err e, untrackTransfer t (pe_while env s3), d')
                                | (Halt, d') \<Rightarrow> (Halt, pe_while env s3, d'))"

definition handleGetFile :: "blob_store \<Rightarrow> faults \<Rightarrow> int \<Rightarrow> nat \<Rightarrow> string option \<Rightarrow> bool \<Rightarrow> string \<Rightarrow> server \<times> disk
    \<Rightarrow> answer outcome \<times> server \<times> disk" where
  "handleGetFile st flt now t conn head token = (\<lambda>(s, d).
     case admitTransfer flt t conn s of
       (Inl a, s1) \<Rightarrow> (Ret a, s1, d)
     | (Inr _, s1) \<Rightarrow>
         if head then (Ret (Status 405 False), untrackTransfer t s1, d)
         else
           let (granted, ts) = consume token opDownload now (sv_tokens s1);
               s2 = s1\<lparr>sv_tokens := ts\<rparr>;
               refuse = (Ret (Status 404 False), untrackTransfer t s2, d)
           in case granted of
                None \<Rightarrow> refuse
              | Some (fileID, _) \<Rightarrow>
                  case FileByID flt fileID (sv_db s2) of
                    Inl _ \<Rightarrow> refuse
                  | Inr info \<Rightarrow>
                      if \<not> fi_Uploaded info then refuse
                      else
                        case Store_Open st fileID (att_Size (fi_Attachment info)) d of
                          (Ret r, d') \<Rightarrow> (Ret (Serve r (att_Mime (fi_Attachment info))), untrackTransfer t s2, d')
                        | (Err _, d') \<Rightarrow> (Ret (Status 404 False), untrackTransfer t s2, d')
                        | (Halt, d') \<Rightarrow> (Halt, s2, d'))"

section \<open>The orphan sweep\<close>

fun remove_blobs :: "string list \<Rightarrow> unit fs" where
  "remove_blobs [] = ret ()"
| "remove_blobs (i # ids) = andThen (Store_Remove i) (\<lambda>_. remove_blobs ids)"

definition sweepOrphans :: "faults \<Rightarrow> int \<Rightarrow> server \<times> disk \<Rightarrow> bool outcome \<times> server \<times> disk" where
  "sweepOrphans flt cutoff = (\<lambda>(s, d).
     case OrphanFiles flt cutoff (sv_db s) of
       Inl _ \<Rightarrow> (Ret False, s, d)
     | Inr ids \<Rightarrow>
         (case remove_blobs ids d of
            (Ret _, d') \<Rightarrow>
              (case DeleteFiles flt ids (sv_db s) of
                 (Inl _, db') \<Rightarrow> (Ret False, s\<lparr>sv_db := db'\<rparr>, d')
               | (Inr _, db') \<Rightarrow> (Ret True, s\<lparr>sv_db := db'\<rparr>, d'))
          | (Err _, d') \<Rightarrow> (Ret False, s, d')
          | (Halt, d') \<Rightarrow> (Halt, s, d')))"

end
