(* ===== verification/Blob_Format.thy ===== *)
theory Blob_Format
  imports Blob
begin

text \<open>
  The format of a sealed file in closed form: the lengths as natural numbers, the bytes on disk of
  the first chunks of a plaintext, and what the length arithmetic of \<open>blob.go\<close> gives on
  sizes below \<open>2 ^ 62\<close>, where nothing wraps.
\<close>

section \<open>Lengths\<close>

lemma wrap64_within: "- (2 ^ 63) \<le> n \<Longrightarrow> n < 2 ^ 63 \<Longrightarrow> wrap64 n = n"
  by (simp add: wrap64_def)

lemma sdiv_nat: "0 < b \<Longrightarrow> int a sdiv int b = int (a div b)"
  by (cases "a = 0") (simp_all add: signed_divide_int_def flip: zdiv_int)

lemma smod_nat: "0 < b \<Longrightarrow> int a smod int b = int (a mod b)"
  by (cases "a = 0") (simp_all add: signed_modulo_int_def flip: zmod_int)

lemmas sizes = ChunkSize_def HeaderSize_def tagSize_def sealedSize_def

lemma chunk_div [simp]: "int a sdiv ChunkSize = int (a div 65536)" "int a smod ChunkSize = int (a mod 65536)"
  using sdiv_nat [of 65536 a] smod_nat [of 65536 a] by (simp_all add: ChunkSize_def)

lemma sealed_div [simp]: "int a sdiv sealedSize = int (a div 65552)" "int a smod sealedSize = int (a mod 65552)"
  using sdiv_nat [of 65552 a] smod_nat [of 65552 a] by (simp_all add: sizes)

definition clen :: "nat \<Rightarrow> nat" where
  "clen n = 32 + n div 65536 * 65552 + (if n mod 65536 = 0 then 0 else n mod 65536 + 16)"

lemma chunks_of:
  obtains q r where "n = q * 65536 + r" "r < (65536::nat)" "n div 65536 = q" "n mod 65536 = r"
  by (metis div_mult_mod_eq mod_less_divisor zero_less_numeral)

lemma clen_at: "r < 65536 \<Longrightarrow> clen (q * 65536 + r) = 32 + q * 65552 + (if r = 0 then 0 else r + 16)"
  by (simp add: clen_def)

lemma CipherLen_int:
  assumes "n < 2 ^ 62" shows "CipherLen (int n) = int (clen n)"
proof -
  obtain q r where n: "n = q * 65536 + r" "r < (65536::nat)" "n div 65536 = q" "n mod 65536 = r" by (rule chunks_of)
  have q: "q < 2 ^ 46" using n(1) assms by simp
  have "wrap64 (int q * 65552) = int q * 65552" "wrap64 (32 + int q * 65552) = 32 + int q * 65552"
    "wrap64 (32 + int q * 65552 + (int r + 16)) = 32 + int q * 65552 + (int r + 16)"
    using q n(2) by (simp_all add: wrap64_within)
  moreover have "int n sdiv ChunkSize = int q" "int n smod ChunkSize = int r" using n(3,4) by (simp_all del: of_nat_mod of_nat_div)
  ultimately show ?thesis using clen_at [OF n(2), of q] by (simp add: CipherLen_def Let_def n(1) [symmetric]) (simp add: sizes)
qed

lemma plainLen_at: "r < 65552 \<Longrightarrow> plainLen (int (32 + q * 65552 + r)) = int (q * 65536 + (r - 16))"
proof -
  assume r: "r < 65552"
  then have "(q * 65552 + r) div 65552 = q" "(q * 65552 + r) mod 65552 = r" by simp_all
  then have "int (q * 65552 + r) sdiv sealedSize = int q" "int (q * 65552 + r) smod sealedSize = int r" by (simp_all only: sealed_div)
  moreover have "int (32 + q * 65552 + r) - HeaderSize = int (q * 65552 + r)" "\<not> int (32 + q * 65552 + r) < HeaderSize" by (simp_all add: sizes)
  ultimately show ?thesis unfolding plainLen_def Let_def by (simp only: if_False) (simp add: sizes)
qed

lemma plainLen_short: "n < 32 \<Longrightarrow> plainLen (int n) = 0"
  by (simp add: plainLen_def sizes)

lemma disk_of:
  assumes "\<not> n < 32"
  obtains q r where "n = 32 + q * 65552 + r" "r < (65552::nat)"
proof -
  have "n = 32 + (n - 32) div 65552 * 65552 + (n - 32) mod 65552" using assms by simp
  then show ?thesis by (rule that) simp
qed

lemma plainLen_clen: "plainLen (int (clen n)) = int n"
proof -
  obtain q r where n: "n = q * 65536 + r" "r < (65536::nat)" "n div 65536 = q" "n mod 65536 = r" by (rule chunks_of)
  show ?thesis
    using plainLen_at [of "if r = 0 then 0 else r + 16" q] n(2) clen_at [OF n(2), of q] by (simp add: n(1) split: if_splits)
qed

text \<open>Which lengths on disk some size makes, and that a longer file never holds less.\<close>

lemma step_mono:
  fixes f :: "nat \<Rightarrow> nat"
  assumes "q * c + r \<le> q' * c + r'" "r < c" "r' < c" "\<And>a b. a \<le> b \<Longrightarrow> b < c \<Longrightarrow> f a \<le> f b" "\<And>a. a < c \<Longrightarrow> f a \<le> e"
  shows "q * e + f r \<le> q' * e + f r'"
proof (cases "q = q'")
  case True
  then show ?thesis using assms by simp
next
  case False
  have "\<not> q' < q"
  proof
    assume "q' < q"
    then have "(q' + 1) * c \<le> q * c" by (intro mult_le_mono1) simp
    with assms show False by simp
  qed
  with False have "(q + 1) * e \<le> q' * e" by (intro mult_le_mono1) simp
  then show ?thesis using assms(5) [OF assms(2)] by simp
qed

lemma clen_mono: "a \<le> b \<Longrightarrow> clen a \<le> clen b"
proof -
  assume ab: "a \<le> b"
  obtain q r where a: "a = q * 65536 + r" "r < (65536::nat)" "a div 65536 = q" "a mod 65536 = r" by (rule chunks_of)
  obtain q' r' where b: "b = q' * 65536 + r'" "r' < (65536::nat)" "b div 65536 = q'" "b mod 65536 = r'" by (rule chunks_of)
  have "q * 65552 + (if r = 0 then 0 else r + 16) \<le> q' * 65552 + (if r' = 0 then 0 else r' + 16)"
    by (rule step_mono [where c = 65536 and f = "\<lambda>r. if r = 0 then 0 else r + 16"]) (use ab a(1,2) b(1,2) in simp_all)
  then show ?thesis using clen_at [OF a(2), of q] clen_at [OF b(2), of q'] by (simp only: a(1) b(1))
qed

lemma plainLen_mono: "a \<le> b \<Longrightarrow> plainLen (int a) \<le> plainLen (int b)"
proof (cases "a < 32")
  case True
  then show ?thesis by (cases "b < 32") (auto simp: plainLen_short elim: disk_of simp: plainLen_at simp del: of_nat_add of_nat_mult)
next
  case False
  assume ab: "a \<le> b"
  obtain q r where a: "a = 32 + q * 65552 + r" "r < (65552::nat)" using False by (rule disk_of)
  obtain q' r' where b: "b = 32 + q' * 65552 + r'" "r' < (65552::nat)" using False ab by (meson disk_of less_le_trans not_le)
  have "q * 65536 + (r - 16) \<le> q' * 65536 + (r' - 16)"
    by (rule step_mono [where c = 65552 and f = "\<lambda>r. r - 16"]) (use ab a b in simp_all)
  then show ?thesis using plainLen_at [OF a(2), of q] plainLen_at [OF b(2), of q'] a(1) b(1) by simp
qed

section \<open>Sealed bytes\<close>

text \<open>What the AEAD promises: an opened seal is the plaintext, and a seal is sixteen bytes longer.\<close>

definition aead :: "crypto \<Rightarrow> bool" where
  "aead cr \<longleftrightarrow> (\<forall>key n p a. cr_open cr key n (cr_seal cr key n p a) a = Some p \<and> length (cr_seal cr key n p a) = length p + 16)"

definition chunk :: "string \<Rightarrow> nat \<Rightarrow> string" where
  "chunk P i = take 65536 (drop (i * 65536) P)"

definition sealed_chunk :: "crypto \<Rightarrow> string \<Rightarrow> string \<Rightarrow> nat \<Rightarrow> string" where
  "sealed_chunk cr key P i =
     cr_seal cr key (nonce (int i)) (chunk P i) (aad (int i) (i * 65536 + length (chunk P i) = length P))"

definition image :: "crypto \<Rightarrow> string \<Rightarrow> string \<Rightarrow> nat \<Rightarrow> string" where
  "image cr key P n = header @ concat (map (sealed_chunk cr key P) [0..<(n + 65535) div 65536])"

text \<open>Where a part may end: at the start of a chunk, or with the file.\<close>

definition boundary :: "string \<Rightarrow> nat \<Rightarrow> bool" where
  "boundary P n \<longleftrightarrow> n \<le> length P \<and> (n mod 65536 = 0 \<or> n = length P)"

lemma header_length [simp]: "length header = 32"
  by (simp add: header_def magic_def PutUint_def)

lemma valid_header [simp]: "validHeader header"
  by (simp add: validHeader_def sizes)

lemma sealed_chunk_length: "aead cr \<Longrightarrow> length (sealed_chunk cr key P i) = length (chunk P i) + 16"
  by (simp add: aead_def sealed_chunk_def)

lemma chunk_length: "(i + 1) * 65536 \<le> length P \<Longrightarrow> length (chunk P i) = 65536"
  by (simp add: chunk_def)

lemma full_chunks_length:
  "aead cr \<Longrightarrow> q * 65536 \<le> length P \<Longrightarrow> length (concat (map (sealed_chunk cr key P) [0..<q])) = q * 65552"
  by (induction q) (simp_all add: sealed_chunk_length chunk_length)

lemma chunks_at:
  fixes r :: nat
  assumes "r < 65536"
  shows "(q * 65536 + r + 65535) div 65536 = (if r = 0 then q else Suc q)"
proof (cases "r = 0")
  case False
  then have "q * 65536 + r + 65535 = Suc q * 65536 + (r - 1)" by simp
  also have "\<dots> div 65536 = Suc q" using assms by (simp del: mult_Suc)
  finally show ?thesis using False by simp
qed simp

lemma image_length:
  assumes "aead cr" "boundary P n" shows "length (image cr key P n) = clen n"
proof -
  obtain q r where n: "n = q * 65536 + r" "r < (65536::nat)" "n div 65536 = q" "n mod 65536 = r" by (rule chunks_of)
  have q: "q * 65536 \<le> length P" using assms(2) n(1) by (simp add: boundary_def)
  have "length (concat (map (sealed_chunk cr key P) [0..<if r = 0 then q else Suc q])) = q * 65552 + (if r = 0 then 0 else r + 16)"
  proof (cases "r = 0")
    case False
    then have "length P = n" using assms(2) n(4) by (simp add: boundary_def)
    then have "length (chunk P q) = r" using n(1,2) by (simp add: chunk_def)
    then show ?thesis using False full_chunks_length [OF assms(1) q] by (simp add: sealed_chunk_length [OF assms(1)])
  qed (simp add: full_chunks_length [OF assms(1) q])
  then show ?thesis using clen_at [OF n(2), of q] chunks_at [OF n(2), of q] by (simp add: image_def n(1))
qed

lemma image_take:
  assumes "aead cr" "boundary P m" "m \<le> n"
  shows "take (clen m) (image cr key P n) = image cr key P m"
proof -
  have "(m + 65535) div 65536 \<le> (n + 65535) div 65536" using assms(3) by (simp add: div_le_mono)
  then obtain k where "[0..<(n + 65535) div 65536] = [0..<(m + 65535) div 65536] @ [(m + 65535) div 65536..<(m + 65535) div 65536 + k]"
    by (metis le_Suc_ex upt_add_eq_append zero_le)
  then have "\<exists>xs. image cr key P n = image cr key P m @ xs" by (simp add: image_def)
  then show ?thesis using image_length [OF assms(1,2), of key] by (metis append_eq_conv_conj)
qed

lemma image_0 [simp]: "image cr key P 0 = header"
  by (simp add: image_def)

lemma boundary_0 [simp]: "boundary P 0"
  by (simp add: boundary_def)

lemma boundary_all [simp]: "boundary P (length P)"
  by (simp add: boundary_def)

lemma boundary_down: "boundary P n \<Longrightarrow> boundary P (n div 65536 * 65536)"
  by (rule chunks_of [of n]) (auto simp: boundary_def)

text \<open>Sealing the chunk that starts where the part ends.\<close>

lemma image_next:
  assumes "boundary P n" "n < length P" "m = n + length t" "t = chunk P (n div 65536)"
  shows "image cr key P n @ cr_seal cr key (nonce (int (n div 65536))) t (aad (int (n div 65536)) (m = length P)) = image cr key P m"
    and "boundary P m"
proof -
  obtain q r where n: "n = q * 65536 + r" "r < (65536::nat)" "n div 65536 = q" "n mod 65536 = r" by (rule chunks_of)
  have r: "r = 0" using assms(1,2) n(4) by (simp add: boundary_def)
  have t: "length t = min 65536 (length P - n)" using n r by (simp add: assms(4) chunk_def)
  obtain r' where m: "m = q * 65536 + r' \<and> 0 < r' \<and> r' < 65536 \<and> m = length P \<or> m = Suc q * 65536 \<and> m \<le> length P"
  proof (cases "length P - n < 65536")
    case True
    then show ?thesis using assms(2,3) t n(1) r by (intro that [of "length P - n"]) simp
  next
    case False
    then show ?thesis using assms(2,3) t n(1) r by (intro that [of 0]) simp
  qed
  show "boundary P m" using m by (auto simp: boundary_def simp del: mult_Suc)
  have "(m + 65535) div 65536 = Suc q" using m chunks_at [of r' q] chunks_at [of 0 "Suc q"] by auto
  moreover have "(n + 65535) div 65536 = q" using chunks_at [of 0 q] n(1) r by simp
  ultimately show "image cr key P n @ cr_seal cr key (nonce (int (n div 65536))) t (aad (int (n div 65536)) (m = length P)) = image cr key P m"
    using n r assms(3,4) by (simp add: image_def sealed_chunk_def)
qed

end
