(* ===== verification/Disk_Rules.thy ===== *)
theory Disk_Rules
  imports Disk
begin

text \<open>
  Weakest preconditions for programs over the disk: \<open>wp q m Q E C F\<close> says that from the files
  \<open>F\<close>, whatever calls fail and wherever the machine stops, a result satisfies \<open>Q\<close>, an error
  \<open>E\<close>, and what a stop leaves \<open>C\<close>; with \<open>q\<close> it speaks of runs with no fault at all. One
  introduction rule per construct. \<open>wp_on\<close> says it of any view of the disk: \<open>dk_files\<close>, or \<open>names\<close>, which
  shows of each name also what a power cut may bring back.
\<close>

type_synonym dir = "string \<Rightarrow> fsfile option"

type_synonym ndir = "string \<Rightarrow> fsfile option \<times> fsfile option list"

definition names :: "disk \<Rightarrow> ndir" where
  "names d n = (dk_files d n, dk_behind d n)"

text \<open>A view that does not look at the faults to come.\<close>

definition steady :: "(disk \<Rightarrow> 'v) \<Rightarrow> bool" where
  "steady v \<longleftrightarrow> (\<forall>d vs. v (d\<lparr>dk_fates := vs\<rparr>) = v d)"

lemma steady_views [simp]: "steady dk_files" "steady names" "names (d\<lparr>dk_fates := vs\<rparr>) = names d"
  by (simp_all add: steady_def names_def [abs_def])

definition end_on :: "bool \<Rightarrow> ('a \<Rightarrow> 'v \<Rightarrow> bool) \<Rightarrow> (blob_err \<Rightarrow> 'v \<Rightarrow> bool) \<Rightarrow> ('v \<Rightarrow> bool) \<Rightarrow> (disk \<Rightarrow> 'v) \<Rightarrow> 'a outcome \<times> disk \<Rightarrow> bool" where
  "end_on q Q E C v r \<longleftrightarrow> (q \<longrightarrow> dk_fates (snd r) = [])
     \<and> (case fst r of Ret x \<Rightarrow> Q x (v (snd r)) | Err e \<Rightarrow> E e (v (snd r)) | Halt \<Rightarrow> \<not> q \<and> C (v (snd r)))"

definition wp_on :: "bool \<Rightarrow> 'a fs \<Rightarrow> ('a \<Rightarrow> 'v \<Rightarrow> bool) \<Rightarrow> (blob_err \<Rightarrow> 'v \<Rightarrow> bool) \<Rightarrow> ('v \<Rightarrow> bool) \<Rightarrow> (disk \<Rightarrow> 'v) \<Rightarrow> 'v \<Rightarrow> bool" where
  "wp_on q m Q E C v F \<longleftrightarrow> (\<forall>d. v d = F \<longrightarrow> (q \<longrightarrow> dk_fates d = []) \<longrightarrow> end_on q Q E C v (m d))"

abbreviation end_ok :: "bool \<Rightarrow> ('a \<Rightarrow> dir \<Rightarrow> bool) \<Rightarrow> (blob_err \<Rightarrow> dir \<Rightarrow> bool) \<Rightarrow> (dir \<Rightarrow> bool) \<Rightarrow> 'a outcome \<times> disk \<Rightarrow> bool" where
  "end_ok q Q E C \<equiv> end_on q Q E C dk_files"

abbreviation wp :: "bool \<Rightarrow> 'a fs \<Rightarrow> ('a \<Rightarrow> dir \<Rightarrow> bool) \<Rightarrow> (blob_err \<Rightarrow> dir \<Rightarrow> bool) \<Rightarrow> (dir \<Rightarrow> bool) \<Rightarrow> dir \<Rightarrow> bool" where
  "wp q m Q E C \<equiv> wp_on q m Q E C dk_files"

lemmas wp_def = wp_on_def

named_theorems wp_intros \<open>rules that open a program over the disk\<close>

lemma wp_onD:
  assumes "wp_on q m Q E C v (v d)" "q \<Longrightarrow> dk_fates d = []"
  shows "end_on q Q E C v (m d)"
  using assms by (simp add: wp_def)

lemmas wpD = wp_onD [where v = dk_files]

lemma end_ok_simps [simp]:
  "end_on q Q E C v (Ret x, d) \<longleftrightarrow> (q \<longrightarrow> dk_fates d = []) \<and> Q x (v d)"
  "end_on q Q E C v (Err e, d) \<longleftrightarrow> (q \<longrightarrow> dk_fates d = []) \<and> E e (v d)"
  "end_on q Q E C v (Halt, d) \<longleftrightarrow> \<not> q \<and> C (v d)"
  by (auto simp: end_on_def)

lemma end_ok_mono:
  "end_on q Q E C v r \<Longrightarrow> (\<And>x G. Q x G \<Longrightarrow> Q' x G) \<Longrightarrow> (\<And>e G. E e G \<Longrightarrow> E' e G) \<Longrightarrow> (\<And>G. C G \<Longrightarrow> C' G) \<Longrightarrow> end_on q Q' E' C' v r"
  by (cases r; cases "fst r") auto

lemma wp_mono:
  assumes "wp_on q m Q E C v F" "\<And>x G. Q x G \<Longrightarrow> Q' x G" "\<And>e G. E e G \<Longrightarrow> E' e G" "\<And>G. C G \<Longrightarrow> C' G"
  shows "wp_on q m Q' E' C' v F"
  using assms(1) unfolding wp_def by (blast intro: end_ok_mono assms(2-4))

lemma wp_cong: "wp_on q m Q E C v F \<Longrightarrow> (\<And>d. v d = F \<Longrightarrow> m' d = m d) \<Longrightarrow> wp_on q m' Q E C v F"
  by (simp add: wp_def)

lemma wp_ret [wp_intros]: "Q x F \<Longrightarrow> wp_on q (ret x) Q E C v F"
  by (simp add: wp_def ret_def)

lemma wp_fail [wp_intros]: "E e F \<Longrightarrow> wp_on q (fail e) Q E C v F"
  by (simp add: wp_def fail_def)

lemma wp_andThen [wp_intros]:
  assumes "wp_on q m (\<lambda>x. wp_on q (f x) Q E C v) E C v F"
  shows "wp_on q (andThen m f) Q E C v F"
  unfolding wp_def
proof (intro allI impI)
  fix d :: disk
  assume d: "v d = F" "q \<longrightarrow> dk_fates d = []"
  obtain r d1 where m: "m d = (r, d1)" by fastforce
  have "end_on q (\<lambda>x. wp_on q (f x) Q E C v) E C v (m d)" by (rule wp_onD) (use assms d in simp_all)
  then show "end_on q Q E C v (andThen m f d)" by (cases r) (auto simp: andThen_def m intro: wp_onD)
qed

lemma wp_attempt [wp_intros]:
  assumes "wp_on q m (\<lambda>x. Q (Inr x)) (\<lambda>e. Q (Inl e)) C v F"
  shows "wp_on q (attempt m) Q E C v F"
  unfolding wp_def
proof (intro allI impI)
  fix d :: disk
  assume d: "v d = F" "q \<longrightarrow> dk_fates d = []"
  obtain r d1 where m: "m d = (r, d1)" by fastforce
  have "end_on q (\<lambda>x. Q (Inr x)) (\<lambda>e. Q (Inl e)) C v (m d)" by (rule wp_onD) (use assms d in simp_all)
  then show "end_on q Q E C v (attempt m d)" by (cases r) (auto simp: attempt_def m)
qed

lemma wp_ignoring [wp_intros]:
  "wp_on q m (\<lambda>_. wp_on q k Q E C v) (\<lambda>_. wp_on q k Q E C v) C v F \<Longrightarrow> wp_on q (ignoring m k) Q E C v F"
  unfolding ignoring_def by (intro wp_andThen wp_attempt) simp

lemma wp_if [wp_intros]: "(b \<Longrightarrow> wp_on q m Q E C v F) \<Longrightarrow> (\<not> b \<Longrightarrow> wp_on q n Q E C v F) \<Longrightarrow> wp_on q (if b then m else n) Q E C v F"
  by simp

lemma wp_sum [wp_intros]:
  "(\<And>a. x = Inl a \<Longrightarrow> wp_on q (f a) Q E C v F) \<Longrightarrow> (\<And>b. x = Inr b \<Longrightarrow> wp_on q (g b) Q E C v F) \<Longrightarrow> wp_on q (case x of Inl a \<Rightarrow> f a | Inr b \<Rightarrow> g b) Q E C v F"
  by (cases x) simp_all

lemma wp_option [wp_intros]:
  "(x = None \<Longrightarrow> wp_on q f Q E C v F) \<Longrightarrow> (\<And>b. x = Some b \<Longrightarrow> wp_on q (g b) Q E C v F) \<Longrightarrow> wp_on q (case x of None \<Rightarrow> f | Some b \<Rightarrow> g b) Q E C v F"
  by (cases x) simp_all

lemma wp_prod [wp_intros]: "(\<And>a b. x = (a, b) \<Longrightarrow> wp_on q (f a b) Q E C v F) \<Longrightarrow> wp_on q (case x of (a, b) \<Rightarrow> f a b) Q E C v F"
  by (cases x) simp

lemma wp_Let [wp_intros]: "wp_on q (f x) Q E C v F \<Longrightarrow> wp_on q (let y = x in f y) Q E C v F"
  by simp

lemma wp_looking:
  assumes v: "steady v" and "\<And>d x. v d = F \<Longrightarrow> look d = Ret x \<Longrightarrow> Q x F" "\<And>d e. v d = F \<Longrightarrow> look d = Err e \<Longrightarrow> E e F"
    "\<And>d. look d \<noteq> Halt" "\<not> q \<Longrightarrow> E ErrDisk F" "\<not> q \<Longrightarrow> C F"
  shows "wp_on q (reading look) Q E C v F"
  unfolding wp_def
proof (intro allI impI)
  fix d :: disk
  assume d: "v d = F" "q \<longrightarrow> dk_fates d = []"
  have look: "end_on q Q E C v (look d, d')" if "v d' = F" "q \<longrightarrow> dk_fates d' = []" for d'
    using assms(2,3,4) d that by (cases "look d") auto
  show "end_on q Q E C v (reading look d)"
    using d look assms(5,6) v by (auto simp: reading_def steady_def split: list.splits fate.splits)
qed

lemma wp_affecting:
  assumes v: "steady v" and eff: "\<And>d. v (eff d) = g (v d)" "\<And>d. dk_fates (eff d) = dk_fates d"
    and "Q () (g F)" "\<not> q \<Longrightarrow> E ErrDisk F" "\<not> q \<Longrightarrow> C F" "\<not> q \<Longrightarrow> C (g F)"
  shows "wp_on q (changing eff) Q E C v F"
  using assms(4-) v unfolding wp_def changing_def by (auto simp: Let_def eff steady_def split: list.splits fate.splits if_splits)

lemmas wp_reading = wp_looking [where v = dk_files, OF steady_views(1)]

lemmas wp_changing = wp_affecting [where v = dk_files, OF steady_views(1)]

lemma wp_ReadFile [wp_intros]:
  "(F n = None \<Longrightarrow> E ErrNotExist F) \<Longrightarrow> (\<And>f. F n = Some f \<Longrightarrow> Q (ff_data f) F) \<Longrightarrow> (\<not> q \<Longrightarrow> E ErrDisk F) \<Longrightarrow> (\<not> q \<Longrightarrow> C F)
   \<Longrightarrow> wp q (fs_ReadFile n) Q E C F"
  unfolding fs_ReadFile_def by (rule wp_reading) (auto simp: missing_def data_at_def split: if_splits)

lemma wp_Open [wp_intros]:
  "(F n = None \<Longrightarrow> E ErrNotExist F) \<Longrightarrow> (\<And>f. F n = Some f \<Longrightarrow> Q () F) \<Longrightarrow> (\<not> q \<Longrightarrow> E ErrDisk F) \<Longrightarrow> (\<not> q \<Longrightarrow> C F) \<Longrightarrow> wp q (fs_Open n) Q E C F"
  unfolding fs_Open_def by (rule wp_reading) (auto simp: missing_def split: if_splits)

lemma wp_Stat [wp_intros]:
  "(F n = None \<Longrightarrow> E ErrNotExist F) \<Longrightarrow> (\<And>f. F n = Some f \<Longrightarrow> Q (int (length (ff_data f))) F) \<Longrightarrow> (\<not> q \<Longrightarrow> E ErrDisk F) \<Longrightarrow> (\<not> q \<Longrightarrow> C F)
   \<Longrightarrow> wp q (fs_Stat n) Q E C F"
  unfolding fs_Stat_def by (rule wp_reading) (auto simp: missing_def data_at_def split: if_splits)

definition bytes_in :: "string \<Rightarrow> dir \<Rightarrow> string" where
  "bytes_in n F = (case F n of None \<Rightarrow> '''' | Some f \<Rightarrow> ff_data f)"

lemma wp_ReadAt [wp_intros]:
  "(pos + k \<le> length (bytes_in n F) \<Longrightarrow> Q (take k (drop pos (bytes_in n F))) F)
   \<Longrightarrow> (length (bytes_in n F) < pos + k \<Longrightarrow> E ErrDisk F) \<Longrightarrow> (\<not> q \<Longrightarrow> E ErrDisk F) \<Longrightarrow> (\<not> q \<Longrightarrow> C F)
   \<Longrightarrow> wp q (fs_ReadAt n pos k) Q E C F"
  unfolding fs_ReadAt_def by (rule wp_reading) (auto simp: data_at_def bytes_in_def split: if_splits)

lemma wp_Seek [wp_intros]: "Q () F \<Longrightarrow> (\<not> q \<Longrightarrow> E ErrDisk F) \<Longrightarrow> (\<not> q \<Longrightarrow> C F) \<Longrightarrow> wp q (fs_Seek n) Q E C F"
  unfolding fs_Seek_def by (rule wp_reading) auto

lemma wp_Close [wp_intros]: "Q () F \<Longrightarrow> (\<not> q \<Longrightarrow> E ErrDisk F) \<Longrightarrow> (\<not> q \<Longrightarrow> C F) \<Longrightarrow> wp q (fs_Close n) Q E C F"
  unfolding fs_Close_def by (rule wp_changing [where g = "\<lambda>F. F"]) auto

definition opened :: "string \<Rightarrow> bool \<Rightarrow> dir \<Rightarrow> dir" where
  "opened n trunc F = (if trunc \<or> F n = None then F(n := Some new_file) else F)"

lemma wp_OpenFile [wp_intros]:
  "Q () (opened n t F) \<Longrightarrow> (\<not> q \<Longrightarrow> E ErrDisk F) \<Longrightarrow> (\<not> q \<Longrightarrow> C F) \<Longrightarrow> (\<not> q \<Longrightarrow> C (opened n t F)) \<Longrightarrow> wp q (fs_OpenFile n t) Q E C F"
  unfolding fs_OpenFile_def by (rule wp_changing [where g = "opened n t"]) (auto simp: missing_def opened_def rebind_def on_file_def)

definition mapped :: "string \<Rightarrow> (fsfile \<Rightarrow> fsfile) \<Rightarrow> dir \<Rightarrow> dir" where
  "mapped n g F = F(n := map_option g (F n))"

definition cut_file :: "nat \<Rightarrow> fsfile \<Rightarrow> fsfile" where
  "cut_file k f = \<lparr>ff_data = padded k (ff_data f), ff_stable = min (ff_stable f) k, ff_clean = False\<rparr>"

definition flush_file :: "fsfile \<Rightarrow> fsfile" where
  "flush_file f = f\<lparr>ff_stable := length (ff_data f), ff_clean := True\<rparr>"

lemma wp_Truncate [wp_intros]:
  "Q () (mapped n (cut_file k) F) \<Longrightarrow> (\<not> q \<Longrightarrow> E ErrDisk F) \<Longrightarrow> (\<not> q \<Longrightarrow> C F) \<Longrightarrow> (\<not> q \<Longrightarrow> C (mapped n (cut_file k) F))
   \<Longrightarrow> wp q (fs_Truncate n k) Q E C F"
  unfolding fs_Truncate_def by (rule wp_changing [where g = "mapped n (cut_file k)"]) (auto simp: on_file_def mapped_def cut_file_def [abs_def])

lemma wp_Sync [wp_intros]:
  "Q () (mapped n flush_file F) \<Longrightarrow> (\<not> q \<Longrightarrow> E ErrDisk F) \<Longrightarrow> (\<not> q \<Longrightarrow> C F) \<Longrightarrow> (\<not> q \<Longrightarrow> C (mapped n flush_file F))
   \<Longrightarrow> wp q (fs_Sync n) Q E C F"
  unfolding fs_Sync_def by (rule wp_changing [where g = "mapped n flush_file"]) (auto simp: on_file_def mapped_def flush_file_def [abs_def])

lemma wp_Write [wp_intros]:
  assumes "Q (length bs, True) (mapped n (put_at pos bs) F)"
    "\<And>k. \<not> q \<Longrightarrow> Q (min k (length bs), False) (mapped n (put_at pos (take k bs)) F)" "\<And>k. \<not> q \<Longrightarrow> C (mapped n (put_at pos (take k bs)) F)"
  shows "wp q (fs_Write n pos bs) Q E C F"
  using assms unfolding wp_def fs_Write_def
  by (auto simp: Let_def on_file_def mapped_def split: list.splits fate.splits)

definition renamed :: "string \<Rightarrow> string \<Rightarrow> dir \<Rightarrow> dir" where
  "renamed a b F = F(b := F a, a := None)"

lemma wp_Rename [wp_intros]:
  assumes "F a = None \<Longrightarrow> E ErrNotExist F" "F a \<noteq> None \<Longrightarrow> Q () (renamed a b F)" "\<not> q \<Longrightarrow> E ErrDisk F"
    "\<not> q \<Longrightarrow> C F" "\<not> q \<Longrightarrow> F a \<noteq> None \<Longrightarrow> C (renamed a b F)"
  shows "wp q (fs_Rename a b) Q E C F"
proof (cases "F a = None")
  case True
  have "wp q (reading (\<lambda>_. Err ErrNotExist :: unit outcome)) Q E C F" by (rule wp_reading) (use assms True in auto)
  then show ?thesis by (rule wp_cong) (simp add: fs_Rename_def True missing_def)
next
  case False
  have "wp q (changing (\<lambda>d. rebind a None (rebind b (dk_files d a) d))) Q E C F"
    by (rule wp_changing [where g = "renamed a b"]) (use assms False in \<open>auto simp: renamed_def rebind_def\<close>)
  then show ?thesis by (rule wp_cong) (use False in \<open>auto simp: fs_Rename_def missing_def\<close>)
qed

lemma wp_Remove [wp_intros]:
  assumes "F n = None \<Longrightarrow> E ErrNotExist F" "F n \<noteq> None \<Longrightarrow> Q () (F(n := None))" "\<not> q \<Longrightarrow> E ErrDisk F" "\<not> q \<Longrightarrow> C F" "\<not> q \<Longrightarrow> C (F(n := None))"
  shows "wp q (fs_Remove n) Q E C F"
proof (cases "F n = None")
  case True
  have "wp q (reading (\<lambda>_. Err ErrNotExist :: unit outcome)) Q E C F" by (rule wp_reading) (use assms True in auto)
  then show ?thesis by (rule wp_cong) (simp add: fs_Remove_def True missing_def)
next
  case False
  have "wp q (changing (rebind n None)) Q E C F"
    by (rule wp_changing [where g = "\<lambda>F. F(n := None)"]) (use assms False in \<open>auto simp: rebind_def\<close>)
  then show ?thesis by (rule wp_cong) (use False in \<open>auto simp: fs_Remove_def missing_def\<close>)
qed


section \<open>Names and what is behind them\<close>

definition bound :: "string \<Rightarrow> fsfile option \<Rightarrow> ndir \<Rightarrow> ndir" where
  "bound n x F = F(n := (x, fst (F n) # snd (F n)))"

definition n_mapped :: "string \<Rightarrow> (fsfile \<Rightarrow> fsfile) \<Rightarrow> ndir \<Rightarrow> ndir" where
  "n_mapped n g F = F(n := (map_option g (fst (F n)), snd (F n)))"

definition n_opened :: "string \<Rightarrow> bool \<Rightarrow> ndir \<Rightarrow> ndir" where
  "n_opened n trunc F = (if fst (F n) = None then bound n (Some new_file) F else if trunc then n_mapped n (\<lambda>_. new_file) F else F)"

definition n_renamed :: "string \<Rightarrow> string \<Rightarrow> ndir \<Rightarrow> ndir" where
  "n_renamed a b F = bound a None (bound b (fst (F a)) F)"

definition n_flushed :: "ndir \<Rightarrow> ndir" where
  "n_flushed F n = (fst (F n), [])"

lemma names_rebind: "names (rebind n x d) = bound n x (names d)"
  by (auto simp: names_def rebind_def bound_def)

lemma names_on_file: "names (on_file n g d) = n_mapped n g (names d)"
  by (auto simp: names_def on_file_def n_mapped_def)

lemma fates_kept [simp]: "dk_fates (rebind n x d) = dk_fates d" "dk_fates (on_file n g d) = dk_fates d"
  by (simp_all add: rebind_def on_file_def)

lemma missing_names: "names d = F \<Longrightarrow> missing n d \<longleftrightarrow> fst (F n) = None"
  by (auto simp: missing_def names_def)

lemmas n_reading = wp_looking [where v = names, OF steady_views(2)]

lemmas n_changing = wp_affecting [where v = names, OF steady_views(2)]

lemma n_ReadFile [wp_intros]:
  "(fst (F n) = None \<Longrightarrow> E ErrNotExist F) \<Longrightarrow> (\<And>f. fst (F n) = Some f \<Longrightarrow> Q (ff_data f) F) \<Longrightarrow> (\<not> q \<Longrightarrow> E ErrDisk F) \<Longrightarrow> (\<not> q \<Longrightarrow> C F)
   \<Longrightarrow> wp_on q (fs_ReadFile n) Q E C names F"
  unfolding fs_ReadFile_def by (rule n_reading) (auto simp: missing_def data_at_def names_def split: if_splits)

lemma n_Open [wp_intros]:
  "(fst (F n) = None \<Longrightarrow> E ErrNotExist F) \<Longrightarrow> (\<And>f. fst (F n) = Some f \<Longrightarrow> Q () F) \<Longrightarrow> (\<not> q \<Longrightarrow> E ErrDisk F) \<Longrightarrow> (\<not> q \<Longrightarrow> C F)
   \<Longrightarrow> wp_on q (fs_Open n) Q E C names F"
  unfolding fs_Open_def by (rule n_reading) (auto simp: missing_def names_def split: if_splits)

lemma n_Stat [wp_intros]:
  "(fst (F n) = None \<Longrightarrow> E ErrNotExist F) \<Longrightarrow> (\<And>f. fst (F n) = Some f \<Longrightarrow> Q (int (length (ff_data f))) F) \<Longrightarrow> (\<not> q \<Longrightarrow> E ErrDisk F) \<Longrightarrow> (\<not> q \<Longrightarrow> C F)
   \<Longrightarrow> wp_on q (fs_Stat n) Q E C names F"
  unfolding fs_Stat_def by (rule n_reading) (auto simp: missing_def data_at_def names_def split: if_splits)

lemma n_Close [wp_intros]: "Q () F \<Longrightarrow> (\<not> q \<Longrightarrow> E ErrDisk F) \<Longrightarrow> (\<not> q \<Longrightarrow> C F) \<Longrightarrow> wp_on q (fs_Close n) Q E C names F"
  unfolding fs_Close_def by (rule n_changing [where g = "\<lambda>F. F"]) auto

lemma n_OpenFile [wp_intros]:
  "Q () (n_opened n t F) \<Longrightarrow> (\<not> q \<Longrightarrow> E ErrDisk F) \<Longrightarrow> (\<not> q \<Longrightarrow> C F) \<Longrightarrow> (\<not> q \<Longrightarrow> C (n_opened n t F)) \<Longrightarrow> wp_on q (fs_OpenFile n t) Q E C names F"
  unfolding fs_OpenFile_def
  by (rule n_changing [where g = "n_opened n t"]) (auto simp: missing_names [OF refl] n_opened_def names_rebind names_on_file)

lemma n_Sync [wp_intros]:
  "Q () (n_mapped n flush_file F) \<Longrightarrow> (\<not> q \<Longrightarrow> E ErrDisk F) \<Longrightarrow> (\<not> q \<Longrightarrow> C F) \<Longrightarrow> (\<not> q \<Longrightarrow> C (n_mapped n flush_file F))
   \<Longrightarrow> wp_on q (fs_Sync n) Q E C names F"
  unfolding fs_Sync_def
  by (rule n_changing [where g = "n_mapped n flush_file"]) (auto simp: names_on_file flush_file_def [abs_def])

lemma n_Write [wp_intros]:
  assumes "Q (length bs, True) (n_mapped n (put_at pos bs) F)"
    "\<And>k. \<not> q \<Longrightarrow> Q (min k (length bs), False) (n_mapped n (put_at pos (take k bs)) F)" "\<And>k. \<not> q \<Longrightarrow> C (n_mapped n (put_at pos (take k bs)) F)"
  shows "wp_on q (fs_Write n pos bs) Q E C names F"
  using assms unfolding wp_def fs_Write_def
  by (auto simp: Let_def names_on_file split: list.splits fate.splits)

lemma n_Rename [wp_intros]:
  assumes "fst (F a) = None \<Longrightarrow> E ErrNotExist F" "fst (F a) \<noteq> None \<Longrightarrow> Q () (n_renamed a b F)" "\<not> q \<Longrightarrow> E ErrDisk F"
    "\<not> q \<Longrightarrow> C F" "\<not> q \<Longrightarrow> fst (F a) \<noteq> None \<Longrightarrow> C (n_renamed a b F)"
  shows "wp_on q (fs_Rename a b) Q E C names F"
proof (cases "fst (F a) = None")
  case True
  have "wp_on q (reading (\<lambda>_. Err ErrNotExist :: unit outcome)) Q E C names F" by (rule n_reading) (use assms True in auto)
  then show ?thesis by (rule wp_cong) (simp add: fs_Rename_def True missing_names)
next
  case False
  have "wp_on q (changing (\<lambda>d. rebind a None (rebind b (dk_files d a) d))) Q E C names F"
    by (rule n_changing [where g = "n_renamed a b"]) (use assms False in \<open>auto simp: names_rebind n_renamed_def names_def\<close>)
  then show ?thesis by (rule wp_cong) (use False in \<open>auto simp: fs_Rename_def missing_names\<close>)
qed

lemma n_Remove [wp_intros]:
  assumes "fst (F n) = None \<Longrightarrow> E ErrNotExist F" "fst (F n) \<noteq> None \<Longrightarrow> Q () (bound n None F)" "\<not> q \<Longrightarrow> E ErrDisk F" "\<not> q \<Longrightarrow> C F"
    "\<not> q \<Longrightarrow> C (bound n None F)"
  shows "wp_on q (fs_Remove n) Q E C names F"
proof (cases "fst (F n) = None")
  case True
  have "wp_on q (reading (\<lambda>_. Err ErrNotExist :: unit outcome)) Q E C names F" by (rule n_reading) (use assms True in auto)
  then show ?thesis by (rule wp_cong) (simp add: fs_Remove_def True missing_names)
next
  case False
  have "wp_on q (changing (rebind n None)) Q E C names F"
    by (rule n_changing [where g = "bound n None"]) (use assms False in \<open>auto simp: names_rebind\<close>)
  then show ?thesis by (rule wp_cong) (use False in \<open>auto simp: fs_Remove_def missing_names\<close>)
qed

lemma n_OpenDir [wp_intros]: "Q () F \<Longrightarrow> (\<not> q \<Longrightarrow> E ErrDisk F) \<Longrightarrow> (\<not> q \<Longrightarrow> C F) \<Longrightarrow> wp_on q fs_OpenDir Q E C names F"
  unfolding fs_OpenDir_def by (rule n_reading) auto

lemma n_CloseDir [wp_intros]: "Q () F \<Longrightarrow> (\<not> q \<Longrightarrow> E ErrDisk F) \<Longrightarrow> (\<not> q \<Longrightarrow> C F) \<Longrightarrow> wp_on q fs_CloseDir Q E C names F"
  unfolding fs_CloseDir_def by (rule n_reading) auto

lemma n_SyncDir [wp_intros]:
  "Q () (n_flushed F) \<Longrightarrow> (\<not> q \<Longrightarrow> E ErrDisk F) \<Longrightarrow> (\<not> q \<Longrightarrow> C F) \<Longrightarrow> (\<not> q \<Longrightarrow> C (n_flushed F)) \<Longrightarrow> wp_on q fs_SyncDir Q E C names F"
  unfolding fs_SyncDir_def by (rule n_changing [where g = n_flushed]) (auto simp: names_def n_flushed_def)

text \<open>What is known of the names is known of the files.\<close>

lemma wp_files:
  assumes "\<And>B. wp_on q m (\<lambda>x G. Q x (fst \<circ> G)) (\<lambda>e G. E e (fst \<circ> G)) (\<lambda>G. C (fst \<circ> G)) names (\<lambda>n. (F n, B n))"
  shows "wp q m Q E C F"
  unfolding wp_def
proof (intro allI impI)
  fix d :: disk
  assume d: "dk_files d = F" "q \<longrightarrow> dk_fates d = []"
  have v: "fst \<circ> names e = dk_files e" for e :: disk by (auto simp: names_def)
  have "names d = (\<lambda>n. (F n, dk_behind d n))" using d(1) by (auto simp: names_def)
  from assms [of "dk_behind d", folded this]
  have "end_on q (\<lambda>x G. Q x (fst \<circ> G)) (\<lambda>e G. E e (fst \<circ> G)) (\<lambda>G. C (fst \<circ> G)) names (m d)"
    by (rule wp_onD) (use d(2) in simp)
  then show "end_on q Q E C dk_files (m d)" by (cases "m d"; cases "fst (m d)") (simp_all add: v)
qed

end
