(* ===== verification/Blob_Inv.thy ===== *)
theory Blob_Inv
  imports Blob_Format Disk_Rules Link_Properties
begin

text \<open>
  What the blob store keeps true of the files of an id, at every moment a power loss may come:
  the record vouches only for chunks that are sealed and on stable storage, and a file under
  its final name is whole. Every operation is shown to keep it on every path.
\<close>

section \<open>The files of an id\<close>

abbreviation part_of :: "string \<Rightarrow> string" where "part_of fid \<equiv> fid @ partSuffix"
abbreviation rec_of :: "string \<Rightarrow> string" where "rec_of fid \<equiv> fid @ syncedSuffix"
abbreviation tmp_of :: "string \<Rightarrow> string" where "tmp_of fid \<equiv> fid @ syncedSuffix @ tmpSuffix"

definition names :: "string \<Rightarrow> string set" where
  "names fid = {fid, part_of fid, rec_of fid, tmp_of fid}"

lemmas suffixes = partSuffix_def syncedSuffix_def tmpSuffix_def

lemma suffixes_apart [simp]:
  "partSuffix \<noteq> []" "syncedSuffix \<noteq> []" "tmpSuffix \<noteq> []" "partSuffix \<noteq> syncedSuffix" "syncedSuffix \<noteq> partSuffix"
  "partSuffix \<noteq> syncedSuffix @ tmpSuffix" "syncedSuffix @ tmpSuffix \<noteq> partSuffix"
  by (simp_all add: suffixes)

lemma in_names [simp]: "fid \<in> names fid" "part_of fid \<in> names fid" "rec_of fid \<in> names fid" "tmp_of fid \<in> names fid"
  by (simp_all add: names_def)

text \<open>The ids the server issues hold no dot, so the files of two of them have different names.\<close>

definition plain_id :: "string \<Rightarrow> bool" where
  "plain_id fid \<longleftrightarrow> CHR ''.'' \<notin> set fid"

lemma plain_stem: "plain_id fid \<Longrightarrow> n \<in> names fid \<Longrightarrow> takeWhile (\<lambda>c. c \<noteq> CHR ''.'') n = fid"
  by (auto simp: names_def plain_id_def suffixes takeWhile_append)

lemma names_apart: "plain_id a \<Longrightarrow> plain_id b \<Longrightarrow> a \<noteq> b \<Longrightarrow> n \<in> names a \<Longrightarrow> n \<notin> names b"
  using plain_stem by blast

section \<open>The record\<close>

definition recorded :: "string \<Rightarrow> dir \<Rightarrow> int" where
  "recorded fid F = (case F (rec_of fid) of None \<Rightarrow> 0 | Some f \<Rightarrow> vouches (ff_data f))"

lemma digit_plain: "is_digit c \<Longrightarrow> byte c < 128 \<and> \<not> IsSpace (byte c)"
  by (auto simp: is_digit_def IsSpace_def)

lemma vouches_FormatInt:
  assumes "0 \<le> n" "n < 2 ^ 63" shows "vouches (FormatInt n) = n"
proof -
  have d: "list_all is_digit (decimal (nat n))" "digits_value (decimal (nat n)) = nat n" using decimal_digits by blast+
  then have t: "TrimSpace (decimal (nat n)) = decimal (nat n)" by (intro TrimSpace_ascii) (auto simp: list_all_iff dest: digit_plain)
  have "\<not> is_digit CHR ''-''" "\<not> is_digit CHR ''+''" by (simp_all add: is_digit_def byte_def)
  then have "ParseInt64 (decimal (nat n)) = Some n"
    using d assms decimal_not_Nil [of "nat n"] by (cases "decimal (nat n)") (auto simp: ParseInt64_def Let_def)
  then show ?thesis using assms by (simp add: vouches_def FormatInt_def t)
qed

lemma vouches_nonneg: "0 \<le> vouches t"
  by (simp add: vouches_def split: option.splits)

lemma recorded_nonneg [simp]: "0 \<le> recorded fid F"
  by (simp add: recorded_def vouches_nonneg split: option.splits)

definition key_of :: "blob_store \<Rightarrow> string \<Rightarrow> string" where
  "key_of st fid = (case cr_hkdf (bs_crypto st) (bs_key st) (keyInfo @ fid) of None \<Rightarrow> '''' | Some k \<Rightarrow> k)"

abbreviation image_of :: "blob_store \<Rightarrow> string \<Rightarrow> string \<Rightarrow> nat \<Rightarrow> string" where
  "image_of st fid P n \<equiv> image (bs_crypto st) (key_of st fid) P n"

text \<open>The first \<open>r\<close> bytes of a plaintext are in a part, sealed and on stable storage.\<close>

definition kept :: "blob_store \<Rightarrow> string \<Rightarrow> string \<Rightarrow> nat \<Rightarrow> fsfile \<Rightarrow> bool" where
  "kept st fid P r f \<longleftrightarrow> boundary P r \<and> clen r \<le> ff_stable f \<and> take (clen r) (ff_data f) = image_of st fid P r"

definition blob_inv :: "blob_store \<Rightarrow> string \<Rightarrow> string \<Rightarrow> dir \<Rightarrow> bool" where
  "blob_inv st fid P F \<longleftrightarrow>
     (\<forall>f. F (rec_of fid) = Some f \<longrightarrow> ff_clean f)
   \<and> (\<forall>f. 0 < recorded fid F \<longrightarrow> F (part_of fid) = Some f \<longrightarrow> kept st fid P (nat (recorded fid F)) f)
   \<and> (\<forall>f. F fid = Some f \<longrightarrow> ff_clean f \<and> ff_data f = image_of st fid P (length P))"

definition fits :: "blob_store \<Rightarrow> string \<Rightarrow> bool" where
  "fits st P \<longleftrightarrow> aead (bs_crypto st) \<and> 0 < length P \<and> length P < 2 ^ 62"

lemma kept_less:
  assumes "aead (bs_crypto st)" "kept st fid P r f" "boundary P m" "m \<le> r"
  shows "kept st fid P m f"
proof -
  have "clen m \<le> clen r" using assms(4) by (rule clen_mono)
  moreover have "take (clen m) (take (clen r) (ff_data f)) = image_of st fid P m"
    using assms image_take [OF assms(1,3,4)] by (simp add: kept_def)
  ultimately show ?thesis using assms by (simp add: kept_def min_absorb2 take_take)
qed

lemma kept_length: "aead (bs_crypto st) \<Longrightarrow> kept st fid P r f \<Longrightarrow> clen r \<le> length (ff_data f)"
  using image_length [of "bs_crypto st" P r "key_of st fid"] by (metis kept_def length_take min.cobounded1)

lemma kept_survives: "kept st fid P r f \<Longrightarrow> survives f g \<Longrightarrow> kept st fid P r g"
proof -
  assume k: "kept st fid P r f" and s: "survives f g"
  have c: "clen r \<le> ff_stable f" using k by (simp add: kept_def)
  have "take (clen r) (take (ff_stable f) (ff_data g)) = take (clen r) (take (ff_stable f) (ff_data f))" using s by (simp add: survives_def)
  then have "take (clen r) (ff_data g) = take (clen r) (ff_data f)" using c by (simp add: min_absorb1)
  then show ?thesis using k s c by (simp add: kept_def survives_def)
qed

lemma kept_cut:
  assumes "aead (bs_crypto st)" "kept st fid P r f" "clen r \<le> k" shows "kept st fid P r (cut_file k f)"
proof -
  have "clen r \<le> length (ff_data f)" using assms by (intro kept_length)
  then have "take (clen r) (padded k (ff_data f)) = take (clen r) (ff_data f)" using assms(3) by (simp add: padded_def min_absorb2)
  then show ?thesis using assms by (simp add: kept_def cut_file_def)
qed

lemma kept_put:
  assumes "aead (bs_crypto st)" "kept st fid P r f" "clen r \<le> k" shows "kept st fid P r (put_at k bs f)"
proof -
  have "clen r \<le> length (ff_data f)" using assms by (intro kept_length)
  then have "take (clen r) (padded k (ff_data f) @ bs @ drop (k + length bs) (ff_data f)) = take (clen r) (ff_data f)"
    using assms(3) by (simp add: padded_def min_absorb2)
  then show ?thesis using assms by (simp add: kept_def put_at_def)
qed

lemma kept_flush: "kept st fid P r f \<Longrightarrow> aead (bs_crypto st) \<Longrightarrow> kept st fid P r (flush_file f)"
  using kept_length by (simp add: kept_def flush_file_def)

section \<open>A power loss\<close>

lemma blob_inv_power_loss:
  assumes "blob_inv st fid P (dk_files d)" "power_loss d d'"
  shows "blob_inv st fid P (dk_files d')"
proof -
  have rel: "rel_option survives (dk_files d n) (dk_files d' n)" for n using assms(2) by (simp add: power_loss_def)
  have rc: "recorded fid (dk_files d') = recorded fid (dk_files d)"
    using assms(1) rel [of "rec_of fid"] unfolding recorded_def blob_inv_def
    by (cases "dk_files d (rec_of fid)"; cases "dk_files d' (rec_of fid)") (auto simp: survives_def)
  show ?thesis unfolding blob_inv_def rc
  proof (intro conjI allI impI, goal_cases)
    case (1 g)
    then show ?case using rel [of "rec_of fid"] by (cases "dk_files d (rec_of fid)") (auto simp: survives_def)
  next
    case (2 g)
    then show ?case using rel [of "part_of fid"] assms(1) by (cases "dk_files d (part_of fid)") (auto simp: blob_inv_def intro: kept_survives)
  next
    case (3 g)
    then show ?case using rel [of fid] by (cases "dk_files d fid") (auto simp: survives_def)
  next
    case (4 g)
    then show ?case using rel [of fid] assms(1) by (cases "dk_files d fid") (auto simp: survives_def blob_inv_def)
  qed
qed

section \<open>Changes that keep the promise\<close>

text \<open>Also that no file of another id is touched.\<close>

definition safe :: "blob_store \<Rightarrow> string \<Rightarrow> string \<Rightarrow> dir \<Rightarrow> dir \<Rightarrow> bool" where
  "safe st fid P F0 F \<longleftrightarrow> blob_inv st fid P F \<and> (\<forall>n. n \<notin> names fid \<longrightarrow> F n = F0 n)"

lemma recorded_other [simp]:
  "recorded fid (F(tmp_of fid := x)) = recorded fid F" "recorded fid (F(part_of fid := x)) = recorded fid F"
  "recorded fid (F(fid := x)) = recorded fid F" "recorded fid (F(rec_of fid := None)) = 0"
  by (simp_all add: recorded_def)

lemma safe_tmp: "safe st fid P F0 F \<Longrightarrow> safe st fid P F0 (F(tmp_of fid := x))"
  by (auto simp: safe_def blob_inv_def)

lemma safe_part:
  "safe st fid P F0 F \<Longrightarrow> (\<And>g. x = Some g \<Longrightarrow> 0 < recorded fid F \<Longrightarrow> kept st fid P (nat (recorded fid F)) g) \<Longrightarrow> safe st fid P F0 (F(part_of fid := x))"
  by (auto simp: safe_def blob_inv_def)

lemma safe_gone:
  "safe st fid P F0 F \<Longrightarrow> safe st fid P F0 (F(fid := None))" "safe st fid P F0 F \<Longrightarrow> safe st fid P F0 (F(part_of fid := None))"
  "safe st fid P F0 F \<Longrightarrow> safe st fid P F0 (F(rec_of fid := None))" "safe st fid P F0 F \<Longrightarrow> safe st fid P F0 (F(tmp_of fid := None))"
  by (auto simp: safe_def blob_inv_def)

text \<open>A new record in place of the old one.\<close>

definition rerecorded :: "string \<Rightarrow> int \<Rightarrow> dir \<Rightarrow> dir" where
  "rerecorded fid n F = F(rec_of fid := Some \<lparr>ff_data = FormatInt n, ff_stable = length (FormatInt n), ff_clean = True\<rparr>, tmp_of fid := None)"

lemma recorded_rerecorded [simp]: "0 \<le> n \<Longrightarrow> n < 2 ^ 63 \<Longrightarrow> recorded fid (rerecorded fid n F) = n"
  by (simp add: recorded_def rerecorded_def vouches_FormatInt)

lemma rerecorded_others [simp]: "rerecorded fid n F (part_of fid) = F (part_of fid)" "rerecorded fid n F fid = F fid"
  by (simp_all add: rerecorded_def)

lemma safe_rerecorded:
  assumes "safe st fid P F0 F" "0 \<le> n" "n < 2 ^ 63" "\<And>g. F (part_of fid) = Some g \<Longrightarrow> 0 < n \<Longrightarrow> kept st fid P (nat n) g"
  shows "safe st fid P F0 (rerecorded fid n F)"
proof -
  have "blob_inv st fid P (rerecorded fid n F)"
    using assms recorded_rerecorded [of n fid F] by (auto simp: safe_def blob_inv_def) (auto simp: rerecorded_def)
  then show ?thesis using assms(1) by (auto simp: safe_def rerecorded_def)
qed

end
