(* ===== verification/Blob_Steps.thy ===== *)
theory Blob_Steps
  imports Blob_Inv
begin

text \<open>
  Every operation of the blob store keeps \<open>blob_inv\<close>, on every path and wherever the machine
  stops: one rule per operation, from the record's file up to \<open>Resume\<close>, \<open>Write\<close>, \<open>Checkpoint\<close>,
  \<open>Rollback\<close> and \<open>Finalize\<close>.
\<close>

section \<open>The record and the part\<close>

lemma wp_readSynced [wp_intros]:
  "Q (recorded fid F) F \<Longrightarrow> (\<not> q \<Longrightarrow> E ErrDisk F) \<Longrightarrow> (\<not> q \<Longrightarrow> C F) \<Longrightarrow> wp q (readSynced fid) Q E C F"
  unfolding readSynced_def by (intro wp_intros) (auto simp: recorded_def)

text \<open>What \<open>Received\<close> answers when nothing fails; a header that cannot be read counts as none.\<close>

definition received :: "string \<Rightarrow> dir \<Rightarrow> int" where
  "received fid F =
     (case F (part_of fid) of
        None \<Rightarrow> 0
      | Some f \<Rightarrow> if validHeader (take 32 (ff_data f)) then durable (recorded fid F) (plainLen (int (length (ff_data f)))) else 0)"

lemma wp_Received [wp_intros]:
  assumes "\<And>r. r = received fid F \<or> \<not> q \<and> r = 0 \<Longrightarrow> Q r F" "\<not> q \<Longrightarrow> E ErrDisk F" "\<not> q \<Longrightarrow> C F"
  shows "wp q (Received fid) Q E C F"
  unfolding Received_def
  by (intro wp_intros) (use assms in \<open>auto simp: received_def bytes_in_def HeaderSize_def validHeader_def split: option.splits\<close>)

lemma wp_writeSynced [wp_intros]:
  assumes "Q () (rerecorded fid n F)" "\<And>x. \<not> q \<Longrightarrow> E ErrDisk (F(tmp_of fid := x))" "\<And>x. \<not> q \<Longrightarrow> C (F(tmp_of fid := x))"
    "\<not> q \<Longrightarrow> C (rerecorded fid n F)"
  shows "wp q (writeSynced fid n) Q E C F"
proof -
  have F: "\<not> q \<Longrightarrow> E ErrDisk F" "\<not> q \<Longrightarrow> C F" using assms(2,3) [of "F (tmp_of fid)"] by simp_all
  have r: "renamed (tmp_of fid) (rec_of fid) (F(tmp_of fid \<mapsto> \<lparr>ff_data = FormatInt n, ff_stable = length (FormatInt n), ff_clean = True\<rparr>)) = rerecorded fid n F"
    by (auto simp: renamed_def rerecorded_def fun_eq_iff)
  show ?thesis unfolding writeSynced_def
    by (intro wp_intros) (use assms F in \<open>auto simp: opened_def mapped_def put_at_def new_file_def padded_def flush_file_def r\<close>)
qed

lemma wp_removeIfPresent [wp_intros]:
  assumes "Q () (F(n := None))" "\<not> q \<Longrightarrow> E ErrDisk F" "\<not> q \<Longrightarrow> C F" "\<not> q \<Longrightarrow> C (F(n := None))"
  shows "wp q (removeIfPresent n) Q E C F"
proof -
  have "F n = None \<Longrightarrow> F(n := None) = F" by (simp add: fun_upd_idem)
  then show ?thesis unfolding removeIfPresent_def by (intro wp_intros) (use assms in auto)
qed

definition key_ok :: "blob_store \<Rightarrow> string \<Rightarrow> bool" where
  "key_ok st fid \<longleftrightarrow> length (key_of st fid) = 32"

lemma wp_cipherFor [wp_intros]: "Q (key_of st fid) F \<Longrightarrow> (\<not> key_ok st fid \<Longrightarrow> E ErrKey F) \<Longrightarrow> wp q (cipherFor st fid) Q E C F"
  unfolding cipherFor_def by (intro wp_intros) (auto simp: key_of_def key_ok_def)

lemma plainLen_nonneg: "0 \<le> plainLen (int n)"
  by (cases "n < 32") (auto simp: plainLen_short elim!: disk_of simp: plainLen_at simp del: of_nat_add of_nat_mult)

lemma durable_le:
  assumes "0 \<le> s" "0 \<le> h" shows "durable s h \<le> s" "durable s h \<le> h" "0 \<le> durable s h"
proof -
  obtain a where a: "min s h = int a" using assms by (metis min_def nonneg_int_cases)
  have "int (a div 65536) * 65536 \<le> int a" using div_times_less_eq_dividend [of a 65536] by (metis of_nat_le_iff of_nat_mult of_nat_numeral)
  then have "min s h sdiv ChunkSize * ChunkSize \<le> min s h" "0 \<le> min s h sdiv ChunkSize * ChunkSize" unfolding a chunk_div by (simp_all add: ChunkSize_def)
  then show "durable s h \<le> s" "durable s h \<le> h" "0 \<le> durable s h" using assms by (auto simp: durable_def)
qed

lemma received_kept:
  assumes "blob_inv st fid P F" "aead (bs_crypto st)" "0 < received fid F" "boundary P n" "int n \<le> received fid F"
  obtains f where "F (part_of fid) = Some f" "kept st fid P n f" "int n \<le> recorded fid F"
proof -
  obtain f where f: "F (part_of fid) = Some f" "received fid F = durable (recorded fid F) (plainLen (int (length (ff_data f))))"
    using assms(3) by (auto simp: received_def split: option.splits if_splits)
  have r: "received fid F \<le> recorded fid F" using durable_le(1) [OF recorded_nonneg plainLen_nonneg] f(2) by metis
  then have "kept st fid P (nat (recorded fid F)) f" using assms(1,3) f(1) by (auto simp: blob_inv_def)
  then have "kept st fid P n f" using assms r by (intro kept_less [OF assms(2) _ assms(4)]) auto
  then show ?thesis using that f(1) r assms(5) by simp
qed

lemma recorded_small:
  assumes "blob_inv st fid P F" "F (part_of fid) = Some f"
  shows "recorded fid F \<le> int (length P)"
proof (cases "0 < recorded fid F")
  case True
  then have "boundary P (nat (recorded fid F))" using assms by (auto simp: blob_inv_def kept_def)
  then show ?thesis by (simp add: boundary_def nat_le_iff)
next
  case False
  then show ?thesis by linarith
qed

section \<open>An upload under way\<close>

definition up_base :: "string \<Rightarrow> string \<Rightarrow> Upload \<Rightarrow> dir \<Rightarrow> bool" where
  "up_base fid P u F \<longleftrightarrow> up_id u = fid \<and> up_size u = int (length P) \<and> recorded fid F = up_synced u
     \<and> boundary P (nat (up_synced u))"

text \<open>The part holds exactly the first \<open>n\<close> bytes sealed, and the memory what follows them.\<close>

definition up_at :: "blob_store \<Rightarrow> string \<Rightarrow> string \<Rightarrow> Upload \<Rightarrow> nat \<Rightarrow> dir \<Rightarrow> bool" where
  "up_at st fid P u n F \<longleftrightarrow>
     up_base fid P u F \<and> up_key u = key_of st fid \<and> up_sealed u = int n \<and> boundary P n \<and> up_pos u = clen n \<and> up_synced u \<le> int n
   \<and> (\<exists>f. F (part_of fid) = Some f \<and> ff_data f = image_of st fid P n)"

definition up_ok :: "blob_store \<Rightarrow> string \<Rightarrow> string \<Rightarrow> Upload \<Rightarrow> nat \<Rightarrow> dir \<Rightarrow> bool" where
  "up_ok st fid P u n F \<longleftrightarrow>
     up_at st fid P u n F \<and> up_tail u = take (length (up_tail u)) (drop n P) \<and> length (up_tail u) < 65536
   \<and> (up_tail u \<noteq> '''' \<longrightarrow> n + length (up_tail u) < length P)"

lemma up_ok_size: "up_ok st fid P u n F \<Longrightarrow> up_Size u = int (n + length (up_tail u)) \<and> n + length (up_tail u) \<le> length P"
  by (cases "up_tail u = ''''") (auto simp: up_ok_def up_at_def up_Size_def boundary_def)

lemma CipherLen_at: "fits st P \<Longrightarrow> boundary P n \<Longrightarrow> nat (CipherLen (int n)) = clen n"
  by (simp add: CipherLen_int fits_def boundary_def)

lemma padded_image: "padded k s = take k s" if "k \<le> length s"
  using that by (simp add: padded_def)

lemma header_part: "mapped n (put_at 0 header) (mapped n (cut_file 0) F) = F(n := map_option (\<lambda>f. \<lparr>ff_data = header, ff_stable = 0, ff_clean = False\<rparr>) (F n))"
  by (cases "F n") (simp_all add: mapped_def put_at_def cut_file_def padded_def fun_eq_iff)

lemma wp_cut_part:
  assumes fits: "fits st P" and b: "boundary P n" and F: "safe st fid P F0 F" "F (part_of fid) = Some f"
    and rec: "recorded fid F \<le> int n" and k: "0 < n \<Longrightarrow> kept st fid P n f"
  shows "wp q (cut_part fid (int n))
    (\<lambda>pos G. safe st fid P F0 G \<and> pos = clen n \<and> recorded fid G = recorded fid F \<and> (\<exists>g. G (part_of fid) = Some g \<and> ff_data g = image_of st fid P n))
    (\<lambda>_ G. \<not> q \<and> safe st fid P F0 G) (safe st fid P F0) F"
proof (cases "n = 0")
  case True
  have s: "safe st fid P F0 (F(part_of fid := x))" for x using F(1) rec True by (intro safe_part) auto
  have c0: "clen 0 = 32" by (simp add: clen_def)
  show ?thesis unfolding cut_part_def True
    by (simp, intro wp_intros) (use F s in \<open>auto simp: mapped_def put_at_def cut_file_def padded_def c0 sizes\<close>)
next
  case False
  have kf: "kept st fid P n f" using k False by simp
  have a: "aead (bs_crypto st)" using fits by (simp add: fits_def)
  have len: "clen n \<le> length (ff_data f)" using kept_length [OF a kf] .
  have cut: "kept st fid P (nat (recorded fid F)) (cut_file (clen n) f)" if "0 < recorded fid F"
  proof (rule kept_cut [OF a])
    show "kept st fid P (nat (recorded fid F)) f" using F that by (simp add: safe_def blob_inv_def)
    show "clen (nat (recorded fid F)) \<le> clen n" using rec by (intro clen_mono) simp
  qed
  have s: "safe st fid P F0 (mapped (part_of fid) (cut_file (clen n)) F)"
    unfolding mapped_def by (rule safe_part [OF F(1)]) (use F(2) cut in auto)
  have d: "ff_data (cut_file (clen n) f) = image_of st fid P n" using kf len by (simp add: cut_file_def padded_image kept_def)
  define G where "G = mapped (part_of fid) (cut_file (clen n)) F"
  obtain g where g: "safe st fid P F0 G" "G (part_of fid) = Some g" "ff_data g = image_of st fid P n" "recorded fid G = recorded fid F"
    using s d F(2) by (simp add: G_def mapped_def)
  have e: "cut_part fid (int n) = (let part = part_of fid; closing = (\<lambda>e. ignoring (fs_Close part) (fail e))
      in andThen (attempt (fs_Truncate part (clen n))) (\<lambda>r.
              case r of
                Inl e \<Rightarrow> closing e
              | Inr _ \<Rightarrow>
                  andThen (attempt (fs_Seek part)) (\<lambda>r.
                  case r of Inl e \<Rightarrow> closing e | Inr _ \<Rightarrow> ret (clen n))))"
    unfolding cut_part_def Let_def using False by (simp add: CipherLen_at [OF fits b])
  show ?thesis unfolding e using F(1) g by (intro wp_intros, unfold G_def [symmetric]) blast+
qed

definition started :: "blob_store \<Rightarrow> string \<Rightarrow> string \<Rightarrow> dir \<Rightarrow> nat \<Rightarrow> Upload \<Rightarrow> dir \<Rightarrow> bool" where
  "started st fid P F0 n u G \<longleftrightarrow> safe st fid P F0 G \<and> up_ok st fid P u n G \<and> up_tail u = ''''"

definition unless :: "bool \<Rightarrow> (dir \<Rightarrow> bool) \<Rightarrow> dir \<Rightarrow> bool" where
  "unless b I G \<longleftrightarrow> I G \<and> \<not> b"

lemma wp_open_part:
  assumes fits: "fits st P" and b: "boundary P n" and F: "safe st fid P F0 F"
    and rec: "recorded fid F \<le> int n" and k: "0 < n \<Longrightarrow> \<exists>f. F (part_of fid) = Some f \<and> kept st fid P n f"
  shows "wp q (open_part st fid (int n) (int (length P)) (recorded fid F)) (started st fid P F0 n)
    (\<lambda>_. unless (q \<and> key_ok st fid) (safe st fid P F0)) (safe st fid P F0) F"
proof -
  define G where "G = opened (part_of fid) False F"
  have new: "safe st fid P F0 (F(part_of fid \<mapsto> new_file))" if "F (part_of fid) = None"
    using k rec that by (intro safe_part [OF F]) auto
  have G: "safe st fid P F0 G" "recorded fid G = recorded fid F" using F new by (auto simp: G_def opened_def)
  have "\<exists>f. G (part_of fid) = Some f \<and> (0 < n \<longrightarrow> kept st fid P n f)" using k by (auto simp: G_def opened_def)
  then obtain f where f: "G (part_of fid) = Some f" "0 < n \<Longrightarrow> kept st fid P n f" by blast
  have bs: "boundary P (nat (recorded fid F))"
  proof (cases "0 < recorded fid F")
    case True
    then have "0 < n" using rec by linarith
    then show ?thesis using F k True by (fastforce simp: safe_def blob_inv_def kept_def)
  qed simp
  have cut: "wp q (cut_part fid (int n))
      (\<lambda>pos. started st fid P F0 n \<lparr>up_id = fid, up_pos = pos, up_key = key_of st fid, up_size = int (length P), up_sealed = int n,
               up_synced = recorded fid F, up_tail = ''''\<rparr>)
      (\<lambda>_. unless (q \<and> key_ok st fid) (safe st fid P F0)) (safe st fid P F0) G"
    by (rule wp_mono [OF wp_cut_part [OF fits b G(1) f(1) _ f(2)]])
      (use G(2) rec b bs in \<open>auto simp: started_def up_ok_def up_at_def up_base_def unless_def\<close>)
  show ?thesis unfolding open_part_def
    by (intro wp_andThen wp_cipherFor wp_OpenFile; (unfold G_def [symmetric])?)
      (use F G cut in \<open>auto simp: unless_def intro: wp_mono intro!: wp_ret\<close>)
qed

lemma wp_Resume:
  assumes fits: "fits st P" and F: "safe st fid P F0 F"
  shows "wp q (Resume st fid offset (int (length P))) (\<lambda>u G. 0 \<le> offset \<and> started st fid P F0 (nat offset) u G)
    (\<lambda>_. unless (q \<and> key_ok st fid \<and> 0 \<le> offset \<and> boundary P (nat offset) \<and> offset \<le> received fid F) (safe st fid P F0)) (safe st fid P F0) F"
    (is "wp q _ ?Q ?E _ F")
proof (cases "0 \<le> offset \<and> offset \<le> int (length P) \<and> (offset smod ChunkSize = 0 \<or> offset = int (length P))")
  case False
  then have "\<not> (0 \<le> offset \<and> boundary P (nat offset))" by (cases offset) (auto simp: boundary_def)
  then show ?thesis unfolding Resume_def using F False by (intro wp_intros) (auto simp: unless_def intro: wp_fail)
next
  case True
  then obtain n where n: "offset = int n" by (meson nonneg_int_cases)
  then have b: "boundary P n" using True by (auto simp: boundary_def)
  have a: "aead (bs_crypto st)" using fits by (simp add: fits_def)
  have small: "int n < 2 ^ 63" using fits b by (simp add: fits_def boundary_def)
  have go: "wp q (if recorded fid F > offset then andThen (writeSynced fid offset) (\<lambda>_. open_part st fid offset (int (length P)) offset)
          else open_part st fid offset (int (length P)) (recorded fid F)) ?Q ?E (safe st fid P F0) F"
    if r: "r = received fid F \<or> \<not> q \<and> r = 0" "offset \<le> r" for r
  proof -
    have part: "\<exists>f. F (part_of fid) = Some f \<and> kept st fid P n f" if "0 < n"
      using received_kept [of st fid P F n] F r n b a that by (auto simp: safe_def)
    have R: "safe st fid P F0 (rerecorded fid offset F)" using part small n by (intro safe_rerecorded [OF F]) auto
    have o: "wp q (open_part st fid offset (int (length P)) (recorded fid G)) ?Q ?E (safe st fid P F0) G"
      if "safe st fid P F0 G" "recorded fid G \<le> offset" "G (part_of fid) = F (part_of fid)" for G
      unfolding n by (rule wp_mono [OF wp_open_part [OF fits b that(1)]]) (use that part n in \<open>auto simp: unless_def\<close>)
    have o2: "wp q (open_part st fid offset (int (length P)) offset) ?Q ?E (safe st fid P F0) (rerecorded fid offset F)"
      using o [OF R] small n by simp
    show ?thesis
      by (intro wp_if wp_andThen wp_writeSynced o2 o [OF F]) (use F R safe_tmp [OF F] in \<open>auto simp: unless_def\<close>)
  qed
  have "wp q (if r < offset then fail ErrShortPart
        else andThen (readSynced fid) (\<lambda>synced.
          if synced > offset then andThen (writeSynced fid offset) (\<lambda>_. open_part st fid offset (int (length P)) offset)
          else open_part st fid offset (int (length P)) synced)) ?Q ?E (safe st fid P F0) F"
    if "r = received fid F \<or> \<not> q \<and> r = 0" for r
  proof (rule wp_if)
    assume "r < offset"
    then show "wp q (fail ErrShortPart :: Upload fs) ?Q ?E (safe st fid P F0) F" using that F by (intro wp_fail) (auto simp: unless_def)
  next
    assume "\<not> r < offset"
    then have "offset \<le> r" by simp
    note g = go [OF that this]
    show "wp q (andThen (readSynced fid) (\<lambda>synced.
          if synced > offset then andThen (writeSynced fid offset) (\<lambda>_. open_part st fid offset (int (length P)) offset)
          else open_part st fid offset (int (length P)) synced)) ?Q ?E (safe st fid P F0) F"
      by (rule wp_andThen, rule wp_readSynced, rule g) (use F in \<open>auto simp: unless_def\<close>)
  qed
  note rest = this
  have c: "\<not> (int (length P) < 1 \<or> offset < 0 \<or> offset > int (length P))" "\<not> (offset smod ChunkSize \<noteq> 0 \<and> offset \<noteq> int (length P))"
    using True fits by (auto simp: fits_def)
  show ?thesis unfolding Resume_def if_not_P [OF c(1)] if_not_P [OF c(2)]
    by (rule wp_andThen, rule wp_Received, erule rest) (use F in \<open>auto simp: unless_def\<close>)
qed

end
