(* ===== verification/Blob_Uploads.thy ===== *)
theory Blob_Uploads
  imports Blob_Steps
begin

text \<open>
  The operations on an upload under way. The bytes a caller writes are the declared file's next
  ones: \<open>P\<close> is the whole file, \<open>fid\<close> its id.
\<close>

section \<open>Sealing and writing\<close>

lemma put_end: "length (ff_data f) = k \<Longrightarrow> ff_data (put_at k bs f) = ff_data f @ bs"
  by (simp add: put_at_def padded_def)

lemma safe_put:
  assumes "aead (bs_crypto st)" "safe st fid P F0 F" "recorded fid F \<le> int n"
  shows "safe st fid P F0 (mapped (part_of fid) (put_at (clen n) bs) F)"
  unfolding mapped_def
proof (rule safe_part [OF assms(2)])
  fix g
  assume "map_option (put_at (clen n) bs) (F (part_of fid)) = Some g" "0 < recorded fid F"
  moreover have "clen (nat (recorded fid F)) \<le> clen n" using assms(3) by (intro clen_mono) simp
  ultimately show "kept st fid P (nat (recorded fid F)) g"
    using assms(1,2) by (auto simp: safe_def blob_inv_def intro: kept_put)
qed

lemma mapped_part [simp]:
  "recorded fid (mapped (part_of fid) g F) = recorded fid F" "mapped (part_of fid) g F (part_of fid) = map_option g (F (part_of fid))"
  by (simp_all add: mapped_def)

text \<open>What a failed write leaves: a part nobody vouches for past the record.\<close>

definition up_result :: "bool \<Rightarrow> blob_store \<Rightarrow> string \<Rightarrow> string \<Rightarrow> dir \<Rightarrow> (Upload \<Rightarrow> dir \<Rightarrow> bool) \<Rightarrow> Upload \<times> blob_err option \<Rightarrow> dir \<Rightarrow> bool" where
  "up_result q st fid P F0 ok r G \<longleftrightarrow> safe st fid P F0 G \<and> (case snd r of None \<Rightarrow> ok (fst r) G | Some _ \<Rightarrow> \<not> q \<and> up_base fid P (fst r) G)"

lemma wp_sealTail:
  assumes fits: "fits st P" and F: "safe st fid P F0 F" and at: "up_at st fid P u n F" and n: "n < length P"
    and t: "up_tail u = chunk P (n div 65536)"
  shows "wp q (sealTail st u)
    (up_result q st fid P F0 (\<lambda>u' G. up_ok st fid P u' (n + length (up_tail u)) G \<and> up_tail u' = ''''))
    (\<lambda>_ _. False) (safe st fid P F0) F"
proof -
  have a: "aead (bs_crypto st)" using fits by (simp add: fits_def)
  obtain f where f: "F (part_of fid) = Some f" "ff_data f = image_of st fid P n" and b: "boundary P n"
    and u: "up_id u = fid" "up_key u = key_of st fid" "up_sealed u = int n" "up_pos u = clen n" "up_size u = int (length P)"
      "recorded fid F = up_synced u" "up_synced u \<le> int n" "boundary P (nat (up_synced u))"
    using at by (auto simp: up_at_def up_base_def)
  define m where "m = n + length (up_tail u)"
  define out where "out = cr_seal (bs_crypto st) (key_of st fid) (nonce (int (n div 65536))) (up_tail u) (aad (int (n div 65536)) (m = length P))"
  have len: "length (ff_data f) = clen n" using f(2) image_length [OF a b] by simp
  have put: "safe st fid P F0 (mapped (part_of fid) (put_at (clen n) bs) F)" for bs using u by (intro safe_put [OF a F]) simp
  have data: "ff_data (put_at (clen n) out f) = image_of st fid P m" and bm: "boundary P m"
    using image_next(1) [OF b n m_def t, of "bs_crypto st" "key_of st fid"] image_next(2) [OF b n m_def t] put_end [OF len] f(2) by (simp_all add: out_def)
  have pos: "clen n + length out = clen m"
    using image_length [OF a bm, of "key_of st fid"] data put_end [OF len, of out] len by (metis length_append)
  have l: "up_Size u = int m" "(up_Size u = up_size u) = (m = length P)" using u by (auto simp: up_Size_def m_def)
  have e: "sealTail st u = andThen (fs_Write (part_of fid) (clen n) out) (\<lambda>(k, whole).
         let u' = u\<lparr>up_pos := up_pos u + k\<rparr>
         in if \<not> whole then ret (u', Some ErrDisk) else ret (u'\<lparr>up_sealed := int m, up_tail := ''''\<rparr>, None))"
    unfolding sealTail_def l u up_part_def Let_def out_def by (simp add: u l)
  have "up_synced u \<le> int m" using u(7) by (simp add: m_def)
  then show ?thesis unfolding e m_def [symmetric]
    by (intro wp_intros) (use put f data bm pos u in \<open>auto simp: up_result_def up_ok_def up_at_def up_base_def\<close>)
qed

lemma fs_apply:
  "(if b then f else g) d = (if b then f d else g d)" "(let x = a in h x) d = (let x = a in h x d)"
  "(case y of (v, err) \<Rightarrow> case err of None \<Rightarrow> p v | Some e \<Rightarrow> q v e) d = (case y of (v, err) \<Rightarrow> case err of None \<Rightarrow> p v d | Some e \<Rightarrow> q v e d)"
  by (simp_all split: prod.splits option.splits)

lemma blob_Write_eq:
  "blob_Write st u p n =
     (if p = [] then ret (n, u, None)
      else if up_Size u \<ge> up_size u then ret (n, u, Some errPastTheEnd)
      else
        let want = min (ChunkSize - int (length (up_tail u))) (up_size u - up_sealed u - int (length (up_tail u)));
            k = nat (min want (int (length p)));
            u1 = u\<lparr>up_tail := up_tail u @ take k p\<rparr>
        in if want < 0 then fail errPanic
           else if int (length (up_tail u1)) = ChunkSize \<or> up_Size u1 = up_size u1 then
             andThen (sealTail st u1) (\<lambda>(u2, err).
               case err of None \<Rightarrow> blob_Write st u2 (drop k p) (n + k) | Some e \<Rightarrow> ret (n + k, u2, Some e))
           else blob_Write st u1 (drop k p) (n + k))"
  by (rule ext, subst blob_Write.simps, unfold fs_apply ret_def fail_def andThen_def) (rule refl)

text \<open>How many bytes the next turn of the loop takes, and what it leaves in memory.\<close>

lemma write_turn:
  assumes ok: "up_ok st fid P u n F" and p: "p \<noteq> ''''" "take (length p) (drop (n + length (up_tail u)) P) = p"
    and k: "k = nat (min (min (ChunkSize - int (length (up_tail u))) (up_size u - up_sealed u - int (length (up_tail u)))) (int (length p)))"
  shows "0 < k" "k \<le> length p" "\<not> min (ChunkSize - int (length (up_tail u))) (up_size u - up_sealed u - int (length (up_tail u))) < 0"
    "\<not> up_Size u \<ge> up_size u"
    "length (up_tail u) + k \<le> 65536" "n + length (up_tail u) + k \<le> length P"
    "up_tail u @ take k p = take (length (up_tail u) + k) (drop n P)"
    "take (length p - k) (drop (n + length (up_tail u) + k) P) = drop k p"
proof -
  have l: "length (up_tail u) < 65536" "n + length (up_tail u) + length p \<le> length P" "0 < length p"
    "up_size u = int (length P)" "up_sealed u = int n" "up_tail u = take (length (up_tail u)) (drop n P)"
    using ok p up_ok_size [OF ok] by (auto simp: up_ok_def up_at_def up_base_def dest: arg_cong [of _ _ length])
  have "min (min (ChunkSize - int (length (up_tail u))) (up_size u - up_sealed u - int (length (up_tail u)))) (int (length p))
      = min (ChunkSize - int (length (up_tail u))) (int (length p))" using l(2,4,5) by linarith
  then have "k = nat (int (min (65536 - length (up_tail u)) (length p)))" using k l(1) by (simp add: ChunkSize_def of_nat_diff)
  then have k': "k = min (65536 - length (up_tail u)) (length p)" by simp
  show "0 < k" "k \<le> length p" "length (up_tail u) + k \<le> 65536" "n + length (up_tail u) + k \<le> length P" using l k' by auto
  show "\<not> min (ChunkSize - int (length (up_tail u))) (up_size u - up_sealed u - int (length (up_tail u))) < 0" "\<not> up_Size u \<ge> up_size u"
    using l(1-5) unfolding ChunkSize_def up_Size_def by linarith+
  have "take k p = take k (drop (n + length (up_tail u)) P)" using p(2) k' by (metis min.cobounded2 min_absorb1 take_take)
  then show "up_tail u @ take k p = take (length (up_tail u) + k) (drop n P)"
    using l(6) by (metis add.commute drop_drop take_add)
  show "take (length p - k) (drop (n + length (up_tail u) + k) P) = drop k p"
    using p(2) k' by (metis add.commute drop_drop drop_take)
qed

lemma chunk_at: "boundary P n \<Longrightarrow> n < length P \<Longrightarrow> chunk P (n div 65536) = take 65536 (drop n P)"
  by (rule chunks_of [of n]) (auto simp: chunk_def boundary_def)

definition written :: "bool \<Rightarrow> blob_store \<Rightarrow> string \<Rightarrow> string \<Rightarrow> dir \<Rightarrow> int \<Rightarrow> nat \<Rightarrow> nat \<times> Upload \<times> blob_err option \<Rightarrow> dir \<Rightarrow> bool" where
  "written q st fid P F0 size1 n1 r G \<longleftrightarrow> up_result q st fid P F0 (\<lambda>u' G. (\<exists>n. up_ok st fid P u' n G) \<and> up_Size u' = size1 \<and> fst r = n1) (snd r) G"

lemma wp_Write_upload:
  assumes fits: "fits st P"
  shows "safe st fid P F0 F \<Longrightarrow> up_ok st fid P u n F \<Longrightarrow> take (length p) (drop (nat (up_Size u)) P) = p
    \<Longrightarrow> wp q (blob_Write st u p c) (written q st fid P F0 (up_Size u + int (length p)) (c + length p)) (\<lambda>_ _. False) (safe st fid P F0) F"
proof (induction "length p" arbitrary: p u n c F rule: less_induct)
  case less
  note ok = less.prems(2)
  have size: "up_Size u = int (n + length (up_tail u))" using up_ok_size [OF ok] by simp
  show ?case
  proof (cases "p = ''''")
    case True
    then show ?thesis using less.prems by (subst blob_Write_eq) (auto intro!: wp_ret simp: written_def up_result_def)
  next
    case False
    define k where "k = nat (min (min (ChunkSize - int (length (up_tail u))) (up_size u - up_sealed u - int (length (up_tail u)))) (int (length p)))"
    define u1 where "u1 = u\<lparr>up_tail := up_tail u @ take k p\<rparr>"
    note turn = write_turn [OF ok False _ k_def]
    have p: "take (length p) (drop (n + length (up_tail u)) P) = p" using less.prems(3) size by (simp add: nat_int_add)
    note turn = turn [OF p]
    have at1: "up_at st fid P u1 n F" using ok by (simp add: up_ok_def up_at_def up_base_def u1_def)
    have len1: "length (up_tail u1) = length (up_tail u) + k" using turn by (simp add: u1_def)
    have tail1: "up_tail u1 = take (length (up_tail u1)) (drop n P)" using turn(7) len1 by (simp add: u1_def)
    have size1: "up_Size u1 = up_Size u + int k" using len1 by (simp add: up_Size_def u1_def)
    have sz: "up_size u1 = int (length P)" "n < length P" using at1 turn(1,6) by (auto simp: up_at_def up_base_def)
    have rest: "take (length (drop k p)) (drop (nat (up_Size u1)) P) = drop k p"
    proof -
      have "up_Size u1 = int (n + length (up_tail u) + k)" using size size1 by simp
      then show ?thesis using turn(8) by (simp only: nat_int length_drop)
    qed
    have go: "wp q (blob_Write st u2 (drop k p) (c + k)) (written q st fid P F0 (up_Size u + int (length p)) (c + length p)) (\<lambda>_ _. False) (safe st fid P F0) G"
      if "safe st fid P F0 G" "up_ok st fid P u2 m G" "up_Size u2 = up_Size u1" for u2 m G
      using less.hyps [of "drop k p" G u2 m "c + k"] that turn(1,2) False rest size1 by (simp add: of_nat_diff)
    have b: "blob_Write st u p c = (if int (length (up_tail u1)) = ChunkSize \<or> up_Size u1 = up_size u1
        then andThen (sealTail st u1) (\<lambda>(u2, err). case err of None \<Rightarrow> blob_Write st u2 (drop k p) (c + k) | Some e \<Rightarrow> ret (c + k, u2, Some e))
        else blob_Write st u1 (drop k p) (c + k))"
      by (subst blob_Write_eq) (use False turn(3,4) in \<open>simp add: Let_def k_def u1_def\<close>)
    show ?thesis
    proof (cases "int (length (up_tail u1)) = ChunkSize \<or> up_Size u1 = up_size u1")
      case True
      have bn: "boundary P n" using at1 by (simp add: up_at_def)
      have "length (up_tail u1) = 65536 \<or> n + length (up_tail u1) = length P"
        using True len1 size1 size sz(1) by (auto simp: ChunkSize_def)
      then have "take (length (up_tail u1)) (drop n P) = take 65536 (drop n P)" using turn(5) len1 by auto
      then have "up_tail u1 = chunk P (n div 65536)" using tail1 by (simp only: chunk_at [OF bn sz(2)])
      note s = wp_sealTail [OF fits less.prems(1) at1 sz(2) this]
      have seal: "wp q (sealTail st u1) (\<lambda>(u2, err). wp q (case err of None \<Rightarrow> blob_Write st u2 (drop k p) (c + k) | Some e \<Rightarrow> ret (c + k, u2, Some e))
          (written q st fid P F0 (up_Size u + int (length p)) (c + length p)) (\<lambda>_ _. False) (safe st fid P F0)) (\<lambda>_ _. False) (safe st fid P F0) F"
      proof (rule wp_mono [OF s], goal_cases)
        case (1 r G)
        obtain u2 err where r: "r = (u2, err)" by fastforce
        show ?case
        proof (cases err)
          case None
          then have ok2: "safe st fid P F0 G" "up_ok st fid P u2 (n + length (up_tail u1)) G" "up_tail u2 = []"
            using 1 r by (simp_all add: up_result_def)
          then have "up_Size u2 = up_Size u1" using up_ok_size [OF ok2(2)] size size1 len1 by simp
          then show ?thesis using go ok2 r None by simp
        next
          case (Some e)
          then show ?thesis using 1 r by (auto simp: up_result_def written_def intro!: wp_ret)
        qed
      qed auto
      show ?thesis unfolding b if_P [OF True] by (rule wp_andThen, rule wp_mono [OF seal]) (auto split: prod.splits)
    next
      case no: False
      have "up_ok st fid P u1 n F"
        using at1 tail1 no turn(5,6) len1 size1 size sz by (auto simp: up_ok_def ChunkSize_def)
      then show ?thesis unfolding b using no go [OF less.prems(1)] by simp
    qed
  qed
qed

section \<open>Making durable, cutting back, finishing\<close>

lemma up_ok_frame:
  assumes "up_ok st fid P u n F" "recorded fid G = recorded fid F" "\<And>f. F (part_of fid) = Some f \<Longrightarrow> \<exists>g. G (part_of fid) = Some g \<and> ff_data g = ff_data f"
  shows "up_ok st fid P u n G"
proof -
  obtain f where "F (part_of fid) = Some f" "ff_data f = image_of st fid P n" using assms(1) by (auto simp: up_ok_def up_at_def)
  then have "\<exists>g. G (part_of fid) = Some g \<and> ff_data g = image_of st fid P n" using assms(3) by metis
  then show ?thesis using assms(1,2) by (simp add: up_ok_def up_at_def up_base_def)
qed

lemma flush_safe:
  assumes "safe st fid P F0 F" "aead (bs_crypto st)"
  shows "safe st fid P F0 (mapped (part_of fid) flush_file F)"
  unfolding mapped_def
proof (rule safe_part [OF assms(1)])
  fix g
  assume "map_option flush_file (F (part_of fid)) = Some g" "0 < recorded fid F"
  then show "kept st fid P (nat (recorded fid F)) g" using assms by (auto simp: safe_def blob_inv_def intro: kept_flush)
qed

lemma flush_keeps:
  assumes "up_ok st fid P u n F" "aead (bs_crypto st)"
  shows "up_ok st fid P u n (mapped (part_of fid) flush_file F)"
    "\<exists>g. mapped (part_of fid) flush_file F (part_of fid) = Some g \<and> kept st fid P n g \<and> ff_clean g \<and> ff_data g = image_of st fid P n"
proof -
  show "up_ok st fid P u n (mapped (part_of fid) flush_file F)" by (rule up_ok_frame [OF assms(1)]) (auto simp: flush_file_def)
  obtain f where "F (part_of fid) = Some f" "ff_data f = image_of st fid P n" "boundary P n" using assms(1) by (auto simp: up_ok_def up_at_def)
  then show "\<exists>g. mapped (part_of fid) flush_file F (part_of fid) = Some g \<and> kept st fid P n g \<and> ff_clean g \<and> ff_data g = image_of st fid P n"
    using image_length [OF assms(2), of P n "key_of st fid"] by (auto simp: flush_file_def kept_def)
qed

lemma up_ok_tmp: "up_ok st fid P u n F \<Longrightarrow> up_ok st fid P u n (F(tmp_of fid := x))"
  by (rule up_ok_frame) auto

definition saved :: "bool \<Rightarrow> blob_store \<Rightarrow> string \<Rightarrow> string \<Rightarrow> dir \<Rightarrow> Upload \<Rightarrow> nat \<Rightarrow> Upload \<times> blob_err option \<Rightarrow> dir \<Rightarrow> bool" where
  "saved q st fid P F0 u n r G \<longleftrightarrow> safe st fid P F0 G \<and> up_ok st fid P (fst r) n G \<and> up_tail (fst r) = up_tail u
     \<and> (snd r = None \<longrightarrow> up_synced (fst r) = int n) \<and> (q \<longrightarrow> snd r = None)"

lemma wp_Checkpoint:
  assumes fits: "fits st P" and F: "safe st fid P F0 F" "up_ok st fid P u n F"
  shows "wp q (Checkpoint u) (saved q st fid P F0 u n) (\<lambda>_ _. False) (safe st fid P F0) F"
proof -
  have a: "aead (bs_crypto st)" using fits by (simp add: fits_def)
  define G where "G = mapped (part_of fid) flush_file F"
  have G: "safe st fid P F0 G" "up_ok st fid P u n G" unfolding G_def using flush_safe [OF F(1) a] flush_keeps(1) [OF F(2) a] by blast+
  obtain g where g: "G (part_of fid) = Some g" "kept st fid P n g" using flush_keeps(2) [OF F(2) a] by (auto simp: G_def)
  have u: "up_id u = fid" "up_sealed u = int n" "n \<le> length P" "up_size u = int (length P)"
    using F(2) by (auto simp: up_ok_def up_at_def up_base_def boundary_def)
  have small: "int n < 2 ^ 63" using u(3) fits by (simp add: fits_def)
  have R: "safe st fid P F0 (rerecorded fid (int n) G)" by (rule safe_rerecorded [OF G(1)]) (use g small in auto)
  have ok: "up_ok st fid P (u\<lparr>up_synced := int n\<rparr>) n (rerecorded fid (int n) G)"
    using G(2) small by (simp add: up_ok_def up_at_def up_base_def)
  have S: "saved q st fid P F0 u n (u, None) F" if "int n = up_synced u" using F that by (simp add: saved_def)
  have E: "saved q st fid P F0 u n (u, Some e) F" "saved q st fid P F0 u n (u, Some e) (G(tmp_of fid := x))" if "\<not> q" for e x
    using F safe_tmp [OF G(1)] up_ok_tmp [OF G(2)] that by (simp_all add: saved_def)
  have O: "saved q st fid P F0 u n (u\<lparr>up_synced := int n\<rparr>, None) (rerecorded fid (int n) G)" using R ok by (simp add: saved_def)
  show ?thesis
    unfolding Checkpoint_def up_part_def u
    by (intro wp_intros; (unfold G_def [symmetric])?) (use F(1) G(1) S E O R safe_tmp [OF G(1)] in blast)+
qed

lemma wp_closing [wp_intros]:
  "(\<And>e. (q \<Longrightarrow> e = err) \<Longrightarrow> Q (u, e) F) \<Longrightarrow> (\<not> q \<Longrightarrow> C F) \<Longrightarrow> wp q (closing u err) Q E C F"
  unfolding closing_def by (intro wp_intros) auto

lemma wp_Suspend:
  assumes "fits st P" "safe st fid P F0 F" "up_ok st fid P u n F"
  shows "wp q (Suspend u) (\<lambda>_ G. safe st fid P F0 G \<and> (q \<longrightarrow> recorded fid G = int n \<and> (\<exists>g. G (part_of fid) = Some g \<and> ff_data g = image_of st fid P n)))
    (\<lambda>_ _. False) (safe st fid P F0) F"
  unfolding Suspend_def
  by (rule wp_andThen, rule wp_mono [OF wp_Checkpoint [OF assms]]) (auto simp: saved_def up_ok_def up_at_def up_base_def intro!: wp_closing split: prod.splits)

lemma safe_cut:
  assumes "aead (bs_crypto st)" "safe st fid P F0 F" "recorded fid F \<le> int n"
  shows "safe st fid P F0 (mapped (part_of fid) (cut_file (clen n)) F)"
  unfolding mapped_def
proof (rule safe_part [OF assms(2)])
  fix g
  assume "map_option (cut_file (clen n)) (F (part_of fid)) = Some g" "0 < recorded fid F"
  moreover have "clen (nat (recorded fid F)) \<le> clen n" using assms(3) by (intro clen_mono) simp
  ultimately show "kept st fid P (nat (recorded fid F)) g"
    using assms(1,2) by (auto simp: safe_def blob_inv_def intro: kept_cut)
qed

lemma wp_Rollback:
  assumes fits: "fits st P" and F: "safe st fid P F0 F" and u: "up_base fid P u F" and b: "boundary P n"
  shows "wp q (Rollback u (int n)) (\<lambda>r G. safe st fid P F0 G \<and> up_id (fst r) = fid) (\<lambda>_ _. False) (safe st fid P F0) F"
proof -
  have a: "aead (bs_crypto st)" using fits by (simp add: fits_def)
  have id0: "up_id u = fid" "recorded fid F = up_synced u" using u by (auto simp: up_base_def)
  have small: "int n < 2 ^ 63" using b fits by (simp add: fits_def boundary_def)
  have k: "kept st fid P n g" if "F (part_of fid) = Some g" "0 < n" "int n < up_synced u" for g
    using that F id0(2) by (intro kept_less [OF a _ b]) (auto simp: safe_def blob_inv_def)
  have R: "safe st fid P F0 (rerecorded fid (int n) F)" if "int n < up_synced u"
    by (rule safe_rerecorded [OF F]) (use k that small in auto)
  have cut: "wp q (andThen (attempt (fs_Truncate (part_of fid) (nat (CipherLen (int n))))) (\<lambda>r.
       case r of Inl e \<Rightarrow> ret (v, Some e) | Inr _ \<Rightarrow> ret (v\<lparr>up_sealed := int n\<rparr>, None)))
     (\<lambda>r G. safe st fid P F0 G \<and> up_id (fst r) = fid) (\<lambda>_ _. False) (safe st fid P F0) G"
    if "safe st fid P F0 G" "recorded fid G \<le> int n" "up_id v = fid" for v G
    unfolding CipherLen_at [OF fits b] by (intro wp_intros) (use that safe_cut [OF a that(1,2)] in auto)
  have first: "wp q (if up_synced u > int n
              then andThen (attempt (writeSynced (up_id u) (int n))) (\<lambda>r.
                     case r of Inl e \<Rightarrow> ret (u, Some e) | Inr _ \<Rightarrow> ret (u\<lparr>up_synced := int n\<rparr>, None))
              else ret (u, None))
     (\<lambda>r G. safe st fid P F0 G \<and> up_id (fst r) = fid \<and> (snd r = None \<longrightarrow> recorded fid G \<le> int n)) (\<lambda>_ _. False) (safe st fid P F0) F"
    unfolding id0(1) by (intro wp_intros) (use F R id0 small safe_tmp [OF F] in auto)
  have second: "wp q (andThen (if err = None
              then andThen (attempt (fs_Truncate (part_of (up_id v)) (nat (CipherLen (int n))))) (\<lambda>r.
                     case r of Inl e \<Rightarrow> ret (v, Some e) | Inr _ \<Rightarrow> ret (v\<lparr>up_sealed := int n\<rparr>, None))
              else ret (v, err)) (\<lambda>(u2, err). closing (u2\<lparr>up_tail := ''''\<rparr>) err))
     (\<lambda>r G. safe st fid P F0 G \<and> up_id (fst r) = fid) (\<lambda>_ _. False) (safe st fid P F0) G"
    if "safe st fid P F0 G" "up_id v = fid" "err = None \<Longrightarrow> recorded fid G \<le> int n" for v err G
  proof (cases "err = None")
    case True
    show ?thesis unfolding that(2) if_P [OF True]
      by (rule wp_andThen, rule wp_mono [OF cut [OF that(1) that(3) [OF True] that(2)]]) (auto intro!: wp_closing split: prod.splits)
  next
    case False
    show ?thesis unfolding if_not_P [OF False]
      by (rule wp_andThen, rule wp_ret) (use that in \<open>auto intro!: wp_closing\<close>)
  qed
  show ?thesis unfolding Rollback_def up_part_def
    by (rule wp_andThen, rule wp_mono [OF first], rule wp_prod, rule second) auto
qed

lemma wp_Abort:
  assumes F: "safe st fid P F0 F" and u: "up_id u = fid"
  shows "wp q (Abort u) (\<lambda>_. safe st fid P F0) (\<lambda>_ _. False) (safe st fid P F0) F"
  unfolding Abort_def up_part_def u by (intro wp_intros) (use F in \<open>auto intro: safe_gone\<close>)

lemma wp_Store_Remove:
  assumes F: "safe st fid P F0 F"
  shows "wp q (Store_Remove fid) (\<lambda>_. safe st fid P F0) (\<lambda>_. safe st fid P F0) (safe st fid P F0) F"
  unfolding Store_Remove_def by (intro wp_intros) (use F in \<open>auto intro: safe_gone\<close>)

lemma safe_finished:
  assumes "safe st fid P F0 F" "F (part_of fid) = Some g" "ff_clean g" "ff_data g = image_of st fid P (length P)"
  shows "safe st fid P F0 (renamed (part_of fid) fid F)" "renamed (part_of fid) fid F fid = Some g"
  using assms by (auto simp: safe_def blob_inv_def renamed_def)

lemma wp_Finalize:
  assumes fits: "fits st P" and F: "safe st fid P F0 F" "up_ok st fid P u n F"
  shows "wp q (Finalize u) (\<lambda>_ G. safe st fid P F0 G \<and> G fid \<noteq> None)
    (\<lambda>_. unless (q \<and> up_sealed u = up_size u \<and> up_tail u = '''') (safe st fid P F0)) (safe st fid P F0) F"
proof (cases "up_sealed u = up_size u \<and> up_tail u = ''''")
  case False
  then show ?thesis unfolding Finalize_def by (intro wp_intros) (use F in \<open>auto simp: unless_def\<close>)
next
  case True
  have a: "aead (bs_crypto st)" using fits by (simp add: fits_def)
  define G where "G = mapped (part_of fid) flush_file F"
  have u: "up_id u = fid" "n = length P" using F(2) True by (auto simp: up_ok_def up_at_def up_base_def)
  have G: "safe st fid P F0 G" unfolding G_def using flush_safe [OF F(1) a] .
  obtain g where g: "G (part_of fid) = Some g" "ff_clean g" "ff_data g = image_of st fid P (length P)"
    using flush_keeps(2) [OF F(2) a] u by (auto simp: G_def)
  note N = safe_finished [OF G g]
  show ?thesis unfolding Finalize_def up_part_def u
    by (intro wp_intros; (unfold G_def [symmetric])?) (use True F G N g in \<open>auto simp: unless_def intro: safe_gone\<close>)
qed

end
