(* ===== verification/Transfer_Steps.thy ===== *)
theory Transfer_Steps
  imports Transfers Blob_Uploads
begin

text \<open>
  A PUT keeps the promise of the blob store on every path, and without faults it does what the
  protocol says: a body that carries the rest of the file finishes it, and a body that breaks off
  leaves all its whole chunks.
\<close>

section \<open>Bodies\<close>

lemma limited_eq:
  "0 \<le> n \<Longrightarrow> concat (fst (limited n bs e)) = take (nat n) (concat bs)
     \<and> snd (limited n bs e) = (if int (length (concat bs)) \<le> n then e else MaxBytesError)"
proof (induction bs arbitrary: n)
  case (Cons b bs)
  show ?case
  proof (cases "int (length b) \<le> n")
    case True
    then have "nat (n - int (length b)) = nat n - length b" "length b \<le> nat n" by linarith+
    then show ?thesis using True Cons.IH [of "n - int (length b)"] by (auto simp: Let_def case_prod_beta)
  next
    case False
    then have "nat n \<le> length b" by linarith
    then show ?thesis using False Cons.prems by auto
  qed
qed simp

text \<open>The client sends its own file: what arrives is the file from the offset on, or a beginning of it, or it and more.\<close>

definition honest :: "string \<Rightarrow> int \<Rightarrow> body \<Rightarrow> bool" where
  "honest P offset b \<longleftrightarrow> (let xs = concat (bd_reads b); ys = drop (nat offset) P; k = min (length xs) (length ys) in take k xs = take k ys)"

lemma honest_taken:
  "honest P offset b \<Longrightarrow> 0 \<le> offset \<Longrightarrow> offset \<le> int (length P) \<Longrightarrow>
     take (nat (int (length P) - offset)) (concat (bd_reads b)) = take (length (concat (bd_reads b))) (drop (nat offset) P)"
  by (cases "length (concat (bd_reads b)) \<le> length P - nat offset") (auto simp: honest_def Let_def min_def nat_diff_distrib')

section \<open>Receiving\<close>

definition delivered :: "bool \<Rightarrow> blob_store \<Rightarrow> string \<Rightarrow> string \<Rightarrow> dir \<Rightarrow> int \<Rightarrow> nat \<Rightarrow> read_end
    \<Rightarrow> nat \<times> Upload \<times> read_end option \<times> blob_err option \<Rightarrow> dir \<Rightarrow> bool" where
  "delivered q st fid P F0 size1 n1 e r G \<longleftrightarrow>
     safe st fid P F0 G
   \<and> (case r of (n, u, readErr, writeErr) \<Rightarrow>
        if writeErr \<noteq> None then \<not> q \<and> up_base fid P u G
        else (\<exists>k. up_ok st fid P u k G) \<and> up_Size u = size1 \<and> n = n1 \<and> readErr = (if e = EOF then None else Some e))"

lemma wp_receive:
  assumes fits: "fits st P"
  shows "safe st fid P F0 F \<Longrightarrow> up_ok st fid P u n F \<Longrightarrow> take (length (concat bs)) (drop (nat (up_Size u)) P) = concat bs
    \<Longrightarrow> wp q (receive st cp u bs e since c) (delivered q st fid P F0 (up_Size u + int (length (concat bs))) (c + length (concat bs)) e) (\<lambda>_ _. False)
          (safe st fid P F0) F"
proof (induction bs arbitrary: u n since c F)
  case Nil
  then show ?case by (auto simp: delivered_def intro!: wp_ret)
next
  case (Cons b bs)
  define w where "w = up_Size u + int (length b)"
  have nonneg: "nat w = nat (up_Size u) + length b" using up_ok_size [OF Cons.prems(2)] by (simp add: w_def nat_add_distrib)
  define xs where "xs = drop (nat (up_Size u)) P"
  have xs: "take (length b + length (concat bs)) xs = b @ concat bs" using Cons.prems(3) by (simp add: xs_def)
  have "take (length b) (take (length b + length (concat bs)) xs) = b" "drop (length b) (take (length b + length (concat bs)) xs) = concat bs"
    unfolding xs by simp_all
  then have "take (length b) xs = b" "take (length (concat bs)) (drop (length b) xs) = concat bs" by (simp_all add: drop_take)
  then have b: "take (length b) (drop (nat (up_Size u)) P) = b" and bs: "take (length (concat bs)) (drop (nat w) P) = concat bs"
    by (simp_all add: xs_def nonneg add.commute)
  have go: "wp q (receive st cp v bs e since' (c + length b)) (delivered q st fid P F0 (up_Size u + int (length (concat (b # bs)))) (c + length (concat (b # bs))) e)
      (\<lambda>_ _. False) (safe st fid P F0) G"
    if "safe st fid P F0 G" "up_ok st fid P v m G" "up_Size v = w" for v m G since'
    using Cons.IH [OF that(1,2), of since' "c + length b"] bs that(3) by (simp add: w_def algebra_simps)
  show ?case
  proof (cases "b = ''''")
    case True
    then show ?thesis using Cons.IH [OF Cons.prems(1,2)] Cons.prems(3) by simp
  next
    case False
    have wr: "wp q (blob_Write st u b 0) (written q st fid P F0 w (length b)) (\<lambda>_ _. False) (safe st fid P F0) F"
      using wp_Write_upload [OF fits Cons.prems(1,2) b, of q 0] by (simp add: w_def)
    have check: "wp q (andThen (Checkpoint v) (\<lambda>(u2, err).
              case err of
                Some x \<Rightarrow> ret (c + length b, u2, None, Some x)
              | None \<Rightarrow> receive st cp u2 bs e 0 (c + length b)))
        (delivered q st fid P F0 (up_Size u + int (length (concat (b # bs)))) (c + length (concat (b # bs))) e) (\<lambda>_ _. False) (safe st fid P F0) G"
      if v: "safe st fid P F0 G" "up_ok st fid P v m G" "up_Size v = w" for v m G
    proof (rule wp_andThen, rule wp_mono [OF wp_Checkpoint [OF fits v(1,2)]], rule wp_prod, rule wp_option, goal_cases)
      case (1 r H u2 err)
      then have s: "safe st fid P F0 H" "up_ok st fid P u2 m H" "up_tail u2 = up_tail v" by (auto simp: saved_def)
      then have "up_Size u2 = w" using up_ok_size [OF s(2)] up_ok_size [OF v(2)] v(3) by simp
      then show ?case using go s by blast
    next
      case (2 r H u2 err x)
      then show ?case by (auto simp: saved_def delivered_def up_ok_def up_at_def intro!: wp_ret)
    qed auto
    show ?thesis unfolding receive.simps if_not_P [OF False]
    proof (rule wp_andThen, rule wp_mono [OF wr], rule wp_prod, rule wp_prod, rule wp_option, goal_cases)
      case (1 r G k r' v err)
      then obtain m where m: "safe st fid P F0 G" "up_ok st fid P v m G" "up_Size v = w" "k = length b" by (auto simp: written_def up_result_def)
      then show ?case using check go by (intro wp_if) auto
    next
      case (2 r G k r' v err x)
      then show ?case by (auto simp: written_def up_result_def delivered_def intro!: wp_ret)
    qed auto
  qed
qed

section \<open>A PUT\<close>

lemma received_image:
  assumes "aead (bs_crypto st)" "boundary P n" "F (part_of fid) = Some f" "ff_data f = image_of st fid P n" "recorded fid F = int n"
  shows "received fid F = int n"
proof -
  have "take 32 (ff_data f) = header" using assms(4) by (simp add: image_def)
  moreover have "plainLen (int (length (ff_data f))) = int n" using assms(1,2,4) by (simp add: image_length plainLen_clen)
  ultimately show ?thesis using assms(3,5) by (simp add: received_def durable_def)
qed

definition put_result :: "bool \<Rightarrow> blob_store \<Rightarrow> string \<Rightarrow> string \<Rightarrow> dir \<Rightarrow> bool \<Rightarrow> int \<Rightarrow> body \<Rightarrow> put_end \<Rightarrow> dir \<Rightarrow> bool" where
  "put_result q st fid P F0 able offset b a G \<longleftrightarrow>
     safe st fid P F0 G \<and> (a = Whole \<longrightarrow> G fid \<noteq> None)
   \<and> (q \<and> able \<longrightarrow>
        (let n = nat offset + length (concat (bd_reads b))
         in if length P < n then a = Answered 413
            else if n = length P \<and> bd_end b = EOF then a = Whole
            else bd_end b \<noteq> MaxBytesError \<longrightarrow>
              a = Answered (if bd_end b = EOF then 400 else answerBroken (bd_end b)) \<and> int n - 65536 < received fid G))"

lemma wp_put_receive:
  assumes fits: "fits st P" and F: "safe st fid P F0 F" and h: "honest P offset b"
    and able: "able \<longleftrightarrow> key_ok st fid \<and> 0 \<le> offset \<and> boundary P (nat offset) \<and> offset \<le> received fid F"
  shows "wp q (put_receive st cp fid offset (int (length P)) b) (put_result q st fid P F0 able offset b) (\<lambda>_ _. False) (safe st fid P F0) F"
proof -
  have a: "aead (bs_crypto st)" using fits by (simp add: fits_def)
  define n where "n = nat offset + length (concat (bd_reads b))"
  have after: "wp q (let (reads, e) = limited (int (length P) - offset) (bd_reads b) (bd_end b)
         in andThen (receive st cp u reads e 0 0) (\<lambda>(n, u, readErr, writeErr).
            if writeErr \<noteq> None then
              andThen (Rollback u (up_Durable u)) (\<lambda>(u1, err).
              if err \<noteq> None then andThen (Abort u1) (\<lambda>_. ret (Answered 500)) else ret (Answered 500))
            else if readErr = Some MaxBytesError then
              andThen (Rollback u offset) (\<lambda>_. ret (Answered 413))
            else case readErr of
                Some e \<Rightarrow> andThen (Suspend u) (\<lambda>_. ret (Answered (answerBroken e)))
              | None \<Rightarrow>
                  if int n < int (length P) - offset then andThen (Suspend u) (\<lambda>_. ret (Answered 400))
                  else andThen (attempt (Finalize u)) (\<lambda>r.
                    ret (case r of Inl _ \<Rightarrow> Answered 500 | Inr _ \<Rightarrow> Whole))))
      (put_result q st fid P F0 able offset b) (\<lambda>_ _. False) (safe st fid P F0) G"
    if u: "0 \<le> offset" "started st fid P F0 (nat offset) u G" for u G
  proof -
    have up: "safe st fid P F0 G" "up_ok st fid P u (nat offset) G" "up_Size u = offset"
      using u up_ok_size [of st fid P u "nat offset" G] by (auto simp: started_def)
    have bo: "boundary P (nat offset)" "offset \<le> int (length P)" using up(2) u(1) by (auto simp: up_ok_def up_at_def boundary_def)
    define m where "m = length (take (nat (int (length P) - offset)) (concat (bd_reads b)))"
    define e where "e = (if int (length (concat (bd_reads b))) \<le> int (length P) - offset then bd_end b else MaxBytesError)"
    obtain reads where l: "limited (int (length P) - offset) (bd_reads b) (bd_end b) = (reads, e)"
      and reads: "concat reads = take (nat (int (length P) - offset)) (concat (bd_reads b))"
      using limited_eq [of "int (length P) - offset" "bd_reads b" "bd_end b"] bo(2) by (cases "limited (int (length P) - offset) (bd_reads b) (bd_end b)") (auto simp: e_def)
    have pre: "take (length (concat reads)) (drop (nat (up_Size u)) P) = concat reads"
      using honest_taken [OF h u(1) bo(2)] reads up(3) by (simp add: min_def)
    note rec = wp_receive [OF fits up(1,2) pre, of q cp e 0 0]
    have m: "length (concat reads) = m" using reads by (simp add: m_def)
    show ?thesis unfolding l Let_def prod.case
    proof (rule wp_andThen, rule wp_mono [OF rec], (rule wp_prod)+, rule wp_if, goal_cases)
      case (1 r H k r' v r'' readErr writeErr)
      then have v: "safe st fid P F0 H" "up_base fid P v H" "\<not> q" by (auto simp: delivered_def)
      then have d: "up_Durable v = int (nat (up_synced v))" "boundary P (nat (up_synced v))"
        using recorded_nonneg [of fid H] by (auto simp: up_base_def up_Durable_def)
      have ab: "wp q (if err \<noteq> None then andThen (Abort u1) (\<lambda>_. ret (Answered 500)) else ret (Answered 500))
          (put_result q st fid P F0 able offset b) (\<lambda>_ _. False) (safe st fid P F0) H'"
        if "safe st fid P F0 H'" "up_id u1 = fid" for u1 err H'
        using that v(3) by (intro wp_if wp_andThen wp_mono [OF wp_Abort] wp_ret) (auto simp: put_result_def intro: wp_ret)
      show ?case unfolding d(1)
        by (rule wp_andThen, rule wp_mono [OF wp_Rollback [OF fits v(1,2) d(2)]], rule wp_prod, rule ab) auto
    next
      case (2 r H k r' v r'' readErr writeErr)
      then obtain i where v: "safe st fid P F0 H" "up_ok st fid P v i H" "up_Size v = offset + int m" "k = m" "readErr = (if e = EOF then None else Some e)"
        using up(3) m by (auto simp: delivered_def)
      have vb: "up_base fid P v H" using v(2) by (simp add: up_ok_def up_at_def)
      have sz: "offset + int m = int (i + length (up_tail v))" "i + length (up_tail v) \<le> length P" using up_ok_size [OF v(2)] v(3) by auto
      have ns: "m = length (concat (bd_reads b)) \<or> length P < n \<and> e = MaxBytesError" "length P < n \<Longrightarrow> e = MaxBytesError" "\<not> length P < n \<Longrightarrow> e = bd_end b \<and> int n = offset + int m"
        using u(1) bo(2) by (auto simp: m_def n_def e_def min_def)
      have susp: "wp q (andThen (Suspend v) (\<lambda>_. ret (Answered code))) (put_result q st fid P F0 able offset b) (\<lambda>_ _. False) (safe st fid P F0) H"
        if code: "e \<noteq> MaxBytesError" "\<not> (e = EOF \<and> n = length P)" "code = (if e = EOF then 400 else answerBroken e)" for code
      proof (rule wp_andThen, rule wp_mono [OF wp_Suspend [OF fits v(1,2)]])
        fix x J
        assume J: "safe st fid P F0 J \<and> (q \<longrightarrow> recorded fid J = int i \<and> (\<exists>g. J (part_of fid) = Some g \<and> ff_data g = image_of st fid P i))"
        have "received fid J = int i" if q using J that v(2) received_image [OF a, of P i J fid] by (auto simp: up_ok_def up_at_def)
        moreover have "\<not> length P < n" using ns(2) code(1) by blast
        moreover have "length (up_tail v) < 65536" using v(2) by (simp add: up_ok_def)
        ultimately show "wp q (ret (Answered code)) (put_result q st fid P F0 able offset b) (\<lambda>_ _. False) (safe st fid P F0) J"
          using J code ns(3) sz by (intro wp_ret) (auto simp: put_result_def Let_def n_def [symmetric])
      qed auto
      have roll: "wp q (andThen (Rollback v offset) (\<lambda>_. ret (Answered 413))) (put_result q st fid P F0 able offset b) (\<lambda>_ _. False) (safe st fid P F0) H"
        if "e = MaxBytesError"
      proof -
        have o: "offset = int (nat offset)" using u(1) by simp
        show ?thesis
          by (subst o, rule wp_andThen, rule wp_mono [OF wp_Rollback [OF fits v(1) vb bo(1)]])
            (use that ns in \<open>auto simp: put_result_def Let_def n_def [symmetric] intro!: wp_ret\<close>)
      qed
      have fin: "wp q (andThen (attempt (Finalize v)) (\<lambda>r. ret (case r of Inl _ \<Rightarrow> Answered 500 | Inr _ \<Rightarrow> Whole)))
          (put_result q st fid P F0 able offset b) (\<lambda>_ _. False) (safe st fid P F0) H"
        if "e = EOF" "\<not> int k < int (length P) - offset"
      proof -
        have "\<not> length P < n" using ns(2) that(1) by auto
        then have full: "n = length P" using that(2) ns(3) sz v(4) by linarith
        have "up_sealed v = up_size v" "up_tail v = ''''"
          using sz that v(2,4) by (auto simp: up_ok_def up_at_def up_base_def boundary_def)
        then show ?thesis
          by (intro wp_andThen wp_attempt wp_mono [OF wp_Finalize [OF fits v(1,2)]] wp_ret)
            (use full that ns in \<open>auto simp: put_result_def unless_def Let_def n_def [symmetric]\<close>)
      qed
      have short: "e = EOF \<Longrightarrow> int k < int (length P) - offset \<Longrightarrow> n \<noteq> length P" using ns sz v(4) by auto
      show ?case
      proof (cases "e = EOF")
        case True
        then show ?thesis using 2 v(5) fin susp [of 400] short by (auto intro!: wp_if)
      next
        case False
        then show ?thesis using 2 v(5) roll susp [of "answerBroken e"] by (auto intro!: wp_if simp del: answerBroken.simps)
      qed
    qed (auto simp: put_result_def)
  qed
  have fail: "wp q (ret (Answered (if x = ErrShortPart then 404 else 500))) (put_result q st fid P F0 able offset b) (\<lambda>_ _. False) (safe st fid P F0) G"
    if "unless (q \<and> key_ok st fid \<and> 0 \<le> offset \<and> boundary P (nat offset) \<and> offset \<le> received fid F) (safe st fid P F0) G" for x G
    using that able by (intro wp_ret) (auto simp: put_result_def unless_def)
  show ?thesis unfolding put_receive_def
    by (rule wp_andThen, rule wp_attempt, rule wp_mono [OF wp_Resume [OF fits F]]) (use after fail in \<open>auto intro!: wp_ret simp: sum.case\<close>)
qed

end
