(* ===== verification/Blob_Reader.thy ===== *)
theory Blob_Reader
  imports Blob_Uploads
begin

text \<open>Reading a whole file back, in any pieces, chunk by chunk.\<close>

section \<open>Chunks of a whole file\<close>

lemma image_chunk:
  assumes a: "aead cr" and i: "i * 65536 < length P"
  shows "32 + i * 65552 + (length (chunk P i) + 16) \<le> length (image cr key P (length P))"
    and "take (length (chunk P i) + 16) (drop (32 + i * 65552) (image cr key P (length P))) = sealed_chunk cr key P i"
proof -
  define N where "N = (length P + 65535) div 65536"
  obtain q r where n: "length P = q * 65536 + r" "r < (65536::nat)" "length P div 65536 = q" "length P mod 65536 = r" by (rule chunks_of)
  have "i < N" using i n(1,2) chunks_at [OF n(2), of q] by (cases "r = 0") (auto simp: N_def)
  then have "[0..<N] = [0..<i] @ [i..<N]" "[i..<N] = i # [Suc i..<N]"
    by (metis le_add_diff_inverse less_imp_le_nat upt_add_eq_append zero_le) (simp add: upt_conv_Cons \<open>i < N\<close>)
  then have N: "[0..<N] = [0..<i] @ i # [Suc i..<N]" by simp
  have len: "length (header @ concat (map (sealed_chunk cr key P) [0..<i])) = 32 + i * 65552"
    using full_chunks_length [OF a, of i P key] i by simp
  have img: "image cr key P (length P) = (header @ concat (map (sealed_chunk cr key P) [0..<i])) @ sealed_chunk cr key P i @ concat (map (sealed_chunk cr key P) [Suc i..<N])"
    unfolding image_def N_def [symmetric] N by simp
  show "32 + i * 65552 + (length (chunk P i) + 16) \<le> length (image cr key P (length P))"
    unfolding img length_append [of "header @ _"] len by (simp add: sealed_chunk_length [OF a])
  have "drop (32 + i * 65552) (image cr key P (length P)) = sealed_chunk cr key P i @ concat (map (sealed_chunk cr key P) [Suc i..<N])"
    unfolding img by (metis append_eq_conv_conj len)
  then show "take (length (chunk P i) + 16) (drop (32 + i * 65552) (image cr key P (length P))) = sealed_chunk cr key P i"
    by (simp add: sealed_chunk_length [OF a])
qed

section \<open>A reader at work\<close>

definition rd_ok :: "blob_store \<Rightarrow> string \<Rightarrow> string \<Rightarrow> Reader \<Rightarrow> dir \<Rightarrow> bool" where
  "rd_ok st fid P r F \<longleftrightarrow>
     bytes_in fid F = image_of st fid P (length P) \<and> rd_id r = fid \<and> rd_key r = key_of st fid \<and> rd_size r = int (length P) \<and> 0 \<le> rd_pos r
   \<and> (rd_chunk r = - 1 \<or> (\<exists>i. rd_chunk r = int i \<and> i * 65536 < length P \<and> rd_plain r = chunk P i))"

lemma wp_load:
  assumes a: "aead (bs_crypto st)" and r: "rd_ok st fid P r F" and i: "i * 65536 < length P"
  shows "wp q (load st r (int i))
    (\<lambda>(r', err) G. G = F \<and> rd_ok st fid P r' F \<and> rd_pos r' = rd_pos r
       \<and> (case err of None \<Rightarrow> rd_chunk r' = int i \<and> rd_plain r' = chunk P i | Some e \<Rightarrow> \<not> q \<and> e = ErrDisk)) (\<lambda>_ _. False) (\<lambda>G. G = F) F"
proof -
  have len: "min ChunkSize (rd_size r - int i * ChunkSize) = int (length (chunk P i))"
    using r i by (auto simp: rd_ok_def ChunkSize_def chunk_def min_def of_nat_diff)
  have pos: "nat (HeaderSize + int i * sealedSize) = 32 + i * 65552" "nat (int (length (chunk P i)) + tagSize) = length (chunk P i) + 16"
    by (simp_all add: sizes nat_add_distrib nat_mult_distrib)
  have last0: "(int i * ChunkSize + int (length (chunk P i)) = rd_size r) = (i * 65536 + length (chunk P i) = length P)"
    using r by (auto simp: rd_ok_def ChunkSize_def)
  have opens: "cr_open (bs_crypto st) (rd_key r) (nonce (int i)) (sealed_chunk (bs_crypto st) (key_of st fid) P i) (aad (int i) (i * 65536 + length (chunk P i) = length P)) = Some (chunk P i)"
    using a r by (simp add: aead_def sealed_chunk_def rd_ok_def)
  have d: "bytes_in (rd_id r) F = image_of st fid P (length P)" using r by (simp add: rd_ok_def)
  show ?thesis unfolding load_def Let_def len pos last0
    by (intro wp_intros, unfold d image_chunk(2) [OF a i])
      (use image_chunk(1) [OF a i, of "key_of st fid"] opens r i in \<open>auto simp: rd_ok_def\<close>)
qed

text \<open>The bytes of \<open>P\<close> from a position on, as many as there are.\<close>

definition piece :: "string \<Rightarrow> nat \<Rightarrow> string \<Rightarrow> bool" where
  "piece P pos bs \<longleftrightarrow> bs = take (length bs) (drop pos P)"

lemma piece_Nil [simp]: "piece P pos ''''"
  by (simp add: piece_def)

lemma piece_take: "piece P pos (take k (drop pos P))"
  by (simp add: piece_def min_def)

lemma piece_append: "piece P pos bs \<Longrightarrow> piece P (pos + length bs) cs \<Longrightarrow> piece P pos (bs @ cs)"
  unfolding piece_def by (metis add.commute drop_drop length_append take_add)

definition read_ok :: "bool \<Rightarrow> blob_store \<Rightarrow> string \<Rightarrow> string \<Rightarrow> dir \<Rightarrow> int \<Rightarrow> Reader \<times> string \<times> blob_err option \<Rightarrow> dir \<Rightarrow> bool" where
  "read_ok q st fid P F pos x G \<longleftrightarrow>
     G = F \<and> (case x of (r, bs, err) \<Rightarrow>
       rd_ok st fid P r F \<and> rd_pos r = pos + int (length bs) \<and> piece P (nat pos) bs
     \<and> (err = Some errEOF \<longleftrightarrow> err \<noteq> None \<and> int (length P) \<le> rd_pos r) \<and> (err \<noteq> None \<longrightarrow> err = Some errEOF \<or> \<not> q \<and> err = Some ErrDisk))"

lemma wp_Read:
  assumes a: "aead (bs_crypto st)" and r: "rd_ok st fid P r F"
  shows "wp q (Read st r n) (\<lambda>x G. read_ok q st fid P F (rd_pos r) x G \<and> (snd (snd x) = None \<longrightarrow> 0 < n \<longrightarrow> fst (snd x) \<noteq> '''')) (\<lambda>_ _. False) (\<lambda>G. G = F) F"
proof (cases "rd_pos r \<ge> rd_size r")
  case True
  then show ?thesis unfolding Read_def using r by (auto simp: read_ok_def rd_ok_def intro!: wp_ret)
next
  case False
  have p: "0 \<le> rd_pos r" "rd_size r = int (length P)" using r by (auto simp: rd_ok_def)
  then obtain k where k: "rd_pos r = int k" by (meson nonneg_int_cases)
  define i where "i = k div 65536"
  have kP: "k < length P" using False k p by simp
  have ik: "i * 65536 \<le> k" "k < i * 65536 + 65536" unfolding i_def
    using div_times_less_eq_dividend [of k 65536] dividend_less_div_times [of 65536 k] by simp_all
  then have i: "i * 65536 < length P" using kP by linarith
  have fin: "wp q (let bs = take n (drop (nat (rd_pos v - int i * ChunkSize)) (rd_plain v)) in ret (v\<lparr>rd_pos := rd_pos v + int (length bs)\<rparr>, bs, None))
      (\<lambda>x G. read_ok q st fid P F (rd_pos r) x G \<and> (snd (snd x) = None \<longrightarrow> 0 < n \<longrightarrow> fst (snd x) \<noteq> '''')) (\<lambda>_ _. False) (\<lambda>G. G = F) F"
    if v: "rd_ok st fid P v F" "rd_pos v = rd_pos r" "rd_chunk v = int i" "rd_plain v = chunk P i" for v
  proof -
    have e: "nat (rd_pos v - int i * ChunkSize) = k - i * 65536" using v(2) k ik by (simp add: ChunkSize_def nat_diff_distrib' of_nat_diff)
    define bs where "bs = take n (drop (k - i * 65536) (chunk P i))"
    have c: "drop (k - i * 65536) (chunk P i) = take (i * 65536 + 65536 - k) (drop k P)"
      using ik by (simp add: chunk_def drop_take add.commute)
    have "bs = take (min n (i * 65536 + 65536 - k)) (drop k P)" unfolding bs_def c by (simp add: min.commute)
    then have bs: "piece P k bs" "0 < n \<longrightarrow> bs \<noteq> ''''" using ik(2) kP by (auto simp: min_def piece_take)
    show ?thesis unfolding e v(4) bs_def [symmetric] Let_def
      by (rule wp_ret) (use v bs k in \<open>auto simp: read_ok_def rd_ok_def\<close>)
  qed
  have idx: "rd_pos r sdiv ChunkSize = int i" using k by (simp add: i_def)
  have run: "wp q (if int i \<noteq> rd_chunk r then load st r (int i) else ret (r, None))
      (\<lambda>(v, err) G. G = F \<and> rd_ok st fid P v F \<and> rd_pos v = rd_pos r
       \<and> (case err of None \<Rightarrow> rd_chunk v = int i \<and> rd_plain v = chunk P i | Some e \<Rightarrow> \<not> q \<and> e = ErrDisk)) (\<lambda>_ _. False) (\<lambda>G. G = F) F"
    by (rule wp_if, rule wp_load [OF a r i], rule wp_ret) (use r in \<open>auto simp: rd_ok_def\<close>)
  show ?thesis unfolding Read_def if_not_P [OF False] idx
  proof (rule wp_Let, rule wp_andThen, rule wp_mono [OF run], rule wp_prod, rule wp_if, goal_cases)
    case (1 x G v err)
    then show ?case using k False p by (intro wp_ret) (auto simp: read_ok_def)
  next
    case (2 x G v err)
    then show ?case using fin by auto
  qed auto
qed

text \<open>A sequence of reads into buffers of the given sizes, as a copy loop makes them: it ends at the first error.\<close>

fun read_seq :: "blob_store \<Rightarrow> Reader \<Rightarrow> nat list \<Rightarrow> (Reader \<times> string \<times> blob_err option) fs" where
  "read_seq st r [] = ret (r, '''', None)"
| "read_seq st r (n # ns) =
     andThen (Read st r n) (\<lambda>(r1, bs, err).
     case err of
       Some e \<Rightarrow> ret (r1, bs, Some e)
     | None \<Rightarrow> andThen (read_seq st r1 ns) (\<lambda>(r2, cs, err2). ret (r2, bs @ cs, err2)))"

lemma wp_read_seq:
  assumes a: "aead (bs_crypto st)"
  shows "rd_ok st fid P r F \<Longrightarrow>
    wp q (read_seq st r ns) (\<lambda>x G. read_ok q st fid P F (rd_pos r) x G \<and> (snd (snd x) = None \<longrightarrow> 0 \<notin> set ns \<longrightarrow> length ns \<le> length (fst (snd x))))
      (\<lambda>_ _. False) (\<lambda>G. G = F) F"
proof (induction ns arbitrary: r)
  case Nil
  then show ?case by (auto simp: read_ok_def intro!: wp_ret)
next
  case (Cons n ns)
  have pos: "0 \<le> rd_pos r" using Cons.prems by (simp add: rd_ok_def)
  show ?case unfolding read_seq.simps
  proof (rule wp_andThen, rule wp_mono [OF wp_Read [OF a Cons.prems]], rule wp_prod, rule wp_prod, rule wp_option, goal_cases)
    case (1 x G r1 y bs err)
    then have r1: "G = F" "rd_ok st fid P r1 F" "rd_pos r1 = rd_pos r + int (length bs)" "piece P (nat (rd_pos r)) bs" "0 < n \<longrightarrow> bs \<noteq> ''''"
      by (auto simp: read_ok_def)
    have at: "nat (rd_pos r1) = nat (rd_pos r) + length bs" using r1(3) pos by (simp add: nat_add_distrib)
    show ?case unfolding r1(1)
    proof (rule wp_andThen, rule wp_mono [OF Cons.IH [OF r1(2)]], rule wp_prod, rule wp_prod, rule wp_ret, goal_cases)
      case (1 z H r2 w cs err2)
      then have z: "read_ok q st fid P F (rd_pos r1) (r2, cs, err2) H" "err2 = None \<longrightarrow> 0 \<notin> set ns \<longrightarrow> length ns \<le> length cs" by auto
      have "piece P (nat (rd_pos r)) (bs @ cs)" using z(1) r1(4) at by (intro piece_append) (auto simp: read_ok_def)
      moreover have "err2 = None \<longrightarrow> 0 \<notin> set (n # ns) \<longrightarrow> length (n # ns) \<le> length (bs @ cs)" using z(2) r1(5) by (cases bs) auto
      ultimately show ?case using z(1) r1(3) by (auto simp: read_ok_def)
    qed auto
  next
    case (2 x G r1 y bs err e)
    then show ?case by (intro wp_ret) auto
  qed auto
qed

lemma wp_Store_Open:
  assumes fits: "fits st P" and F: "F fid = Some f" "ff_data f = image_of st fid P (length P)"
  shows "wp q (Store_Open st fid (int (length P))) (\<lambda>r G. G = F \<and> rd_ok st fid P r F \<and> rd_pos r = 0) (\<lambda>_ G. G = F \<and> \<not> (q \<and> key_ok st fid)) (\<lambda>G. G = F) F"
proof -
  have a: "aead (bs_crypto st)" and P: "0 < length P" using fits by (simp_all add: fits_def)
  have len: "CipherLen (int (length P)) = int (length (ff_data f))"
    using fits F(2) image_length [OF a boundary_all [of P], of "key_of st fid"] by (simp add: CipherLen_int fits_def)
  have h: "take 32 (image_of st fid P (length P)) = header" "32 \<le> length (image_of st fid P (length P))" by (simp_all add: image_def)
  have b: "bytes_in fid F = image_of st fid P (length P)" using F by (simp add: bytes_in_def)
  show ?thesis unfolding Store_Open_def reader_def
    by (intro wp_intros) (use F P h b in \<open>auto simp: rd_ok_def sizes len\<close>)
qed

end
