(* ===== verification/Transfer_Properties.thy ===== *)
theory Transfer_Properties
  imports Transfer_Steps Blob_Reader Store_Steps
begin

text \<open>
  What the file transfers promise: over any history of uploads, removals, disk errors and power
  losses the record vouches only for true bytes and a finished file is the client's; a reader
  serves exactly those bytes; without faults an upload completes, and one that breaks off
  goes on within a chunk of where it was.
\<close>

section \<open>Histories of the files directory\<close>

lemma wp_finished:
  assumes "\<And>x. (x \<longrightarrow> F fid \<noteq> None) \<Longrightarrow> Q x F" "\<not> q \<Longrightarrow> C F"
  shows "wp q (blob_finished fid size0) Q E C F"
  unfolding blob_finished_def Store_Size_def by (intro wp_intros) (use assms in auto)

lemma put_result_same: "safe st fid P F0 F \<Longrightarrow> (a = Whole \<longrightarrow> F fid \<noteq> None) \<Longrightarrow> put_result q st fid P F0 False offset b a F"
  by (simp add: put_result_def)

lemma wp_put_bytes:
  assumes fits: "fits st P" and F: "safe st fid P F0 F" and h: "honest P offset b"
    and able: "able \<longleftrightarrow> key_ok st fid \<and> 0 \<le> offset \<and> boundary P (nat offset) \<and> offset \<le> received fid F \<and> F fid = None \<and> \<not> uploaded"
  shows "wp q (put_bytes st cp fid offset (int (length P)) uploaded b) (put_result q st fid P F0 able offset b) (\<lambda>_ _. False) (safe st fid P F0) F"
proof -
  have whole: "put_result q st fid P F0 able offset b (putFinished offset (int (length P)) b uploaded) F" if "uploaded \<or> F fid \<noteq> None"
    using F that able by (auto simp: put_result_def putFinished_def)
  have rec: "wp q (put_receive st cp fid offset (int (length P)) b) (put_result q st fid P F0 able offset b) (\<lambda>_ _. False) (safe st fid P F0) F"
    by (rule wp_mono [OF wp_put_receive [OF fits F h refl]]) (use able in \<open>auto simp: put_result_def\<close>)
  show ?thesis unfolding put_bytes_def
  proof (rule wp_andThen, rule wp_if, goal_cases)
    case 1
    then show ?case using whole by (auto intro!: wp_ret)
  next
    case 2
    then show ?case using whole rec F by (intro wp_finished) (auto intro!: wp_ret)
  qed
qed

text \<open>A program run to its end, or to a power loss on the way and the restart after it.\<close>

definition ends_in :: "'a fs \<Rightarrow> disk \<Rightarrow> disk \<Rightarrow> bool" where
  "ends_in m d d2 \<longleftrightarrow> (\<exists>vs r d1. m (d\<lparr>dk_fates := vs\<rparr>) = (r, d1) \<and> (if r = Halt then power_loss d1 d2 else d2 = d1))"

text \<open>\<open>P\<close> gives the file every id was declared for; its client sends that file.\<close>

inductive disk_run :: "blob_store \<Rightarrow> (string \<Rightarrow> string) \<Rightarrow> disk \<Rightarrow> bool" for st P where
  Empty: "dk_files d = (\<lambda>_. None) \<Longrightarrow> disk_run st P d"
| Put: "disk_run st P d \<Longrightarrow> plain_id fid \<Longrightarrow> fits st (P fid) \<Longrightarrow> honest (P fid) offset b \<Longrightarrow>
    ends_in (put_bytes st cp fid offset (int (length (P fid))) uploaded b) d d' \<Longrightarrow> disk_run st P d'"
| Remove: "disk_run st P d \<Longrightarrow> plain_id fid \<Longrightarrow> ends_in (Store_Remove fid) d d' \<Longrightarrow> disk_run st P d'"
| Loss: "disk_run st P d \<Longrightarrow> power_loss d d' \<Longrightarrow> disk_run st P d'"

lemma ends_in_safe:
  assumes m: "wp False m (\<lambda>_. safe st fid (P fid) F0) (\<lambda>_. safe st fid (P fid) F0) (safe st fid (P fid) F0) (dk_files d)"
    and e: "ends_in m d d2" and F0: "F0 = dk_files d" and fid: "plain_id fid"
    and others: "\<And>i. plain_id i \<Longrightarrow> blob_inv st i (P i) (dk_files d)"
  shows "plain_id i \<Longrightarrow> blob_inv st i (P i) (dk_files d2)"
proof -
  assume i: "plain_id i"
  obtain vs r d1 where r: "m (d\<lparr>dk_fates := vs\<rparr>) = (r, d1)" "if r = Halt then power_loss d1 d2 else d2 = d1" using e by (auto simp: ends_in_def)
  have "end_ok False (\<lambda>_. safe st fid (P fid) F0) (\<lambda>_. safe st fid (P fid) F0) (safe st fid (P fid) F0) (r, d1)"
    using wpD [of False m _ _ _ "d\<lparr>dk_fates := vs\<rparr>"] m r(1) by fastforce
  then have s: "safe st fid (P fid) F0 (dk_files d1)" by (cases r) auto
  have "blob_inv st i (P i) (dk_files d1)"
  proof (cases "i = fid")
    case True
    then show ?thesis using s by (simp add: safe_def)
  next
    case False
    have same: "dk_files d1 n = dk_files d n" if "n \<in> names i" for n
      using s F0 names_apart [OF i fid False that] by (simp add: safe_def)
    then show ?thesis using others [OF i] same [of i] same [of "part_of i"] same [of "rec_of i"] by (simp add: blob_inv_def recorded_def)
  qed
  then show ?thesis using r(2) blob_inv_power_loss by (auto split: if_splits)
qed

lemma disk_run_inv: "disk_run st P d \<Longrightarrow> plain_id i \<Longrightarrow> blob_inv st i (P i) (dk_files d)"
proof (induction arbitrary: i rule: disk_run.induct)
  case (Empty d)
  then show ?case by (simp add: blob_inv_def)
next
  case (Put d fid offset b cp uploaded d')
  have s: "safe st fid (P fid) (dk_files d) (dk_files d)" using Put by (simp add: safe_def)
  have w: "wp False (put_bytes st cp fid offset (int (length (P fid))) uploaded b) (\<lambda>_. safe st fid (P fid) (dk_files d))
      (\<lambda>_. safe st fid (P fid) (dk_files d)) (safe st fid (P fid) (dk_files d)) (dk_files d)"
    by (rule wp_mono [OF wp_put_bytes [OF Put.hyps(3) s Put.hyps(4) refl]]) (auto simp: put_result_def)
  show ?case by (rule ends_in_safe [of _ st fid P _ d d', OF w Put.hyps(5) refl Put.hyps(2) Put.IH Put.prems])
next
  case (Remove d fid d')
  have s: "safe st fid (P fid) (dk_files d) (dk_files d)" using Remove by (simp add: safe_def)
  show ?case by (rule ends_in_safe [of _ st fid P _ d d', OF wp_Store_Remove [OF s] Remove.hyps(3) refl Remove.hyps(2) Remove.IH Remove.prems])
next
  case (Loss d d')
  then show ?case using blob_inv_power_loss by blast
qed

section \<open>Runs without a fault\<close>

lemma quiet_end:
  assumes "wp True m Q E C (dk_files d)" "dk_fates d = []" "\<And>e G. \<not> E e G"
  obtains x d1 where "m d = (Ret x, d1)" "Q x (dk_files d1)" "dk_fates d1 = []"
proof -
  have "end_ok True Q E C (m d)" using assms(1,2) by (auto dest: wpD)
  then show ?thesis using that assms(3) by (cases "m d"; cases "fst (m d)") auto
qed

lemma disk_same: "dk_files d = dk_files d' \<Longrightarrow> dk_behind d = dk_behind d' \<Longrightarrow> dk_fates d = dk_fates d' \<Longrightarrow> d = (d' :: disk)"
  by simp

text \<open>A program that only reads binds no name anew.\<close>

definition binds_nothing :: "'a fs \<Rightarrow> bool" where
  "binds_nothing m \<longleftrightarrow> (\<forall>d. dk_behind (snd (m d)) = dk_behind d)"

lemma binds_nothing_simps [simp]:
  "binds_nothing (ret x)" "binds_nothing (fail e)" "binds_nothing (reading look)" "binds_nothing (attempt m) = binds_nothing m"
  "binds_nothing (fs_Open n)" "binds_nothing (fs_Stat n)" "binds_nothing (fs_ReadAt n pos k)" "binds_nothing (fs_ReadFile n)"
proof -
  have r: "binds_nothing (reading look)" for look :: "disk \<Rightarrow> 'x outcome"
    by (auto simp: binds_nothing_def reading_def split: list.splits)
  have a: "snd (attempt m d) = snd (m d)" for d by (auto simp: attempt_def split: prod.splits outcome.splits)
  show "binds_nothing (attempt m) = binds_nothing m" by (simp add: binds_nothing_def a)
qed (auto simp: binds_nothing_def ret_def fail_def fs_Open_def fs_Stat_def fs_ReadAt_def fs_ReadFile_def reading_def split: list.splits)

lemma binds_nothing_andThen: "binds_nothing m \<Longrightarrow> (\<And>x. binds_nothing (f x)) \<Longrightarrow> binds_nothing (andThen m f)"
  by (auto simp: binds_nothing_def andThen_def split: prod.splits outcome.splits) (metis snd_conv)+

lemma Received_binds_nothing: "binds_nothing (Received fid)"
  unfolding Received_def readSynced_def
  by (intro binds_nothing_andThen) (auto intro!: binds_nothing_andThen split: sum.splits option.splits)

lemma quiet_Received:
  assumes "dk_fates d = []"
  shows "Received fid d = (Ret (received fid (dk_files d)), d)"
proof -
  have "wp True (Received fid) (\<lambda>r G. r = received fid (dk_files d) \<and> G = dk_files d) (\<lambda>_ _. False) (\<lambda>_. True) (dk_files d)"
    by (rule wp_Received) auto
  then obtain x d1 where "Received fid d = (Ret x, d1)" "x = received fid (dk_files d)" "dk_files d1 = dk_files d" "dk_fates d1 = []"
    using assms by (elim quiet_end) auto
  moreover from this Received_binds_nothing [of fid] have "dk_behind d1 = dk_behind d" unfolding binds_nothing_def by (metis snd_conv)
  ultimately show ?thesis using assms disk_same by metis
qed

lemma received_nonneg: "0 \<le> received fid F"
  by (auto simp: received_def durable_le(3) [OF recorded_nonneg plainLen_nonneg] split: option.splits)

lemma received_boundary:
  assumes "blob_inv st fid P F" "0 < received fid F"
  shows "boundary P (nat (received fid F))"
proof -
  obtain f where f: "F (part_of fid) = Some f" "received fid F = durable (recorded fid F) (plainLen (int (length (ff_data f))))"
    using assms(2) by (auto simp: received_def split: option.splits if_splits)
  have le: "received fid F \<le> recorded fid F" using durable_le(1) [OF recorded_nonneg plainLen_nonneg] f(2) by metis
  then have b: "boundary P (nat (recorded fid F))" using assms f(1) by (auto simp: blob_inv_def kept_def)
  show ?thesis
  proof (cases "recorded fid F = plainLen (int (length (ff_data f)))")
    case True
    then have "received fid F = recorded fid F" using f(2) by (simp add: durable_def)
    then show ?thesis using b by simp
  next
    case False
    obtain a where a: "min (recorded fid F) (plainLen (int (length (ff_data f)))) = int a"
      using recorded_nonneg [of fid F] plainLen_nonneg [of "length (ff_data f)"] by (metis min_def nonneg_int_cases)
    have "received fid F = int (a div 65536 * 65536)" using False f(2) unfolding durable_def a chunk_div by (simp add: ChunkSize_def)
    then have "nat (received fid F) = a div 65536 * 65536" by (simp only: nat_int)
    moreover have "nat (received fid F) \<le> length P" using nat_mono [OF le] b by (simp add: boundary_def)
    ultimately show ?thesis by (simp add: boundary_def)
  qed
qed

section \<open>A sample directory\<close>

definition sample_crypto :: crypto where
  "sample_crypto = \<lparr>cr_hkdf = (\<lambda>_ info. Some (take 32 (info @ replicate 32 CHR ''k''))),
     cr_seal = (\<lambda>key n p a. p @ take 16 (key @ replicate 16 CHR ''t'')),
     cr_open = (\<lambda>key n c a. if length c < 16 then None else Some (take (length c - 16) c))\<rparr>"

definition sample_blobs :: blob_store where
  "sample_blobs = \<lparr>bs_key = replicate 32 CHR ''m'', bs_crypto = sample_crypto\<rparr>"

definition sample_file :: "string \<Rightarrow> string" where
  "sample_file _ = ''hello''"

definition sample_body :: body where
  "sample_body = \<lparr>bd_reads = [''he'', ''llo''], bd_end = EOF, bd_ContentLength = 5\<rparr>"

definition empty_disk :: disk where
  "empty_disk = \<lparr>dk_files = (\<lambda>_. None), dk_behind = (\<lambda>_. []), dk_fates = []\<rparr>"

definition sample_disk :: disk where
  "sample_disk = snd (put_bytes sample_blobs 4194304 ''f_1'' 0 5 False sample_body empty_disk)"

lemma sample_facts:
  "aead sample_crypto" "fits sample_blobs (sample_file i)" "key_ok sample_blobs i" "plain_id ''f_1''"
  "honest (sample_file i) 0 sample_body" "disk_run sample_blobs sample_file empty_disk" "received i (dk_files empty_disk) = 0"
proof -
  show a: "aead sample_crypto" by (auto simp: aead_def sample_crypto_def min_def)
  show "fits sample_blobs (sample_file i)" using a by (simp add: fits_def sample_file_def sample_blobs_def)
  show "key_ok sample_blobs i" by (simp add: key_ok_def key_of_def sample_blobs_def sample_crypto_def keyInfo_def)
  show "disk_run sample_blobs sample_file empty_disk" by (rule disk_run.Empty) (simp add: empty_disk_def)
qed (simp_all add: plain_id_def honest_def sample_file_def sample_body_def received_def empty_disk_def)

lemma sample_upload:
  "put_bytes sample_blobs 4194304 ''f_1'' 0 5 False sample_body empty_disk = (Ret Whole, sample_disk)"
  "dk_fates sample_disk = []" "dk_files sample_disk ''f_1'' \<noteq> None" "disk_run sample_blobs sample_file sample_disk"
proof -
  have s: "safe sample_blobs ''f_1'' (sample_file ''f_1'') (dk_files empty_disk) (dk_files empty_disk)"
    using disk_run_inv [OF sample_facts(6,4)] by (simp add: safe_def)
  have w: "wp True (put_bytes sample_blobs 4194304 ''f_1'' 0 (int (length (sample_file ''f_1''))) False sample_body)
      (put_result True sample_blobs ''f_1'' (sample_file ''f_1'') (dk_files empty_disk) True 0 sample_body) (\<lambda>_ _. False)
      (safe sample_blobs ''f_1'' (sample_file ''f_1'') (dk_files empty_disk)) (dk_files empty_disk)"
    by (rule wp_put_bytes [OF sample_facts(2) s sample_facts(5)]) (use sample_facts(3,7) in \<open>auto simp: empty_disk_def\<close>)
  have five: "int (length (sample_file ''f_1'')) = 5" by (simp add: sample_file_def)
  obtain x d1 where x: "put_bytes sample_blobs 4194304 ''f_1'' 0 5 False sample_body empty_disk = (Ret x, d1)"
      "put_result True sample_blobs ''f_1'' (sample_file ''f_1'') (dk_files empty_disk) True 0 sample_body x (dk_files d1)" "dk_fates d1 = []"
    using quiet_end [OF w] five by (auto simp: empty_disk_def)
  then have "x = Whole" by (simp add: put_result_def sample_file_def sample_body_def)
  with x show e: "put_bytes sample_blobs 4194304 ''f_1'' 0 5 False sample_body empty_disk = (Ret Whole, sample_disk)"
    "dk_fates sample_disk = []" "dk_files sample_disk ''f_1'' \<noteq> None"
    by (simp_all add: sample_disk_def put_result_def)
  have "ends_in (put_bytes sample_blobs 4194304 ''f_1'' 0 (int (length (sample_file ''f_1''))) False sample_body) empty_disk sample_disk"
    unfolding ends_in_def five using e(1) by (intro exI [of _ "[]"]) (auto simp: empty_disk_def)
  then show "disk_run sample_blobs sample_file sample_disk" by (rule disk_run.Put [OF sample_facts(6,4,2,5)])
qed

section \<open>What is kept is true\<close>

text \<open>
  C6. After any history of uploads, removals, disk errors and power losses: what \<open>Received\<close> answers
  for an id is a place where its upload can go on, and the part holds exactly the file's bytes up to
  there, sealed; a file under its final name is the whole file the client sent, sealed; and no
  upload of it panics, whatever fails.
\<close>

theorem uploads_survive_crashes:
  assumes "disk_run st P d" and "plain_id fid" and "fits st (P fid)"
  shows "(\<forall>r d'. Received fid d = (Ret r, d') \<longrightarrow>
           0 \<le> r \<and> boundary (P fid) (nat r)
         \<and> (0 < r \<longrightarrow> (\<exists>f. dk_files d (fid @ partSuffix) = Some f \<and> take (nat (CipherLen r)) (ff_data f) = image_of st fid (P fid) (nat r))))
       \<and> (\<forall>f. dk_files d fid = Some f \<longrightarrow> ff_data f = image_of st fid (P fid) (length (P fid)))
       \<and> (\<forall>cp offset uploaded b e d'. honest (P fid) offset b \<longrightarrow>
           put_bytes st cp fid offset (int (length (P fid))) uploaded b d \<noteq> (Err e, d'))"
proof (intro conjI allI impI)
  have inv: "blob_inv st fid (P fid) (dk_files d)" using disk_run_inv [OF assms(1,2)] .
  have a: "aead (bs_crypto st)" using assms(3) by (simp add: fits_def)
  have place: "0 \<le> r \<and> boundary (P fid) (nat r) \<and> (0 < r \<longrightarrow> (\<exists>f. dk_files d (part_of fid) = Some f \<and> take (nat (CipherLen r)) (ff_data f) = image_of st fid (P fid) (nat r)))"
    if "Received fid d = (Ret r, d')" for r d'
  proof -
    have "wp False (Received fid) (\<lambda>r _. r = received fid (dk_files d) \<or> r = 0) (\<lambda>_ _. True) (\<lambda>_. True) (dk_files d)" by (rule wp_Received) auto
    then have r: "r = received fid (dk_files d) \<or> r = 0" using wpD [of False "Received fid" _ _ _ d] that by fastforce
    show ?thesis
    proof (cases "0 < r")
      case True
      then have r: "r = received fid (dk_files d)" using r by simp
      have b: "boundary (P fid) (nat r)" using received_boundary [OF inv] True r by simp
      then obtain f where "dk_files d (part_of fid) = Some f" "kept st fid (P fid) (nat r) f"
        using received_kept [OF inv a _ b] True r by auto
      then show ?thesis using b True CipherLen_at [OF assms(3) b] by (auto simp: kept_def)
    next
      case False
      moreover have "0 \<le> received fid (dk_files d)" by (rule received_nonneg)
      ultimately have "r = 0" using r by linarith
      then show ?thesis by simp
    qed
  qed
  show "0 \<le> r" "boundary (P fid) (nat r)" if "Received fid d = (Ret r, d')" for r d' using place [OF that] by blast+
  show "\<exists>f. dk_files d (part_of fid) = Some f \<and> take (nat (CipherLen r)) (ff_data f) = image_of st fid (P fid) (nat r)"
    if "Received fid d = (Ret r, d')" "0 < r" for r d' using place [OF that(1)] that(2) by blast
  show "ff_data f = image_of st fid (P fid) (length (P fid))" if "dk_files d fid = Some f" for f using inv that by (simp add: blob_inv_def)
  show "put_bytes st cp fid offset (int (length (P fid))) uploaded b d \<noteq> (Err e, d')" if h: "honest (P fid) offset b" for cp offset uploaded b e d'
  proof -
    have s: "safe st fid (P fid) (dk_files d) (dk_files d)" using inv by (simp add: safe_def)
    show ?thesis using wpD [OF wp_put_bytes [OF assms(3) s h refl, of False cp uploaded]] by (metis end_ok_simps(2))
  qed
qed

theorem uploads_survive_crashes_witness:
  "disk_run sample_blobs sample_file sample_disk
     \<and> (\<exists>f. dk_files sample_disk ''f_1'' = Some f \<and> ff_data f = image_of sample_blobs ''f_1'' ''hello'' (length ''hello''))"
  using uploads_survive_crashes [OF sample_upload(4) sample_facts(4) sample_facts(2)] sample_upload(3,4) by (auto simp: sample_file_def)

text \<open>
  C7. Reading a finished file chunk by chunk is reading the client's bytes: whatever the history of
  the directory, a reader opened on the file, moved to any position and read in any pieces gives
  exactly the bytes of the file from that position on, never a corrupt chunk, and the end of
  the file exactly at its end. Without faults the reads only stop there, and every one of them
  gives at least a byte.
\<close>

theorem reader_serves_file:
  assumes "disk_run st P d" and "plain_id fid" and "fits st (P fid)"
    and "Store_Open st fid (int (length (P fid))) d = (Ret r, d1)" and "0 \<le> off" and "Seek r off 0 = Some (r1, at)"
    and "read_seq st r1 ns d1 = (Ret (r2, bs, err), d2)"
  shows "bs = take (length bs) (drop (nat off) (P fid)) \<and> rd_pos r2 = off + int (length bs)
       \<and> err \<noteq> Some ErrCorrupt \<and> (err = Some errEOF \<longleftrightarrow> err \<noteq> None \<and> int (length (P fid)) \<le> off + int (length bs))
       \<and> (dk_fates d = [] \<longrightarrow> (err = None \<or> err = Some errEOF) \<and> (err = None \<longrightarrow> 0 \<notin> set ns \<longrightarrow> length ns \<le> length bs))"
proof -
  define q where "q = (dk_fates d = [])"
  have a: "aead (bs_crypto st)" using assms(3) by (simp add: fits_def)
  have inv: "blob_inv st fid (P fid) (dk_files d)" using disk_run_inv [OF assms(1,2)] .
  have "\<exists>f. dk_files d fid = Some f"
  proof (rule ccontr)
    assume "\<nexists>f. dk_files d fid = Some f"
    then have "wp False (Store_Open st fid (int (length (P fid)))) (\<lambda>_ _. False) (\<lambda>_ _. True) (\<lambda>_. True) (dk_files d)"
      unfolding Store_Open_def by (intro wp_andThen wp_Open) auto
    then show False using assms(4) wpD by (metis end_ok_simps(1))
  qed
  then obtain f where f: "dk_files d fid = Some f" "ff_data f = image_of st fid (P fid) (length (P fid))" using inv by (auto simp: blob_inv_def)
  have "end_ok q (\<lambda>r G. G = dk_files d \<and> rd_ok st fid (P fid) r (dk_files d) \<and> rd_pos r = 0) (\<lambda>_ G. G = dk_files d \<and> \<not> (q \<and> key_ok st fid)) (\<lambda>G. G = dk_files d) (Ret r, d1)"
    using wpD [OF wp_Store_Open [of st "P fid" "dk_files d" fid f q, OF assms(3) f]] assms(4) by (simp add: q_def)
  then have d1: "dk_files d1 = dk_files d" "rd_ok st fid (P fid) r (dk_files d)" "q \<longrightarrow> dk_fates d1 = []" by simp_all
  have r1: "rd_ok st fid (P fid) r1 (dk_files d1)" "rd_pos r1 = off"
    using assms(5,6) d1 by (auto simp: Seek_def rd_ok_def Let_def split: if_splits)
  have "end_ok q (\<lambda>x G. read_ok q st fid (P fid) (dk_files d1) (rd_pos r1) x G \<and> (snd (snd x) = None \<longrightarrow> 0 \<notin> set ns \<longrightarrow> length ns \<le> length (fst (snd x))))
      (\<lambda>_ _. False) (\<lambda>G. G = dk_files d1) (Ret (r2, bs, err), d2)"
    using wpD [OF wp_read_seq [OF a r1(1), of q ns]] d1(3) assms(7) by simp
  then show ?thesis using r1(2) unfolding read_ok_def piece_def q_def by auto
qed

theorem reader_serves_file_witness:
  "\<exists>r d1 r1 r2 bs err d2. Store_Open sample_blobs ''f_1'' 5 sample_disk = (Ret r, d1) \<and> Seek r 1 0 = Some (r1, 1)
     \<and> read_seq sample_blobs r1 [2, 9, 1] d1 = (Ret (r2, bs, err), d2)
     \<and> bs = take (length bs) (drop 1 ''hello'') \<and> (err = Some errEOF \<or> err = None \<and> 3 \<le> length bs)"
proof -
  have five: "int (length (sample_file ''f_1'')) = 5" by (simp add: sample_file_def)
  have inv: "blob_inv sample_blobs ''f_1'' (sample_file ''f_1'') (dk_files sample_disk)" using disk_run_inv [OF sample_upload(4) sample_facts(4)] .
  obtain f where f: "dk_files sample_disk ''f_1'' = Some f" "ff_data f = image_of sample_blobs ''f_1'' (sample_file ''f_1'') (length (sample_file ''f_1''))"
    using inv sample_upload(3) by (auto simp: blob_inv_def)
  obtain r d1 where r: "Store_Open sample_blobs ''f_1'' 5 sample_disk = (Ret r, d1)" "dk_files d1 = dk_files sample_disk"
      "rd_ok sample_blobs ''f_1'' (sample_file ''f_1'') r (dk_files sample_disk)" "dk_fates d1 = []"
    using wp_Store_Open [of sample_blobs "sample_file ''f_1''" "dk_files sample_disk" "''f_1''" f True, OF sample_facts(2) f] sample_facts(3) sample_upload(2) five by (elim quiet_end) auto
  define r1 where "r1 = r\<lparr>rd_pos := 1\<rparr>"
  have s: "Seek r 1 0 = Some (r1, 1)" by (simp add: Seek_def r1_def)
  have a: "aead (bs_crypto sample_blobs)" using sample_facts(1) by (simp add: sample_blobs_def)
  have "rd_ok sample_blobs ''f_1'' (sample_file ''f_1'') r1 (dk_files d1)" using r(2,3) by (simp add: rd_ok_def r1_def)
  note reads = wp_read_seq [OF a this, of True "[2, 9, 1]"]
  obtain x d2 where x: "read_seq sample_blobs r1 [2, 9, 1] d1 = (Ret x, d2)" by (rule quiet_end [OF reads r(4)]) auto
  obtain r2 bs err where x3: "x = (r2, bs, err)" using prod_cases3 by blast
  show ?thesis
    using reader_serves_file [OF sample_upload(4) sample_facts(4) sample_facts(2) r(1) [folded five] _ s x [unfolded x3]] r(1) s x x3 sample_upload(2)
    by (auto simp: sample_file_def intro!: exI)
qed

section \<open>Uploads end\<close>

text \<open>Where an upload may go on: a place \<open>Received\<close> has reached that starts a chunk or ends the file.\<close>

definition resumable :: "blob_store \<Rightarrow> string \<Rightarrow> string \<Rightarrow> int \<Rightarrow> disk \<Rightarrow> bool" where
  "resumable st fid P offset d \<longleftrightarrow>
     key_ok st fid \<and> dk_fates d = [] \<and> dk_files d fid = None \<and> 0 \<le> offset \<and> boundary P (nat offset)
   \<and> (case Received fid d of (Ret r, _) \<Rightarrow> offset \<le> r | _ \<Rightarrow> False)"

lemma quiet_put:
  assumes "disk_run st P d" "plain_id fid" "fits st (P fid)" "resumable st fid (P fid) offset d" "honest (P fid) offset b"
  obtains a d' where "put_bytes st cp fid offset (int (length (P fid))) False b d = (Ret a, d')" "dk_fates d' = []"
    "put_result True st fid (P fid) (dk_files d) True offset b a (dk_files d')"
proof -
  have inv: "blob_inv st fid (P fid) (dk_files d)" using disk_run_inv [OF assms(1,2)] .
  have r: "dk_fates d = []" "offset \<le> received fid (dk_files d)" using assms(4) quiet_Received [of d fid] by (auto simp: resumable_def)
  have s: "safe st fid (P fid) (dk_files d) (dk_files d)" using inv by (simp add: safe_def)
  have "wp True (put_bytes st cp fid offset (int (length (P fid))) False b) (put_result True st fid (P fid) (dk_files d) True offset b) (\<lambda>_ _. False)
      (safe st fid (P fid) (dk_files d)) (dk_files d)"
    by (rule wp_put_bytes [OF assms(3) s assms(5)]) (use assms(4) r in \<open>auto simp: resumable_def\<close>)
  then show ?thesis using that r(1) by (elim quiet_end) auto
qed

text \<open>
  C8. A PUT from a paired device with its live token, carrying the rest of a declared file from a place
  its upload had reached, succeeds when nothing fails: it answers 204, the token is spent, the
  row says uploaded, and the file on disk is the whole file, sealed.
\<close>

theorem upload_completes:
  assumes "disk_run st P d" and "plain_id fid" and "fits st (P fid)" and "resumable st fid (P fid) offset d"
    and "concat (bd_reads b) = drop (nat offset) (P fid)" and "bd_end b = EOF" and "bd_ContentLength b \<le> int (length (P fid)) - offset"
    and "DeviceOwner no_faults key (sv_db s) = Inr (owner, True)"
    and "ts_tokens (sv_tokens s) token = Some \<lparr>te_fileID = fid, te_op = opUpload, te_offset = offset, te_expires = x\<rparr>" and "pe_now env \<le> x"
    and "file_by fid (files (sv_db s)) = Some row" and "f_size row = int (length (P fid))" and "\<not> f_uploaded row"
    and "pe_flt env = no_faults" and "pe_flt2 env = no_faults" and "pe_flt3 env = no_faults"
    and "pe_took env" and "pe_wait env = (\<lambda>s. s)" and "pe_while env = (\<lambda>s. s)"
  shows "\<exists>s' d' row' f. handlePutFile st env t (Some key) token b (s, d) = (Ret (Status 204 False), s', d')
       \<and> ts_tokens (sv_tokens s') token = None \<and> file_by fid (files (sv_db s')) = Some row' \<and> f_uploaded row'
       \<and> dk_files d' fid = Some f \<and> ff_data f = image_of st fid (P fid) (length (P fid))"
proof -
  have off: "0 \<le> offset" "nat offset \<le> length (P fid)" using assms(4) by (auto simp: resumable_def boundary_def)
  have h: "honest (P fid) offset b" by (simp add: honest_def assms(5))
  obtain a d' where a: "put_bytes st (pe_checkpointBytes env) fid offset (int (length (P fid))) False b d = (Ret a, d')"
      "put_result True st fid (P fid) (dk_files d) True offset b a (dk_files d')"
    using quiet_put [OF assms(1-4) h] by metis
  have n: "nat offset + length (concat (bd_reads b)) = length (P fid)" using assms(5) off by simp
  have w: "a = Whole" using a(2) n assms(6) by (simp add: put_result_def)
  have "blob_inv st fid (P fid) (dk_files d')" "dk_files d' fid \<noteq> None" using a(2) w by (auto simp: put_result_def safe_def)
  then obtain f where f: "dk_files d' fid = Some f" "ff_data f = image_of st fid (P fid) (length (P fid))" by (auto simp: blob_inv_def)
  have info: "FileByID no_faults fid (sv_db s) = Inr \<lparr>fi_Attachment = attachment_of row, fi_Uploaded = False,
      fi_MessageID = (case f_message_id row of None \<Rightarrow> '''' | Some m \<Rightarrow> m)\<rparr>"
    using assms(11,13) by (simp add: FileByID_def query_def no_faults_def)
  define hit where "hit = (\<lambda>f :: file_row. f_file_id f = fid \<and> \<not> f_uploaded f)"
  have row: "row \<in> set (files (sv_db s))" "f_file_id row = fid" using find_SomeD [of _ "files (sv_db s)" row] assms(11) by (auto simp: file_by_def)
  then have "affected hit (files (sv_db s)) \<noteq> 0" using assms(13) by (auto simp: affected_0_iff hit_def)
  then have mark: "MarkUploaded no_faults fid (sv_db s) = (Inr (), (sv_db s)\<lparr>files := update_where hit (\<lambda>f. f\<lparr>f_uploaded := True\<rparr>) (files (sv_db s))\<rparr>)"
    by (simp add: MarkUploaded_def no_faults_def hit_def)
  have fb: "file_by fid (update_where hit (\<lambda>f. f\<lparr>f_uploaded := True\<rparr>) (files (sv_db s))) = Some (row\<lparr>f_uploaded := True\<rparr>)"
    using assms(11,13) row by (simp add: file_by_def find_update_where hit_def)
  have run: "handlePutFile st env t (Some key) token b (s, d) =
    (Ret (Status 204 False), untrackTransfer t ((trackTransfer t key s)\<lparr>sv_tokens := snd (consume token opUpload (pe_now env) (sv_tokens s)),
       sv_db := (sv_db s)\<lparr>files := update_where hit (\<lambda>f. f\<lparr>f_uploaded := True\<rparr>) (files (sv_db s))\<rparr>\<rparr>), d')"
    using assms(7-10,12,14-) off a(1) w info mark
    by (simp add: handlePutFile_def admitTransfer_def trackTransfer_def consume_def attachment_of_def commitUpload_def Let_def)
  show ?thesis unfolding run using fb f assms(9) by (simp add: untrackTransfer_def trackTransfer_def consume_def)
qed

definition sample_upload_server :: server where
  "sample_upload_server =
     (newServer (snd (CreateUpload no_faults ''1'' ''a.txt'' 5 ''text/plain'' 3 sample_paired))
        \<lparr>MaxMessageBytes = 65536, MaxAttachmentBytes = 1000, MaxFrameBytes = 131072\<rparr> '':8090'')
     \<lparr>sv_tokens := \<lparr>ts_tokens = [''tok'' \<mapsto> \<lparr>te_fileID = ''f_1'', te_op = opUpload, te_offset = 0, te_expires = 100\<rparr>]\<rparr>\<rparr>"

definition sample_env :: put_env where
  "sample_env = \<lparr>pe_flt = no_faults, pe_flt2 = no_faults, pe_flt3 = no_faults, pe_now = 50, pe_took = True, pe_wait = (\<lambda>s. s),
     pe_while = (\<lambda>s. s), pe_checkpointBytes = 4194304\<rparr>"

lemma sample_resumable: "resumable sample_blobs ''f_1'' (sample_file ''f_1'') 0 empty_disk"
  using sample_facts(3,7) quiet_Received [of empty_disk "''f_1''"] by (auto simp: resumable_def empty_disk_def)

theorem upload_completes_witness:
  "\<exists>s' d' row' f. handlePutFile sample_blobs sample_env 0 (Some ''phone'') ''tok'' sample_body (sample_upload_server, empty_disk) = (Ret (Status 204 False), s', d')
     \<and> ts_tokens (sv_tokens s') ''tok'' = None \<and> file_by ''f_1'' (files (sv_db s')) = Some row' \<and> f_uploaded row'
     \<and> dk_files d' ''f_1'' = Some f \<and> ff_data f = image_of sample_blobs ''f_1'' (sample_file ''f_1'') (length (sample_file ''f_1''))"
  by (rule upload_completes [OF sample_facts(6,4) sample_facts(2) sample_resumable])
    (simp_all add: sample_body_def sample_file_def sample_env_def sample_upload_server_def newServer_def CreateUpload_def autocommit_def exec_def
      sample_paired_value file_by_def DeviceOwner_def deviceOwnerOf_def query_def no_faults_def device_by_def Let_def, simp_all)

text \<open>
  C9. An upload that breaks off is not lost: when a body ends early or stops for any reason but the
  disk, the PUT answers the failure that names it, and \<open>Received\<close> is afterwards
  within one chunk of the last byte that arrived, so the client goes on from there.
\<close>

theorem broken_upload_kept:
  assumes "disk_run st P d" and "plain_id fid" and "fits st (P fid)" and "resumable st fid (P fid) offset d" and "honest (P fid) offset b"
    and "nat offset + length (concat (bd_reads b)) \<le> length (P fid)" and "bd_end b \<noteq> MaxBytesError"
    and "bd_end b \<noteq> EOF \<or> nat offset + length (concat (bd_reads b)) < length (P fid)"
  shows "\<exists>r d'. put_bytes st cp fid offset (int (length (P fid))) False b d = (Ret (Answered (if bd_end b = EOF then 400 else answerBroken (bd_end b))), d')
       \<and> Received fid d' = (Ret r, d') \<and> offset + int (length (concat (bd_reads b))) - ChunkSize < r"
proof -
  have off: "0 \<le> offset" using assms(4) by (simp add: resumable_def)
  obtain a d' where a: "put_bytes st cp fid offset (int (length (P fid))) False b d = (Ret a, d')" "dk_fates d' = []"
      "put_result True st fid (P fid) (dk_files d) True offset b a (dk_files d')"
    using quiet_put [OF assms(1-5)] by metis
  have "a = Answered (if bd_end b = EOF then 400 else answerBroken (bd_end b))
      \<and> int (nat offset + length (concat (bd_reads b))) - 65536 < received fid (dk_files d')"
    using a(3) assms(6-8) unfolding put_result_def Let_def by (auto simp: not_less simp del: answerBroken.simps)
  then show ?thesis using a quiet_Received [OF a(2), of fid] off by (auto simp: ChunkSize_def)
qed

definition sample_broken :: body where
  "sample_broken = \<lparr>bd_reads = [''he''], bd_end = DeadlineExceeded, bd_ContentLength = - 1\<rparr>"

theorem broken_upload_kept_witness:
  "\<exists>r d'. put_bytes sample_blobs 4194304 ''f_1'' 0 5 False sample_broken empty_disk = (Ret (Answered 408), d')
     \<and> Received ''f_1'' d' = (Ret r, d') \<and> 2 - ChunkSize < r"
  using broken_upload_kept [OF sample_facts(6,4) sample_facts(2) sample_resumable, of sample_broken 4194304]
  by (simp add: sample_broken_def honest_def sample_file_def)

section \<open>One writer for each file\<close>

text \<open>
  The registry of writers beside who holds what: a request takes a file when nobody has it, waits
  otherwise, and lets go once.
\<close>

inductive writers_run :: "uploadWriters \<Rightarrow> (nat \<Rightarrow> string option) \<Rightarrow> bool" where
  Start: "writers_run newUploadWriters (\<lambda>_. None)"
| Take: "writers_run u h \<Longrightarrow> h me = None \<Longrightarrow> take_turn fid me u = (None, u') \<Longrightarrow> writers_run u' (h(me := Some fid))"
| Wait: "writers_run u h \<Longrightarrow> take_turn fid me u = (Some prev, u') \<Longrightarrow> writers_run u' h"
| Release: "writers_run u h \<Longrightarrow> h me = Some fid \<Longrightarrow> writers_run (release fid me u) (h(me := None))"

lemma writers_run_active: "writers_run u h \<Longrightarrow> uw_active u f = Some m \<longleftrightarrow> h m = Some f"
proof (induction arbitrary: f m rule: writers_run.induct)
  case Start
  show ?case by (simp add: newUploadWriters_def)
next
  case (Take u h me fid u')
  then have "uw_active u fid = None" "uw_active u' = (uw_active u)(fid := Some me)"
    by (auto simp: take_turn_def split: option.splits)
  then show ?case using Take.IH [of fid m] Take.IH [of f m] Take.hyps(2) by auto
next
  case (Wait u h fid me prev u')
  then show ?case by (auto simp: take_turn_def split: option.splits)
next
  case (Release u h me fid)
  then have "uw_active (release fid me u) = (uw_active u)(fid := None)" by (simp add: release_def)
  then show ?case using Release.IH [of fid m] Release.IH [of f m] Release.IH [of fid me] Release.hyps(2) by auto
qed

text \<open>
  Whatever requests come for files and let go of them, in any order, no two of them ever hold the
  same file, and a request that must wait is told exactly who holds it.
\<close>

theorem one_writer_per_file:
  assumes "writers_run u h"
  shows "(h a = Some fid \<and> h b = Some fid \<longrightarrow> a = b) \<and> (take_turn fid me u = (Some prev, u') \<longrightarrow> u' = u \<and> h prev = Some fid)"
proof -
  note active = writers_run_active [OF assms]
  have "a = b" if "h a = Some fid" "h b = Some fid" using that active [of fid a] active [of fid b] by simp
  moreover have "u' = u \<and> h prev = Some fid" if "take_turn fid me u = (Some prev, u')"
    using that active [of fid prev] by (auto simp: take_turn_def split: option.splits)
  ultimately show ?thesis by blast
qed

theorem one_writer_per_file_witness:
  "\<exists>u'. take_turn ''f_1'' 2 \<lparr>uw_active = [''f_1'' \<mapsto> 1]\<rparr> = (Some 1, u') \<and> u' = \<lparr>uw_active = [''f_1'' \<mapsto> 1]\<rparr>"
proof -
  have "writers_run \<lparr>uw_active = [''f_1'' \<mapsto> 1]\<rparr> ((\<lambda>_. None)(1 := Some ''f_1''))"
    by (rule writers_run.Take [OF writers_run.Start]) (simp_all add: newUploadWriters_def take_turn_def)
  from one_writer_per_file [OF this, of 1 "''f_1''" 1 2 1] show ?thesis by (simp add: take_turn_def)
qed

end
