(* ===== verification/Go_Json.thy ===== *)
theory Go_Json
  imports Go_Net Base64
begin

text \<open>
  The part of \<open>encoding/json\<close> that reads a text: its tokens, strings with their escapes and broken
  UTF-8 replaced, numbers by the grammar, and the nesting with its limit. What comes out is the
  tree the decoders of \<open>Wire\<close> take. The texts the server itself writes are read back.
\<close>

section \<open>Strings\<close>

text \<open>A literal up to its closing quote, its escapes checked and left as they are.\<close>

fun str_body :: "string \<Rightarrow> (string \<times> string) option" where
  "str_body [] = None"
| "str_body (c # cs) =
     (if c = CHR 0x22 then Some ('''', cs)
      else if byte c < 32 then None
      else if c = CHR 0x5C then
        (case cs of
           [] \<Rightarrow> None
         | e # cs1 \<Rightarrow>
             if e \<in> {CHR 0x22, CHR 0x5C, CHR ''/'', CHR ''b'', CHR ''f'', CHR ''n'', CHR ''r'', CHR ''t''}
             then map_option (\<lambda>(r, z). (c # e # r, z)) (str_body cs1)
             else if e = CHR ''u'' then
               (case cs1 of
                  h1 # h2 # h3 # h4 # cs2 \<Rightarrow>
                    if list_all (\<lambda>h. hex_value h \<noteq> None) [h1, h2, h3, h4]
                    then map_option (\<lambda>(r, z). (c # e # h1 # h2 # h3 # h4 # r, z)) (str_body cs2)
                    else None
                | _ \<Rightarrow> None)
             else None)
      else map_option (\<lambda>(r, z). (c # r, z)) (str_body cs))"

lemma str_body_shorter: "str_body s = Some (r, z) \<Longrightarrow> length z < length s"
proof (induction "length s" arbitrary: s r z rule: less_induct)
  case less
  have IH: "length y < length t" if "str_body t = Some (x, y)" "length t < length s" for t x y
    using less(1) that by blast
  show ?case
  proof (cases s)
    case (Cons c cs)
    from less(2) show ?thesis unfolding Cons by (auto split: if_splits list.splits dest!: IH simp: Cons)
  qed (use less(2) in simp)
qed

fun getu4 :: "string \<Rightarrow> nat option" where
  "getu4 (b # u # h1 # h2 # h3 # h4 # _) =
     (if b = CHR 0x5C \<and> u = CHR ''u'' then
        (case (hex_value h1, hex_value h2, hex_value h3, hex_value h4) of
           (Some n1, Some n2, Some n3, Some n4) \<Rightarrow> Some (((n1 * 16 + n2) * 16 + n3) * 16 + n4)
         | _ \<Rightarrow> None)
      else None)"
| "getu4 _ = None"

definition escape :: "char \<Rightarrow> char" where
  "escape e =
     (if e = CHR ''b'' then CHR 0x08 else if e = CHR ''f'' then CHR 0x0C else if e = CHR ''n'' then CHR 0x0A
      else if e = CHR ''r'' then CHR 0x0D else if e = CHR ''t'' then CHR 0x09 else e)"

definition surrogate :: "nat \<Rightarrow> bool" where
  "surrogate r \<longleftrightarrow> 55296 \<le> r \<and> r \<le> 57343"

text \<open>\<open>utf16.DecodeRune\<close> of a surrogate and what \<open>getu4\<close> reads after it.\<close>

definition pair_rune :: "nat \<Rightarrow> nat option \<Rightarrow> rune option" where
  "pair_rune rr rr1 =
     (case rr1 of
        Some r1 \<Rightarrow> if rr < 56320 \<and> 56320 \<le> r1 \<and> r1 \<le> 57343 then Some (65536 + (rr - 55296) * 1024 + (r1 - 56320)) else None
      | None \<Rightarrow> None)"

function unquote :: "string \<Rightarrow> string" where
  "unquote [] = ''''"
| "unquote (c # cs) =
     (if c = CHR 0x5C then
        (case getu4 (c # cs) of
           Some rr \<Rightarrow>
             if surrogate rr then
               (case pair_rune rr (getu4 (drop 5 cs)) of
                  Some r \<Rightarrow> encode_rune r @ unquote (drop 11 cs)
                | None \<Rightarrow> encode_rune RuneError @ unquote (drop 5 cs))
             else encode_rune rr @ unquote (drop 5 cs)
         | None \<Rightarrow> (case cs of [] \<Rightarrow> '''' | e # cs1 \<Rightarrow> escape e # unquote cs1))
      else if byte c < 128 then c # unquote cs
      else encode_rune (fst (decode_rune (map byte (c # cs)))) @ unquote (drop (snd (decode_rune (map byte (c # cs))) - 1) cs))"
  by pat_completeness auto
termination by (relation "measure length") auto

section \<open>Numbers\<close>

definition fraction :: "string \<Rightarrow> (string \<times> string) option" where
  "fraction s =
     (if s = '''' \<or> hd s \<noteq> CHR ''.'' then Some ('''', s)
      else let ds = takeWhile is_digit (drop 1 s)
           in if ds = '''' then None else Some (''.'' @ ds, dropWhile is_digit (drop 1 s)))"

definition exponent :: "string \<Rightarrow> (string \<times> string) option" where
  "exponent s =
     (if s = '''' \<or> hd s \<noteq> CHR ''e'' \<and> hd s \<noteq> CHR ''E'' then Some ('''', s)
      else let t = drop 1 s;
               sign = (if t \<noteq> '''' \<and> (hd t = CHR ''+'' \<or> hd t = CHR ''-'') then [hd t] else '''');
               u = drop (length sign) t;
               ds = takeWhile is_digit u
           in if ds = '''' then None else Some ([hd s] @ sign @ ds, dropWhile is_digit u))"

definition number :: "string \<Rightarrow> (json \<times> string) option" where
  "number s =
     (let neg = (s \<noteq> '''' \<and> hd s = CHR ''-'');
          t = (if neg then drop 1 s else s);
          ds = (if t \<noteq> '''' \<and> hd t = CHR ''0'' then ''0'' else takeWhile is_digit t)
      in if ds = '''' then None
         else case fraction (drop (length ds) t) of
                None \<Rightarrow> None
              | Some (fr, u) \<Rightarrow>
                  (case exponent u of
                     None \<Rightarrow> None
                   | Some (ex, z) \<Rightarrow>
                       let n = int (digits_value ds)
                       in Some (if fr = '''' \<and> ex = '''' then JInt (if neg then - n else n)
                                else JFrac ((if neg then ''-'' else '''') @ ds @ fr @ ex), z)))"

lemma fraction_le: "fraction s = Some (fr, z) \<Longrightarrow> length z \<le> length s"
  using length_dropWhile_le [of is_digit "drop 1 s"] by (auto simp: fraction_def Let_def split: if_splits)

lemma exponent_le: "exponent s = Some (ex, z) \<Longrightarrow> length z \<le> length s"
proof -
  assume "exponent s = Some (ex, z)"
  then have "z = s \<or> (\<exists>k. z = dropWhile is_digit (drop k (drop 1 s)))"
    by (auto simp: exponent_def Let_def split: if_splits)
  then show ?thesis by (metis diff_le_self le_trans length_drop length_dropWhile_le order_refl)
qed

lemma number_shorter: "number s = Some (v, z) \<Longrightarrow> length z < length s"
proof -
  assume n: "number s = Some (v, z)"
  define t where "t = (if s \<noteq> '''' \<and> hd s = CHR ''-'' then drop 1 s else s)"
  define ds where "ds = (if t \<noteq> '''' \<and> hd t = CHR ''0'' then ''0'' else takeWhile is_digit t)"
  from n obtain fr u ex where d: "ds \<noteq> ''''" and u: "fraction (drop (length ds) t) = Some (fr, u)" "exponent u = Some (ex, z)"
    unfolding number_def Let_def t_def [symmetric] ds_def [symmetric] by (auto split: if_splits option.splits)
  have "t \<noteq> ''''" using d by (auto simp: ds_def)
  then have "length (drop (length ds) t) < length t" using d by (cases t) auto
  moreover have "length t \<le> length s" by (simp add: t_def)
  ultimately show ?thesis using fraction_le [OF u(1)] exponent_le [OF u(2)] by linarith
qed

section \<open>Tokens\<close>

text \<open>\<open>TBegin True\<close> opens an object, \<open>TBegin False\<close> an array.\<close>

datatype json_token = TBegin bool | TEnd bool | TColon | TComma | TLit json

function tokens :: "string \<Rightarrow> json_token list option" where
  "tokens [] = Some []"
| "tokens (c # cs) =
     (if c \<in> {CHR '' '', CHR 0x09, CHR 0x0A, CHR 0x0D} then tokens cs
      else if c = CHR ''{'' then map_option ((#) (TBegin True)) (tokens cs)
      else if c = CHR ''['' then map_option ((#) (TBegin False)) (tokens cs)
      else if c = CHR ''}'' then map_option ((#) (TEnd True)) (tokens cs)
      else if c = CHR '']'' then map_option ((#) (TEnd False)) (tokens cs)
      else if c = CHR '':'' then map_option ((#) TColon) (tokens cs)
      else if c = CHR '','' then map_option ((#) TComma) (tokens cs)
      else if c = CHR 0x22 then
        (case str_body cs of None \<Rightarrow> None | Some (r, z) \<Rightarrow> map_option ((#) (TLit (JStr (unquote r)))) (tokens z))
      else if take 4 (c # cs) = ''true'' then map_option ((#) (TLit (JBool True))) (tokens (drop 3 cs))
      else if take 5 (c # cs) = ''false'' then map_option ((#) (TLit (JBool False))) (tokens (drop 4 cs))
      else if take 4 (c # cs) = ''null'' then map_option ((#) (TLit JNull)) (tokens (drop 3 cs))
      else (case number (c # cs) of None \<Rightarrow> None | Some (v, z) \<Rightarrow> map_option ((#) (TLit v)) (tokens z)))"
  by pat_completeness auto
termination
  by (relation "measure length") (auto dest: str_body_shorter number_shorter)

declare tokens.simps(2) [simp del]

section \<open>Nesting\<close>

definition maxNestingDepth :: nat where "maxNestingDepth = 10000"

datatype json_frame = InArr "json list" | InObj "(string \<times> json) list" string

datatype want = AnyValue | ValueOrEnd | ObjKey | KeyOrEnd | Colon | CommaOrEnd | Nothing json

fun put_value :: "json \<Rightarrow> json_frame list \<Rightarrow> json_frame list \<times> want" where
  "put_value v [] = ([], Nothing v)"
| "put_value v (InArr vs # fs) = (InArr (vs @ [v]) # fs, CommaOrEnd)"
| "put_value v (InObj kvs k # fs) = (InObj (kvs @ [(k, v)]) '''' # fs, CommaOrEnd)"

definition next_token :: "json_frame list \<Rightarrow> want \<Rightarrow> json_token \<Rightarrow> (json_frame list \<times> want) option" where
  "next_token fs w t =
     (case t of
        TLit v \<Rightarrow>
          if w = AnyValue \<or> w = ValueOrEnd then Some (put_value v fs)
          else if w = ObjKey \<or> w = KeyOrEnd then
            (case (v, fs) of (JStr k, InObj kvs _ # r) \<Rightarrow> Some (InObj kvs k # r, Colon) | _ \<Rightarrow> None)
          else None
      | TBegin obj \<Rightarrow>
          if (w = AnyValue \<or> w = ValueOrEnd) \<and> length fs < maxNestingDepth
          then Some (if obj then (InObj [] '''' # fs, KeyOrEnd) else (InArr [] # fs, ValueOrEnd))
          else None
      | TEnd obj \<Rightarrow>
          (case fs of
             InObj kvs _ # r \<Rightarrow> if obj \<and> (w = KeyOrEnd \<or> w = CommaOrEnd) then Some (put_value (JObj kvs) r) else None
           | InArr vs # r \<Rightarrow> if \<not> obj \<and> (w = ValueOrEnd \<or> w = CommaOrEnd) then Some (put_value (JArr vs) r) else None
           | [] \<Rightarrow> None)
      | TColon \<Rightarrow> if w = Colon then Some (fs, AnyValue) else None
      | TComma \<Rightarrow>
          if w = CommaOrEnd then (case fs of InObj _ _ # _ \<Rightarrow> Some (fs, ObjKey) | InArr _ # _ \<Rightarrow> Some (fs, AnyValue) | [] \<Rightarrow> None)
          else None)"

fun read_tokens :: "json_frame list \<Rightarrow> want \<Rightarrow> json_token list \<Rightarrow> json option" where
  "read_tokens fs w [] = (case w of Nothing v \<Rightarrow> Some v | _ \<Rightarrow> None)"
| "read_tokens fs w (t # ts) = (case next_token fs w t of None \<Rightarrow> None | Some (fs1, w1) \<Rightarrow> read_tokens fs1 w1 ts)"

definition parse_json :: "string \<Rightarrow> json option" where
  "parse_json s = Option.bind (tokens s) (read_tokens [] AnyValue)"

section \<open>Texts the server writes\<close>

definition quoted :: "string \<Rightarrow> string" where
  "quoted s = [CHR 0x22] @ s @ [CHR 0x22]"

definition member :: "string \<Rightarrow> string \<Rightarrow> string" where
  "member name v = quoted name @ '':'' @ quoted v"

definition num_member :: "string \<Rightarrow> nat \<Rightarrow> string" where
  "num_member name n = quoted name @ '':'' @ decimal n"

text \<open>A string that is written as it is.\<close>

definition plain_text :: "string \<Rightarrow> bool" where
  "plain_text s \<longleftrightarrow> list_all (\<lambda>c. 32 \<le> byte c \<and> byte c < 128 \<and> c \<noteq> CHR 0x22 \<and> c \<noteq> CHR 0x5C) s"

lemma plain_append [simp]: "plain_text (s @ t) \<longleftrightarrow> plain_text s \<and> plain_text t"
  by (simp add: plain_text_def)

lemma str_body_plain: "plain_text s \<Longrightarrow> str_body (s @ CHR 0x22 # z) = Some (s, z)"
  by (induction s) (auto simp: plain_text_def)

lemma unquote_plain: "plain_text s \<Longrightarrow> unquote s = s"
  by (induction s) (auto simp: plain_text_def)

lemma tokens_string [simp]: "plain_text s \<Longrightarrow> tokens (quoted s @ z) = map_option ((#) (TLit (JStr s))) (tokens z)"
  by (simp add: quoted_def tokens.simps(2) str_body_plain unquote_plain)

lemma tokens_signs [simp]:
  "tokens (CHR ''{'' # z) = map_option ((#) (TBegin True)) (tokens z)" "tokens (CHR ''}'' # z) = map_option ((#) (TEnd True)) (tokens z)"
  "tokens (CHR '':'' # z) = map_option ((#) TColon) (tokens z)" "tokens (CHR '','' # z) = map_option ((#) TComma) (tokens z)"
  by (simp_all add: tokens.simps(2))

lemma decimal_head: "\<exists>c r. decimal n = c # r \<and> is_digit c \<and> (c = CHR ''0'' \<longrightarrow> n = 0 \<and> r = '''')"
proof (induction n rule: decimal.induct)
  case (1 n)
  show ?case
  proof (cases "n < 10")
    case True
    then have b: "byte (char_of (48 + n) :: char) = 48 + n" by (simp add: byte_def)
    have "byte (CHR ''0'') = 48" by (simp add: byte_def)
    then have "is_digit (char_of (48 + n) :: char)" "(char_of (48 + n) :: char) = CHR ''0'' \<longrightarrow> n = 0"
      using b True by (auto simp: is_digit_def)
    then show ?thesis using True by (subst decimal.simps) auto
  next
    case False
    then obtain c r where "decimal (n div 10) = c # r" "is_digit c" "c = CHR ''0'' \<longrightarrow> n div 10 = 0 \<and> r = ''''" using 1 by blast
    then show ?thesis using False by (subst decimal.simps) auto
  qed
qed

lemma number_decimal:
  assumes "z = '''' \<or> hd z = CHR '','' \<or> hd z = CHR ''}''"
  shows "number (decimal n @ z) = Some (JInt (int n), z)"
proof -
  obtain c r where d: "decimal n = c # r" "is_digit c" "c = CHR ''0'' \<longrightarrow> n = 0 \<and> r = ''''" using decimal_head by blast
  have digits: "list_all is_digit (decimal n)" and v: "digits_value (decimal n) = n" using decimal_digits by blast+
  have stop: "takeWhile is_digit z = ''''" using assms by (cases z) (auto simp: is_digit_def byte_def)
  have run: "takeWhile is_digit (decimal n @ z) = decimal n"
    using digits stop by (metis append.right_neutral list_all_iff takeWhile_append2)
  show ?thesis
  proof (cases "c = CHR ''0''")
    case True
    then have "decimal n = ''0''" "n = 0" using d by auto
    then show ?thesis using assms v by (auto simp: number_def fraction_def exponent_def Let_def)
  next
    case False
    have "c \<noteq> CHR ''-''" using d(2) by (auto simp: is_digit_def byte_def)
    moreover have h: "decimal n @ z \<noteq> ''''" "hd (decimal n @ z) = c" "decimal n \<noteq> ''''" using d(1) by auto
    moreover have "fraction z = Some ('''', z)" "exponent z = Some ('''', z)" using assms by (auto simp: fraction_def exponent_def)
    ultimately show ?thesis using False by (simp add: number_def Let_def run v)
  qed
qed

lemma tokens_decimal:
  assumes "z = '''' \<or> hd z = CHR '','' \<or> hd z = CHR ''}''"
  shows "tokens (decimal n @ z) = map_option ((#) (TLit (JInt (int n)))) (tokens z)"
proof -
  obtain c r where d: "decimal n = c # r" "is_digit c" using decimal_head by blast
  have other: "c \<notin> {CHR '' '', CHR 0x09, CHR 0x0A, CHR 0x0D, CHR ''{'', CHR ''['', CHR ''}'', CHR '']'', CHR '':'', CHR '','', CHR 0x22, CHR ''t'', CHR ''f'', CHR ''n''}"
    using d(2) by (auto simp: is_digit_def byte_def)
  show ?thesis using other number_decimal [OF assms, of n] unfolding d(1) by (simp add: tokens.simps(2))
qed

lemma plain_letter: "n < 64 \<Longrightarrow> 32 \<le> byte (letter a n) \<and> byte (letter a n) < 128 \<and> letter a n \<noteq> CHR 0x22 \<and> letter a n \<noteq> CHR 0x5C"
proof -
  assume n: "n < 64"
  have b: "byte (letter a n) \<in> {43, 45, 47, 95} \<union> {48..57} \<union> {65..90} \<union> {97..122}"
    using n by (cases a) (auto simp: letter_def byte_def)
  have "byte (CHR 0x22) = 34" "byte (CHR 0x5C) = 92" by (simp_all add: byte_def)
  with b show ?thesis by auto
qed

lemma plain_enc: "\<forall>x \<in> set xs. x < 256 \<Longrightarrow> plain_text (enc a xs)"
proof (induction a xs rule: enc.induct)
  case (4 a x y z r)
  have "x div 4 < 64" "x mod 4 * 16 + y div 16 < 64" "y mod 16 * 4 + z div 64 < 64" "z mod 64 < 64" using 4(2) by auto
  then show ?case using 4 plain_letter by (auto simp: plain_text_def)
next
  case (3 a x y)
  have "x div 4 < 64" "x mod 4 * 16 + y div 16 < 64" "y mod 16 * 4 < 64" using 3 by auto
  then show ?case using plain_letter by (cases a) (auto simp: plain_text_def pad_def byte_def)
next
  case (2 a x)
  have "x div 4 < 64" "x mod 4 * 16 < 64" using 2 by auto
  then show ?case using plain_letter by (cases a) (auto simp: plain_text_def pad_def byte_def)
qed (simp add: plain_text_def)

lemma plain_Encode [simp]: "plain_text (EncodeToString a s)"
  unfolding EncodeToString_def by (rule plain_enc) (simp add: byte_lt)

end
