(* ===== verification/Connauth.thy ===== *)
theory Connauth
  imports Go_Json Store_Machine
begin

text \<open>
  \<open>internal/connauth/connauth.go\<close>: the two requests every connection starts with. RustSecureBox
  and the parsing of HTTP messages are parameters; everything the package does with what they
  give is modelled, down to the bytes of its answers.
\<close>

section \<open>Sizes, paths and kinds of refusal\<close>

definition AuthPath :: string where "AuthPath = ''/auth''"
definition Auth2Path :: string where "Auth2Path = ''/auth2''"
definition maxBody :: int where "maxBody = 1024"
definition maxStage :: nat where "maxStage = 16384"

definition ChallengeSize :: nat where "ChallengeSize = 32"
definition SignatureSize :: nat where "SignatureSize = 64"

text \<open>Errors of the package, of the box, of reading and writing; two of them wrap another.\<close>

datatype conn_err =
    ErrMalformed
  | ErrOrder
  | ErrMethod
  | ErrUnauthenticated
  | ErrAfterAuth conn_err
  | ErrSignature
  | ErrWrongServer
  | ErrRefused
  | ErrInvalidArgument
  | ErrRandom
  | ErrBox
  | ErrReading
  | ErrWriting
  | ErrContext
  | DeadlineExceeded conn_err
  | tlsStageError

text \<open>\<open>errors.Is\<close>, and whether \<open>ErrAfterAuth\<close> is in the chain.\<close>

fun Is :: "conn_err \<Rightarrow> conn_err \<Rightarrow> bool" where
  "Is (ErrAfterAuth e) kind = (ErrAfterAuth e = kind \<or> Is e kind)"
| "Is (DeadlineExceeded e) kind = (DeadlineExceeded e = kind \<or> Is e kind)"
| "Is e kind = (e = kind)"

fun afterAuth :: "conn_err \<Rightarrow> bool" where
  "afterAuth (ErrAfterAuth e) = True"
| "afterAuth (DeadlineExceeded e) = afterAuth e"
| "afterAuth e = False"

section \<open>RustSecureBox and HTTP\<close>

text \<open>
  The box: challenges are made from random bytes. \<open>hp_request\<close> is \<open>http.ReadRequest\<close> on the text
  that is there: the request line and headers, and how long they are. \<open>hp_response\<close> is
  \<open>http.ReadResponse\<close> with the body it delimits.
\<close>

record box =
  bx_GetChallenge :: "string \<Rightarrow> string \<Rightarrow> conn_err + (string \<times> string)"
  bx_SignChallenge :: "string \<Rightarrow> string \<Rightarrow> conn_err + string"
  bx_CheckSignature :: "string \<Rightarrow> string \<Rightarrow> string \<Rightarrow> conn_err + bool"

record http_request =
  rq_Path :: string
  rq_Method :: string
  rq_TransferEncoding :: bool
  rq_ContentLength :: int

record http_response =
  rs_StatusCode :: int
  rs_Body :: string
  rs_Complete :: bool

datatype 'a http_read = Parsed 'a nat | ReadEnds | ReadBad

record http_parsers =
  hp_request :: "string \<Rightarrow> http_request http_read"
  hp_response :: "string \<Rightarrow> http_response http_read"
  hp_fold :: "rune \<Rightarrow> rune"

section \<open>A connection\<close>

text \<open>
  What the peer sends before it ends, what was written to it, and for the writes to come whether
  one fails, and after how many bytes.
\<close>

record conn =
  cn_in :: string
  cn_out :: "string list"
  cn_writes :: "nat option list"

definition conn_Write :: "string \<Rightarrow> conn \<Rightarrow> bool \<times> conn" where
  "conn_Write bs c =
     (case cn_writes c of
        [] \<Rightarrow> (True, c\<lparr>cn_out := cn_out c @ [bs]\<rparr>)
      | w # ws \<Rightarrow>
          (case w of
             None \<Rightarrow> (True, c\<lparr>cn_out := cn_out c @ [bs], cn_writes := ws\<rparr>)
           | Some n \<Rightarrow> (False, c\<lparr>cn_out := cn_out c @ [take n bs], cn_writes := ws\<rparr>)))"

section \<open>Bodies and answers\<close>

record authRequest =
  aq_PK :: string
  aq_Challenge :: string

record authAnswer =
  aa_PK :: string
  aa_Challenge :: string
  aa_Signature :: string


definition marshal_request :: "authRequest \<Rightarrow> string" where
  "marshal_request r = ''{'' @ member ''pk'' (aq_PK r) @ '','' @ member ''challenge'' (aq_Challenge r) @ ''}''"

definition marshal_answer :: "authAnswer \<Rightarrow> string" where
  "marshal_answer r = ''{'' @ member ''pk'' (aa_PK r) @ '','' @ member ''challenge'' (aa_Challenge r) @ '','' @ member ''signature'' (aa_Signature r) @ ''}''"

definition marshal_auth2 :: "string \<Rightarrow> string" where
  "marshal_auth2 sig = ''{'' @ member ''signature'' sig @ ''}''"

definition body_members :: "string \<Rightarrow> (string \<times> json) list option" where
  "body_members body = Option.bind (parse_json body) members"

definition str_member :: "http_parsers \<Rightarrow> string \<Rightarrow> (string \<times> json) list \<Rightarrow> string option" where
  "str_member hp name kvs = dec_string '''' (field_vals (hp_fold hp) name kvs)"

definition unmarshal_request :: "http_parsers \<Rightarrow> string \<Rightarrow> authRequest option" where
  "unmarshal_request hp body = Option.bind (body_members body) (\<lambda>kvs.
     case (str_member hp ''pk'' kvs, str_member hp ''challenge'' kvs) of
       (Some p, Some c) \<Rightarrow> Some \<lparr>aq_PK = p, aq_Challenge = c\<rparr>
     | _ \<Rightarrow> None)"

definition unmarshal_answer :: "http_parsers \<Rightarrow> string \<Rightarrow> authAnswer option" where
  "unmarshal_answer hp body = Option.bind (body_members body) (\<lambda>kvs.
     case (str_member hp ''pk'' kvs, str_member hp ''challenge'' kvs, str_member hp ''signature'' kvs) of
       (Some p, Some c, Some s) \<Rightarrow> Some \<lparr>aa_PK = p, aa_Challenge = c, aa_Signature = s\<rparr>
     | _ \<Rightarrow> None)"

definition unmarshal_auth2 :: "http_parsers \<Rightarrow> string \<Rightarrow> string option" where
  "unmarshal_auth2 hp body = Option.bind (body_members body) (\<lambda>kvs. str_member hp ''signature'' kvs)"

text \<open>
  \<open>RawURLEncoding.Strict()\<close>: line breaks are skipped, and the unused bits of the last letter are
  zero, so that the letters are the ones the value encodes to. The value has exactly \<open>n\<close> bytes.
\<close>

definition decode_value :: "nat \<Rightarrow> string \<Rightarrow> string option" where
  "decode_value n s =
     (if length s * 6 div 8 \<noteq> n then None
      else case DecodeString URL s of
             None \<Rightarrow> None
           | Some v \<Rightarrow>
               if EncodeToString URL v = filter (\<lambda>c. c \<noteq> CHR 0x0D \<and> c \<noteq> CHR 0x0A) s \<and> length v = n then Some v else None)"

definition crlf :: string where "crlf = [CHR 0x0D, CHR 0x0A]"

definition StatusText :: "int \<Rightarrow> string" where
  "StatusText n =
     (if n = 200 then ''OK'' else if n = 400 then ''Bad Request'' else if n = 401 then ''Unauthorized''
      else if n = 405 then ''Method Not Allowed'' else '''')"

text \<open>A body of \<open>None\<close> is Go's \<open>nil\<close>.\<close>

definition answer_text :: "int \<Rightarrow> string option \<Rightarrow> bool \<Rightarrow> string" where
  "answer_text status body closing =
     ''HTTP/1.1 '' @ decimal (nat status) @ '' '' @ StatusText status @ crlf
     @ (if body \<noteq> None then ''Content-Type: application/json'' @ crlf @ ''Cache-Control: no-store'' @ crlf else '''')
     @ ''Content-Length: '' @ decimal (length (case body of None \<Rightarrow> '''' | Some b \<Rightarrow> b)) @ crlf
     @ (if closing then ''Connection: close'' @ crlf else '''')
     @ crlf @ (case body of None \<Rightarrow> '''' | Some b \<Rightarrow> b)"

definition writeAnswer :: "int \<Rightarrow> string option \<Rightarrow> bool \<Rightarrow> conn \<Rightarrow> bool \<times> conn" where
  "writeAnswer status body closing = conn_Write (answer_text status body closing)"

definition refuse :: "int \<Rightarrow> conn_err \<Rightarrow> conn \<Rightarrow> (conn_err + 'a) \<times> conn" where
  "refuse status kind c = (Inl kind, snd (writeAnswer status None True c))"

section \<open>The server's half\<close>

text \<open>
  The buffered reader stands at \<open>pos\<close> in what the peer sends and sees no more of it than \<open>maxStage\<close>
  bytes in all. A step is a request and its body.
\<close>

definition readStep :: "http_parsers \<Rightarrow> string \<Rightarrow> nat \<Rightarrow> conn \<Rightarrow> (conn_err + (string \<times> nat)) \<times> conn" where
  "readStep hp want pos c =
     (let text0 = drop pos (take maxStage (cn_in c))
      in case hp_request hp text0 of
           ReadEnds \<Rightarrow> (Inl ErrReading, c)
         | ReadBad \<Rightarrow> refuse 400 ErrMalformed c
         | Parsed req n \<Rightarrow>
             if rq_Path req \<noteq> AuthPath \<and> rq_Path req \<noteq> Auth2Path then refuse 401 ErrUnauthenticated c
             else if rq_Method req \<noteq> ''POST'' then refuse 405 ErrMethod c
             else if rq_Path req \<noteq> want then refuse 400 ErrOrder c
             else if rq_TransferEncoding req \<or> rq_ContentLength req < 0 \<or> rq_ContentLength req > maxBody then refuse 400 ErrMalformed c
             else
               let body = take (nat (rq_ContentLength req)) (drop n text0)
               in if int (length body) \<noteq> rq_ContentLength req then refuse 400 ErrMalformed c
                  else (Inr (body, pos + n + length body), c))"

definition checkSignature :: "box \<Rightarrow> string \<Rightarrow> string \<Rightarrow> string \<Rightarrow> conn_err + bool" where
  "checkSignature bx key challenge sig =
     (case bx_CheckSignature bx key challenge sig of
        Inl e \<Rightarrow> if Is e ErrInvalidArgument then Inr False else Inl e
      | Inr valid \<Rightarrow> Inr valid)"

definition respondAuth2 :: "http_parsers \<Rightarrow> box \<Rightarrow> string \<Rightarrow> string \<Rightarrow> nat \<Rightarrow> conn \<Rightarrow> (conn_err + nat) \<times> conn" where
  "respondAuth2 hp bx device ours pos c =
     (case readStep hp Auth2Path pos c of
        (Inl e, c1) \<Rightarrow> (Inl e, c1)
      | (Inr (body, pos1), c1) \<Rightarrow>
          (case Option.bind (unmarshal_auth2 hp body) (decode_value SignatureSize) of
             None \<Rightarrow> refuse 400 ErrMalformed c1
           | Some theirSignature \<Rightarrow>
               (case checkSignature bx device ours theirSignature of
                  Inl e \<Rightarrow> (Inl e, c1)
                | Inr valid \<Rightarrow>
                    if \<not> valid then refuse 401 ErrSignature c1
                    else let (ok, c2) = writeAnswer 200 None False c1
                         in (if ok then Inr pos1 else Inl ErrWriting, c2))))"

text \<open>
  The connection to go on with: what the buffered reader holds beyond \<open>pos\<close>, \<open>ahead\<close> bytes of it, comes
  before what the connection still brings.
\<close>

datatype rest_conn = Plain conn | prefixConn string conn

definition withRest :: "nat \<Rightarrow> nat \<Rightarrow> conn \<Rightarrow> rest_conn" where
  "withRest pos ahead c =
     (let held = take ahead (drop pos (cn_in c)); c' = c\<lparr>cn_in := drop (pos + ahead) (cn_in c)\<rparr>
      in if held = '''' then Plain c' else prefixConn held c')"

text \<open>A \<open>Read\<close> into a buffer of \<open>n\<close> bytes; the connection under it gives at most \<open>k\<close> of what it has.\<close>

fun rest_Read :: "nat \<Rightarrow> nat \<Rightarrow> rest_conn \<Rightarrow> string \<times> rest_conn" where
  "rest_Read n k (Plain c) = (take (min n k) (cn_in c), Plain (c\<lparr>cn_in := drop (min n k) (cn_in c)\<rparr>))"
| "rest_Read n k (prefixConn p c) =
     (if p \<noteq> '''' then (take n p, prefixConn (drop n p) c)
      else (take (min n k) (cn_in c), prefixConn p (c\<lparr>cn_in := drop (min n k) (cn_in c)\<rparr>)))"

definition respond :: "http_parsers \<Rightarrow> box \<Rightarrow> string \<Rightarrow> string \<Rightarrow> nat \<Rightarrow> conn \<Rightarrow> (conn_err + (string \<times> rest_conn)) \<times> conn" where
  "respond hp bx serverKey rnd ahead c =
     (case readStep hp AuthPath 0 c of
        (Inl e, c1) \<Rightarrow> (Inl e, c1)
      | (Inr (body, pos), c1) \<Rightarrow>
          (case unmarshal_request hp body of
             None \<Rightarrow> refuse 400 ErrMalformed c1
           | Some req \<Rightarrow>
               (case (decode_value PublicKeySize (aq_PK req), decode_value ChallengeSize (aq_Challenge req)) of
                  (Some device, Some theirs) \<Rightarrow>
                    (case bx_GetChallenge bx serverKey rnd of
                       Inl e \<Rightarrow> (Inl e, c1)
                     | Inr (ours, serverPublic) \<Rightarrow>
                         (case bx_SignChallenge bx serverKey theirs of
                            Inl e \<Rightarrow> (Inl e, c1)
                          | Inr sig \<Rightarrow>
                              let answer = marshal_answer \<lparr>aa_PK = EncodeToString URL serverPublic, aa_Challenge = EncodeToString URL ours,
                                    aa_Signature = EncodeToString URL sig\<rparr>;
                                  (ok, c2) = writeAnswer 200 (Some answer) False c1
                              in if \<not> ok then (Inl ErrWriting, c2)
                                 else (case respondAuth2 hp bx device ours pos c2 of
                                         (Inl e, c3) \<Rightarrow> (Inl (ErrAfterAuth e), c3)
                                       | (Inr pos1, c3) \<Rightarrow> (Inr (device, withRest pos1 (min ahead (maxStage - pos1)) c3), c3))))
                | _ \<Rightarrow> refuse 400 ErrMalformed c1)))"

text \<open>
  \<open>bind\<close> and \<open>settle\<close>: whether the context had ended before the exchange, whether it left the exchange
  alone, and whether its deadline is past when the exchange is over.
\<close>

record ctx =
  cx_ended :: bool
  cx_left :: bool
  cx_past :: bool

definition settle :: "ctx \<Rightarrow> conn_err + 'a \<Rightarrow> conn_err + 'a" where
  "settle cx r =
     (if \<not> cx_left cx then Inl ErrContext
      else case r of
             Inl e \<Rightarrow> if cx_past cx then Inl (DeadlineExceeded e) else Inl e
           | Inr x \<Rightarrow> Inr x)"

definition Respond :: "ctx \<Rightarrow> http_parsers \<Rightarrow> box \<Rightarrow> string \<Rightarrow> string \<Rightarrow> nat \<Rightarrow> conn \<Rightarrow> (conn_err + (string \<times> rest_conn)) \<times> conn" where
  "Respond cx hp bx serverKey rnd ahead c =
     (if cx_ended cx then (Inl ErrContext, c)
      else let (r, c1) = respond hp bx serverKey rnd ahead c in (settle cx r, c1))"

section \<open>The device's half\<close>

definition post_text :: "string \<Rightarrow> string \<Rightarrow> string \<Rightarrow> string" where
  "post_text host path body =
     ''POST '' @ path @ '' HTTP/1.1'' @ crlf @ ''Host: '' @ host @ crlf @ ''Content-Type: application/json'' @ crlf
     @ ''Content-Length: '' @ decimal (length body) @ crlf @ crlf @ body"

definition post :: "http_parsers \<Rightarrow> string \<Rightarrow> string \<Rightarrow> string \<Rightarrow> nat \<Rightarrow> conn \<Rightarrow> (conn_err + (string \<times> nat)) \<times> conn" where
  "post hp host path body pos c =
     (let (ok, c1) = conn_Write (post_text host path body) c
      in if \<not> ok then (Inl ErrWriting, c1)
         else case hp_response hp (drop pos (cn_in c1)) of
                Parsed resp n \<Rightarrow>
                  let answer = take (nat maxBody + 1) (rs_Body resp)
                  in if \<not> rs_Complete resp \<and> answer = rs_Body resp \<and> length answer \<noteq> nat maxBody + 1 then (Inl ErrReading, c1)
                     else if rs_StatusCode resp \<noteq> 200 then (Inl ErrRefused, c1)
                     else if int (length answer) > maxBody then (Inl ErrMalformed, c1)
                     else (Inr (answer, pos + n), c1)
              | _ \<Rightarrow> (Inl ErrReading, c1))"

definition initiate :: "http_parsers \<Rightarrow> box \<Rightarrow> string \<Rightarrow> string \<Rightarrow> string \<Rightarrow> string \<Rightarrow> nat \<Rightarrow> conn \<Rightarrow> (conn_err + rest_conn) \<times> conn" where
  "initiate hp bx deviceKey rnd host server ahead c =
     (case bx_GetChallenge bx deviceKey rnd of
        Inl e \<Rightarrow> (Inl e, c)
      | Inr (ours, devicePublic) \<Rightarrow>
          (case post hp host AuthPath
              (marshal_request \<lparr>aq_PK = EncodeToString URL devicePublic, aq_Challenge = EncodeToString URL ours\<rparr>) 0 c of
             (Inl e, c1) \<Rightarrow> (Inl e, c1)
           | (Inr (answer, pos), c1) \<Rightarrow>
               (case unmarshal_answer hp answer of
                  None \<Rightarrow> (Inl ErrMalformed, c1)
                | Some a \<Rightarrow>
                    (case (decode_value PublicKeySize (aa_PK a), decode_value ChallengeSize (aa_Challenge a), decode_value SignatureSize (aa_Signature a)) of
                       (Some serverPublic, Some theirs, Some sig) \<Rightarrow>
                         (case checkSignature bx serverPublic ours sig of
                            Inl e \<Rightarrow> (Inl e, c1)
                          | Inr valid \<Rightarrow>
                              if \<not> valid then (Inl ErrSignature, c1)
                              else if serverPublic \<noteq> server then (Inl ErrWrongServer, c1)
                              else (case bx_SignChallenge bx deviceKey theirs of
                                      Inl e \<Rightarrow> (Inl e, c1)
                                    | Inr mine \<Rightarrow>
                                        (case post hp host Auth2Path (marshal_auth2 (EncodeToString URL mine)) pos c1 of
                                           (Inl e, c2) \<Rightarrow> (Inl e, c2)
                                         | (Inr (_, pos2), c2) \<Rightarrow> (Inr (withRest pos2 ahead c2), c2))))
                     | _ \<Rightarrow> (Inl ErrMalformed, c1)))))"

definition Initiate :: "ctx \<Rightarrow> http_parsers \<Rightarrow> box \<Rightarrow> string \<Rightarrow> string \<Rightarrow> string \<Rightarrow> string \<Rightarrow> nat \<Rightarrow> conn \<Rightarrow> (conn_err + rest_conn) \<times> conn" where
  "Initiate cx hp bx deviceKey rnd host server ahead c =
     (if cx_ended cx then (Inl ErrContext, c)
      else let (r, c1) = initiate hp bx deviceKey rnd host server ahead c in (settle cx r, c1))"

end
