(* ===== verification/Channel.thy ===== *)
theory Channel
  imports Connauth
begin

text \<open>
  \<open>internal/server/channel.go\<close>: the listener every connection comes through. The handshakes under
  way, the shares of the sources, who is cut to make room, what the listener hands on, and its
  warnings. TLS is a parameter; a connection is known by its number.
\<close>

section \<open>Limits\<close>

definition maxPendingChannels :: int where "maxPendingChannels = 256"
definition maxPendingPerSource :: int where "maxPendingPerSource = 8"
definition maxPendingLocal :: int where "maxPendingLocal = 64"

text \<open>Times are in milliseconds.\<close>

definition firstByteTimeout :: int where "firstByteTimeout = 5 * 1000"
definition entryShedInterval :: int where "entryShedInterval = 60 * 1000"

section \<open>Where a connection comes from\<close>

datatype net_addr = NilAddr | TCPAddr "nat list" | OtherAddr string

text \<open>\<open>netip.ParseAddr\<close>, its zone dropped, and \<open>netip.ParseAddrPort\<close>.\<close>

definition ParseAddr :: "string \<Rightarrow> nat list option" where
  "ParseAddr s =
     (case List.find (\<lambda>c. c = CHR ''.'' \<or> c = CHR '':'' \<or> c = CHR ''%'') s of
        None \<Rightarrow> None
      | Some c \<Rightarrow>
          if c = CHR ''.'' then parseIPv4 s
          else if c = CHR '':'' then
            (case index_of (CHR ''%'') s of
               None \<Rightarrow> parseIPv6 s
             | Some i \<Rightarrow> if drop (i + 1) s = '''' then None else parseIPv6 (take i s))
          else None)"

definition ParseAddrPort :: "string \<Rightarrow> nat list option" where
  "ParseAddrPort s =
     (case last_index_of (CHR '':'') s of
        None \<Rightarrow> None
      | Some i \<Rightarrow>
          let ip = take i s; port = drop (i + 1) s; v6 = (ip \<noteq> '''' \<and> hd ip = CHR ''['')
          in if ip = '''' \<or> port = '''' \<or> v6 \<and> (length ip < 2 \<or> last ip \<noteq> CHR '']'') \<or> ParseUint16 port = None then None
             else case ParseAddr (if v6 then take (length ip - 2) (drop 1 ip) else ip) of
                    None \<Rightarrow> None
                  | Some a \<Rightarrow> if v6 \<longleftrightarrow> length a = 16 then Some a else None)"

definition Unmap :: "nat list \<Rightarrow> nat list" where
  "Unmap ip = (case To4 ip of Some v4 \<Rightarrow> v4 | None \<Rightarrow> ip)"

definition ipOf :: "net_addr \<Rightarrow> nat list option" where
  "ipOf addr = map_option Unmap
     (case addr of
        NilAddr \<Rightarrow> None
      | TCPAddr ip \<Rightarrow> if length ip = 4 \<or> length ip = 16 then Some ip else None
      | OtherAddr s \<Rightarrow> ParseAddrPort s)"

definition IsLoopback :: "nat list \<Rightarrow> bool" where
  "IsLoopback ip \<longleftrightarrow> length ip = 4 \<and> hd ip = 127 \<or> ip = replicate 15 0 @ [1]"

definition localSource :: string where "localSource = ''local''"

definition sourceOf :: "net_addr \<Rightarrow> net_addr \<Rightarrow> string \<times> bool" where
  "sourceOf remote local =
     (case ipOf remote of
        None \<Rightarrow> ('''', False)
      | Some ip \<Rightarrow>
          if IsLoopback ip \<or> ipOf local = Some ip then (localSource, True)
          else if length ip = 4 then (string4 ip, False)
          else (string6 (take 8 ip @ replicate 8 0) @ ''/64'', False))"

section \<open>The listener\<close>

record pendingChannel =
  pc_conn :: nat
  pc_accepted :: int
  pc_source :: string
  pc_local :: bool
  pc_firstByteBy :: "int option"

record shedCounts =
  sc_inSource :: nat
  sc_local :: nat
  sc_evicted :: nat

definition no_shed :: shedCounts where
  "no_shed = \<lparr>sc_inSource = 0, sc_local = 0, sc_evicted = 0\<rparr>"

record channelListener =
  cl_budget :: int
  cl_maxPending :: int
  cl_maxPerSource :: int
  cl_maxLocal :: int
  cl_firstByte :: int
  cl_shedEvery :: int
  cl_pending :: "pendingChannel list"
  cl_bySource :: "string \<Rightarrow> int option"
  cl_shed :: shedCounts
  cl_shedLogged :: int
  cl_shedFlush :: "int option"
  cl_closed :: bool

text \<open>The zero time, which \<open>shedLogged\<close> starts at, is the number \<open>zero_time\<close>.\<close>

definition newChannelListener :: "int \<Rightarrow> int \<Rightarrow> channelListener" where
  "newChannelListener zero_time budget =
     \<lparr>cl_budget = budget, cl_maxPending = maxPendingChannels, cl_maxPerSource = maxPendingPerSource, cl_maxLocal = maxPendingLocal,
      cl_firstByte = firstByteTimeout, cl_shedEvery = entryShedInterval, cl_pending = [], cl_bySource = (\<lambda>_. None),
      cl_shed = no_shed, cl_shedLogged = zero_time, cl_shedFlush = None, cl_closed = False\<rparr>"

definition source_count :: "channelListener \<Rightarrow> string \<Rightarrow> int" where
  "source_count l s = (case cl_bySource l s of None \<Rightarrow> 0 | Some n \<Rightarrow> n)"

definition oldestFromLocked :: "string \<Rightarrow> channelListener \<Rightarrow> pendingChannel option" where
  "oldestFromLocked source l = List.find (\<lambda>p. pc_source p = source) (cl_pending l)"

text \<open>\<open>p.elem\<close> is \<open>nil\<close> exactly when \<open>p\<close> is not in the list.\<close>

definition forgetLocked :: "pendingChannel \<Rightarrow> channelListener \<Rightarrow> channelListener" where
  "forgetLocked p l =
     (let n = source_count l (pc_source p) - 1
      in l\<lparr>cl_pending := remove1 p (cl_pending l),
           cl_bySource := (cl_bySource l)(pc_source p := if n \<le> 0 then None else Some n)\<rparr>)"

definition leave :: "pendingChannel \<Rightarrow> channelListener \<Rightarrow> bool \<times> channelListener" where
  "leave p l = (if p \<notin> set (cl_pending l) then (False, l) else (True, forgetLocked p l))"

definition shedLocked :: "int \<Rightarrow> shedCounts \<Rightarrow> channelListener \<Rightarrow> channelListener" where
  "shedLocked now c l =
     (let l' = l\<lparr>cl_shed := \<lparr>sc_inSource = sc_inSource (cl_shed l) + sc_inSource c, sc_local = sc_local (cl_shed l) + sc_local c,
                   sc_evicted = sc_evicted (cl_shed l) + sc_evicted c\<rparr>\<rparr>
      in if cl_shedFlush l = None then l'\<lparr>cl_shedFlush := Some (max now (cl_shedLogged l + cl_shedEvery l))\<rparr> else l')"

definition warnShed :: "int \<Rightarrow> channelListener \<Rightarrow> shedCounts option \<times> channelListener" where
  "warnShed now l =
     (if cl_shed l = no_shed then None else Some (cl_shed l),
      l\<lparr>cl_shed := no_shed, cl_shedLogged := now, cl_shedFlush := None\<rparr>)"

section \<open>Admission\<close>

text \<open>The two loops of \<open>admit\<close>: within the source, then within the entry.\<close>

lemma forgetLocked_shorter: "p \<in> set (cl_pending l) \<Longrightarrow> length (cl_pending (forgetLocked p l)) < length (cl_pending l)"
  by (auto simp: forgetLocked_def Let_def length_remove1) (metis length_pos_if_in_set Suc_pred lessI)

function room_in_source :: "string \<Rightarrow> bool \<Rightarrow> int \<Rightarrow> channelListener \<Rightarrow> nat list \<Rightarrow> shedCounts \<Rightarrow> channelListener \<times> nat list \<times> shedCounts" where
  "room_in_source source local share l gone shed =
     (if source_count l source > 0 \<and> source_count l source \<ge> share then
        (case oldestFromLocked source l of
           None \<Rightarrow> (l, gone, shed)
         | Some oldest \<Rightarrow>
             room_in_source source local share (forgetLocked oldest l) (gone @ [pc_conn oldest])
               (if local then shed\<lparr>sc_local := sc_local shed + 1\<rparr> else shed\<lparr>sc_inSource := sc_inSource shed + 1\<rparr>))
      else (l, gone, shed))"
  by pat_completeness auto
termination
  by (relation "measure (\<lambda>(source, local, share, l, gone, shed). length (cl_pending l))")
    (auto simp: oldestFromLocked_def find_Some_iff intro!: forgetLocked_shorter)

declare room_in_source.simps [simp del]

function room_in_entry :: "channelListener \<Rightarrow> nat list \<Rightarrow> shedCounts \<Rightarrow> channelListener \<times> nat list \<times> shedCounts" where
  "room_in_entry l gone shed =
     (if cl_pending l \<noteq> [] \<and> int (length (cl_pending l)) \<ge> cl_maxPending l then
        (let oldest = hd (cl_pending l)
         in room_in_entry (forgetLocked oldest l) (gone @ [pc_conn oldest]) (shed\<lparr>sc_evicted := sc_evicted shed + 1\<rparr>))
      else (l, gone, shed))"
  by pat_completeness auto
termination
  by (relation "measure (\<lambda>(l, gone, shed). length (cl_pending l))") (auto intro!: forgetLocked_shorter)

declare room_in_entry.simps [simp del]

definition admit :: "nat \<Rightarrow> net_addr \<Rightarrow> net_addr \<Rightarrow> int \<Rightarrow> channelListener \<Rightarrow> pendingChannel \<times> nat list \<times> channelListener" where
  "admit conn remote local_addr accepted l =
     (let (source, local) = sourceOf remote local_addr;
          share = (if local then cl_maxLocal l else cl_maxPerSource l);
          (l1, gone1, shed1) = room_in_source source local share l [] no_shed;
          (l2, gone, shed) = room_in_entry l1 gone1 shed1;
          l3 = (if shed \<noteq> no_shed then shedLocked accepted shed l2 else l2);
          p = \<lparr>pc_conn = conn, pc_accepted = accepted, pc_source = source, pc_local = local,
               pc_firstByteBy = (if local then None else Some (accepted + min (cl_firstByte l) (cl_budget l)))\<rparr>
      in (p, gone, l3\<lparr>cl_bySource := (cl_bySource l3)(source := Some (source_count l3 source + 1)), cl_pending := cl_pending l3 @ [p]\<rparr>))"

text \<open>The pause after a failed \<open>Accept\<close>.\<close>

definition next_pause :: "int \<Rightarrow> int" where
  "next_pause pause = min (max (2 * pause) 5) 1000"

section \<open>A handshake\<close>

text \<open>A connection from elsewhere: the first byte moves its read deadline to the whole budget.\<close>

record firstByteConn =
  fb_budget :: int
  fb_started :: bool
  fb_readDeadline :: int

definition firstByte_Read :: "nat \<Rightarrow> firstByteConn \<Rightarrow> firstByteConn" where
  "firstByte_Read n c = (if n > 0 \<and> \<not> fb_started c then c\<lparr>fb_started := True, fb_readDeadline := fb_budget c\<rparr> else c)"

definition start_handshake :: "pendingChannel \<Rightarrow> channelListener \<Rightarrow> int \<times> firstByteConn option" where
  "start_handshake p l =
     (let budget = pc_accepted p + cl_budget l
      in (budget, map_option (\<lambda>by_then. \<lparr>fb_budget = budget, fb_started = False, fb_readDeadline = by_then\<rparr>) (pc_firstByteBy p)))"

text \<open>\<open>tls_ok\<close>: whether the TLS handshake succeeds; \<open>cleared\<close>: whether the deadline can be taken off.\<close>

definition verify :: "bool \<Rightarrow> ctx \<Rightarrow> http_parsers \<Rightarrow> box \<Rightarrow> string \<Rightarrow> string \<Rightarrow> nat \<Rightarrow> bool \<Rightarrow> conn \<Rightarrow> conn_err + (rest_conn \<times> string)" where
  "verify tls_ok cx hp bx serverKey rnd ahead cleared c =
     (if \<not> tls_ok then Inl tlsStageError
      else case Respond cx hp bx serverKey rnd ahead c of
             (Inl e, _) \<Rightarrow> Inl e
           | (Inr (peer, proved), _) \<Rightarrow> if cleared then Inr (proved, peer) else Inl ErrWriting)"

record channelPeer =
  cp_key :: string

definition deviceKey :: "channelPeer \<Rightarrow> string" where
  "deviceKey p = EncodeToString Std (cp_key p)"

text \<open>What becomes of a connection whose handshake is over.\<close>

datatype handshake_end = CutMeanwhile | Refused conn_err | ReadyFor channelPeer

definition handshake :: "pendingChannel \<Rightarrow> conn_err + (rest_conn \<times> string) \<Rightarrow> channelListener \<Rightarrow> handshake_end \<times> channelListener" where
  "handshake p verified l =
     (let (there, l') = leave p l
      in (if \<not> there then CutMeanwhile
          else case verified of Inl e \<Rightarrow> Refused e | Inr (_, peer) \<Rightarrow> ReadyFor \<lparr>cp_key = peer\<rparr>, l'))"

datatype log_level = Debug | Info | Warning

text \<open>The line \<open>refused\<close> logs: its level, its text, and the reason or stage it names.\<close>

definition refused :: "conn_err \<Rightarrow> log_level \<times> string \<times> string" where
  "refused e =
     (let notAStep = (if afterAuth e then Info else Debug)
      in if Is e ErrMalformed then (Info, ''channel check refused'', ''malformed request'')
         else if Is e ErrOrder then (Info, ''channel check refused'', ''steps out of order'')
         else if Is e ErrMethod then (notAStep, ''channel check refused'', ''method not allowed'')
         else if Is e ErrUnauthenticated then (notAStep, ''channel check refused'', ''request before the check'')
         else if Is e ErrSignature then (Info, ''channel check refused'', ''signature does not verify'')
         else if Is e ErrBox \<or> Is e ErrRandom \<or> Is e ErrInvalidArgument then (Warning, ''channel check failed'', ''RustSecureBox'')
         else if e = tlsStageError then (Debug, ''channel not established'', ''tls'')
         else (Debug, ''channel not established'', ''check''))"

text \<open>\<open>Accept\<close> of a connection that is ready; after \<open>Close\<close> it is closed rather than handed out.\<close>

definition Accept :: "channelListener \<Rightarrow> 'c option \<Rightarrow> 'c option" where
  "Accept l ready = (if cl_closed l then None else ready)"

definition Close :: "int \<Rightarrow> channelListener \<Rightarrow> shedCounts option \<times> channelListener" where
  "Close now l =
     (let l' = l\<lparr>cl_closed := True\<rparr>
      in if cl_shedFlush l' \<noteq> None then warnShed now l' else (None, l'))"

end
