(* ===== verification/Connauth_Properties.thy ===== *)
theory Connauth_Properties
  imports Connauth
begin

text \<open>
  What the check promises: the two halves, each talking to the other, both succeed and lose nothing
  of what follows; a key comes out only when its signature over this very connection's challenge
  held; every refusal is answered once, with the status of its kind.
\<close>

section \<open>What the library code does\<close>

text \<open>HTTP messages of this exchange are read back as they were written.\<close>

definition reads_back :: "http_parsers \<Rightarrow> string \<Rightarrow> bool" where
  "reads_back hp host \<longleftrightarrow>
     (\<forall>path body rest. path = AuthPath \<or> path = Auth2Path \<longrightarrow>
        hp_request hp (post_text host path body @ rest)
          = Parsed \<lparr>rq_Path = path, rq_Method = ''POST'', rq_TransferEncoding = False, rq_ContentLength = int (length body)\<rparr>
              (length (post_text host path body) - length body))
   \<and> (\<forall>body rest. hp_response hp (answer_text 200 body False @ rest)
          = Parsed \<lparr>rs_StatusCode = 200, rs_Body = (case body of None \<Rightarrow> '''' | Some b \<Rightarrow> b), rs_Complete = True\<rparr> (length (answer_text 200 body False)))
   \<and> distinct (map (foldCase (hp_fold hp)) [''pk'', ''challenge'', ''signature''])"

text \<open>A box that works: its vals have the sizes of the interface, and its signatures hold.\<close>

definition signs :: "box \<Rightarrow> (string \<Rightarrow> string) \<Rightarrow> bool" where
  "signs bx pub \<longleftrightarrow>
     (\<forall>k rnd. \<exists>c. bx_GetChallenge bx k rnd = Inr (c, pub k) \<and> length c = ChallengeSize \<and> length (pub k) = PublicKeySize)
   \<and> (\<forall>k c. \<exists>s. bx_SignChallenge bx k c = Inr s \<and> length s = SignatureSize \<and> bx_CheckSignature bx (pub k) c s = Inr True)"

section \<open>Values\<close>

lemma Encode_letters: "\<forall>x \<in> set xs. x < 256 \<Longrightarrow> set (enc URL xs) \<subseteq> letter URL ` {..<64}"
proof (induction URL xs rule: enc.induct)
  case (4 x y z r)
  have "x div 4 < 64" "x mod 4 * 16 + y div 16 < 64" "y mod 16 * 4 + z div 64 < 64" "z mod 64 < 64" using 4(2) by auto
  then show ?case using 4 by (auto intro!: imageI)
next
  case (2 x)
  have "x div 4 < 64" "x mod 4 * 16 < 64" using 2 by auto
  then show ?case by (auto simp: pad_def intro!: imageI)
next
  case (3 x y)
  have "x div 4 < 64" "x mod 4 * 16 + y div 16 < 64" "y mod 16 * 4 < 64" using 3 by auto
  then show ?case by (auto simp: pad_def intro!: imageI)
qed simp


lemma bytes_lt: "\<forall>x \<in> set (map byte s). x < 256"
  by (auto simp: byte_def)

lemma Encode_unbroken:
  "filter (\<lambda>c. c \<noteq> CHR 0x0D \<and> c \<noteq> CHR 0x0A) (EncodeToString URL s) = EncodeToString URL s"
proof -
  have "\<exists>n < 64. c = letter URL n" if "c \<in> set (EncodeToString URL s)" for c
    using Encode_letters [OF bytes_lt [of s]] that by (auto simp: EncodeToString_def)
  then have "c \<noteq> CHR 0x0D \<and> c \<noteq> CHR 0x0A" if "c \<in> set (EncodeToString URL s)" for c
    using that letter_plain by metis
  then show ?thesis by (simp add: filter_id_conv)
qed

lemma length_enc_URL: "length (enc URL xs) = (length xs * 4 + 2) div 3"
  by (induction URL xs rule: enc.induct) (simp_all add: pad_def)

lemma decode_value_Encode: "length v = n \<Longrightarrow> decode_value n (EncodeToString URL v) = Some v"
proof -
  assume n: "length v = n"
  have "DecodeString URL (EncodeToString URL v) = Some v"
    using dec_enc [OF bytes_lt, of URL v] Encode_unbroken [of v] by (simp add: DecodeString_def EncodeToString_def comp_def byte_def)
  moreover have "length (EncodeToString URL v) * 6 div 8 = n" using n by (simp add: EncodeToString_def length_enc_URL)
  ultimately show ?thesis using n Encode_unbroken [of v] by (simp add: decode_value_def)
qed

section \<open>One step of the exchange\<close>

definition post_head :: "string \<Rightarrow> string \<Rightarrow> nat \<Rightarrow> string" where
  "post_head host path n =
     ''POST '' @ path @ '' HTTP/1.1'' @ crlf @ ''Host: '' @ host @ crlf @ ''Content-Type: application/json'' @ crlf
     @ ''Content-Length: '' @ decimal n @ crlf @ crlf"

lemma post_text_head: "post_text host path body = post_head host path (length body) @ body"
  by (simp add: post_text_def post_head_def)

lemma reads_request:
  "reads_back hp host \<Longrightarrow> path = AuthPath \<or> path = Auth2Path \<Longrightarrow> hp_request hp (post_text host path body @ rest)
     = Parsed \<lparr>rq_Path = path, rq_Method = ''POST'', rq_TransferEncoding = False, rq_ContentLength = int (length body)\<rparr>
         (length (post_text host path body) - length body)"
  unfolding reads_back_def by blast

lemma readStep_post:
  assumes hp: "reads_back hp host" and path: "path = AuthPath \<or> path = Auth2Path" and body: "length body \<le> 1024"
    and c: "cn_in c = pre @ post_text host path body @ rest" "length pre = pos" "pos + length (post_text host path body) \<le> maxStage"
  shows "readStep hp path pos c = (Inr (body, pos + length (post_text host path body)), c)"
proof -
  have t: "drop pos (take maxStage (cn_in c)) = post_text host path body @ take (maxStage - pos - length (post_text host path body)) rest"
    using c by simp
  have "hp_request hp (drop pos (take maxStage (cn_in c)))
      = Parsed \<lparr>rq_Path = path, rq_Method = ''POST'', rq_TransferEncoding = False, rq_ContentLength = int (length body)\<rparr>
          (length (post_head host path (length body)))"
    unfolding t reads_request [OF hp path] by (simp add: post_text_head)
  then show ?thesis using path body unfolding readStep_def Let_def t
    by (auto simp: post_text_head maxBody_def)
qed

lemma conn_Write_ok: "cn_writes c = [] \<Longrightarrow> conn_Write bs c = (True, c\<lparr>cn_out := cn_out c @ [bs]\<rparr>)"
  by (simp add: conn_Write_def)

lemma post_answer:
  assumes hp: "reads_back hp host" and b: "length (case b of None \<Rightarrow> '''' | Some x \<Rightarrow> x) \<le> 1024"
    and c: "cn_in c = pre @ answer_text 200 b False @ rest" "length pre = pos" "cn_writes c = []"
  shows "post hp host path body pos c
    = (Inr (case b of None \<Rightarrow> '''' | Some x \<Rightarrow> x, pos + length (answer_text 200 b False)), c\<lparr>cn_out := cn_out c @ [post_text host path body]\<rparr>)"
proof -
  have "drop pos (cn_in c) = answer_text 200 b False @ rest" using c by simp
  moreover have "hp_response hp (answer_text 200 b False @ rest)
      = Parsed \<lparr>rs_StatusCode = 200, rs_Body = (case b of None \<Rightarrow> '''' | Some x \<Rightarrow> x), rs_Complete = True\<rparr> (length (answer_text 200 b False))"
    using hp by (simp add: reads_back_def)
  ultimately show ?thesis using b c(3) by (simp add: post_def conn_Write_ok maxBody_def)
qed

lemma field_vals_names:
  assumes "reads_back hp host"
  shows "str_member hp ''pk'' [(''pk'', JStr p), (''challenge'', JStr c)] = Some p"
    "str_member hp ''challenge'' [(''pk'', JStr p), (''challenge'', JStr c)] = Some c"
    "str_member hp ''pk'' [(''pk'', JStr p), (''challenge'', JStr c), (''signature'', JStr s)] = Some p"
    "str_member hp ''challenge'' [(''pk'', JStr p), (''challenge'', JStr c), (''signature'', JStr s)] = Some c"
    "str_member hp ''signature'' [(''pk'', JStr p), (''challenge'', JStr c), (''signature'', JStr s)] = Some s"
    "str_member hp ''signature'' [(''signature'', JStr s)] = Some s"
  using assms by (auto simp: reads_back_def str_member_def field_vals_def)

lemma unmarshal_back:
  assumes "reads_back hp host"
  shows "unmarshal_request hp (marshal_request \<lparr>aq_PK = EncodeToString URL p, aq_Challenge = EncodeToString URL c\<rparr>)
      = Some \<lparr>aq_PK = EncodeToString URL p, aq_Challenge = EncodeToString URL c\<rparr>"
    "unmarshal_answer hp (marshal_answer \<lparr>aa_PK = EncodeToString URL p, aa_Challenge = EncodeToString URL c, aa_Signature = EncodeToString URL s\<rparr>)
      = Some \<lparr>aa_PK = EncodeToString URL p, aa_Challenge = EncodeToString URL c, aa_Signature = EncodeToString URL s\<rparr>"
    "unmarshal_auth2 hp (marshal_auth2 (EncodeToString URL s)) = Some (EncodeToString URL s)"
proof -
  let ?p = "EncodeToString URL p" and ?c = "EncodeToString URL c" and ?s = "EncodeToString URL s"
  have names: "plain_text ''pk''" "plain_text ''challenge''" "plain_text ''signature''" by (simp_all add: plain_text_def byte_def)
  have "parse_json (marshal_request \<lparr>aq_PK = ?p, aq_Challenge = ?c\<rparr>) = Some (JObj [(''pk'', JStr ?p), (''challenge'', JStr ?c)])"
      "parse_json (marshal_answer \<lparr>aa_PK = ?p, aa_Challenge = ?c, aa_Signature = ?s\<rparr>)
          = Some (JObj [(''pk'', JStr ?p), (''challenge'', JStr ?c), (''signature'', JStr ?s)])"
      "parse_json (marshal_auth2 ?s) = Some (JObj [(''signature'', JStr ?s)])"
    by (simp_all add: parse_json_def marshal_request_def marshal_answer_def marshal_auth2_def member_def names next_token_def maxNestingDepth_def)
  then show "unmarshal_request hp (marshal_request \<lparr>aq_PK = ?p, aq_Challenge = ?c\<rparr>) = Some \<lparr>aq_PK = ?p, aq_Challenge = ?c\<rparr>"
    "unmarshal_answer hp (marshal_answer \<lparr>aa_PK = ?p, aa_Challenge = ?c, aa_Signature = ?s\<rparr>)
      = Some \<lparr>aa_PK = ?p, aa_Challenge = ?c, aa_Signature = ?s\<rparr>"
    "unmarshal_auth2 hp (marshal_auth2 ?s) = Some ?s"
    by (simp_all add: unmarshal_request_def unmarshal_answer_def unmarshal_auth2_def body_members_def members_def field_vals_names [OF assms])
qed

lemma message_lengths:
  assumes "length p = 32" "length c = 32" "length s = 64"
  shows "length (marshal_request \<lparr>aq_PK = EncodeToString URL p, aq_Challenge = EncodeToString URL c\<rparr>) = 110"
    "length (marshal_answer \<lparr>aa_PK = EncodeToString URL p, aa_Challenge = EncodeToString URL c, aa_Signature = EncodeToString URL s\<rparr>) = 211"
    "length (marshal_auth2 (EncodeToString URL s)) = 102"
  using assms
  by (simp_all add: marshal_request_def marshal_answer_def marshal_auth2_def member_def quoted_def EncodeToString_def length_enc_URL)

fun rest_bytes :: "rest_conn \<Rightarrow> string" where
  "rest_bytes (Plain c) = cn_in c"
| "rest_bytes (prefixConn p c) = p @ cn_in c"

lemma withRest_bytes: "rest_bytes (withRest pos ahead c) = drop pos (cn_in c)"
proof -
  have "take ahead (drop pos (cn_in c)) @ drop (pos + ahead) (cn_in c) = drop pos (cn_in c)"
    by (metis add.commute append_take_drop_id drop_drop)
  then show ?thesis by (auto simp: withRest_def Let_def)
qed

lemma rest_Read_bytes: "rest_Read n k r = (bs, r') \<Longrightarrow> rest_bytes r = bs @ rest_bytes r'"
  by (cases r) (auto split: if_splits)

section \<open>The two halves\<close>

lemma halves_run:
  assumes "reads_back hp host" and "length host \<le> 1000" and "signs bx pub"
  shows "\<exists>t1 t2 a1 a2 rest c rest' c'.
       respond hp bx serverKey rnd ahead \<lparr>cn_in = t1 @ t2 @ x, cn_out = [], cn_writes = []\<rparr> = (Inr (pub deviceKey, rest), c)
     \<and> cn_out c = [a1, a2] \<and> rest_bytes rest = x
     \<and> initiate hp bx deviceKey rnd' host (pub serverKey) ahead' \<lparr>cn_in = a1 @ a2 @ y, cn_out = [], cn_writes = []\<rparr> = (Inr rest', c')
     \<and> cn_out c' = [t1, t2] \<and> rest_bytes rest' = y"
proof -
  obtain sc where sc: "bx_GetChallenge bx serverKey rnd = Inr (sc, pub serverKey)" "length sc = 32" "length (pub serverKey) = 32"
    using assms(3) unfolding signs_def ChallengeSize_def PublicKeySize_def by blast
  obtain dc where dc: "bx_GetChallenge bx deviceKey rnd' = Inr (dc, pub deviceKey)" "length dc = 32" "length (pub deviceKey) = 32"
    using assms(3) unfolding signs_def ChallengeSize_def PublicKeySize_def by blast
  obtain ss where ss: "bx_SignChallenge bx serverKey dc = Inr ss" "length ss = 64" "bx_CheckSignature bx (pub serverKey) dc ss = Inr True"
    using assms(3) unfolding signs_def SignatureSize_def by blast
  obtain ds where ds: "bx_SignChallenge bx deviceKey sc = Inr ds" "length ds = 64" "bx_CheckSignature bx (pub deviceKey) sc ds = Inr True"
    using assms(3) unfolding signs_def SignatureSize_def by blast
  define b1 where "b1 = marshal_request \<lparr>aq_PK = EncodeToString URL (pub deviceKey), aq_Challenge = EncodeToString URL dc\<rparr>"
  define b2 where "b2 = marshal_auth2 (EncodeToString URL ds)"
  define m where "m = marshal_answer \<lparr>aa_PK = EncodeToString URL (pub serverKey), aa_Challenge = EncodeToString URL sc, aa_Signature = EncodeToString URL ss\<rparr>"
  define t1 where "t1 = post_text host AuthPath b1"
  define t2 where "t2 = post_text host Auth2Path b2"
  define a1 where "a1 = answer_text 200 (Some m) False"
  define a2 where "a2 = answer_text 200 None False"
  have len: "length b1 = 110" "length b2 = 102" "length m = 211"
    using message_lengths [OF dc(3,2) ds(2)] message_lengths [OF sc(3,2) ss(2)] by (simp_all add: b1_def b2_def m_def)
  have fits: "length t1 + length t2 \<le> maxStage"
    using assms(2) len by (simp add: t1_def t2_def post_text_def crlf_def AuthPath_def Auth2Path_def maxStage_def decimal.simps)
  define c where "c = \<lparr>cn_in = t1 @ t2 @ x, cn_out = [], cn_writes = []\<rparr>"
  have r1: "readStep hp AuthPath 0 c = (Inr (b1, length t1), c)"
    using readStep_post [OF assms(1), of AuthPath b1 c "[]" "t2 @ x" 0] len fits by (simp add: c_def t1_def)
  have r2: "readStep hp Auth2Path (length t1) (c\<lparr>cn_out := [a1]\<rparr>) = (Inr (b2, length t1 + length t2), c\<lparr>cn_out := [a1]\<rparr>)"
    using readStep_post [OF assms(1), of Auth2Path b2 "c\<lparr>cn_out := [a1]\<rparr>" t1 x "length t1"] len fits by (simp add: c_def t2_def)
  have w1: "writeAnswer 200 (Some m) False c = (True, c\<lparr>cn_out := [a1]\<rparr>)"
    and w2: "writeAnswer 200 None False (c\<lparr>cn_out := [a1]\<rparr>) = (True, c\<lparr>cn_out := [a1, a2]\<rparr>)"
    by (simp_all add: writeAnswer_def conn_Write_def c_def a1_def a2_def)
  have u: "unmarshal_request hp b1 = Some \<lparr>aq_PK = EncodeToString URL (pub deviceKey), aq_Challenge = EncodeToString URL dc\<rparr>"
    "unmarshal_auth2 hp b2 = Some (EncodeToString URL ds)"
    "unmarshal_answer hp m = Some \<lparr>aa_PK = EncodeToString URL (pub serverKey), aa_Challenge = EncodeToString URL sc, aa_Signature = EncodeToString URL ss\<rparr>"
    by (simp_all add: b1_def b2_def m_def unmarshal_back [OF assms(1)])
  note sizes = decode_value_Encode PublicKeySize_def ChallengeSize_def SignatureSize_def checkSignature_def
  have two: "respondAuth2 hp bx (pub deviceKey) sc (length t1) (c\<lparr>cn_out := [a1]\<rparr>) = (Inr (length t1 + length t2), c\<lparr>cn_out := [a1, a2]\<rparr>)"
    using r2 ds w2 by (simp add: respondAuth2_def u sizes)
  have one: "respond hp bx serverKey rnd ahead c
      = (Inr (pub deviceKey, withRest (length t1 + length t2) (min ahead (maxStage - (length t1 + length t2))) (c\<lparr>cn_out := [a1, a2]\<rparr>)), c\<lparr>cn_out := [a1, a2]\<rparr>)"
    using r1 sc dc ss two w1 by (simp add: respond_def u sizes m_def [symmetric])
  define d where "d = \<lparr>cn_in = a1 @ a2 @ y, cn_out = [], cn_writes = []\<rparr>"
  have p1: "post hp host AuthPath b1 0 d = (Inr (m, length a1), d\<lparr>cn_out := [t1]\<rparr>)"
    using post_answer [OF assms(1), of "Some m" d "[]" "a2 @ y" 0 AuthPath b1] len by (simp add: d_def a1_def t1_def)
  have p2: "post hp host Auth2Path b2 (length a1) (d\<lparr>cn_out := [t1]\<rparr>) = (Inr ('''', length a1 + length a2), d\<lparr>cn_out := [t1, t2]\<rparr>)"
    using post_answer [OF assms(1), of None "d\<lparr>cn_out := [t1]\<rparr>" a1 y "length a1" Auth2Path b2] by (simp add: d_def a2_def t2_def)
  have three: "initiate hp bx deviceKey rnd' host (pub serverKey) ahead' d
      = (Inr (withRest (length a1 + length a2) ahead' (d\<lparr>cn_out := [t1, t2]\<rparr>)), d\<lparr>cn_out := [t1, t2]\<rparr>)"
    using p1 p2 sc dc ss ds by (simp add: initiate_def b1_def [symmetric] b2_def [symmetric] u sizes)
  show ?thesis using one three
    by (intro exI [of _ t1] exI [of _ t2] exI [of _ a1] exI [of _ a2]) (auto simp: c_def d_def withRest_bytes)
qed

section \<open>What a connection proves, and what a refusal says\<close>

text \<open>The parser takes no more than it is given; the box fails only with its own errors.\<close>

definition keeps_to_text :: "http_parsers \<Rightarrow> bool" where
  "keeps_to_text hp \<longleftrightarrow> (\<forall>t r n. hp_request hp t = Parsed r n \<longrightarrow> n \<le> length t)"

definition box_errors :: "box \<Rightarrow> bool" where
  "box_errors bx \<longleftrightarrow>
     (\<forall>k r e. bx_GetChallenge bx k r = Inl e \<longrightarrow> e \<in> {ErrInvalidArgument, ErrRandom, ErrBox})
   \<and> (\<forall>k c e. bx_SignChallenge bx k c = Inl e \<longrightarrow> e \<in> {ErrInvalidArgument, ErrRandom, ErrBox})
   \<and> (\<forall>p c s e. bx_CheckSignature bx p c s = Inl e \<longrightarrow> e \<in> {ErrInvalidArgument, ErrRandom, ErrBox})"

text \<open>The status a kind of refusal is answered with; anything else is answered with nothing.\<close>

fun refusal :: "conn_err \<Rightarrow> int option" where
  "refusal ErrMalformed = Some 400"
| "refusal ErrOrder = Some 400"
| "refusal ErrMethod = Some 405"
| "refusal ErrUnauthenticated = Some 401"
| "refusal ErrSignature = Some 401"
| "refusal (ErrAfterAuth e) = refusal e"
| "refusal e = None"

definition refused_with :: "conn_err \<Rightarrow> conn \<Rightarrow> conn \<Rightarrow> bool" where
  "refused_with e c c' \<longleftrightarrow> cn_writes c = [] \<and> e \<noteq> ErrWriting \<longrightarrow>
     cn_writes c' = [] \<and> cn_out c' = cn_out c @ (case refusal e of None \<Rightarrow> [] | Some status \<Rightarrow> [answer_text status None True])"

lemma refuse_refused: "refuse status e c = (r, c') \<Longrightarrow> refusal e = Some status \<Longrightarrow> r = Inl e \<and> cn_in c' = cn_in c \<and> refused_with e c c'"
  by (auto simp: refuse_def refused_with_def writeAnswer_def conn_Write_def split: list.splits option.splits)

lemma readStep_end:
  assumes "readStep hp want pos c = (r, c')" and hp: "keeps_to_text hp" and pos: "pos \<le> length (take maxStage (cn_in c))"
  shows "case r of Inr (body, pos') \<Rightarrow> (c' = c \<and> pos' \<le> length (take maxStage (cn_in c)))
    | Inl e \<Rightarrow> (cn_in c' = cn_in c \<and> refused_with e c c' \<and> \<not> afterAuth e)"
proof -
  define t where "t = drop pos (take maxStage (cn_in c))"
  have t: "length (take maxStage (cn_in c)) = pos + length t" using pos by (simp add: t_def)
  have refused: ?thesis if "refuse status e c = (r, c')" "refusal e = Some status" "\<not> afterAuth e" for status e
    using refuse_refused [OF that(1,2)] that(3) by simp
  show ?thesis
  proof (cases "hp_request hp t")
    case (Parsed req n)
    define body where "body = take (nat (rq_ContentLength req)) (drop n t)"
    have "n \<le> length t" using hp Parsed unfolding keeps_to_text_def by blast
    then have body: "pos + n + length body \<le> pos + length t" by (simp add: body_def)
    have "refuse 401 ErrUnauthenticated c = (r, c') \<or> refuse 405 ErrMethod c = (r, c') \<or> refuse 400 ErrOrder c = (r, c')
        \<or> refuse 400 ErrMalformed c = (r, c') \<or> (r, c') = (Inr (body, pos + n + length body), c)"
      using assms(1) Parsed unfolding readStep_def Let_def t_def [symmetric]
      by (simp only: http_read.case body_def [symmetric]) (simp split: if_splits)
    then show ?thesis
      using refused [of 401 ErrUnauthenticated] refused [of 405 ErrMethod] refused [of 400 ErrOrder] refused [of 400 ErrMalformed] body t
      by (elim disjE) simp_all
  next
    case ReadEnds
    then show ?thesis using assms(1) by (auto simp: readStep_def t_def refused_with_def)
  next
    case ReadBad
    then show ?thesis using assms(1) refused [of 400 ErrMalformed] by (simp add: readStep_def t_def)
  qed
qed

lemma checkSignature_cases:
  assumes "checkSignature bx key challenge sig = r" "box_errors bx"
  shows "case r of Inr valid \<Rightarrow> (valid \<longrightarrow> bx_CheckSignature bx key challenge sig = Inr True) | Inl e \<Rightarrow> (refusal e = None \<and> e \<noteq> ErrWriting)"
proof (cases "bx_CheckSignature bx key challenge sig")
  case (Inl e)
  then have "e \<in> {ErrInvalidArgument, ErrRandom, ErrBox}" using assms(2) unfolding box_errors_def by blast
  then show ?thesis using assms(1) Inl by (auto simp: checkSignature_def)
next
  case (Inr v)
  then have "r = Inr v" using assms(1) by (simp add: checkSignature_def)
  then show ?thesis using Inr by simp
qed

lemma writeAnswer_end:
  "writeAnswer status body cl c = (ok, c') \<Longrightarrow> cn_in c' = cn_in c \<and> (ok \<longrightarrow> cn_out c' = cn_out c @ [answer_text status body cl])
     \<and> (cn_writes c = [] \<longrightarrow> ok \<and> cn_writes c' = [])"
  by (auto simp: writeAnswer_def conn_Write_def split: list.splits option.splits)

lemma respondAuth2_end:
  assumes r: "respondAuth2 hp bx device ours pos c = (r, c')" and hp: "keeps_to_text hp" and bx: "box_errors bx"
    and pos: "pos \<le> length (take maxStage (cn_in c))"
  shows "case r of
      Inr pos' \<Rightarrow> pos' \<le> length (take maxStage (cn_in c)) \<and> cn_in c' = cn_in c \<and> cn_out c' = cn_out c @ [answer_text 200 None False]
        \<and> (\<exists>sig. bx_CheckSignature bx device ours sig = Inr True)
    | Inl e \<Rightarrow> refused_with e c c'"
proof -
  obtain x c1 where x: "readStep hp Auth2Path pos c = (x, c1)" by fastforce
  show ?thesis
  proof (cases x)
    case (Inl e)
    then show ?thesis using r x readStep_end [OF x hp pos] by (auto simp: respondAuth2_def)
  next
    case (Inr p)
    obtain body pos1 where p: "x = Inr (body, pos1)" using Inr by (cases p) auto
    have c1: "c1 = c" "pos1 \<le> length (take maxStage (cn_in c))" using readStep_end [OF x hp pos] p by auto
    show ?thesis
    proof (cases "Option.bind (unmarshal_auth2 hp body) (decode_value SignatureSize)")
      case None
      then show ?thesis using r x p c1 by (auto simp: respondAuth2_def dest!: refuse_refused)
    next
      case (Some sig)
      note check = checkSignature_cases [OF refl bx, of device ours sig]
      show ?thesis
      proof (cases "checkSignature bx device ours sig")
        case (Inl e)
        then show ?thesis using r x p c1 Some check by (auto simp: respondAuth2_def refused_with_def)
      next
        case (Inr valid)
        then show ?thesis using r x p c1 Some check
          by (cases valid) (auto simp: respondAuth2_def refused_with_def Let_def split: prod.splits if_splits dest!: refuse_refused writeAnswer_end)
      qed
    qed
  qed
qed

lemma respond_cases:
  assumes "respond hp bx serverKey rnd ahead c = (r, c')" and "readStep hp AuthPath 0 c = (Inr (body, pos), c)" and "box_errors bx"
  obtains (bad) "refuse 400 ErrMalformed c = (r, c')"
  | (box) e where "r = Inl e" "c' = c" "e \<in> {ErrInvalidArgument, ErrRandom, ErrBox}"
  | (ok) device theirs ours serverPublic answer where "length device = PublicKeySize"
      "bx_GetChallenge bx serverKey rnd = Inr (ours, serverPublic)" "bx_SignChallenge bx serverKey theirs = Inr answer"
      "(let (ok, c2) = writeAnswer 200 (Some (marshal_answer \<lparr>aa_PK = EncodeToString URL serverPublic, aa_Challenge = EncodeToString URL ours,
              aa_Signature = EncodeToString URL answer\<rparr>)) False c
        in if \<not> ok then (Inl ErrWriting, c2)
           else (case respondAuth2 hp bx device ours pos c2 of
                   (Inl e, c3) \<Rightarrow> (Inl (ErrAfterAuth e), c3)
                 | (Inr pos1, c3) \<Rightarrow> (Inr (device, withRest pos1 (min ahead (maxStage - pos1)) c3), c3))) = (r, c')"
proof (cases "unmarshal_request hp body")
  case None
  then show thesis using assms(1,2) bad by (simp add: respond_def)
next
  case (Some req)
  have own: "bx_GetChallenge bx serverKey rnd = Inl e \<Longrightarrow> e \<in> {ErrInvalidArgument, ErrRandom, ErrBox}"
    "\<And>t. bx_SignChallenge bx serverKey t = Inl e \<Longrightarrow> e \<in> {ErrInvalidArgument, ErrRandom, ErrBox}" for e
    using assms(3) unfolding box_errors_def by blast+
  show thesis
  proof (cases "decode_value PublicKeySize (aq_PK req) = None \<or> decode_value ChallengeSize (aq_Challenge req) = None")
    case True
    then show thesis using assms(1,2) Some bad by (auto simp: respond_def split: option.splits)
  next
    case False
    then obtain device theirs where d: "decode_value PublicKeySize (aq_PK req) = Some device" "decode_value ChallengeSize (aq_Challenge req) = Some theirs"
      by auto
    have len: "length device = PublicKeySize" using d(1) by (auto simp: decode_value_def split: option.splits if_splits)
    show thesis
    proof (cases "bx_GetChallenge bx serverKey rnd")
      case (Inl e)
      show thesis by (rule box [of e]) (use assms(1,2) Some d Inl own(1) in \<open>auto simp: respond_def\<close>)
    next
      case (Inr g)
      then obtain ours serverPublic where g: "bx_GetChallenge bx serverKey rnd = Inr (ours, serverPublic)" by (cases g) auto
      show thesis
      proof (cases "bx_SignChallenge bx serverKey theirs")
        case (Inl e)
        show thesis by (rule box [of e]) (use assms(1,2) Some d g Inl own(2) [OF Inl] in \<open>auto simp: respond_def\<close>)
      next
        case (Inr answer)
        show thesis by (rule ok [OF len g Inr]) (use assms(1,2) Some d g Inr in \<open>simp add: respond_def Let_def\<close>)
      qed
    qed
  qed
qed

lemma respond_end:
  assumes "respond hp bx serverKey rnd ahead c = (r, c')" and "keeps_to_text hp" and "box_errors bx"
  shows "case r of
      Inr (device, rest) \<Rightarrow>
        (\<exists>ours serverPublic theirs sig answer used.
           bx_GetChallenge bx serverKey rnd = Inr (ours, serverPublic) \<and> bx_CheckSignature bx device ours sig = Inr True
         \<and> bx_SignChallenge bx serverKey theirs = Inr answer \<and> length device = PublicKeySize
         \<and> cn_out c' = cn_out c @ [answer_text 200 (Some (marshal_answer \<lparr>aa_PK = EncodeToString URL serverPublic,
               aa_Challenge = EncodeToString URL ours, aa_Signature = EncodeToString URL answer\<rparr>)) False, answer_text 200 None False]
         \<and> cn_in c = used @ rest_bytes rest \<and> length used \<le> maxStage)
    | Inl e \<Rightarrow>
        (cn_writes c = [] \<and> \<not> Is e ErrWriting \<longrightarrow>
           (\<exists>first. cn_out c' = cn_out c @ first @ (case refusal e of None \<Rightarrow> [] | Some status \<Rightarrow> [answer_text status None True])
              \<and> length first = (if afterAuth e then 1 else 0)))"
proof -
  obtain x c1 where x: "readStep hp AuthPath 0 c = (x, c1)" by fastforce
  note step = readStep_end [OF x assms(2)]
  have fail1: "cn_writes c = [] \<and> \<not> Is e ErrWriting \<longrightarrow>
      (\<exists>first. cn_out c' = cn_out c @ first @ (case refusal e of None \<Rightarrow> [] | Some status \<Rightarrow> [answer_text status None True]) \<and> length first = (if afterAuth e then 1 else 0))"
    if "refused_with e c c'" "\<not> afterAuth e" for e
    using that by (cases "e = ErrWriting") (auto simp: refused_with_def)
  show ?thesis
  proof (cases x)
    case (Inl e)
    then have "r = Inl e" "c' = c1" using assms(1) x by (auto simp: respond_def)
    then show ?thesis using fail1 step Inl by auto
  next
    case (Inr p)
    obtain body pos where p: "x = Inr (body, pos)" using Inr by (cases p) auto
    have c1: "c1 = c" "pos \<le> length (take maxStage (cn_in c))" using step p by auto
    have read: "readStep hp AuthPath 0 c = (Inr (body, pos), c)" using x p c1(1) by simp
    from assms(1) read assms(3) show ?thesis
    proof (cases rule: respond_cases)
      case bad
      then show ?thesis using fail1 by (auto dest!: refuse_refused)
    next
      case (box e)
      then show ?thesis by (auto simp: refused_with_def)
    next
      case (ok device theirs ours serverPublic answer)
      obtain w c2 where w: "writeAnswer 200 (Some (marshal_answer \<lparr>aa_PK = EncodeToString URL serverPublic, aa_Challenge = EncodeToString URL ours,
          aa_Signature = EncodeToString URL answer\<rparr>)) False c = (w, c2)" by fastforce
      obtain y c3 where y: "respondAuth2 hp bx device ours pos c2 = (y, c3)" by fastforce
      note w2 = writeAnswer_end [OF w]
      have y2: "case y of
          Inr pos' \<Rightarrow> pos' \<le> length (take maxStage (cn_in c2)) \<and> cn_in c3 = cn_in c2 \<and> cn_out c3 = cn_out c2 @ [answer_text 200 None False]
            \<and> (\<exists>sig. bx_CheckSignature bx device ours sig = Inr True)
        | Inl e \<Rightarrow> refused_with e c2 c3"
        using respondAuth2_end [OF y assms(2,3)] c1(2) w2 by simp
      show ?thesis
      proof (cases "w \<and> (\<exists>pos1. y = Inr pos1)")
        case True
        then obtain pos1 sig where pos1: "w" "y = Inr pos1" and sig: "bx_CheckSignature bx device ours sig = Inr True" using y2 by auto
        have r: "r = Inr (device, withRest pos1 (min ahead (maxStage - pos1)) c3)" "c' = c3" using ok(4) w y pos1 by auto
        have used: "cn_in c = take pos1 (cn_in c) @ rest_bytes (withRest pos1 (min ahead (maxStage - pos1)) c3)" "length (take pos1 (cn_in c)) \<le> maxStage"
          using y2 pos1(2) w2 by (auto simp: withRest_bytes)
        show ?thesis unfolding r(1) sum.case prod.case
          by (intro exI conjI) (use ok(1-3) sig used r(2) y2 pos1 w2 in \<open>auto\<close>)
      next
        case False
        then show ?thesis using ok(4) w y w2 y2 by (cases w; cases y) (auto simp: refused_with_def)
      qed
    qed
  qed
qed

lemma respond_proved:
  assumes "respond hp bx serverKey rnd ahead c = (Inr (device, rest), c')" and "keeps_to_text hp" and "box_errors bx"
  shows "\<exists>ours serverPublic sig. bx_GetChallenge bx serverKey rnd = Inr (ours, serverPublic) \<and> bx_CheckSignature bx device ours sig = Inr True
    \<and> length device = PublicKeySize"
  using respond_end [OF assms] by auto

section \<open>A library that reads back\<close>

definition request_head :: "string \<Rightarrow> string" where
  "request_head path =
     ''POST '' @ path @ '' HTTP/1.1'' @ crlf @ ''Host: h'' @ crlf @ ''Content-Type: application/json'' @ crlf @ ''Content-Length: ''"

definition after_head :: "string \<Rightarrow> string \<Rightarrow> (nat \<times> nat) option" where
  "after_head head t =
     (if take (length head) t = head
      then let ds = takeWhile is_digit (drop (length head) t) in Some (digits_value ds, length head + length ds + 4)
      else None)"

definition sample_request :: "string \<Rightarrow> http_request http_read" where
  "sample_request t =
     (let parsed = (\<lambda>path n k. Parsed \<lparr>rq_Path = path, rq_Method = ''POST'', rq_TransferEncoding = False, rq_ContentLength = int n\<rparr> (min k (length t)))
      in case after_head (request_head AuthPath) t of
           Some (n, k) \<Rightarrow> parsed AuthPath n k
         | None \<Rightarrow> (case after_head (request_head Auth2Path) t of Some (n, k) \<Rightarrow> parsed Auth2Path n k | None \<Rightarrow> ReadBad))"

definition answer_head :: "bool \<Rightarrow> string" where
  "answer_head with_body =
     ''HTTP/1.1 200 OK'' @ crlf
     @ (if with_body then ''Content-Type: application/json'' @ crlf @ ''Cache-Control: no-store'' @ crlf else '''') @ ''Content-Length: ''"

definition sample_response :: "string \<Rightarrow> http_response http_read" where
  "sample_response t =
     (let parsed = (\<lambda>n k. Parsed \<lparr>rs_StatusCode = 200, rs_Body = take n (drop k t), rs_Complete = True\<rparr> (k + n))
      in case after_head (answer_head True) t of
           Some (n, k) \<Rightarrow> parsed n k
         | None \<Rightarrow> (case after_head (answer_head False) t of Some (n, k) \<Rightarrow> parsed n k | None \<Rightarrow> ReadBad))"


definition sample_parsers :: http_parsers where
  "sample_parsers = \<lparr>hp_request = sample_request, hp_response = sample_response, hp_fold = id\<rparr>"

definition sample_pub :: "string \<Rightarrow> string" where
  "sample_pub k = take 32 (k @ replicate 32 CHR ''p'')"

definition sample_box :: box where
  "sample_box =
     \<lparr>bx_GetChallenge = (\<lambda>k rnd. Inr (take 32 (rnd @ replicate 32 CHR ''c''), sample_pub k)),
      bx_SignChallenge = (\<lambda>k c. Inr (take 64 (sample_pub k @ c @ replicate 64 CHR ''s''))),
      bx_CheckSignature = (\<lambda>p c s. Inr (s = take 64 (p @ c @ replicate 64 CHR ''s'')))\<rparr>"


lemma length_crlf: "length crlf = 2"
  by (simp add: crlf_def)

lemma takeWhile_decimal: "takeWhile is_digit (decimal n @ CHR 0x0D # t) = decimal n"
proof -
  have "\<not> is_digit (CHR 0x0D)" by (simp add: is_digit_def byte_def)
  then show ?thesis using decimal_digits [of n] by (auto simp: list_all_iff takeWhile_append)
qed

lemma after_head_digits: "after_head head (head @ decimal n @ crlf @ crlf @ t) = Some (n, length head + length (decimal n) + 4)"
  using decimal_digits [of n] by (simp add: after_head_def crlf_def takeWhile_decimal)

lemma after_head_other: "take (length head) t \<noteq> head \<Longrightarrow> after_head head t = None"
  by (simp add: after_head_def)

lemma sample_reads: "reads_back sample_parsers ''h''" "keeps_to_text sample_parsers"
proof -
  have two: "take (length (request_head AuthPath)) (request_head Auth2Path @ t) \<noteq> request_head AuthPath" for t
    by (simp add: request_head_def AuthPath_def Auth2Path_def)
  have post: "post_text ''h'' path body = request_head path @ decimal (length body) @ crlf @ crlf @ body" for path body
    by (simp add: post_text_def request_head_def)
  have req: "sample_request (post_text ''h'' path body @ rest)
      = Parsed \<lparr>rq_Path = path, rq_Method = ''POST'', rq_TransferEncoding = False, rq_ContentLength = int (length body)\<rparr>
          (length (post_text ''h'' path body) - length body)" if "path = AuthPath \<or> path = Auth2Path" for path body rest
    using that by (auto simp: sample_request_def post after_head_digits after_head_other [OF two] length_crlf Let_def)
  have other: "take (length (answer_head True)) (answer_head False @ decimal n @ t) \<noteq> answer_head True" for n t
    by (simp add: answer_head_def crlf_def)
  have status: "decimal 200 = ''200''" by code_simp
  have answer: "answer_text 200 body False = answer_head (body \<noteq> None) @ decimal (length b) @ crlf @ crlf @ b"
    if "b = (case body of None \<Rightarrow> '''' | Some b \<Rightarrow> b)" for body b
    using that status by (cases body) (simp_all add: answer_text_def answer_head_def StatusText_def)
  have resp: "sample_response (answer_text 200 body False @ rest)
      = Parsed \<lparr>rs_StatusCode = 200, rs_Body = (case body of None \<Rightarrow> '''' | Some b \<Rightarrow> b), rs_Complete = True\<rparr> (length (answer_text 200 body False))"
    for body rest
    unfolding answer [OF refl]
    by (cases body) (simp_all add: sample_response_def after_head_digits after_head_other [OF other] length_crlf Let_def)

  have names: "distinct (map (foldCase id) [''pk'', ''challenge'', ''signature''])"
    by (simp add: foldCase_id_ascii byte_def)
  show "reads_back sample_parsers ''h''" unfolding reads_back_def sample_parsers_def http_parsers.simps
    using names by (intro conjI allI impI req resp)
  show "keeps_to_text sample_parsers"
    by (auto simp: keeps_to_text_def sample_parsers_def sample_request_def Let_def split: option.splits)
qed

lemma sample_signs: "signs sample_box sample_pub" "box_errors sample_box"
  by (auto simp: signs_def box_errors_def sample_box_def sample_pub_def ChallengeSize_def PublicKeySize_def SignatureSize_def)

text \<open>
  C15. The server's half and the device's, each given exactly what the other writes and then more:
  both pass, the server learns the device's key, the device is talking to the key it named, each
  side writes its two messages, and what comes after the check is read in full by either side.
\<close>

theorem connauth_halves_meet:
  assumes "reads_back hp host" and "length host \<le> 1000" and "signs bx pub"
  shows "\<exists>t1 t2 a1 a2 rest c rest' c'.
       respond hp bx serverKey rnd ahead \<lparr>cn_in = t1 @ t2 @ x, cn_out = [], cn_writes = []\<rparr> = (Inr (pub deviceKey, rest), c)
     \<and> cn_out c = [a1, a2] \<and> rest_bytes rest = x
     \<and> initiate hp bx deviceKey rnd' host (pub serverKey) ahead' \<lparr>cn_in = a1 @ a2 @ y, cn_out = [], cn_writes = []\<rparr> = (Inr rest', c')
     \<and> cn_out c' = [t1, t2] \<and> rest_bytes rest' = y"
  by (rule halves_run [OF assms])

theorem connauth_halves_meet_witness:
  "\<exists>t1 t2 a1 a2 rest c rest' c'.
       respond sample_parsers sample_box ''server'' ''r1'' 7 \<lparr>cn_in = t1 @ t2 @ ''GET /ws'', cn_out = [], cn_writes = []\<rparr> = (Inr (sample_pub ''device'', rest), c)
     \<and> cn_out c = [a1, a2] \<and> rest_bytes rest = ''GET /ws''
     \<and> initiate sample_parsers sample_box ''device'' ''r2'' ''h'' (sample_pub ''server'') 0 \<lparr>cn_in = a1 @ a2 @ '''', cn_out = [], cn_writes = []\<rparr> = (Inr rest', c')
     \<and> cn_out c' = [t1, t2] \<and> rest_bytes rest' = ''''"
  by (rule connauth_halves_meet [OF sample_reads(1) _ sample_signs(1)]) simp

text \<open>
  C14. What the server's half answers, whatever the peer sends. A key comes out only when a signature
  by it over the challenge this call made has held; then exactly the answer to \<open>/auth\<close> and the
  empty answer to \<open>/auth2\<close> were written, at most \<open>maxStage\<close> bytes were read, and the rest is
  there unread. Anything else is an error, and while nothing fails to be written the peer has seen
  the answer to \<open>/auth\<close> when the error came after it and then the refusal of that kind with its
  status, closing the connection, or nothing when the kind has none.
\<close>

theorem connauth_proves_key:
  assumes "respond hp bx serverKey rnd ahead c = (r, c')" and "keeps_to_text hp" and "box_errors bx"
  shows "case r of
      Inr (device, rest) \<Rightarrow>
        (\<exists>ours serverPublic theirs sig answer used.
           bx_GetChallenge bx serverKey rnd = Inr (ours, serverPublic) \<and> bx_CheckSignature bx device ours sig = Inr True
         \<and> bx_SignChallenge bx serverKey theirs = Inr answer \<and> length device = PublicKeySize
         \<and> cn_out c' = cn_out c @ [answer_text 200 (Some (marshal_answer \<lparr>aa_PK = EncodeToString URL serverPublic,
               aa_Challenge = EncodeToString URL ours, aa_Signature = EncodeToString URL answer\<rparr>)) False, answer_text 200 None False]
         \<and> cn_in c = used @ rest_bytes rest \<and> length used \<le> maxStage)
    | Inl e \<Rightarrow>
        (cn_writes c = [] \<and> \<not> Is e ErrWriting \<longrightarrow>
           (\<exists>first. cn_out c' = cn_out c @ first @ (case refusal e of None \<Rightarrow> [] | Some status \<Rightarrow> [answer_text status None True])
              \<and> length first = (if afterAuth e then 1 else 0)))"
  by (rule respond_end [OF assms])

theorem connauth_proves_key_witness:
  "\<exists>c d rest ours serverPublic sig.
       respond sample_parsers sample_box ''server'' ''r1'' 0 c = (Inr (sample_pub ''device'', rest), d)
     \<and> bx_GetChallenge sample_box ''server'' ''r1'' = Inr (ours, serverPublic)
     \<and> bx_CheckSignature sample_box (sample_pub ''device'') ours sig = Inr True \<and> length (cn_out d) = 2"
proof -
  obtain c rest d where r: "respond sample_parsers sample_box ''server'' ''r1'' 0 c = (Inr (sample_pub ''device'', rest), d)"
      and c: "cn_out c = []"
    using halves_run [OF sample_reads(1) _ sample_signs(1), of "''server''" "''r1''" 0 "''''" "''device''" "''r2''" 0 "''''"] by auto
  from connauth_proves_key [OF r sample_reads(2) sample_signs(2)] obtain ours serverPublic sig
    where "bx_GetChallenge sample_box ''server'' ''r1'' = Inr (ours, serverPublic)" "bx_CheckSignature sample_box (sample_pub ''device'') ours sig = Inr True"
      "length (cn_out d) = 2" using c by auto
  with r show ?thesis by blast
qed

end
