(* ===== verification/Channel_Properties.thy ===== *)
theory Channel_Properties
  imports Channel Connauth_Properties
begin

text \<open>
  What the entry promises in every interleaving of arrivals, handshakes that end, connections that
  are taken, warnings and the closing of the listener: its bounds hold, a newcomer always gets a
  place and at most the oldest of its own source, or of all, makes room; a flood from one source
  costs the others little; only a connection that proved a key is ever handed on; and every cut
  is counted in a warning.
\<close>

section \<open>Sources\<close>

lemma string6_slash: "localSource \<noteq> x @ ''/64''"
proof
  assume "localSource = x @ ''/64''"
  then have "last localSource = last (x @ ''/64'')" by simp
  then show False by (simp add: localSource_def)
qed

lemma string4_dot: "length ip = 4 \<Longrightarrow> CHR ''.'' \<in> set (string4 ip)"
  by (auto simp: string4_def length_Suc_conv numeral_eq_Suc)

lemma sourceOf_local: "sourceOf remote here = (s, local) \<Longrightarrow> s = localSource \<longleftrightarrow> local"
proof -
  assume a: "sourceOf remote here = (s, local)"
  have dot: "CHR ''.'' \<notin> set localSource" by (simp add: localSource_def)
  consider "s = '''' \<and> \<not> local" | "s = localSource \<and> local" | ip where "s = string4 ip" "length ip = 4" "\<not> local" | ip where "s = string6 ip @ ''/64''" "\<not> local"
    using a by (simp add: sourceOf_def split: option.splits if_splits) blast+
  then show ?thesis
  proof cases
    case 3
    then show ?thesis using string4_dot [of ip] dot by metis
  next
    case 4
    then show ?thesis using string6_slash by metis
  qed (simp_all add: localSource_def)
qed

section \<open>The state of the entry\<close>

definition from_source :: "string \<Rightarrow> pendingChannel list \<Rightarrow> pendingChannel list" where
  "from_source s ps = filter (\<lambda>p. pc_source p = s) ps"

definition share_of :: "channelListener \<Rightarrow> string \<Rightarrow> int" where
  "share_of l s = (if s = localSource then cl_maxLocal l else cl_maxPerSource l)"

definition entry_ok :: "channelListener \<Rightarrow> bool" where
  "entry_ok l \<longleftrightarrow>
     distinct (map pc_conn (cl_pending l))
   \<and> (\<forall>s. cl_bySource l s = (let n = length (from_source s (cl_pending l)) in if n = 0 then None else Some (int n)))
   \<and> (\<forall>s. int (length (from_source s (cl_pending l))) \<le> share_of l s)
   \<and> int (length (cl_pending l)) \<le> cl_maxPending l
   \<and> 1 \<le> cl_maxPending l \<and> 1 \<le> cl_maxLocal l \<and> 1 \<le> cl_maxPerSource l"

lemma source_count_ok: "entry_ok l \<Longrightarrow> source_count l s = int (length (from_source s (cl_pending l)))"
  by (auto simp: entry_ok_def source_count_def Let_def)

lemma share_pos: "entry_ok l \<Longrightarrow> 1 \<le> share_of l s"
  by (auto simp: entry_ok_def share_of_def)

lemma from_source_remove1:
  "p \<in> set ps \<Longrightarrow> length (from_source s (remove1 p ps)) = length (from_source s ps) - (if pc_source p = s then 1 else 0)"
  by (simp add: from_source_def filter_remove1 length_remove1)

lemma forget_fields [simp]:
  "cl_maxPending (forgetLocked p l) = cl_maxPending l" "cl_maxLocal (forgetLocked p l) = cl_maxLocal l"
  "cl_maxPerSource (forgetLocked p l) = cl_maxPerSource l" "cl_pending (forgetLocked p l) = remove1 p (cl_pending l)"
  "cl_shed (forgetLocked p l) = cl_shed l" "cl_shedFlush (forgetLocked p l) = cl_shedFlush l"
  "cl_shedLogged (forgetLocked p l) = cl_shedLogged l" "cl_shedEvery (forgetLocked p l) = cl_shedEvery l"
  "cl_closed (forgetLocked p l) = cl_closed l" "share_of (forgetLocked p l) = share_of l"
  by (simp_all add: forgetLocked_def Let_def share_of_def fun_eq_iff)

lemma forget_ok: "entry_ok l \<Longrightarrow> p \<in> set (cl_pending l) \<Longrightarrow> entry_ok (forgetLocked p l)"
proof -
  assume ok: "entry_ok l" and p: "p \<in> set (cl_pending l)"
  let ?n = "\<lambda>s. length (from_source s (cl_pending l))"
  have pos: "0 < ?n (pc_source p)" using p by (auto simp: from_source_def filter_empty_conv)
  have len: "length (from_source s (remove1 p (cl_pending l))) = ?n s - (if pc_source p = s then 1 else 0)" for s
    by (rule from_source_remove1 [OF p])
  have bounds: "\<forall>s. int (?n s) \<le> share_of l s" "int (length (cl_pending l)) \<le> cl_maxPending l" using ok by (auto simp: entry_ok_def)
  have by0: "cl_bySource l s = (if ?n s = 0 then None else Some (int (?n s)))" for s using ok by (simp add: entry_ok_def Let_def)
  have "cl_bySource (forgetLocked p l) s = (let n = length (from_source s (remove1 p (cl_pending l))) in if n = 0 then None else Some (int n))" for s
    unfolding forgetLocked_def Let_def len source_count_ok [OF ok] using pos by0 [of s] by auto
  moreover have "int (length (from_source s (remove1 p (cl_pending l)))) \<le> share_of l s" for s
    unfolding len using bounds(1) [rule_format, of s] by linarith
  moreover have "int (length (remove1 p (cl_pending l))) \<le> cl_maxPending l"
    by (rule order_trans [OF _ bounds(2)]) (simp add: length_remove1)
  moreover have "distinct (map pc_conn (remove1 p (cl_pending l)))"
    using ok by (auto simp: entry_ok_def distinct_map distinct_remove1 inj_on_def dest: notin_set_remove1 set_remove1_subset [THEN subsetD])
  ultimately show ?thesis using ok by (simp add: entry_ok_def)
qed

lemma oldestFrom_Some:
  "0 < length (from_source s (cl_pending l)) \<Longrightarrow> oldestFromLocked s l = Some (hd (from_source s (cl_pending l)))
     \<and> hd (from_source s (cl_pending l)) \<in> set (cl_pending l) \<and> pc_source (hd (from_source s (cl_pending l))) = s"
proof -
  assume "0 < length (from_source s (cl_pending l))"
  then have "from_source s (cl_pending l) \<noteq> []" by simp
  moreover have "from_source s ps \<noteq> [] \<Longrightarrow> List.find (\<lambda>p. pc_source p = s) ps = Some (hd (from_source s ps))" for ps
    by (induction ps) (auto simp: from_source_def)
  ultimately show ?thesis
    using hd_in_set [of "from_source s (cl_pending l)"] by (auto simp: oldestFromLocked_def from_source_def)
qed

text \<open>Who makes room for a newcomer from \<open>s\<close>.\<close>

definition victim :: "string \<Rightarrow> channelListener \<Rightarrow> pendingChannel option" where
  "victim s l =
     (if int (length (from_source s (cl_pending l))) \<ge> share_of l s then Some (hd (from_source s (cl_pending l)))
      else if int (length (cl_pending l)) \<ge> cl_maxPending l then Some (hd (cl_pending l))
      else None)"

lemma at_share: "entry_ok l \<Longrightarrow> share_of l s \<le> int (length (from_source s (cl_pending l))) \<Longrightarrow> 0 < length (from_source s (cl_pending l))"
  using share_pos [of l s] by linarith

lemma at_limit: "entry_ok l \<Longrightarrow> cl_maxPending l \<le> int (length (cl_pending l)) \<Longrightarrow> cl_pending l \<noteq> []"
  by (auto simp: entry_ok_def)

lemma victim_pending: "entry_ok l \<Longrightarrow> victim s l = Some v \<Longrightarrow> v \<in> set (cl_pending l)"
  using at_share [of l s] oldestFrom_Some [of s l] at_limit [of l] by (auto simp: victim_def split: if_splits)

definition counted :: "string \<Rightarrow> bool \<Rightarrow> channelListener \<Rightarrow> shedCounts" where
  "counted s local l =
     (if int (length (from_source s (cl_pending l))) \<ge> share_of l s
      then (if local then no_shed\<lparr>sc_local := 1\<rparr> else no_shed\<lparr>sc_inSource := 1\<rparr>)
      else if int (length (cl_pending l)) \<ge> cl_maxPending l then no_shed\<lparr>sc_evicted := 1\<rparr>
      else no_shed)"

lemma room_made:
  assumes ok: "entry_ok l" and s: "s = localSource \<longleftrightarrow> local"
  shows "(let (l1, g1, c1) = room_in_source s local (share_of l s) l [] no_shed in room_in_entry l1 g1 c1)
    = (case victim s l of None \<Rightarrow> l | Some v \<Rightarrow> forgetLocked v l, case victim s l of None \<Rightarrow> [] | Some v \<Rightarrow> [pc_conn v], counted s local l)"
proof -
  let ?n = "length (from_source s (cl_pending l))"
  have le: "int ?n \<le> share_of l s" "int (length (cl_pending l)) \<le> cl_maxPending l" using ok by (auto simp: entry_ok_def)
  have one: "1 \<le> share_of l s" by (rule share_pos [OF ok])
  show ?thesis
  proof (cases "int ?n \<ge> share_of l s")
    case True
    let ?v = "hd (from_source s (cl_pending l))"
    have v: "oldestFromLocked s l = Some ?v" "?v \<in> set (cl_pending l)" "pc_source ?v = s"
      using oldestFrom_Some [OF at_share [OF ok True]] by auto
    note ok1 = forget_ok [OF ok v(2)]
    have n1: "source_count (forgetLocked ?v l) s = int ?n - 1"
      unfolding source_count_ok [OF ok1] using from_source_remove1 [OF v(2), of s] v(3) True one by simp
    have stop: "room_in_source s local (share_of l s) (forgetLocked ?v l) g c = (forgetLocked ?v l, g, c)" for g c
      by (subst room_in_source.simps) (use n1 le(1) in auto)
    have "length (remove1 ?v (cl_pending l)) < length (cl_pending l)" using v(2) length_pos_if_in_set [OF v(2)] by (simp add: length_remove1)
    then have stop2: "room_in_entry (forgetLocked ?v l) g c = (forgetLocked ?v l, g, c)" for g c
      by (subst room_in_entry.simps) (use le(2) in auto)
    show ?thesis
      by (subst room_in_source.simps) (use True one v(1) at_share [OF ok True] source_count_ok [OF ok, of s] in \<open>simp add: stop stop2 victim_def counted_def no_shed_def\<close>)
  next
    case False
    have none: "room_in_source s local (share_of l s) l [] no_shed = (l, [], no_shed)"
      by (subst room_in_source.simps) (use False source_count_ok [OF ok, of s] in auto)
    show ?thesis
    proof (cases "int (length (cl_pending l)) \<ge> cl_maxPending l")
      case True
      have ne: "cl_pending l \<noteq> []" using True ok by (auto simp: entry_ok_def)
      then have "length (remove1 (hd (cl_pending l)) (cl_pending l)) < length (cl_pending l)" by (cases "cl_pending l") auto
      then have stop: "room_in_entry (forgetLocked (hd (cl_pending l)) l) g c = (forgetLocked (hd (cl_pending l)) l, g, c)" for g c
        by (subst room_in_entry.simps) (use le(2) in auto)
      have "no_shed\<lparr>sc_evicted := Suc (sc_evicted no_shed)\<rparr> = no_shed\<lparr>sc_evicted := 1\<rparr>" by (simp add: no_shed_def)
      then show ?thesis unfolding none
        by (simp, subst room_in_entry.simps) (use True False ne in \<open>simp add: stop victim_def counted_def Let_def\<close>)
    next
      case False2: False
      then show ?thesis unfolding none
        by (simp, subst room_in_entry.simps) (use False in \<open>simp add: victim_def counted_def\<close>)
    qed
  qed
qed

section \<open>Admission\<close>

lemma shedLocked_fields [simp]:
  "cl_pending (shedLocked now c l) = cl_pending l" "cl_bySource (shedLocked now c l) = cl_bySource l"
  "cl_maxPending (shedLocked now c l) = cl_maxPending l" "cl_maxLocal (shedLocked now c l) = cl_maxLocal l"
  "cl_maxPerSource (shedLocked now c l) = cl_maxPerSource l" "cl_shedEvery (shedLocked now c l) = cl_shedEvery l"
  "cl_shedLogged (shedLocked now c l) = cl_shedLogged l" "cl_closed (shedLocked now c l) = cl_closed l"
  by (simp_all add: shedLocked_def Let_def)

lemma counted_none: "counted s local l = no_shed \<longleftrightarrow> victim s l = None"
  by (simp add: counted_def victim_def no_shed_def)

definition newcomer :: "nat \<Rightarrow> net_addr \<Rightarrow> net_addr \<Rightarrow> int \<Rightarrow> channelListener \<Rightarrow> pendingChannel" where
  "newcomer c remote here t l =
     (let (source, local) = sourceOf remote here
      in \<lparr>pc_conn = c, pc_accepted = t, pc_source = source, pc_local = local,
          pc_firstByteBy = (if local then None else Some (t + min (cl_firstByte l) (cl_budget l)))\<rparr>)"

lemma forget_times [simp]: "cl_firstByte (forgetLocked p l) = cl_firstByte l" "cl_budget (forgetLocked p l) = cl_budget l"
    "cl_firstByte (shedLocked now c l) = cl_firstByte l" "cl_budget (shedLocked now c l) = cl_budget l"
  by (simp_all add: forgetLocked_def shedLocked_def Let_def)

text \<open>The listener once room is made, before the newcomer takes its place.\<close>

definition with_room :: "string \<Rightarrow> channelListener \<Rightarrow> channelListener" where
  "with_room s l = (case victim s l of None \<Rightarrow> l | Some v \<Rightarrow> forgetLocked v l)"

definition with_shed :: "int \<Rightarrow> string \<Rightarrow> bool \<Rightarrow> channelListener \<Rightarrow> channelListener" where
  "with_shed t s local l =
     (if victim s l = None then with_room s l else shedLocked t (counted s local l) (with_room s l))"

lemma admit_unfold:
  assumes "entry_ok l" and "sourceOf remote here = (s, local)"
  shows "admit c remote here t l
    = (newcomer c remote here t l, case victim s l of None \<Rightarrow> [] | Some v \<Rightarrow> [pc_conn v],
       (with_shed t s local l)\<lparr>cl_bySource := (cl_bySource (with_shed t s local l))(s := Some (source_count (with_room s l) s + 1)),
          cl_pending := cl_pending (with_room s l) @ [newcomer c remote here t l]\<rparr>)"
proof -
  have s: "s = localSource \<longleftrightarrow> local" by (rule sourceOf_local [OF assms(2)])
  have share: "(if local then cl_maxLocal l else cl_maxPerSource l) = share_of l s" using s by (simp add: share_of_def)
  obtain l1 g1 c1 where r1: "room_in_source s local (share_of l s) l [] no_shed = (l1, g1, c1)" by (cases "room_in_source s local (share_of l s) l [] no_shed") auto
  have r2: "room_in_entry l1 g1 c1 = (with_room s l, case victim s l of None \<Rightarrow> [] | Some v \<Rightarrow> [pc_conn v], counted s local l)"
    using room_made [OF assms(1) s] by (simp add: r1 with_room_def)
  show ?thesis
    by (cases "victim s l") (simp_all add: admit_def assms(2) share r1 r2 counted_none [symmetric] with_shed_def with_room_def newcomer_def
      source_count_def Let_def, simp_all add: counted_none)
qed

lemma with_room_ok: "entry_ok l \<Longrightarrow> entry_ok (with_room s l)"
  using forget_ok victim_pending by (auto simp: with_room_def split: option.splits)

lemma with_room_pending: "cl_pending (with_room s l) = (case victim s l of None \<Rightarrow> cl_pending l | Some v \<Rightarrow> remove1 v (cl_pending l))"
  by (simp add: with_room_def split: option.splits)

lemma with_room_space:
  assumes "entry_ok l"
  shows "int (length (from_source s (cl_pending (with_room s l)))) < share_of l s" "int (length (cl_pending (with_room s l))) < cl_maxPending l"
proof -
  have le: "int (length (from_source s (cl_pending l))) \<le> share_of l s" "int (length (cl_pending l)) \<le> cl_maxPending l"
    using assms by (auto simp: entry_ok_def)
  have "int (length (from_source s (cl_pending (with_room s l)))) < share_of l s \<and> int (length (cl_pending (with_room s l))) < cl_maxPending l"
  proof (cases "victim s l")
    case None
    then show ?thesis by (simp add: with_room_def victim_def split: if_splits)
  next
    case (Some v)
    note v = victim_pending [OF assms Some]
    have "length (remove1 v (cl_pending l)) < length (cl_pending l)" using length_pos_if_in_set [OF v] v by (simp add: length_remove1)
    moreover have "int (length (from_source s (remove1 v (cl_pending l)))) < share_of l s"
    proof (cases "share_of l s \<le> int (length (from_source s (cl_pending l)))")
      case True
      then have "pc_source v = s" using Some oldestFrom_Some [OF at_share [OF assms True]] by (simp add: victim_def)
      then have "length (from_source s (remove1 v (cl_pending l))) = length (from_source s (cl_pending l)) - 1"
        using from_source_remove1 [OF v, of s] by simp
      then show ?thesis using at_share [OF assms True] le(1) by linarith
    next
      case False
      then show ?thesis using from_source_remove1 [OF v, of s] by linarith
    qed
    ultimately show ?thesis using le(2) Some by (simp add: with_room_def)
  qed
  then show "int (length (from_source s (cl_pending (with_room s l)))) < share_of l s" "int (length (cl_pending (with_room s l))) < cl_maxPending l" by blast+
qed

lemma with_shed_fields [simp]:
  "cl_pending (with_shed t s local l) = cl_pending (with_room s l)" "cl_bySource (with_shed t s local l) = cl_bySource (with_room s l)"
  "cl_maxPending (with_shed t s local l) = cl_maxPending l" "cl_maxLocal (with_shed t s local l) = cl_maxLocal l"
  "cl_maxPerSource (with_shed t s local l) = cl_maxPerSource l" "cl_shedEvery (with_shed t s local l) = cl_shedEvery l"
  "cl_shedLogged (with_shed t s local l) = cl_shedLogged l" "cl_closed (with_shed t s local l) = cl_closed l"
  by (simp_all add: with_shed_def with_room_def split: option.splits)

lemma admit_ok:
  assumes ok: "entry_ok l" and a: "admit c remote here t l = (p, gone, l')" and new: "c \<notin> pc_conn ` set (cl_pending l)"
  shows "entry_ok l' \<and> p = newcomer c remote here t l \<and> pc_conn p = c
    \<and> gone = (case victim (pc_source p) l of None \<Rightarrow> [] | Some v \<Rightarrow> [pc_conn v])
    \<and> cl_pending l' = (case victim (pc_source p) l of None \<Rightarrow> cl_pending l | Some v \<Rightarrow> remove1 v (cl_pending l)) @ [p]
    \<and> share_of l' = share_of l \<and> cl_maxPending l' = cl_maxPending l \<and> cl_closed l' = cl_closed l"
proof -
  obtain s local where s: "sourceOf remote here = (s, local)" by (cases "sourceOf remote here") auto
  note u = admit_unfold [OF ok s, of c t] and r = with_room_ok [OF ok, of s] and space = with_room_space [OF ok, of s]
  have p: "p = newcomer c remote here t l" "pc_source p = s" "pc_conn p = c" using u a s by (auto simp: newcomer_def)
  have pend: "cl_pending l' = cl_pending (with_room s l) @ [p]" and l': "cl_bySource l' = (cl_bySource (with_room s l))(s := Some (source_count (with_room s l) s + 1))"
      "cl_maxPending l' = cl_maxPending l" "cl_maxLocal l' = cl_maxLocal l" "cl_maxPerSource l' = cl_maxPerSource l" "cl_closed l' = cl_closed l"
    using u a by auto
  have share: "share_of l' = share_of l" "share_of (with_room s l) = share_of l" using l' by (auto simp: share_of_def fun_eq_iff with_room_def split: option.splits)
  have max: "cl_maxPending (with_room s l) = cl_maxPending l" "cl_maxLocal (with_room s l) = cl_maxLocal l" "cl_maxPerSource (with_room s l) = cl_maxPerSource l"
    by (simp_all add: with_room_def split: option.splits)
  have new': "c \<notin> pc_conn ` set (cl_pending (with_room s l))"
    using new notin_set_remove1 by (fastforce simp: with_room_pending split: option.splits)
  have "entry_ok l'"
    using r new' space unfolding entry_ok_def pend l' share max source_count_ok [OF r]
    by (auto simp: p(2,3) from_source_def Let_def share)
  then show ?thesis using p pend with_room_pending [of s l] u a share l'(2,5) by simp
qed

section \<open>A flood from one source\<close>

fun flood :: "(nat \<times> net_addr \<times> net_addr \<times> int) list \<Rightarrow> channelListener \<Rightarrow> channelListener" where
  "flood [] l = l"
| "flood ((c, remote, here, t) # as) l = flood as (snd (snd (admit c remote here t l)))"

definition others :: "string \<Rightarrow> channelListener \<Rightarrow> nat" where
  "others s l = length (filter (\<lambda>p. pc_source p \<noteq> s) (cl_pending l))"

definition free_in :: "string \<Rightarrow> channelListener \<Rightarrow> nat" where
  "free_in s l = nat (share_of l s - int (length (from_source s (cl_pending l))))"

lemma others_remove1: "v \<in> set ps \<Longrightarrow> length (filter (\<lambda>p. pc_source p \<noteq> s) (remove1 v ps))
    = length (filter (\<lambda>p. pc_source p \<noteq> s) ps) - (if pc_source v \<noteq> s then 1 else 0)"
  by (simp add: filter_remove1 length_remove1)

lemma admit_others:
  assumes ok: "entry_ok l" and a: "admit c remote here t l = (p, gone, l')" and new: "c \<notin> pc_conn ` set (cl_pending l)" and s: "pc_source p = s"
  shows "others s l + free_in s l' \<le> others s l' + free_in s l"
proof -
  note spec = admit_ok [OF ok a new]
  let ?n = "length (from_source s (cl_pending l))"
  have le: "int ?n \<le> share_of l s" using ok by (simp add: entry_ok_def)
  show ?thesis
  proof (cases "victim s l")
    case None
    then show ?thesis using spec s by (auto simp: others_def free_in_def from_source_def)
  next
    case (Some v)
    note v = victim_pending [OF ok Some]
    have pend: "cl_pending l' = remove1 v (cl_pending l) @ [p]" "share_of l' = share_of l" using spec s Some by auto
    have n': "length (from_source s (cl_pending l')) = ?n - (if pc_source v = s then 1 else 0) + 1"
      using from_source_remove1 [OF v, of s] s by (simp add: pend from_source_def)
    have o': "others s l' = others s l - (if pc_source v \<noteq> s then 1 else 0)"
      using others_remove1 [OF v, of s] s by (simp add: pend others_def)
    show ?thesis
    proof (cases "pc_source v = s")
      case True
      then have "v \<in> set (from_source s (cl_pending l))" using v by (simp add: from_source_def)
      then have "0 < ?n" by (rule length_pos_if_in_set)
      then show ?thesis using True n' o' pend(2) by (simp add: free_in_def)
    next
      case False
      then have "v \<in> set (filter (\<lambda>p. pc_source p \<noteq> s) (cl_pending l))" using v by simp
      then have pos: "0 < others s l" unfolding others_def by (rule length_pos_if_in_set)
      have "\<not> share_of l s \<le> int ?n" using Some False oldestFrom_Some [OF at_share [OF ok]] by (auto simp: victim_def)
      then show ?thesis using False n' o' pend(2) pos by (simp add: free_in_def)
    qed
  qed
qed

lemma flood_spares:
  assumes "entry_ok l" and "distinct (map fst as)" and "fst ` set as \<inter> pc_conn ` set (cl_pending l) = {}"
    and "\<forall>(c, remote, here, t) \<in> set as. fst (sourceOf remote here) = s"
  shows "others s l \<le> others s (flood as l) + free_in s l"
  using assms
proof (induction as arbitrary: l)
  case (Cons a as)
  obtain c remote here t where a: "a = (c, remote, here, t)" by (cases a)
  obtain p gone l' where adm: "admit c remote here t l = (p, gone, l')" by (cases "admit c remote here t l")
  have new: "c \<notin> pc_conn ` set (cl_pending l)" using Cons.prems(3) a by auto
  note spec = admit_ok [OF Cons.prems(1) adm new]
  have "pc_source p = fst (sourceOf remote here)" using spec by (simp add: newcomer_def split: prod.splits)
  then have s: "pc_source p = s" using Cons.prems(4) a by simp
  have sub: "pc_conn ` set (cl_pending l') \<subseteq> insert c (pc_conn ` set (cl_pending l))"
    using spec set_remove1_subset by (fastforce split: option.splits)
  have "others s l' \<le> others s (flood as l') + free_in s l'"
  proof (rule Cons.IH)
    have "c \<notin> fst ` set as" using Cons.prems(2) a by simp
    moreover have "fst ` set as \<inter> pc_conn ` set (cl_pending l) = {}" using Cons.prems(3) by auto
    ultimately show "fst ` set as \<inter> pc_conn ` set (cl_pending l') = {}" using sub by blast
  qed (use spec Cons.prems(2,4) in auto)
  then show ?case using admit_others [OF Cons.prems(1) adm new s] by (simp add: a adm)
qed simp

section \<open>Every interleaving\<close>

text \<open>
  The listener beside its handshakes, the connections closed, ready and handed to the HTTP server,
  and as ghosts what was cut, what was warned and which connections have come.
\<close>

record entry =
  en_l :: channelListener
  en_hands :: "pendingChannel set"
  en_closed :: "nat set"
  en_ready :: "(nat \<times> channelPeer) set"
  en_served :: "(nat \<times> channelPeer) set"
  en_cut :: "nat list"
  en_warned :: "(int \<times> shedCounts) list"
  en_seen :: "nat set"

inductive entry_run :: "http_parsers \<Rightarrow> box \<Rightarrow> string \<Rightarrow> int \<Rightarrow> int \<Rightarrow> entry \<Rightarrow> bool" for hp bx serverKey zero_time budget where
  Start: "entry_run hp bx serverKey zero_time budget
    \<lparr>en_l = newChannelListener zero_time budget, en_hands = {}, en_closed = {}, en_ready = {}, en_served = {}, en_cut = [], en_warned = [], en_seen = {}\<rparr>"
| Arrive: "entry_run hp bx serverKey zero_time budget e \<Longrightarrow> \<not> cl_closed (en_l e) \<Longrightarrow> c \<notin> en_seen e \<Longrightarrow>
    admit c remote here t (en_l e) = (p, gone, l') \<Longrightarrow>
    entry_run hp bx serverKey zero_time budget
      (e\<lparr>en_l := l', en_hands := insert p (en_hands e), en_closed := en_closed e \<union> set gone, en_cut := en_cut e @ gone, en_seen := insert c (en_seen e)\<rparr>)"
| Ends: "entry_run hp bx serverKey zero_time budget e \<Longrightarrow> p \<in> en_hands e \<Longrightarrow>
    handshake p (verify tls_ok cx hp bx serverKey rnd ahead cleared c) (en_l e) = (r, l') \<Longrightarrow>
    entry_run hp bx serverKey zero_time budget
      (e\<lparr>en_l := l', en_hands := en_hands e - {p},
         en_closed := (case r of ReadyFor _ \<Rightarrow> en_closed e | _ \<Rightarrow> insert (pc_conn p) (en_closed e)),
         en_ready := (case r of ReadyFor peer \<Rightarrow> insert (pc_conn p, peer) (en_ready e) | _ \<Rightarrow> en_ready e)\<rparr>)"
| Taken: "entry_run hp bx serverKey zero_time budget e \<Longrightarrow> x \<in> en_ready e \<Longrightarrow> Accept (en_l e) (Some x) = y \<Longrightarrow>
    entry_run hp bx serverKey zero_time budget
      (e\<lparr>en_ready := en_ready e - {x}, en_served := (case y of None \<Rightarrow> en_served e | Some x \<Rightarrow> insert x (en_served e)),
         en_closed := (case y of None \<Rightarrow> insert (fst x) (en_closed e) | Some _ \<Rightarrow> en_closed e)\<rparr>)"
| Warns: "entry_run hp bx serverKey zero_time budget e \<Longrightarrow> cl_shedFlush (en_l e) = Some due \<Longrightarrow> due \<le> now \<Longrightarrow> warnShed now (en_l e) = (w, l') \<Longrightarrow>
    entry_run hp bx serverKey zero_time budget
      (e\<lparr>en_l := l', en_warned := (case w of None \<Rightarrow> en_warned e | Some c \<Rightarrow> (now, c) # en_warned e)\<rparr>)"
| Stops: "entry_run hp bx serverKey zero_time budget e \<Longrightarrow> \<not> cl_closed (en_l e) \<Longrightarrow> Close now (en_l e) = (w, l') \<Longrightarrow>
    entry_run hp bx serverKey zero_time budget
      (e\<lparr>en_l := l', en_warned := (case w of None \<Rightarrow> en_warned e | Some c \<Rightarrow> (now, c) # en_warned e)\<rparr>)"

definition total :: "shedCounts \<Rightarrow> nat" where
  "total c = sc_inSource c + sc_local c + sc_evicted c"

definition limits_set :: "channelListener \<Rightarrow> bool" where
  "limits_set l \<longleftrightarrow> cl_maxPending l = 256 \<and> cl_maxPerSource l = 8 \<and> cl_maxLocal l = 64 \<and> cl_shedEvery l = 60000"

definition conns_ok :: "entry \<Rightarrow> bool" where
  "conns_ok e \<longleftrightarrow>
     set (cl_pending (en_l e)) \<subseteq> en_hands e \<and> inj_on pc_conn (en_hands e) \<and> pc_conn ` en_hands e \<subseteq> en_seen e
   \<and> fst ` (en_ready e \<union> en_served e) \<subseteq> en_seen e - pc_conn ` en_hands e - en_closed e
   \<and> set (en_cut e) \<subseteq> en_closed e \<and> en_closed e \<subseteq> en_seen e - pc_conn ` set (cl_pending (en_l e))
   \<and> fst ` en_ready e \<inter> fst ` en_served e = {} \<and> inj_on fst (en_ready e)"

definition warnings_ok :: "entry \<Rightarrow> bool" where
  "warnings_ok e \<longleftrightarrow>
     length (en_cut e) = total (cl_shed (en_l e)) + sum_list (map (total \<circ> snd) (en_warned e))
   \<and> (cl_shedFlush (en_l e) = None \<longrightarrow> cl_shed (en_l e) = no_shed)
   \<and> (\<forall>due. cl_shedFlush (en_l e) = Some due \<longrightarrow> cl_shedLogged (en_l e) + 60000 \<le> due)
   \<and> (\<not> cl_closed (en_l e) \<longrightarrow>
        sorted_wrt (\<lambda>a b. fst b + 60000 \<le> fst a) (en_warned e) \<and> (\<forall>w \<in> set (en_warned e). fst w \<le> cl_shedLogged (en_l e)))"

definition proved :: "box \<Rightarrow> string \<Rightarrow> channelPeer \<Rightarrow> bool" where
  "proved bx serverKey peer \<longleftrightarrow>
     (\<exists>rnd ours serverPublic sig. bx_GetChallenge bx serverKey rnd = Inr (ours, serverPublic) \<and> bx_CheckSignature bx (cp_key peer) ours sig = Inr True)"

lemma verify_proved:
  assumes "verify tls_ok cx hp bx serverKey rnd ahead cleared c = Inr (rest, peer)" and "keeps_to_text hp" and "box_errors bx"
  shows "proved bx serverKey \<lparr>cp_key = peer\<rparr>"
proof -
  obtain rest' c' where "respond hp bx serverKey rnd ahead c = (Inr (peer, rest'), c')"
    using assms(1) by (auto simp: verify_def Respond_def settle_def Let_def split: if_splits sum.splits prod.splits)
  from respond_proved [OF this assms(2,3)] show ?thesis by (auto simp: proved_def)
qed

lemma handshake_cases:
  assumes "handshake p verified l = (r, l')"
  obtains "p \<notin> set (cl_pending l)" "r = CutMeanwhile" "l' = l"
  | e where "p \<in> set (cl_pending l)" "verified = Inl e" "r = Refused e" "l' = forgetLocked p l"
  | rest peer where "p \<in> set (cl_pending l)" "verified = Inr (rest, peer)" "r = ReadyFor \<lparr>cp_key = peer\<rparr>" "l' = forgetLocked p l"
  using assms by (auto simp: handshake_def leave_def split: if_splits sum.splits)

lemma handshake_listener:
  "handshake p verified l = (r, l') \<Longrightarrow> l' = (if p \<in> set (cl_pending l) then forgetLocked p l else l)"
  by (auto simp: handshake_def leave_def split: if_splits)

lemma admit_fields:
  assumes "entry_ok l" "admit c remote here t l = (p, gone, l')"
  shows "cl_shedEvery l' = cl_shedEvery l" "cl_maxPerSource l' = cl_maxPerSource l" "cl_maxLocal l' = cl_maxLocal l"
    "cl_maxPending l' = cl_maxPending l" "cl_shedLogged l' = cl_shedLogged l" "cl_closed l' = cl_closed l"
    "total (cl_shed l') = total (cl_shed l) + length gone"
    "cl_shedFlush l' = (if gone = [] then cl_shedFlush l else case cl_shedFlush l of None \<Rightarrow> Some (max t (cl_shedLogged l + cl_shedEvery l)) | Some d \<Rightarrow> Some d)"
    "gone = [] \<Longrightarrow> cl_shed l' = cl_shed l"
proof -
  obtain s local where s: "sourceOf remote here = (s, local)" by (cases "sourceOf remote here") auto
  note u = admit_unfold [OF assms(1) s, of c t]
  show "cl_shedEvery l' = cl_shedEvery l" "cl_maxPerSource l' = cl_maxPerSource l" "cl_maxLocal l' = cl_maxLocal l"
    "cl_maxPending l' = cl_maxPending l" "cl_shedLogged l' = cl_shedLogged l" "cl_closed l' = cl_closed l"
    using u assms(2) by auto
  have one: "victim s l \<noteq> None \<Longrightarrow> total (counted s local l) = 1" by (auto simp: total_def counted_def victim_def no_shed_def split: if_splits)
  show "total (cl_shed l') = total (cl_shed l) + length gone"
    using u assms(2) one by (cases "victim s l") (auto simp: with_shed_def with_room_def shedLocked_def Let_def total_def)
  show "cl_shedFlush l' = (if gone = [] then cl_shedFlush l else case cl_shedFlush l of None \<Rightarrow> Some (max t (cl_shedLogged l + cl_shedEvery l)) | Some d \<Rightarrow> Some d)"
    using u assms(2) by (cases "victim s l") (auto simp: with_shed_def with_room_def shedLocked_def Let_def split: option.splits)
  show "cl_shed l' = cl_shed l" if "gone = []"
    using u assms(2) that by (cases "victim s l") (auto simp: with_shed_def with_room_def)
qed

lemma arrive_ok:
  assumes e: "entry_ok (en_l e)" "limits_set (en_l e)" "conns_ok e" and c: "c \<notin> en_seen e"
    and a: "admit c remote here t (en_l e) = (p, gone, l')"
  shows "entry_ok l' \<and> limits_set l' \<and> conns_ok
      (e\<lparr>en_l := l', en_hands := insert p (en_hands e), en_closed := en_closed e \<union> set gone, en_cut := en_cut e @ gone, en_seen := insert c (en_seen e)\<rparr>)"
proof -
  have conns: "set (cl_pending (en_l e)) \<subseteq> en_hands e" "inj_on pc_conn (en_hands e)" "pc_conn ` en_hands e \<subseteq> en_seen e"
      "fst ` (en_ready e \<union> en_served e) \<subseteq> en_seen e - pc_conn ` en_hands e - en_closed e" "set (en_cut e) \<subseteq> en_closed e"
      "en_closed e \<subseteq> en_seen e - pc_conn ` set (cl_pending (en_l e))" "fst ` en_ready e \<inter> fst ` en_served e = {}" "inj_on fst (en_ready e)"
    using e(3) by (simp_all add: conns_ok_def)
  have new: "c \<notin> pc_conn ` set (cl_pending (en_l e))" using c conns(1,3) by blast
  note spec = admit_ok [OF e(1) a new] and fields = admit_fields [OF e(1) a]
  have limits: "limits_set l'" using e(2) fields(1-4) by (simp add: limits_set_def)
  let ?ps = "cl_pending (en_l e)"
  have dist: "distinct (map pc_conn ?ps)" using e(1) by (simp add: entry_ok_def)
  obtain qs where qs: "cl_pending l' = qs @ [p]" "set qs \<subseteq> set ?ps" "set gone \<subseteq> pc_conn ` set ?ps" "pc_conn ` set qs \<inter> set gone = {}"
  proof (cases "victim (pc_source p) (en_l e)")
    case None
    then show thesis using that [of ?ps] spec by simp
  next
    case (Some v)
    note v = victim_pending [OF e(1) Some]
    have "pc_conn v \<notin> pc_conn ` set (remove1 v ?ps)"
      using dist v by (auto simp: distinct_map inj_on_def set_remove1_eq)
    then show thesis using that [of "remove1 v ?ps"] spec Some v set_remove1_subset [of v ?ps] by auto
  qed
  have p: "pc_conn p = c" using spec by blast
  have gone: "set gone \<subseteq> pc_conn ` en_hands e" using conns(1) qs(3) by blast
  have inj: "inj_on pc_conn (insert p (en_hands e))" using conns(2,3) c p by (auto simp: inj_on_insert)
  define e' where "e' = e\<lparr>en_l := l', en_hands := insert p (en_hands e), en_closed := en_closed e \<union> set gone, en_cut := en_cut e @ gone, en_seen := insert c (en_seen e)\<rparr>"
  have f: "en_l e' = l'" "en_hands e' = insert p (en_hands e)" "en_closed e' = en_closed e \<union> set gone" "en_cut e' = en_cut e @ gone"
      "en_seen e' = insert c (en_seen e)" "en_ready e' = en_ready e" "en_served e' = en_served e"
    by (simp_all add: e'_def)
  have "conns_ok e'"
    unfolding conns_ok_def f
  proof (intro conjI)
    show "fst ` (en_ready e \<union> en_served e) \<subseteq> insert c (en_seen e) - pc_conn ` insert p (en_hands e) - (en_closed e \<union> set gone)"
      using conns(4) c p gone unfolding image_insert by blast
    define P Q where "P = pc_conn ` set ?ps" and "Q = pc_conn ` set qs"
    have "pc_conn ` set (cl_pending l') = insert c Q" using qs(1) p by (simp add: Q_def)
    moreover have "Q \<subseteq> P" "P \<subseteq> en_seen e" using qs(2) conns(1,3) by (auto simp: P_def Q_def)
    moreover have "en_closed e \<subseteq> en_seen e - P" "set gone \<subseteq> P" "Q \<inter> set gone = {}" using conns(6) qs(3,4) by (simp_all add: P_def Q_def)
    ultimately show "en_closed e \<union> set gone \<subseteq> insert c (en_seen e) - pc_conn ` set (cl_pending l')"
      using c by (simp only:) blast
  qed (use conns qs(1,2) c p inj in auto)
  then show ?thesis using spec limits by (simp add: e'_def)
qed

lemma forget_limits [simp]: "limits_set (forgetLocked p l) = limits_set l"
  by (simp add: limits_set_def)

lemma warn_fields [simp]:
  "cl_pending (snd (warnShed now l)) = cl_pending l" "entry_ok (snd (warnShed now l)) = entry_ok l" "limits_set (snd (warnShed now l)) = limits_set l"
  "cl_closed (snd (warnShed now l)) = cl_closed l"
  "cl_pending (snd (Close now l)) = cl_pending l" "entry_ok (snd (Close now l)) = entry_ok l" "limits_set (snd (Close now l)) = limits_set l"
  by (simp_all add: warnShed_def Close_def Let_def entry_ok_def limits_set_def share_of_def)

lemma ends_ok:
  assumes e: "entry_ok (en_l e)" "conns_ok e" and p: "p \<in> en_hands e" and h: "handshake p verified (en_l e) = (r, l')"
  shows "entry_ok l' \<and> conns_ok
      (e\<lparr>en_l := l', en_hands := en_hands e - {p},
         en_closed := (case r of ReadyFor _ \<Rightarrow> en_closed e | _ \<Rightarrow> insert (pc_conn p) (en_closed e)),
         en_ready := (case r of ReadyFor peer \<Rightarrow> insert (pc_conn p, peer) (en_ready e) | _ \<Rightarrow> en_ready e)\<rparr>)"
proof -
  have conns: "set (cl_pending (en_l e)) \<subseteq> en_hands e" "inj_on pc_conn (en_hands e)" "pc_conn ` en_hands e \<subseteq> en_seen e"
      "fst ` (en_ready e \<union> en_served e) \<subseteq> en_seen e - pc_conn ` en_hands e - en_closed e" "set (en_cut e) \<subseteq> en_closed e"
      "en_closed e \<subseteq> en_seen e - pc_conn ` set (cl_pending (en_l e))" "fst ` en_ready e \<inter> fst ` en_served e = {}" "inj_on fst (en_ready e)"
    using e(2) by (simp_all add: conns_ok_def)
  have dist: "distinct (cl_pending (en_l e))" using e(1) by (auto simp: entry_ok_def distinct_map)
  have l': "cl_pending l' = remove1 p (cl_pending (en_l e))" "entry_ok l'"
    using handshake_listener [OF h] forget_ok [OF e(1), of p] e(1) by (auto simp: remove1_idem)
  then have pend: "set (cl_pending l') = set (cl_pending (en_l e)) - {p}" using dist by simp
  have hands: "pc_conn p \<notin> pc_conn ` (en_hands e - {p})" using conns(2) p by (auto simp: inj_on_def)
  have ready: "pc_conn p \<notin> fst ` (en_ready e \<union> en_served e)" using conns(4) p by blast
  have seen: "pc_conn p \<in> en_seen e" using conns(3) p by blast
  define e' where "e' = e\<lparr>en_l := l', en_hands := en_hands e - {p},
         en_closed := (case r of ReadyFor _ \<Rightarrow> en_closed e | _ \<Rightarrow> insert (pc_conn p) (en_closed e)),
         en_ready := (case r of ReadyFor peer \<Rightarrow> insert (pc_conn p, peer) (en_ready e) | _ \<Rightarrow> en_ready e)\<rparr>"
  have f: "en_l e' = l'" "en_hands e' = en_hands e - {p}" "en_cut e' = en_cut e" "en_seen e' = en_seen e" "en_served e' = en_served e"
    by (simp_all add: e'_def)
  have rest: "set (cl_pending l') \<subseteq> en_hands e - {p}" "inj_on pc_conn (en_hands e - {p})" "pc_conn ` (en_hands e - {p}) \<subseteq> en_seen e"
    using conns(1-3) pend by (auto intro: inj_on_subset)
  have "conns_ok e'"
  proof (cases "\<exists>peer. r = ReadyFor peer")
    case True
    then obtain peer where r: "r = ReadyFor peer" by blast
    have there: "p \<in> set (cl_pending (en_l e))" using h r by (cases rule: handshake_cases) auto
    have g: "en_closed e' = en_closed e" "en_ready e' = insert (pc_conn p, peer) (en_ready e)" by (simp_all add: e'_def r)
    have open0: "pc_conn p \<notin> en_closed e" using conns(6) there by auto
    show ?thesis unfolding conns_ok_def f g
    proof (intro conjI)
      show "fst ` (insert (pc_conn p, peer) (en_ready e) \<union> en_served e) \<subseteq> en_seen e - pc_conn ` (en_hands e - {p}) - en_closed e"
        using conns(4) hands seen open0 by auto
      show "fst ` insert (pc_conn p, peer) (en_ready e) \<inter> fst ` en_served e = {}" using conns(7) ready by auto
      show "inj_on fst (insert (pc_conn p, peer) (en_ready e))" using conns(8) ready by (force simp: inj_on_insert)
      show "en_closed e \<subseteq> en_seen e - pc_conn ` set (cl_pending l')" using conns(6) pend by auto
    qed (use conns rest in auto)
  next
    case False
    then have g: "en_closed e' = insert (pc_conn p) (en_closed e)" "en_ready e' = en_ready e" by (auto simp: e'_def split: handshake_end.splits)
    show ?thesis unfolding conns_ok_def f g
    proof (intro conjI)
      show "fst ` (en_ready e \<union> en_served e) \<subseteq> en_seen e - pc_conn ` (en_hands e - {p}) - insert (pc_conn p) (en_closed e)"
        using conns(4) ready by blast
      show "insert (pc_conn p) (en_closed e) \<subseteq> en_seen e - pc_conn ` set (cl_pending l')" using conns(1,6) hands seen pend by auto
    qed (use conns rest in auto)
  qed
  then show ?thesis using l'(2) by (simp add: e'_def)
qed

lemma taken_ok:
  assumes "conns_ok e" "x \<in> en_ready e" "Accept (en_l e) (Some x) = y"
  shows "conns_ok (e\<lparr>en_ready := en_ready e - {x}, en_served := (case y of None \<Rightarrow> en_served e | Some x \<Rightarrow> insert x (en_served e)),
         en_closed := (case y of None \<Rightarrow> insert (fst x) (en_closed e) | Some _ \<Rightarrow> en_closed e)\<rparr>)"
proof -
  have conns: "set (cl_pending (en_l e)) \<subseteq> en_hands e" "inj_on pc_conn (en_hands e)" "pc_conn ` en_hands e \<subseteq> en_seen e"
      "fst ` (en_ready e \<union> en_served e) \<subseteq> en_seen e - pc_conn ` en_hands e - en_closed e" "set (en_cut e) \<subseteq> en_closed e"
      "en_closed e \<subseteq> en_seen e - pc_conn ` set (cl_pending (en_l e))" "fst ` en_ready e \<inter> fst ` en_served e = {}" "inj_on fst (en_ready e)"
    using assms(1) by (simp_all add: conns_ok_def)
  have inj: "inj_on fst (en_ready e - {x})" using conns(8) by (rule inj_on_subset) blast
  have x: "fst x \<notin> fst ` (en_ready e - {x})" using conns(8) assms(2) by (auto simp: inj_on_def)
  have x2: "fst x \<notin> fst ` en_served e" "fst x \<in> en_seen e - pc_conn ` en_hands e - en_closed e" using conns(4,7) assms(2) by blast+
  show ?thesis
  proof (cases "cl_closed (en_l e)")
    case True
    then have y: "y = None" using assms(3) by (simp add: Accept_def)
    have "fst ` ((en_ready e - {x}) \<union> en_served e) \<subseteq> en_seen e - pc_conn ` en_hands e - insert (fst x) (en_closed e)"
      using conns(4) x x2 by blast
    moreover have "insert (fst x) (en_closed e) \<subseteq> en_seen e - pc_conn ` set (cl_pending (en_l e))"
    proof -
      have "fst x \<notin> pc_conn ` set (cl_pending (en_l e))" using image_mono [OF conns(1), of pc_conn] x2(2) by fast
      then show ?thesis using conns(6) x2(2) by simp
    qed
    moreover have "fst ` (en_ready e - {x}) \<inter> fst ` en_served e = {}" using conns(7) by blast
    ultimately show ?thesis using conns(1-3,5) inj by (auto simp: conns_ok_def y)
  next
    case False
    then have y: "y = Some x" using assms(3) by (simp add: Accept_def)
    have sub: "fst ` ((en_ready e - {x}) \<union> insert x (en_served e)) \<subseteq> insert (fst x) (fst ` (en_ready e \<union> en_served e))" by auto
    have "fst ` ((en_ready e - {x}) \<union> insert x (en_served e)) \<subseteq> en_seen e - pc_conn ` en_hands e - en_closed e"
      by (rule order_trans [OF sub]) (simp only: insert_subset conns(4) x2(2) simp_thms)
    moreover have "fst ` (en_ready e - {x}) \<inter> fst ` en_served e = {}" using conns(7) by blast
    then have "fst ` (en_ready e - {x}) \<inter> fst ` insert x (en_served e) = {}" using x by simp
    ultimately show ?thesis using conns(1-3,5,6) inj by (simp add: conns_ok_def y)
  qed
qed

lemma entry_run_ok: "entry_run hp bx serverKey zero_time budget e \<Longrightarrow> entry_ok (en_l e) \<and> limits_set (en_l e) \<and> conns_ok e"
proof (induction rule: entry_run.induct)
  case Start
  show ?case
    by (simp add: entry_ok_def limits_set_def conns_ok_def newChannelListener_def from_source_def share_of_def
      maxPendingChannels_def maxPendingPerSource_def maxPendingLocal_def entryShedInterval_def)
next
  case (Arrive e c remote here t p gone l')
  then show ?case using arrive_ok [of e c remote here t p gone l'] by simp
next
  case (Ends e p tls_ok cx rnd ahead cleared c r l')
  have "limits_set l'" using handshake_listener [OF Ends.hyps(3)] Ends.IH by simp
  then show ?case using ends_ok [of e p] Ends by simp
next
  case (Taken e x y)
  then show ?case using taken_ok [of e x y] by simp
next
  case (Warns e due now w l')
  then have "l' = snd (warnShed now (en_l e))" by simp
  then show ?case using Warns.IH by (auto simp: conns_ok_def)
next
  case (Stops e now w l')
  then have "l' = snd (Close now (en_l e))" by simp
  then show ?case using Stops.IH by (auto simp: conns_ok_def)
qed

lemma total_none: "total no_shed = 0"
  by (simp add: total_def no_shed_def)

lemma warn_shed: "warnShed now l = (w, l') \<Longrightarrow>
    cl_shed l' = no_shed \<and> cl_shedFlush l' = None \<and> cl_shedLogged l' = now \<and> cl_closed l' = cl_closed l
  \<and> w = (if cl_shed l = no_shed then None else Some (cl_shed l))"
  by (auto simp: warnShed_def)

lemma entry_run_warnings: "entry_run hp bx serverKey zero_time budget e \<Longrightarrow> warnings_ok e"
proof (induction rule: entry_run.induct)
  case Start
  show ?case by (simp add: warnings_ok_def newChannelListener_def total_none)
next
  case (Arrive e c remote here t p gone l')
  note ok = entry_run_ok [OF Arrive.hyps(1)]
  note f = admit_fields [OF conjunct1 [OF ok] Arrive.hyps(4)]
  have every: "cl_shedEvery (en_l e) = 60000" using ok by (simp add: limits_set_def)
  show ?case
    using Arrive.IH f every unfolding warnings_ok_def
    by (cases "gone = []"; cases "cl_shedFlush (en_l e)") (simp_all add: max_def)
next
  case (Ends e p tls_ok cx rnd ahead cleared c r l')
  then show ?case using handshake_listener [OF Ends.hyps(3)] by (simp add: warnings_ok_def)
next
  case (Taken e x y)
  then show ?case by (simp add: warnings_ok_def)
next
  case (Warns e due now w l')
  note w = warn_shed [OF Warns.hyps(4)]
  have "cl_shedLogged (en_l e) + 60000 \<le> now" using Warns.IH Warns.hyps(2,3) unfolding warnings_ok_def by fastforce
  then show ?case using Warns.IH w unfolding warnings_ok_def
    by (cases "cl_shed (en_l e) = no_shed") (auto simp: total_none)
next
  case (Stops e now w l')
  then show ?case
  proof (cases "cl_shedFlush (en_l e)")
    case None
    then show ?thesis using Stops.IH Stops.hyps(3) by (auto simp: Close_def Let_def warnings_ok_def)
  next
    case (Some due)
    then have c: "warnShed now (en_l e\<lparr>cl_closed := True\<rparr>) = (w, l')" using Stops.hyps(3) by (simp add: Close_def)
    show ?thesis using Stops.IH warn_shed [OF c] unfolding warnings_ok_def
      by (cases "cl_shed (en_l e) = no_shed") (auto simp: total_none)
  qed
qed

lemma entry_run_proved:
  assumes "entry_run hp bx serverKey zero_time budget e" and "keeps_to_text hp" and "box_errors bx"
  shows "\<forall>x \<in> en_ready e \<union> en_served e. proved bx serverKey (snd x)"
  using assms(1)
proof (induction rule: entry_run.induct)
  case (Ends e p tls_ok cx rnd ahead cleared c r l')
  from Ends.hyps(3) show ?case
  proof (cases rule: handshake_cases)
    case (3 rest peer)
    then show ?thesis using Ends.IH verify_proved [OF 3(2) assms(2,3)] by auto
  qed (use Ends.IH in auto)
next
  case (Taken e x y)
  then show ?case by (auto simp: Accept_def split: if_splits)
qed auto

lemma first_admitted:
  "admit c (TCPAddr [127, 0, 0, 2]) NilAddr t (newChannelListener 0 30000)
   = (\<lparr>pc_conn = c, pc_accepted = t, pc_source = localSource, pc_local = True, pc_firstByteBy = None\<rparr>, [],
      (newChannelListener 0 30000)\<lparr>cl_bySource := (\<lambda>_. None)(localSource := Some 1),
        cl_pending := [\<lparr>pc_conn = c, pc_accepted = t, pc_source = localSource, pc_local = True, pc_firstByteBy = None\<rparr>]\<rparr>)"
proof -
  have src: "sourceOf (TCPAddr [127, 0, 0, 2]) NilAddr = (localSource, True)" by code_simp
  show ?thesis
    by (simp add: admit_def src room_in_source.simps room_in_entry.simps newChannelListener_def source_count_def
        maxPendingChannels_def no_shed_def Let_def)
qed

lemma one_arrived:
  "\<exists>e p. entry_run hp bx serverKey 0 30000 e \<and> cl_pending (en_l e) = [p] \<and> pc_source p = localSource \<and> pc_conn p = 7
    \<and> en_hands e = {p} \<and> en_seen e = {7} \<and> en_served e = {} \<and> \<not> cl_closed (en_l e)"
proof -
  let ?l = "newChannelListener 0 30000"
  let ?s = "\<lparr>en_l = ?l, en_hands = {}, en_closed = {}, en_ready = {}, en_served = {}, en_cut = [], en_warned = [], en_seen = {}\<rparr>"
  obtain p gone l' where a: "admit 7 (TCPAddr [127, 0, 0, 2]) NilAddr 1000 ?l = (p, gone, l')" by (metis prod_cases3)
  then have p: "p = \<lparr>pc_conn = 7, pc_accepted = 1000, pc_source = localSource, pc_local = True, pc_firstByteBy = None\<rparr>" "cl_pending l' = [p]" "\<not> cl_closed l'"
    unfolding first_admitted by (auto simp: newChannelListener_def)
  have "entry_run hp bx serverKey 0 30000 (?s\<lparr>en_l := l', en_hands := insert p (en_hands ?s), en_closed := en_closed ?s \<union> set gone,
      en_cut := en_cut ?s @ gone, en_seen := insert 7 (en_seen ?s)\<rparr>)"
    by (rule Arrive [OF Start, where remote = "TCPAddr [127, 0, 0, 2]" and here = NilAddr and t = 1000])
      (use a in \<open>simp_all add: newChannelListener_def\<close>)
  then show ?thesis by (intro exI conjI, assumption) (use p in simp_all)
qed

section \<open>What the entry promises\<close>

text \<open>
  C16. In every interleaving the entry holds at most 256 handshakes, of one source at most eight and of
  this machine at most sixty-four; its counts by source are exact. Every handshake that was cut
  is counted once, in a warning or in the next one, which has its timer; and while the listener is
  open its warnings are a minute apart.
\<close>

theorem entry_bounded:
  assumes "entry_run hp bx serverKey zero_time budget e"
  shows "length (cl_pending (en_l e)) \<le> 256
    \<and> length (from_source s (cl_pending (en_l e))) \<le> (if s = localSource then 64 else 8)
    \<and> source_count (en_l e) s = int (length (from_source s (cl_pending (en_l e))))
    \<and> length (en_cut e) = total (cl_shed (en_l e)) + sum_list (map (total \<circ> snd) (en_warned e))
    \<and> (cl_shed (en_l e) = no_shed \<or> cl_shedFlush (en_l e) \<noteq> None)
    \<and> (cl_closed (en_l e) \<or> sorted_wrt (\<lambda>a b. fst b + 60000 \<le> fst a) (en_warned e))"
proof -
  note ok = entry_run_ok [OF assms] and w = entry_run_warnings [OF assms]
  have lim: "cl_maxPending (en_l e) = 256" "share_of (en_l e) s = (if s = localSource then 64 else 8)"
    using ok by (simp_all add: limits_set_def share_of_def)
  have "int (length (cl_pending (en_l e))) \<le> cl_maxPending (en_l e)" "int (length (from_source s (cl_pending (en_l e)))) \<le> share_of (en_l e) s"
    using ok by (simp_all add: entry_ok_def)
  then show ?thesis using w source_count_ok ok lim by (auto simp: warnings_ok_def)
qed

theorem entry_bounded_witness:
  "\<exists>e. entry_run sample_parsers sample_box ''server'' 0 30000 e \<and> length (cl_pending (en_l e)) = 1 \<and> source_count (en_l e) localSource = 1"
proof -
  obtain e p where e: "entry_run sample_parsers sample_box ''server'' 0 30000 e" "cl_pending (en_l e) = [p]" "pc_source p = localSource"
    using one_arrived by blast
  from entry_bounded [OF e(1), of localSource] e(2,3) show ?thesis by (intro exI [of _ e]) (simp add: e(1) from_source_def)
qed

text \<open>
  C17. Every newcomer gets a place, whatever the entry holds. When its source is at its share the oldest
  handshake of that source is cut, else when the entry is full the oldest of all, else nobody;
  the others keep their places and their order.
\<close>

theorem entry_makes_room:
  assumes "entry_run hp bx serverKey zero_time budget e" and "c \<notin> en_seen e" and "admit c remote here t (en_l e) = (p, gone, l')"
  shows "let ps = cl_pending (en_l e); s = fst (sourceOf remote here); own = from_source s ps
    in pc_conn p = c \<and> pc_source p = s
     \<and> gone = (if length own = (if s = localSource then 64 else 8) then [pc_conn (hd own)]
               else if length ps = 256 then [pc_conn (hd ps)] else [])
     \<and> cl_pending l' = filter (\<lambda>q. pc_conn q \<notin> set gone) ps @ [p]"
proof -
  note ok = entry_run_ok [OF assms(1)]
  let ?l = "en_l e" and ?s = "fst (sourceOf remote here)"
  have conns: "pc_conn ` set (cl_pending ?l) \<subseteq> en_seen e" "distinct (map pc_conn (cl_pending ?l))"
  proof -
    have "set (cl_pending ?l) \<subseteq> en_hands e" "pc_conn ` en_hands e \<subseteq> en_seen e" "entry_ok ?l"
      using ok by (simp_all only: conns_ok_def)
    then show "pc_conn ` set (cl_pending ?l) \<subseteq> en_seen e" "distinct (map pc_conn (cl_pending ?l))"
      by (blast dest: image_mono, simp add: entry_ok_def)
  qed
  have spec: "p = newcomer c remote here t ?l \<and> pc_conn p = c \<and> gone = (case victim (pc_source p) ?l of None \<Rightarrow> [] | Some v \<Rightarrow> [pc_conn v])
      \<and> cl_pending l' = (case victim (pc_source p) ?l of None \<Rightarrow> cl_pending ?l | Some v \<Rightarrow> remove1 v (cl_pending ?l)) @ [p]"
    using admit_ok [OF conjunct1 [OF ok] assms(3)] conns(1) assms(2) by blast
  have s: "pc_source p = ?s" using spec by (simp add: newcomer_def split: prod.splits)
  have lim: "cl_maxPending ?l = 256" "share_of ?l ?s = (if ?s = localSource then 64 else 8)" using ok by (simp_all add: limits_set_def share_of_def)
  have le: "int (length (cl_pending ?l)) \<le> 256" "int (length (from_source ?s (cl_pending ?l))) \<le> (if ?s = localSource then 64 else 8)"
    using ok lim by (metis entry_ok_def)+
  have v: "victim ?s ?l = (if length (from_source ?s (cl_pending ?l)) = (if ?s = localSource then 64 else 8) then Some (hd (from_source ?s (cl_pending ?l)))
      else if length (cl_pending ?l) = 256 then Some (hd (cl_pending ?l)) else None)"
    using le unfolding victim_def lim by (auto split: if_splits)
  have keep: "remove1 x (cl_pending ?l) = filter (\<lambda>q. pc_conn q \<notin> set [pc_conn x]) (cl_pending ?l)" if "x \<in> set (cl_pending ?l)" for x
    using conns(2) that by (subst distinct_remove1_removeAll) (auto simp: distinct_map removeAll_filter_not_eq inj_on_def intro: filter_cong)
  have kept: "cl_pending l' = filter (\<lambda>q. pc_conn q \<notin> set gone) (cl_pending ?l) @ [p]"
    using spec s keep victim_pending [OF conjunct1 [OF ok]] by (cases "victim ?s ?l") auto
  have cut_now: "gone = (if length (from_source ?s (cl_pending ?l)) = (if ?s = localSource then 64 else 8) then [pc_conn (hd (from_source ?s (cl_pending ?l)))]
               else if length (cl_pending ?l) = 256 then [pc_conn (hd (cl_pending ?l))] else [])"
    using spec v unfolding s by simp
  have c: "pc_conn p = c" using spec by blast
  show ?thesis unfolding Let_def by (intro conjI) (fact c s cut_now kept)+
qed

theorem entry_makes_room_witness:
  "\<exists>p gone l'. admit 8 (TCPAddr [10, 0, 0, 2]) NilAddr 5 (newChannelListener 0 30000) = (p, gone, l') \<and> gone = [] \<and> cl_pending l' = [p]"
proof -
  obtain p gone l' where a: "admit 8 (TCPAddr [10, 0, 0, 2]) NilAddr 5 (newChannelListener 0 30000) = (p, gone, l')" by (metis prod_cases3)
  have "gone = [] \<and> cl_pending l' = [p]"
    using entry_makes_room [where c = 8 and zero_time = 0 and budget = 30000, OF Start _, simplified, OF a]
    by (simp add: Let_def newChannelListener_def from_source_def split: if_splits)
  then show ?thesis using a by blast
qed

text \<open>
  C18. A flood from one source, however long, costs the handshakes of all others no more places than the
  source had free in its share when the flood began.
\<close>

theorem one_source_floods_itself:
  assumes "entry_run hp bx serverKey zero_time budget e" and "distinct (map fst as)" and "fst ` set as \<inter> en_seen e = {}"
    and "\<forall>(c, remote, here, t) \<in> set as. fst (sourceOf remote here) = s"
  shows "length (filter (\<lambda>p. pc_source p \<noteq> s) (cl_pending (en_l e)))
    \<le> length (filter (\<lambda>p. pc_source p \<noteq> s) (cl_pending (flood as (en_l e))))
      + ((if s = localSource then 64 else 8) - length (from_source s (cl_pending (en_l e))))"
proof -
  note ok = entry_run_ok [OF assms(1)]
  have "pc_conn ` set (cl_pending (en_l e)) \<subseteq> en_seen e" using ok by (auto simp: conns_ok_def)
  then have apart: "fst ` set as \<inter> pc_conn ` set (cl_pending (en_l e)) = {}" using assms(3) by blast
  have free: "nat (64 - int n) = 64 - n" "nat (8 - int n) = 8 - n" for n by arith+
  have "free_in s (en_l e) = (if s = localSource then 64 else 8) - length (from_source s (cl_pending (en_l e)))"
    using ok free by (simp add: free_in_def share_of_def limits_set_def)
  then show ?thesis using flood_spares [OF conjunct1 [OF ok] assms(2) apart assms(4)] by (simp add: others_def)
qed

theorem one_source_floods_itself_witness:
  "\<exists>e. entry_run sample_parsers sample_box ''server'' 0 30000 e
    \<and> 1 \<le> length (filter (\<lambda>p. pc_source p \<noteq> ''10.0.0.2'') (cl_pending (flood [(8, TCPAddr [10, 0, 0, 2], NilAddr, 5)] (en_l e)))) + 8"
proof -
  obtain e p where e: "entry_run sample_parsers sample_box ''server'' 0 30000 e" "cl_pending (en_l e) = [p]" "pc_source p = localSource" "en_seen e = {7}"
    using one_arrived by blast
  have src: "fst (sourceOf (TCPAddr [10, 0, 0, 2]) NilAddr) = ''10.0.0.2''" by code_simp
  have "localSource \<noteq> ''10.0.0.2''" by (simp add: localSource_def)
  with one_source_floods_itself [OF e(1), of "[(8, TCPAddr [10, 0, 0, 2], NilAddr, 5)]" "''10.0.0.2''"] e src show ?thesis
    by (intro exI [of _ e]) (simp add: from_source_def)
qed

text \<open>
  C13. Only connections that proved a key reach the HTTP server: each one it was handed carries a key
  whose signature over a challenge of this server held; it was never cut, was not closed, and it
  is no longer among the handshakes.
\<close>

theorem only_proved_served:
  assumes "entry_run hp bx serverKey zero_time budget e" and "keeps_to_text hp" and "box_errors bx" and "(c, peer) \<in> en_served e"
  shows "(\<exists>rnd ours serverPublic sig. bx_GetChallenge bx serverKey rnd = Inr (ours, serverPublic) \<and> bx_CheckSignature bx (cp_key peer) ours sig = Inr True)
    \<and> c \<notin> set (en_cut e) \<and> c \<notin> en_closed e \<and> c \<notin> pc_conn ` en_hands e"
proof -
  have ok: "conns_ok e" using entry_run_ok [OF assms(1)] by blast
  have "c \<in> fst ` (en_ready e \<union> en_served e)" using assms(4) by force
  then have "c \<in> en_seen e - pc_conn ` en_hands e - en_closed e" using ok by (auto simp: conns_ok_def)
  moreover have "set (en_cut e) \<subseteq> en_closed e" using ok by (simp add: conns_ok_def)
  moreover have "proved bx serverKey peer" using entry_run_proved [OF assms(1-3)] assms(4) by force
  ultimately show ?thesis by (auto simp: proved_def)
qed

theorem only_proved_served_witness:
  "\<exists>e. entry_run sample_parsers sample_box ''server'' 0 30000 e \<and> (7, \<lparr>cp_key = sample_pub ''device''\<rparr>) \<in> en_served e
    \<and> 7 \<notin> en_closed e
    \<and> (\<exists>rnd ours serverPublic sig. bx_GetChallenge sample_box ''server'' rnd = Inr (ours, serverPublic)
        \<and> bx_CheckSignature sample_box (sample_pub ''device'') ours sig = Inr True)"
proof -
  obtain e p where e: "entry_run sample_parsers sample_box ''server'' 0 30000 e" "cl_pending (en_l e) = [p]" "pc_conn p = 7" "en_hands e = {p}"
      "\<not> cl_closed (en_l e)"
    using one_arrived by blast
  obtain c rest d where r: "respond sample_parsers sample_box ''server'' ''r1'' 0 c = (Inr (sample_pub ''device'', rest), d)"
    using halves_run [OF sample_reads(1) _ sample_signs(1), of "''server''" "''r1''" 0 "''''" "''device''" "''r2''" 0 "''''"] by auto
  have v: "verify True \<lparr>cx_ended = False, cx_left = True, cx_past = False\<rparr> sample_parsers sample_box ''server'' ''r1'' 0 True c = Inr (rest, sample_pub ''device'')"
    by (simp add: verify_def Respond_def settle_def r)
  let ?peer = "\<lparr>cp_key = sample_pub ''device''\<rparr>"
  have h: "handshake p (Inr (rest, sample_pub ''device'')) (en_l e) = (ReadyFor ?peer, forgetLocked p (en_l e))"
    by (simp add: handshake_def leave_def e(2))
  let ?e1 = "e\<lparr>en_l := forgetLocked p (en_l e), en_hands := {}, en_ready := insert (7, ?peer) (en_ready e)\<rparr>"
  have "entry_run sample_parsers sample_box ''server'' 0 30000 ?e1"
    using Ends [OF e(1), of p True "\<lparr>cx_ended = False, cx_left = True, cx_past = False\<rparr>" "''r1''" 0 True c] h by (simp add: v e(3,4))
  then obtain e2 where e2: "entry_run sample_parsers sample_box ''server'' 0 30000 e2" "(7, ?peer) \<in> en_served e2"
    using Taken [of sample_parsers sample_box "''server''" 0 30000 ?e1 "(7, ?peer)" "Some (7, ?peer)"] e(5) by (fastforce simp: Accept_def)
  with only_proved_served [OF e2(1) sample_reads(2) sample_signs(2) e2(2)] show ?thesis by (intro exI [of _ e2]) auto
qed

end
