(* ===== verification/Vault.thy ===== *)
theory Vault
  imports Disk_Rules Go_Json "HOL-Library.Word"
begin

text \<open>
  \<open>internal/vault/vault.go\<close>: the key file, which holds the server's data key sealed under the
  owner's password. Argon2id and XChaCha20-Poly1305 are parameters; the text of the key file, its
  checks and every system call are modelled, each of which may fail or be the last one.
\<close>

section \<open>Sizes, bounds and errors\<close>

definition KeySize :: nat where "KeySize = 32"
definition MinPasswordChars :: nat where "MinPasswordChars = 12"
definition fileVersion :: int where "fileVersion = 1"
definition kdfName :: string where "kdfName = ''argon2id''"
definition saltSize :: nat where "saltSize = 16"
definition sealedAAD :: string where "sealedAAD = ''nox/datakey/v1''"
definition maxKeyFileBytes :: nat where "maxKeyFileBytes = 65536"
definition maxMemoryKiB :: "32 word" where "maxMemoryKiB = 1048576"
definition maxIterations :: "32 word" where "maxIterations = 64"
definition maxParallelism :: "8 word" where "maxParallelism = 64"

text \<open>\<open>chacha20poly1305.KeySize\<close>, \<open>NonceSizeX\<close> and \<open>Overhead\<close>.\<close>

definition aeadKeySize :: nat where "aeadKeySize = 32"
definition NonceSizeX :: nat where "NonceSizeX = 24"
definition Overhead :: nat where "Overhead = 16"

datatype vault_err = ErrWrongPassword | ErrShortPassword | ErrExists | ErrMalformed | ErrRand | ErrCipher | ErrIO blob_err

record Params =
  MemoryKiB :: "32 word"
  Iterations :: "32 word"
  Parallelism :: "8 word"

definition DefaultParams :: Params where
  "DefaultParams = \<lparr>MemoryKiB = 65536, Iterations = 3, Parallelism = 4\<rparr>"

record keyFile =
  kf_Version :: int
  kf_KDF :: string
  kf_MemoryKiB :: "32 word"
  kf_Iterations :: "32 word"
  kf_Parallelism :: "8 word"
  kf_Salt :: string
  kf_Nonce :: string
  kf_Sealed :: string

definition kf_params :: "keyFile \<Rightarrow> Params" where
  "kf_params kf = \<lparr>MemoryKiB = kf_MemoryKiB kf, Iterations = kf_Iterations kf, Parallelism = kf_Parallelism kf\<rparr>"

text \<open>
  \<open>argon2.IDKey\<close> of a password, a salt, the passes, the memory and the lanes; the AEAD of a key: its
  nonce, the text and what is bound to it; \<open>unicode.SimpleFold\<close>.
\<close>

record seal_lib =
  sl_IDKey :: "string \<Rightarrow> string \<Rightarrow> 32 word \<Rightarrow> 32 word \<Rightarrow> 8 word \<Rightarrow> string"
  sl_Seal :: "string \<Rightarrow> string \<Rightarrow> string \<Rightarrow> string \<Rightarrow> string"
  sl_Open :: "string \<Rightarrow> string \<Rightarrow> string \<Rightarrow> string \<Rightarrow> string option"
  sl_fold :: "rune \<Rightarrow> rune"

section \<open>Passwords and costs\<close>

definition CheckPassword :: "string \<Rightarrow> vault_err option" where
  "CheckPassword p = (if RuneCountInString p < MinPasswordChars \<or> TrimSpace p = '''' then Some ErrShortPassword else None)"

definition check :: "Params \<Rightarrow> vault_err option" where
  "check p =
     (if Parallelism p < 1 \<or> Parallelism p > maxParallelism
       \<or> Iterations p < 1 \<or> Iterations p > maxIterations
       \<or> MemoryKiB p < 8 * ucast (Parallelism p) \<or> MemoryKiB p > maxMemoryKiB
      then Some ErrMalformed else None)"

definition derive :: "seal_lib \<Rightarrow> string \<Rightarrow> string \<Rightarrow> Params \<Rightarrow> string" where
  "derive L password salt p = sl_IDKey L password salt (Iterations p) (MemoryKiB p) (Parallelism p)"

section \<open>The key file's text\<close>

definition marshal_keyFile :: "keyFile \<Rightarrow> string" where
  "marshal_keyFile kf =
     ''{'' @ num_member ''version'' (nat (kf_Version kf)) @ '','' @ member ''kdf'' (kf_KDF kf)
     @ '','' @ num_member ''memory_kib'' (unat (kf_MemoryKiB kf)) @ '','' @ num_member ''iterations'' (unat (kf_Iterations kf))
     @ '','' @ num_member ''parallelism'' (unat (kf_Parallelism kf)) @ '','' @ member ''salt'' (EncodeToString Std (kf_Salt kf))
     @ '','' @ member ''nonce'' (EncodeToString Std (kf_Nonce kf)) @ '','' @ member ''sealed'' (EncodeToString Std (kf_Sealed kf)) @ ''}''"

text \<open>A Go integer of \<open>w\<close> bits without sign.\<close>

fun dec_uint :: "nat \<Rightarrow> int \<Rightarrow> json list \<Rightarrow> int option" where
  "dec_uint w n [] = Some n"
| "dec_uint w n (JInt m # vs) = (if 0 \<le> m \<and> m < 2 ^ w then dec_uint w m vs else None)"
| "dec_uint w n (JNull # vs) = dec_uint w n vs"
| "dec_uint w n (_ # vs) = None"

text \<open>A \<open>[]byte\<close>: base64, or an array of numbers, where \<open>null\<close> leaves what was there.\<close>

fun dec_elems :: "string \<Rightarrow> json list \<Rightarrow> string option" where
  "dec_elems old [] = Some ''''"
| "dec_elems old (JInt m # vs) =
     (if 0 \<le> m \<and> m < 256 then map_option ((#) (char_of (nat m))) (dec_elems (drop 1 old) vs) else None)"
| "dec_elems old (JNull # vs) = map_option ((#) (if old = '''' then char_of (0::nat) else hd old)) (dec_elems (drop 1 old) vs)"
| "dec_elems old (_ # vs) = None"

fun dec_bytes :: "string \<Rightarrow> json list \<Rightarrow> string option" where
  "dec_bytes s [] = Some s"
| "dec_bytes s (JStr t # vs) = (case DecodeString Std t of None \<Rightarrow> None | Some b \<Rightarrow> dec_bytes b vs)"
| "dec_bytes s (JArr xs # vs) = (case dec_elems s xs of None \<Rightarrow> None | Some b \<Rightarrow> dec_bytes b vs)"
| "dec_bytes s (JNull # vs) = dec_bytes '''' vs"
| "dec_bytes s (_ # vs) = None"

definition unmarshal_keyFile :: "seal_lib \<Rightarrow> string \<Rightarrow> keyFile option" where
  "unmarshal_keyFile L data =
     Option.bind (Option.bind (parse_json data) members) (\<lambda>kvs.
       let vals = (\<lambda>name. field_vals (sl_fold L) name kvs)
       in case (dec_int64 0 (vals ''version''), dec_string '''' (vals ''kdf''), dec_uint 32 0 (vals ''memory_kib''),
                dec_uint 32 0 (vals ''iterations''), dec_uint 8 0 (vals ''parallelism''), dec_bytes '''' (vals ''salt''),
                dec_bytes '''' (vals ''nonce''), dec_bytes '''' (vals ''sealed'')) of
            (Some v, Some k, Some m, Some i, Some p, Some s, Some n, Some c) \<Rightarrow>
              Some \<lparr>kf_Version = v, kf_KDF = k, kf_MemoryKiB = word_of_int m, kf_Iterations = word_of_int i,
                    kf_Parallelism = word_of_int p, kf_Salt = s, kf_Nonce = n, kf_Sealed = c\<rparr>
          | _ \<Rightarrow> None)"

definition parse_keyFile :: "seal_lib \<Rightarrow> string \<Rightarrow> vault_err + keyFile" where
  "parse_keyFile L data =
     (if length data > maxKeyFileBytes then Inl ErrMalformed
      else case unmarshal_keyFile L data of
             None \<Rightarrow> Inl ErrMalformed
           | Some kf \<Rightarrow>
               if kf_Version kf \<noteq> fileVersion \<or> kf_KDF kf \<noteq> kdfName then Inl ErrMalformed
               else case check (kf_params kf) of
                      Some e \<Rightarrow> Inl e
                    | None \<Rightarrow>
                        if length (kf_Salt kf) \<noteq> saltSize \<or> length (kf_Nonce kf) \<noteq> NonceSizeX
                          \<or> length (kf_Sealed kf) \<noteq> KeySize + Overhead
                        then Inl ErrMalformed else Inr kf)"

definition Validate :: "seal_lib \<Rightarrow> string \<Rightarrow> vault_err option" where
  "Validate L data = (case parse_keyFile L data of Inl e \<Rightarrow> Some e | Inr _ \<Rightarrow> None)"

section \<open>Sealing and opening\<close>

text \<open>\<open>NewX\<close> takes a key of its size only.\<close>

definition Unseal :: "seal_lib \<Rightarrow> string \<Rightarrow> string \<Rightarrow> vault_err + string" where
  "Unseal L data password =
     (case parse_keyFile L data of
        Inl e \<Rightarrow> Inl e
      | Inr kf \<Rightarrow>
          let kek = derive L password (kf_Salt kf) (kf_params kf)
          in if length kek \<noteq> aeadKeySize then Inl ErrCipher
             else case sl_Open L kek (kf_Nonce kf) (kf_Sealed kf) sealedAAD of
                    None \<Rightarrow> Inl ErrWrongPassword
                  | Some key \<Rightarrow> Inr key)"

text \<open>What \<open>rand.Read\<close> gives, \<open>None\<close> when it fails.\<close>

record draws =
  dr_key :: "string option"
  dr_salt :: "string option"
  dr_nonce :: "string option"

definition seal :: "seal_lib \<Rightarrow> string \<Rightarrow> string \<Rightarrow> Params \<Rightarrow> draws \<Rightarrow> vault_err + string" where
  "seal L key password params rnd =
     (case check params of
        Some e \<Rightarrow> Inl e
      | None \<Rightarrow>
          (case dr_salt rnd of
             None \<Rightarrow> Inl ErrRand
           | Some salt \<Rightarrow>
               let kek = derive L password salt params
               in if length kek \<noteq> aeadKeySize then Inl ErrCipher
                  else case dr_nonce rnd of
                         None \<Rightarrow> Inl ErrRand
                       | Some nonce \<Rightarrow>
                           Inr (marshal_keyFile \<lparr>kf_Version = fileVersion, kf_KDF = kdfName, kf_MemoryKiB = MemoryKiB params,
                             kf_Iterations = Iterations params, kf_Parallelism = Parallelism params, kf_Salt = salt,
                             kf_Nonce = nonce, kf_Sealed = sl_Seal L kek nonce key sealedAAD\<rparr>)))"

section \<open>The key file on disk\<close>

definition vault_ReadFile :: "string \<Rightarrow> (vault_err + string) fs" where
  "vault_ReadFile path =
     andThen (attempt (fs_Open path)) (\<lambda>opened.
       case opened of
         Inl e \<Rightarrow> ret (Inl (ErrIO e))
       | Inr _ \<Rightarrow>
           andThen (attempt (fs_ReadFile path)) (\<lambda>got.
             ignoring (fs_Close path)
               (ret (case got of
                       Inl e \<Rightarrow> Inl (ErrIO e)
                     | Inr bytes \<Rightarrow>
                         let data = take (maxKeyFileBytes + 1) bytes
                         in if length data > maxKeyFileBytes then Inl ErrMalformed else Inr data))))"

definition SyncDir :: "bool \<Rightarrow> (vault_err + unit) fs" where
  "SyncDir windows =
     (if windows then ret (Inr ())
      else andThen (attempt fs_OpenDir) (\<lambda>opened.
        case opened of
          Inl e \<Rightarrow> ret (Inl (ErrIO e))
        | Inr _ \<Rightarrow>
            andThen (attempt fs_SyncDir) (\<lambda>flushed.
              ignoring fs_CloseDir
                (ret (case flushed of Inl e \<Rightarrow> Inl (ErrIO e) | Inr _ \<Rightarrow> Inr ())))))"

definition tmp_name :: "string \<Rightarrow> string" where
  "tmp_name path = path @ ''.tmp''"

definition give_up :: "string \<Rightarrow> blob_err \<Rightarrow> (vault_err + unit) fs" where
  "give_up path e = ignoring (fs_Remove (tmp_name path)) (ret (Inl (ErrIO e)))"

definition WriteFile :: "bool \<Rightarrow> string \<Rightarrow> string \<Rightarrow> (vault_err + unit) fs" where
  "WriteFile windows path data =
     andThen (attempt (fs_OpenFile (tmp_name path) True)) (\<lambda>opened.
       case opened of
         Inl e \<Rightarrow> ret (Inl (ErrIO e))
       | Inr _ \<Rightarrow>
           andThen (fs_Write (tmp_name path) 0 data) (\<lambda>(n, all).
             if \<not> all then ignoring (fs_Close (tmp_name path)) (give_up path ErrDisk)
             else andThen (attempt (fs_Sync (tmp_name path))) (\<lambda>flushed.
               case flushed of
                 Inl e \<Rightarrow> ignoring (fs_Close (tmp_name path)) (give_up path e)
               | Inr _ \<Rightarrow>
                   andThen (attempt (fs_Close (tmp_name path))) (\<lambda>shut.
                     case shut of
                       Inl e \<Rightarrow> give_up path e
                     | Inr _ \<Rightarrow>
                         andThen (attempt (fs_Rename (tmp_name path) path)) (\<lambda>moved.
                           case moved of Inl e \<Rightarrow> give_up path e | Inr _ \<Rightarrow> SyncDir windows)))))"

definition vault_Create :: "seal_lib \<Rightarrow> bool \<Rightarrow> draws \<Rightarrow> string \<Rightarrow> string \<Rightarrow> Params \<Rightarrow> (vault_err + string) fs" where
  "vault_Create L windows rnd path password params =
     (case CheckPassword password of
        Some e \<Rightarrow> ret (Inl e)
      | None \<Rightarrow>
          andThen (attempt (fs_Stat path)) (\<lambda>there.
            case there of
              Inr _ \<Rightarrow> ret (Inl ErrExists)
            | Inl e \<Rightarrow>
                if e \<noteq> ErrNotExist then ret (Inl (ErrIO e))
                else case dr_key rnd of
                       None \<Rightarrow> ret (Inl ErrRand)
                     | Some key \<Rightarrow>
                         (case seal L key password params rnd of
                            Inl e \<Rightarrow> ret (Inl e)
                          | Inr data \<Rightarrow>
                              andThen (WriteFile windows path data) (\<lambda>written.
                                ret (case written of Inl e \<Rightarrow> Inl e | Inr _ \<Rightarrow> Inr key)))))"

definition vault_Open :: "seal_lib \<Rightarrow> string \<Rightarrow> string \<Rightarrow> (vault_err + string) fs" where
  "vault_Open L path password =
     andThen (vault_ReadFile path) (\<lambda>r. ret (case r of Inl e \<Rightarrow> Inl e | Inr data \<Rightarrow> Unseal L data password))"

definition Change :: "seal_lib \<Rightarrow> bool \<Rightarrow> draws \<Rightarrow> string \<Rightarrow> string \<Rightarrow> string \<Rightarrow> Params \<Rightarrow> (vault_err + unit) fs" where
  "Change L windows rnd path current next params =
     (case CheckPassword next of
        Some e \<Rightarrow> ret (Inl e)
      | None \<Rightarrow>
          andThen (vault_ReadFile path) (\<lambda>r.
            case r of
              Inl e \<Rightarrow> ret (Inl e)
            | Inr data \<Rightarrow>
                (case Unseal L data current of
                   Inl e \<Rightarrow> ret (Inl e)
                 | Inr key \<Rightarrow>
                     (case seal L key next params rnd of
                        Inl e \<Rightarrow> ret (Inl e)
                      | Inr resealed \<Rightarrow> WriteFile windows path resealed))))"

end
