(* ===== verification/Gate.thy ===== *)
theory Gate
  imports Channel Vault
begin

text \<open>
  \<open>internal/server/gate.go\<close>: the lock a server starts behind and the requests that touch its key file,
  served one at a time; and the service page's answers to the commands and the password forms.
  The disk is the one the key file lies on, the database's file is a name on it. What a backup
  comes to and what the open server's own page answers are parameters.
\<close>

section \<open>States, codes and requests\<close>

datatype lockState = stateSetup | stateLocked | stateOpening | stateOpen

definition state_name :: "lockState \<Rightarrow> string" where
  "state_name s = (case s of stateSetup \<Rightarrow> ''setup'' | stateOpen \<Rightarrow> ''open'' | _ \<Rightarrow> ''locked'')"

definition codeWrong :: string where "codeWrong = ''wrong''"
definition codeShort :: string where "codeShort = ''short''"
definition codeMismatch :: string where "codeMismatch = ''mismatch''"
definition codeState :: string where "codeState = ''state''"
definition codePath :: string where "codePath = ''path''"
definition gate_codeInternal :: string where "gate_codeInternal = ''internal''"

datatype requestKind = reqSetup | reqUnlock | reqOpen | reqChange | reqBackup

record gateRequest =
  gq_kind :: requestKind
  gq_password :: string
  gq_repeat :: string
  gq_current :: string
  gq_path :: string

record gateReply =
  gp_code :: string
  gp_message :: string

record gate =
  ga_dbPath :: string
  ga_keyPath :: string
  ga_kdf :: Params
  ga_formToken :: string
  ga_state :: lockState
  ga_srv :: bool

definition newGate :: "string \<Rightarrow> string \<Rightarrow> lockState \<Rightarrow> Params \<Rightarrow> string \<Rightarrow> gate" where
  "newGate dbPath keyPath state kdf formToken =
     \<lparr>ga_dbPath = dbPath, ga_keyPath = keyPath, ga_kdf = kdf, ga_formToken = formToken, ga_state = state, ga_srv = False\<rparr>"

definition opened_gate :: "gate \<Rightarrow> gate" where
  "opened_gate g = g\<lparr>ga_srv := True, ga_state := stateOpen\<rparr>"

section \<open>What the disk says\<close>

datatype lock_err = LookFailed blob_err | NoKeyFile | NoDatabase

definition present :: "string \<Rightarrow> (lock_err + bool) fs" where
  "present path =
     andThen (attempt (fs_Stat path)) (\<lambda>r.
       ret (case r of Inr _ \<Rightarrow> Inr True | Inl e \<Rightarrow> if e = ErrNotExist then Inr False else Inl (LookFailed e)))"

definition detectLock :: "string \<Rightarrow> string \<Rightarrow> (lock_err + lockState) fs" where
  "detectLock dbPath keyPath =
     andThen (present dbPath) (\<lambda>hasDB.
       case hasDB of
         Inl e \<Rightarrow> ret (Inl e)
       | Inr hasDB \<Rightarrow>
           andThen (present keyPath) (\<lambda>hasKey.
             case hasKey of
               Inl e \<Rightarrow> ret (Inl e)
             | Inr hasKey \<Rightarrow>
                 ret (if \<not> hasDB \<and> \<not> hasKey then Inr stateSetup
                      else if hasDB \<and> hasKey then Inr stateLocked
                      else if hasDB then Inl NoKeyFile else Inl NoDatabase)))"

section \<open>One request\<close>

text \<open>What a request comes to: its answer, or the data key, which whoever opens the data answers.\<close>

datatype served = Answered gateReply | DataKey string

definition answer_with :: "string \<Rightarrow> string \<Rightarrow> gate \<Rightarrow> (served \<times> gate) fs" where
  "answer_with code message g = ret (Answered \<lparr>gp_code = code, gp_message = message\<rparr>, g)"

definition gate_setup :: "seal_lib \<Rightarrow> bool \<Rightarrow> draws \<Rightarrow> gateRequest \<Rightarrow> gate \<Rightarrow> (served \<times> gate) fs" where
  "gate_setup L w rnd req g =
     (if CheckPassword (gq_password req) \<noteq> None then answer_with codeShort '''' g
      else if gq_repeat req \<noteq> gq_password req then answer_with codeMismatch '''' g
      else andThen (detectLock (ga_dbPath g) (ga_keyPath g)) (\<lambda>r.
        case r of
          Inl _ \<Rightarrow> answer_with codeState '''' g
        | Inr state \<Rightarrow>
            if state \<noteq> stateSetup then answer_with codeState '''' (g\<lparr>ga_state := state\<rparr>)
            else andThen (vault_Create L w rnd (ga_keyPath g) (gq_password req) (ga_kdf g)) (\<lambda>made.
              case made of
                Inr key \<Rightarrow> ret (DataKey key, g\<lparr>ga_state := stateOpening\<rparr>)
              | Inl e \<Rightarrow>
                  if e = ErrExists then answer_with codeState '''' g
                  else answer_with gate_codeInternal ''the server could not write its key file - see its log'' g)))"

definition unlock :: "seal_lib \<Rightarrow> gateRequest \<Rightarrow> gate \<Rightarrow> (served \<times> gate) fs" where
  "unlock L req g =
     andThen (vault_Open L (ga_keyPath g) (gq_password req)) (\<lambda>r.
       case r of
         Inr key \<Rightarrow> ret (DataKey key, g\<lparr>ga_state := stateOpening\<rparr>)
       | Inl e \<Rightarrow>
           if e = ErrWrongPassword then answer_with codeWrong '''' g
           else answer_with gate_codeInternal ''the server could not read its key file - see its log'' g)"

definition change :: "seal_lib \<Rightarrow> bool \<Rightarrow> draws \<Rightarrow> gateRequest \<Rightarrow> gate \<Rightarrow> (served \<times> gate) fs" where
  "change L w rnd req g =
     andThen (Change L w rnd (ga_keyPath g) (gq_current req) (gq_password req) (ga_kdf g)) (\<lambda>r.
       case r of
         Inl e \<Rightarrow>
           if e = ErrShortPassword then answer_with codeShort '''' g
           else if e = ErrWrongPassword then answer_with codeWrong '''' g
           else answer_with gate_codeInternal ''the server could not change its password - see its log'' g
       | Inr _ \<Rightarrow> answer_with '''' '''' g)"

datatype backup_end = BackupWritten | BackupPath string | BackupFailed string

definition backup :: "backup_end \<Rightarrow> gate \<Rightarrow> (served \<times> gate) fs" where
  "backup bk g =
     (case bk of
        BackupPath message \<Rightarrow> answer_with codePath message g
      | BackupFailed message \<Rightarrow> answer_with gate_codeInternal (''the backup was not written: '' @ message) g
      | BackupWritten \<Rightarrow> answer_with '''' '''' g)"

definition handle :: "seal_lib \<Rightarrow> bool \<Rightarrow> draws \<Rightarrow> backup_end \<Rightarrow> gateRequest \<Rightarrow> gate \<Rightarrow> (served \<times> gate) fs" where
  "handle L w rnd bk req g =
     (let state = ga_state g;
          kind = (if gq_kind req = reqOpen then (if state = stateSetup then reqSetup else reqUnlock) else gq_kind req)
      in case kind of
           reqSetup \<Rightarrow> if state \<noteq> stateSetup then answer_with codeState '''' g else gate_setup L w rnd req g
         | reqUnlock \<Rightarrow> if state \<noteq> stateLocked then answer_with codeState '''' g else unlock L req g
         | reqChange \<Rightarrow> if state \<noteq> stateOpen then answer_with codeState '''' g else change L w rnd req g
         | reqBackup \<Rightarrow> if state \<noteq> stateOpen \<or> \<not> ga_srv g then answer_with codeState '''' g else backup bk g
         | _ \<Rightarrow> answer_with codeState '''' g)"

text \<open>
  \<open>ask\<close>: whether the request was taken before it went away; the answer that is there when it goes
  away; for a password change, the one that comes within \<open>changeOutcomeWait\<close>.
\<close>

definition ask :: "requestKind \<Rightarrow> bool \<Rightarrow> gateReply option \<Rightarrow> gateReply option \<Rightarrow> gateReply option" where
  "ask kind taken in_time late =
     (if \<not> taken then None
      else case in_time of
             Some rep \<Rightarrow> Some rep
           | None \<Rightarrow> if kind = reqChange then late else None)"

section \<open>Requests of the service page\<close>

record page_request =
  pr_Method :: string
  pr_Path :: string
  pr_Host :: string
  pr_Control :: string
  pr_Origins :: "string list"
  pr_Form :: "(string \<Rightarrow> string) option"
  pr_Json :: "json option"

text \<open>
  \<open>pr_Form\<close> is \<open>PostForm.Get\<close> once \<open>ParseForm\<close> has read a body within its bound, \<open>pr_Json\<close> the value the
  decoder reads from a body within its own.
\<close>

definition EqualFold :: "(rune \<Rightarrow> rune) \<Rightarrow> string \<Rightarrow> string \<Rightarrow> bool" where
  "EqualFold sf s t \<longleftrightarrow> foldCase sf s = foldCase sf t"

definition localHost :: "(rune \<Rightarrow> rune) \<Rightarrow> string \<Rightarrow> bool" where
  "localHost sf host =
     (let name0 = (case SplitHostPort host of None \<Rightarrow> host | Some (h, _) \<Rightarrow> h);
          name1 = TrimSuffix (case CutPrefix name0 ''['' of None \<Rightarrow> name0 | Some t \<Rightarrow> t) '']'';
          name = TrimSuffix name1 ''.''
      in if EqualFold sf name ''localhost'' then True
         else case ParseIP name of None \<Rightarrow> False | Some ip \<Rightarrow> IsLoopback (Unmap ip))"

definition tokenMatches :: "string \<Rightarrow> string \<Rightarrow> bool" where
  "tokenMatches got want \<longleftrightarrow> want \<noteq> '''' \<and> got \<noteq> '''' \<and> got = want"

text \<open>\<open>Header.Get\<close> of a header that may be there several times.\<close>

definition first_of :: "string list \<Rightarrow> string" where
  "first_of vs = (if vs = [] then '''' else hd vs)"

definition formAllowed :: "(rune \<Rightarrow> rune) \<Rightarrow> page_request \<Rightarrow> string \<Rightarrow> bool" where
  "formAllowed sf r formToken \<longleftrightarrow>
     localHost sf (pr_Host r)
   \<and> first_of (pr_Origins r) \<noteq> '''' \<and> EqualFold sf (first_of (pr_Origins r)) (''http://'' @ pr_Host r)
   \<and> (case pr_Form r of None \<Rightarrow> False | Some form \<Rightarrow> tokenMatches (form ''token'') formToken)"

definition controlAllowed :: "(rune \<Rightarrow> rune) \<Rightarrow> page_request \<Rightarrow> bool" where
  "controlAllowed sf r \<longleftrightarrow> localHost sf (pr_Host r) \<and> pr_Control r = ''1'' \<and> pr_Origins r = []"

datatype control_body = StateIs string | ControlErr string string | EmptyObject

datatype page_answer =
    HttpError int string
  | Redirect string
  | ControlJSON int control_body
  | HealthJSON string
  | LockPage
  | PageNotFound
  | OpenPage

text \<open>A handler answers at once, or asks the gate and answers with what comes back.\<close>

datatype handled = AtOnce page_answer | Asks gateRequest "gateReply option \<Rightarrow> page_answer"

definition not_this_page :: page_answer where
  "not_this_page = HttpError 403 ''this form is only accepted from this page''"

definition not_a_command :: page_answer where
  "not_a_command = HttpError 403 ''this answers the noxd commands on this machine, and nothing else''"

definition not_this_machine :: page_answer where
  "not_this_machine = HttpError 403 ''this page is only served to this machine''"

definition bad_body :: page_answer where
  "bad_body = HttpError 400 ''the body is not the JSON this command sends''"

definition form_refusal :: "(rune \<Rightarrow> rune) \<Rightarrow> page_request \<Rightarrow> page_answer" where
  "form_refusal sf r = (if localHost sf (pr_Host r) then not_this_page else not_this_machine)"

definition answerControl :: "gateReply option \<Rightarrow> page_answer" where
  "answerControl rep =
     (case rep of
        None \<Rightarrow> ControlJSON 503 (ControlErr gate_codeInternal ''the server is stopping'')
      | Some rep \<Rightarrow>
          if gp_code rep = '''' then ControlJSON 200 EmptyObject
          else if gp_code rep = codeWrong then ControlJSON 403 (ControlErr codeWrong '''')
          else if gp_code rep = codeShort \<or> gp_code rep = codeMismatch \<or> gp_code rep = codePath
            then ControlJSON 400 (ControlErr (gp_code rep) (gp_message rep))
          else if gp_code rep = codeState then ControlJSON 409 (ControlErr codeState '''')
          else ControlJSON 500 (ControlErr gate_codeInternal (gp_message rep)))"

definition no_request :: "requestKind \<Rightarrow> gateRequest" where
  "no_request kind = \<lparr>gq_kind = kind, gq_password = '''', gq_repeat = '''', gq_current = '''', gq_path = ''''\<rparr>"

text \<open>The members of a command's body; \<open>None\<close> when it does not decode.\<close>

definition control_member :: "(rune \<Rightarrow> rune) \<Rightarrow> page_request \<Rightarrow> string \<Rightarrow> string option" where
  "control_member sf r name = Option.bind (Option.bind (pr_Json r) members) (\<lambda>kvs. dec_string '''' (field_vals sf name kvs))"

definition handleHealth :: "gate \<Rightarrow> page_answer" where
  "handleHealth g = HealthJSON (if ga_state g = stateOpen then ''ok'' else ''locked'')"

definition handleControlState :: "(rune \<Rightarrow> rune) \<Rightarrow> gate \<Rightarrow> page_request \<Rightarrow> page_answer" where
  "handleControlState sf g r = (if controlAllowed sf r then ControlJSON 200 (StateIs (state_name (ga_state g))) else not_a_command)"

definition handleControlUnlock :: "(rune \<Rightarrow> rune) \<Rightarrow> page_request \<Rightarrow> handled" where
  "handleControlUnlock sf r =
     (if \<not> controlAllowed sf r then AtOnce not_a_command
      else case (control_member sf r ''password'', control_member sf r ''repeat'') of
             (Some password, Some again) \<Rightarrow> Asks ((no_request reqOpen)\<lparr>gq_password := password, gq_repeat := again\<rparr>) answerControl
           | _ \<Rightarrow> AtOnce bad_body)"

definition handleControlPassword :: "(rune \<Rightarrow> rune) \<Rightarrow> page_request \<Rightarrow> handled" where
  "handleControlPassword sf r =
     (if \<not> controlAllowed sf r then AtOnce not_a_command
      else case (control_member sf r ''current'', control_member sf r ''password'') of
             (Some current, Some password) \<Rightarrow> Asks ((no_request reqChange)\<lparr>gq_current := current, gq_password := password\<rparr>) answerControl
           | _ \<Rightarrow> AtOnce bad_body)"

text \<open>\<open>filepath.IsAbs\<close> and \<open>filepath.Clean\<close> are those of the machine.\<close>

definition handleControlBackup :: "(string \<Rightarrow> bool) \<Rightarrow> (string \<Rightarrow> string) \<Rightarrow> (rune \<Rightarrow> rune) \<Rightarrow> page_request \<Rightarrow> handled" where
  "handleControlBackup IsAbs Clean sf r =
     (if \<not> controlAllowed sf r then AtOnce not_a_command
      else case control_member sf r ''path'' of
             None \<Rightarrow> AtOnce bad_body
           | Some path \<Rightarrow>
               if \<not> IsAbs path
               then AtOnce (ControlJSON 400 (ControlErr codePath ''the backup path must be absolute - a path on this machine, where the server writes it''))
               else Asks ((no_request reqBackup)\<lparr>gq_path := Clean path\<rparr>) answerControl)"

definition handleControlLink :: "(rune \<Rightarrow> rune) \<Rightarrow> gate \<Rightarrow> page_request \<Rightarrow> page_answer" where
  "handleControlLink sf g r =
     (if ga_srv g \<and> ga_state g = stateOpen then OpenPage
      else if \<not> controlAllowed sf r then not_a_command
      else ControlJSON 409 (ControlErr codeState ''''))"

definition answerForm :: "gateReply option \<Rightarrow> page_answer" where
  "answerForm rep =
     (case rep of
        None \<Rightarrow> HttpError 503 ''the server is stopping''
      | Some rep \<Rightarrow>
          if gp_code rep = '''' \<or> gp_code rep = codeState then Redirect ''/''
          else if gp_code rep = codeWrong \<or> gp_code rep = codeShort \<or> gp_code rep = codeMismatch then Redirect (''/?error='' @ gp_code rep)
          else HttpError 500 (gp_message rep))"

definition handlePasswordForm :: "(rune \<Rightarrow> rune) \<Rightarrow> gate \<Rightarrow> requestKind \<Rightarrow> page_request \<Rightarrow> handled" where
  "handlePasswordForm sf g kind r =
     (if \<not> formAllowed sf r (ga_formToken g) then AtOnce (form_refusal sf r)
      else
        let form = (case pr_Form r of None \<Rightarrow> (\<lambda>_. '''') | Some form \<Rightarrow> form);
            req = (no_request kind)\<lparr>gq_password := form ''password''\<rparr>
        in if kind = reqSetup then Asks (req\<lparr>gq_repeat := form ''repeat''\<rparr>) answerForm
           else if kind = reqChange then
             (if CheckPassword (gq_password req) \<noteq> None then AtOnce (Redirect (''/?error='' @ codeShort))
              else if form ''repeat'' \<noteq> gq_password req then AtOnce (Redirect (''/?error='' @ codeMismatch))
              else Asks (req\<lparr>gq_current := form ''current''\<rparr>) answerForm)
           else Asks req answerForm)"

definition handleRest :: "(rune \<Rightarrow> rune) \<Rightarrow> gate \<Rightarrow> page_request \<Rightarrow> page_answer" where
  "handleRest sf g r =
     (if ga_srv g \<and> ga_state g = stateOpen then OpenPage
      else if \<not> localHost sf (pr_Host r) then not_this_machine
      else if pr_Path r = ''/'' \<and> pr_Method r = ''GET'' then LockPage
      else if pr_Method r = ''POST'' then HttpError 409 ''the server is locked: enter its password first''
      else PageNotFound)"

text \<open>The mux: a \<open>GET\<close> pattern takes \<open>HEAD\<close> too, and \<open>/\<close> whatever no other pattern takes.\<close>

definition page_handler :: "(string \<Rightarrow> bool) \<Rightarrow> (string \<Rightarrow> string) \<Rightarrow> (rune \<Rightarrow> rune) \<Rightarrow> gate \<Rightarrow> page_request \<Rightarrow> handled" where
  "page_handler IsAbs Clean sf g r =
     (let get = (pr_Method r = ''GET'' \<or> pr_Method r = ''HEAD''); post = (pr_Method r = ''POST''); path = pr_Path r
      in if get \<and> path = ''/health'' then AtOnce (handleHealth g)
         else if get \<and> path = ''/control/state'' then AtOnce (handleControlState sf g r)
         else if post \<and> path = ''/control/unlock'' then handleControlUnlock sf r
         else if post \<and> path = ''/control/password'' then handleControlPassword sf r
         else if post \<and> path = ''/control/backup'' then handleControlBackup IsAbs Clean sf r
         else if post \<and> path = ''/control/link'' then AtOnce (handleControlLink sf g r)
         else if post \<and> path = ''/password/setup'' then handlePasswordForm sf g reqSetup r
         else if post \<and> path = ''/password/unlock'' then handlePasswordForm sf g reqUnlock r
         else if post \<and> path = ''/password/change'' then handlePasswordForm sf g reqChange r
         else AtOnce (handleRest sf g r))"

end
