(* ===== verification/Vault_Properties.thy ===== *)
theory Vault_Properties
  imports Vault
begin

text \<open>
  What the key file promises: the text that is sealed is read back and opened by its password;
  whatever fails and wherever the machine stops, the data key stays behind the old password or
  the new one; and every operation, faults and crashes included, is one the abstract lock allows.
\<close>

section \<open>What the library code does\<close>

definition key_names :: "string list" where
  "key_names = [''version'', ''kdf'', ''memory_kib'', ''iterations'', ''parallelism'', ''salt'', ''nonce'', ''sealed'']"

text \<open>
  The names of the members stay apart under folding, Argon2id gives a key of 32 bytes, and a seal
  opens under its own key and is \<open>Overhead\<close> longer than what it holds.
\<close>

definition lib_ok :: "seal_lib \<Rightarrow> bool" where
  "lib_ok L \<longleftrightarrow> distinct (map (foldCase (sl_fold L)) key_names)
   \<and> (\<forall>p s i m n. length (sl_IDKey L p s i m n) = aeadKeySize)
   \<and> (\<forall>k n x a. sl_Open L k n (sl_Seal L k n x a) a = Some x \<and> length (sl_Seal L k n x a) = length x + Overhead)"

definition draws_ok :: "draws \<Rightarrow> bool" where
  "draws_ok rnd \<longleftrightarrow> (\<forall>k. dr_key rnd = Some k \<longrightarrow> length k = KeySize) \<and> (\<forall>s. dr_salt rnd = Some s \<longrightarrow> length s = saltSize)
     \<and> (\<forall>n. dr_nonce rnd = Some n \<longrightarrow> length n = NonceSizeX)"

section \<open>The text\<close>

lemma parse_marshal:
  assumes "plain_text (kf_KDF kf)"
  shows "parse_json (marshal_keyFile kf) = Some (JObj
    [(''version'', JInt (int (nat (kf_Version kf)))), (''kdf'', JStr (kf_KDF kf)), (''memory_kib'', JInt (int (unat (kf_MemoryKiB kf)))),
     (''iterations'', JInt (int (unat (kf_Iterations kf)))), (''parallelism'', JInt (int (unat (kf_Parallelism kf)))),
     (''salt'', JStr (EncodeToString Std (kf_Salt kf))), (''nonce'', JStr (EncodeToString Std (kf_Nonce kf))),
     (''sealed'', JStr (EncodeToString Std (kf_Sealed kf)))])"
proof -
  have names: "plain_text ''version''" "plain_text ''kdf''" "plain_text ''memory_kib''" "plain_text ''iterations''" "plain_text ''parallelism''"
      "plain_text ''salt''" "plain_text ''nonce''" "plain_text ''sealed''"
    by (simp_all add: plain_text_def byte_def)
  show ?thesis
    by (simp add: parse_json_def marshal_keyFile_def member_def num_member_def names assms tokens_decimal next_token_def maxNestingDepth_def)
qed

lemma field_vals_single:
  "distinct (map (foldCase sf) (map fst kvs)) \<Longrightarrow> (n, v) \<in> set kvs \<Longrightarrow> field_vals sf n kvs = [v]"
proof (induction kvs)
  case (Cons kv kvs)
  show ?case
  proof (cases "kv = (n, v)")
    case True
    then have "foldCase sf n \<notin> foldCase sf ` fst ` set kvs" using Cons.prems(1) by auto
    then have "filter (\<lambda>kv. foldCase sf (fst kv) = foldCase sf n) kvs = []" by (auto simp: filter_empty_conv image_iff)
    then show ?thesis using True by (simp add: field_vals_def)
  next
    case False
    then have "(n, v) \<in> set kvs" using Cons.prems(2) by simp
    moreover from this have "foldCase sf (fst kv) \<noteq> foldCase sf n" using Cons.prems(1) by (auto simp: image_iff)
    ultimately show ?thesis using Cons by (simp add: field_vals_def)
  qed
qed simp

lemma unmarshal_marshal:
  assumes "lib_ok L" and "plain_text (kf_KDF kf)" and "0 \<le> kf_Version kf" "in_int64 (kf_Version kf)"
  shows "unmarshal_keyFile L (marshal_keyFile kf) = Some kf"
proof -
  have f: "distinct (map (foldCase (sl_fold L)) key_names)" using assms(1) by (simp add: lib_ok_def)
  have w: "uint (kf_MemoryKiB kf) < 4294967296" "uint (kf_Iterations kf) < 4294967296" "uint (kf_Parallelism kf) < 256"
    using uint_lt2p [of "kf_MemoryKiB kf"] uint_lt2p [of "kf_Iterations kf"] uint_lt2p [of "kf_Parallelism kf"] by simp_all
  define kvs where "kvs = [(''version'', JInt (int (nat (kf_Version kf)))), (''kdf'', JStr (kf_KDF kf)), (''memory_kib'', JInt (int (unat (kf_MemoryKiB kf)))),
     (''iterations'', JInt (int (unat (kf_Iterations kf)))), (''parallelism'', JInt (int (unat (kf_Parallelism kf)))),
     (''salt'', JStr (EncodeToString Std (kf_Salt kf))), (''nonce'', JStr (EncodeToString Std (kf_Nonce kf))),
     (''sealed'', JStr (EncodeToString Std (kf_Sealed kf)))]"
  have d: "distinct (map (foldCase (sl_fold L)) (map fst kvs))" using f by (simp only: kvs_def key_names_def list.map fst_conv)
  have v: "field_vals (sl_fold L) ''version'' kvs = [JInt (int (nat (kf_Version kf)))]" "field_vals (sl_fold L) ''kdf'' kvs = [JStr (kf_KDF kf)]"
    "field_vals (sl_fold L) ''memory_kib'' kvs = [JInt (int (unat (kf_MemoryKiB kf)))]" "field_vals (sl_fold L) ''iterations'' kvs = [JInt (int (unat (kf_Iterations kf)))]"
    "field_vals (sl_fold L) ''parallelism'' kvs = [JInt (int (unat (kf_Parallelism kf)))]" "field_vals (sl_fold L) ''salt'' kvs = [JStr (EncodeToString Std (kf_Salt kf))]"
    "field_vals (sl_fold L) ''nonce'' kvs = [JStr (EncodeToString Std (kf_Nonce kf))]" "field_vals (sl_fold L) ''sealed'' kvs = [JStr (EncodeToString Std (kf_Sealed kf))]"
    by (rule field_vals_single [OF d]; simp add: kvs_def)+
  show ?thesis
    unfolding unmarshal_keyFile_def parse_marshal [OF assms(2)] kvs_def [symmetric] Let_def
    using w assms(3,4) by (simp add: members_def v DecodeString_EncodeToString)
qed

section \<open>The disk\<close>

definition sealed_file :: "string \<Rightarrow> fsfile" where
  "sealed_file data = \<lparr>ff_data = data, ff_stable = length data, ff_clean = True\<rparr>"

lemma tmp_apart [simp]: "tmp_name path \<noteq> path" "path \<noteq> tmp_name path"
  by (simp_all add: tmp_name_def)

text \<open>
  What writing the key file leaves at its name. When it is done the name has the new file, and what it had
  before is behind it only where the directory is not flushed; otherwise what was there, or the
  new file with anything of that behind it.
\<close>

definition landed :: "bool \<Rightarrow> string \<Rightarrow> string \<Rightarrow> ndir \<Rightarrow> ndir \<Rightarrow> bool" where
  "landed w path data F G \<longleftrightarrow> G path = (Some (sealed_file data), if w then fst (F path) # snd (F path) else [])"

definition either :: "string \<Rightarrow> string \<Rightarrow> ndir \<Rightarrow> ndir \<Rightarrow> bool" where
  "either path data F G \<longleftrightarrow> G path = F path \<or> (\<exists>w. landed w path data F G)"

lemma wp_SyncDir [wp_intros]:
  "Q (Inr ()) (if w then F else n_flushed F) \<Longrightarrow> (\<And>e. \<not> q \<Longrightarrow> Q (Inl (ErrIO e)) F) \<Longrightarrow> (\<not> q \<Longrightarrow> C F) \<Longrightarrow> (\<not> q \<Longrightarrow> C (n_flushed F))
   \<Longrightarrow> wp_on q (SyncDir w) Q E C names F"
  unfolding SyncDir_def by (intro wp_intros) auto

definition untouched :: "string \<Rightarrow> ndir \<Rightarrow> ndir \<Rightarrow> bool" where
  "untouched path F G \<longleftrightarrow> G path = F path"

lemma untouched_steps [simp]:
  "untouched path F F"
  "untouched path F (n_opened (tmp_name path) t G) \<longleftrightarrow> untouched path F G"
  "untouched path F (n_mapped (tmp_name path) g G) \<longleftrightarrow> untouched path F G"
  "untouched path F (bound (tmp_name path) x G) \<longleftrightarrow> untouched path F G"
  by (auto simp: untouched_def n_opened_def n_mapped_def bound_def)

lemma either_untouched: "untouched path F G \<Longrightarrow> either path data F G"
  by (simp add: untouched_def either_def)

lemma moved_in:
  assumes "untouched path F G" "fst (G (tmp_name path)) = Some (sealed_file data)"
  shows "landed True path data F (n_renamed (tmp_name path) path G)" "landed False path data F (n_flushed (n_renamed (tmp_name path) path G))"
  using assms by (simp_all add: untouched_def landed_def n_renamed_def bound_def n_flushed_def)

lemma wp_give_up:
  assumes "untouched path F G" "\<And>H. untouched path F H \<Longrightarrow> Q (Inl (ErrIO e)) H" "\<And>H. \<not> q \<Longrightarrow> untouched path F H \<Longrightarrow> C H"
  shows "wp_on q (give_up path e) Q E C names G"
  unfolding give_up_def using assms(1) by (intro wp_intros) (auto intro!: assms(2,3))

lemma wp_WriteFile:
  assumes Q: "\<And>G. landed w path data F G \<Longrightarrow> Q (Inr ()) G"
    and Qe: "\<And>e G. \<not> q \<Longrightarrow> either path data F G \<Longrightarrow> Q (Inl (ErrIO e)) G" and C: "\<And>G. \<not> q \<Longrightarrow> either path data F G \<Longrightarrow> C G"
  shows "wp_on q (WriteFile w path data) Q E C names F"
proof -
  let ?tmp = "tmp_name path"
  note fall = Qe [OF _ either_untouched] C [OF _ either_untouched]
  define G1 where "G1 = n_opened ?tmp True F"
  define G2 where "G2 = n_mapped ?tmp (put_at 0 data) G1"
  define G3 where "G3 = n_mapped ?tmp flush_file G2"
  have u: "untouched path F G1" "untouched path F G2" "untouched path F G3" by (simp_all add: G1_def G2_def G3_def)
  have "fst (G1 ?tmp) = Some new_file" by (simp add: G1_def n_opened_def n_mapped_def bound_def)
  then have tmp: "fst (G3 ?tmp) = Some (sealed_file data)"
    by (simp add: G3_def G2_def n_mapped_def put_at_def padded_def flush_file_def new_file_def sealed_file_def)
  note m = moved_in [OF u(3) tmp]
  then have e: "either path data F (n_renamed ?tmp path G3)" "either path data F (n_flushed (n_renamed ?tmp path G3))"
    unfolding either_def by blast+
  have gu: "wp_on q (give_up path e) Q E C names G" if "untouched path F G" "\<not> q" for e G
    using that by (intro wp_give_up) (auto intro: fall)
  then have gu0: "wp_on False (give_up path e) Q E C names G" if "untouched path F G" "\<not> q" for e G
    using that by (metis (full_types))
  have done0: "Q (Inr ()) (if w then n_renamed ?tmp path G3 else n_flushed (n_renamed ?tmp path G3))"
    using m by (intro Q) (simp add: landed_def)
  have "wp_on q (andThen (attempt (fs_Rename ?tmp path)) (\<lambda>moved. case moved of Inl e \<Rightarrow> give_up path e | Inr _ \<Rightarrow> SyncDir w)) Q E C names G3"
    using u(3) tmp e done0 by (intro wp_intros) (auto intro!: gu gu0 Qe C intro: either_untouched)
  then have "wp_on q (andThen (attempt (fs_Close ?tmp)) (\<lambda>shut. case shut of Inl e \<Rightarrow> give_up path e
      | Inr _ \<Rightarrow> andThen (attempt (fs_Rename ?tmp path)) (\<lambda>moved. case moved of Inl e \<Rightarrow> give_up path e | Inr _ \<Rightarrow> SyncDir w))) Q E C names G3"
    using u(3) by (intro wp_andThen [of q "attempt (fs_Close ?tmp)"] wp_attempt n_Close) (auto intro!: gu gu0 fall)
  then have "wp_on q (andThen (attempt (fs_Sync ?tmp)) (\<lambda>flushed. case flushed of Inl e \<Rightarrow> ignoring (fs_Close ?tmp) (give_up path e)
      | Inr _ \<Rightarrow> andThen (attempt (fs_Close ?tmp)) (\<lambda>shut. case shut of Inl e \<Rightarrow> give_up path e
      | Inr _ \<Rightarrow> andThen (attempt (fs_Rename ?tmp path)) (\<lambda>moved. case moved of Inl e \<Rightarrow> give_up path e | Inr _ \<Rightarrow> SyncDir w)))) Q E C names G2"
    using u(2,3) unfolding G3_def
    by (intro wp_andThen [of q "attempt (fs_Sync ?tmp)"] wp_attempt n_Sync) (auto intro!: wp_ignoring n_Close gu gu0 fall)
  then show ?thesis
    unfolding WriteFile_def
    by (intro wp_andThen [of q "attempt (fs_OpenFile ?tmp True)"] wp_attempt n_OpenFile)
      (use u(1) in \<open>auto simp flip: G1_def intro!: wp_andThen [of q "fs_Write ?tmp 0 data"] n_Write wp_ignoring n_Close wp_ret gu gu0 fall simp: G2_def\<close>)
qed

lemma wp_ReadFile_vault:
  assumes f: "fst (F path) = Some f" "length (ff_data f) \<le> maxKeyFileBytes" and Q: "Q (Inr (ff_data f)) F"
    and Qe: "\<And>e. \<not> q \<Longrightarrow> Q (Inl (ErrIO e)) F" and C: "\<not> q \<Longrightarrow> C F"
  shows "wp_on q (vault_ReadFile path) Q E C names F"
  unfolding vault_ReadFile_def using f by (intro wp_intros) (auto intro!: Q Qe C)

lemma wp_ReadFile_none:
  assumes "fst (F path) = None" and Qe: "\<And>e. Q (Inl (ErrIO e)) F" and C: "C F"
  shows "wp_on q (vault_ReadFile path) Q E C names F"
  unfolding vault_ReadFile_def using assms(1) by (intro wp_intros) (auto intro!: Qe C)

section \<open>What is sealed is read\<close>

lemma length_decimal: "n < 10 ^ Suc k \<Longrightarrow> length (decimal n) \<le> Suc k"
proof (induction k arbitrary: n)
  case 0
  then show ?case by (simp add: decimal.simps)
next
  case (Suc k)
  show ?case
  proof (cases "n < 10")
    case True
    then show ?thesis by (simp add: decimal.simps)
  next
    case False
    then have "length (decimal n) = length (decimal (n div 10)) + 1" by (subst decimal.simps) simp
    moreover have "n div 10 < 10 ^ Suc k" using Suc.prems by (simp add: less_mult_imp_div_less mult.commute)
    ultimately show ?thesis using Suc.IH by fastforce
  qed
qed

lemma length_enc_Std: "length (enc Std xs) = (length xs + 2) div 3 * 4"
proof (induction Std xs rule: enc.induct)
  case (4 x y z r)
  then show ?case by simp presburger
qed (simp_all add: pad_def)

text \<open>The key file that holds \<open>key\<close> under a password: its costs, salt and nonce are some.\<close>

definition key_file :: "seal_lib \<Rightarrow> string \<Rightarrow> string \<Rightarrow> Params \<Rightarrow> string \<Rightarrow> string \<Rightarrow> keyFile" where
  "key_file L key password params salt nonce =
     \<lparr>kf_Version = fileVersion, kf_KDF = kdfName, kf_MemoryKiB = MemoryKiB params, kf_Iterations = Iterations params,
      kf_Parallelism = Parallelism params, kf_Salt = salt, kf_Nonce = nonce,
      kf_Sealed = sl_Seal L (derive L password salt params) nonce key sealedAAD\<rparr>"

definition sealed_under :: "seal_lib \<Rightarrow> string \<Rightarrow> string \<Rightarrow> string \<Rightarrow> bool" where
  "sealed_under L key password data \<longleftrightarrow> length key = KeySize \<and> length data \<le> maxKeyFileBytes
     \<and> (\<exists>params salt nonce. parse_keyFile L data = Inr (key_file L key password params salt nonce))"

lemma key_file_params [simp]: "kf_params (key_file L key password params salt nonce) = params"
  by (simp add: key_file_def kf_params_def)

lemma seal_reads:
  assumes L: "lib_ok L" and s: "seal L key password params rnd = Inr data" and "length key = KeySize" "draws_ok rnd"
  shows "sealed_under L key password data \<and> (\<exists>salt nonce. dr_salt rnd = Some salt \<and> dr_nonce rnd = Some nonce
    \<and> data = marshal_keyFile (key_file L key password params salt nonce) \<and> check params = None)"
proof -
  obtain salt nonce where r: "check params = None" "dr_salt rnd = Some salt" "dr_nonce rnd = Some nonce"
      and data: "data = marshal_keyFile (key_file L key password params salt nonce)"
    using s by (auto simp: seal_def key_file_def Let_def split: option.splits if_splits)
  have len: "length salt = saltSize" "length nonce = NonceSizeX" "length (kf_Sealed (key_file L key password params salt nonce)) = KeySize + Overhead"
    using assms r by (auto simp: draws_ok_def key_file_def lib_ok_def)
  have "plain_text kdfName" by (simp add: kdfName_def plain_text_def byte_def)
  then have un: "unmarshal_keyFile L data = Some (key_file L key password params salt nonce)"
    unfolding data by (intro unmarshal_marshal [OF L]) (simp_all add: key_file_def fileVersion_def in_int64_def int64_min_def int64_max_def)
  have dl: "length (decimal (unat w)) \<le> 10" "length (decimal (unat v)) \<le> 3" for w :: "32 word" and v :: "8 word"
  proof -
    have "int (unat w) < 4294967296" "int (unat v) < 256" using uint_lt2p [of w] uint_lt2p [of v] by simp_all
    then have "unat w < 4294967296" "unat v < 256" by linarith+
    then show "length (decimal (unat w)) \<le> 10" "length (decimal (unat v)) \<le> 3"
      using length_decimal [of "unat w" 9] length_decimal [of "unat v" 2] by simp_all
  qed
  have d1: "length (decimal (Suc 0)) = 1" by (simp add: decimal.simps)
  have "length data \<le> maxKeyFileBytes"
    using len dl(1) [of "MemoryKiB params"] dl(1) [of "Iterations params"] dl(2) [of "Parallelism params"]
    unfolding data marshal_keyFile_def num_member_def member_def quoted_def
    by (simp add: key_file_def fileVersion_def kdfName_def EncodeToString_def length_enc_Std saltSize_def NonceSizeX_def KeySize_def Overhead_def maxKeyFileBytes_def d1)
  moreover from this have "parse_keyFile L data = Inr (key_file L key password params salt nonce)"
    using un r(1) len by (simp add: parse_keyFile_def) (simp add: key_file_def)
  ultimately show ?thesis using assms(3) r data by (auto simp: sealed_under_def)
qed

lemma Unseal_sealed:
  assumes "lib_ok L" and "parse_keyFile L data = Inr (key_file L key password params salt nonce)"
  shows "Unseal L data q = (case sl_Open L (derive L q salt params) nonce (sl_Seal L (derive L password salt params) nonce key sealedAAD) sealedAAD of
      None \<Rightarrow> Inl ErrWrongPassword | Some x \<Rightarrow> Inr x)"
  using assms unfolding Unseal_def by (simp add: Let_def lib_ok_def derive_def) (simp add: key_file_def derive_def)

lemma sealed_opens: "lib_ok L \<Longrightarrow> sealed_under L key password data \<Longrightarrow> Unseal L data password = Inr key"
  unfolding sealed_under_def using Unseal_sealed by (fastforce simp: lib_ok_def)

section \<open>One operation\<close>

text \<open>
  A new file at the name holds \<open>key\<close> under \<open>password\<close>, which the server takes; \<open>w\<close> tells that what the name
  had before is still behind it.
\<close>

definition resealed :: "seal_lib \<Rightarrow> bool \<Rightarrow> string \<Rightarrow> string \<Rightarrow> string \<Rightarrow> ndir \<Rightarrow> ndir \<Rightarrow> bool" where
  "resealed L w path key password F G \<longleftrightarrow> CheckPassword password = None \<and> (\<exists>data. landed w path data F G \<and> sealed_under L key password data)"

definition maybe_resealed :: "seal_lib \<Rightarrow> string \<Rightarrow> string \<Rightarrow> string \<Rightarrow> ndir \<Rightarrow> ndir \<Rightarrow> bool" where
  "maybe_resealed L path key password F G \<longleftrightarrow> G path = F path \<or> (\<exists>w. resealed L w path key password F G)"

lemma maybe_resealed_same [simp]: "maybe_resealed L path key p F F"
  by (simp add: maybe_resealed_def)

lemma wp_write_seal:
  assumes L: "lib_ok L" "draws_ok rnd" "length key = KeySize" and p: "CheckPassword password = None"
    and Q: "\<And>G. resealed L w path key password F G \<Longrightarrow> Q (Inr ()) G"
    and Qs: "\<And>e. seal L key password params rnd = Inl e \<Longrightarrow> Q (Inl e) F"
    and Qe: "\<And>e G. \<not> q \<Longrightarrow> maybe_resealed L path key password F G \<Longrightarrow> Q (Inl (ErrIO e)) G"
    and C: "\<And>G. \<not> q \<Longrightarrow> maybe_resealed L path key password F G \<Longrightarrow> C G"
  shows "wp_on q (case seal L key password params rnd of Inl e \<Rightarrow> ret (Inl e) | Inr data \<Rightarrow> WriteFile w path data) Q E C names F"
proof (rule wp_sum)
  show "wp_on q (ret (Inl e)) Q E C names F" if "seal L key password params rnd = Inl e" for e by (rule wp_ret) (rule Qs [OF that])
  fix data
  assume "seal L key password params rnd = Inr data"
  then have s: "sealed_under L key password data" using seal_reads L by blast
  then show "wp_on q (WriteFile w path data) Q E C names F"
    using p by (intro wp_WriteFile Q Qe C) (auto simp: resealed_def maybe_resealed_def either_def)
qed

lemma seal_errors: "lib_ok L \<Longrightarrow> seal L key password params rnd = Inl e \<Longrightarrow> e = ErrMalformed \<or> e = ErrRand"
  by (auto simp: seal_def check_def lib_ok_def derive_def Let_def split: option.splits if_splits)

lemma Unseal_short: "Unseal L data q = Inr key \<Longrightarrow> length data \<le> maxKeyFileBytes"
  by (auto simp: Unseal_def parse_keyFile_def split: if_splits)

lemma wp_Change:
  assumes L: "lib_ok L" "draws_ok rnd" and f: "fst (F path) = Some (sealed_file data)" and key: "Unseal L data current = Inr key" "length key = KeySize"
    and Q: "\<And>G. resealed L w path key next F G \<Longrightarrow> Q (Inr ()) G"
    and Qs: "\<And>e. CheckPassword next = Some e \<or> seal L key next params rnd = Inl e \<Longrightarrow> Q (Inl e) F"
    and Qe: "\<And>e G. \<not> q \<Longrightarrow> maybe_resealed L path key next F G \<Longrightarrow> Q (Inl (ErrIO e)) G"
    and C: "\<And>G. \<not> q \<Longrightarrow> maybe_resealed L path key next F G \<Longrightarrow> C G"
  shows "wp_on q (Change L w rnd path current next params) Q E C names F"
  unfolding Change_def
proof (rule wp_option)
  show "wp_on q (ret (Inl e)) Q E C names F" if "CheckPassword next = Some e" for e by (rule wp_ret) (simp add: Qs that)
  assume ok: "CheckPassword next = None"
  show "wp_on q (andThen (vault_ReadFile path) (\<lambda>r. case r of Inl e \<Rightarrow> ret (Inl e)
      | Inr data \<Rightarrow> (case Unseal L data current of Inl e \<Rightarrow> ret (Inl e) | Inr key \<Rightarrow>
           (case seal L key next params rnd of Inl e \<Rightarrow> ret (Inl e) | Inr new \<Rightarrow> WriteFile w path new)))) Q E C names F"
  proof (rule wp_andThen, rule wp_ReadFile_vault [where f = "sealed_file data"])
    show "length (ff_data (sealed_file data)) \<le> maxKeyFileBytes" using Unseal_short [OF key(1)] by (simp add: sealed_file_def)
    have "wp_on q (case seal L key next params rnd of Inl e \<Rightarrow> ret (Inl e) | Inr new \<Rightarrow> WriteFile w path new) Q E C names F"
      by (intro wp_write_seal [OF L key(2) ok] Q Qe C) (simp_all add: Qs)
    then show "wp_on q (case Inr (ff_data (sealed_file data)) of Inl e \<Rightarrow> ret (Inl e)
      | Inr data \<Rightarrow> (case Unseal L data current of Inl e \<Rightarrow> ret (Inl e) | Inr key \<Rightarrow>
           (case seal L key next params rnd of Inl e \<Rightarrow> ret (Inl e) | Inr new \<Rightarrow> WriteFile w path new))) Q E C names F"
      by (simp add: sealed_file_def key(1))
  qed (use f in \<open>auto intro!: wp_ret Qe C\<close>)
qed

lemma wp_Change_refused:
  assumes f: "fst (F path) = Some (sealed_file data)" "length data \<le> maxKeyFileBytes" and refused: "Unseal L data current = Inl e0"
    and Qe: "\<And>e. CheckPassword next = Some e \<or> CheckPassword next = None \<and> e = e0 \<Longrightarrow> Q (Inl e) F"
    and Qio: "\<And>e. \<not> q \<Longrightarrow> Q (Inl (ErrIO e)) F" and C: "\<not> q \<Longrightarrow> C F"
  shows "wp_on q (Change L w rnd path current next params) Q E C names F"
  unfolding Change_def using f refused
  by (intro wp_option wp_andThen wp_ReadFile_vault [where f = "sealed_file data"] wp_sum) (auto simp: sealed_file_def intro!: wp_ret Qe Qio C)

lemma wp_Open_sealed:
  assumes f: "fst (F path) = Some (sealed_file data)" "length data \<le> maxKeyFileBytes" and Q: "Q (Unseal L data p) F"
    and Qio: "\<And>e. \<not> q \<Longrightarrow> Q (Inl (ErrIO e)) F" and C: "\<not> q \<Longrightarrow> C F"
  shows "wp_on q (vault_Open L path p) Q E C names F"
proof -
  have r: "(case Unseal L data p of Inl e \<Rightarrow> Inl e | Inr x \<Rightarrow> Inr x) = Unseal L data p" by (simp split: sum.splits)
  show ?thesis unfolding vault_Open_def using f Q
    by (intro wp_andThen wp_ReadFile_vault [where f = "sealed_file data"] wp_ret) (auto simp: sealed_file_def intro!: wp_ret Qio C)
qed

definition maybe_created :: "seal_lib \<Rightarrow> string \<Rightarrow> draws \<Rightarrow> string \<Rightarrow> ndir \<Rightarrow> ndir \<Rightarrow> bool" where
  "maybe_created L path rnd p F G \<longleftrightarrow> G path = F path \<or> (\<exists>key w. dr_key rnd = Some key \<and> resealed L w path key p F G)"

lemma maybe_createdI: "dr_key rnd = Some key \<Longrightarrow> maybe_resealed L path key p F G \<Longrightarrow> maybe_created L path rnd p F G" "maybe_created L path rnd p F F"
  by (auto simp: maybe_created_def maybe_resealed_def)

lemma wp_Create_new:
  assumes L: "lib_ok L" "draws_ok rnd" and f: "fst (F path) = None"
    and Q: "\<And>key G. dr_key rnd = Some key \<Longrightarrow> resealed L w path key p F G \<Longrightarrow> Q (Inr key) G"
    and Qs: "\<And>e. e = ErrShortPassword \<or> e = ErrRand \<or> e = ErrMalformed \<Longrightarrow> Q (Inl e) F"
    and Qe: "\<And>e G. \<not> q \<Longrightarrow> maybe_created L path rnd p F G \<Longrightarrow> Q (Inl (ErrIO e)) G"
    and C: "\<And>G. \<not> q \<Longrightarrow> maybe_created L path rnd p F G \<Longrightarrow> C G"
  shows "wp_on q (vault_Create L w rnd path p params) Q E C names F"
proof -
  have draw: "wp_on q (case dr_key rnd of None \<Rightarrow> ret (Inl ErrRand) | Some key \<Rightarrow>
      (case seal L key p params rnd of Inl e \<Rightarrow> ret (Inl e) | Inr data \<Rightarrow>
         andThen (WriteFile w path data) (\<lambda>written. ret (case written of Inl e \<Rightarrow> Inl e | Inr _ \<Rightarrow> Inr key)))) Q E C names F"
    if ok: "CheckPassword p = None"
  proof (rule wp_option)
    show "wp_on q (ret (Inl ErrRand)) Q E C names F" by (intro wp_ret Qs) simp
    fix key
    assume key: "dr_key rnd = Some key"
    then have len: "length key = KeySize" using L(2) by (simp add: draws_ok_def)
    have "wp_on q (andThen (case seal L key p params rnd of Inl e \<Rightarrow> ret (Inl e) | Inr data \<Rightarrow> WriteFile w path data)
        (\<lambda>written. ret (case written of Inl e \<Rightarrow> Inl e | Inr _ \<Rightarrow> Inr key))) Q E C names F"
      by (intro wp_andThen wp_write_seal [OF L len ok] wp_ret) (auto intro!: Q Qs Qe C simp: key intro: maybe_createdI(1) [OF key] dest: seal_errors [OF L(1)])
    then show "wp_on q (case seal L key p params rnd of Inl e \<Rightarrow> ret (Inl e) | Inr data \<Rightarrow>
         andThen (WriteFile w path data) (\<lambda>written. ret (case written of Inl e \<Rightarrow> Inl e | Inr _ \<Rightarrow> Inr key))) Q E C names F"
      by (rule wp_cong) (simp add: andThen_def ret_def split: sum.splits)
  qed
  show ?thesis unfolding vault_Create_def using draw f
    by (intro wp_option wp_andThen wp_attempt n_Stat wp_sum) (auto intro!: wp_ret Qs [of ErrShortPassword, simplified] Qe C maybe_createdI(2) simp: CheckPassword_def split: if_splits)
qed

lemma wp_Create_there:
  assumes "fst (F path) = Some f" and Q: "\<And>e. e = ErrShortPassword \<or> e = ErrExists \<or> (\<exists>x. e = ErrIO x) \<Longrightarrow> Q (Inl e) F" and C: "\<not> q \<Longrightarrow> C F"
  shows "wp_on q (vault_Create L w rnd path p params) Q E C names F"
  unfolding vault_Create_def using assms(1)
  by (intro wp_option wp_andThen wp_attempt n_Stat wp_sum) (auto intro!: wp_ret Q C simp: CheckPassword_def split: if_splits)

section \<open>The abstract lock\<close>

text \<open>
  Nothing yet, or the data key and the one password that opens it; and beside what is in force, what a
  power loss may bring back.
\<close>

type_synonym owner = "(string \<times> string) option"

type_synonym lock = "owner \<times> owner set"

datatype vop = VCreate draws string Params | VOpen string | VChange draws string string Params

type_synonym vresult = "(vault_err + string) outcome"

definition run_vop :: "seal_lib \<Rightarrow> bool \<Rightarrow> string \<Rightarrow> vop \<Rightarrow> (vault_err + string) fs" where
  "run_vop L w path op =
     (case op of
        VCreate rnd p params \<Rightarrow> vault_Create L w rnd path p params
      | VOpen p \<Rightarrow> vault_Open L path p
      | VChange rnd current next params \<Rightarrow>
          andThen (Change L w rnd path current next params) (\<lambda>r. ret (case r of Inl e \<Rightarrow> Inl e | Inr _ \<Rightarrow> Inr '''')))"

text \<open>The machine stopped, or a system call failed: the caller does not know what was done.\<close>

definition unknown :: "vresult \<Rightarrow> bool" where
  "unknown r \<longleftrightarrow> r = Halt \<or> (\<exists>e. r = Ret (Inl (ErrIO e)))"

text \<open>
  Another owner takes over. Acknowledged by \<open>ok\<close> it is for good, but for a machine \<open>w\<close> whose directories
  cannot be flushed; when the outcome is unknown the former one may come back.
\<close>

definition takes_over :: "bool \<Rightarrow> vresult \<Rightarrow> vresult \<Rightarrow> lock \<Rightarrow> owner \<Rightarrow> lock \<Rightarrow> bool" where
  "takes_over w ok r l a' l' \<longleftrightarrow> (unknown r \<or> r = ok \<and> w) \<and> l' = (a', insert (fst l) (snd l)) \<or> r = ok \<and> \<not> w \<and> l' = (a', {})"

text \<open>What an operation may answer and make of the lock.\<close>

definition allowed :: "bool \<Rightarrow> vop \<Rightarrow> vresult \<Rightarrow> lock \<Rightarrow> lock \<Rightarrow> bool" where
  "allowed w op r l l' \<longleftrightarrow>
     (case op of
        VOpen p \<Rightarrow> l' = l \<and> (unknown r \<or> (\<exists>key pw. fst l = Some (key, pw) \<and> r = Ret (if p = pw then Inr key else Inl ErrWrongPassword)))
      | VCreate rnd p params \<Rightarrow>
          l' = l \<and> (unknown r \<or> (\<exists>e \<in> {ErrShortPassword, ErrRand, ErrMalformed}. r = Ret (Inl e)) \<or> r = Ret (Inl ErrExists) \<and> fst l \<noteq> None)
        \<or> fst l = None \<and> CheckPassword p = None \<and> (\<exists>key. dr_key rnd = Some key \<and> takes_over w (Ret (Inr key)) r l (Some (key, p)) l')
      | VChange rnd current next params \<Rightarrow>
          l' = l \<and> (unknown r \<or> (\<exists>e \<in> {ErrShortPassword, ErrRand, ErrMalformed}. r = Ret (Inl e))
            \<or> r = Ret (Inl ErrWrongPassword) \<and> (\<exists>key pw. fst l = Some (key, pw) \<and> current \<noteq> pw))
        \<or> CheckPassword next = None \<and> (\<exists>key. fst l = Some (key, current) \<and> takes_over w (Ret (Inr '''')) r l (Some (key, next)) l'))"

text \<open>What happens to a lock, in order: operations with their results, and losses of power.\<close>

datatype vevent = Op vop vresult | Power

inductive lock_run :: "bool \<Rightarrow> vevent list \<Rightarrow> lock \<Rightarrow> bool" for w where
  Unset: "lock_run w [] (None, {})"
| Did: "lock_run w tr l \<Longrightarrow> allowed w op r l l' \<Longrightarrow> lock_run w (tr @ [Op op r]) l'"
| Lost: "lock_run w tr l \<Longrightarrow> a \<in> insert (fst l) (snd l) \<Longrightarrow> lock_run w (tr @ [Power]) (a, {})"

text \<open>
  The same on a disk: each operation with its faults, which may stop the process or the machine in it;
  and power lost between two operations or after one was cut short, with no promise for a name
  whose directory was not flushed.
\<close>

definition passwords :: "vop \<Rightarrow> string set" where
  "passwords op = (case op of VCreate _ p _ \<Rightarrow> {p} | VOpen p \<Rightarrow> {p} | VChange _ p p' _ \<Rightarrow> {p, p'})"

definition op_draws :: "vop \<Rightarrow> bool" where
  "op_draws op \<longleftrightarrow> (case op of VCreate rnd _ _ \<Rightarrow> draws_ok rnd | VOpen _ \<Rightarrow> True | VChange rnd _ _ _ \<Rightarrow> draws_ok rnd)"

inductive vault_run :: "seal_lib \<Rightarrow> bool \<Rightarrow> string \<Rightarrow> string set \<Rightarrow> vevent list \<Rightarrow> disk \<Rightarrow> bool" for L w path PW where
  Fresh: "dk_files d path = None \<Longrightarrow> dk_behind d path = [] \<Longrightarrow> vault_run L w path PW [] d"
| Runs: "vault_run L w path PW tr d \<Longrightarrow> passwords op \<subseteq> PW \<Longrightarrow> op_draws op \<Longrightarrow>
    run_vop L w path op (d\<lparr>dk_fates := vs\<rparr>) = (r, d') \<Longrightarrow> vault_run L w path PW (tr @ [Op op r]) d'"
| Loss: "vault_run L w path PW tr d \<Longrightarrow> power_cut d d' \<Longrightarrow> vault_run L w path PW (tr @ [Power]) d'"

text \<open>A name bound to the key file of an owner, or to nothing.\<close>

definition binds :: "seal_lib \<Rightarrow> fsfile option \<Rightarrow> owner \<Rightarrow> bool" where
  "binds L f a \<longleftrightarrow>
     (case a of
        None \<Rightarrow> f = None
      | Some (key, pw) \<Rightarrow> \<exists>data. f = Some (sealed_file data) \<and> sealed_under L key pw data)"

definition vault_rel :: "seal_lib \<Rightarrow> string \<Rightarrow> ndir \<Rightarrow> lock \<Rightarrow> bool" where
  "vault_rel L path F l \<longleftrightarrow> binds L (fst (F path)) (fst l) \<and> (\<forall>f \<in> set (snd (F path)). \<exists>b \<in> snd l. binds L f b)"

text \<open>Of the passwords in \<open>PW\<close>, none opens what is sealed under another.\<close>

definition apart :: "seal_lib \<Rightarrow> string set \<Rightarrow> bool" where
  "apart L PW \<longleftrightarrow> (\<forall>p \<in> PW. \<forall>q \<in> PW. p \<noteq> q \<longrightarrow>
     (\<forall>salt c n x. sl_Open L (derive L q salt c) n (sl_Seal L (derive L p salt c) n x sealedAAD) sealedAAD = None))"

definition owned :: "string set \<Rightarrow> lock \<Rightarrow> bool" where
  "owned PW l \<longleftrightarrow> (\<forall>key pw. Some (key, pw) \<in> insert (fst l) (snd l) \<longrightarrow> pw \<in> PW)"

lemma unknown_simps [simp]: "unknown Halt" "unknown (Ret (Inl (ErrIO e)))"
  by (simp_all add: unknown_def)

lemma sealed_refuses: "lib_ok L \<Longrightarrow> apart L PW \<Longrightarrow> sealed_under L key pw data \<Longrightarrow> pw \<in> PW \<Longrightarrow> q \<in> PW \<Longrightarrow>
    Unseal L data q = (if q = pw then Inr key else Inl ErrWrongPassword)"
  using sealed_opens by (auto simp: sealed_under_def apart_def Unseal_sealed)

lemma survives_sealed: "survives (sealed_file data) g \<Longrightarrow> g = sealed_file data"
  by (cases g) (auto simp: survives_def sealed_file_def)

lemma binds_survives: "binds L f a \<Longrightarrow> rel_option survives f g \<Longrightarrow> g = f"
  by (cases a; cases g) (auto simp: binds_def dest: survives_sealed)

lemma vault_rel_cut:
  assumes v: "vault_rel L path (names d) l" and c: "power_cut d d'"
  shows "\<exists>a \<in> insert (fst l) (snd l). vault_rel L path (names d') (a, {})"
proof -
  obtain f where f: "f \<in> set (dk_files d path # dk_behind d path)" "rel_option survives f (dk_files d' path)" and none: "dk_behind d' path = []"
    using c unfolding power_cut_def by blast
  obtain a where a: "a \<in> insert (fst l) (snd l)" "binds L f a" using v f(1) by (auto simp: vault_rel_def names_def)
  then show ?thesis using binds_survives [OF a(2) f(2)] none by (intro bexI [of _ a]) (simp_all add: vault_rel_def names_def)
qed

lemma resealed_rel:
  assumes "resealed L w path key pw F G" "vault_rel L path F l"
  shows "CheckPassword pw = None" "vault_rel L path G (Some (key, pw), if w then insert (fst l) (snd l) else {})"
    "vault_rel L path G (Some (key, pw), insert (fst l) (snd l))"
proof -
  obtain data where new: "G path = (Some (sealed_file data), if w then fst (F path) # snd (F path) else [])" "sealed_under L key pw data"
    and p: "CheckPassword pw = None" using assms(1) by (auto simp: resealed_def landed_def)
  have old: "\<exists>b \<in> insert (fst l) (snd l). binds L f b" if "f \<in> set (fst (F path) # snd (F path))" for f
    using assms(2) that by (auto simp: vault_rel_def)
  have "binds L (fst (G path)) (Some (key, pw))" using new by (auto simp: binds_def)
  then show "vault_rel L path G (Some (key, pw), if w then insert (fst l) (snd l) else {})" "vault_rel L path G (Some (key, pw), insert (fst l) (snd l))"
    using new(1) old by (simp_all add: vault_rel_def)
  show "CheckPassword pw = None" by (rule p)
qed

definition step_ok :: "seal_lib \<Rightarrow> bool \<Rightarrow> string \<Rightarrow> string set \<Rightarrow> vop \<Rightarrow> lock \<Rightarrow> vresult \<Rightarrow> ndir \<Rightarrow> bool" where
  "step_ok L w path PW op l r G \<longleftrightarrow> (\<exists>l'. allowed w op r l l' \<and> vault_rel L path G l' \<and> owned PW l')"

lemma step_same: "vault_rel L path F l \<Longrightarrow> owned PW l \<Longrightarrow> G path = F path \<Longrightarrow> allowed w op r l l \<Longrightarrow> step_ok L w path PW op l r G"
  unfolding step_ok_def vault_rel_def by (intro exI [of _ l]) simp

lemma step_new:
  assumes l: "vault_rel L path F l" "owned PW l" and new: "resealed L v path key pw F G" "pw \<in> PW" and r: "unknown r \<or> r = ok \<and> v = w"
    and op: "\<And>l'. takes_over w ok r l (Some (key, pw)) l' \<Longrightarrow> allowed w op r l l'"
  shows "step_ok L w path PW op l r G"
proof -
  define l' where "l' = (Some (key, pw), if r = ok \<and> \<not> w \<and> \<not> unknown r then {} else insert (fst l) (snd l))"
  have "takes_over w ok r l (Some (key, pw)) l'" using r by (auto simp: takes_over_def l'_def)
  moreover have "vault_rel L path G l'" using resealed_rel [OF new(1) l(1)] r by (auto simp: l'_def split: if_splits)
  moreover have "owned PW l'" using l(2) new(2) by (auto simp: owned_def l'_def)
  ultimately show ?thesis using op unfolding step_ok_def by blast
qed

lemma CheckPassword_error: "CheckPassword p = Some e \<Longrightarrow> e = ErrShortPassword"
  by (simp add: CheckPassword_def split: if_splits)

lemma wp_vop:
  assumes L: "lib_ok L" "apart L PW" and op: "passwords op \<subseteq> PW" "op_draws op" and l: "vault_rel L path F l" "owned PW l"
  shows "wp_on False (run_vop L w path op) (\<lambda>r. step_ok L w path PW op l (Ret r)) (\<lambda>_ _. False) (step_ok L w path PW op l Halt) names F"
proof (cases "fst l")
  case None
  then have F: "fst (F path) = None" using l by (simp add: vault_rel_def binds_def)
  note same = step_same [OF l]
  show ?thesis
  proof (cases op)
    case (VCreate rnd p params)
    then have pre: "draws_ok rnd" "p \<in> PW" using op by (simp_all add: op_draws_def passwords_def)
    have new: "step_ok L w path PW op l r G" if "dr_key rnd = Some key" "resealed L v path key p F G" "unknown r \<or> r = Ret (Inr key) \<and> v = w" for key G r v
      using that resealed_rel(1) [OF that(2) l(1)] by (intro step_new [OF l that(2) pre(2) that(3)]) (simp add: VCreate allowed_def None)
    have old: "step_ok L w path PW op l r G" if "G path = F path" "unknown r \<or> (\<exists>e \<in> {ErrShortPassword, ErrRand, ErrMalformed}. r = Ret (Inl e))" for G r
      using that by (intro same) (auto simp: VCreate allowed_def)
    have any: "step_ok L w path PW op l r G" if "maybe_created L path rnd p F G" "unknown r" for G r
      using that new old unfolding maybe_created_def by blast
    have "wp_on False (vault_Create L w rnd path p params) (\<lambda>r. step_ok L w path PW op l (Ret r)) (\<lambda>_ _. False) (step_ok L w path PW op l Halt) names F"
      by (rule wp_Create_new [where F = F and path = path, OF L(1) pre(1) F])
        (auto intro: new old any)
    then show ?thesis by (simp add: run_vop_def VCreate)
  next
    case (VOpen p)
    show ?thesis unfolding run_vop_def VOpen vop.case vault_Open_def
      by (intro wp_andThen wp_ReadFile_none F wp_ret) (auto intro!: same simp: allowed_def unknown_def)
  next
    case (VChange rnd current nxt params)
    show ?thesis unfolding run_vop_def VChange vop.case Change_def
      by (intro wp_andThen wp_option wp_ReadFile_none F wp_ret) (auto intro!: same wp_ret simp: allowed_def unknown_def dest: CheckPassword_error)
  qed
next
  case (Some o1)
  obtain key pw where o: "fst l = Some (key, pw)" using Some by (cases o1) auto
  obtain data where F: "fst (F path) = Some (sealed_file data)" and s: "sealed_under L key pw data" using l(1) o by (auto simp: vault_rel_def binds_def)
  have len: "length data \<le> maxKeyFileBytes" "length key = KeySize" using s by (simp_all add: sealed_under_def)
  have pw: "pw \<in> PW" using l(2) o by (simp add: owned_def)
  have un: "Unseal L data q = (if q = pw then Inr key else Inl ErrWrongPassword)" if "q \<in> PW" for q
    using sealed_refuses [OF L s pw that] .
  note same = step_same [OF l]
  show ?thesis
  proof (cases op)
    case (VCreate rnd p params)
    show ?thesis unfolding run_vop_def VCreate vop.case
      by (intro wp_Create_there [where F = F and path = path, OF F]) (auto intro!: same simp: allowed_def unknown_def o)
  next
    case (VOpen p)
    then have p: "p \<in> PW" using op by (simp add: passwords_def)
    show ?thesis unfolding run_vop_def VOpen vop.case
    proof (rule wp_Open_sealed [where F = F and path = path, OF F len(1)])
      show "step_ok L w path PW (VOpen p) l (Ret (Unseal L data p)) F"
        unfolding un [OF p] by (rule same) (simp_all add: allowed_def o)
    qed (auto intro!: same simp: allowed_def)
  next
    case (VChange rnd current nxt params)
    then have p: "current \<in> PW" "nxt \<in> PW" and d: "draws_ok rnd" using op by (simp_all add: passwords_def op_draws_def)
    show ?thesis
    proof (cases "current = pw")
      case True
      then have k: "Unseal L data current = Inr key" using un [OF p(1)] by simp
      have new: "step_ok L w path PW op l r G" if "resealed L v path key nxt F G" "unknown r \<or> r = Ret (Inr '''') \<and> v = w" for G r v
        using that resealed_rel(1) [OF that(1) l(1)] True by (intro step_new [OF l that(1) p(2) that(2)]) (simp add: VChange allowed_def o)
      have old: "step_ok L w path PW op l r G" if "G path = F path" "unknown r \<or> (\<exists>e \<in> {ErrShortPassword, ErrRand, ErrMalformed}. r = Ret (Inl e))" for G r
        using that by (intro same) (auto simp: VChange allowed_def)
      have any: "step_ok L w path PW op l r G" if "maybe_resealed L path key nxt F G" "unknown r" for G r
        using that new old unfolding maybe_resealed_def by blast
      have "wp_on False (Change L w rnd path current nxt params)
          (\<lambda>r. wp_on False (ret (case r of Inl e \<Rightarrow> Inl e | Inr _ \<Rightarrow> Inr '''')) (\<lambda>r. step_ok L w path PW op l (Ret r)) (\<lambda>_ _. False) (step_ok L w path PW op l Halt) names)
          (\<lambda>_ _. False) (step_ok L w path PW op l Halt) names F"
      proof (rule wp_Change [where F = F and path = path, OF L(1) d F k len(2)])
        show "wp_on False (ret (case Inl e of Inl e \<Rightarrow> Inl e | Inr _ \<Rightarrow> Inr '''')) (\<lambda>r. step_ok L w path PW op l (Ret r)) (\<lambda>_ _. False) (step_ok L w path PW op l Halt) names F"
          if "CheckPassword nxt = Some e \<or> seal L key nxt params rnd = Inl e" for e
          using that by (intro wp_ret) (auto intro!: old dest: CheckPassword_error seal_errors [OF L(1)])
      qed (auto intro!: wp_ret intro: new any simp: unknown_def)
      then show ?thesis by (simp add: run_vop_def VChange wp_andThen)
    next
      case False
      then have k: "Unseal L data current = Inl ErrWrongPassword" using un [OF p(1)] by simp
      show ?thesis unfolding run_vop_def VChange vop.case using False
        by (intro wp_andThen wp_Change_refused [where F = F and path = path, OF F len(1) k] wp_ret)
          (auto intro!: same wp_ret simp: allowed_def o dest: CheckPassword_error)
    qed
  qed
qed

lemma vop_step:
  assumes "lib_ok L" "apart L PW" and "passwords op \<subseteq> PW" "op_draws op" and l: "vault_rel L path (names d) l" "owned PW l"
    and run: "run_vop L w path op (d\<lparr>dk_fates := vs\<rparr>) = (r, d')"
  shows "step_ok L w path PW op l r (names d')"
proof -
  have "end_on False (\<lambda>r. step_ok L w path PW op l (Ret r)) (\<lambda>_ _. False) (step_ok L w path PW op l Halt) names (r, d')"
    using wp_onD [OF wp_vop [OF assms(1-4), of path "names (d\<lparr>dk_fates := vs\<rparr>)" l w]] l by (simp add: run)
  then show ?thesis by (cases r) simp_all
qed

text \<open>Whatever the lock may come back to holds the key it holds now.\<close>

definition one_key :: "lock \<Rightarrow> bool" where
  "one_key l \<longleftrightarrow> (fst l = None \<longrightarrow> snd l = {}) \<and> (\<forall>key pw key' pw'. fst l = Some (key, pw) \<and> Some (key', pw') \<in> snd l \<longrightarrow> key' = key)"

lemma takes_over_one_key:
  assumes one: "one_key l" and new: "takes_over w ok r l (Some (key, p)) l'" and former: "fst l = None \<or> (\<exists>q. fst l = Some (key, q))"
  shows "one_key l'"
proof -
  have l': "fst l' = Some (key, p)" "snd l' \<subseteq> insert (fst l) (snd l)" using new by (auto simp: takes_over_def)
  have "key' = key" if "Some (key', pw') \<in> snd l'" for key' pw'
  proof -
    have "Some (key', pw') = fst l \<or> Some (key', pw') \<in> snd l" using l'(2) that by blast
    then show ?thesis using one former unfolding one_key_def by (metis empty_iff option.sel option.simps(3) fst_conv)
  qed
  then show ?thesis using l'(1) by (auto simp: one_key_def)
qed

lemma allowed_one_key:
  assumes "one_key l" "allowed w op r l l'"
  shows "one_key l'"
proof (cases op)
  case (VCreate rnd p params)
  then consider "l' = l" | key where "fst l = None" "takes_over w (Ret (Inr key)) r l (Some (key, p)) l'"
    using assms(2) by (auto simp: allowed_def)
  then show ?thesis
  proof cases
    case 2
    then show ?thesis by (intro takes_over_one_key [OF assms(1) 2(2)]) simp
  qed (simp add: assms(1))
next
  case (VOpen p)
  then show ?thesis using assms by (simp add: allowed_def)
next
  case (VChange rnd current nxt params)
  then consider "l' = l" | key where "fst l = Some (key, current)" "takes_over w (Ret (Inr '''')) r l (Some (key, nxt)) l'"
    using assms(2) by (auto simp: allowed_def)
  then show ?thesis
  proof cases
    case 2
    then show ?thesis by (intro takes_over_one_key [OF assms(1) 2(2)]) simp
  qed (simp add: assms(1))
qed

lemma lock_one_key: "lock_run w tr l \<Longrightarrow> one_key l"
proof (induction rule: lock_run.induct)
  case (Did tr l op r l')
  then show ?case using allowed_one_key by blast
qed (simp_all add: one_key_def)

section \<open>A library\<close>

definition sample_lib :: seal_lib where
  "sample_lib =
     \<lparr>sl_IDKey = (\<lambda>p s i m n. take 32 (p @ replicate 32 CHR ''k'')),
      sl_Seal = (\<lambda>k n x a. x @ take 16 (k @ replicate 16 CHR ''t'')),
      sl_Open = (\<lambda>k n c a. if drop (length c - 16) c = take 16 (k @ replicate 16 CHR ''t'') then Some (take (length c - 16) c) else None),
      sl_fold = id\<rparr>"

definition sample_draws :: draws where
  "sample_draws = \<lparr>dr_key = Some (replicate 32 CHR ''d''), dr_salt = Some (replicate 16 CHR ''s''), dr_nonce = Some (replicate 24 CHR ''n'')\<rparr>"

definition first_password :: string where "first_password = ''correcthorsebattery''"
definition second_password :: string where "second_password = ''anotheronealtogether''"

lemma sample_lib_ok: "lib_ok sample_lib"
proof -
  have "distinct (map (foldCase id) key_names)" by (simp add: key_names_def foldCase_id_ascii byte_def)
  then show ?thesis by (simp add: lib_ok_def sample_lib_def aeadKeySize_def Overhead_def min_def)
qed

lemma sample_apart: "apart sample_lib {first_password, second_password}"
  by (simp add: apart_def sample_lib_def derive_def first_password_def second_password_def)

lemma sample_draws_ok: "draws_ok sample_draws"
  by (simp add: draws_ok_def sample_draws_def KeySize_def saltSize_def NonceSizeX_def)

lemma sample_passwords: "CheckPassword first_password = None" "CheckPassword second_password = None"
proof -
  have ok: "CheckPassword p = None" if "\<forall>c \<in> set p. byte c < 128 \<and> \<not> IsSpace (byte c)" "12 \<le> length p" for p
  proof -
    have r: "runes p = ascii_pieces p" using runes_ascii_append [of p "[]"] that(1) by simp
    have d: "dropWhile (\<lambda>q. IsSpace (fst q)) ps = ps" if "set ps \<subseteq> set (ascii_pieces p)" for ps
      using that \<open>\<forall>c \<in> set p. _\<close> by (cases ps) (auto simp: ascii_pieces_def)
    have "TrimSpace p = p" by (simp add: TrimSpace_def r d)
    moreover have "RuneCountInString p = length p" by (simp add: RuneCountInString_def r ascii_pieces_def)
    ultimately show ?thesis using that(2) by (auto simp: CheckPassword_def MinPasswordChars_def)
  qed
  show "CheckPassword first_password = None" "CheckPassword second_password = None"
    by (rule ok; simp add: first_password_def second_password_def byte_def IsSpace_def)+
qed

lemma sample_seal: "\<exists>data. seal sample_lib (replicate 32 CHR ''d'') p DefaultParams sample_draws = Inr data"
proof -
  have "check DefaultParams = None" by code_simp
  then show ?thesis using sample_lib_ok by (simp add: seal_def sample_draws_def lib_ok_def derive_def Let_def)
qed

lemma WriteFile_quiet: "dk_fates d = [] \<Longrightarrow> \<exists>d1. WriteFile w path data d = (Ret (Inr ()), d1) \<and> dk_fates d1 = []"
proof -
  assume "dk_fates d = []"
  moreover have "wp_on True (WriteFile w path data) (\<lambda>r _. r = Inr ()) (\<lambda>_ _. False) (\<lambda>_. False) names (names d)" by (rule wp_WriteFile) simp_all
  ultimately have "end_on True (\<lambda>r _. r = Inr ()) (\<lambda>_ _. False) (\<lambda>_. False) names (WriteFile w path data d)" by (intro wp_onD) simp_all
  then show ?thesis by (cases "WriteFile w path data d"; cases "fst (WriteFile w path data d)") auto
qed

definition fresh_disk :: disk where "fresh_disk = \<lparr>dk_files = (\<lambda>_. None), dk_behind = (\<lambda>_. []), dk_fates = []\<rparr>"

lemma sample_created:
  "\<exists>d1. vault_Create sample_lib w sample_draws path first_password DefaultParams fresh_disk = (Ret (Inr (replicate 32 CHR ''d'')), d1)"
proof -
  obtain data where s: "seal sample_lib (replicate 32 CHR ''d'') first_password DefaultParams sample_draws = Inr data" using sample_seal by blast
  obtain d1 where "WriteFile w path data fresh_disk = (Ret (Inr ()), d1)" using WriteFile_quiet [of fresh_disk w path data] by (auto simp: fresh_disk_def)
  moreover have "dr_key sample_draws = Some (replicate 32 CHR ''d'')" by (simp add: sample_draws_def)
  moreover have "attempt (fs_Stat path) fresh_disk = (Ret (Inl ErrNotExist), fresh_disk)"
    by (simp add: attempt_def fs_Stat_def reading_def fresh_disk_def missing_def)
  ultimately show ?thesis by (simp add: vault_Create_def andThen_def ret_def sample_passwords s)
qed

section \<open>What the key file promises\<close>

text \<open>
  C11. A password change with any call failing, the machine stopping anywhere and the power lost
  afterwards, when the names the directory was not flushed for may be back to what they were: the key file is
  there whole, either as it was or holding the same data key under the new password. When the change answered
  that it was done it is the new one, power lost or not, on every machine that flushes directories; when it
  answered anything but a failed call, nothing was changed.
\<close>

theorem change_keeps_data_key:
  assumes "lib_ok L" and "draws_ok rnd" and "dk_files d path = Some (sealed_file data)" and "dk_behind d path = []"
    and "Unseal L data current = Inr key" and "length key = KeySize"
    and "Change L w rnd path current nxt params d = (r, d1)" and "d' = d1 \<or> power_cut d1 d'"
  shows "\<exists>now. dk_files d' path = Some (sealed_file now)
    \<and> (now = data \<or> CheckPassword nxt = None \<and> Unseal L now nxt = Inr key)
    \<and> (r = Ret (Inr ()) \<and> (w \<longrightarrow> d' = d1) \<longrightarrow> CheckPassword nxt = None \<and> Unseal L now nxt = Inr key)
    \<and> (\<forall>e. r = Ret (Inl e) \<longrightarrow> now = data \<or> (\<exists>x. e = ErrIO x))"
proof -
  let ?F = "names d" and ?io = "\<lambda>r. \<forall>e. r = Ret (Inl e) \<longrightarrow> (\<exists>x. e = ErrIO x)"
  let ?Q = "\<lambda>r G. (r = Ret (Inr ()) \<and> resealed L w path key nxt ?F G) \<or> (r \<noteq> Ret (Inr ()) \<and> (G path = ?F path \<or> ?io r \<and> (\<exists>v. resealed L v path key nxt ?F G)))"
  have F: "?F path = (Some (sealed_file data), [])" using assms(3,4) by (simp add: names_def)
  have "wp_on False (Change L w rnd path current nxt params) (\<lambda>r. ?Q (Ret r)) (\<lambda>_ _. False) (?Q Halt) names ?F"
    by (rule wp_Change [OF assms(1,2), where F = ?F and path = path and data = data and key = key])
      (use assms F in \<open>auto simp: maybe_resealed_def\<close>)
  from wp_onD [OF this] have "end_on False (\<lambda>r. ?Q (Ret r)) (\<lambda>_ _. False) (?Q Halt) names (r, d1)" by (simp add: assms(7))
  then have Q: "?Q r (names d1)" by (cases r) simp_all
  obtain f where f: "f \<in> set (dk_files d1 path # dk_behind d1 path)" "f = dk_files d1 path \<or> d' \<noteq> d1" "rel_option survives f (dk_files d' path) \<or> dk_files d' path = f"
    using assms(8) unfolding power_cut_def by (cases "d' = d1") auto
  have lands: "\<exists>now. dk_files d1 path = Some (sealed_file now) \<and> set (dk_behind d1 path) \<subseteq> (if v then {Some (sealed_file data)} else {})
      \<and> CheckPassword nxt = None \<and> Unseal L now nxt = Inr key" if "resealed L v path key nxt ?F (names d1)" for v
    using that F sealed_opens [OF assms(1)] by (auto simp: resealed_def landed_def names_def split: if_splits)
  have "\<exists>now. f = Some (sealed_file now) \<and> (now = data \<or> CheckPassword nxt = None \<and> Unseal L now nxt = Inr key)
    \<and> (r = Ret (Inr ()) \<and> (w \<longrightarrow> d' = d1) \<longrightarrow> CheckPassword nxt = None \<and> Unseal L now nxt = Inr key)
    \<and> (\<forall>e. r = Ret (Inl e) \<longrightarrow> now = data \<or> (\<exists>x. e = ErrIO x))"
  proof (cases "r = Ret (Inr ())")
    case True
    then obtain now where "dk_files d1 path = Some (sealed_file now)" "set (dk_behind d1 path) \<subseteq> (if w then {Some (sealed_file data)} else {})"
        "CheckPassword nxt = None" "Unseal L now nxt = Inr key" using Q lands [of w] by auto
    then show ?thesis using f(1,2) True by (auto split: if_splits)
  next
    case False
    then consider "names d1 path = ?F path" | v where "?io r" "resealed L v path key nxt ?F (names d1)" using Q by blast
    then show ?thesis
    proof cases
      case 1
      then show ?thesis using f(1) F False by (auto simp: names_def)
    next
      case 2
      then show ?thesis using lands [OF 2(2)] f(1) False by (auto split: if_splits)
    qed
  qed
  then obtain now where now: "f = Some (sealed_file now)" and rest: "now = data \<or> CheckPassword nxt = None \<and> Unseal L now nxt = Inr key"
    "r = Ret (Inr ()) \<and> (w \<longrightarrow> d' = d1) \<longrightarrow> CheckPassword nxt = None \<and> Unseal L now nxt = Inr key"
    "\<forall>e. r = Ret (Inl e) \<longrightarrow> now = data \<or> (\<exists>x. e = ErrIO x)" by blast
  have "dk_files d' path = Some (sealed_file now)" using f(3) unfolding now by (auto simp: option_rel_Some1 dest: survives_sealed)
  with rest show ?thesis by blast
qed

theorem change_keeps_data_key_witness:
  "\<exists>(d :: disk) path now. dk_files d path = Some (sealed_file now)
    \<and> (Unseal sample_lib now first_password = Inr (replicate 32 CHR ''d'') \<or> Unseal sample_lib now second_password = Inr (replicate 32 CHR ''d''))"
proof -
  let ?key = "replicate 32 CHR ''d''"
  obtain data where s: "seal sample_lib ?key first_password DefaultParams sample_draws = Inr data" using sample_seal by blast
  have o: "Unseal sample_lib data first_password = Inr ?key"
    using seal_reads [OF sample_lib_ok s _ sample_draws_ok] sealed_opens [OF sample_lib_ok] by (simp add: KeySize_def)
  let ?d = "\<lparr>dk_files = [''k'' \<mapsto> sealed_file data], dk_behind = (\<lambda>_. []), dk_fates = [Fine, Fine, Fine, Fine, Crashes 3]\<rparr>"
  obtain r d1 where r: "Change sample_lib False sample_draws ''k'' first_password second_password DefaultParams ?d = (r, d1)" by fastforce
  from change_keeps_data_key [OF sample_lib_ok sample_draws_ok _ _ o _ r, of d1] obtain now
    where "dk_files d1 ''k'' = Some (sealed_file now)" "now = data \<or> Unseal sample_lib now second_password = Inr ?key"
    by (auto simp: KeySize_def)
  then show ?thesis using o by blast
qed

text \<open>
  C12. The key file refines the abstract lock: every run of the operations over a disk, with faults in
  any call, stops and power cuts, is a run the lock allows with the same answers. So an operation that was
  acknowledged is for good once its directory was flushed; one whose outcome is unknown may be undone by the next loss of
  power and by nothing else; only the password in force opens the data key and only its bearer replaces
  it; and what a loss of power may bring back holds the very same key.
\<close>

theorem vault_refines_lock:
  assumes "lib_ok L" and "apart L PW" and "vault_run L w path PW tr d"
  shows "\<exists>l. lock_run w tr l \<and> vault_rel L path (names d) l
    \<and> (\<forall>key pw key' pw'. fst l = Some (key, pw) \<and> Some (key', pw') \<in> snd l \<longrightarrow> key' = key)"
proof -
  from assms(3) have "\<exists>l. lock_run w tr l \<and> vault_rel L path (names d) l \<and> owned PW l"
  proof (induction rule: vault_run.induct)
    case (Fresh d)
    then show ?case using Unset by (intro exI [of _ "(None, {})"]) (simp add: vault_rel_def owned_def binds_def names_def)
  next
    case (Runs tr d op vs r d')
    then obtain l where l: "lock_run w tr l" "vault_rel L path (names d) l" "owned PW l" by blast
    from vop_step [OF assms(1,2) Runs.hyps(2,3) l(2,3) Runs.hyps(4)] l(1) show ?case unfolding step_ok_def using Did by blast
  next
    case (Loss tr d d')
    then obtain l where l: "lock_run w tr l" "vault_rel L path (names d) l" "owned PW l" by blast
    obtain a where a: "a \<in> insert (fst l) (snd l)" "vault_rel L path (names d') (a, {})" using vault_rel_cut [OF l(2) Loss.hyps(2)] by blast
    then show ?case using Lost [OF l(1) a(1)] l(3) by (intro exI [of _ "(a, {})"]) (auto simp: owned_def)
  qed
  then show ?thesis using lock_one_key by (fastforce simp: one_key_def)
qed

theorem vault_refines_lock_witness:
  "\<exists>d r. vault_run sample_lib False ''k'' {first_password, second_password}
      [Op (VCreate sample_draws first_password DefaultParams) (Ret (Inr (replicate 32 CHR ''d'')))] d
    \<and> vault_rel sample_lib ''k'' (names d) (Some (replicate 32 CHR ''d'', first_password), {})"
proof -
  let ?op = "VCreate sample_draws first_password DefaultParams" and ?key = "replicate 32 CHR ''d''"
  obtain d1 where c: "vault_Create sample_lib False sample_draws ''k'' first_password DefaultParams fresh_disk = (Ret (Inr ?key), d1)"
    using sample_created by blast
  have "vault_run sample_lib False ''k'' {first_password, second_password} ([] @ [Op ?op (Ret (Inr ?key))]) d1"
    by (rule Runs [OF Fresh, of fresh_disk _ _ _ _ _ "[]"]) (use c in \<open>simp_all add: fresh_disk_def passwords_def op_draws_def sample_draws_ok run_vop_def\<close>)
  then have run: "vault_run sample_lib False ''k'' {first_password, second_password} [Op ?op (Ret (Inr ?key))] d1" by simp
  then obtain l where l: "lock_run False [Op ?op (Ret (Inr ?key))] l" "vault_rel sample_lib ''k'' (names d1) l"
    using vault_refines_lock [OF sample_lib_ok sample_apart run] by blast
  from l(1) have "l = (Some (?key, first_password), {})"
    by (cases rule: lock_run.cases) (auto simp: allowed_def takes_over_def unknown_def elim: lock_run.cases)
  then show ?thesis using run l(2) by blast
qed

text \<open>
  C19. What the parser accepts is a key file within its bounds, as numbers and not only as words: the
  costs Argon2id is run with are bounded whatever the file says. What the server seals is
  accepted and opened by its password.
\<close>

theorem key_file_well_formed:
  assumes "lib_ok L"
  shows "(parse_keyFile L data = Inr kf \<longrightarrow>
      kf_Version kf = 1 \<and> kf_KDF kf = ''argon2id'' \<and> unat (kf_Parallelism kf) \<in> {1..64} \<and> unat (kf_Iterations kf) \<in> {1..64}
      \<and> unat (kf_MemoryKiB kf) \<in> {8 * unat (kf_Parallelism kf)..1048576}
      \<and> length (kf_Salt kf) = 16 \<and> length (kf_Nonce kf) = 24 \<and> length (kf_Sealed kf) = 48 \<and> length data \<le> 65536)
    \<and> (seal L key password params rnd = Inr data \<and> length key = KeySize \<and> draws_ok rnd \<longrightarrow>
      Validate L data = None \<and> Unseal L data password = Inr key)"
proof (intro conjI impI)
  assume p: "parse_keyFile L data = Inr kf"
  then have c: "check (kf_params kf) = None"
    and f: "kf_Version kf = 1" "kf_KDF kf = ''argon2id''" "length (kf_Salt kf) = 16" "length (kf_Nonce kf) = 24" "length (kf_Sealed kf) = 48" "length data \<le> 65536"
    by (auto simp: parse_keyFile_def fileVersion_def kdfName_def saltSize_def NonceSizeX_def KeySize_def Overhead_def maxKeyFileBytes_def
        split: if_splits option.splits)
  have nz: "kf_Parallelism kf \<noteq> 0" "kf_Iterations kf \<noteq> 0" and w: "kf_Parallelism kf \<le> 64" "kf_Iterations kf \<le> 64"
      "8 * ucast (kf_Parallelism kf) \<le> kf_MemoryKiB kf" "kf_MemoryKiB kf \<le> 1048576"
    using c by (auto simp: check_def kf_params_def maxParallelism_def maxIterations_def maxMemoryKiB_def not_less split: if_splits)
  have n: "1 \<le> unat (kf_Parallelism kf)" "unat (kf_Parallelism kf) \<le> 64" "1 \<le> unat (kf_Iterations kf)" "unat (kf_Iterations kf) \<le> 64"
      "unat (8 * ucast (kf_Parallelism kf) :: 32 word) \<le> unat (kf_MemoryKiB kf)" "unat (kf_MemoryKiB kf) \<le> 1048576"
    using w nz unfolding word_le_nat_alt by (simp_all add: Suc_le_eq unat_gt_0)
  have "unat (8 * ucast (kf_Parallelism kf) :: 32 word) = 8 * unat (kf_Parallelism kf)"
    using n(2) by (simp add: unat_word_ariths unsigned_ucast_eq take_bit_nat_eq_self)
  with n f show "kf_Version kf = 1" "kf_KDF kf = ''argon2id''" "unat (kf_Parallelism kf) \<in> {1..64}" "unat (kf_Iterations kf) \<in> {1..64}"
    "unat (kf_MemoryKiB kf) \<in> {8 * unat (kf_Parallelism kf)..1048576}" "length (kf_Salt kf) = 16" "length (kf_Nonce kf) = 24"
    "length (kf_Sealed kf) = 48" "length data \<le> 65536" by simp_all
next
  assume s: "seal L key password params rnd = Inr data \<and> length key = KeySize \<and> draws_ok rnd"
  then have "sealed_under L key password data" using seal_reads assms by blast
  then show "Validate L data = None" "Unseal L data password = Inr key"
    using sealed_opens [OF assms] by (auto simp: Validate_def sealed_under_def)
qed

theorem key_file_well_formed_witness:
  "\<exists>data. seal sample_lib (replicate 32 CHR ''d'') first_password DefaultParams sample_draws = Inr data \<and> Validate sample_lib data = None
    \<and> Unseal sample_lib data first_password = Inr (replicate 32 CHR ''d'')"
proof -
  obtain data where s: "seal sample_lib (replicate 32 CHR ''d'') first_password DefaultParams sample_draws = Inr data" using sample_seal by blast
  then show ?thesis
    using key_file_well_formed [OF sample_lib_ok, of data undefined "replicate 32 CHR ''d''" first_password DefaultParams sample_draws] sample_draws_ok
    by (simp add: KeySize_def)
qed

end
