(* ===== verification/Gate_Properties.thy ===== *)
theory Gate_Properties
  imports Gate Vault_Properties
begin

text \<open>
  What the lock promises over the life of a server, process after process, with the disk failing,
  the machine stopping and the rest of the directory changing under it: the data key is handed over
  only to a password that opens it and is always the same; a refusal leaves the disk as it was;
  and only a program or a page of this machine reaches the key file at all.
\<close>

section \<open>One request\<close>

lemma wp_andThen_ret:
  assumes "wp_on q (andThen m (\<lambda>r. ret (f r))) Q E C v F"
  shows "wp_on q m (\<lambda>r. Q (f r)) E C v F"
  unfolding wp_def
proof (intro allI impI)
  fix d :: disk
  assume d: "v d = F" "q \<longrightarrow> dk_fates d = []"
  obtain r d1 where m: "m d = (r, d1)" by fastforce
  have "end_on q Q E C v (andThen m (\<lambda>r. ret (f r)) d)" by (rule wp_onD) (use assms d in simp_all)
  then show "end_on q (\<lambda>r. Q (f r)) E C v (m d)" by (cases r) (simp_all add: m andThen_def ret_def)
qed

lemma wp_present:
  "(\<And>b. b \<longleftrightarrow> fst (F n) \<noteq> None \<Longrightarrow> Q (Inr b) F) \<Longrightarrow> (\<And>e. Q (Inl e) F) \<Longrightarrow> C F \<Longrightarrow> wp_on q (present n) Q E C names F"
  unfolding present_def by (intro wp_intros) auto

lemma wp_detectLock:
  assumes "\<And>st. st = stateSetup \<and> fst (F db) = None \<and> fst (F key) = None \<or> st = stateLocked \<and> fst (F db) \<noteq> None \<and> fst (F key) \<noteq> None \<Longrightarrow> Q (Inr st) F"
    and "\<And>e. Q (Inl e) F" and "C F"
  shows "wp_on q (detectLock db key) Q E C names F"
proof -
  have ends: "wp_on q (andThen (present key) (\<lambda>hasKey. case hasKey of Inl e \<Rightarrow> ret (Inl e) | Inr hasKey \<Rightarrow>
      ret (if \<not> hasDB \<and> \<not> hasKey then Inr stateSetup else if hasDB \<and> hasKey then Inr stateLocked else if hasDB then Inl NoKeyFile else Inl NoDatabase))) Q E C names F"
    if "hasDB \<longleftrightarrow> fst (F db) \<noteq> None" for hasDB
    using that by (intro wp_andThen wp_present) (auto intro!: wp_ret assms)
  show ?thesis unfolding detectLock_def
  proof (rule wp_andThen, rule wp_present, goal_cases)
    case (1 b)
    show ?case unfolding sum.case by (rule ends [OF 1])
  next
    case (2 e)
    show ?case unfolding sum.case by (intro wp_ret assms)
  qed (rule assms(3))
qed

text \<open>
  What a request may come to, in terms of the lock alone. The data key goes to the password in force, asked for by an
  unlocking request, or to the first password, given twice, which comes into force by it. A change is answered as done
  only when it named the password in force; from then on the new one is. An answer that points to the log, or none at all,
  leaves open whether the new password took over.
\<close>

definition sets_first :: "gateRequest \<Rightarrow> lock \<Rightarrow> bool" where
  "sets_first req l \<longleftrightarrow> fst l = None \<and> gq_kind req \<in> {reqSetup, reqOpen} \<and> gq_repeat req = gq_password req \<and> CheckPassword (gq_password req) = None"

definition changes_from :: "gateRequest \<Rightarrow> string \<Rightarrow> lock \<Rightarrow> bool" where
  "changes_from req k l \<longleftrightarrow> gq_kind req = reqChange \<and> fst l = Some (k, gq_current req) \<and> CheckPassword (gq_password req) = None"

definition new_lock :: "bool \<Rightarrow> string \<Rightarrow> gateRequest \<Rightarrow> lock \<Rightarrow> lock" where
  "new_lock stays k req l = (Some (k, gq_password req), if stays then insert (fst l) (snd l) else {})"

definition maybe_did :: "gateRequest \<Rightarrow> lock \<Rightarrow> lock \<Rightarrow> bool" where
  "maybe_did req l l' \<longleftrightarrow> l' = l \<or> (\<exists>k. (sets_first req l \<or> changes_from req k l) \<and> l' = new_lock True k req l)"

definition comes_to :: "bool \<Rightarrow> gateRequest \<Rightarrow> served \<Rightarrow> lock \<Rightarrow> lock \<Rightarrow> bool" where
  "comes_to w req sv l l' \<longleftrightarrow>
     (case sv of
        DataKey k \<Rightarrow> gq_kind req \<in> {reqUnlock, reqOpen} \<and> fst l = Some (k, gq_password req) \<and> l' = l \<or> sets_first req l \<and> l' = new_lock w k req l
      | Answered rep \<Rightarrow>
          if gp_code rep = gate_codeInternal then maybe_did req l l'
          else if gp_code rep = '''' \<and> gq_kind req = reqChange then \<exists>k. changes_from req k l \<and> l' = new_lock w k req l
          else l' = l \<and> (gp_code rep = codeWrong \<longrightarrow> (\<exists>k pw. fst l = Some (k, pw)
                 \<and> (if gq_kind req = reqChange then gq_current req else gq_password req) \<noteq> pw)))"

definition gate_keeps :: "gate \<Rightarrow> served \<Rightarrow> gate \<Rightarrow> bool" where
  "gate_keeps g sv g' \<longleftrightarrow> ga_dbPath g' = ga_dbPath g \<and> ga_keyPath g' = ga_keyPath g \<and> ga_srv g' = ga_srv g
     \<and> (case sv of
          DataKey _ \<Rightarrow> ga_state g' = stateOpening \<and> (ga_state g = stateSetup \<or> ga_state g = stateLocked)
        | Answered _ \<Rightarrow> ga_state g' = ga_state g \<or> ga_state g = stateSetup \<and> ga_state g' = stateLocked)"

definition lock_ok :: "seal_lib \<Rightarrow> string \<Rightarrow> string set \<Rightarrow> lock \<Rightarrow> ndir \<Rightarrow> bool" where
  "lock_ok L key PW l G \<longleftrightarrow> vault_rel L key G l \<and> owned PW l"

definition request_end :: "seal_lib \<Rightarrow> bool \<Rightarrow> string \<Rightarrow> string set \<Rightarrow> lock \<Rightarrow> gateRequest \<Rightarrow> gate \<Rightarrow> served \<times> gate \<Rightarrow> ndir \<Rightarrow> bool" where
  "request_end L w key PW l req g r G \<longleftrightarrow> gate_keeps g (fst r) (snd r) \<and> (\<exists>l'. comes_to w req (fst r) l l' \<and> lock_ok L key PW l' G)"

definition request_stops :: "seal_lib \<Rightarrow> string \<Rightarrow> string set \<Rightarrow> lock \<Rightarrow> gateRequest \<Rightarrow> ndir \<Rightarrow> bool" where
  "request_stops L key PW l req G \<longleftrightarrow> (\<exists>l'. maybe_did req l l' \<and> lock_ok L key PW l' G)"

lemmas code_defs = codeWrong_def codeShort_def codeMismatch_def codeState_def codePath_def gate_codeInternal_def

lemma request_end_same:
  "lock_ok L key PW l G \<Longrightarrow> gate_keeps g sv g' \<Longrightarrow> comes_to w req sv l l \<Longrightarrow> request_end L w key PW l req g (sv, g') G"
  unfolding request_end_def fst_conv snd_conv by blast

lemma op_end:
  assumes "step_ok L w key PW op l r G" "gate_keeps g sv g'" "\<And>l'. allowed w op r l l' \<Longrightarrow> comes_to w req sv l l'"
  shows "request_end L w key PW l req g (sv, g') G"
  using assms unfolding step_ok_def request_end_def lock_ok_def fst_conv snd_conv by blast

lemma op_stops:
  assumes "step_ok L w key PW op l Halt G" "\<And>l'. allowed w op Halt l l' \<Longrightarrow> maybe_did req l l'"
  shows "request_stops L key PW l req G"
  using assms unfolding step_ok_def request_stops_def lock_ok_def by blast

lemma stops_here: "lock_ok L key PW l G \<Longrightarrow> request_stops L key PW l req G"
  unfolding request_stops_def maybe_did_def by blast

definition asks_ok :: "string set \<Rightarrow> draws \<Rightarrow> gateRequest \<Rightarrow> bool" where
  "asks_ok PW rnd req \<longleftrightarrow> gq_password req \<in> PW \<and> gq_current req \<in> PW \<and> draws_ok rnd"

lemma keeps_same [simp]: "gate_keeps g (Answered rep) g"
  by (simp add: gate_keeps_def)

lemma answered_ok:
  "code \<noteq> codeWrong \<Longrightarrow> code = '''' \<longrightarrow> gq_kind req \<noteq> reqChange \<Longrightarrow> comes_to w req (Answered \<lparr>gp_code = code, gp_message = msg\<rparr>) l l"
  "comes_to w req (Answered \<lparr>gp_code = gate_codeInternal, gp_message = msg\<rparr>) l l' \<longleftrightarrow> maybe_did req l l'"
  by (cases "code = ''''"; cases "gq_kind req = reqChange"; simp add: comes_to_def maybe_did_def)+

text \<open>The operations on the key file, in terms of requests.\<close>

lemma unknown_not [simp]: "\<not> unknown (Ret (Inr x))" "unknown (Ret (Inl e)) \<longleftrightarrow> (\<exists>x. e = ErrIO x)"
  by (auto simp: unknown_def)

lemma create_request:
  assumes "allowed w (VCreate rnd (gq_password req) params) r l l'" "gq_kind req \<in> {reqSetup, reqOpen}" "gq_repeat req = gq_password req"
  shows "maybe_did req l l' \<or> (\<exists>k. r = Ret (Inr k))" "r = Ret (Inr k) \<Longrightarrow> comes_to w req (DataKey k) l l'" "r = Ret (Inl ErrExists) \<Longrightarrow> l' = l"
proof -
  show "maybe_did req l l' \<or> (\<exists>k. r = Ret (Inr k))"
    using assms unfolding allowed_def vop.case takes_over_def maybe_did_def sets_first_def new_lock_def by auto
  show "r = Ret (Inr k) \<Longrightarrow> comes_to w req (DataKey k) l l'"
    using assms by (auto simp: allowed_def takes_over_def comes_to_def sets_first_def new_lock_def)
  show "r = Ret (Inl ErrExists) \<Longrightarrow> l' = l"
    using assms by (auto simp: allowed_def takes_over_def)
qed

lemma open_request:
  assumes "allowed w (VOpen (gq_password req)) r l l'" "gq_kind req \<in> {reqUnlock, reqOpen}"
  shows "l' = l" "r = Ret (Inr k) \<Longrightarrow> comes_to w req (DataKey k) l l'"
    "r = Ret (Inl ErrWrongPassword) \<Longrightarrow> comes_to w req (Answered \<lparr>gp_code = codeWrong, gp_message = m\<rparr>) l l'"
  using assms by (auto simp: allowed_def comes_to_def code_defs split: if_splits)

lemma change_request:
  assumes "allowed w (VChange rnd (gq_current req) (gq_password req) params) r l l'" "gq_kind req = reqChange"
  shows "maybe_did req l l' \<or> r = Ret (Inr '''')" "r = Ret (Inr '''') \<Longrightarrow> comes_to w req (Answered \<lparr>gp_code = '''', gp_message = m\<rparr>) l l'"
    "r = Ret (Inl ErrShortPassword) \<Longrightarrow> l' = l"
    "r = Ret (Inl ErrWrongPassword) \<Longrightarrow> comes_to w req (Answered \<lparr>gp_code = codeWrong, gp_message = m\<rparr>) l l'"
proof -
  show "maybe_did req l l' \<or> r = Ret (Inr '''')"
    using assms unfolding allowed_def vop.case takes_over_def maybe_did_def changes_from_def new_lock_def by auto
  show "r = Ret (Inr '''') \<Longrightarrow> comes_to w req (Answered \<lparr>gp_code = '''', gp_message = m\<rparr>) l l'"
    using assms by (auto simp: allowed_def takes_over_def comes_to_def changes_from_def new_lock_def code_defs)
  show "r = Ret (Inl ErrShortPassword) \<Longrightarrow> l' = l"
    using assms by (auto simp: allowed_def takes_over_def)
  show "r = Ret (Inl ErrWrongPassword) \<Longrightarrow> comes_to w req (Answered \<lparr>gp_code = codeWrong, gp_message = m\<rparr>) l l'"
    using assms by (auto simp: allowed_def takes_over_def comes_to_def code_defs)
qed

lemma wp_handle:
  assumes L: "lib_ok L" "apart L PW" and req: "asks_ok PW rnd req" and l: "lock_ok L (ga_keyPath g) PW l F"
  shows "wp_on False (handle L w rnd bk req g) (request_end L w (ga_keyPath g) PW l req g) (\<lambda>_ _. False) (request_stops L (ga_keyPath g) PW l req) names F"
proof -
  let ?key = "ga_keyPath g"
  let ?wp = "\<lambda>m. wp_on False m (request_end L w ?key PW l req g) (\<lambda>_ _. False) (request_stops L ?key PW l req) names"
  note rel = l [unfolded lock_ok_def, THEN conjunct1] l [unfolded lock_ok_def, THEN conjunct2]
  have op: "wp_on False (run_vop L w ?key op) (\<lambda>r. step_ok L w ?key PW op l (Ret r)) (\<lambda>_ _. False) (step_ok L w ?key PW op l Halt) names F"
    if "passwords op \<subseteq> PW" "op_draws op" for op
    by (rule wp_vop [OF L that rel])
  have ans: "?wp (answer_with code msg g') F" if "gate_keeps g (Answered \<lparr>gp_code = code, gp_message = msg\<rparr>) g'"
      "code \<noteq> codeWrong" "code = '''' \<longrightarrow> gq_kind req \<noteq> reqChange" for code msg g'
    unfolding answer_with_def using that by (intro wp_ret request_end_same l answered_ok(1))
  have create: "?wp (andThen (vault_Create L w rnd ?key (gq_password req) (ga_kdf g)) (\<lambda>made.
      case made of
        Inr k \<Rightarrow> ret (DataKey k, g\<lparr>ga_state := stateOpening\<rparr>)
      | Inl e \<Rightarrow> if e = ErrExists then answer_with codeState '''' g
                else answer_with gate_codeInternal ''the server could not write its key file - see its log'' g)) F"
    if st: "ga_state g = stateSetup" and k: "gq_kind req \<in> {reqSetup, reqOpen}" and twice: "gq_repeat req = gq_password req"
  proof (rule wp_andThen, rule wp_mono [OF op [of "VCreate rnd (gq_password req) (ga_kdf g)", unfolded run_vop_def vop.case]])
    show "passwords (VCreate rnd (gq_password req) (ga_kdf g)) \<subseteq> PW" "op_draws (VCreate rnd (gq_password req) (ga_kdf g))"
      using req by (simp_all add: asks_ok_def passwords_def op_draws_def)
    note c = create_request [OF _ k twice]
    fix made G
    assume s: "step_ok L w ?key PW (VCreate rnd (gq_password req) (ga_kdf g)) l (Ret made) G"
    show "?wp (case made of
        Inr k \<Rightarrow> ret (DataKey k, g\<lparr>ga_state := stateOpening\<rparr>)
      | Inl e \<Rightarrow> if e = ErrExists then answer_with codeState '''' g
                else answer_with gate_codeInternal ''the server could not write its key file - see its log'' g) G"
    proof (cases made)
      case (Inl e)
      have "comes_to w req (Answered \<lparr>gp_code = if e = ErrExists then codeState else gate_codeInternal, gp_message = m\<rparr>) l l'"
        if "allowed w (VCreate rnd (gq_password req) (ga_kdf g)) (Ret made) l l'" for l' m
        using c(1,3) [OF that] Inl answered_ok(1) [of codeState req w m l] by (auto simp: answered_ok(2) codeWrong_def codeState_def)
      from op_end [OF s _ this] show ?thesis using Inl unfolding answer_with_def by (auto intro!: wp_ret)
    next
      case (Inr k)
      have "comes_to w req (DataKey k) l l'" if "allowed w (VCreate rnd (gq_password req) (ga_kdf g)) (Ret made) l l'" for l'
        using c(2) [OF that] Inr by simp
      from op_end [OF s _ this] show ?thesis using Inr st by (auto simp: gate_keeps_def intro!: wp_ret)
    qed
  next
    fix G
    assume "step_ok L w ?key PW (VCreate rnd (gq_password req) (ga_kdf g)) l Halt G"
    then show "request_stops L ?key PW l req G" by (rule op_stops) (drule create_request(1) [OF _ k twice], simp)
  qed simp
  have opens: "?wp (unlock L req g) F" if st: "ga_state g = stateLocked" and k: "gq_kind req \<in> {reqUnlock, reqOpen}"
    unfolding unlock_def
  proof (rule wp_andThen, rule wp_mono [OF op [of "VOpen (gq_password req)", unfolded run_vop_def vop.case]])
    show "passwords (VOpen (gq_password req)) \<subseteq> PW" "op_draws (VOpen (gq_password req))"
      using req by (simp_all add: asks_ok_def passwords_def op_draws_def)
    note c = open_request [OF _ k]
    fix r G
    assume s: "step_ok L w ?key PW (VOpen (gq_password req)) l (Ret r) G"
    show "?wp (case r of
        Inr k \<Rightarrow> ret (DataKey k, g\<lparr>ga_state := stateOpening\<rparr>)
      | Inl e \<Rightarrow> if e = ErrWrongPassword then answer_with codeWrong '''' g
                else answer_with gate_codeInternal ''the server could not read its key file - see its log'' g) G"
    proof (cases r)
      case (Inl e)
      have "comes_to w req (Answered \<lparr>gp_code = if e = ErrWrongPassword then codeWrong else gate_codeInternal, gp_message = m\<rparr>) l l'"
        if "allowed w (VOpen (gq_password req)) (Ret r) l l'" for l' m
        using c(1,3) [OF that] Inl by (auto simp: answered_ok(2) maybe_did_def)
      from op_end [OF s _ this] show ?thesis using Inl unfolding answer_with_def by (auto intro!: wp_ret)
    next
      case (Inr k)
      have "comes_to w req (DataKey k) l l'" if "allowed w (VOpen (gq_password req)) (Ret r) l l'" for l'
        using c(2) [OF that] Inr by simp
      from op_end [OF s _ this] show ?thesis using Inr st by (auto simp: gate_keeps_def intro!: wp_ret)
    qed
  next
    fix G
    assume "step_ok L w ?key PW (VOpen (gq_password req)) l Halt G"
    then show "request_stops L ?key PW l req G" by (rule op_stops) (drule open_request(1) [OF _ k], simp add: maybe_did_def)
  qed simp
  have changes: "?wp (change L w rnd req g) F" if k: "gq_kind req = reqChange"
    unfolding change_def
  proof (rule wp_andThen, rule wp_mono [OF wp_andThen_ret [OF op [of "VChange rnd (gq_current req) (gq_password req) (ga_kdf g)", unfolded run_vop_def vop.case]]])
    show "passwords (VChange rnd (gq_current req) (gq_password req) (ga_kdf g)) \<subseteq> PW" "op_draws (VChange rnd (gq_current req) (gq_password req) (ga_kdf g))"
      using req by (simp_all add: asks_ok_def passwords_def op_draws_def)
    note c = change_request [OF _ k]
    fix r G
    assume s: "step_ok L w ?key PW (VChange rnd (gq_current req) (gq_password req) (ga_kdf g)) l (Ret (case r of Inl e \<Rightarrow> Inl e | Inr _ \<Rightarrow> Inr '''')) G"
    show "?wp (case r of
        Inl e \<Rightarrow> if e = ErrShortPassword then answer_with codeShort '''' g
                else if e = ErrWrongPassword then answer_with codeWrong '''' g
                else answer_with gate_codeInternal ''the server could not change its password - see its log'' g
      | Inr _ \<Rightarrow> answer_with '''' '''' g) G"
    proof (cases r)
      case (Inl e)
      have "comes_to w req (Answered \<lparr>gp_code = if e = ErrShortPassword then codeShort else if e = ErrWrongPassword then codeWrong else gate_codeInternal,
          gp_message = m\<rparr>) l l'"
        if "allowed w (VChange rnd (gq_current req) (gq_password req) (ga_kdf g)) (Ret (case r of Inl e \<Rightarrow> Inl e | Inr _ \<Rightarrow> Inr '''')) l l'" for l' m
        using c(1,3,4) [OF that] Inl answered_ok(1) [of codeShort req w m l] by (auto simp: answered_ok(2) codeWrong_def codeShort_def)
      from op_end [OF s _ this] show ?thesis using Inl unfolding answer_with_def by (auto intro!: wp_ret)
    next
      case (Inr k)
      have "comes_to w req (Answered \<lparr>gp_code = '''', gp_message = m\<rparr>) l l'"
        if "allowed w (VChange rnd (gq_current req) (gq_password req) (ga_kdf g)) (Ret (case r of Inl e \<Rightarrow> Inl e | Inr _ \<Rightarrow> Inr '''')) l l'" for l' m
        using c(2) [OF that] Inr by simp
      from op_end [OF s _ this] show ?thesis using Inr unfolding answer_with_def by (auto intro!: wp_ret)
    qed
  next
    fix G
    assume "step_ok L w ?key PW (VChange rnd (gq_current req) (gq_password req) (ga_kdf g)) l Halt G"
    then show "request_stops L ?key PW l req G" by (rule op_stops) (drule change_request(1) [OF _ k], simp)
  qed simp
  have sets: "?wp (gate_setup L w rnd req g) F" if st: "ga_state g = stateSetup" and k: "gq_kind req \<in> {reqSetup, reqOpen}"
    unfolding gate_setup_def
    by (intro wp_if ans wp_andThen wp_detectLock) (use k in \<open>auto intro!: ans stops_here l create st simp: st gate_keeps_def code_defs\<close>)
  show ?thesis
    unfolding handle_def Let_def
    by (cases "gq_kind req"; cases bk) (auto intro!: ans sets opens changes simp: backup_def code_defs)
qed


section \<open>The life of a server\<close>

text \<open>
  Between a start and the end of a process it waits for the key, opens the data with it, and serves.
\<close>

datatype phase = Down | Waiting gate | Opening gate | Serving gate

fun phase_gate :: "phase \<Rightarrow> gate option" where
  "phase_gate Down = None"
| "phase_gate (Waiting g) = Some g"
| "phase_gate (Opening g) = Some g"
| "phase_gate (Serving g) = Some g"

text \<open>
  What happens in it, in order: a start, a request and what came of it, a request the process or the machine stopped in, a
  loss of power.
\<close>

datatype gate_event = Booted | Asked gateRequest served | CutOff gateRequest | PowerLost

text \<open>
  A run of the server on one directory: its events, the disk, and where the process stands. \<open>awaitKey\<close>
  serves requests until one brings a key, \<open>serveOpen\<close> once the data is open. The process may end at any
  moment, with or without a request being served, and power may be lost at any moment. Whatever else
  happens in the directory leaves the key file's name alone, except that it may flush the directory.
\<close>

inductive gate_run :: "seal_lib \<Rightarrow> bool \<Rightarrow> string \<Rightarrow> string \<Rightarrow> string set \<Rightarrow> gate_event list \<Rightarrow> disk \<Rightarrow> phase \<Rightarrow> bool"
  for L w db key PW where
  NewDisk: "dk_files d key = None \<Longrightarrow> dk_behind d key = [] \<Longrightarrow> gate_run L w db key PW [] d Down"
| Boots: "gate_run L w db key PW tr d Down \<Longrightarrow> detectLock db key (d\<lparr>dk_fates := vs\<rparr>) = (Ret (Inr st), d') \<Longrightarrow>
    gate_run L w db key PW (tr @ [Booted]) d' (Waiting (newGate db key st kdf tok))"
| Awaits: "gate_run L w db key PW tr d (Waiting g) \<Longrightarrow> asks_ok PW rnd req \<Longrightarrow>
    handle L w rnd bk req g (d\<lparr>dk_fates := vs\<rparr>) = (Ret (sv, g'), d') \<Longrightarrow>
    gate_run L w db key PW (tr @ [Asked req sv]) d' (case sv of DataKey _ \<Rightarrow> Opening g' | Answered _ \<Rightarrow> Waiting g')"
| Opens: "gate_run L w db key PW tr d (Opening g) \<Longrightarrow> gate_run L w db key PW tr d (Serving (opened_gate g))"
| Serves: "gate_run L w db key PW tr d (Serving g) \<Longrightarrow> asks_ok PW rnd req \<Longrightarrow>
    handle L w rnd bk req g (d\<lparr>dk_fates := vs\<rparr>) = (Ret (sv, g'), d') \<Longrightarrow>
    gate_run L w db key PW (tr @ [Asked req sv]) d' (Serving g')"
| Stops: "gate_run L w db key PW tr d ph \<Longrightarrow> ph = Waiting g \<or> ph = Serving g \<Longrightarrow> asks_ok PW rnd req \<Longrightarrow>
    handle L w rnd bk req g (d\<lparr>dk_fates := vs\<rparr>) = (Halt, d') \<Longrightarrow> gate_run L w db key PW (tr @ [CutOff req]) d' Down"
| Ends: "gate_run L w db key PW tr d ph \<Longrightarrow> gate_run L w db key PW tr d Down"
| Dark: "gate_run L w db key PW tr d ph \<Longrightarrow> power_cut d d' \<Longrightarrow> gate_run L w db key PW (tr @ [PowerLost]) d' Down"
| Others: "gate_run L w db key PW tr d ph \<Longrightarrow> dk_files d' key = dk_files d key \<Longrightarrow> set (dk_behind d' key) \<subseteq> set (dk_behind d key) \<Longrightarrow>
    gate_run L w db key PW tr d' ph"

text \<open>The lock over such a life, from the events alone.\<close>

definition lock_event :: "bool \<Rightarrow> gate_event \<Rightarrow> lock \<Rightarrow> lock \<Rightarrow> bool" where
  "lock_event w e l l' \<longleftrightarrow>
     (case e of
        Booted \<Rightarrow> l' = l
      | Asked req sv \<Rightarrow> comes_to w req sv l l'
      | CutOff req \<Rightarrow> maybe_did req l l'
      | PowerLost \<Rightarrow> \<exists>a \<in> insert (fst l) (snd l). l' = (a, {}))"

fun lived :: "bool \<Rightarrow> gate_event list \<Rightarrow> lock \<Rightarrow> lock \<Rightarrow> bool" where
  "lived w [] l l' \<longleftrightarrow> l' = l"
| "lived w (e # es) l l' \<longleftrightarrow> (\<exists>l1. lock_event w e l l1 \<and> lived w es l1 l')"

lemma lived_append: "lived w (us @ vs) l l' \<longleftrightarrow> (\<exists>l1. lived w us l l1 \<and> lived w vs l1 l')"
  by (induction us arbitrary: l) auto

lemma lived_snoc: "lived w tr l l1 \<Longrightarrow> lock_event w e l1 l' \<Longrightarrow> lived w (tr @ [e]) l l'"
  unfolding lived_append lived.simps by blast

text \<open>The key a lock holds is taken away by a loss of power only.\<close>

definition holds :: "string \<Rightarrow> lock \<Rightarrow> bool" where
  "holds k l \<longleftrightarrow> (\<exists>pw. fst l = Some (k, pw))"

lemma maybe_holds: "maybe_did req l l' \<Longrightarrow> holds k l \<Longrightarrow> holds k l'"
  by (auto simp: maybe_did_def holds_def sets_first_def changes_from_def new_lock_def)

lemma comes_holds:
  assumes "comes_to w req sv l l'" "holds k l"
  shows "holds k l' \<and> (\<forall>k'. sv = DataKey k' \<longrightarrow> k' = k)"
  using assms maybe_holds [of req l l' k]
  by (cases sv) (auto simp: comes_to_def holds_def sets_first_def changes_from_def new_lock_def split: if_splits)

lemma event_holds: "lock_event w e l l' \<Longrightarrow> holds k l \<Longrightarrow> e \<noteq> PowerLost \<Longrightarrow> holds k l'"
  using comes_holds maybe_holds by (cases e) (auto simp: lock_event_def)

lemma lived_holds: "lived w es l l' \<Longrightarrow> holds k l \<Longrightarrow> PowerLost \<notin> set es \<Longrightarrow> holds k l'"
  by (induction es arbitrary: l) (auto dest: event_holds)

lemma given_holds: "comes_to w req (DataKey k) l l' \<Longrightarrow> fst l' = Some (k, gq_password req)"
  by (auto simp: comes_to_def new_lock_def)

text \<open>Every owner the lock has or may come back to holds the key: then not even a loss of power takes it away.\<close>

definition firm :: "string \<Rightarrow> lock \<Rightarrow> bool" where
  "firm k l \<longleftrightarrow> (\<forall>a \<in> insert (fst l) (snd l). \<exists>pw. a = Some (k, pw))"

lemma firm_holds: "firm k l \<Longrightarrow> holds k l"
  by (simp add: firm_def holds_def)

lemma maybe_firm: "maybe_did req l l' \<Longrightarrow> firm k l \<Longrightarrow> firm k l'"
  by (auto simp: maybe_did_def firm_def sets_first_def changes_from_def new_lock_def)

lemma comes_firm: "comes_to w req sv l l' \<Longrightarrow> firm k l \<Longrightarrow> firm k l'"
  using maybe_firm [of req l l' k]
  by (cases sv) (auto simp: comes_to_def firm_def sets_first_def changes_from_def new_lock_def split: if_splits)

lemma event_firm: "lock_event w e l l' \<Longrightarrow> firm k l \<Longrightarrow> firm k l'"
  using comes_firm maybe_firm by (cases e) (auto simp: lock_event_def, auto simp: firm_def)

lemma lived_firm:
  "lived w es l l' \<Longrightarrow> firm k l \<Longrightarrow> firm k l' \<and> (\<forall>req k'. Asked req (DataKey k') \<in> set es \<longrightarrow> k' = k)"
proof (induction es arbitrary: l)
  case (Cons e es)
  then obtain l1 where l1: "lock_event w e l l1" "lived w es l1 l'" by auto
  have "firm k l1" using event_firm [OF l1(1) Cons.prems(2)] .
  moreover have "k' = k" if "e = Asked req (DataKey k')" for req k'
    using comes_holds [of w req "DataKey k'" l l1 k] l1(1) firm_holds [OF Cons.prems(2)] that by (simp add: lock_event_def)
  ultimately show ?case using Cons.IH [OF l1(2)] by auto
qed simp

text \<open>One password and nothing else: it stays as long as no change is asked for.\<close>

fun asks_change :: "gate_event \<Rightarrow> bool" where
  "asks_change (Asked req sv) \<longleftrightarrow> gq_kind req = reqChange"
| "asks_change (CutOff req) \<longleftrightarrow> gq_kind req = reqChange"
| "asks_change _ \<longleftrightarrow> False"

lemma event_settled:
  assumes "lock_event w e (Some (k, p), {}) l'" "\<not> asks_change e"
  shows "l' = (Some (k, p), {})" "e = Asked req (DataKey k') \<Longrightarrow> gq_password req = p"
proof -
  have m: "l' = (Some (k, p), {})" if "maybe_did req (Some (k, p), {}) l'" "gq_kind req \<noteq> reqChange" for req
    using that by (auto simp: maybe_did_def sets_first_def changes_from_def)
  show "l' = (Some (k, p), {})"
  proof (cases e)
    case (Asked req sv)
    then show ?thesis using assms m [of req] by (cases sv) (auto simp: lock_event_def comes_to_def sets_first_def split: if_splits)
  qed (use assms m in \<open>auto simp: lock_event_def\<close>)
  show "e = Asked req (DataKey k') \<Longrightarrow> gq_password req = p"
    using assms(1) by (auto simp: lock_event_def comes_to_def sets_first_def)
qed

lemma lived_settled:
  assumes "lived w es (Some (k, p), {}) l'" "\<forall>e \<in> set es. \<not> asks_change e"
  shows "l' = (Some (k, p), {}) \<and> (\<forall>req k'. Asked req (DataKey k') \<in> set es \<longrightarrow> gq_password req = p)"
  using assms
proof (induction es)
  case (Cons e es)
  then obtain l1 where l1: "lock_event w e (Some (k, p), {}) l1" "lived w es l1 l'" by auto
  have e: "\<not> asks_change e" using Cons.prems(2) by simp
  show ?case using Cons.IH event_settled [OF l1(1) e] l1(2) Cons.prems(2) by auto
qed simp

text \<open>A password that was acknowledged: by the answer to a change, or by the key for a first password.\<close>

fun acknowledges :: "gate_event \<Rightarrow> string option" where
  "acknowledges (Asked req (DataKey k)) = (if gq_kind req = reqSetup then Some (gq_password req) else None)"
| "acknowledges (Asked req (Answered rep)) = (if gq_kind req = reqChange \<and> gp_code rep = '''' then Some (gq_password req) else None)"
| "acknowledges _ = None"

lemma acknowledged_settles:
  assumes "lock_event False e l l'" "acknowledges e = Some p"
  shows "\<exists>k. l' = (Some (k, p), {}) \<and> (\<forall>req k'. e = Asked req (DataKey k') \<longrightarrow> k' = k)"
  using assms by (cases e rule: acknowledges.cases) (auto simp: lock_event_def comes_to_def changes_from_def new_lock_def code_defs split: if_splits)

section \<open>A life and its lock\<close>

text \<open>In this process, and with the power on since, a request was given the key the lock still holds.\<close>

definition opened_with :: "gate_event list \<Rightarrow> lock \<Rightarrow> bool" where
  "opened_with tr l \<longleftrightarrow> (\<exists>us req k vs. tr = us @ Asked req (DataKey k) # vs \<and> Booted \<notin> set vs \<and> PowerLost \<notin> set vs \<and> holds k l)"

definition phase_ok :: "string \<Rightarrow> string \<Rightarrow> gate_event list \<Rightarrow> lock \<Rightarrow> phase \<Rightarrow> bool" where
  "phase_ok db key tr l ph \<longleftrightarrow>
     (case phase_gate ph of None \<Rightarrow> True | Some g \<Rightarrow> ga_dbPath g = db \<and> ga_keyPath g = key)
   \<and> (case ph of
        Down \<Rightarrow> True
      | Waiting g \<Rightarrow> ga_state g \<in> {stateSetup, stateLocked} \<and> \<not> ga_srv g
      | Opening g \<Rightarrow> ga_state g = stateOpening \<and> opened_with tr l
      | Serving g \<Rightarrow> ga_state g = stateOpen \<and> ga_srv g \<and> opened_with tr l)"


lemma request_life:
  assumes L: "lib_ok L" "apart L PW" and l: "lock_ok L (ga_keyPath g) PW l (names d)"
    and req: "asks_ok PW rnd req" and run: "handle L w rnd bk req g (d\<lparr>dk_fates := vs\<rparr>) = (r, d')"
  shows "r = Ret (sv, g') \<Longrightarrow> gate_keeps g sv g' \<and> (\<exists>l'. comes_to w req sv l l' \<and> lock_ok L (ga_keyPath g) PW l' (names d'))"
    "r = Halt \<Longrightarrow> \<exists>l'. maybe_did req l l' \<and> lock_ok L (ga_keyPath g) PW l' (names d')"
proof -
  have e: "end_on False (request_end L w (ga_keyPath g) PW l req g) (\<lambda>_ _. False) (request_stops L (ga_keyPath g) PW l req) names (r, d')"
    using wp_onD [OF wp_handle [OF L req, of g l "names (d\<lparr>dk_fates := vs\<rparr>)" w bk]] l by (simp add: run)
  show "r = Ret (sv, g') \<Longrightarrow> gate_keeps g sv g' \<and> (\<exists>l'. comes_to w req sv l l' \<and> lock_ok L (ga_keyPath g) PW l' (names d'))"
    using e by (simp add: request_end_def)
  show "r = Halt \<Longrightarrow> \<exists>l'. maybe_did req l l' \<and> lock_ok L (ga_keyPath g) PW l' (names d')"
    using e by (simp add: request_stops_def)
qed

lemma lock_ok_others:
  assumes "lock_ok L key PW l (names d)" "dk_files d' key = dk_files d key" "set (dk_behind d' key) \<subseteq> set (dk_behind d key)"
  shows "lock_ok L key PW l (names d')"
  using assms by (auto simp: lock_ok_def vault_rel_def names_def)

lemma boot_state:
  assumes "detectLock db key (d\<lparr>dk_fates := vs\<rparr>) = (Ret (Inr st), d')"
  shows "names d' = names d \<and> (st = stateSetup \<or> st = stateLocked)"
proof -
  let ?Q = "\<lambda>r G. G = names d \<and> (\<forall>st. r = Inr st \<longrightarrow> st = stateSetup \<or> st = stateLocked)"
  have "wp_on False (detectLock db key) ?Q (\<lambda>_ _. True) (\<lambda>_. True) names (names d)" by (rule wp_detectLock) auto
  then have "end_on False ?Q (\<lambda>_ _. True) (\<lambda>_. True) names (detectLock db key (d\<lparr>dk_fates := vs\<rparr>))" by (intro wp_onD) simp_all
  then show ?thesis using assms by simp
qed

lemma opened_more:
  "opened_with tr l \<Longrightarrow> comes_to w req sv l l' \<Longrightarrow> opened_with (tr @ [Asked req sv]) l'"
proof -
  assume o: "opened_with tr l" and c: "comes_to w req sv l l'"
  from o obtain us r k vs where v: "tr = us @ Asked r (DataKey k) # vs" "Booted \<notin> set vs" "PowerLost \<notin> set vs" "holds k l"
    unfolding opened_with_def by blast
  have "holds k l'" using comes_holds [OF c v(4)] by blast
  then show ?thesis using v(1-3) unfolding opened_with_def by (intro exI [of _ us] exI [of _ r] exI [of _ k] exI [of _ "vs @ [Asked req sv]"]) simp
qed

lemma opened_now: "comes_to w req (DataKey k) l l' \<Longrightarrow> opened_with (tr @ [Asked req (DataKey k)]) l'"
  using given_holds [of w req k l l'] unfolding opened_with_def by (intro exI [of _ tr] exI [of _ req] exI [of _ k] exI [of _ "[]"]) (simp add: holds_def)

lemma phase_keeps:
  "phase_ok db key tr l (Waiting g) \<Longrightarrow> gate_keeps g sv g' \<Longrightarrow> comes_to w req sv l l'
     \<Longrightarrow> phase_ok db key (tr @ [Asked req sv]) l' (case sv of DataKey _ \<Rightarrow> Opening g' | Answered _ \<Rightarrow> Waiting g')"
  "phase_ok db key tr l (Serving g) \<Longrightarrow> gate_keeps g sv g' \<Longrightarrow> comes_to w req sv l l' \<Longrightarrow> phase_ok db key (tr @ [Asked req sv]) l' (Serving g')"
proof -
  assume w: "phase_ok db key tr l (Waiting g)" "gate_keeps g sv g'" "comes_to w req sv l l'"
  show "phase_ok db key (tr @ [Asked req sv]) l' (case sv of DataKey _ \<Rightarrow> Opening g' | Answered _ \<Rightarrow> Waiting g')"
  proof (cases sv)
    case (DataKey k)
    then show ?thesis using w opened_now [of w req k l l' tr] by (simp add: phase_ok_def gate_keeps_def)
  next
    case (Answered rep)
    then show ?thesis using w by (auto simp: phase_ok_def gate_keeps_def)
  qed
next
  assume s: "phase_ok db key tr l (Serving g)" "gate_keeps g sv g'" "comes_to w req sv l l'"
  then show "phase_ok db key (tr @ [Asked req sv]) l' (Serving g')"
    using opened_more [OF _ s(3), of tr] by (cases sv) (auto simp: phase_ok_def gate_keeps_def)
qed

lemma phase_paths: "phase_ok db key tr l (Waiting g) \<or> phase_ok db key tr l (Serving g) \<Longrightarrow> ga_keyPath g = key"
  by (auto simp: phase_ok_def)

lemma phase_down [simp]: "phase_ok db key tr l Down"
  by (simp add: phase_ok_def)

lemma run_life:
  assumes L: "lib_ok L" "apart L PW"
  shows "gate_run L w db key PW tr d ph \<Longrightarrow> \<exists>l. lived w tr (None, {}) l \<and> lock_ok L key PW l (names d) \<and> phase_ok db key tr l ph"
proof (induction rule: gate_run.induct)
  case (NewDisk d)
  then show ?case by (intro exI [of _ "(None, {})"]) (simp add: lock_ok_def vault_rel_def binds_def owned_def names_def)
next
  case (Boots tr d vs st d' kdf tok)
  then obtain l where l: "lived w tr (None, {}) l" "lock_ok L key PW l (names d)" by blast
  have "lived w (tr @ [Booted]) (None, {}) l" using lived_snoc [OF l(1), of Booted] by (simp add: lock_event_def)
  then show ?case using l(2) boot_state [OF Boots.hyps(2)] by (intro exI [of _ l]) (auto simp: phase_ok_def newGate_def)
next
  case (Awaits tr d g rnd req bk vs sv g' d')
  then obtain l where l: "lived w tr (None, {}) l" "lock_ok L key PW l (names d)" "phase_ok db key tr l (Waiting g)" by blast
  have k: "ga_keyPath g = key" using l(3) phase_paths by blast
  from request_life(1) [OF L _ Awaits.hyps(2,3) refl, unfolded k, OF l(2)] obtain l' where
    l': "gate_keeps g sv g'" "comes_to w req sv l l'" "lock_ok L key PW l' (names d')" by blast
  have "lived w (tr @ [Asked req sv]) (None, {}) l'" using lived_snoc [OF l(1)] l'(2) by (simp add: lock_event_def)
  then show ?case using l'(3) phase_keeps(1) [OF l(3) l'(1,2)] by blast
next
  case (Opens tr d g)
  then show ?case by (auto simp: phase_ok_def opened_gate_def)
next
  case (Serves tr d g rnd req bk vs sv g' d')
  then obtain l where l: "lived w tr (None, {}) l" "lock_ok L key PW l (names d)" "phase_ok db key tr l (Serving g)" by blast
  have k: "ga_keyPath g = key" using l(3) phase_paths by blast
  from request_life(1) [OF L _ Serves.hyps(2,3) refl, unfolded k, OF l(2)] obtain l' where
    l': "gate_keeps g sv g'" "comes_to w req sv l l'" "lock_ok L key PW l' (names d')" by blast
  have "lived w (tr @ [Asked req sv]) (None, {}) l'" using lived_snoc [OF l(1)] l'(2) by (simp add: lock_event_def)
  then show ?case using l'(3) phase_keeps(2) [OF l(3) l'(1,2)] by blast
next
  case (Stops tr d ph g rnd req bk vs d')
  then obtain l where l: "lived w tr (None, {}) l" "lock_ok L key PW l (names d)" "phase_ok db key tr l ph" by blast
  have k: "ga_keyPath g = key" using l(3) Stops.hyps(2) phase_paths by blast
  from request_life(2) [OF L _ Stops.hyps(3,4) refl, unfolded k, OF l(2)] obtain l' where
    l': "maybe_did req l l'" "lock_ok L key PW l' (names d')" by blast
  have "lived w (tr @ [CutOff req]) (None, {}) l'" using lived_snoc [OF l(1)] l'(1) by (simp add: lock_event_def)
  then show ?case using l'(2) by (intro exI [of _ l']) simp
next
  case (Ends tr d ph)
  then show ?case by (metis phase_down)
next
  case (Dark tr d ph d')
  then obtain l where l: "lived w tr (None, {}) l" "lock_ok L key PW l (names d)" by blast
  have "vault_rel L key (names d) l" using l(2) by (simp add: lock_ok_def)
  from vault_rel_cut [OF this Dark.hyps(2)] obtain a where a: "a \<in> insert (fst l) (snd l)" "vault_rel L key (names d') (a, {})" by blast
  have "lock_event w PowerLost l (a, {})" using a(1) unfolding lock_event_def gate_event.case by blast
  from lived_snoc [OF l(1) this] have "lived w (tr @ [PowerLost]) (None, {}) (a, {})" .
  moreover have "lock_ok L key PW (a, {}) (names d')" using a l(2) by (auto simp: lock_ok_def owned_def)
  ultimately show ?case using phase_down by blast
next
  case (Others tr d ph d')
  then show ?case using lock_ok_others by blast
qed


text \<open>What a request that was given the key, and an acknowledgement, say of the lives they are part of.\<close>

lemma given_from:
  assumes "lived w (us @ Asked req (DataKey k) # vs) l0 l"
  shows "\<exists>l1. lived w us l0 l1 \<and> (fst l1 = Some (k, gq_password req) \<or> fst l1 = None \<and> gq_repeat req = gq_password req \<and> CheckPassword (gq_password req) = None)"
    "PowerLost \<notin> set vs \<longrightarrow> (\<exists>pw. fst l = Some (k, pw))"
proof -
  obtain l1 l2 where s: "lived w us l0 l1" "comes_to w req (DataKey k) l1 l2" "lived w vs l2 l"
    using assms unfolding lived_append lived.simps lock_event_def gate_event.case by blast
  show "\<exists>l1. lived w us l0 l1 \<and> (fst l1 = Some (k, gq_password req) \<or> fst l1 = None \<and> gq_repeat req = gq_password req \<and> CheckPassword (gq_password req) = None)"
    using s(1,2) by (intro exI [of _ l1]) (auto simp: comes_to_def sets_first_def)
  have "holds k l2" using given_holds [OF s(2)] by (simp add: holds_def)
  then show "PowerLost \<notin> set vs \<longrightarrow> (\<exists>pw. fst l = Some (k, pw))" using lived_holds [OF s(3)] by (auto simp: holds_def)
qed

lemma acknowledged_from:
  assumes "lived False (us @ e # vs) l0 l" "acknowledges e = Some p"
  shows "\<exists>k pw. fst l = Some (k, pw) \<and> (\<forall>req k'. Asked req (DataKey k') \<in> set (e # vs) \<longrightarrow> k' = k)
    \<and> ((\<forall>e' \<in> set vs. \<not> asks_change e') \<longrightarrow> pw = p \<and> (\<forall>req k'. Asked req (DataKey k') \<in> set vs \<longrightarrow> gq_password req = p))"
proof -
  obtain l1 l2 where s: "lock_event False e l1 l2" "lived False vs l2 l" using assms(1) unfolding lived_append lived.simps by blast
  obtain k where k: "l2 = (Some (k, p), {})" "\<forall>req k'. e = Asked req (DataKey k') \<longrightarrow> k' = k" using acknowledged_settles [OF s(1) assms(2)] by blast
  have f: "firm k l" "\<forall>req k'. Asked req (DataKey k') \<in> set vs \<longrightarrow> k' = k" using lived_firm [OF s(2), of k] by (simp_all add: k(1) firm_def)
  obtain pw where pw: "fst l = Some (k, pw)" using f(1) by (auto simp: firm_def)
  have "pw = p \<and> (\<forall>req k'. Asked req (DataKey k') \<in> set vs \<longrightarrow> gq_password req = p)" if "\<forall>e' \<in> set vs. \<not> asks_change e'"
    using lived_settled [OF s(2) [unfolded k(1)] that] pw by simp
  then show ?thesis using pw k(2) f(2) by (intro exI [of _ k] exI [of _ pw]) auto
qed

section \<open>What a refusal changes\<close>

text \<open>An operation on the key file that answers anything but a failed call, or success, left the directory alone.\<close>

lemma wp_ReadFile_any: "(\<And>r. Q r F) \<Longrightarrow> C F \<Longrightarrow> wp_on q (vault_ReadFile path) Q E C names F"
  unfolding vault_ReadFile_def by (intro wp_intros) auto

lemma wp_WriteFile_io: "wp_on False (WriteFile w path data) (\<lambda>r _. \<forall>e. r = Inl e \<longrightarrow> (\<exists>x. e = ErrIO x)) (\<lambda>_ _. True) (\<lambda>_. True) names F"
  by (rule wp_WriteFile) auto

definition refusal_keeps :: "ndir \<Rightarrow> vault_err + 'a \<Rightarrow> ndir \<Rightarrow> bool" where
  "refusal_keeps F r G \<longleftrightarrow> (\<forall>e. r = Inl e \<and> (\<forall>x. e \<noteq> ErrIO x) \<longrightarrow> G = F)"

lemma Change_refusal: "wp_on False (Change L w rnd path current nxt params) (refusal_keeps F) (\<lambda>_ _. True) (\<lambda>_. True) names F"
proof -
  have writes: "wp_on False (WriteFile w path data) (refusal_keeps F) (\<lambda>_ _. True) (\<lambda>_. True) names F" for data
    by (rule wp_mono [OF wp_WriteFile_io]) (auto simp: refusal_keeps_def)
  show ?thesis unfolding Change_def
    by (intro wp_option wp_andThen wp_ReadFile_any wp_sum writes wp_ret) (auto simp: refusal_keeps_def intro!: wp_ret writes split: sum.splits)
qed

lemma Create_refusal: "wp_on False (vault_Create L w rnd path p params) (refusal_keeps F) (\<lambda>_ _. True) (\<lambda>_. True) names F"
proof -
  have writes: "wp_on False (andThen (WriteFile w path data) (\<lambda>written. ret (case written of Inl e \<Rightarrow> Inl e | Inr _ \<Rightarrow> Inr k))) (refusal_keeps F) (\<lambda>_ _. True) (\<lambda>_. True) names F"
    for data and k :: string
    by (intro wp_andThen wp_ret wp_mono [OF wp_WriteFile_io]) (auto simp: refusal_keeps_def intro!: wp_ret split: sum.splits)
  show ?thesis unfolding vault_Create_def
    by (intro wp_option wp_andThen wp_attempt n_Stat wp_sum writes wp_ret) (auto simp: refusal_keeps_def intro!: wp_ret writes split: sum.splits option.splits)
qed

lemma Open_reads: "wp_on False (vault_Open L path p) (\<lambda>_ G. G = F) (\<lambda>_ _. True) (\<lambda>_. True) names F"
  unfolding vault_Open_def by (intro wp_andThen wp_ReadFile_any wp_ret) auto

text \<open>The answers that refuse: everything but success and a failure to be looked up in the log.\<close>

definition refuses :: "served \<Rightarrow> bool" where
  "refuses sv \<longleftrightarrow> (\<exists>rep. sv = Answered rep \<and> gp_code rep \<in> {codeWrong, codeShort, codeMismatch, codeState})"

lemma refuses_simps [simp]:
  "\<not> refuses (DataKey k)" "\<not> refuses (Answered \<lparr>gp_code = '''', gp_message = m\<rparr>)" "\<not> refuses (Answered \<lparr>gp_code = gate_codeInternal, gp_message = m\<rparr>)"
  by (simp_all add: refuses_def codeWrong_def codeShort_def codeMismatch_def codeState_def gate_codeInternal_def)

lemma handle_refusal: "wp_on False (handle L w rnd bk req g) (\<lambda>r G. refuses (fst r) \<longrightarrow> G = F) (\<lambda>_ _. True) (\<lambda>_. True) names F"
proof -
  let ?wp = "\<lambda>m. wp_on False m (\<lambda>r G. refuses (fst r) \<longrightarrow> G = F) (\<lambda>_ _. True) (\<lambda>_. True) names"
  have ans: "?wp (answer_with code msg g') F" for code msg g' unfolding answer_with_def by (intro wp_ret) simp
  have quiet: "?wp (ret (DataKey k, g')) G" "?wp (answer_with '''' msg g') G" "?wp (answer_with gate_codeInternal msg g') G" for k msg g' G
    unfolding answer_with_def by (intro wp_ret; simp)+
  have creates: "?wp (andThen (vault_Create L w rnd (ga_keyPath g) (gq_password req) (ga_kdf g)) (\<lambda>made.
      case made of
        Inr k \<Rightarrow> ret (DataKey k, g\<lparr>ga_state := stateOpening\<rparr>)
      | Inl e \<Rightarrow> if e = ErrExists then answer_with codeState '''' g
                else answer_with gate_codeInternal ''the server could not write its key file - see its log'' g)) F"
    by (rule wp_andThen, rule wp_mono [OF Create_refusal]) (auto simp: refusal_keeps_def intro!: quiet ans split: sum.splits)
  have changes: "?wp (change L w rnd req g) F" unfolding change_def
    by (rule wp_andThen, rule wp_mono [OF Change_refusal]) (auto simp: refusal_keeps_def intro!: quiet ans split: sum.splits)
  have opens: "?wp (unlock L req g) F" unfolding unlock_def
    by (rule wp_andThen, rule wp_mono [OF Open_reads]) (auto intro!: quiet ans split: sum.splits)
  have sets: "?wp (gate_setup L w rnd req g) F" unfolding gate_setup_def
    by (intro wp_if ans wp_andThen wp_detectLock) (auto intro!: ans creates)
  show ?thesis unfolding handle_def Let_def
    by (cases "gq_kind req"; cases bk) (auto intro!: ans sets opens changes simp: backup_def)
qed

section \<open>What the lock promises\<close>

definition sample_asked_setup :: gateRequest where
  "sample_asked_setup = \<lparr>gq_kind = reqSetup, gq_password = first_password, gq_repeat = first_password, gq_current = first_password, gq_path = ''''\<rparr>"

lemma sample_gate_run:
  "\<exists>d g. gate_run sample_lib False ''db'' ''k'' {first_password, second_password}
     [Booted, Asked sample_asked_setup (DataKey (replicate 32 CHR ''d''))] d (Opening g)"
proof -
  let ?run = "gate_run sample_lib False ''db'' ''k'' {first_password, second_password}"
  let ?g = "newGate ''db'' ''k'' stateSetup DefaultParams ''form''"
  have q: "fresh_disk\<lparr>dk_fates := []\<rparr> = fresh_disk" by (simp add: fresh_disk_def)
  have see: "detectLock ''db'' ''k'' fresh_disk = (Ret (Inr stateSetup), fresh_disk)"
    by (simp add: detectLock_def present_def andThen_def attempt_def ret_def fs_Stat_def reading_def fresh_disk_def missing_def)
  have "?run [] fresh_disk Down" by (rule NewDisk) (simp_all add: fresh_disk_def)
  from Boots [OF this, of "[]" stateSetup fresh_disk] see q have boot: "?run [Booted] fresh_disk (Waiting ?g)" by simp
  obtain d1 where c: "vault_Create sample_lib False sample_draws ''k'' first_password DefaultParams fresh_disk = (Ret (Inr (replicate 32 CHR ''d'')), d1)"
    using sample_created by blast
  have h: "handle sample_lib False sample_draws BackupWritten sample_asked_setup ?g (fresh_disk\<lparr>dk_fates := []\<rparr>)
      = (Ret (DataKey (replicate 32 CHR ''d''), ?g\<lparr>ga_state := stateOpening\<rparr>), d1)"
    unfolding q
    by (simp add: handle_def gate_setup_def newGate_def sample_asked_setup_def sample_passwords andThen_def [of "detectLock _ _"] see
        andThen_def [of "vault_Create _ _ _ _ _ _"] c ret_def)
  from Awaits [OF boot _ h] have "?run ([Booted] @ [Asked sample_asked_setup (DataKey (replicate 32 CHR ''d''))]) d1 (Opening (?g\<lparr>ga_state := stateOpening\<rparr>))"
    using sample_draws_ok by (simp add: asks_ok_def sample_asked_setup_def)
  then show ?thesis by auto
qed

text \<open>
  C10. Over the whole life of a server, with faults, crashes, restarts and power cuts that undo what was not
  flushed, the requests and their answers are those of the abstract lock: the data key goes to the password in
  force, or to the first password, given twice, and to no other; a change is done only by the bearer of the password in force. The
  key file holds the key a request was given for as long as the power holds. Once a first
  password or a change was acknowledged, on a machine that flushes directories, the key is the same for ever, and until a change is asked
  for again that password alone is given it. A process opens or serves its data only after a request
  to it was given the key the file holds.
\<close>

theorem data_key_needs_password:
  assumes "lib_ok L" and "apart L PW" and "gate_run L w db key PW tr d ph"
  shows "\<exists>l. lived w tr (None, {}) l \<and> vault_rel L key (names d) l
    \<and> (\<forall>us req k vs. tr = us @ Asked req (DataKey k) # vs \<longrightarrow>
         (\<exists>l0. lived w us (None, {}) l0
            \<and> (fst l0 = Some (k, gq_password req)
               \<or> fst l0 = None \<and> gq_repeat req = gq_password req \<and> CheckPassword (gq_password req) = None))
         \<and> (PowerLost \<notin> set vs \<longrightarrow> (\<exists>pw. fst l = Some (k, pw))))
    \<and> (\<forall>us e p vs. tr = us @ e # vs \<and> acknowledges e = Some p \<and> \<not> w \<longrightarrow>
         (\<exists>k pw. fst l = Some (k, pw) \<and> (\<forall>req k'. Asked req (DataKey k') \<in> set (e # vs) \<longrightarrow> k' = k)
            \<and> ((\<forall>e' \<in> set vs. \<not> asks_change e') \<longrightarrow> pw = p \<and> (\<forall>req k'. Asked req (DataKey k') \<in> set vs \<longrightarrow> gq_password req = p))))
    \<and> (\<forall>g. ph = Opening g \<or> ph = Serving g \<longrightarrow>
         (\<exists>us req k vs pw. tr = us @ Asked req (DataKey k) # vs \<and> Booted \<notin> set vs \<and> fst l = Some (k, pw)))
    \<and> (\<forall>g. ph = Waiting g \<longrightarrow> ga_state g = stateSetup \<or> ga_state g = stateLocked)"
proof -
  obtain l where l: "lived w tr (None, {}) l" "lock_ok L key PW l (names d)" "phase_ok db key tr l ph" using run_life [OF assms] by blast
  have given: "(\<exists>l0. lived w us (None, {}) l0
       \<and> (fst l0 = Some (k, gq_password req) \<or> fst l0 = None \<and> gq_repeat req = gq_password req \<and> CheckPassword (gq_password req) = None))
     \<and> (PowerLost \<notin> set vs \<longrightarrow> (\<exists>pw. fst l = Some (k, pw)))" if t: "tr = us @ Asked req (DataKey k) # vs" for us req k vs
    using given_from [OF l(1) [unfolded t]] by blast
  have ack: "\<exists>k pw. fst l = Some (k, pw) \<and> (\<forall>req k'. Asked req (DataKey k') \<in> set (e # vs) \<longrightarrow> k' = k)
       \<and> ((\<forall>e' \<in> set vs. \<not> asks_change e') \<longrightarrow> pw = p \<and> (\<forall>req k'. Asked req (DataKey k') \<in> set vs \<longrightarrow> gq_password req = p))"
    if t: "tr = us @ e # vs" and a: "acknowledges e = Some p" and w: "\<not> w" for us e p vs
    using acknowledged_from [OF _ a, of us vs "(None, {})" l] l(1) w t by simp
  have opened: "\<exists>us req k vs pw. tr = us @ Asked req (DataKey k) # vs \<and> Booted \<notin> set vs \<and> fst l = Some (k, pw)" if "opened_with tr l"
    using that unfolding opened_with_def holds_def by blast
  have "vault_rel L key (names d) l" using l(2) by (simp add: lock_ok_def)
  moreover have "\<exists>us req k vs pw. tr = us @ Asked req (DataKey k) # vs \<and> Booted \<notin> set vs \<and> fst l = Some (k, pw)" if "ph = Opening g \<or> ph = Serving g" for g
    using l(3) that opened by (auto simp: phase_ok_def)
  moreover have "ga_state g = stateSetup \<or> ga_state g = stateLocked" if "ph = Waiting g" for g using l(3) that by (simp add: phase_ok_def)
  ultimately show ?thesis using l(1) given ack by (intro exI [of _ l] conjI) blast+
qed

theorem data_key_needs_password_witness:
  "\<exists>d g l. gate_run sample_lib False ''db'' ''k'' {first_password, second_password}
      [Booted, Asked sample_asked_setup (DataKey (replicate 32 CHR ''d''))] d (Opening g)
    \<and> vault_rel sample_lib ''k'' (names d) l \<and> fst l = Some (replicate 32 CHR ''d'', first_password)"
proof -
  let ?e = "Asked sample_asked_setup (DataKey (replicate 32 CHR ''d''))"
  obtain d g where r: "gate_run sample_lib False ''db'' ''k'' {first_password, second_password} [Booted, ?e] d (Opening g)"
    using sample_gate_run by blast
  from data_key_needs_password [OF sample_lib_ok sample_apart r] obtain l where "vault_rel sample_lib ''k'' (names d) l"
      and ack: "\<forall>us e p vs. [Booted, ?e] = us @ e # vs \<and> acknowledges e = Some p \<and> \<not> False \<longrightarrow>
         (\<exists>k pw. fst l = Some (k, pw) \<and> (\<forall>req k'. Asked req (DataKey k') \<in> set (e # vs) \<longrightarrow> k' = k)
            \<and> ((\<forall>e' \<in> set vs. \<not> asks_change e') \<longrightarrow> pw = p \<and> (\<forall>req k'. Asked req (DataKey k') \<in> set vs \<longrightarrow> gq_password req = p)))"
    by (elim exE conjE) (rule that, assumption+)
  moreover have "acknowledges ?e = Some first_password" by (simp add: sample_asked_setup_def)
  with spec [OF spec [OF spec [OF spec [OF ack, of "[Booted]"], of ?e], of first_password], of "[]"]
  have "fst l = Some (replicate 32 CHR ''d'', first_password)" by auto
  ultimately show ?thesis using r by blast
qed

text \<open>
  C20. A request that is refused - a wrong password, a short one, two that differ, a state that does not
  take it - leaves every file of the directory as it was, whatever calls failed on the way.
\<close>

theorem refusal_changes_nothing:
  assumes "handle L w rnd bk req g d = (Ret (Answered rep, g'), d')" and "gp_code rep \<in> {codeWrong, codeShort, codeMismatch, codeState}"
  shows "dk_files d' = dk_files d"
proof -
  have "end_on False (\<lambda>r G. refuses (fst r) \<longrightarrow> G = names d) (\<lambda>_ _. True) (\<lambda>_. True) names (handle L w rnd bk req g d)"
    by (intro wp_onD handle_refusal) simp
  then have "names d' = names d" using assms by (auto simp: refuses_def)
  then have "dk_files d' n = dk_files d n" for n by (metis names_def fst_conv)
  then show ?thesis by blast
qed

theorem refusal_changes_nothing_witness:
  "\<exists>d' rep g'. handle sample_lib False sample_draws BackupWritten (sample_asked_setup\<lparr>gq_repeat := second_password\<rparr>)
      (newGate ''db'' ''k'' stateSetup DefaultParams ''form'') fresh_disk = (Ret (Answered rep, g'), d')
    \<and> gp_code rep = codeMismatch \<and> dk_files d' = dk_files fresh_disk"
proof -
  have "first_password \<noteq> second_password" by (simp add: first_password_def second_password_def)
  then have h: "handle sample_lib False sample_draws BackupWritten (sample_asked_setup\<lparr>gq_repeat := second_password\<rparr>)
      (newGate ''db'' ''k'' stateSetup DefaultParams ''form'') fresh_disk
    = (Ret (Answered \<lparr>gp_code = codeMismatch, gp_message = ''''\<rparr>, newGate ''db'' ''k'' stateSetup DefaultParams ''form''), fresh_disk)"
    by (simp add: handle_def newGate_def sample_asked_setup_def gate_setup_def sample_passwords answer_with_def ret_def)
  show ?thesis using refusal_changes_nothing [OF h] h by simp
qed

text \<open>
  C21. What reaches the key file comes from this machine: a \<open>POST\<close> whose host names the machine, either
  with the commands' header and no origin, which no page can send, or from the page itself, with
  its origin and the form token of this process. Before the data is open, any other path shows
  the lock page or refuses.
\<close>

theorem only_this_machine_asks:
  assumes "page_handler IsAbs Clean sf g r = Asks req k"
  shows "localHost sf (pr_Host r) \<and> pr_Method r = ''POST''
    \<and> (pr_Control r = ''1'' \<and> pr_Origins r = [] \<and> gq_kind req \<in> {reqOpen, reqChange, reqBackup} \<and> k = answerControl
      \<or> EqualFold sf (first_of (pr_Origins r)) (''http://'' @ pr_Host r) \<and> (\<exists>form. pr_Form r = Some form \<and> form ''token'' = ga_formToken g)
        \<and> ga_formToken g \<noteq> '''' \<and> gq_kind req \<in> {reqSetup, reqUnlock, reqChange} \<and> k = answerForm)"
proof -
  have command: "controlAllowed sf r \<and> gq_kind req \<in> {reqOpen, reqChange, reqBackup} \<and> k = answerControl"
    if "handleControlUnlock sf r = Asks req k \<or> handleControlPassword sf r = Asks req k \<or> handleControlBackup IsAbs Clean sf r = Asks req k"
    using that by (auto simp: handleControlUnlock_def handleControlPassword_def handleControlBackup_def no_request_def split: if_splits option.splits)
  have form: "formAllowed sf r (ga_formToken g) \<and> gq_kind req = kind \<and> k = answerForm" if "handlePasswordForm sf g kind r = Asks req k" for kind
    using that by (auto simp: handlePasswordForm_def no_request_def Let_def split: if_splits)
  have "pr_Method r = ''POST'' \<and> (handleControlUnlock sf r = Asks req k \<or> handleControlPassword sf r = Asks req k \<or> handleControlBackup IsAbs Clean sf r = Asks req k
      \<or> (\<exists>kind \<in> {reqSetup, reqUnlock, reqChange}. handlePasswordForm sf g kind r = Asks req k))"
    using assms by (auto simp: page_handler_def Let_def split: if_splits)
  then have "pr_Method r = ''POST''" and "controlAllowed sf r \<and> gq_kind req \<in> {reqOpen, reqChange, reqBackup} \<and> k = answerControl
      \<or> formAllowed sf r (ga_formToken g) \<and> gq_kind req \<in> {reqSetup, reqUnlock, reqChange} \<and> k = answerForm"
    using command form by blast+
  then show ?thesis by (auto simp: controlAllowed_def formAllowed_def tokenMatches_def split: option.splits)
qed

theorem only_this_machine_asks_witness:
  "\<exists>req k. page_handler (\<lambda>_. True) id id (newGate ''db'' ''k'' stateLocked DefaultParams ''form'')
      \<lparr>pr_Method = ''POST'', pr_Path = ''/control/unlock'', pr_Host = ''localhost'', pr_Control = ''1'', pr_Origins = [], pr_Form = None,
       pr_Json = Some (JObj [(''password'', JStr first_password)])\<rparr> = Asks req k
    \<and> gq_kind req \<in> {reqOpen, reqChange, reqBackup} \<and> localHost id ''localhost''"
proof -
  let ?r = "\<lparr>pr_Method = ''POST'', pr_Path = ''/control/unlock'', pr_Host = ''localhost'', pr_Control = ''1'', pr_Origins = [], pr_Form = None,
       pr_Json = Some (JObj [(''password'', JStr first_password)])\<rparr>"
  have l: "localHost id ''localhost''"
    by (simp add: localHost_def SplitHostPort_def CutPrefix_def TrimSuffix_def CutSuffix_def EqualFold_def Let_def)
  have "control_member id ?r ''password'' = Some first_password" "control_member id ?r ''repeat'' = Some ''''"
    by (simp_all add: control_member_def members_def field_vals_def foldCase_id_ascii byte_def)
  then have h: "page_handler (\<lambda>_. True) id id (newGate ''db'' ''k'' stateLocked DefaultParams ''form'') ?r
      = Asks ((no_request reqOpen)\<lparr>gq_password := first_password, gq_repeat := ''''\<rparr>) answerControl"
    using l by (simp add: page_handler_def handleControlUnlock_def controlAllowed_def)
  show ?thesis using only_this_machine_asks [OF h] h by (auto simp: no_request_def)
qed

end
