(* ===== verification/Spec2Isabelle.thy ===== *)
theory Spec2Isabelle
  imports Journal_Properties Pairing_Properties Machine_Properties Hub Transfer_Tokens Log_Scrub Registry_Properties Link_Properties Delivery_Properties Transfer_Properties
    Channel_Properties Gate_Properties
begin

text \<open>
  A verification library for the client backend of the NOX messenger (\<open>src/client_backend\<close>, Go).
  The backend runs on its owner's machine. Devices pair with it by a link, talk to it over a
  websocket (commands, replies, events) and move attachment bytes over HTTP. Its data on disk is
  encrypted under a key only the owner's password opens.

  \<^bold>\<open>The parts of the program and how they meet.\<close>
  The store (\<open>internal/store\<close>) is the only durable truth: chats, messages, files and an event log,
  written together in one transaction each; people, devices, pairing tokens and requests; the
  server's identity and addresses. A session (\<open>internal/server/ws.go\<close>, \<open>handlers.go\<close>,
  \<open>pairing.go\<close>, \<open>files.go\<close>) reads a frame, runs the command's handler and queues one reply. The
  dispatcher (\<open>server.go\<close>) reads the log after every kick and hands each event to the hub
  (\<open>internal/hub\<close>), which offers it to every subscribed connection; a greeting replays the log from
  the client's cursor and then forwards the live events. The registry (\<open>unpaired.go\<close>,
  \<open>requests.go\<close>, \<open>client.go\<close>) holds the connections, limits those of strangers and carries the
  pairing notices between them. Transfer tokens (\<open>tokens.go\<close>), the registry of writers
  (\<open>writers.go\<close>) and the blob store (\<open>internal/blob\<close>) carry attachments.

  Before all this stand two doors. A server starts behind its lock (\<open>gate.go\<close>): the owner's password
  opens the key file (\<open>internal/vault\<close>), and its data key the database and the blobs. And every
  connection comes through the sealed channel (\<open>channel.go\<close>): a bounded entry for handshakes, TLS,
  and the check of a device key by signed challenges (\<open>internal/connauth\<close>); only what passed is handed
  to the HTTP server that runs the sessions and the transfers.

  \<^bold>\<open>The theories.\<close>
  \<^item> \<open>Nox_Prelude\<close>, \<open>Go_Text\<close>, \<open>Go_Runes\<close>, \<open>Go_Net\<close>, \<open>Base64\<close>, \<open>Go_Json\<close>: shared lemmas, the fault and
    transaction vocabulary, and what the code uses of Go's standard library (integers that wrap
    at 64 bits, UTF-8, trimming and folding, IP addresses, base64, the reading of JSON texts).
  \<^item> \<open>Wire\<close>, \<open>Tables\<close>: wire models and error codes of \<open>internal/protocol\<close>; the SQL tables as records
    of lists of rows.
  \<^item> \<open>Store_Journal\<close> (\<open>store.go\<close>), \<open>Store_Pairing\<close> (\<open>identity.go\<close>, \<open>pairing.go\<close>, \<open>requests.go\<close>,
    \<open>devices.go\<close>), \<open>Store_Machine\<close> (\<open>serverkey.go\<close>, \<open>addresses.go\<close>, \<open>stats.go\<close>): one definition for
    each operation. \<open>Store_Steps\<close> is the step relation of all of them and its invariants.
    \<open>Journal_Properties\<close>, \<open>Pairing_Properties\<close>, \<open>Machine_Properties\<close> hold what they promise.
  \<^item> \<open>Hub\<close> (\<open>hub.go\<close>), \<open>Transfer_Tokens\<close> (\<open>tokens.go\<close>), \<open>Log_Scrub\<close> (\<open>logscrub.go\<close>): model and
    promises together.
  \<^item> \<open>Frames\<close>, \<open>Registry\<close>, \<open>Registry_Properties\<close>: frames, the server's state and every operation on
    its registry of connections.
  \<^item> \<open>Pairing_Link\<close>, \<open>Link_Properties\<close> (\<open>pairing_link.go\<close>, \<open>address_settings.go\<close>): the text of a link
    and the addresses in it.
  \<^item> \<open>Session\<close>, \<open>Session_Properties\<close>: every command handler and the read loop's turn.
  \<^item> \<open>Dispatcher\<close>, \<open>Delivery\<close>, \<open>Delivery_Properties\<close>: store, dispatcher, hub and greetings composed,
    in any interleaving.
  \<^item> \<open>Disk\<close>, \<open>Disk_Rules\<close>: files under a directory with failing calls, crashes and power losses, and a
    weakest-precondition calculus for programs over them.
  \<^item> \<open>Blob\<close>, \<open>Blob_Format\<close>, \<open>Blob_Inv\<close>, \<open>Blob_Steps\<close>, \<open>Blob_Uploads\<close>, \<open>Blob_Reader\<close> (\<open>blob.go\<close>): the
    sealed format, every operation of an upload and of a reader, and what each keeps.
  \<^item> \<open>Transfers\<close>, \<open>Transfer_Steps\<close>, \<open>Transfer_Properties\<close> (\<open>files.go\<close>, \<open>writers.go\<close>): PUT, GET and the
    orphan sweep.
  \<^item> \<open>Connauth\<close>, \<open>Connauth_Properties\<close> (\<open>connauth.go\<close>): both halves of the check, down to the bytes of
    their messages.
  \<^item> \<open>Channel\<close>, \<open>Channel_Properties\<close> (\<open>channel.go\<close>): where connections come from, the entry's limits and
    warnings, handshakes; and the entry in any interleaving.
  \<^item> \<open>Vault\<close>, \<open>Vault_Properties\<close> (\<open>vault.go\<close>): the key file, its text and its operations on the disk; the
    abstract lock they refine.
  \<^item> \<open>Gate\<close>, \<open>Gate_Properties\<close> (\<open>gate.go\<close>, and the form checks of \<open>status_page.go\<close>): the lock's states, its
    requests and the handlers that pose them; the life of a server from start to restart.

  \<^bold>\<open>How the model reads.\<close>
  Text is a list of bytes (\<open>string\<close>), a Go \<open>int64\<close> an \<open>int\<close> with \<open>wrap64\<close> written where a sum or a product
  may leave its width. An operation that can fail returns \<open>err + 'a\<close>, one that can panic an
  \<open>option\<close> around it or its own outcome. A \<open>faults\<close> argument decides for every labelled statement
  of an operation whether the database refuses it, so each theorem that leaves it free covers
  every error path; a transaction that ends in an error leaves the store as it was. Random bytes,
  the clock and, for the frames of a session, the JSON value read are arguments. A handler runs as one step of the server,
  as the program's one writing connection and its mutex make it, except where others running in between matter:
  the greeting (subscribe, read, reply, replay), the three commands that write to the journal, whose commit, reply
  and wake-up of the dispatcher are steps of their own (\<open>Write\<close>, \<open>Write_reply\<close>, \<open>Write_kick\<close> of \<open>sys_step\<close>), the
  dispatcher's loop, and a PUT while it waits (\<open>pe_wait\<close>) and while its body arrives (\<open>pe_while\<close>).

  On the disk every call takes the next of \<open>dk_fates\<close>: it works, fails after some of its effect, or the
  machine stops in it. A loss of power keeps of each file what was synced and any mixture of what was
  not. What it keeps of the names comes in two strengths. \<open>power_cut\<close> promises nothing for a name whose directory was not
  flushed since it changed: it may be bound again to anything it was bound to before (\<open>dk_behind\<close>), each name by itself. The key
  file and the lock are proved against it, so that they rest on the flush at the end of \<open>WriteFile\<close>; on Windows
  (the argument \<open>w\<close>) \<open>SyncDir\<close> does nothing, and that an acknowledged change outlives a power cut is claimed for the other
  systems only. \<open>power_loss\<close> keeps the names as the calls left them: the blob store never flushes its directory,
  and what it promises of finished uploads is proved for file systems that order their names.
  An open file is known by its name. Ids hold no dot, as the store's generator makes them; declared sizes are below \<open>2 ^ 62\<close>,
  far above any limit of the configuration; the body of a PUT is what the client of that id
  sends from the offset it was told (\<open>honest\<close>). The cipher is a parameter with the laws of an AEAD
  (\<open>aead\<close>: a sealed text opens to itself and is sixteen bytes longer). The vault's laws (\<open>lib_ok\<close>) are
  the same with the size of Argon2id's key; \<open>apart\<close> adds that among the passwords of a run none
  opens what another seals. A key file's machine words are \<open>word\<close>s. The check's box and the reading
  of HTTP messages are parameters: \<open>signs\<close>, \<open>reads_back\<close>, \<open>keeps_to_text\<close> and \<open>box_errors\<close> state what the
  code relies on. TLS is whether it succeeds. Only the server writes its key file; anything
  else in the directory may change between its steps (\<open>gate_run\<close>).

  Three things are simpler than the code. \<open>unsubscribe\<close> does nothing where a hub's \<open>Unregister\<close> would panic, which no
  reachable state lets happen (\<open>Hub\<close>). A label of \<open>faults\<close> stands for every run of its statement within one call, so
  a second round of a loop does not fail alone. The PUTs and removals of one id follow one another (\<open>disk_run\<close>), as the
  registry of writers makes them; a \<open>Received\<close> answered while a PUT still runs, after \<open>continueUpload\<close> waited for it in
  vain, is not part of these histories.

  Fields marked as ghosts in \<open>Hub\<close> and \<open>Delivery\<close> record histories (what was offered, what was sent);
  no operation reads them. Loops are structural or carry a termination proof; nothing runs on fuel.

  \<^bold>\<open>What is shown.\<close>
  The journal: a message is stored once however often it is sent, the log only grows and a replay
  gives exactly what a cursor missed, pages cover the history, names stay unique, the sweep takes
  exactly the orphans. Pairing: a device enters only by a live link or by its issuer's timely
  allowance, spent tokens never change, a revoked device loses everything, one person owns all.
  Delivery: commands are answered once, events reach every greeted connection in order without a
  gap, no wake-up is lost between a commit and its kick, and the dispatcher catches up. Strangers: their number, their waits and their timers are
  bounded in every interleaving. Links and logs: links are read back, logs never hold one. Transfers:
  a token admits one transfer, one request writes a file at a time; whatever fails and whenever
  the power goes, a finished file is the whole file and the progress told to a client is true;
  uploads complete, broken ones go on within a chunk, and readers serve exactly the bytes. The
  channel: at most 256 handshakes, a flood from one source spares the others, only a proved key is
  served, every refusal is answered once. The lock: the data key survives every fault, crash and
  power cut behind the old password or the new one; what was acknowledged once flushed is not undone, and
  from then on the key never changes; a request is given it only for the password in force, or for the first one,
  given twice; a refusal changes nothing; a page of another site cannot ask.

  \<^bold>\<open>Not modelled.\<close>
  \<open>MarshalFrame\<close> and the other JSON writers of frames (output only); HTTP routing, timeouts and write
  deadlines, \<open>http.ServeContent\<close>'s ranges (standard library); the pages' HTML and the figures they
  show, the listener the service page stands on, and what a backup comes to (a parameter of the
  gate); the backup archive (tar and zip streams); flags, prompts, service files and the client
  side of the commands (wiring and I/O); \<open>internal/db\<close> (the SQLite driver's settings and SQL text);
  the memory of the WebAssembly box (\<open>securebox\<close>, and \<open>boxwasm\<close>, which is generated).
\<close>

end
